(* ===== verification/Prelude.thy ===== *)
theory Prelude
  imports Main "HOL-Library.Multiset" "HOL-Library.Word"
begin

section \<open>Shared vocabulary of the models\<close>

text \<open>
  Every C function that can fail an assertion, follow a null pointer or leave an array is
  modelled by a function into \<open>'a cres\<close>: \<open>Inl f\<close> is the fault, \<open>Inr x\<close> the result.
  \<open>KASSERT\<close> halts the machine, so a failed assertion is a fault like any other. This
  theory holds that result type, the array accesses that check their index, and the lemmas
  on lists and results the component theories share.
\<close>

named_theorems c_simps \<open>evaluation of faulting computations\<close>
named_theorems c_intros \<open>introduction rules for successful computations\<close>

datatype fault =
    Assert_Failed string
  | Out_Of_Bounds
  | Null_Pointer
  | Undefined_Value

type_synonym 'a cres = "fault + 'a"

definition cbind :: "'a cres \<Rightarrow> ('a \<Rightarrow> 'b cres) \<Rightarrow> 'b cres" where
  "cbind m f = (case m of Inl e \<Rightarrow> Inl e | Inr x \<Rightarrow> f x)"

definition kassert :: "bool \<Rightarrow> string \<Rightarrow> unit cres" where
  "kassert b msg = (if b then Inr () else Inl (Assert_Failed msg))"

definition deref :: "'a option \<Rightarrow> 'a cres" where
  "deref p = (case p of None \<Rightarrow> Inl Null_Pointer | Some x \<Rightarrow> Inr x)"

definition rd :: "'a list \<Rightarrow> nat \<Rightarrow> 'a cres" where
  "rd xs i = (if i < length xs then Inr (xs ! i) else Inl Out_Of_Bounds)"

definition wr :: "'a list \<Rightarrow> nat \<Rightarrow> 'a \<Rightarrow> 'a list cres" where
  "wr xs i x = (if i < length xs then Inr (xs[i := x]) else Inl Out_Of_Bounds)"

text \<open>An index held in a C \<open>int\<close>: a negative one is out of bounds as well.\<close>

definition rdi :: "'a list \<Rightarrow> int \<Rightarrow> 'a cres" where
  "rdi xs i = (if i < 0 then Inl Out_Of_Bounds else rd xs (nat i))"

definition wri :: "'a list \<Rightarrow> int \<Rightarrow> 'a \<Rightarrow> 'a list cres" where
  "wri xs i x = (if i < 0 then Inl Out_Of_Bounds else wr xs (nat i) x)"

text \<open>Overflow of an \<open>int\<close> is undefined.\<close>

definition cint :: "int \<Rightarrow> int cres" where
  "cint i = (if - (2 ^ 31) \<le> i \<and> i < 2 ^ 31 then Inr i else Inl Undefined_Value)"

fun cfold :: "('s \<Rightarrow> 'a \<Rightarrow> 's cres) \<Rightarrow> 's \<Rightarrow> 'a list \<Rightarrow> 's cres" where
  "cfold f s [] = Inr s"
| "cfold f s (x # xs) = cbind (f s x) (\<lambda>s'. cfold f s' xs)"

subsection \<open>Computation rules\<close>

lemma cbind_simps [simp, c_simps]:
  "cbind (Inl e) f = Inl e"
  "cbind (Inr x) f = f x"
  by (simp_all add: cbind_def)

lemma cbind_cong [fundef_cong]:
  "m = m' \<Longrightarrow> (\<And>x. m' = Inr x \<Longrightarrow> f x = f' x) \<Longrightarrow> cbind m f = cbind m' f'"
  by (auto simp: cbind_def split: sum.splits)

lemma cbind_Inr [simp]: "cbind m Inr = m"
  by (cases m) auto

text \<open>Evaluates a computation step by step: the continuation waits for its argument.\<close>

lemma cbind_weak_cong: "m = m' \<Longrightarrow> cbind m f = cbind m' f"
  by simp

lemma cbind_split:
  "P (cbind m f) \<longleftrightarrow> (\<forall>e. m = Inl e \<longrightarrow> P (Inl e)) \<and> (\<forall>x. m = Inr x \<longrightarrow> P (f x))"
  by (cases m) auto

lemma cbind_split_asm:
  "P (cbind m f) \<longleftrightarrow> \<not> ((\<exists>e. m = Inl e \<and> \<not> P (Inl e)) \<or> (\<exists>x. m = Inr x \<and> \<not> P (f x)))"
  by (cases m) auto

lemmas cbind_splits = cbind_split cbind_split_asm

lemma cbind_Inr_iff [c_simps]:
  "cbind m f = Inr y \<longleftrightarrow> (\<exists>x. m = Inr x \<and> f x = Inr y)"
  by (cases m) auto

lemma cbind_Inl_iff:
  "cbind m f = Inl e \<longleftrightarrow> m = Inl e \<or> (\<exists>x. m = Inr x \<and> f x = Inl e)"
  by (cases m) auto

lemma cbind_assoc: "cbind (cbind m f) g = cbind m (\<lambda>x. cbind (f x) g)"
  by (cases m) auto

lemma kassert_Inr_iff [c_simps]: "kassert b msg = Inr u \<longleftrightarrow> b"
  by (simp add: kassert_def)

lemma kassert_simps [simp, c_simps]:
  "kassert True msg = Inr ()"
  "kassert False msg = Inl (Assert_Failed msg)"
  by (simp_all add: kassert_def)

lemma deref_simps [simp, c_simps]:
  "deref (Some x) = Inr x"
  "deref None = Inl Null_Pointer"
  by (simp_all add: deref_def)

lemma deref_Inr_iff [c_simps]: "deref p = Inr x \<longleftrightarrow> p = Some x"
  by (cases p) auto

lemma rd_Inr_iff [c_simps]: "rd xs i = Inr x \<longleftrightarrow> i < length xs \<and> x = xs ! i"
  by (auto simp: rd_def)

lemma wr_Inr_iff [c_simps]: "wr xs i x = Inr ys \<longleftrightarrow> i < length xs \<and> ys = xs[i := x]"
  by (auto simp: wr_def)

lemma rd_ok [simp]: "i < length xs \<Longrightarrow> rd xs i = Inr (xs ! i)"
  by (simp add: rd_def)

lemma wr_ok [simp]: "i < length xs \<Longrightarrow> wr xs i x = Inr (xs[i := x])"
  by (simp add: wr_def)

lemma rdi_Inr_iff [c_simps]:
  "rdi xs i = Inr x \<longleftrightarrow> 0 \<le> i \<and> nat i < length xs \<and> x = xs ! nat i"
  by (auto simp: rdi_def rd_def)

lemma wri_Inr_iff [c_simps]:
  "wri xs i x = Inr ys \<longleftrightarrow> 0 \<le> i \<and> nat i < length xs \<and> ys = xs[nat i := x]"
  by (auto simp: wri_def wr_def)

lemma cfold_append:
  "cfold f s (xs @ ys) = cbind (cfold f s xs) (\<lambda>s'. cfold f s' ys)"
  by (induction xs arbitrary: s) (auto simp: cbind_assoc)

lemma cfold_invariant:
  assumes "cfold f s xs = Inr t" and "P s"
    and "\<And>s x s'. x \<in> set xs \<Longrightarrow> P s \<Longrightarrow> f s x = Inr s' \<Longrightarrow> P s'"
  shows "P t"
  using assms
proof (induction xs arbitrary: s)
  case (Cons x xs)
  from Cons.prems(1) obtain s' where s': "f s x = Inr s'" and t: "cfold f s' xs = Inr t"
    by (auto simp: c_simps)
  have "P s'" using Cons.prems(2,3) s' by auto
  with t Cons.IH Cons.prems(3) show ?case by auto
qed simp

subsection \<open>Lists as arrays\<close>

text \<open>An update past the end changes nothing, so reading back needs no bound.\<close>

lemma nth_update: "xs[i := x] ! j = (if j = i \<and> i < length xs then x else xs ! j)"
  by (cases "i < length xs") (auto simp: list_update_beyond)

lemma mset_swap_update:
  assumes "i < length xs" "j < length xs"
  shows "mset (xs[i := xs ! j, j := xs ! i]) = mset xs"
  using assms by (simp add: mset_swap)

lemma take_update_swap_mset:
  assumes "i < n" "j < n" "n \<le> length xs"
  shows "mset (take n (xs[i := xs ! j, j := xs ! i])) = mset (take n xs)"
proof -
  have "take n (xs[i := xs ! j, j := xs ! i])
        = (take n xs)[i := take n xs ! j, j := take n xs ! i]"
    using assms by (simp add: take_update_swap)
  then show ?thesis
    using assms mset_swap [of j "take n xs" i] by (simp only: length_take min.absorb2)
qed

lemma mset_take_Suc:
  "n < length xs \<Longrightarrow> mset (take (Suc n) xs) = add_mset (xs ! n) (mset (take n xs))"
  by (simp add: take_Suc_conv_app_nth)

end
