(* ===== verification/Interfaces.thy ===== *)
theory Interfaces
  imports Prelude
begin

section \<open>Interfaces between the components\<close>

text \<open>
  The contracts a component relies on when it uses another one. \<open>bounded_fifo\<close> is the
  queue the servers keep their waiting clients and planned segments in; \<open>prio_queue\<close> is
  the queue that hands out a least element first, used with two different orders by the
  scheduler and by the train server.
\<close>

subsection \<open>Bounded first-in first-out queues\<close>

datatype 'a fifo_op = Push 'a | Pop

locale bounded_fifo =
  fixes inv :: "'q \<Rightarrow> bool"
    and items :: "'q \<Rightarrow> 'a list"
    and cap :: "'q \<Rightarrow> nat"
    and push :: "'q \<Rightarrow> 'a \<Rightarrow> 'q"
    and pop :: "'q \<Rightarrow> 'q"
    and front :: "'q \<Rightarrow> 'a option"
  assumes items_push: "inv q \<Longrightarrow>
      items (push q x) = (if length (items q) < cap q then items q @ [x] else items q)"
    and items_pop: "inv q \<Longrightarrow> items (pop q) = tl (items q)"
    and front_items: "inv q \<Longrightarrow> front q = (case items q of [] \<Rightarrow> None | x # _ \<Rightarrow> Some x)"
    and inv_push: "inv q \<Longrightarrow> inv (push q x)"
    and inv_pop: "inv q \<Longrightarrow> inv (pop q)"
    and cap_push: "inv q \<Longrightarrow> cap (push q x) = cap q"
    and cap_pop: "inv q \<Longrightarrow> cap (pop q) = cap q"
    and items_bounded: "inv q \<Longrightarrow> length (items q) \<le> cap q"
begin

text \<open>
  Running a sequence of operations: the final queue, the items it accepted, and the items
  it handed out, in order.
\<close>

fun run :: "'q \<Rightarrow> 'a fifo_op list \<Rightarrow> 'q \<times> 'a list \<times> 'a list" where
  "run q [] = (q, [], [])"
| "run q (Push x # ops) =
     (let (q', ins, outs) = run (push q x) ops
      in (q', (if length (items q) < cap q then x # ins else ins), outs))"
| "run q (Pop # ops) =
     (let (q', ins, outs) = run (pop q) ops
      in (q', ins, (case front q of None \<Rightarrow> outs | Some x \<Rightarrow> x # outs)))"

lemma run_inv: "inv q \<Longrightarrow> inv (fst (run q ops))"
  by (induction q ops rule: run.induct)
     (auto simp: inv_push inv_pop Let_def split: prod.splits)

text \<open>
  Nothing is lost, duplicated or reordered: what was in the queue followed by what it
  accepted is what it handed out followed by what is left.
\<close>

lemma run_fifo:
  "inv q \<Longrightarrow> run q ops = (q', ins, outs) \<Longrightarrow> items q @ ins = outs @ items q'"
proof (induction q ops arbitrary: q' ins outs rule: run.induct)
  case (2 q x ops)
  then show ?case
    by (fastforce simp: items_push inv_push Let_def split: prod.splits if_splits)
next
  case (3 q ops)
  then show ?case
    by (cases "items q")
       (fastforce simp: items_pop inv_pop front_items Let_def split: prod.splits)+
qed simp

lemma run_pushes:
  "inv q \<Longrightarrow> length (items q) + length xs \<le> cap q \<Longrightarrow>
     items (fst (run q (map Push xs))) = items q @ xs"
proof (induction xs arbitrary: q)
  case (Cons x xs)
  have "items (fst (run (push q x) (map Push xs))) = items (push q x) @ xs"
    using Cons.prems by (intro Cons.IH) (auto simp: inv_push items_push cap_push)
  then show ?case
    using Cons.prems
    by (cases "run (push q x) (map Push xs)") (simp add: items_push)
qed simp

end

subsection \<open>Priority queues\<close>

text \<open>
  \<open>le x y\<close> means that \<open>x\<close> may be handed out before \<open>y\<close>. \<open>room q\<close> is false when the backing
  array is full; \<open>fit q x\<close> is what the provider asks of an element put into \<open>q\<close>.
\<close>

locale prio_queue =
  fixes inv :: "'q \<Rightarrow> bool"
    and bag :: "'q \<Rightarrow> 'a multiset"
    and room :: "'q \<Rightarrow> bool"
    and fit :: "'q \<Rightarrow> 'a \<Rightarrow> bool"
    and ins :: "'q \<Rightarrow> 'a \<Rightarrow> 'q"
    and top :: "'q \<Rightarrow> 'a"
    and del :: "'q \<Rightarrow> 'q"
    and le :: "'a \<Rightarrow> 'a \<Rightarrow> bool"
  assumes le_trans: "le x y \<Longrightarrow> le y z \<Longrightarrow> le x z"
    and le_total: "le x y \<or> le y x"
    and bag_ins: "inv q \<Longrightarrow> room q \<Longrightarrow> fit q x \<Longrightarrow> bag (ins q x) = add_mset x (bag q)"
    and inv_ins: "inv q \<Longrightarrow> room q \<Longrightarrow> fit q x \<Longrightarrow> inv (ins q x)"
    and top_in: "inv q \<Longrightarrow> bag q \<noteq> {#} \<Longrightarrow> top q \<in># bag q"
    and top_le: "inv q \<Longrightarrow> x \<in># bag q \<Longrightarrow> le (top q) x"
    and bag_del: "inv q \<Longrightarrow> bag q \<noteq> {#} \<Longrightarrow> bag (del q) = bag q - {# top q #}"
    and inv_del: "inv q \<Longrightarrow> bag q \<noteq> {#} \<Longrightarrow> inv (del q)"
begin

fun drain :: "nat \<Rightarrow> 'q \<Rightarrow> 'a list" where
  "drain 0 q = []"
| "drain (Suc n) q = top q # drain n (del q)"

lemma drain_mset:
  "inv q \<Longrightarrow> size (bag q) = n \<Longrightarrow> mset (drain n q) = bag q"
proof (induction n arbitrary: q)
  case (Suc n)
  then have ne: "bag q \<noteq> {#}" by auto
  have "mset (drain n (del q)) = bag q - {# top q #}"
    using Suc ne by (simp add: bag_del inv_del size_Diff_singleton top_in)
  then show ?case using top_in [OF Suc.prems(1) ne] by simp
qed simp

text \<open>Taking elements until the queue is empty gives them all, sorted.\<close>

lemma drain_sorted:
  "inv q \<Longrightarrow> size (bag q) = n \<Longrightarrow> sorted_wrt le (drain n q)"
proof (induction n arbitrary: q)
  case (Suc n)
  then have ne: "bag q \<noteq> {#}" by auto
  have size: "size (bag (del q)) = n"
    using Suc ne by (simp add: bag_del size_Diff_singleton top_in)
  have inv': "inv (del q)" using Suc ne by (simp add: inv_del)
  have "x \<in># bag q" if "x \<in> set (drain n (del q))" for x
    using that drain_mset [OF inv' size] bag_del [OF Suc.prems(1) ne]
    by (metis in_diffD set_mset_mset)
  then show ?case
    using Suc.IH [OF inv' size] top_le [OF Suc.prems(1)] by auto
qed simp

end

subsection \<open>Tables with one slot for each hash value\<close>

text \<open>
  Storing under a key overwrites whatever had the same slot; storing a value that is not \<open>live\<close>
  empties the slot.
\<close>

locale slot_table =
  fixes inv :: "'t \<Rightarrow> bool"
    and valid :: "'t \<Rightarrow> 'k \<Rightarrow> bool"
    and slot :: "'t \<Rightarrow> 'k \<Rightarrow> nat"
    and put :: "'t \<Rightarrow> 'k \<Rightarrow> 'v \<Rightarrow> 't"
    and find :: "'t \<Rightarrow> 'k \<Rightarrow> 'v option"
    and live :: "'v \<Rightarrow> bool"
  assumes inv_put: "inv t \<Longrightarrow> valid t k \<Longrightarrow> inv (put t k v)"
    and slot_put: "inv t \<Longrightarrow> valid t k \<Longrightarrow> slot (put t k v) k' = slot t k'"
    and valid_put: "inv t \<Longrightarrow> valid t k \<Longrightarrow> valid (put t k v) k' = valid t k'"
    and find_put: "inv t \<Longrightarrow> valid t k \<Longrightarrow> valid t k' \<Longrightarrow>
      find (put t k v) k' = (if slot t k' = slot t k then (if live v then Some v else None) else find t k')"
begin

lemma inv_puts: "inv t \<Longrightarrow> list_all (\<lambda>(k, v). valid t k) ops \<Longrightarrow> inv (foldl (\<lambda>t (k, v). put t k v) t ops)"
proof (induction ops arbitrary: t)
  case (Cons op ops)
  then show ?case
    by (cases op) (auto simp: inv_put valid_put list_all_iff intro!: Cons.IH)
qed simp

lemma find_puts:
  "inv t \<Longrightarrow> list_all (\<lambda>(k, v). valid t k) ops \<Longrightarrow> valid t key \<Longrightarrow>
     find (foldl (\<lambda>t (k, v). put t k v) t ops) key =
     (let hits = filter (\<lambda>(k, v). slot t k = slot t key) ops
      in if hits = [] then find t key else if live (snd (last hits)) then Some (snd (last hits)) else None)"
proof (induction ops arbitrary: t)
  case (Cons op ops)
  obtain k v where op: "op = (k, v)" by (cases op)
  have "find (foldl (\<lambda>t (k, v). put t k v) (put t k v) ops) key =
      (let hits = filter (\<lambda>(k', v'). slot (put t k v) k' = slot (put t k v) key) ops
       in if hits = [] then find (put t k v) key
          else if live (snd (last hits)) then Some (snd (last hits)) else None)"
    using Cons.prems op by (intro Cons.IH) (auto simp: inv_put valid_put list_all_iff)
  then show ?case
    using Cons.prems op by (auto simp: Let_def slot_put find_put)
qed simp

end

end
