(* ===== verification/Circular_Buffer.thy ===== *)
theory Circular_Buffer
  imports Interfaces
begin

section \<open>The circular buffer (src/common/circularbuffer.c)\<close>

text \<open>
  The ring buffer every server uses for its queues. The C struct points into a caller-owned
  region of \<open>capacity * size\<close> bytes and moves its items with \<open>memcpy\<close>; here the region is
  a list with one entry per item, and the pointers \<open>head\<close>, \<open>tail\<close> and \<open>buffer_end\<close> are
  offsets from \<open>buffer\<close> counted in items. A null \<open>buffer\<close> is \<open>None\<close>, so that each
  \<open>KASSERT(cb->buffer != NULL)\<close> is a branch. The locale \<open>bounded_fifo\<close> is the contract
  the servers rely on; the C operations are shown to provide it.
\<close>

record 'a circular_buffer =
  cb_buffer :: "'a list option"
  cb_buffer_end :: nat
  cb_capacity :: nat
  cb_count :: nat
  cb_head :: nat
  cb_tail :: nat

definition CB_FULL :: int where "CB_FULL = 1"
definition CB_EMPTY :: int where "CB_EMPTY = 2"

text \<open>
  \<open>memset\<close> clears the whole region, so its former contents do not matter. (It clears
  \<open>sizeof(char) * capacity * size\<close> bytes, that is \<open>capacity\<close> items.)
\<close>

definition cb_init :: "'a \<Rightarrow> nat \<Rightarrow> 'a circular_buffer" where
  "cb_init zero capacity =
     \<lparr> cb_buffer = Some (replicate capacity zero),
       cb_buffer_end = capacity,
       cb_capacity = capacity,
       cb_count = 0,
       cb_head = 0,
       cb_tail = 0 \<rparr>"

definition cb_pop_front ::
  "'a circular_buffer \<Rightarrow> ('a circular_buffer \<times> int \<times> 'a option) cres" where
  "cb_pop_front cb =
     cbind (kassert (cb_buffer cb \<noteq> None) ''CB uninitialized'') (\<lambda>_.
     cbind (deref (cb_buffer cb)) (\<lambda>buf.
       if cb_count cb = 0 then Inr (cb, CB_EMPTY, None)
       else
         cbind (rd buf (cb_tail cb)) (\<lambda>item.
           let tail = cb_tail cb + 1;
               tail' = (if tail = cb_buffer_end cb then 0 else tail)
           in Inr (cb\<lparr> cb_tail := tail', cb_count := cb_count cb - 1 \<rparr>, 0, Some item))))"

definition cb_push_back ::
  "'a circular_buffer \<Rightarrow> 'a \<Rightarrow> bool \<Rightarrow> ('a circular_buffer \<times> int) cres" where
  "cb_push_back cb item aggressive =
     cbind (kassert (cb_buffer cb \<noteq> None) ''CB uninitialized'') (\<lambda>_.
       if cb_count cb = cb_capacity cb \<and> \<not> aggressive then Inr (cb, CB_FULL)
       else
         cbind (if cb_count cb = cb_capacity cb
                then cbind (cb_pop_front cb) (\<lambda>(cb', _, _). Inr cb')
                else Inr cb) (\<lambda>cb1.
         cbind (deref (cb_buffer cb1)) (\<lambda>buf.
         cbind (wr buf (cb_head cb1) item) (\<lambda>buf'.
           let head = cb_head cb1 + 1;
               head' = (if head = cb_buffer_end cb1 then 0 else head)
           in Inr (cb1\<lparr> cb_buffer := Some buf', cb_head := head',
                        cb_count := cb_count cb1 + 1 \<rparr>, 0)))))"

definition cb_is_empty :: "'a circular_buffer \<Rightarrow> bool cres" where
  "cb_is_empty cb =
     cbind (kassert (cb_buffer cb \<noteq> None) ''CB uninitialized'') (\<lambda>_. Inr (cb_count cb = 0))"

definition cb_is_full :: "'a circular_buffer \<Rightarrow> bool cres" where
  "cb_is_full cb =
     cbind (kassert (cb_buffer cb \<noteq> None) ''CB uninitialized'') (\<lambda>_.
       Inr (cb_count cb = cb_capacity cb))"

text \<open>The copy loop of \<open>cb_to_array\<close>: \<open>cur\<close> runs over the ring, \<open>len\<close> items are copied.\<close>

fun cb_copy :: "'a list \<Rightarrow> nat \<Rightarrow> nat \<Rightarrow> nat \<Rightarrow> 'a list cres" where
  "cb_copy buf buffer_end cur 0 = Inr []"
| "cb_copy buf buffer_end cur (Suc len) =
     cbind (rd buf cur) (\<lambda>x.
     cbind (cb_copy buf buffer_end (if cur + 1 = buffer_end then 0 else cur + 1) len)
       (\<lambda>xs. Inr (x # xs)))"

definition cb_to_array :: "'a circular_buffer \<Rightarrow> ('a list \<times> nat) cres" where
  "cb_to_array cb =
     cbind (kassert (cb_buffer cb \<noteq> None) ''CB uninitialized'') (\<lambda>_.
     cbind (deref (cb_buffer cb)) (\<lambda>buf.
     cbind (cb_copy buf (cb_buffer_end cb) (cb_tail cb) (cb_count cb)) (\<lambda>arr.
       Inr (arr, cb_count cb))))"

definition cb_clear :: "'a \<Rightarrow> 'a circular_buffer \<Rightarrow> 'a circular_buffer cres" where
  "cb_clear zero cb =
     cbind (kassert (cb_buffer cb \<noteq> None) ''CB uninitialized'') (\<lambda>_.
       Inr (cb_init zero (cb_capacity cb)))"

subsection \<open>Invariant and abstraction to a list\<close>

definition cb_inv :: "'a circular_buffer \<Rightarrow> bool" where
  "cb_inv cb \<longleftrightarrow>
     (case cb_buffer cb of None \<Rightarrow> False | Some buf \<Rightarrow> length buf = cb_capacity cb) \<and>
     cb_buffer_end cb = cb_capacity cb \<and>
     cb_head cb < cb_capacity cb \<and>
     cb_tail cb < cb_capacity cb \<and>
     cb_count cb \<le> cb_capacity cb \<and>
     cb_head cb = (cb_tail cb + cb_count cb) mod cb_capacity cb"

definition ring :: "'a list \<Rightarrow> nat \<Rightarrow> nat \<Rightarrow> nat \<Rightarrow> 'a list" where
  "ring buf cap tail n = map (\<lambda>i. buf ! ((tail + i) mod cap)) [0..<n]"

definition cb_items :: "'a circular_buffer \<Rightarrow> 'a list" where
  "cb_items cb = (case cb_buffer cb of None \<Rightarrow> []
     | Some buf \<Rightarrow> ring buf (cb_capacity cb) (cb_tail cb) (cb_count cb))"

lemma length_cb_items: "cb_inv cb \<Longrightarrow> length (cb_items cb) = cb_count cb"
  by (auto simp: cb_inv_def cb_items_def ring_def split: option.splits)

lemma wrap_mod:
  assumes "a < (n::nat)"
  shows "(if a + 1 = n then 0 else a + 1) = (a + 1) mod n"
  using assms by auto

lemma ring_Suc:
  assumes "tail < cap"
  shows "ring buf cap tail (Suc n) = buf ! tail # ring buf cap ((tail + 1) mod cap) n"
proof -
  have "[0..<Suc n] = 0 # map Suc [0..<n]"
    by (simp add: upt_conv_Cons map_Suc_upt del: upt_Suc)
  then have "ring buf cap tail (Suc n)
      = buf ! (tail mod cap) # map (\<lambda>i. buf ! ((tail + Suc i) mod cap)) [0..<n]"
    by (simp only: ring_def list.map map_map comp_def add_0_right)
  moreover have "(tail + Suc i) mod cap = ((tail + 1) mod cap + i) mod cap" for i
    by (simp add: mod_simps)
  ultimately show ?thesis
    using assms by (simp add: ring_def)
qed

lemma ring_push:
  assumes "n < cap" and "length buf = cap"
  shows "ring (buf[(tail + n) mod cap := x]) cap tail (Suc n) = ring buf cap tail n @ [x]"
proof -
  have neq: "(tail + n) mod cap \<noteq> (tail + i) mod cap" if "i < n" for i
  proof
    assume "(tail + n) mod cap = (tail + i) mod cap"
    then have "cap dvd (tail + n) - (tail + i)"
      using that mod_eq_dvd_iff_nat [of "tail + i" "tail + n" cap] by simp
    then have "cap dvd n - i" by simp
    moreover have "0 < n - i" "n - i < cap" using that assms by auto
    ultimately show False by (simp add: nat_dvd_not_less)
  qed
  have "(tail + n) mod cap < length buf" using assms by simp
  then show ?thesis
    using neq by (auto simp: ring_def)
qed

lemma cb_copy_ring:
  "tail < cap \<Longrightarrow> length buf = cap \<Longrightarrow> cb_copy buf cap tail n = Inr (ring buf cap tail n)"
proof (induction n arbitrary: tail)
  case 0
  show ?case by (simp add: ring_def)
next
  case (Suc n)
  have step: "(tail + 1) mod cap < cap" using Suc.prems by simp
  have "cb_copy buf cap tail (Suc n)
        = cbind (cb_copy buf cap ((tail + 1) mod cap) n) (\<lambda>xs. Inr (buf ! tail # xs))"
    using Suc.prems wrap_mod [of tail cap] by simp
  also have "\<dots> = Inr (buf ! tail # ring buf cap ((tail + 1) mod cap) n)"
    using Suc.IH [OF step Suc.prems(2)] by simp
  finally show ?case by (simp only: ring_Suc [OF Suc.prems(1)])
qed

subsection \<open>The operations refine a bounded list\<close>

lemma cb_inv_buffer:
  assumes "cb_inv cb"
  obtains buf where "cb_buffer cb = Some buf" "length buf = cb_capacity cb"
  using assms by (auto simp: cb_inv_def split: option.splits)

lemma cb_init_inv: "0 < n \<Longrightarrow> cb_inv (cb_init z n)"
  by (simp add: cb_inv_def cb_init_def)

lemma cb_init_items [simp]: "cb_items (cb_init z n) = []"
  by (simp add: cb_items_def cb_init_def ring_def)

lemma cb_init_sel [simp]: "cb_count (cb_init z n) = 0" "cb_capacity (cb_init z n) = n"
  by (simp_all add: cb_init_def)

lemma cb_pop_empty:
  "cb_inv cb \<Longrightarrow> cb_count cb = 0 \<Longrightarrow> cb_pop_front cb = Inr (cb, CB_EMPTY, None)"
  by (erule cb_inv_buffer) (simp add: cb_pop_front_def)

lemma cb_pop_ok:
  assumes inv: "cb_inv cb" and ne: "cb_count cb \<noteq> 0"
  obtains cb' where "cb_pop_front cb = Inr (cb', 0, Some (hd (cb_items cb)))"
    "cb_inv cb'" "cb_items cb' = tl (cb_items cb)"
    "cb_capacity cb' = cb_capacity cb" "cb_count cb' = cb_count cb - 1"
proof -
  obtain buf where buf: "cb_buffer cb = Some buf" "length buf = cb_capacity cb"
    using inv by (rule cb_inv_buffer)
  obtain n where n: "cb_count cb = Suc n" using ne not0_implies_Suc by blast
  let ?cap = "cb_capacity cb" and ?tail = "cb_tail cb"
  let ?cb' = "cb\<lparr> cb_tail := (?tail + 1) mod ?cap, cb_count := n \<rparr>"
  have t: "?tail < ?cap" "cb_buffer_end cb = ?cap" "0 < ?cap"
    using inv by (auto simp: cb_inv_def)
  have items: "cb_items cb = buf ! ?tail # ring buf ?cap ((?tail + 1) mod ?cap) n"
    using buf n ring_Suc [OF t(1)] by (simp add: cb_items_def)
  have "cb_pop_front cb = Inr (?cb', 0, Some (buf ! ?tail))"
    using buf n t wrap_mod [OF t(1)] by (simp add: cb_pop_front_def Let_def)
  moreover have "cb_inv ?cb'"
    using inv n buf t by (auto simp: cb_inv_def mod_simps)
  moreover have "cb_items ?cb' = tl (cb_items cb)"
    using items buf by (simp add: cb_items_def)
  ultimately show ?thesis
    using that [of ?cb'] items n by simp
qed

lemma cb_push_full:
  "cb_inv cb \<Longrightarrow> cb_count cb = cb_capacity cb \<Longrightarrow> cb_push_back cb x False = Inr (cb, CB_FULL)"
  by (erule cb_inv_buffer) (simp add: cb_push_back_def)

lemma cb_push_ok:
  assumes inv: "cb_inv cb" and room: "cb_count cb < cb_capacity cb"
  obtains cb' where "cb_push_back cb x aggressive = Inr (cb', 0)"
    "cb_inv cb'" "cb_items cb' = cb_items cb @ [x]"
    "cb_capacity cb' = cb_capacity cb" "cb_count cb' = cb_count cb + 1"
proof -
  obtain buf where buf: "cb_buffer cb = Some buf" "length buf = cb_capacity cb"
    using inv by (rule cb_inv_buffer)
  let ?cap = "cb_capacity cb" and ?head = "cb_head cb"
  let ?cb' = "cb\<lparr> cb_buffer := Some (buf[?head := x]),
                  cb_head := (?head + 1) mod ?cap, cb_count := cb_count cb + 1 \<rparr>"
  have h: "?head < ?cap" "cb_buffer_end cb = ?cap" "?head = (cb_tail cb + cb_count cb) mod ?cap"
    "cb_tail cb < ?cap"
    using inv by (auto simp: cb_inv_def)
  have "cb_push_back cb x aggressive = Inr (?cb', 0)"
    using buf h(1,2) room wrap_mod [OF h(1)] by (auto simp: cb_push_back_def Let_def)
  moreover have "cb_inv ?cb'"
    using inv buf h room by (auto simp: cb_inv_def mod_simps)
  moreover have "cb_items ?cb' = cb_items cb @ [x]"
    using ring_push [OF room buf(2), of "cb_tail cb" x] h(3) buf by (simp add: cb_items_def)
  ultimately show ?thesis using that [of ?cb'] by simp
qed

text \<open>An aggressive push into a full buffer drops the oldest item first.\<close>

lemma cb_push_aggressive_full:
  assumes inv: "cb_inv cb" and full: "cb_count cb = cb_capacity cb"
  obtains cb' where "cb_push_back cb x True = Inr (cb', 0)"
    "cb_inv cb'" "cb_items cb' = tl (cb_items cb) @ [x]" "cb_capacity cb' = cb_capacity cb"
proof -
  have pos: "cb_count cb \<noteq> 0" using inv full by (auto simp: cb_inv_def)
  obtain cb1 where pop: "cb_pop_front cb = Inr (cb1, 0, Some (hd (cb_items cb)))"
    and cb1: "cb_inv cb1" "cb_items cb1 = tl (cb_items cb)"
      "cb_capacity cb1 = cb_capacity cb" "cb_count cb1 = cb_count cb - 1"
    using cb_pop_ok [OF inv pos] by blast
  have room: "cb_count cb1 < cb_capacity cb1" using cb1 pos full by simp
  obtain cb2 where push: "cb_push_back cb1 x True = Inr (cb2, 0)"
    and cb2: "cb_inv cb2" "cb_items cb2 = cb_items cb1 @ [x]" "cb_capacity cb2 = cb_capacity cb1"
    using cb_push_ok [OF cb1(1) room] by blast
  obtain buf where "cb_buffer cb = Some buf" using inv by (rule cb_inv_buffer)
  moreover obtain buf1 where "cb_buffer cb1 = Some buf1" using cb1(1) by (rule cb_inv_buffer)
  ultimately have "cb_push_back cb x True = cb_push_back cb1 x True"
    using pop room full by (simp add: cb_push_back_def)
  with push cb2 cb1 show ?thesis using that by simp
qed

lemma cb_to_array_items:
  assumes "cb_inv cb"
  shows "cb_to_array cb = Inr (cb_items cb, cb_count cb)"
proof -
  obtain buf where buf: "cb_buffer cb = Some buf" "length buf = cb_capacity cb"
    using assms by (rule cb_inv_buffer)
  then show ?thesis
    using assms cb_copy_ring [of "cb_tail cb" "cb_capacity cb" buf]
    by (simp add: cb_to_array_def cb_items_def cb_inv_def)
qed

lemma cb_clear_ok:
  "cb_inv cb \<Longrightarrow> cb_clear z cb = Inr (cb_init z (cb_capacity cb))"
  by (erule cb_inv_buffer) (simp add: cb_clear_def)

lemma cb_is_empty_items:
  "cb_inv cb \<Longrightarrow> cb_is_empty cb = Inr (cb_items cb = [])"
  using length_cb_items [of cb] by (cases "cb_buffer cb") (auto simp: cb_is_empty_def cb_inv_def)

subsection \<open>The buffer as a bounded queue\<close>

text \<open>
  The two operations as the servers call them (\<open>aggressive\<close> is false in every server
  queue), with their status code dropped; under the invariant they never fault.
\<close>

definition cb_push :: "'a circular_buffer \<Rightarrow> 'a \<Rightarrow> 'a circular_buffer" where
  "cb_push cb x = (case cb_push_back cb x False of Inr (cb', _) \<Rightarrow> cb' | Inl _ \<Rightarrow> cb)"

definition cb_pop :: "'a circular_buffer \<Rightarrow> 'a circular_buffer" where
  "cb_pop cb = (case cb_pop_front cb of Inr (cb', _) \<Rightarrow> cb' | Inl _ \<Rightarrow> cb)"

definition cb_front :: "'a circular_buffer \<Rightarrow> 'a option" where
  "cb_front cb = (case cb_pop_front cb of Inr (_, _, x) \<Rightarrow> x | Inl _ \<Rightarrow> None)"

lemma cb_push_cases:
  assumes "cb_inv cb"
  shows "cb_inv (cb_push cb x) \<and> cb_capacity (cb_push cb x) = cb_capacity cb \<and>
    cb_items (cb_push cb x)
      = (if length (cb_items cb) < cb_capacity cb then cb_items cb @ [x] else cb_items cb)"
proof (cases "cb_count cb < cb_capacity cb")
  case True
  then obtain cb' where "cb_push_back cb x False = Inr (cb', 0)"
    "cb_inv cb'" "cb_items cb' = cb_items cb @ [x]" "cb_capacity cb' = cb_capacity cb"
    using cb_push_ok [OF assms True, of x False] by blast
  then show ?thesis using True assms by (simp add: cb_push_def length_cb_items)
next
  case False
  then have full: "cb_count cb = cb_capacity cb" using assms by (simp add: cb_inv_def)
  then show ?thesis
    using cb_push_full [OF assms full, of x] assms by (simp add: cb_push_def length_cb_items)
qed

lemma cb_pop_cases:
  assumes "cb_inv cb"
  shows "cb_inv (cb_pop cb) \<and> cb_capacity (cb_pop cb) = cb_capacity cb \<and>
    cb_items (cb_pop cb) = tl (cb_items cb) \<and>
    cb_front cb = (case cb_items cb of [] \<Rightarrow> None | x # _ \<Rightarrow> Some x)"
proof (cases "cb_count cb = 0")
  case True
  then have "cb_items cb = []" using length_cb_items [OF assms] by simp
  then show ?thesis
    using cb_pop_empty [OF assms True] assms by (simp add: cb_pop_def cb_front_def)
next
  case False
  then have ne: "cb_items cb \<noteq> []" using length_cb_items [OF assms] by auto
  obtain cb' where "cb_pop_front cb = Inr (cb', 0, Some (hd (cb_items cb)))"
    "cb_inv cb'" "cb_items cb' = tl (cb_items cb)" "cb_capacity cb' = cb_capacity cb"
    using cb_pop_ok [OF assms False] by blast
  then show ?thesis
    using ne by (simp add: cb_pop_def cb_front_def split: list.splits)
qed

interpretation cbq: bounded_fifo cb_inv cb_items cb_capacity cb_push cb_pop cb_front
proof
  fix q :: "'a circular_buffer"
  assume "cb_inv q"
  then show "length (cb_items q) \<le> cb_capacity q"
    by (simp add: length_cb_items) (simp add: cb_inv_def)
qed (simp_all add: cb_push_cases cb_pop_cases)

subsection \<open>A whole history of operations\<close>

text \<open>
  A client's sequence of calls on the C operations: the final buffer, the items accepted
  (status 0) and the items handed out.
\<close>

fun cb_exec :: "'a circular_buffer \<Rightarrow> 'a fifo_op list \<Rightarrow>
    ('a circular_buffer \<times> 'a list \<times> 'a list) cres" where
  "cb_exec cb [] = Inr (cb, [], [])"
| "cb_exec cb (Push x # ops) =
     cbind (cb_push_back cb x False) (\<lambda>(cb', status).
     cbind (cb_exec cb' ops) (\<lambda>(cb'', ins, outs).
       Inr (cb'', if status = 0 then x # ins else ins, outs)))"
| "cb_exec cb (Pop # ops) =
     cbind (cb_pop_front cb) (\<lambda>(cb', status, item).
     cbind (cb_exec cb' ops) (\<lambda>(cb'', ins, outs).
       Inr (cb'', ins, (case item of None \<Rightarrow> outs | Some x \<Rightarrow> x # outs))))"

lemma cb_push_back_status:
  assumes "cb_inv cb"
  shows "cb_push_back cb x False
    = Inr (cb_push cb x, if length (cb_items cb) < cb_capacity cb then 0 else CB_FULL)"
proof (cases "cb_count cb < cb_capacity cb")
  case True
  obtain cb' where "cb_push_back cb x False = Inr (cb', 0)"
    using cb_push_ok [OF assms True, of x False] by blast
  then show ?thesis using True assms by (simp add: cb_push_def length_cb_items)
next
  case False
  then have full: "cb_count cb = cb_capacity cb" using assms by (simp add: cb_inv_def)
  then show ?thesis
    using cb_push_full [OF assms full, of x] assms by (simp add: cb_push_def length_cb_items)
qed

lemma cb_pop_front_status:
  assumes "cb_inv cb"
  shows "cb_pop_front cb
    = Inr (cb_pop cb, if cb_items cb = [] then CB_EMPTY else 0, cb_front cb)"
proof (cases "cb_count cb = 0")
  case True
  then have "cb_items cb = []" using length_cb_items [OF assms] by simp
  then show ?thesis
    using cb_pop_empty [OF assms True] by (simp add: cb_pop_def cb_front_def)
next
  case False
  then have "cb_items cb \<noteq> []" using length_cb_items [OF assms] by auto
  moreover obtain cb' where "cb_pop_front cb = Inr (cb', 0, Some (hd (cb_items cb)))"
    using cb_pop_ok [OF assms False] by blast
  ultimately show ?thesis by (simp add: cb_pop_def cb_front_def)
qed

lemma cb_exec_run: "cb_inv cb \<Longrightarrow> cb_exec cb ops = Inr (cbq.run cb ops)"
proof (induction cb ops rule: cbq.run.induct)
  case (2 q x ops)
  then show ?case
    by (cases "cbq.run (cb_push q x) ops")
       (simp add: cb_push_back_status cbq.inv_push CB_FULL_def)
next
  case (3 q ops)
  then show ?case
    by (cases "cbq.run (cb_pop q) ops")
       (simp add: cb_pop_front_status cbq.inv_pop split: option.splits)
qed simp

text \<open>
  C1: In a circular buffer of the code, no sequence of \<open>cb_push_back\<close> (not aggressive) and
  \<open>cb_pop_front\<close> calls faults, loses, duplicates or reorders an item: what was in the
  buffer followed by every item accepted with status 0 is what was handed out followed by
  what \<open>cb_to_array\<close> then copies out.
\<close>

theorem cb_fifo_order:
  assumes "cb_inv cb"
  shows "\<exists>cb' ins outs. cb_exec cb ops = Inr (cb', ins, outs) \<and> cb_inv cb' \<and>
    cb_to_array cb' = Inr (cb_items cb', cb_count cb') \<and>
    cb_items cb @ ins = outs @ cb_items cb'"
proof -
  obtain cb' ins outs where run: "cbq.run cb ops = (cb', ins, outs)"
    by (cases "cbq.run cb ops") auto
  have "cb_inv cb'" using cbq.run_inv [OF assms, of ops] run by simp
  then show ?thesis
    using cb_exec_run [OF assms] cbq.run_fifo [OF assms run] run cb_to_array_items by auto
qed

theorem cb_fifo_order_witness:
  "\<exists>cb' ins outs.
     cb_exec (cb_init (0::int) 2) [Push 5, Push 6, Push 7, Pop] = Inr (cb', ins, outs) \<and>
     cb_inv cb' \<and> cb_to_array cb' = Inr (cb_items cb', cb_count cb') \<and>
     cb_items (cb_init (0::int) 2) @ ins = outs @ cb_items cb'"
  by (rule cb_fifo_order) (simp add: cb_init_inv)

text \<open>
  An aggressive push never fails: a buffer written to in this way holds the latest items of all
  that have been pushed, as many as it has room for.
\<close>

definition latest :: "nat \<Rightarrow> 'a list \<Rightarrow> 'a list" where
  "latest n xs = drop (length xs - n) xs"

lemma latest_Nil [simp]: "latest n [] = []"
  by (simp add: latest_def)

lemma length_latest [simp]: "length (latest n xs) = min n (length xs)"
  by (simp add: latest_def)

lemma set_latest: "set (latest n xs) \<subseteq> set xs"
  by (simp add: latest_def set_drop_subset)

lemma latest_snoc:
  "length xs < n \<Longrightarrow> latest n (xs @ [x]) = latest n xs @ [x]"
  "n \<le> length xs \<Longrightarrow> 0 < n \<Longrightarrow> latest n (xs @ [x]) = tl (latest n xs) @ [x]"
  by (simp_all add: latest_def drop_Suc [symmetric] tl_drop Suc_diff_le)

lemma cb_push_latest:
  assumes inv: "cb_inv cb" and items: "cb_items cb = latest (cb_capacity cb) xs"
  obtains cb' where "cb_push_back cb x True = Inr (cb', 0)" "cb_inv cb'" "cb_capacity cb' = cb_capacity cb"
    "cb_items cb' = latest (cb_capacity cb) (xs @ [x])"
proof -
  have n: "cb_count cb = min (cb_capacity cb) (length xs)" "0 < cb_capacity cb"
    using length_cb_items [OF inv] items inv by (auto simp: cb_inv_def)
  show thesis
  proof (cases "cb_count cb = cb_capacity cb")
    case True
    then have "cb_capacity cb \<le> length xs" using n(1) by simp
    then show thesis using cb_push_aggressive_full [OF inv True, of x] that items n(2) latest_snoc(2) by metis
  next
    case False
    then have "length xs < cb_capacity cb" "cb_count cb < cb_capacity cb" using n(1) by auto
    then show thesis using cb_push_ok [OF inv, of x True] that items latest_snoc(1) by metis
  qed
qed

end
