(* ===== verification/Array_Heap.thy ===== *)
theory Array_Heap
  imports Interfaces
begin

section \<open>Binary heaps in arrays\<close>

text \<open>
  The scheduler and \<open>heap.c\<close> both keep a binary heap in an array, the children of cell \<open>i\<close>
  in the cells \<open>2 * i + 1\<close> and \<open>2 * i + 2\<close>. This theory proves what both rely on, for any
  total preorder: the heap property, the two weakened forms that hold while an element is
  on its way up or down, and the steps that move it.
\<close>

definition swapl :: "'a list \<Rightarrow> nat \<Rightarrow> nat \<Rightarrow> 'a list" where
  "swapl xs i j = xs[i := xs ! j, j := xs ! i]"

lemma length_swapl [simp]: "length (swapl xs i j) = length xs"
  by (simp add: swapl_def)

lemma nth_swapl:
  "i < length xs \<Longrightarrow> j < length xs \<Longrightarrow>
     swapl xs i j ! k = (if k = i then xs ! j else if k = j then xs ! i else xs ! k)"
  by (auto simp: swapl_def nth_list_update)

lemma mset_take_swapl [simp]:
  "i < n \<Longrightarrow> j < n \<Longrightarrow> n \<le> length xs \<Longrightarrow> mset (take n (swapl xs i j)) = mset (take n xs)"
  by (simp only: swapl_def take_update_swap_mset)

lemma set_swapl [simp]: "i < length xs \<Longrightarrow> j < length xs \<Longrightarrow> set (swapl xs i j) = set xs"
  by (simp add: swapl_def)

text \<open>The index of the parent, shared by the two implementations.\<close>

definition up :: "nat \<Rightarrow> nat" where
  "up i = (i - 1) div 2"

lemma up_less [simp]: "0 < i \<Longrightarrow> up i < i"
  by (simp add: up_def)

lemma up_cases: "0 < i \<Longrightarrow> i = 2 * up i + 1 \<or> i = 2 * up i + 2"
  unfolding up_def by presburger

lemma up_children [simp]: "up (2 * i + 1) = i" "up (2 * i + 2) = i"
  by (simp_all add: up_def)

lemma up_eq_iff: "0 < i \<Longrightarrow> up i = k \<longleftrightarrow> i = 2 * k + 1 \<or> i = 2 * k + 2"
  using up_cases [of i] by (auto simp: up_def)

definition heap_ok :: "('a \<Rightarrow> 'a \<Rightarrow> bool) \<Rightarrow> 'a list \<Rightarrow> nat \<Rightarrow> bool" where
  "heap_ok le xs n \<longleftrightarrow> (\<forall>i. 0 < i \<and> i < n \<longrightarrow> le (xs ! up i) (xs ! i))"

text \<open>The heap property except between \<open>k\<close> and its parent, or \<open>k\<close> and its children.\<close>

definition up_ok :: "('a \<Rightarrow> 'a \<Rightarrow> bool) \<Rightarrow> 'a list \<Rightarrow> nat \<Rightarrow> nat \<Rightarrow> bool" where
  "up_ok le xs n k \<longleftrightarrow>
     (\<forall>i. 0 < i \<and> i < n \<and> i \<noteq> k \<longrightarrow> le (xs ! up i) (xs ! i)) \<and>
     (\<forall>i. 0 < i \<and> i < n \<and> up i = k \<and> 0 < k \<longrightarrow> le (xs ! up k) (xs ! i))"

definition down_ok :: "('a \<Rightarrow> 'a \<Rightarrow> bool) \<Rightarrow> 'a list \<Rightarrow> nat \<Rightarrow> nat \<Rightarrow> bool" where
  "down_ok le xs n k \<longleftrightarrow>
     (\<forall>i. 0 < i \<and> i < n \<and> up i \<noteq> k \<longrightarrow> le (xs ! up i) (xs ! i)) \<and>
     (\<forall>i. 0 < i \<and> i < n \<and> up i = k \<and> 0 < k \<longrightarrow> le (xs ! up k) (xs ! i))"

lemma heap_ok_cong:
  "(\<And>i. i < n \<Longrightarrow> xs ! i = ys ! i) \<Longrightarrow> heap_ok le xs n = heap_ok le ys n"
  unfolding heap_ok_def by (metis less_trans up_less)

lemma heap_ok_upt [code]: "heap_ok le xs n = list_all (\<lambda>i. le (xs ! up i) (xs ! i)) [1..<n]"
  by (auto simp: heap_ok_def list_all_iff)

lemma heap_ok_less: "heap_ok le xs n \<Longrightarrow> m \<le> n \<Longrightarrow> heap_ok le xs m"
  by (auto simp: heap_ok_def)

lemma heap_ok_mono:
  assumes "heap_ok le xs n"
    and "\<And>i j. i < n \<Longrightarrow> j < n \<Longrightarrow> le (xs ! i) (xs ! j) \<Longrightarrow> le' (xs ! i) (xs ! j)"
  shows "heap_ok le' xs n"
  using assms unfolding heap_ok_def by (metis less_trans up_less)

locale heap_order =
  fixes le :: "'a \<Rightarrow> 'a \<Rightarrow> bool"
  assumes trans: "le x y \<Longrightarrow> le y z \<Longrightarrow> le x z"
    and total: "le x y \<or> le y x"
begin

lemma refl: "le x x"
  using total by blast

lemma root_le:
  assumes "heap_ok le xs n" and "i < n"
  shows "le (xs ! 0) (xs ! i)"
  using assms(2)
proof (induction i rule: less_induct)
  case (less i)
  show ?case
  proof (cases "i = 0")
    case False
    then have "le (xs ! 0) (xs ! up i)" using less by simp
    moreover have "le (xs ! up i) (xs ! i)"
      using assms(1) less.prems False by (simp add: heap_ok_def)
    ultimately show ?thesis by (rule trans)
  qed (simp add: refl)
qed

lemma up_init:
  assumes "heap_ok le xs n" and "n < length xs"
  shows "up_ok le (xs[n := x]) (Suc n) n"
  unfolding up_ok_def
proof (intro conjI allI impI)
  fix i
  assume i: "0 < i \<and> i < Suc n \<and> i \<noteq> n"
  then have "up i < n" using up_less [of i] by linarith
  with i show "le (xs[n := x] ! up i) (xs[n := x] ! i)"
    using assms by (simp add: heap_ok_def)
next
  fix i
  assume i: "0 < i \<and> i < Suc n \<and> up i = n \<and> 0 < n"
  then have False using up_less [of i] by linarith
  then show "le (xs[n := x] ! up n) (xs[n := x] ! i)" ..
qed

lemma up_done:
  "up_ok le xs n k \<Longrightarrow> k = 0 \<or> le (xs ! up k) (xs ! k) \<Longrightarrow> heap_ok le xs n"
  by (auto simp: up_ok_def heap_ok_def)

lemma up_step:
  assumes ok: "up_ok le xs n k" and k: "0 < k" "k < n" "n \<le> length xs"
    and less: "le (xs ! k) (xs ! up k)"
  shows "up_ok le (swapl xs k (up k)) n (up k)"
  unfolding up_ok_def
proof (intro conjI allI impI)
  fix i
  assume i: "0 < i \<and> i < n \<and> i \<noteq> up k"
  have kl: "k < length xs" "up k < length xs" using k up_less [of k] by linarith+
  have pk: "up k \<noteq> k" using up_less [OF k(1)] by linarith
  have ui: "up i \<noteq> i" using i by (metis up_less less_irrefl)
  consider "i = k" | "i \<noteq> k" "up i = k" | "i \<noteq> k" "up i = up k" | "i \<noteq> k" "up i \<noteq> k" "up i \<noteq> up k"
    by blast
  then show "le (swapl xs k (up k) ! up i) (swapl xs k (up k) ! i)"
  proof cases
    case 1
    then show ?thesis using kl pk less by (simp add: nth_swapl)
  next
    case 2
    then have "le (xs ! up k) (xs ! i)" using ok i k by (auto simp: up_ok_def)
    then show ?thesis using 2 kl pk i by (simp add: nth_swapl)
  next
    case 3
    then have "le (xs ! up k) (xs ! i)" using ok i by (metis up_ok_def)
    then have "le (xs ! k) (xs ! i)" using less trans by blast
    then show ?thesis using 3 kl pk i by (simp add: nth_swapl)
  next
    case 4
    then have "le (xs ! up i) (xs ! i)" using ok i by (auto simp: up_ok_def)
    then show ?thesis using 4 kl i by (simp add: nth_swapl)
  qed
next
  fix i
  assume i: "0 < i \<and> i < n \<and> up i = up k \<and> 0 < up k"
  have kl: "k < length xs" "up k < length xs" using k up_less [of k] by linarith+
  have up2: "up (up k) < up k" "up k < k" using i k by (auto intro: up_less)
  have gp: "le (xs ! up (up k)) (xs ! up k)"
    using ok i up2 k(2) by (auto simp: up_ok_def)
  have "le (xs ! up (up k)) (xs ! i)" if "i \<noteq> k"
    using ok i that gp trans by (metis up_ok_def)
  moreover have "i \<noteq> up k" using i by (metis up_less less_irrefl)
  ultimately show "le (swapl xs k (up k) ! up (up k)) (swapl xs k (up k) ! i)"
    using kl up2 gp by (auto simp: nth_swapl)
qed

lemma down_init:
  assumes ok: "heap_ok le xs n"
  shows "down_ok le (xs[0 := x]) n 0"
  unfolding down_ok_def
proof (intro conjI allI impI)
  fix i
  assume "0 < i \<and> i < n \<and> up i \<noteq> 0"
  then show "le (xs[0 := x] ! up i) (xs[0 := x] ! i)"
    using ok by (simp add: heap_ok_def)
qed auto

lemma down_done:
  assumes ok: "down_ok le xs n k"
    and "2 * k + 1 < n \<Longrightarrow> le (xs ! k) (xs ! (2 * k + 1))"
    and "2 * k + 2 < n \<Longrightarrow> le (xs ! k) (xs ! (2 * k + 2))"
  shows "heap_ok le xs n"
  unfolding heap_ok_def
proof (intro allI impI)
  fix i
  assume i: "0 < i \<and> i < n"
  show "le (xs ! up i) (xs ! i)"
  proof (cases "up i = k")
    case True
    then show ?thesis using assms(2,3) i up_eq_iff [of i k] by auto
  next
    case False
    then show ?thesis using ok i by (simp add: down_ok_def)
  qed
qed

lemma down_step:
  assumes ok: "down_ok le xs n k" and j: "0 < j" "up j = k" "j < n" "n \<le> length xs"
    and jk: "le (xs ! j) (xs ! k)"
    and sib: "\<And>s. 0 < s \<Longrightarrow> up s = k \<Longrightarrow> s < n \<Longrightarrow> le (xs ! j) (xs ! s)"
  shows "down_ok le (swapl xs k j) n j"
  unfolding down_ok_def
proof (intro conjI allI impI)
  fix i
  assume i: "0 < i \<and> i < n \<and> up i \<noteq> j"
  have kj: "k < j" using j by (metis up_less)
  then have kl: "k < length xs" "j < length xs" using j by linarith+
  consider "i = j" | "i \<noteq> j" "i = k" | "i \<noteq> j" "i \<noteq> k" "up i = k" | "i \<noteq> j" "i \<noteq> k" "up i \<noteq> k"
    by blast
  then show "le (swapl xs k j ! up i) (swapl xs k j ! i)"
  proof cases
    case 1
    then show ?thesis using kl kj jk j by (simp add: nth_swapl)
  next
    case 2
    have "le (xs ! up k) (xs ! j)" using ok j i 2 by (auto simp: down_ok_def)
    moreover have "up i \<noteq> i" using i by (metis up_less less_irrefl)
    ultimately show ?thesis using 2 kl i by (simp add: nth_swapl)
  next
    case 3
    then show ?thesis using sib i kl by (simp add: nth_swapl)
  next
    case 4
    then have "le (xs ! up i) (xs ! i)" using ok i by (simp add: down_ok_def)
    then show ?thesis using 4 kl i by (simp add: nth_swapl)
  qed
next
  fix i
  assume i: "0 < i \<and> i < n \<and> up i = j \<and> 0 < j"
  have kj: "k < j" using j by (metis up_less)
  moreover have "j < i" using i by (metis up_less)
  ultimately have kl: "k < length xs" "j < length xs" "k \<noteq> i" "j \<noteq> i" using j by linarith+
  have "up i \<noteq> k" using i kj by simp
  then have "le (xs ! up i) (xs ! i)" using ok i by (metis down_ok_def)
  then show "le (swapl xs k j ! up j) (swapl xs k j ! i)"
    using kl i j(2) by (simp add: nth_swapl)
qed

end

end
