(* ===== verification/Min_Heap.thy ===== *)
theory Min_Heap
  imports Array_Heap
begin

section \<open>The min heap (src/common/heap.c)\<close>

text \<open>
  A heap of pointers to structs whose first member is an \<open>int\<close>, the key. The model keeps
  the structs themselves in the backing array; \<open>key\<close> reads the first member. The array may
  be longer than the heap: \<open>len\<close> cells are in use. Reading or writing outside the backing
  array is \<open>Out_Of_Bounds\<close>.
\<close>

record 'a heap =
  items :: "'a list"
  len :: nat

definition parent :: "nat \<Rightarrow> nat" where
  "parent i = (i - 1) div 2"

definition left :: "nat \<Rightarrow> nat" where
  "left i = 2 * i + 1"

definition right :: "nat \<Rightarrow> nat" where
  "right i = 2 * i + 2"

definition heap_init :: "'a list \<Rightarrow> 'a heap" where
  "heap_init backing = \<lparr> items = backing, len = 0 \<rparr>"

text \<open>The loop of \<open>heap_add\<close>.\<close>

function add_loop :: "('a \<Rightarrow> int) \<Rightarrow> 'a list \<Rightarrow> nat \<Rightarrow> 'a list cres" where
  "add_loop key xs i =
     (if i = 0 then Inr xs
      else
        cbind (rd xs i) (\<lambda>x.
        cbind (rd xs (parent i)) (\<lambda>y.
          if key x < key y then
            cbind (wr xs i y) (\<lambda>ys.
            cbind (wr ys (parent i) x) (\<lambda>zs.
              add_loop key zs (parent i)))
          else Inr xs)))"
  by pat_completeness auto
termination
  by (relation "measure (\<lambda>(key, xs, i). i)") (auto simp: parent_def)

definition heap_add :: "('a \<Rightarrow> int) \<Rightarrow> 'a heap \<Rightarrow> 'a \<Rightarrow> 'a heap cres" where
  "heap_add key h item =
     cbind (wr (items h) (len h) item) (\<lambda>xs.
     cbind (add_loop key xs (len h)) (\<lambda>ys.
       Inr \<lparr> items = ys, len = len h + 1 \<rparr>))"

definition heap_peek :: "'a heap \<Rightarrow> 'a option cres" where
  "heap_peek h =
     (if len h \<noteq> 0 then cbind (rd (items h) 0) (\<lambda>x. Inr (Some x)) else Inr None)"

text \<open>The key of a missing child in \<open>heap_pop\<close>.\<close>

definition NO_CHILD :: int where
  "NO_CHILD = 0x00FFFFFF"

function pop_loop :: "('a \<Rightarrow> int) \<Rightarrow> 'a list \<Rightarrow> nat \<Rightarrow> nat \<Rightarrow> 'a list cres" where
  "pop_loop key xs n i =
     (if i < n then
        cbind (if left i < n then cbind (rd xs (left i)) (\<lambda>x. Inr (key x)) else Inr NO_CHILD) (\<lambda>a.
        cbind (if right i < n then cbind (rd xs (right i)) (\<lambda>x. Inr (key x)) else Inr NO_CHILD) (\<lambda>b.
        cbind (rd xs i) (\<lambda>tmp.
          if key tmp < a \<and> key tmp < b then Inr xs
          else
            let j = (if a < b then left i else right i) in
            cbind (rd xs j) (\<lambda>y.
            cbind (wr xs i y) (\<lambda>ys.
            cbind (wr ys j tmp) (\<lambda>zs.
              pop_loop key zs n j))))))
      else Inr xs)"
  by pat_completeness auto
termination
  by (relation "measure (\<lambda>(key, xs, n, i). n - i)") (auto simp: left_def right_def split: if_splits)

definition heap_pop :: "('a \<Rightarrow> int) \<Rightarrow> 'a heap \<Rightarrow> 'a heap cres" where
  "heap_pop key h =
     (if len h < 2 then Inr (h\<lparr> len := 0 \<rparr>)
      else
        cbind (rd (items h) (len h - 1)) (\<lambda>x.
        cbind (wr (items h) 0 x) (\<lambda>xs.
        cbind (pop_loop key xs (len h - 1) 0) (\<lambda>ys.
          Inr \<lparr> items = ys, len = len h - 1 \<rparr>))))"

declare add_loop.simps [simp del] pop_loop.simps [simp del]

subsection \<open>The heap property\<close>

abbreviation key_le :: "('a \<Rightarrow> int) \<Rightarrow> 'a \<Rightarrow> 'a \<Rightarrow> bool" where
  "key_le key x y \<equiv> key x \<le> key y"

interpretation key_order: heap_order "key_le key" for key :: "'a \<Rightarrow> int"
  by unfold_locales auto

text \<open>
  Keys below \<open>NO_CHILD\<close>, at most as many items as cells, and the heap property on the cells
  in use. The bound on the keys is what \<open>heap_pop\<close> needs (see \<open>heap_pop_large_key\<close>).
\<close>

definition heap_inv :: "('a \<Rightarrow> int) \<Rightarrow> 'a heap \<Rightarrow> bool" where
  "heap_inv key h \<longleftrightarrow>
     len h \<le> length (items h) \<and>
     (\<forall>x \<in> set (take (len h) (items h)). key x < NO_CHILD) \<and>
     heap_ok (key_le key) (items h) (len h)"

definition heap_bag :: "'a heap \<Rightarrow> 'a multiset" where
  "heap_bag h = mset (take (len h) (items h))"

lemma heap_init_inv: "heap_inv key (heap_init backing)"
  by (simp add: heap_inv_def heap_init_def heap_ok_def)

lemma heap_init_bag [simp]: "heap_bag (heap_init backing) = {#}"
  by (simp add: heap_bag_def heap_init_def)

lemma parent_up: "parent = up"
  by (simp add: fun_eq_iff parent_def up_def)

lemma add_loop_ok:
  assumes "i < n" "n \<le> length xs" "up_ok (key_le key) xs n i"
  shows "\<exists>ys. add_loop key xs i = Inr ys \<and> length ys = length xs \<and>
    mset (take n ys) = mset (take n xs) \<and> heap_ok (key_le key) ys n"
  using assms
proof (induction i arbitrary: xs rule: less_induct)
  case (less i)
  show ?case
  proof (cases "i = 0 \<or> key (xs ! up i) \<le> key (xs ! i)")
    case True
    have "up i < length xs" if "0 < i" using less.prems up_less [OF that] by linarith
    with True have "add_loop key xs i = Inr xs"
      using less.prems by (subst add_loop.simps) (auto simp: parent_up)
    then show ?thesis
      using True less.prems key_order.up_done [of key xs n i] by auto
  next
    case False
    then have i: "0 < i" "up i < i" by auto
    let ?ys = "swapl xs i (up i)"
    have "add_loop key xs i = add_loop key ?ys (up i)"
      using False i less.prems by (subst add_loop.simps) (simp add: parent_up swapl_def)
    moreover have "up_ok (key_le key) ?ys n (up i)"
      using False i less.prems by (intro key_order.up_step) auto
    moreover have "up i < n" using i less.prems by linarith
    ultimately show ?thesis
      using less.IH [of "up i" ?ys] i less.prems by simp
  qed
qed

lemma heap_add_ok:
  assumes inv: "heap_inv key h" and room: "len h < length (items h)" and key: "key x < NO_CHILD"
  obtains h' where "heap_add key h x = Inr h'" "heap_inv key h'"
    "heap_bag h' = add_mset x (heap_bag h)" "length (items h') = length (items h)"
    "len h' = len h + 1"
proof -
  let ?xs = "(items h)[len h := x]" and ?n = "Suc (len h)"
  have ok: "up_ok (key_le key) ?xs ?n (len h)"
    using inv room by (intro key_order.up_init) (auto simp: heap_inv_def)
  obtain ys where ys: "add_loop key ?xs (len h) = Inr ys" "length ys = length (items h)"
    "mset (take ?n ys) = mset (take ?n ?xs)" "heap_ok (key_le key) ys ?n"
    using add_loop_ok [OF _ _ ok] room by auto
  have bag: "mset (take ?n ?xs) = add_mset x (heap_bag h)"
    using room by (simp add: heap_bag_def take_Suc_conv_app_nth)
  have "set (take ?n ys) = insert x (set (take (len h) (items h)))"
    using ys(3) bag by (metis heap_bag_def set_mset_add_mset_insert set_mset_mset)
  then have keys: "\<forall>y \<in> set (take ?n ys). key y < NO_CHILD"
    using inv key by (simp add: heap_inv_def)
  show ?thesis
    by (rule that [of "\<lparr>items = ys, len = ?n\<rparr>"])
       (use ys bag room keys in \<open>simp_all add: heap_add_def heap_inv_def heap_bag_def\<close>)
qed

lemma heap_peek_ok:
  "heap_inv key h \<Longrightarrow>
     heap_peek h = Inr (if heap_bag h = {#} then None else Some (items h ! 0))"
  by (auto simp: heap_peek_def heap_inv_def heap_bag_def)

lemma heap_root_min:
  assumes "heap_inv key h" and "x \<in># heap_bag h"
  shows "key (items h ! 0) \<le> key x"
proof -
  from assms(2) obtain i where "i < len h" "x = items h ! i"
    by (auto simp: heap_bag_def in_set_conv_nth)
  then show ?thesis
    using key_order.root_le [of key "items h" "len h" i] assms(1) by (simp add: heap_inv_def)
qed

subsection \<open>Removing the least element\<close>

text \<open>The keys \<open>a\<close> and \<open>b\<close> the loop of \<open>heap_pop\<close> compares at cell \<open>i\<close>.\<close>

definition child_key :: "('a \<Rightarrow> int) \<Rightarrow> 'a list \<Rightarrow> nat \<Rightarrow> nat \<Rightarrow> int" where
  "child_key key xs n c = (if c < n then key (xs ! c) else NO_CHILD)"

lemma pop_loop_unfold:
  assumes "i < n" "n \<le> length xs"
  shows "pop_loop key xs n i =
    (let a = child_key key xs n (left i); b = child_key key xs n (right i);
         j = (if a < b then left i else right i)
     in if key (xs ! i) < a \<and> key (xs ! i) < b then Inr xs
        else if j < length xs then pop_loop key (swapl xs i j) n j else Inl Out_Of_Bounds)"
  using assms
  by (subst pop_loop.simps) (simp add: child_key_def Let_def swapl_def rd_def wr_def)

lemma pop_loop_target:
  assumes small: "\<forall>x \<in> set (take n xs). key x < NO_CHILD" and i: "i < n" "n \<le> length xs"
    and a: "a = child_key key xs n (left i)" and b: "b = child_key key xs n (right i)"
    and j: "j = (if a < b then left i else right i)"
    and more: "\<not> (key (xs ! i) < a \<and> key (xs ! i) < b)"
  shows "j < n" "key (xs ! j) \<le> key (xs ! i)"
    "\<And>s. 0 < s \<Longrightarrow> up s = i \<Longrightarrow> s < n \<Longrightarrow> key (xs ! j) \<le> key (xs ! s)"
proof -
  have small': "key (xs ! k) < NO_CHILD" if "k < n" for k
    using small that i nth_mem [of k "take n xs"] by auto
  have ci: "key (xs ! i) < NO_CHILD" using small' i by simp
  have la: "left i < n \<and> a = key (xs ! left i) \<and> a < NO_CHILD \<or> \<not> left i < n \<and> a = NO_CHILD"
    using small' by (auto simp: a child_key_def)
  have rb: "right i < n \<and> b = key (xs ! right i) \<and> b < NO_CHILD \<or> \<not> right i < n \<and> b = NO_CHILD"
    using small' by (auto simp: b child_key_def)
  have ll: "left i < right i" by (simp add: left_def right_def)
  show jn: "j < n" using la rb ll ci more j by (auto split: if_splits)
  show "key (xs ! j) \<le> key (xs ! i)" using la rb more j jn by (auto split: if_splits)
  fix s assume s: "0 < s" "up s = i" "s < n"
  then have "s = left i \<or> s = right i" using up_eq_iff [of s i] by (simp add: left_def right_def)
  then show "key (xs ! j) \<le> key (xs ! s)" using la rb j jn s by (auto split: if_splits)
qed

lemma pop_loop_ok:
  assumes "i < n" "n \<le> length xs" "down_ok (key_le key) xs n i"
    and "\<forall>x \<in> set (take n xs). key x < NO_CHILD"
  shows "\<exists>ys. pop_loop key xs n i = Inr ys \<and> length ys = length xs \<and>
    mset (take n ys) = mset (take n xs) \<and> heap_ok (key_le key) ys n"
  using assms
proof (induction "n - i" arbitrary: xs i rule: less_induct)
  case less
  define a where "a = child_key key xs n (left i)"
  define b where "b = child_key key xs n (right i)"
  define j where "j = (if a < b then left i else right i)"
  note unfold = pop_loop_unfold [OF less.prems(1,2), of key, folded a_def b_def,
      unfolded Let_def, folded j_def]
  show ?case
  proof (cases "key (xs ! i) < a \<and> key (xs ! i) < b")
    case True
    then have "heap_ok (key_le key) xs n"
      using less.prems by (intro key_order.down_done [of key xs n i])
        (auto simp: a_def b_def child_key_def left_def right_def split: if_splits)
    then show ?thesis using True unfold by simp
  next
    case False
    note target = pop_loop_target [OF less.prems(4,1,2) a_def b_def j_def False]
    have j: "0 < j" "up j = i" "i < j" by (auto simp: j_def left_def right_def up_def)
    have "pop_loop key xs n i = pop_loop key (swapl xs i j) n j"
      using unfold target(1) less.prems by (simp only: if_not_P [OF False]) simp
    moreover have "down_ok (key_le key) (swapl xs i j) n j"
      using less.prems target j by (intro key_order.down_step) auto
    moreover have "\<forall>x \<in> set (take n (swapl xs i j)). key x < NO_CHILD"
      using less.prems target(1)
      by (metis mset_take_swapl set_mset_mset)
    ultimately show ?thesis
      using less.hyps [of j "swapl xs i j"] less.prems target(1) j by simp
  qed
qed

lemma heap_pop_ok:
  assumes inv: "heap_inv key h" and ne: "heap_bag h \<noteq> {#}"
  obtains h' where "heap_pop key h = Inr h'" "heap_inv key h'"
    "heap_bag h' = heap_bag h - {# items h ! 0 #}" "length (items h') = length (items h)"
    "len h' = len h - 1"
proof (cases "len h < 2")
  case True
  then have "len h = 1" using ne by (cases "len h") (auto simp: heap_bag_def)
  moreover have "0 < length (items h)" using ne by (auto simp: heap_bag_def)
  ultimately have "heap_bag h = {# items h ! 0 #}"
    by (simp add: heap_bag_def take_Suc_conv_app_nth)
  then show ?thesis
    using that [of "h\<lparr>len := 0\<rparr>"] True
    by (simp add: heap_pop_def heap_inv_def heap_bag_def heap_ok_def)
next
  case False
  define n where "n = len h - 1"
  let ?x = "items h ! n" and ?xs = "(items h)[0 := items h ! n]"
  have n: "0 < n" "len h = Suc n" "n < length (items h)"
    using False inv by (auto simp: n_def heap_inv_def)
  have sub: "mset (take n ?xs) = heap_bag h - {# items h ! 0 #}"
    using n by (cases "items h")
      (auto simp: heap_bag_def take_Suc_conv_app_nth take_Cons' nth_Cons' less_Suc_eq_0_disj)
  have ok: "heap_ok (key_le key) (items h) n"
    using inv n heap_ok_less [of _ "items h" "len h" n] by (simp add: heap_inv_def)
  have small: "\<forall>x \<in> set (take n ?xs). key x < NO_CHILD"
    using inv sub by (metis heap_bag_def heap_inv_def in_diffD set_mset_mset)
  obtain ys where ys: "pop_loop key ?xs n 0 = Inr ys" "length ys = length (items h)"
    "mset (take n ys) = mset (take n ?xs)" "heap_ok (key_le key) ys n"
    using pop_loop_ok [OF n(1) _ key_order.down_init [OF ok] small] n by auto
  have small': "\<forall>x \<in> set (take n ys). key x < NO_CHILD"
    using small ys(3) by (metis set_mset_mset)
  have "heap_pop key h = Inr \<lparr>items = ys, len = n\<rparr>"
    using ys(1) n less_trans [OF n(1,3)] by (simp add: heap_pop_def)
  then show ?thesis
    by (rule that) (use ys n sub small' in \<open>simp_all add: heap_inv_def heap_bag_def\<close>)
qed

subsection \<open>The heap as a priority queue\<close>

text \<open>
  Results of the C operations with the fault branch dropped; under the invariant and with a
  free cell they never fault.
\<close>

definition hp_ins :: "('a \<Rightarrow> int) \<Rightarrow> 'a heap \<Rightarrow> 'a \<Rightarrow> 'a heap" where
  "hp_ins key h x = (case heap_add key h x of Inr h' \<Rightarrow> h' | Inl _ \<Rightarrow> h)"

definition hp_del :: "('a \<Rightarrow> int) \<Rightarrow> 'a heap \<Rightarrow> 'a heap" where
  "hp_del key h = (case heap_pop key h of Inr h' \<Rightarrow> h' | Inl _ \<Rightarrow> h)"

lemma hp_ins_ok:
  assumes "heap_inv key h" "len h < length (items h)" "key x < NO_CHILD"
  shows "heap_add key h x = Inr (hp_ins key h x)" "heap_inv key (hp_ins key h x)"
    "heap_bag (hp_ins key h x) = add_mset x (heap_bag h)"
    "length (items (hp_ins key h x)) = length (items h)" "len (hp_ins key h x) = len h + 1"
  using heap_add_ok [OF assms] by (force simp: hp_ins_def)+

lemma hp_del_ok:
  assumes "heap_inv key h" "heap_bag h \<noteq> {#}"
  shows "heap_pop key h = Inr (hp_del key h)" "heap_inv key (hp_del key h)"
    "heap_bag (hp_del key h) = heap_bag h - {# items h ! 0 #}"
    "length (items (hp_del key h)) = length (items h)" "len (hp_del key h) = len h - 1"
  using heap_pop_ok [OF assms] by (force simp: hp_del_def)+

lemma heap_root_in:
  assumes "heap_inv key h" "heap_bag h \<noteq> {#}"
  shows "items h ! 0 \<in># heap_bag h"
proof -
  have "0 < len h" "0 < length (items h)" using assms by (auto simp: heap_bag_def)
  then show ?thesis by (auto simp: heap_bag_def in_set_conv_nth intro!: exI [of _ 0])
qed

interpretation hp: prio_queue "heap_inv key" heap_bag "\<lambda>h. len h < length (items h)"
    "\<lambda>h x. key x < NO_CHILD" "hp_ins key" "\<lambda>h. items h ! 0" "hp_del key" "key_le key"
  for key :: "'a \<Rightarrow> int"
  by unfold_locales (auto simp: hp_ins_ok hp_del_ok heap_root_in heap_root_min)

text \<open>Peeking and popping until the heap is empty, with the C operations.\<close>

fun heap_drain :: "('a \<Rightarrow> int) \<Rightarrow> nat \<Rightarrow> 'a heap \<Rightarrow> 'a list cres" where
  "heap_drain key 0 h = Inr []"
| "heap_drain key (Suc n) h =
     cbind (heap_peek h) (\<lambda>top.
       case top of None \<Rightarrow> Inr []
       | Some x \<Rightarrow> cbind (heap_pop key h) (\<lambda>h'.
           cbind (heap_drain key n h') (\<lambda>xs. Inr (x # xs))))"

lemma heap_drain_eq:
  "heap_inv key h \<Longrightarrow> size (heap_bag h) = n \<Longrightarrow> heap_drain key n h = Inr (hp.drain key n h)"
proof (induction n arbitrary: h)
  case (Suc n)
  then have ne: "heap_bag h \<noteq> {#}" by auto
  have "size (heap_bag (hp_del key h)) = n"
    using Suc ne by (simp add: hp_del_ok size_Diff_singleton heap_root_in)
  then show ?case
    using Suc ne by (simp add: heap_peek_ok hp_del_ok)
qed simp

text \<open>
  C2: \<open>heap_add\<close> on a heap with a free cell, and \<open>heap_pop\<close> on a heap that is not empty,
  never leave the backing array and keep the heap property; one adds exactly the new item,
  the other removes exactly the item \<open>heap_peek\<close> showed, whose key is the least of all. The
  keys have to be below \<open>0x00FFFFFF\<close>.
\<close>

theorem heap_operations:
  assumes "heap_inv key h"
  shows "(len h < length (items h) \<and> key x < NO_CHILD \<longrightarrow>
      (\<exists>h'. heap_add key h x = Inr h' \<and> heap_inv key h' \<and>
            heap_bag h' = add_mset x (heap_bag h))) \<and>
    (heap_bag h \<noteq> {#} \<longrightarrow>
      (\<exists>y h'. heap_peek h = Inr (Some y) \<and> heap_pop key h = Inr h' \<and> heap_inv key h' \<and>
            heap_bag h = add_mset y (heap_bag h') \<and> (\<forall>z \<in># heap_bag h. key y \<le> key z)))"
  using assms hp_ins_ok [OF assms] hp_del_ok [OF assms] heap_peek_ok [OF assms]
    heap_root_min [OF assms] heap_root_in [OF assms]
  by auto

definition sample_heap :: "int heap" where
  "sample_heap = \<lparr> items = [2, 7, 4, 9, 8, 5, 0, 0], len = 6 \<rparr>"

lemma sample_heap_inv: "heap_inv id sample_heap"
  by code_simp

theorem heap_operations_witness:
  "(\<exists>h'. heap_add id sample_heap 3 = Inr h' \<and> heap_inv id h' \<and>
       heap_bag h' = add_mset 3 (heap_bag sample_heap)) \<and>
   (\<exists>y h'. heap_peek sample_heap = Inr (Some y) \<and> heap_pop id sample_heap = Inr h' \<and>
       heap_inv id h' \<and> heap_bag sample_heap = add_mset y (heap_bag h') \<and>
       (\<forall>z \<in># heap_bag sample_heap. id y \<le> id z))"
  using heap_operations [OF sample_heap_inv, of 3]
  by (simp add: sample_heap_def NO_CHILD_def heap_bag_def)

text \<open>
  Peeking and popping a heap of the code until it is empty yields all its items, each
  once, in the order of their keys: the order in which the train server runs its commands.
\<close>

theorem heap_drain_sorted:
  assumes "heap_inv key h" and "n = size (heap_bag h)"
  shows "\<exists>xs. heap_drain key n h = Inr xs \<and> mset xs = heap_bag h \<and> sorted (map key xs)"
  using heap_drain_eq [OF assms(1)] hp.drain_mset [OF assms(1)] hp.drain_sorted [OF assms(1)]
    assms(2)
  by (simp add: sorted_map)

theorem heap_drain_sorted_witness:
  "\<exists>xs. heap_drain id 6 sample_heap = Inr xs \<and> mset xs = heap_bag sample_heap \<and>
     sorted (map id xs)"
  by (rule heap_drain_sorted [OF sample_heap_inv]) (simp add: sample_heap_def heap_bag_def)



end
