(* ===== verification/C_String.thy ===== *)
theory C_String
  imports Prelude "HOL-Library.Char_ord" "HOL-Library.List_Lexorder" "HOL-Library.Sublist"
begin

section \<open>Strings and memory (src/common/my_string.c, src/common/my_memory.c)\<close>

text \<open>
  A C string is the list of characters from its pointer to the end of the array it lives in;
  \<open>NUL\<close> ends it, and a read past the end of the list is \<open>Out_Of_Bounds\<close>. Characters compare
  as unsigned bytes, as plain \<open>char\<close> does on ARM. \<open>size_t\<close> is unsigned, so the loop guards
  \<open>n >= 0\<close> of \<open>strncpy\<close> and \<open>strncmp\<close> hold always: neither function stops after \<open>n\<close>
  characters.
\<close>

abbreviation NUL :: char where
  "NUL \<equiv> CHR 0x00"

text \<open>The text of a C string, and an array that holds a given text.\<close>

definition cstr :: "char list \<Rightarrow> string" where
  "cstr buf = takeWhile (\<lambda>c. c \<noteq> NUL) buf"

definition terminated :: "char list \<Rightarrow> bool" where
  "terminated buf \<longleftrightarrow> NUL \<in> set buf"

definition lit :: "string \<Rightarrow> char list" where
  "lit s = s @ [NUL]"

fun strlen_loop :: "char list \<Rightarrow> nat \<Rightarrow> nat cres" where
  "strlen_loop [] cnt = Inl Out_Of_Bounds"
| "strlen_loop (c # str) cnt = (if c \<noteq> NUL then strlen_loop str (cnt + 1) else Inr cnt)"

definition strlen :: "char list \<Rightarrow> nat cres" where
  "strlen str = strlen_loop str 0"

text \<open>\<open>i\<close> is the distance both pointers have moved.\<close>

fun strncpy_loop :: "char list \<Rightarrow> nat \<Rightarrow> char list \<Rightarrow> nat \<Rightarrow> char list cres" where
  "strncpy_loop dest i [] n = Inl Out_Of_Bounds"
| "strncpy_loop dest i (c # src) n =
     (if c \<noteq> NUL then cbind (wr dest i c) (\<lambda>dest'. strncpy_loop dest' (i + 1) src (n - 1))
      else wr dest i NUL)"

definition strncpy :: "char list \<Rightarrow> char list \<Rightarrow> nat \<Rightarrow> char list cres" where
  "strncpy dest src n = strncpy_loop dest 0 src n"

text \<open>What \<open>strncmp\<close> returns once one of the strings has ended.\<close>

definition strncmp_end :: "char \<Rightarrow> char list \<Rightarrow> nat \<Rightarrow> int cres" where
  "strncmp_end c1 s2 n =
     (if n = 0 then Inr 0
      else if c1 \<noteq> NUL then Inr 1
      else cbind (rd s2 0) (\<lambda>c2. if c2 \<noteq> NUL then Inr (-1) else Inr 0))"

fun strncmp :: "char list \<Rightarrow> char list \<Rightarrow> nat \<Rightarrow> int cres" where
  "strncmp [] s2 n = Inl Out_Of_Bounds"
| "strncmp (c1 # s1) s2 n =
     (if c1 \<noteq> NUL then
        (case s2 of
           [] \<Rightarrow> Inl Out_Of_Bounds
         | c2 # s2' \<Rightarrow>
             if c2 \<noteq> NUL then
               (if c1 > c2 then Inr 1 else if c1 < c2 then Inr (-1) else strncmp s1 s2' n)
             else strncmp_end c1 s2 n)
      else strncmp_end c1 s2 n)"

fun memcpy_loop :: "'a list \<Rightarrow> 'a list \<Rightarrow> nat \<Rightarrow> nat \<Rightarrow> 'a list cres" where
  "memcpy_loop dest src i 0 = Inr dest"
| "memcpy_loop dest src i (Suc left) =
     cbind (rd src i) (\<lambda>c. cbind (wr dest i c) (\<lambda>dest'. memcpy_loop dest' src (i + 1) left))"

definition memcpy :: "'a list \<Rightarrow> 'a list \<Rightarrow> nat \<Rightarrow> 'a list cres" where
  "memcpy dest src n = memcpy_loop dest src 0 n"

fun memset_loop :: "'a list \<Rightarrow> 'a \<Rightarrow> nat \<Rightarrow> nat \<Rightarrow> 'a list cres" where
  "memset_loop ptr val i 0 = Inr ptr"
| "memset_loop ptr val i (Suc left) =
     cbind (wr ptr i val) (\<lambda>ptr'. memset_loop ptr' val (i + 1) left)"

definition memset :: "'a list \<Rightarrow> 'a \<Rightarrow> nat \<Rightarrow> 'a list cres" where
  "memset ptr val n = memset_loop ptr val 0 n"

subsection \<open>Functional behaviour\<close>

lemma cstr_lit [simp]: "NUL \<notin> set s \<Longrightarrow> cstr (lit s) = s"
  unfolding cstr_def lit_def by (subst takeWhile_append2) auto

lemma terminated_lit [simp]: "terminated (lit s)"
  by (simp add: terminated_def lit_def)

lemma NUL_notin_cstr [simp]: "NUL \<notin> set (cstr buf)"
  by (auto simp: cstr_def dest: set_takeWhileD)

lemma cstr_length: "terminated buf \<Longrightarrow> length (cstr buf) < length buf"
  unfolding cstr_def terminated_def by (induction buf) auto

lemma strlen_loop_ok: "terminated str \<Longrightarrow> strlen_loop str cnt = Inr (cnt + length (cstr str))"
  by (induction str cnt rule: strlen_loop.induct) (auto simp: terminated_def cstr_def)

lemma strlen_ok: "terminated str \<Longrightarrow> strlen str = Inr (length (cstr str))"
  by (simp add: strlen_def strlen_loop_ok)

lemma strncpy_loop_ok:
  "terminated src \<Longrightarrow> i + length (cstr src) < length dest \<Longrightarrow>
     strncpy_loop dest i src n
     = Inr (take i dest @ lit (cstr src) @ drop (i + length (cstr src) + 1) dest)"
proof (induction dest i src n rule: strncpy_loop.induct)
  case (2 dest i c src n)
  show ?case
  proof (cases "c = NUL")
    case True
    then show ?thesis
      using "2.prems" by (simp add: cstr_def lit_def upd_conv_take_nth_drop)
  next
    case False
    then have prems: "terminated src" "i + 1 + length (cstr src) < length (dest[i := c])"
      and len: "length (cstr (c # src)) = Suc (length (cstr src))"
      using "2.prems" by (auto simp: terminated_def cstr_def)
    have "strncpy_loop dest i (c # src) n = strncpy_loop (dest[i := c]) (i + 1) src (n - 1)"
      using False "2.prems" by simp
    also have "\<dots> = Inr (take (i + 1) (dest[i := c]) @ lit (cstr src) @
        drop (i + 1 + length (cstr src) + 1) (dest[i := c]))"
      using "2.IH" [OF False, of "dest[i := c]"] prems False "2.prems" by simp
    also have "\<dots> = Inr (take i dest @ lit (cstr (c # src)) @
        drop (i + length (cstr (c # src)) + 1) dest)"
      using False "2.prems" len by (simp add: cstr_def lit_def take_Suc_conv_app_nth)
    finally show ?thesis .
  qed
qed (simp add: terminated_def)

lemma strncpy_ok:
  "terminated src \<Longrightarrow> length (cstr src) < length dest \<Longrightarrow>
     strncpy dest src n = Inr (lit (cstr src) @ drop (length (cstr src) + 1) dest)"
  using strncpy_loop_ok [of src 0 dest n] by (simp add: strncpy_def)

lemma strncpy_loop_overflow:
  "i + length (cstr src) \<ge> length dest \<Longrightarrow> strncpy_loop dest i src n = Inl Out_Of_Bounds"
proof (induction dest i src n rule: strncpy_loop.induct)
  case (2 dest i c src n)
  show ?case
  proof (cases "c = NUL \<or> length dest \<le> i")
    case True
    then show ?thesis using "2.prems" by (auto simp: wr_def cstr_def)
  next
    case False
    then have "length (dest[i := c]) \<le> i + 1 + length (cstr src)"
      using "2.prems" by (simp add: cstr_def)
    then show ?thesis using "2.IH" [of "dest[i := c]"] False by simp
  qed
qed simp

lemma strncpy_overflow:
  "length dest \<le> length (cstr src) \<Longrightarrow> strncpy dest src n = Inl Out_Of_Bounds"
  using strncpy_loop_overflow [of dest 0 src n] by (simp add: strncpy_def)

lemma memcpy_loop_ok:
  "i + n \<le> length src \<Longrightarrow> i + n \<le> length dest \<Longrightarrow>
     memcpy_loop dest src i n = Inr (take i dest @ take n (drop i src) @ drop (i + n) dest)"
proof (induction dest src i n rule: memcpy_loop.induct)
  case (2 dest src i n)
  have "memcpy_loop dest src i (Suc n) = memcpy_loop (dest[i := src ! i]) src (i + 1) n"
    using "2.prems" by simp
  also have "\<dots> = Inr (take (i + 1) (dest[i := src ! i]) @ take n (drop (i + 1) src) @
      drop (i + 1 + n) (dest[i := src ! i]))"
    using "2.IH" [of "src ! i" "dest[i := src ! i]"] "2.prems" by simp
  also have "\<dots> = Inr (take i dest @ take (Suc n) (drop i src) @ drop (i + Suc n) dest)"
    using "2.prems" by (simp add: take_Suc_conv_app_nth Cons_nth_drop_Suc [symmetric])
  finally show ?case .
qed simp

lemma memcpy_ok:
  "n \<le> length src \<Longrightarrow> n \<le> length dest \<Longrightarrow> memcpy dest src n = Inr (take n src @ drop n dest)"
  using memcpy_loop_ok [of 0 n src dest] by (simp add: memcpy_def)

lemma memset_loop_ok:
  "i + n \<le> length ptr \<Longrightarrow>
     memset_loop ptr v i n = Inr (take i ptr @ replicate n v @ drop (i + n) ptr)"
proof (induction ptr v i n rule: memset_loop.induct)
  case (2 ptr v i n)
  have "memset_loop ptr v i (Suc n) = memset_loop (ptr[i := v]) v (i + 1) n"
    using "2.prems" by simp
  also have "\<dots> = Inr (take (i + 1) (ptr[i := v]) @ replicate n v @ drop (i + 1 + n) (ptr[i := v]))"
    using "2.IH" [of "ptr[i := v]"] "2.prems" by simp
  also have "\<dots> = Inr (take i ptr @ replicate (Suc n) v @ drop (i + Suc n) ptr)"
    using "2.prems" by (simp add: take_Suc_conv_app_nth)
  finally show ?case .
qed simp

lemma memset_ok: "n \<le> length ptr \<Longrightarrow> memset ptr v n = Inr (replicate n v @ drop n ptr)"
  using memset_loop_ok [of 0 n ptr v] by (simp add: memset_def)

subsection \<open>Comparison\<close>

lemma cstr_Cons: "cstr (c # s) = (if c = NUL then [] else c # cstr s)"
  by (simp add: cstr_def)

lemma terminated_Cons: "terminated (c # s) \<longleftrightarrow> c = NUL \<or> terminated s"
  by (auto simp: terminated_def)

lemma strncmp_lex:
  assumes "terminated s1" and "terminated s2"
  shows "strncmp s1 s2 n =
    Inr (let a = cstr s1; b = cstr s2 in
         if n = 0 \<and> (prefix a b \<or> prefix b a) then 0
         else if a < b then -1 else if a = b then 0 else 1)"
  using assms
proof (induction s1 s2 n rule: strncmp.induct)
  case (2 c1 s1 s2 n)
  obtain c2 s2' where s2: "s2 = c2 # s2'"
    using "2.prems"(2) by (cases s2) (auto simp: terminated_def)
  show ?case
  proof (cases "c1 \<noteq> NUL \<and> c2 \<noteq> NUL \<and> \<not> c1 < c2 \<and> \<not> c2 < c1")
    case True
    then have "terminated s1" "terminated s2'" using "2.prems" s2 by (auto simp: terminated_Cons)
    moreover have "c2 = c1" using True by (meson linorder_neqE)
    ultimately show ?thesis using True "2.IH" s2 by (simp add: cstr_Cons Let_def)
  next
    case False
    then show ?thesis
      by (auto simp: s2 strncmp_end_def cstr_Cons Let_def)
  qed
qed (simp add: terminated_def)

lemma strncmp_eq_iff:
  assumes "terminated s1" and "terminated s2" and "0 < n"
  shows "strncmp s1 s2 n = Inr 0 \<longleftrightarrow> cstr s1 = cstr s2"
  using strncmp_lex [OF assms(1,2), of n] assms(3) by (auto simp: Let_def)

text \<open>
  \<open>strncmp\<close> on two terminated strings compares them whole, however small the positive
  \<open>n\<close> is: the result is the sign of the lexicographic comparison of the full texts. Only
  \<open>n = 0\<close> is special: it makes a string equal to each of its prefixes, the empty one included.
\<close>

theorem strncmp_compares_all:
  assumes "terminated s1" and "terminated s2"
  shows "strncmp s1 s2 n =
    Inr (let a = cstr s1; b = cstr s2 in
         if n = 0 \<and> (prefix a b \<or> prefix b a) then 0
         else if a < b then -1 else if a = b then 0 else 1)"
  using assms by (rule strncmp_lex)

theorem strncmp_compares_all_witness:
  "strncmp (lit ''abc'') (lit ''abd'') 2 = Inr (-1)"
  using strncmp_compares_all [of "lit ''abc''" "lit ''abd''" 2]
  by (simp add: Let_def less_char_def)

text \<open>
  C4: \<open>strncpy\<close> copies the whole source and its terminator whatever \<open>n\<close> is: it succeeds
  exactly when the destination array has room for all of it, so \<open>n\<close> protects no caller
  from an overflow.
\<close>

theorem strncpy_ignores_n:
  assumes "terminated src"
  shows "strncpy dest src n =
    (if length (cstr src) < length dest
     then Inr (lit (cstr src) @ drop (length (cstr src) + 1) dest) else Inl Out_Of_Bounds)"
  using assms strncpy_ok strncpy_overflow by simp

theorem strncpy_ignores_n_witness:
  "strncpy (lit ''xyz'') (lit ''abcdef'') 2 = Inl Out_Of_Bounds \<and>
   strncpy (lit ''xyz'') (lit ''ab'') 1 = Inr (lit ''ab'' @ [NUL])"
  using strncpy_ignores_n [of "lit ''abcdef''" "lit ''xyz''" 2]
    strncpy_ignores_n [of "lit ''ab''" "lit ''xyz''" 1]
  by (simp add: lit_def cstr_def terminated_def)

end
