(* ===== verification/Track_Types.thy ===== *)
theory Track_Types
  imports C_String
begin

section \<open>The track as data (include/user/track_node.h, include/user/track_data.h)\<close>

text \<open>
  A track is an array of \<open>TRACK_MAX\<close> nodes. A pointer to a node is its index in the array,
  a pointer to an edge the index of its node and its direction; \<open>None\<close> is the null pointer
  that \<open>memset\<close> leaves in every field the tables do not set.
\<close>

datatype node_type =
    NODE_NONE
  | NODE_SENSOR
  | NODE_BRANCH
  | NODE_MERGE
  | NODE_ENTER
  | NODE_EXIT

abbreviation (input) DIR_AHEAD :: nat where "DIR_AHEAD \<equiv> 0"
abbreviation (input) DIR_STRAIGHT :: nat where "DIR_STRAIGHT \<equiv> 0"
abbreviation (input) DIR_CURVED :: nat where "DIR_CURVED \<equiv> 1"

definition TRACK_MAX :: nat where "TRACK_MAX = 144"
definition INF_DIST :: int where "INF_DIST = 100000000"
definition NUM_SENSOR_GROUPS :: nat where "NUM_SENSOR_GROUPS = 10"
definition SENSORS_PER_GROUP :: nat where "SENSORS_PER_GROUP = 8"

type_synonym node_ptr = "nat option"
type_synonym edge_ptr = "(nat \<times> nat) option"

record track_edge =
  e_reverse :: edge_ptr
  e_src :: node_ptr
  e_dest :: node_ptr
  e_dist :: int

record track_node =
  n_name :: "string option"
  n_type :: node_type
  n_num :: int
  n_reverse :: node_ptr
  n_edges :: "track_edge list"

definition no_edge :: track_edge where
  "no_edge = \<lparr> e_reverse = None, e_src = None, e_dest = None, e_dist = 0 \<rparr>"

text \<open>The node \<open>memset(track, 0, ...)\<close> leaves: both edges null, type 0.\<close>

definition no_node :: track_node where
  "no_node = \<lparr> n_name = None, n_type = NODE_NONE, n_num = 0, n_reverse = None,
     n_edges = [no_edge, no_edge] \<rparr>"

text \<open>One block of assignments of the tables: an edge with its four fields, a node.\<close>

definition tedge :: "nat \<times> nat \<Rightarrow> nat \<Rightarrow> nat \<Rightarrow> int \<Rightarrow> track_edge" where
  "tedge twin src dest dist =
     \<lparr> e_reverse = Some twin, e_src = Some src, e_dest = Some dest, e_dist = dist \<rparr>"

definition tnode :: "string \<Rightarrow> node_type \<Rightarrow> int \<Rightarrow> nat \<Rightarrow> track_edge \<Rightarrow> track_edge \<Rightarrow> track_node" where
  "tnode name type num opp e0 e1 =
     \<lparr> n_name = Some name, n_type = type, n_num = num, n_reverse = Some opp, n_edges = [e0, e1] \<rparr>"

definition edge :: "track_node \<Rightarrow> nat \<Rightarrow> track_edge cres" where
  "edge n dir = rd (n_edges n) dir"

subsection \<open>Reading a table\<close>

text \<open>
  Facts \<open>xs ! k = row\<close> for a list given by its rows, one for each row, so that a table is
  looked up by rewriting with one equation instead of walking it. \<open>nth_all_eq\<close>, with its
  second list spelt out, simplifies to their conjunction.
\<close>

fun nth_all :: "'a list \<Rightarrow> int \<Rightarrow> 'a list \<Rightarrow> bool" where
  "nth_all xs i [] = (length xs = nat i)"
| "nth_all xs i (y # ys) = (xs ! nat i = y \<and> nth_all xs (i + 1) ys)"

lemma nth_all_append: "int (length zs) = i \<Longrightarrow> nth_all (zs @ ys) i ys"
proof (induction ys arbitrary: zs i)
  case (Cons y ys)
  have "nth_all ((zs @ [y]) @ ys) (i + 1) ys" by (rule Cons.IH) (simp add: Cons.prems [symmetric])
  then show ?case using Cons.prems by (auto simp: nth_append)
qed auto

lemma nth_all_eq: "xs = ys \<Longrightarrow> nth_all xs 0 ys"
  using nth_all_append [of "[]" 0 ys] by simp

lemma list_all_upt_2: "2 \<le> n \<Longrightarrow> list_all P [0..<n] \<longleftrightarrow> P 0 \<and> P 1 \<and> list_all P [2..<n]"
  by (simp add: upt_conv_Cons numeral_2_eq_2 flip: list.pred_inject(2))

lemma tnode_sel [simp]:
  "n_name (tnode name type num opp e0 e1) = Some name"
  "n_type (tnode name type num opp e0 e1) = type"
  "n_num (tnode name type num opp e0 e1) = num"
  "n_reverse (tnode name type num opp e0 e1) = Some opp"
  "n_edges (tnode name type num opp e0 e1) = [e0, e1]"
  by (simp_all add: tnode_def)

lemma tedge_sel [simp]:
  "e_reverse (tedge twin src dest dist) = Some twin"
  "e_src (tedge twin src dest dist) = Some src"
  "e_dest (tedge twin src dest dist) = Some dest"
  "e_dist (tedge twin src dest dist) = dist"
  by (simp_all add: tedge_def)

lemma no_node_sel [simp]:
  "n_name no_node = None" "n_type no_node = NODE_NONE" "n_num no_node = 0"
  "n_reverse no_node = None" "n_edges no_node = [no_edge, no_edge]"
  by (simp_all add: no_node_def)

lemma no_edge_sel [simp]:
  "e_reverse no_edge = None" "e_src no_edge = None" "e_dest no_edge = None" "e_dist no_edge = 0"
  by (simp_all add: no_edge_def)

end
