(* ===== verification/Track_A.thy ===== *)
theory Track_A
  imports Track_Types
begin

section \<open>The table of track A (src/user/track_data.c, init_tracka)\<close>

text \<open>
  The assignments of \<open>init_tracka\<close> after its \<open>memset\<close>, in the order of the nodes. Each definition
  holds one stretch of the table; \<open>init_tracka\<close> puts them together. Nodes the function does not
  mention keep the zeroes of \<open>memset\<close>.
\<close>

definition tracka_0 :: "track_node list" where
  "tracka_0 = [
     tnode ''A1'' NODE_SENSOR 0 1 (tedge (102, DIR_STRAIGHT) 0 103 231) no_edge,
     tnode ''A2'' NODE_SENSOR 1 0 (tedge (132, DIR_AHEAD) 1 133 504) no_edge,
     tnode ''A3'' NODE_SENSOR 2 3 (tedge (107, DIR_AHEAD) 2 106 43) no_edge,
     tnode ''A4'' NODE_SENSOR 3 2 (tedge (30, DIR_AHEAD) 3 31 437) no_edge,
     tnode ''A5'' NODE_SENSOR 4 5 (tedge (84, DIR_STRAIGHT) 4 85 231) no_edge,
     tnode ''A6'' NODE_SENSOR 5 4 (tedge (24, DIR_AHEAD) 5 25 642) no_edge,
     tnode ''A7'' NODE_SENSOR 6 7 (tedge (26, DIR_AHEAD) 6 27 470) no_edge,
     tnode ''A8'' NODE_SENSOR 7 6 (tedge (82, DIR_CURVED) 7 83 229) no_edge,
     tnode ''A9'' NODE_SENSOR 8 9 (tedge (22, DIR_AHEAD) 8 23 289) no_edge,
     tnode ''A10'' NODE_SENSOR 9 8 (tedge (80, DIR_CURVED) 9 81 229) no_edge,
     tnode ''A11'' NODE_SENSOR 10 11 (tedge (80, DIR_STRAIGHT) 10 81 518) no_edge,
     tnode ''A12'' NODE_SENSOR 11 10 (tedge (138, DIR_AHEAD) 11 139 43) no_edge,
     tnode ''A13'' NODE_SENSOR 12 13 (tedge (86, DIR_CURVED) 12 87 236) no_edge,
     tnode ''A14'' NODE_SENSOR 13 12 (tedge (130, DIR_AHEAD) 13 131 325) no_edge,
     tnode ''A15'' NODE_SENSOR 14 15 (tedge (134, DIR_AHEAD) 14 135 144) no_edge,
     tnode ''A16'' NODE_SENSOR 15 14 (tedge (86, DIR_STRAIGHT) 15 87 417) no_edge,
     tnode ''B1'' NODE_SENSOR 16 17 (tedge (60, DIR_AHEAD) 16 61 404) no_edge,
     tnode ''B2'' NODE_SENSOR 17 16 (tedge (110, DIR_STRAIGHT) 17 111 231) no_edge]"

definition tracka_18 :: "track_node list" where
  "tracka_18 = [
     tnode ''B3'' NODE_SENSOR 18 19 (tedge (32, DIR_AHEAD) 18 33 201) no_edge,
     tnode ''B4'' NODE_SENSOR 19 18 (tedge (110, DIR_CURVED) 19 111 239) no_edge,
     tnode ''B5'' NODE_SENSOR 20 21 (tedge (51, DIR_AHEAD) 20 50 404) no_edge,
     tnode ''B6'' NODE_SENSOR 21 20 (tedge (104, DIR_STRAIGHT) 21 105 231) no_edge,
     tnode ''B7'' NODE_SENSOR 22 23 (tedge (8, DIR_AHEAD) 22 9 289) no_edge,
     tnode ''B8'' NODE_SENSOR 23 22 (tedge (136, DIR_AHEAD) 23 137 43) no_edge,
     tnode ''B9'' NODE_SENSOR 24 25 (tedge (5, DIR_AHEAD) 24 4 642) no_edge,
     tnode ''B10'' NODE_SENSOR 25 24 (tedge (140, DIR_AHEAD) 25 141 50) no_edge,
     tnode ''B11'' NODE_SENSOR 26 27 (tedge (6, DIR_AHEAD) 26 7 470) no_edge,
     tnode ''B12'' NODE_SENSOR 27 26 (tedge (142, DIR_AHEAD) 27 143 50) no_edge,
     tnode ''B13'' NODE_SENSOR 28 29 (tedge (118, DIR_CURVED) 28 119 239) no_edge,
     tnode ''B14'' NODE_SENSOR 29 28 (tedge (62, DIR_AHEAD) 29 63 201) no_edge,
     tnode ''B15'' NODE_SENSOR 30 31 (tedge (3, DIR_AHEAD) 30 2 437) no_edge,
     tnode ''B16'' NODE_SENSOR 31 30 (tedge (109, DIR_AHEAD) 31 108 50) no_edge,
     tnode ''C1'' NODE_SENSOR 32 33 (tedge (18, DIR_AHEAD) 32 19 201) no_edge,
     tnode ''C2'' NODE_SENSOR 33 32 (tedge (116, DIR_CURVED) 33 117 246) no_edge,
     tnode ''C3'' NODE_SENSOR 34 35 (tedge (128, DIR_AHEAD) 34 129 514) no_edge,
     tnode ''C4'' NODE_SENSOR 35 34 (tedge (88, DIR_STRAIGHT) 35 89 239) no_edge]"

definition tracka_36 :: "track_node list" where
  "tracka_36 = [
     tnode ''C5'' NODE_SENSOR 36 37 (tedge (91, DIR_AHEAD) 36 90 61) no_edge,
     tnode ''C6'' NODE_SENSOR 37 36 (tedge (108, DIR_STRAIGHT) 37 109 433) no_edge,
     tnode ''C7'' NODE_SENSOR 38 39 (tedge (114, DIR_STRAIGHT) 38 115 231) no_edge,
     tnode ''C8'' NODE_SENSOR 39 38 (tedge (85, DIR_AHEAD) 39 84 128) no_edge,
     tnode ''C9'' NODE_SENSOR 40 41 (tedge (108, DIR_CURVED) 40 109 326) no_edge,
     tnode ''C10'' NODE_SENSOR 41 40 (tedge (111, DIR_AHEAD) 41 110 128) no_edge,
     tnode ''C11'' NODE_SENSOR 42 43 (tedge (105, DIR_AHEAD) 42 104 120) no_edge,
     tnode ''C12'' NODE_SENSOR 43 42 (tedge (106, DIR_CURVED) 43 107 333) no_edge,
     tnode ''C13'' NODE_SENSOR 44 45 (tedge (71, DIR_AHEAD) 44 70 875) no_edge,
     tnode ''C14'' NODE_SENSOR 45 44 (tedge (101, DIR_AHEAD) 45 100 43) no_edge,
     tnode ''C15'' NODE_SENSOR 46 47 (tedge (58, DIR_AHEAD) 46 59 404) no_edge,
     tnode ''C16'' NODE_SENSOR 47 46 (tedge (90, DIR_STRAIGHT) 47 91 239) no_edge,
     tnode ''D1'' NODE_SENSOR 48 49 (tedge (120, DIR_CURVED) 48 121 246) no_edge,
     tnode ''D2'' NODE_SENSOR 49 48 (tedge (66, DIR_AHEAD) 49 67 201) no_edge,
     tnode ''D3'' NODE_SENSOR 50 51 (tedge (98, DIR_STRAIGHT) 50 99 239) no_edge,
     tnode ''D4'' NODE_SENSOR 51 50 (tedge (20, DIR_AHEAD) 51 21 404) no_edge,
     tnode ''D5'' NODE_SENSOR 52 53 (tedge (68, DIR_AHEAD) 52 69 376) no_edge,
     tnode ''D6'' NODE_SENSOR 53 52 (tedge (96, DIR_CURVED) 53 97 239) no_edge]"

definition tracka_54 :: "track_node list" where
  "tracka_54 = [
     tnode ''D7'' NODE_SENSOR 54 55 (tedge (96, DIR_STRAIGHT) 54 97 309) no_edge,
     tnode ''D8'' NODE_SENSOR 55 54 (tedge (70, DIR_AHEAD) 55 71 384) no_edge,
     tnode ''D9'' NODE_SENSOR 56 57 (tedge (74, DIR_AHEAD) 56 75 369) no_edge,
     tnode ''D10'' NODE_SENSOR 57 56 (tedge (94, DIR_STRAIGHT) 57 95 316) no_edge,
     tnode ''D11'' NODE_SENSOR 58 59 (tedge (46, DIR_AHEAD) 58 47 404) no_edge,
     tnode ''D12'' NODE_SENSOR 59 58 (tedge (92, DIR_STRAIGHT) 59 93 231) no_edge,
     tnode ''D13'' NODE_SENSOR 60 61 (tedge (16, DIR_AHEAD) 60 17 404) no_edge,
     tnode ''D14'' NODE_SENSOR 61 60 (tedge (112, DIR_STRAIGHT) 61 113 239) no_edge,
     tnode ''D15'' NODE_SENSOR 62 63 (tedge (29, DIR_AHEAD) 62 28 201) no_edge,
     tnode ''D16'' NODE_SENSOR 63 62 (tedge (112, DIR_CURVED) 63 113 246) no_edge,
     tnode ''E1'' NODE_SENSOR 64 65 (tedge (122, DIR_CURVED) 64 123 239) no_edge,
     tnode ''E2'' NODE_SENSOR 65 64 (tedge (79, DIR_AHEAD) 65 78 201) no_edge,
     tnode ''E3'' NODE_SENSOR 66 67 (tedge (49, DIR_AHEAD) 66 48 201) no_edge,
     tnode ''E4'' NODE_SENSOR 67 66 (tedge (98, DIR_CURVED) 67 99 239) no_edge,
     tnode ''E5'' NODE_SENSOR 68 69 (tedge (52, DIR_AHEAD) 68 53 376) no_edge,
     tnode ''E6'' NODE_SENSOR 69 68 (tedge (99, DIR_AHEAD) 69 98 50) no_edge,
     tnode ''E7'' NODE_SENSOR 70 71 (tedge (55, DIR_AHEAD) 70 54 384) no_edge,
     tnode ''E8'' NODE_SENSOR 71 70 (tedge (44, DIR_AHEAD) 71 45 875) no_edge]"

definition tracka_72 :: "track_node list" where
  "tracka_72 = [
     tnode ''E9'' NODE_SENSOR 72 73 (tedge (94, DIR_CURVED) 72 95 239) no_edge,
     tnode ''E10'' NODE_SENSOR 73 72 (tedge (77, DIR_AHEAD) 73 76 376) no_edge,
     tnode ''E11'' NODE_SENSOR 74 75 (tedge (56, DIR_AHEAD) 74 57 369) no_edge,
     tnode ''E12'' NODE_SENSOR 75 74 (tedge (93, DIR_AHEAD) 75 92 50) no_edge,
     tnode ''E13'' NODE_SENSOR 76 77 (tedge (113, DIR_AHEAD) 76 112 43) no_edge,
     tnode ''E14'' NODE_SENSOR 77 76 (tedge (73, DIR_AHEAD) 77 72 376) no_edge,
     tnode ''E15'' NODE_SENSOR 78 79 (tedge (104, DIR_CURVED) 78 105 246) no_edge,
     tnode ''E16'' NODE_SENSOR 79 78 (tedge (65, DIR_AHEAD) 79 64 201) no_edge,
     tnode ''BR1'' NODE_BRANCH 1 81 (tedge (10, DIR_AHEAD) 80 11 518) (tedge (9, DIR_AHEAD) 80 8 229),
     tnode ''MR1'' NODE_MERGE 1 80 (tedge (82, DIR_STRAIGHT) 81 83 188) no_edge,
     tnode ''BR2'' NODE_BRANCH 2 83 (tedge (81, DIR_AHEAD) 82 80 188) (tedge (7, DIR_AHEAD) 82 6 229),
     tnode ''MR2'' NODE_MERGE 2 82 (tedge (84, DIR_CURVED) 83 85 185) no_edge,
     tnode ''BR3'' NODE_BRANCH 3 85 (tedge (4, DIR_AHEAD) 84 5 231) (tedge (83, DIR_AHEAD) 84 82 185),
     tnode ''MR3'' NODE_MERGE 3 84 (tedge (39, DIR_AHEAD) 85 38 128) no_edge,
     tnode ''BR4'' NODE_BRANCH 4 87 (tedge (15, DIR_AHEAD) 86 14 417) (tedge (12, DIR_AHEAD) 86 13 236),
     tnode ''MR4'' NODE_MERGE 4 86 (tedge (102, DIR_CURVED) 87 103 185) no_edge]"

definition tracka_88 :: "track_node list" where
  "tracka_88 = [
     tnode ''BR5'' NODE_BRANCH 5 89 (tedge (35, DIR_AHEAD) 88 34 239) (tedge (92, DIR_CURVED) 88 93 371),
     tnode ''MR5'' NODE_MERGE 5 88 (tedge (115, DIR_AHEAD) 89 114 155) no_edge,
     tnode ''BR6'' NODE_BRANCH 6 91 (tedge (47, DIR_AHEAD) 90 46 239) (tedge (114, DIR_CURVED) 90 115 371),
     tnode ''MR6'' NODE_MERGE 6 90 (tedge (36, DIR_AHEAD) 91 37 61) no_edge,
     tnode ''BR7'' NODE_BRANCH 7 93 (tedge (59, DIR_AHEAD) 92 58 231) (tedge (88, DIR_CURVED) 92 89 371),
     tnode ''MR7'' NODE_MERGE 7 92 (tedge (75, DIR_AHEAD) 93 74 50) no_edge,
     tnode ''BR8'' NODE_BRANCH 8 95 (tedge (57, DIR_AHEAD) 94 56 316) (tedge (72, DIR_AHEAD) 94 73 239),
     tnode ''MR8'' NODE_MERGE 8 94 (tedge (97, DIR_AHEAD) 95 96 155) no_edge,
     tnode ''BR9'' NODE_BRANCH 9 97 (tedge (54, DIR_AHEAD) 96 55 309) (tedge (53, DIR_AHEAD) 96 52 239),
     tnode ''MR9'' NODE_MERGE 9 96 (tedge (95, DIR_AHEAD) 97 94 155) no_edge,
     tnode ''BR10'' NODE_BRANCH 10 99 (tedge (50, DIR_AHEAD) 98 51 239) (tedge (67, DIR_AHEAD) 98 66 239),
     tnode ''MR10'' NODE_MERGE 10 98 (tedge (69, DIR_AHEAD) 99 68 50) no_edge,
     tnode ''BR11'' NODE_BRANCH 11 101 (tedge (103, DIR_AHEAD) 100 102 188) (tedge (106, DIR_STRAIGHT) 100 107 495),
     tnode ''MR11'' NODE_MERGE 11 100 (tedge (45, DIR_AHEAD) 101 44 43) no_edge]"

definition tracka_102 :: "track_node list" where
  "tracka_102 = [
     tnode ''BR12'' NODE_BRANCH 12 103 (tedge (0, DIR_AHEAD) 102 1 231) (tedge (87, DIR_AHEAD) 102 86 185),
     tnode ''MR12'' NODE_MERGE 12 102 (tedge (100, DIR_STRAIGHT) 103 101 188) no_edge,
     tnode ''BR13'' NODE_BRANCH 13 105 (tedge (21, DIR_AHEAD) 104 20 231) (tedge (78, DIR_AHEAD) 104 79 246),
     tnode ''MR13'' NODE_MERGE 13 104 (tedge (42, DIR_AHEAD) 105 43 120) no_edge,
     tnode ''BR14'' NODE_BRANCH 14 107 (tedge (100, DIR_CURVED) 106 101 495) (tedge (43, DIR_AHEAD) 106 42 333),
     tnode ''MR14'' NODE_MERGE 14 106 (tedge (2, DIR_AHEAD) 107 3 43) no_edge,
     tnode ''BR15'' NODE_BRANCH 15 109 (tedge (37, DIR_AHEAD) 108 36 433) (tedge (40, DIR_AHEAD) 108 41 326),
     tnode ''MR15'' NODE_MERGE 15 108 (tedge (31, DIR_AHEAD) 109 30 50) no_edge,
     tnode ''BR16'' NODE_BRANCH 16 111 (tedge (17, DIR_AHEAD) 110 16 231) (tedge (19, DIR_AHEAD) 110 18 239),
     tnode ''MR16'' NODE_MERGE 16 110 (tedge (41, DIR_AHEAD) 111 40 128) no_edge,
     tnode ''BR17'' NODE_BRANCH 17 113 (tedge (61, DIR_AHEAD) 112 60 239) (tedge (63, DIR_AHEAD) 112 62 246),
     tnode ''MR17'' NODE_MERGE 17 112 (tedge (76, DIR_AHEAD) 113 77 43) no_edge,
     tnode ''BR18'' NODE_BRANCH 18 115 (tedge (38, DIR_AHEAD) 114 39 231) (tedge (90, DIR_CURVED) 114 91 371),
     tnode ''MR18'' NODE_MERGE 18 114 (tedge (89, DIR_AHEAD) 115 88 155) no_edge]"

definition tracka_116 :: "track_node list" where
  "tracka_116 = [
     tnode ''BR153'' NODE_BRANCH 153 117 (tedge (124, DIR_AHEAD) 116 125 253) (tedge (33, DIR_AHEAD) 116 32 246),
     tnode ''MR153'' NODE_MERGE 153 116 (tedge (118, DIR_STRAIGHT) 117 119 0) no_edge,
     tnode ''BR154'' NODE_BRANCH 154 119 (tedge (117, DIR_AHEAD) 118 116 0) (tedge (28, DIR_AHEAD) 118 29 239),
     tnode ''MR154'' NODE_MERGE 154 118 (tedge (123, DIR_AHEAD) 119 122 0) no_edge,
     tnode ''BR155'' NODE_BRANCH 155 121 (tedge (126, DIR_AHEAD) 120 127 282) (tedge (48, DIR_AHEAD) 120 49 246),
     tnode ''MR155'' NODE_MERGE 155 120 (tedge (122, DIR_STRAIGHT) 121 123 0) no_edge,
     tnode ''BR156'' NODE_BRANCH 156 123 (tedge (121, DIR_AHEAD) 122 120 0) (tedge (64, DIR_AHEAD) 122 65 239),
     tnode ''MR156'' NODE_MERGE 156 122 (tedge (119, DIR_AHEAD) 123 118 0) no_edge,
     tnode ''EN1'' NODE_ENTER 0 125 (tedge (116, DIR_STRAIGHT) 124 117 253) no_edge,
     tnode ''EX1'' NODE_EXIT 0 124 no_edge no_edge,
     tnode ''EN2'' NODE_ENTER 0 127 (tedge (120, DIR_STRAIGHT) 126 121 282) no_edge,
     tnode ''EX2'' NODE_EXIT 0 126 no_edge no_edge,
     tnode ''EN3'' NODE_ENTER 0 129 (tedge (34, DIR_AHEAD) 128 35 514) no_edge,
     tnode ''EX3'' NODE_EXIT 0 128 no_edge no_edge,
     tnode ''EN4'' NODE_ENTER 0 131 (tedge (13, DIR_AHEAD) 130 12 325) no_edge,
     tnode ''EX4'' NODE_EXIT 0 130 no_edge no_edge,
     tnode ''EN5'' NODE_ENTER 0 133 (tedge (1, DIR_AHEAD) 132 0 504) no_edge,
     tnode ''EX5'' NODE_EXIT 0 132 no_edge no_edge,
     tnode ''EN6'' NODE_ENTER 0 135 (tedge (14, DIR_AHEAD) 134 15 144) no_edge,
     tnode ''EX6'' NODE_EXIT 0 134 no_edge no_edge,
     tnode ''EN7'' NODE_ENTER 0 137 (tedge (23, DIR_AHEAD) 136 22 43) no_edge]"

definition tracka_137 :: "track_node list" where
  "tracka_137 = [
     tnode ''EX7'' NODE_EXIT 0 136 no_edge no_edge,
     tnode ''EN8'' NODE_ENTER 0 139 (tedge (11, DIR_AHEAD) 138 10 43) no_edge,
     tnode ''EX8'' NODE_EXIT 0 138 no_edge no_edge,
     tnode ''EN9'' NODE_ENTER 0 141 (tedge (25, DIR_AHEAD) 140 24 50) no_edge,
     tnode ''EX9'' NODE_EXIT 0 140 no_edge no_edge,
     tnode ''EN10'' NODE_ENTER 0 143 (tedge (27, DIR_AHEAD) 142 26 50) no_edge,
     tnode ''EX10'' NODE_EXIT 0 142 no_edge no_edge]"

definition init_tracka :: "track_node list" where
  "init_tracka =
     tracka_0 @
     tracka_18 @
     tracka_36 @
     tracka_54 @
     tracka_72 @
     tracka_88 @
     tracka_102 @
     tracka_116 @
     tracka_137"

lemmas init_tracka_rows =
  init_tracka_def
  tracka_0_def
  tracka_18_def
  tracka_36_def
  tracka_54_def
  tracka_72_def
  tracka_88_def
  tracka_102_def
  tracka_116_def
  tracka_137_def

lemmas init_tracka_all = nth_all_eq [OF init_tracka_rows(1), unfolded init_tracka_rows(2-) append.simps]

lemmas init_tracka_nth = init_tracka_all [simplified]

end
