(* ===== verification/Track_Data.thy ===== *)
theory Track_Data
  imports Track_A Track_B
begin

section \<open>Operations on the track (src/user/track_data.c, src/user/user.c)\<close>

text \<open>
  Looking nodes up by name, marking broken switches and sensors, and the table of buffer
  nodes: for each merge, the nodes ahead of it up to the next sensor, which a train reserves
  when it overshoots the merge before reversing. The last section replays what
  \<open>task_k4_init\<close> does at boot.
\<close>

text \<open>Reads and writes through node and edge pointers.\<close>

definition node_at :: "track_node list \<Rightarrow> node_ptr \<Rightarrow> track_node cres" where
  "node_at t p = cbind (deref p) (\<lambda>i. rd t i)"

definition upd_edge :: "track_node list \<Rightarrow> edge_ptr \<Rightarrow> (track_edge \<Rightarrow> track_edge) \<Rightarrow> track_node list cres" where
  "upd_edge t p f =
     cbind (deref p) (\<lambda>(i, d).
     cbind (rd t i) (\<lambda>n.
     cbind (edge n d) (\<lambda>e.
       wr t i (n\<lparr> n_edges := (n_edges n)[d := f e] \<rparr>))))"

text \<open>
  The name of a node is a pointer; comparing with a null one reads address 0, modelled as
  \<open>Null_Pointer\<close>.
\<close>

fun track_name_loop :: "track_node list \<Rightarrow> char list \<Rightarrow> nat \<Rightarrow> nat \<Rightarrow> int cres" where
  "track_name_loop t name i 0 = Inr (-1)"
| "track_name_loop t name i (Suc left) =
     cbind (rd t i) (\<lambda>n.
     cbind (strlen name) (\<lambda>l.
     cbind (deref (n_name n)) (\<lambda>s.
     cbind (strncmp name (lit s) l) (\<lambda>c.
       if c = 0 then Inr (int i) else track_name_loop t name (i + 1) left))))"

definition track_name_to_num :: "track_node list \<Rightarrow> char list \<Rightarrow> int cres" where
  "track_name_to_num t name = track_name_loop t name 0 TRACK_MAX"

definition mark_switch_broken :: "track_node list \<Rightarrow> int \<Rightarrow> nat \<Rightarrow> track_node list cres" where
  "mark_switch_broken t node stuck_direction =
     cbind (kassert (0 \<le> node) ''Node must be valid'') (\<lambda>_.
       let unreachable_direction =
             (if stuck_direction = DIR_STRAIGHT then DIR_CURVED else DIR_STRAIGHT)
       in upd_edge t (Some (nat node, unreachable_direction)) (\<lambda>e. e\<lparr> e_dist := INF_DIST \<rparr>))"

definition mark_sensor_broken :: "track_node list \<Rightarrow> int \<Rightarrow> track_node list cres" where
  "mark_sensor_broken t node =
     cbind (kassert (0 \<le> node) ''Node must be valid'') (\<lambda>_.
     let i = nat node in
     cbind (rd t i) (\<lambda>broken.
     cbind (kassert (n_type broken = NODE_SENSOR)
              ''Can only be marking a sensor node as broken'') (\<lambda>_.
     cbind (edge broken DIR_STRAIGHT) (\<lambda>ahead.
     cbind (node_at t (n_reverse broken)) (\<lambda>opp.
     cbind (edge opp DIR_STRAIGHT) (\<lambda>behind.
       let merged_dist = e_dist ahead + e_dist behind in
       \<comment> \<open>each store may change what the next one reads\<close>
       cbind (upd_edge t (e_reverse behind) (\<lambda>e. e\<lparr> e_dist := merged_dist \<rparr>)) (\<lambda>t1.
       cbind (rd t1 i) (\<lambda>broken1.
       cbind (edge broken1 DIR_STRAIGHT) (\<lambda>ahead1.
       cbind (node_at t1 (n_reverse broken1)) (\<lambda>opp1.
       cbind (edge opp1 DIR_STRAIGHT) (\<lambda>behind1.
       cbind (upd_edge t1 (e_reverse behind1) (\<lambda>e. e\<lparr> e_dest := e_dest ahead1 \<rparr>)) (\<lambda>t2.
       cbind (rd t2 i) (\<lambda>broken2.
       cbind (edge broken2 DIR_STRAIGHT) (\<lambda>ahead2.
       cbind (upd_edge t2 (e_reverse ahead2) (\<lambda>e. e\<lparr> e_dist := merged_dist \<rparr>)) (\<lambda>t3.
       cbind (rd t3 i) (\<lambda>broken3.
       cbind (edge broken3 DIR_STRAIGHT) (\<lambda>ahead3.
       cbind (node_at t3 (n_reverse broken3)) (\<lambda>opp3.
       cbind (edge opp3 DIR_STRAIGHT) (\<lambda>behind3.
         upd_edge t3 (e_reverse ahead3)
           (\<lambda>e. e\<lparr> e_dest := e_dest behind3 \<rparr>))))))))))))))))))))"

subsection \<open>Buffer nodes\<close>

definition switch_index :: "int \<Rightarrow> int" where
  "switch_index num = (if num < 153 then num - 1 else num - 153 + 18)"

text \<open>\<open>go_dir\<close>: \<open>None\<close> is the initial -1, kept for every type but merge and branch.\<close>

definition open_dir :: "track_node list \<Rightarrow> track_node \<Rightarrow> nat \<Rightarrow> bool cres" where
  "open_dir t cur dir =
     cbind (edge cur dir) (\<lambda>e.
       if e_dist e \<noteq> INF_DIST
       then cbind (node_at t (e_dest e)) (\<lambda>d. Inr (n_type d \<noteq> NODE_EXIT))
       else Inr False)"

definition buffer_dir :: "track_node list \<Rightarrow> track_node \<Rightarrow> nat option cres" where
  "buffer_dir t cur =
     (if n_type cur = NODE_MERGE then Inr (Some DIR_AHEAD)
      else if n_type cur = NODE_BRANCH then
        cbind (open_dir t cur DIR_STRAIGHT) (\<lambda>s.
          if s then Inr (Some DIR_STRAIGHT)
          else cbind (open_dir t cur DIR_CURVED) (\<lambda>c.
            if c then Inr (Some DIR_CURVED)
            else Inl (Assert_Failed ''Cannot generate buffer node'')))
      else Inr None)"

text \<open>
  The loop of \<open>generate_buffer_node\<close>, on the row of the switch; \<open>cur\<close> is the node reached,
  \<open>len\<close> the number of nodes written. A write past the six cells of the row is a fault, so
  the loop ends.
\<close>

function buffer_loop :: "track_node list \<Rightarrow> int list \<Rightarrow> nat \<Rightarrow> nat \<Rightarrow> (int list \<times> nat) cres" where
  "buffer_loop t row cur len =
     cbind (rd t cur) (\<lambda>n.
       if n_type n = NODE_SENSOR then Inr (row, len)
       else
         cbind (buffer_dir t n) (\<lambda>dir.
         case dir of None \<Rightarrow> Inl Out_Of_Bounds
         | Some d \<Rightarrow>
           cbind (edge n d) (\<lambda>e.
           cbind (deref (e_dest e)) (\<lambda>next.
             if len + 1 < length row
             then buffer_loop t (row[len + 1 := int next]) next (len + 1)
             else Inl Out_Of_Bounds))))"
  by pat_completeness auto
termination
  by (relation "measure (\<lambda>(t, row, cur, len). length row - len)") auto

declare buffer_loop.simps [simp del]

definition generate_buffer_node ::
  "track_node list \<Rightarrow> int list list \<Rightarrow> int \<Rightarrow> int list list cres" where
  "generate_buffer_node t buffer_nodes merge_node_num =
     cbind (rdi t merge_node_num) (\<lambda>m.
     let s = switch_index (n_num m) in
     cbind (rdi buffer_nodes s) (\<lambda>row.
     cbind (buffer_loop t row (nat merge_node_num) 0) (\<lambda>(row', len).
     cbind (wr row' 0 (int len)) (\<lambda>row''. wri buffer_nodes s row''))))"

definition merge_names :: "string list" where
  "merge_names =
     [''MR1'', ''MR2'', ''MR3'', ''MR4'', ''MR5'', ''MR6'', ''MR7'', ''MR8'', ''MR9'',
      ''MR10'', ''MR11'', ''MR12'', ''MR13'', ''MR14'', ''MR15'', ''MR16'', ''MR17'',
      ''MR18'', ''MR153'', ''MR154'', ''MR155'', ''MR156'']"

definition generate_buffer_nodes ::
  "track_node list \<Rightarrow> int list list \<Rightarrow> int list list cres" where
  "generate_buffer_nodes t buffer_nodes =
     cfold (\<lambda>bn name. cbind (track_name_to_num t (lit name)) (\<lambda>i. generate_buffer_node t bn i))
       buffer_nodes merge_names"

text \<open>The global \<open>buffer_nodes[22][6]\<close>, zero before boot.\<close>

definition buffer_nodes_init :: "int list list" where
  "buffer_nodes_init = replicate 22 (replicate 6 0)"

subsection \<open>The track part of task_k4_init\<close>

definition mark_all :: "track_node list \<Rightarrow> (string \<times> nat) list \<Rightarrow> track_node list cres" where
  "mark_all t broken =
     cfold (\<lambda>t (name, dir). cbind (track_name_to_num t (lit name)) (\<lambda>i. mark_switch_broken t i dir))
       t broken"

definition broken_a :: "(string \<times> nat) list" where
  "broken_a =
     [(''BR7'', DIR_CURVED), (''BR156'', DIR_CURVED), (''BR155'', DIR_STRAIGHT),
      (''BR16'', DIR_STRAIGHT), (''BR3'', DIR_CURVED), (''BR15'', DIR_STRAIGHT)]"

definition broken_b :: "(string \<times> nat) list" where
  "broken_b =
     [(''BR156'', DIR_STRAIGHT), (''BR155'', DIR_CURVED), (''BR5'', DIR_CURVED),
      (''BR4'', DIR_STRAIGHT)]"

text \<open>
  \<open>which_track\<close> is set by \<open>kmain\<close> to 'a', 'b' or '?'; for any other character the loop of
  \<open>task_k4_init\<close> prints a message for ever, modelled as no result.
\<close>

definition boot_track :: "char \<Rightarrow> (track_node list \<times> int list list) cres option" where
  "boot_track which_track =
     (let finish = (\<lambda>r. cbind r (\<lambda>t.
            cbind (generate_buffer_nodes t buffer_nodes_init) (\<lambda>bn. Inr (t, bn))))
      in if which_track = CHR ''a'' \<or> which_track = CHR ''?''
         then Some (finish (mark_all init_tracka broken_a))
         else if which_track = CHR ''b'' then Some (finish (mark_all init_trackb broken_b))
         else None)"

subsection \<open>Well-formed tracks\<close>

text \<open>
  What every search over the track relies on: following an edge and then the edge that is its
  \<open>reverse\<close> leads back, over the same distance, with both nodes turned round.
\<close>

definition node_dirs :: "node_type \<Rightarrow> nat list" where
  "node_dirs ty = (case ty of NODE_BRANCH \<Rightarrow> [DIR_STRAIGHT, DIR_CURVED]
     | NODE_EXIT \<Rightarrow> [] | NODE_NONE \<Rightarrow> [] | _ \<Rightarrow> [DIR_AHEAD])"

definition edge_pair_ok :: "track_node list \<Rightarrow> nat \<Rightarrow> nat \<Rightarrow> bool" where
  "edge_pair_ok t i d =
     (let n = t ! i; e = n_edges n ! d in
      case (e_dest e, e_reverse e) of
        (Some j, Some (k, d')) \<Rightarrow>
          j < length t \<and> k < length t \<and> e_src e = Some i \<and> 0 \<le> e_dist e \<and>
          n_reverse (t ! j) = Some k \<and> d' \<in> set (node_dirs (n_type (t ! k))) \<and>
          (let r = n_edges (t ! k) ! d' in
           e_reverse r = Some (i, d) \<and> e_dest r = n_reverse n \<and> e_dist r = e_dist e)
      | _ \<Rightarrow> False)"

definition node_ok :: "track_node list \<Rightarrow> nat \<Rightarrow> bool" where
  "node_ok t i =
     (let n = t ! i in
      length (n_edges n) = 2 \<and>
      (n_type n = NODE_SENSOR \<longrightarrow> n_num n = int i) \<and>
      (case n_reverse n of
         None \<Rightarrow> n_type n = NODE_NONE
       | Some r \<Rightarrow> r < length t \<and> r \<noteq> i \<and> n_type n \<noteq> NODE_NONE \<and> n_reverse (t ! r) = Some i) \<and>
      list_all (edge_pair_ok t i) (node_dirs (n_type n)))"

definition track_ok :: "track_node list \<Rightarrow> bool" where
  "track_ok t = (length t = TRACK_MAX \<and> list_all (node_ok t) [0..<TRACK_MAX])"

text \<open>C5: Both tables are well formed: \<open>reverse\<close> is an involution without fixed points, every
  edge has its twin, of the same length, between the reversed nodes, and the number of a
  sensor is its index.
\<close>

theorem tracks_well_formed: "track_ok init_tracka \<and> track_ok init_trackb"
  by (simp add: track_ok_def TRACK_MAX_def list_all_upt_2 node_ok_def edge_pair_ok_def
      node_dirs_def init_tracka_nth init_trackb_nth Let_def)

subsection \<open>Names\<close>

text \<open>The first \<open>m\<close> nodes have distinct names; the others have none.\<close>

definition name_ok :: "string option \<Rightarrow> bool" where
  "name_ok p = (case p of None \<Rightarrow> False | Some s \<Rightarrow> s \<noteq> [] \<and> NUL \<notin> set s)"

definition names_ok :: "track_node list \<Rightarrow> nat \<Rightarrow> bool" where
  "names_ok t m =
     (let ns = map n_name t in
      length ns = TRACK_MAX \<and> 0 < m \<and> m \<le> TRACK_MAX \<and> distinct (take m ns) \<and>
      list_all name_ok (take m ns) \<and> list_all (\<lambda>p. p = None) (drop m ns))"

lemma names_tracka: "names_ok init_tracka 144"
proof -
  have "distinct (map n_name init_tracka)" by (simp add: init_tracka_rows)
  moreover have "list_all name_ok (map n_name init_tracka)"
    by (simp add: name_ok_def init_tracka_rows)
  ultimately show ?thesis by (simp add: names_ok_def TRACK_MAX_def init_tracka_nth)
qed

lemma names_trackb: "names_ok init_trackb 140"
proof -
  have take: "take 140 init_trackb = trackb_0 @ trackb_18 @ trackb_36 @ trackb_54 @ trackb_72 @
      trackb_88 @ trackb_102 @ trackb_116 @ take 3 trackb_137"
    by (simp add: init_trackb_rows)
  have "distinct (map n_name (take 140 init_trackb))" by (simp add: take init_trackb_rows(2-))
  moreover have "list_all name_ok (map n_name (take 140 init_trackb))"
    by (simp add: name_ok_def take init_trackb_rows(2-))
  moreover have "list_all (\<lambda>p. p = None) (map n_name (drop 140 init_trackb))"
    by (simp add: init_trackb_rows)
  ultimately show ?thesis
    by (simp add: names_ok_def TRACK_MAX_def init_trackb_nth take_map drop_map)
qed

lemma names_okD:
  assumes "names_ok t m"
  shows "length t = TRACK_MAX" "0 < m" "m \<le> TRACK_MAX"
    "i < m \<Longrightarrow> \<exists>s. n_name (t ! i) = Some s \<and> s \<noteq> [] \<and> NUL \<notin> set s"
    "m \<le> i \<Longrightarrow> i < TRACK_MAX \<Longrightarrow> n_name (t ! i) = None"
    "i < m \<Longrightarrow> j < m \<Longrightarrow> n_name (t ! i) = n_name (t ! j) \<Longrightarrow> i = j"
proof -
  have len: "length t = TRACK_MAX" "m \<le> length t" using assms by (auto simp: names_ok_def Let_def)
  then show "length t = TRACK_MAX" "0 < m" "m \<le> TRACK_MAX"
    using assms by (auto simp: names_ok_def Let_def)
  show "\<exists>s. n_name (t ! i) = Some s \<and> s \<noteq> [] \<and> NUL \<notin> set s" if "i < m"
    using assms that len
    by (auto simp: names_ok_def Let_def list_all_length name_ok_def split: option.splits)
  show "n_name (t ! i) = None" if "m \<le> i" "i < TRACK_MAX"
    using assms that len le_Suc_ex [of m i] by (auto simp: names_ok_def Let_def list_all_length)
  show "i = j" if "i < m" "j < m" "n_name (t ! i) = n_name (t ! j)"
    using assms that len nth_eq_iff_index_eq [of "take m (map n_name t)" i j]
    by (auto simp: names_ok_def Let_def)
qed

text \<open>Nodes that do not match are passed over; the scan stops at a match.\<close>

lemma track_name_loop_skip:
  "names_ok t m \<Longrightarrow> terminated name \<Longrightarrow> cstr name \<noteq> [] \<Longrightarrow> i + k \<le> m \<Longrightarrow>
     \<forall>j < i + k. n_name (t ! j) \<noteq> Some (cstr name) \<Longrightarrow>
     track_name_loop t name i (k + left) = track_name_loop t name (i + k) left"
proof (induction k arbitrary: i)
  case (Suc k)
  obtain s where s: "n_name (t ! i) = Some s" "NUL \<notin> set s"
    using names_okD(4) [OF Suc.prems(1), of i] Suc.prems(4) by auto
  obtain c where c: "strncmp name (lit s) (length (cstr name)) = Inr c"
    using strncmp_lex [OF Suc.prems(2), of "lit s"] by auto
  have "c \<noteq> 0"
    using strncmp_eq_iff [OF Suc.prems(2), of "lit s" "length (cstr name)"] Suc.prems(3,5) s c
    by auto
  then have "track_name_loop t name i (Suc k + left) = track_name_loop t name (i + 1) (k + left)"
    using Suc.prems names_okD(1,3) [OF Suc.prems(1)] s c by (simp add: strlen_ok)
  also have "\<dots> = track_name_loop t name (i + 1 + k) left"
    using Suc.prems by (intro Suc.IH) auto
  finally show ?case by simp
qed simp

lemma track_name_to_num_ok:
  assumes "names_ok t m" "terminated name" "n_name (t ! i) = Some (cstr name)" "i < m"
  shows "track_name_to_num t name = Inr (int i)"
proof -
  have ne: "cstr name \<noteq> []" using names_okD(4) [OF assms(1,4)] assms(3) by auto
  have other: "n_name (t ! j) \<noteq> Some (cstr name)" if "j < 0 + i" for j
    using names_okD(6) [OF assms(1), of j i] assms(3,4) that by auto

  obtain k where k: "TRACK_MAX = i + Suc k"
    using names_okD(3) [OF assms(1)] assms(4) less_imp_Suc_add [of i TRACK_MAX] by auto
  have len: "i < length t" using names_okD(1) [OF assms(1)] k by simp
  have eq: "strncmp name (lit (cstr name)) (length (cstr name)) = Inr 0"
    using strncmp_eq_iff [OF assms(2), of "lit (cstr name)"] ne by simp
  have "track_name_loop t name 0 (i + Suc k) = track_name_loop t name (0 + i) (Suc k)"
    by (rule track_name_loop_skip [OF assms(1,2) ne]) (use assms(4) other in auto)
  then have "track_name_to_num t name = track_name_loop t name i (Suc k)"
    by (simp only: track_name_to_num_def k add_0)

  also have "\<dots> = Inr (int i)"
    using len assms(2,3) eq by (simp add: strlen_ok)
  finally show ?thesis .
qed

lemma track_name_to_num_unknown:
  assumes "names_ok t m" "terminated name" "cstr name \<noteq> []"
    and "\<forall>j < m. n_name (t ! j) \<noteq> Some (cstr name)"
  shows "track_name_to_num t name = (if m < TRACK_MAX then Inl Null_Pointer else Inr (-1))"
proof -
  have len: "m \<le> TRACK_MAX" "length t = TRACK_MAX" using names_okD(1,3) [OF assms(1)] by auto
  then have "track_name_to_num t name = track_name_loop t name m (TRACK_MAX - m)"
    using track_name_loop_skip [OF assms(1-3), of 0 m "TRACK_MAX - m"] assms(4)
    by (simp add: track_name_to_num_def)
  also have "\<dots> = (if m < TRACK_MAX then Inl Null_Pointer else Inr (-1))"
    using len names_okD(5) [OF assms(1), of m] assms(2)
    by (cases "TRACK_MAX - m") (auto simp: strlen_ok)
  finally show ?thesis .
qed

lemma track_name_to_num_empty:
  assumes "names_ok t m" "terminated name" "cstr name = []"
  shows "track_name_to_num t name = Inr 0"
proof -
  obtain k where k: "TRACK_MAX = Suc k" by (simp add: TRACK_MAX_def)
  have len: "0 < length t" using names_okD(1) [OF assms(1)] k by simp
  obtain s where s: "n_name (t ! 0) = Some s" using names_okD(2,4) [OF assms(1)] by blast
  have eq: "strncmp name (lit s) 0 = Inr 0"
    using strncmp_lex [OF assms(2), of "lit s" 0] assms(3) by (simp add: Let_def)
  show ?thesis
    unfolding track_name_to_num_def k using len s eq assms(2,3) by (simp add: strlen_ok)
qed

text \<open>
  C6: Looking a name up on a track whose nodes have distinct names: the name of a node gives
  that node, so names and numbers are inverse; a name no node has gives -1 when all 144 nodes are
  named, and reads through a null pointer otherwise (track B names 140 nodes); the empty
  name, for which the comparison runs with length 0, gives node 0.
\<close>

theorem track_name_lookup:
  assumes "names_ok t m" and "terminated name"
  shows "(\<forall>i < m. n_name (t ! i) = Some (cstr name) \<longrightarrow> track_name_to_num t name = Inr (int i)) \<and>
    (cstr name \<noteq> [] \<and> (\<forall>i < m. n_name (t ! i) \<noteq> Some (cstr name)) \<longrightarrow>
       track_name_to_num t name = (if m < TRACK_MAX then Inl Null_Pointer else Inr (-1))) \<and>
    (cstr name = [] \<longrightarrow> track_name_to_num t name = Inr 0)"
  using track_name_to_num_ok [OF assms] track_name_to_num_unknown [OF assms]
    track_name_to_num_empty [OF assms] by blast

lemma table_names:
  "n_name (init_tracka ! 117) = Some ''MR153''" "n_name (init_trackb ! 52) = Some ''D5''"
  by (simp_all add: init_tracka_nth init_trackb_nth)

theorem track_name_lookup_witness:
  "track_name_to_num init_tracka (lit ''MR153'') = Inr 117 \<and>
   track_name_to_num init_trackb (lit ''D5'') = Inr 52 \<and>
   track_name_to_num init_trackb (lit []) = Inr 0"
  using table_names
    conjunct1 [OF track_name_lookup [OF names_tracka terminated_lit], of "''MR153''",
      THEN spec, of 117]
    conjunct1 [OF track_name_lookup [OF names_trackb terminated_lit], of "''D5''",
      THEN spec, of 52]
    conjunct2 [OF conjunct2 [OF track_name_lookup [OF names_trackb terminated_lit]], of "[]"]
  by simp

subsection \<open>Marking and boot\<close>

definition set_dist :: "track_node list \<Rightarrow> nat \<Rightarrow> nat \<Rightarrow> int \<Rightarrow> track_node list" where
  "set_dist t i d x =
     t[i := (t ! i)\<lparr> n_edges := (n_edges (t ! i))[d := (n_edges (t ! i) ! d)\<lparr> e_dist := x \<rparr>] \<rparr>]"

lemma length_set_dist [simp]: "length (set_dist t i d x) = length t"
  by (simp add: set_dist_def)

lemma names_set_dist [simp]: "map n_name (set_dist t i d x) = map n_name t"
  by (cases "i < length t")
     (simp_all add: set_dist_def map_update list_update_same_conv list_update_beyond)

lemma names_ok_map: "map n_name t = map n_name t' \<Longrightarrow> names_ok t m = names_ok t' m"
  by (simp only: names_ok_def)

lemma names_ok_set_dist [simp]: "names_ok (set_dist t i d x) m = names_ok t m"
  by (rule names_ok_map) simp

lemma mark_switch_broken_ok:
  "i < length t \<Longrightarrow> length (n_edges (t ! i)) = 2 \<Longrightarrow>
     mark_switch_broken t (int i) d = Inr (set_dist t i (if d = DIR_STRAIGHT then DIR_CURVED else DIR_STRAIGHT) INF_DIST)"
  by (simp add: mark_switch_broken_def upd_edge_def edge_def set_dist_def Let_def)

lemma name_num:
  "names_ok t m \<Longrightarrow> NUL \<notin> set s \<Longrightarrow> n_name (t ! nat i) = Some s \<Longrightarrow> 0 \<le> i \<Longrightarrow> nat i < m \<Longrightarrow>
     track_name_to_num t (lit s) = Inr i"
  using track_name_to_num_ok [of t m "lit s" "nat i"] by simp

text \<open>The tracks after the broken switches are marked.\<close>

definition tracka_boot :: "track_node list" where
  "tracka_boot =
     set_dist (set_dist (set_dist (set_dist (set_dist (set_dist init_tracka
       92 DIR_STRAIGHT INF_DIST) 122 DIR_STRAIGHT INF_DIST) 120 DIR_CURVED INF_DIST)
       110 DIR_CURVED INF_DIST) 84 DIR_STRAIGHT INF_DIST) 108 DIR_CURVED INF_DIST"

definition trackb_boot :: "track_node list" where
  "trackb_boot =
     set_dist (set_dist (set_dist (set_dist init_trackb
       122 DIR_CURVED INF_DIST) 120 DIR_STRAIGHT INF_DIST) 88 DIR_STRAIGHT INF_DIST)
       86 DIR_CURVED INF_DIST"

lemma nth_set_dist:
  "i < length t \<Longrightarrow> set_dist t i d x ! j =
     (if j = i then (t ! i)\<lparr> n_edges := (n_edges (t ! i))[d := (n_edges (t ! i) ! d)\<lparr> e_dist := x \<rparr>] \<rparr>
      else t ! j)"
  by (simp add: set_dist_def nth_list_update)

lemmas mark_evals =
  mark_all_def mark_switch_broken_ok [where i = 84, simplified]
  mark_switch_broken_ok [where i = 86, simplified] mark_switch_broken_ok [where i = 88, simplified]
  mark_switch_broken_ok [where i = 92, simplified] mark_switch_broken_ok [where i = 108, simplified]
  mark_switch_broken_ok [where i = 110, simplified] mark_switch_broken_ok [where i = 120, simplified]
  mark_switch_broken_ok [where i = 122, simplified]

lemma mark_tracka: "mark_all init_tracka broken_a = Inr tracka_boot"
  by (simp add: mark_evals broken_a_def tracka_boot_def names_tracka init_tracka_nth nth_set_dist
      name_num [where m = 144 and i = 92] name_num [where m = 144 and i = 122]
      name_num [where m = 144 and i = 120] name_num [where m = 144 and i = 110]
      name_num [where m = 144 and i = 84] name_num [where m = 144 and i = 108])

lemma mark_trackb: "mark_all init_trackb broken_b = Inr trackb_boot"
  by (simp add: mark_evals broken_b_def trackb_boot_def names_trackb init_trackb_nth nth_set_dist
      name_num [where m = 140 and i = 122] name_num [where m = 140 and i = 120]
      name_num [where m = 140 and i = 88] name_num [where m = 140 and i = 86])

lemma names_boot: "names_ok tracka_boot 144" "names_ok trackb_boot 140"
  by (simp_all add: tracka_boot_def trackb_boot_def names_tracka names_trackb)

definition merge_nums :: "nat list" where
  "merge_nums = [81, 83, 85, 87, 89, 91, 93, 95, 97, 99, 101, 103, 105, 107, 109, 111, 113, 115,
     117, 119, 121, 123]"

lemma generate_buffer_nodes_nums:
  assumes "names_ok t m"
    and "list_all2 (\<lambda>s i. i < m \<and> NUL \<notin> set s \<and> n_name (t ! i) = Some s) merge_names merge_nums"
  shows "generate_buffer_nodes t bn = cfold (\<lambda>bn i. generate_buffer_node t bn (int i)) bn merge_nums"
  unfolding generate_buffer_nodes_def using assms(2)
proof (induction arbitrary: bn rule: list_all2_induct)
  case (Cons s ss i nums)

  have "track_name_to_num t (lit s) = Inr (int i)"
    using name_num [OF assms(1), of s "int i"] Cons by simp
  then show ?case using Cons by (auto intro!: cbind_cong)
qed simp

lemma merge_names_boot:
  "list_all2 (\<lambda>s i. i < 144 \<and> NUL \<notin> set s \<and> n_name (tracka_boot ! i) = Some s) merge_names merge_nums"
  "list_all2 (\<lambda>s i. i < 140 \<and> NUL \<notin> set s \<and> n_name (trackb_boot ! i) = Some s) merge_names merge_nums"
  by (simp_all add: merge_names_def merge_nums_def tracka_boot_def trackb_boot_def init_tracka_nth
      init_trackb_nth nth_set_dist)

text \<open>
  What a row of the table promises for the merge \<open>start\<close>: its length, then the nodes
  reached one after the other along edges of the track, never over an edge marked broken, the last
  of them the only sensor.
\<close>

definition on_track :: "track_node list \<Rightarrow> nat \<Rightarrow> nat \<Rightarrow> bool" where
  "on_track t i j = list_ex (\<lambda>d. e_dest (n_edges (t ! i) ! d) = Some j \<and>
     e_dist (n_edges (t ! i) ! d) \<noteq> INF_DIST) (node_dirs (n_type (t ! i)))"

definition buffer_row_ok :: "track_node list \<Rightarrow> nat \<Rightarrow> int list \<Rightarrow> bool" where
  "buffer_row_ok t start row =
     (let n = nat (row ! 0); path = start # map nat (take n (tl row)) in
      length row = 6 \<and> row ! 0 = int n \<and> 1 \<le> n \<and> n \<le> 5 \<and> successively (on_track t) path \<and>
      list_all (\<lambda>i. n_type (t ! i) \<noteq> NODE_SENSOR) (butlast path) \<and>
      n_type (t ! last path) = NODE_SENSOR)"

definition rows_a :: "int list list" where
  "rows_a =
     [[3, 83, 85, 38, 0, 0], [2, 85, 38, 0, 0, 0], [1, 38, 0, 0, 0, 0], [3, 103, 101, 44, 0, 0],
      [2, 114, 39, 0, 0, 0], [1, 37, 0, 0, 0, 0], [1, 74, 0, 0, 0, 0], [2, 96, 55, 0, 0, 0],
      [2, 94, 56, 0, 0, 0], [1, 68, 0, 0, 0, 0], [1, 44, 0, 0, 0, 0], [2, 101, 44, 0, 0, 0],
      [1, 43, 0, 0, 0, 0], [1, 3, 0, 0, 0, 0], [1, 30, 0, 0, 0, 0], [1, 40, 0, 0, 0, 0],
      [1, 77, 0, 0, 0, 0], [2, 88, 34, 0, 0, 0], [3, 119, 122, 65, 0, 0], [2, 122, 65, 0, 0, 0],
      [4, 123, 118, 116, 32, 0], [3, 118, 116, 32, 0, 0]]"

definition rows_b :: "int list list" where
  "rows_b =
     [[3, 83, 85, 38, 0, 0], [2, 85, 38, 0, 0, 0], [1, 38, 0, 0, 0, 0], [3, 103, 101, 44, 0, 0],
      [2, 114, 39, 0, 0, 0], [1, 37, 0, 0, 0, 0], [1, 74, 0, 0, 0, 0], [2, 96, 55, 0, 0, 0],
      [2, 94, 56, 0, 0, 0], [1, 68, 0, 0, 0, 0], [1, 44, 0, 0, 0, 0], [2, 101, 44, 0, 0, 0],
      [1, 43, 0, 0, 0, 0], [1, 3, 0, 0, 0, 0], [1, 30, 0, 0, 0, 0], [1, 40, 0, 0, 0, 0],
      [1, 77, 0, 0, 0, 0], [3, 88, 93, 74, 0, 0], [4, 119, 122, 120, 49, 0],
      [3, 122, 120, 49, 0, 0], [4, 123, 118, 116, 32, 0], [3, 118, 116, 32, 0, 0]]"

lemmas buffer_evals =
  generate_buffer_node_def switch_index_def buffer_loop.simps buffer_dir_def open_dir_def
  edge_def node_at_def rdi_def wri_def nth_set_dist INF_DIST_def merge_nums_def

lemma buffer_nodes_zero: "buffer_nodes_init = replicate 22 [0, 0, 0, 0, 0, 0]"
  by (simp add: buffer_nodes_init_def numeral_eq_Suc)

lemma buffer_nodes_a: "generate_buffer_nodes tracka_boot buffer_nodes_init = Inr rows_a"
  unfolding generate_buffer_nodes_nums [OF names_boot(1) merge_names_boot(1)]
    buffer_nodes_zero
  by (simp add: buffer_evals init_tracka_nth tracka_boot_def cong: cbind_weak_cong)
     (simp add: rows_a_def numeral_eq_Suc)

lemma buffer_nodes_b: "generate_buffer_nodes trackb_boot buffer_nodes_init = Inr rows_b"
  unfolding generate_buffer_nodes_nums [OF names_boot(2) merge_names_boot(2)]
    buffer_nodes_zero
  by (simp add: buffer_evals init_trackb_nth trackb_boot_def cong: cbind_weak_cong)
     (simp add: rows_b_def numeral_eq_Suc)

text \<open>
  C7: Booting on either track (an unknown one counts as A) finds every switch and merge
  it names, meets no fault, and leaves for each of the 22 merges, in the order of their
  switches, a row that describes a path of open edges from the merge to the first sensor
  after it, within the six cells of the row.
\<close>

theorem boot_track_ok:
  assumes "w \<in> {CHR ''a'', CHR ''b'', CHR ''?''}"
  shows "\<exists>t rows. boot_track w = Some (Inr (t, rows)) \<and> length t = TRACK_MAX \<and>
    list_all2 (buffer_row_ok t) merge_nums rows"
proof -
  have "list_all2 (buffer_row_ok tracka_boot) merge_nums rows_a"
    by (simp add: merge_nums_def rows_a_def buffer_row_ok_def on_track_def node_dirs_def
        tracka_boot_def init_tracka_nth nth_set_dist Let_def INF_DIST_def)
  moreover have "list_all2 (buffer_row_ok trackb_boot) merge_nums rows_b"
    by (simp add: merge_nums_def rows_b_def buffer_row_ok_def on_track_def node_dirs_def
        trackb_boot_def init_trackb_nth nth_set_dist Let_def INF_DIST_def)
  ultimately show ?thesis
    using assms mark_tracka mark_trackb buffer_nodes_a buffer_nodes_b names_okD(1) [OF names_boot(1)]
      names_okD(1) [OF names_boot(2)]
    by (auto simp: boot_track_def)
qed

theorem boot_track_ok_witness:
  "\<exists>t rows. boot_track (CHR ''b'') = Some (Inr (t, rows)) \<and> length t = TRACK_MAX \<and>
     list_all2 (buffer_row_ok t) merge_nums rows"
  by (rule boot_track_ok) simp

end
