(* ===== verification/Algorithms.thy ===== *)
theory Algorithms
  imports Track_Data
begin

section \<open>Shortest paths (src/user/algorithms.c)\<close>

text \<open>
  Dijkstra's algorithm over the track, with the extra edge of length 300 from every node to
  its reverse. Nodes are indices; \<open>min_distance\<close> answers \<open>&track[-1]\<close> when every node is settled
  or avoided, kept as the index -1. The arrays \<open>dist\<close>, \<open>in_shortest_path\<close> and \<open>prev\<close> are lists of
  \<open>TRACK_MAX\<close> cells.
\<close>

text \<open>A pointer compared with the address of a node given by its \<open>int\<close> index.\<close>

definition points_to :: "node_ptr \<Rightarrow> int \<Rightarrow> bool" where
  "points_to p q = (case p of None \<Rightarrow> False | Some j \<Rightarrow> int j = q)"

fun path_dist_loop :: "track_node list \<Rightarrow> int list \<Rightarrow> nat \<Rightarrow> nat \<Rightarrow> int \<Rightarrow> int cres" where
  "path_dist_loop t path i 0 dist = Inr dist"
| "path_dist_loop t path i (Suc left) dist =
     cbind (rd path i) (\<lambda>p.
     cbind (rdi t p) (\<lambda>n.
     cbind (rd path (i + 1)) (\<lambda>q.
       if n_type n = NODE_BRANCH then
         cbind (edge n DIR_CURVED) (\<lambda>curved.
         if points_to (e_dest curved) q
         then path_dist_loop t path (i + 1) left (dist + e_dist curved)
         else
           cbind (edge n DIR_STRAIGHT) (\<lambda>straight.
           if points_to (e_dest straight) q
           then path_dist_loop t path (i + 1) left (dist + e_dist straight)
           else Inr (-1)))
       else
         cbind (edge n DIR_AHEAD) (\<lambda>ahead.
         if points_to (e_dest ahead) q
         then path_dist_loop t path (i + 1) left (dist + e_dist ahead)
         else Inr (-1)))))"

definition get_path_dist :: "track_node list \<Rightarrow> int list \<Rightarrow> int \<Rightarrow> int cres" where
  "get_path_dist t path path_len = path_dist_loop t path 0 (nat (path_len - 1)) 0"

definition is_switch_node :: "track_node \<Rightarrow> bool" where
  "is_switch_node n = (n_type n = NODE_BRANCH \<or> n_type n = NODE_MERGE)"

definition update_dist ::
  "bool list \<Rightarrow> nat \<Rightarrow> node_ptr \<Rightarrow> int \<Rightarrow> int list \<times> node_ptr list \<Rightarrow>
     (int list \<times> node_ptr list) cres" where
  "update_dist in_shortest_path u vp uv_dist = (\<lambda>(dist, prev).
     cbind (deref vp) (\<lambda>v.
     cbind (rd in_shortest_path v) (\<lambda>settled.
     if settled then Inr (dist, prev)
     else
       cbind (rd dist u) (\<lambda>du.
       cbind (rd dist v) (\<lambda>dv.
       let alt = du + uv_dist in
       if alt < dv \<and> du \<noteq> INF_DIST
       then cbind (wr dist v alt) (\<lambda>dist'.
            cbind (wr prev v (Some u)) (\<lambda>prev'. Inr (dist', prev')))
       else Inr (dist, prev))))))"

fun min_loop :: "int list \<Rightarrow> bool list \<Rightarrow> bool list \<Rightarrow> nat \<Rightarrow> nat \<Rightarrow> int \<Rightarrow> int cres" where
  "min_loop dist in_shortest_path avoid i 0 min_index = Inr min_index"
| "min_loop dist in_shortest_path avoid i (Suc left) min_index =
     cbind (rd in_shortest_path i) (\<lambda>settled.
     cbind (rd avoid i) (\<lambda>avoided.
     if min_index = -1
     then min_loop dist in_shortest_path avoid (i + 1) left
            (if \<not> settled \<and> \<not> avoided then int i else min_index)
     else
       cbind (rd dist i) (\<lambda>di.
       cbind (rdi dist min_index) (\<lambda>dm.
         min_loop dist in_shortest_path avoid (i + 1) left
           (if di < dm \<and> \<not> settled \<and> \<not> avoided then int i else min_index)))))"

definition min_distance :: "int list \<Rightarrow> bool list \<Rightarrow> bool list \<Rightarrow> int cres" where
  "min_distance dist in_shortest_path avoid =
     min_loop dist in_shortest_path avoid 0 TRACK_MAX (-1)"

text \<open>The relaxations of one iteration, in the order of the code.\<close>

definition relax_edge ::
  "bool list \<Rightarrow> nat \<Rightarrow> track_node \<Rightarrow> nat \<Rightarrow> int list \<times> node_ptr list \<Rightarrow>
     (int list \<times> node_ptr list) cres" where
  "relax_edge in_shortest_path u n dir st =
     cbind (edge n dir) (\<lambda>uv. update_dist in_shortest_path u (e_dest uv) (e_dist uv) st)"

definition relax_node ::
  "bool list \<Rightarrow> nat \<Rightarrow> track_node \<Rightarrow> int list \<times> node_ptr list \<Rightarrow>
     (int list \<times> node_ptr list) cres" where
  "relax_node in_shortest_path u n st =
     cbind (if n_type n = NODE_MERGE \<or> n_type n = NODE_SENSOR \<or> n_type n = NODE_ENTER
            then relax_edge in_shortest_path u n DIR_AHEAD st else Inr st) (\<lambda>st1.
     cbind (if n_type n = NODE_BRANCH
            then cbind (relax_edge in_shortest_path u n DIR_STRAIGHT st1)
                   (relax_edge in_shortest_path u n DIR_CURVED)
            else Inr st1) (\<lambda>st2.
     update_dist in_shortest_path u (n_reverse n) 300 st2))"

lemma min_loop_fresh:
  "min_loop dist sp avoid i left m = Inr u \<Longrightarrow>
     u = m \<or> (\<exists>k. u = int k \<and> k < length sp \<and> \<not> sp ! k)"
  by (induction dist sp avoid i left m rule: min_loop.induct)
     (auto simp: c_simps split: if_splits)

lemma count_list_True_update:
  "k < length sp \<Longrightarrow> \<not> sp ! k \<Longrightarrow> count_list (sp[k := True]) False < count_list sp False"
  by (induction sp arbitrary: k) (auto simp: nth_Cons split: nat.splits)

text \<open>Each iteration settles one more node, so the loop ends.\<close>

function dijkstra_loop ::
  "track_node list \<Rightarrow> nat \<Rightarrow> bool list \<Rightarrow> bool list \<Rightarrow> int list \<Rightarrow> node_ptr list \<Rightarrow>
     (int \<times> node_ptr list) cres" where
  "dijkstra_loop t dest avoid sp dist prev =
     cbind (min_distance dist sp avoid) (\<lambda>u.
     cbind (rdi dist u) (\<lambda>du.
     if du = INF_DIST then Inr (-1, prev)
     else if u = int dest then Inr (du, prev)
     else
       cbind (wri sp u True) (\<lambda>sp'.
       cbind (rdi t u) (\<lambda>n.
       cbind (relax_node sp' (nat u) n (dist, prev)) (\<lambda>(dist', prev').
         dijkstra_loop t dest avoid sp' dist' prev')))))"
  by pat_completeness auto
termination
proof (relation "measure (\<lambda>(t, dest, avoid, sp, dist, prev). count_list sp False)", goal_cases)
  case (2 t dest avoid sp dist prev u du sp' n pr dist' prev')
  have "0 \<le> u" "sp' = sp[nat u := True]" using 2 by (auto simp: c_simps)
  moreover have "nat u < length sp" "\<not> sp ! nat u"
    using 2 min_loop_fresh [of dist sp avoid 0 TRACK_MAX "-1" u]
    by (auto simp: min_distance_def c_simps)
  ultimately show ?case by (simp add: count_list_True_update)
qed simp

declare dijkstra_loop.simps [simp del]

text \<open>The result and the array \<open>prev\<close>, which the function fills for its caller.\<close>

definition dijkstra ::
  "track_node list \<Rightarrow> nat \<Rightarrow> nat \<Rightarrow> bool list \<Rightarrow> (int \<times> node_ptr list) cres" where
  "dijkstra t src dest avoid =
     cbind (wr (replicate TRACK_MAX INF_DIST) src 0) (\<lambda>dist.
       dijkstra_loop t dest avoid (replicate TRACK_MAX False) dist (replicate TRACK_MAX None))"

text \<open>
  The shortest detour of at least \<open>min_dist\<close>: the best length, the arrays \<open>prev1\<close> and \<open>prev2\<close> and the
  node where the two parts meet, all as they were when no node is suitable.
\<close>

type_synonym detour = "int \<times> node_ptr list \<times> node_ptr list \<times> node_ptr"

definition detour_step ::
  "track_node list \<Rightarrow> nat \<Rightarrow> nat \<Rightarrow> bool list \<Rightarrow> int \<Rightarrow> detour \<Rightarrow> nat \<Rightarrow> detour cres" where
  "detour_step t src dest avoid min_dist = (\<lambda>(best, prev1, prev2, intermediate) i.
     cbind (dijkstra t src i avoid) (\<lambda>(len1, cur_prev1).
     cbind (dijkstra t i dest avoid) (\<lambda>(len2, cur_prev2).
       if len1 \<noteq> -1 \<and> len2 \<noteq> -1 \<and> len1 + len2 \<ge> min_dist \<and> len1 + len2 < best
       then cbind (memcpy prev1 cur_prev1 TRACK_MAX) (\<lambda>prev1'.
            cbind (memcpy prev2 cur_prev2 TRACK_MAX) (\<lambda>prev2'.
              Inr (len1 + len2, prev1', prev2', Some i)))
       else Inr (best, prev1, prev2, intermediate))))"

definition dijkstras_min_length ::
  "track_node list \<Rightarrow> nat \<Rightarrow> nat \<Rightarrow> node_ptr list \<Rightarrow> node_ptr list \<Rightarrow> node_ptr \<Rightarrow> bool list \<Rightarrow> int \<Rightarrow>
     detour cres" where
  "dijkstras_min_length t src dest prev1 prev2 intermediate avoid min_dist =
     cbind (cfold (detour_step t src dest avoid min_dist) (INF_DIST, prev1, prev2, intermediate)
              [0..<TRACK_MAX]) (\<lambda>(best, rest).
       Inr (if best = INF_DIST then -1 else best, rest))"

end
