(* ===== verification/Shortest_Paths.thy ===== *)
theory Shortest_Paths
  imports Algorithms
begin

section \<open>What the search computes\<close>

text \<open>
  The specification of \<open>dijkstra\<close>: a walk over the track that keeps clear of the avoided
  nodes, and the least length of one. The proof keeps the classical invariant: settled nodes
  are nearer than the others, their arcs are relaxed, and \<open>prev\<close> holds a walk for every finite
  entry of \<open>dist\<close>.
\<close>

subsection \<open>Walks\<close>

text \<open>The arcs out of a node, the turn on the spot of length 300 last.\<close>

definition arcs :: "track_node list \<Rightarrow> nat \<Rightarrow> (node_ptr \<times> int) list" where
  "arcs t u =
     (let n = t ! u; e = (\<lambda>d. (e_dest (n_edges n ! d), e_dist (n_edges n ! d))) in
      (if n_type n = NODE_MERGE \<or> n_type n = NODE_SENSOR \<or> n_type n = NODE_ENTER
       then [e DIR_AHEAD]
       else if n_type n = NODE_BRANCH then [e DIR_STRAIGHT, e DIR_CURVED] else []) @
      [(n_reverse n, 300)])"

text \<open>From \<open>u\<close> over the arcs of the list to \<open>v\<close>, all nodes satisfying \<open>ok\<close>.\<close>

fun walk :: "track_node list \<Rightarrow> (nat \<Rightarrow> bool) \<Rightarrow> nat \<Rightarrow> (nat \<times> int) list \<Rightarrow> nat \<Rightarrow> bool" where
  "walk t ok u [] v = (ok u \<and> u = v)"
| "walk t ok u ((x, w) # p) v = (ok u \<and> (Some x, w) \<in> set (arcs t u) \<and> walk t ok x p v)"

definition walk_length :: "(nat \<times> int) list \<Rightarrow> int" where
  "walk_length p = sum_list (map snd p)"

lemma walk_length_simps [simp]:
  "walk_length [] = 0"
  "walk_length ((x, w) # p) = w + walk_length p"
  "walk_length (p @ q) = walk_length p + walk_length q"
  by (simp_all add: walk_length_def)

lemma walk_snoc:
  "walk t ok u (p @ [(x, w)]) v \<longleftrightarrow>
     (\<exists>y. walk t ok u p y \<and> (Some x, w) \<in> set (arcs t y) \<and> ok x \<and> x = v)"
  by (induction p arbitrary: u) auto

lemma walk_ok: "walk t ok u p v \<Longrightarrow> \<forall>x \<in> set (u # map fst p). ok x"
  by (induction p arbitrary: u) fastforce+

lemma walk_last: "walk t ok u p v \<Longrightarrow> last (u # map fst p) = v"
  by (induction p arbitrary: u) (auto split: if_splits)

lemma walk_nodes:
  assumes "walk t ok u p v" "x \<in> set (u # map fst p)"
  shows "x = v \<or> x \<in> set (butlast (u # map fst p))"
proof -
  let ?xs = "u # map fst p"
  have "x \<in> set (butlast ?xs @ [last ?xs])"
    using assms(2) append_butlast_last_id [of ?xs] by (simp only: list.distinct not_False_eq_True)
  then show ?thesis using walk_last [OF assms(1)] by auto
qed

lemma walk_mono:
  "walk t ok u p v \<Longrightarrow> \<forall>x \<in> set (u # map fst p). ok' x \<Longrightarrow> walk t ok' u p v"
  by (induction p arbitrary: u) auto

text \<open>A track the search can run on: arcs lead to nodes of the track and have a length.\<close>

definition search_ok :: "track_node list \<Rightarrow> bool" where
  "search_ok t =
     (length t = TRACK_MAX \<and>
      list_all (\<lambda>u. length (n_edges (t ! u)) = 2 \<and>
        (n_type (t ! u) \<noteq> NODE_NONE \<longrightarrow>
         list_all (\<lambda>(vp, w). case vp of None \<Rightarrow> False
           | Some v \<Rightarrow> v < TRACK_MAX \<and> n_type (t ! v) \<noteq> NODE_NONE \<and> 0 \<le> w) (arcs t u)))
        [0..<TRACK_MAX])"

definition real_node :: "track_node list \<Rightarrow> nat \<Rightarrow> bool" where
  "real_node t u = (u < TRACK_MAX \<and> n_type (t ! u) \<noteq> NODE_NONE)"

lemma search_ok_length: "search_ok t \<Longrightarrow> length t = TRACK_MAX"
  by (simp add: search_ok_def)

lemma search_ok_edges: "search_ok t \<Longrightarrow> u < TRACK_MAX \<Longrightarrow> length (n_edges (t ! u)) = 2"
  by (simp add: search_ok_def list_all_iff)

lemma search_ok_arc:
  assumes "search_ok t" "real_node t u" "(vp, w) \<in> set (arcs t u)"
  shows "\<exists>v. vp = Some v \<and> real_node t v \<and> 0 \<le> w"
proof -
  have "list_all (\<lambda>(vp, w). case vp of None \<Rightarrow> False
      | Some v \<Rightarrow> v < TRACK_MAX \<and> n_type (t ! v) \<noteq> NODE_NONE \<and> 0 \<le> w) (arcs t u)"
    using assms(1,2) unfolding search_ok_def real_node_def list_all_iff [of _ "[0..<TRACK_MAX]"]
    by simp
  then show ?thesis
    using assms(3) by (auto simp: list_all_iff real_node_def split: option.splits)
qed

lemma walk_real:
  "search_ok t \<Longrightarrow> real_node t u \<Longrightarrow> walk t ok u p v \<Longrightarrow> real_node t v \<and> 0 \<le> walk_length p"
proof (induction p arbitrary: u)
  case (Cons a p)
  obtain x w where a: "a = (x, w)" by fastforce
  have "real_node t x" "0 \<le> w" using search_ok_arc [OF Cons.prems(1,2), of "Some x" w] Cons.prems(3) a by auto
  then show ?case using Cons.IH [OF Cons.prems(1)] Cons.prems(3) a by fastforce
qed simp

subsection \<open>The predecessors\<close>

text \<open>A list of nodes in which \<open>prev\<close> leads from each to the one before, and from the first to \<open>q\<close>.\<close>

fun chain :: "node_ptr list \<Rightarrow> node_ptr \<Rightarrow> nat list \<Rightarrow> bool" where
  "chain prev q [] = True"
| "chain prev q (v # p) = (v < length prev \<and> prev ! v = q \<and> chain prev (Some v) p)"

lemma chain_snoc:
  "chain prev q (p @ [v]) \<longleftrightarrow>
     chain prev q p \<and> v < length prev \<and> prev ! v = (if p = [] then q else Some (last p))"
  by (induction p arbitrary: q) auto

lemma chain_update: "v \<notin> set p \<Longrightarrow> chain (prev[v := x]) q p = chain prev q p"
  by (induction p arbitrary: q) auto

text \<open>A walk of length \<open>d\<close> from \<open>src\<close> to \<open>v\<close>, recorded in \<open>prev\<close>, over settled nodes up to \<open>v\<close>.\<close>

definition traced ::
  "track_node list \<Rightarrow> bool list \<Rightarrow> node_ptr list \<Rightarrow> nat \<Rightarrow> nat \<Rightarrow> (nat \<times> int) list \<Rightarrow> bool" where
  "traced t sp prev src v p \<longleftrightarrow>
     walk t (\<lambda>_. True) src p v \<and> chain prev None (src # map fst p) \<and>
     (\<forall>x \<in> set (butlast (src # map fst p)). sp ! x)"

subsection \<open>The invariant\<close>

definition dij_inv ::
  "track_node list \<Rightarrow> (nat \<Rightarrow> bool) \<Rightarrow> nat \<Rightarrow> bool list \<Rightarrow> int list \<Rightarrow> node_ptr list \<Rightarrow> bool" where
  "dij_inv t ok src sp dist prev \<longleftrightarrow>
     length sp = TRACK_MAX \<and> length dist = TRACK_MAX \<and> length prev = TRACK_MAX \<and>
     dist ! src = 0 \<and>
     (\<forall>v < TRACK_MAX. 0 \<le> dist ! v \<and> dist ! v \<le> INF_DIST \<and>
        (sp ! v \<longrightarrow> ok v \<and> dist ! v < INF_DIST) \<and>
        (dist ! v < INF_DIST \<longrightarrow> real_node t v \<and>
           (\<exists>p. traced t sp prev src v p \<and> walk_length p = dist ! v))) \<and>
     (\<forall>u < TRACK_MAX. \<forall>v < TRACK_MAX. sp ! u \<and> \<not> sp ! v \<and> ok v \<longrightarrow> dist ! u \<le> dist ! v)"

text \<open>The arcs of settled nodes are relaxed, except those of \<open>u\<close> still in \<open>todo\<close>.\<close>

definition relaxed ::
  "track_node list \<Rightarrow> bool list \<Rightarrow> int list \<Rightarrow> nat \<Rightarrow> (node_ptr \<times> int) list \<Rightarrow> bool" where
  "relaxed t sp dist u todo \<longleftrightarrow>
     (\<forall>x < TRACK_MAX. sp ! x \<longrightarrow> (\<forall>v w. (Some v, w) \<in> set (arcs t x) \<longrightarrow>
        dist ! v \<le> dist ! x + w \<or> INF_DIST \<le> dist ! x + w \<or>
        x = u \<and> (Some v, w) \<in> set todo))"

subsection \<open>One iteration\<close>

text \<open>The relaxations of the code are those of the arcs, in order.\<close>

lemma relax_node_arcs:
  assumes "length (n_edges (t ! u)) = 2"
  shows "relax_node sp u (t ! u) st =
    cfold (\<lambda>st (vp, w). update_dist sp u vp w st) st (arcs t u)"
  using assms
  by (simp add: relax_node_def relax_edge_def arcs_def edge_def Let_def cbind_assoc
      split: if_splits)

lemma traced_ok:
  "dij_inv t ok src sp dist prev \<Longrightarrow> v < TRACK_MAX \<Longrightarrow> dist ! v < INF_DIST \<Longrightarrow>
     \<exists>p. traced t sp prev src v p \<and> walk_length p = dist ! v"
  by (simp add: dij_inv_def)

lemma dij_invD:
  assumes "dij_inv t ok src sp dist prev"
  shows "length sp = TRACK_MAX" "length dist = TRACK_MAX" "length prev = TRACK_MAX"
    "v < TRACK_MAX \<Longrightarrow> 0 \<le> dist ! v \<and> dist ! v \<le> INF_DIST"
    "v < TRACK_MAX \<Longrightarrow> sp ! v \<Longrightarrow> ok v \<and> dist ! v < INF_DIST"
    "v < TRACK_MAX \<Longrightarrow> w < TRACK_MAX \<Longrightarrow> sp ! v \<Longrightarrow> \<not> sp ! w \<Longrightarrow> ok w \<Longrightarrow> dist ! v \<le> dist ! w"
  using assms by (simp_all add: dij_inv_def)

text \<open>A better way to \<open>v\<close>, over \<open>u\<close>, leaves what is recorded for the other nodes alone.\<close>

lemma traced_update:
  assumes "traced t sp prev src x p" "\<not> sp ! v" "x \<noteq> v"
  shows "traced t sp (prev[v := q]) src x p"
proof -
  have "src # map fst p = butlast (src # map fst p) @ [x]"
    using assms(1) walk_last [of t "\<lambda>_. True" src p x]
    by (metis append_butlast_last_id list.distinct(1) traced_def)
  then have "v \<notin> set (src # map fst p)"
    using assms by (metis Un_iff empty_iff insert_iff list.set set_append traced_def)
  then show ?thesis using assms(1) by (simp add: traced_def chain_update)
qed

lemma traced_extend:
  assumes "traced t sp prev src u p" "sp ! u" "\<not> sp ! v" "v < length prev"
    and "(Some v, w) \<in> set (arcs t u)"
  shows "traced t sp (prev[v := Some u]) src v (p @ [(v, w)])"
proof -
  have last: "last (src # map fst p) = u" "walk t (\<lambda>_. True) src p u"
    using assms(1) walk_last [of t "\<lambda>_. True" src p u] by (simp_all add: traced_def)
  have chain: "chain (prev[v := Some u]) None (src # map fst p)"
    using traced_update [OF assms(1,3), of "Some u"] assms(2,3) by (auto simp: traced_def)
  have sp: "\<forall>x \<in> set (src # map fst p). sp ! x"
    using assms(1,2) last(1)
    by (metis append_butlast_last_id list.distinct(1) traced_def Un_iff empty_iff insert_iff
        list.set set_append)
  have "chain (prev[v := Some u]) None ((src # map fst p) @ [v])"
    using chain last(1) assms(4) by (simp only: chain_snoc) simp
  moreover have "walk t (\<lambda>_. True) src (p @ [(v, w)]) v"
    using last(2) assms(5) by (auto simp: walk_snoc)
  ultimately show ?thesis using sp by (simp add: traced_def butlast_append)
qed

lemma update_inv:
  assumes inv: "dij_inv t ok src sp dist prev"
    and u: "u < TRACK_MAX" "sp ! u" "\<forall>x < TRACK_MAX. sp ! x \<longrightarrow> dist ! x \<le> dist ! u"
    and arc: "(Some v, w) \<in> set (arcs t u)" and v: "real_node t v" "0 \<le> w"
    and better: "\<not> sp ! v" "dist ! u + w < dist ! v"
  shows "dij_inv t ok src sp (dist[v := dist ! u + w]) (prev[v := Some u])"
    (is "dij_inv t ok src sp ?dist ?prev")
proof -
  have len: "length sp = TRACK_MAX" "length dist = TRACK_MAX" "length prev = TRACK_MAX"
    and du: "dist ! u < INF_DIST" "0 \<le> dist ! u" and vN: "v < TRACK_MAX"
    using inv u v by (auto simp: dij_inv_def real_node_def)
  have same: "?dist ! x = dist ! x" if "x \<noteq> v" for x using that by simp
  have new: "?dist ! v = dist ! u + w" "dist ! u + w < INF_DIST"
    using len vN better inv by (fastforce simp: dij_inv_def)+
  obtain p where p: "traced t sp prev src u p" "walk_length p = dist ! u"
    using traced_ok [OF inv u(1) du(1)] by blast
  have tr: "\<exists>p. traced t sp ?prev src x p \<and> walk_length p = ?dist ! x"
    if "x < TRACK_MAX" "?dist ! x < INF_DIST" for x
  proof (cases "x = v")
    case True
    then show ?thesis
      using traced_extend [OF p(1) u(2) better(1) _ arc] len vN p(2) new
      by (intro exI [of _ "p @ [(v, w)]"]) simp
  next
    case False
    then show ?thesis
      using traced_ok [OF inv that(1)] traced_update [of t sp prev src x _ v] better that same
      by metis
  qed
  have src: "src \<noteq> v" using better inv du v(2) by (auto simp: dij_inv_def)
  have node: "0 \<le> ?dist ! x \<and> ?dist ! x \<le> INF_DIST \<and>
      (sp ! x \<longrightarrow> ok x \<and> ?dist ! x < INF_DIST) \<and> (?dist ! x < INF_DIST \<longrightarrow> real_node t x)"
    if "x < TRACK_MAX" for x
    using inv that v du better new same by (cases "x = v") (auto simp: dij_inv_def)
  have order: "?dist ! x \<le> ?dist ! y"
    if xy: "x < TRACK_MAX" "y < TRACK_MAX" "sp ! x" "\<not> sp ! y" "ok y" for x y
  proof -
    have "x \<noteq> v" using better xy(3) by auto
    then show ?thesis
      using xy u(3) v(2) new same inv by (cases "y = v") (fastforce simp: dij_inv_def)+
  qed
  show ?thesis
    using node tr order src same inv len by (simp add: dij_inv_def)
qed

lemma update_relaxed:
  assumes "relaxed t sp dist u ((Some v, w) # todo)" "v < length dist"
    and "\<not> sp ! v" "dist ! u + w < dist ! v"
  shows "relaxed t sp (dist[v := dist ! u + w]) u todo" (is "relaxed t sp ?dist u todo")
  unfolding relaxed_def
proof (intro allI impI)
  fix x y a assume x: "x < TRACK_MAX" "sp ! x" and a: "(Some y, a) \<in> set (arcs t x)"
  have new: "?dist ! v = dist ! u + w" and x': "?dist ! x = dist ! x" and y': "?dist ! y \<le> dist ! y"
    using x assms by (auto simp: nth_list_update)
  have "dist ! y \<le> dist ! x + a \<or> INF_DIST \<le> dist ! x + a \<or>
      x = u \<and> (Some y, a) \<in> set ((Some v, w) # todo)"
    using assms(1) x a by (simp add: relaxed_def)
  then show "?dist ! y \<le> ?dist ! x + a \<or> INF_DIST \<le> ?dist ! x + a \<or>
      x = u \<and> (Some y, a) \<in> set todo"
    using x' y' new by auto
qed

lemma update_step:
  assumes inv: "dij_inv t ok src sp dist prev" and rel: "relaxed t sp dist u ((Some v, w) # todo)"
    and u: "u < TRACK_MAX" "sp ! u" "\<forall>x < TRACK_MAX. sp ! x \<longrightarrow> dist ! x \<le> dist ! u"
    and arc: "(Some v, w) \<in> set (arcs t u)" and v: "real_node t v" "0 \<le> w"
  shows "\<exists>dist' prev'. update_dist sp u (Some v) w (dist, prev) = Inr (dist', prev') \<and>
    dij_inv t ok src sp dist' prev' \<and> relaxed t sp dist' u todo \<and>
    (\<forall>x < TRACK_MAX. sp ! x \<longrightarrow> dist' ! x = dist ! x)"
proof -
  have len: "length sp = TRACK_MAX" "length dist = TRACK_MAX" "length prev = TRACK_MAX"
    and du: "dist ! u < INF_DIST" and vN: "v < TRACK_MAX"
    using inv u v by (auto simp: dij_inv_def real_node_def)
  show ?thesis
  proof (cases "\<not> sp ! v \<and> dist ! u + w < dist ! v")
    case False
    then have "dist ! v \<le> dist ! u + w"
      using u(3) v(2) vN by (cases "sp ! v") (fastforce dest: spec)+
    then have "relaxed t sp dist u todo"
      using rel by (auto simp: relaxed_def)
    then show ?thesis using False inv len u vN by (auto simp: update_dist_def)
  next
    case True
    then have "update_dist sp u (Some v) w (dist, prev) =
        Inr (dist[v := dist ! u + w], prev[v := Some u])"
      using len u vN du by (simp add: update_dist_def)
    moreover have "\<forall>x < TRACK_MAX. sp ! x \<longrightarrow> dist[v := dist ! u + w] ! x = dist ! x"
      using True by (metis nth_list_update_neq)
    ultimately show ?thesis
      using update_inv [OF inv u arc v] update_relaxed [OF rel] True len vN by auto
  qed
qed

lemma relax_arcs:
  assumes "dij_inv t ok src sp dist prev" "relaxed t sp dist u todo"
    and "u < TRACK_MAX" "sp ! u" "\<forall>x < TRACK_MAX. sp ! x \<longrightarrow> dist ! x \<le> dist ! u"
    and "set todo \<subseteq> set (arcs t u)" "real_node t u" "search_ok t"
  shows "\<exists>dist' prev'.
    cfold (\<lambda>st (vp, w). update_dist sp u vp w st) (dist, prev) todo = Inr (dist', prev') \<and>
    dij_inv t ok src sp dist' prev' \<and> relaxed t sp dist' u []"
  using assms
proof (induction todo arbitrary: dist prev)
  case (Cons a todo)
  obtain vp w where a: "a = (vp, w)" by fastforce
  obtain v where v: "vp = Some v" "real_node t v" "0 \<le> w"
    using search_ok_arc [OF Cons.prems(8,7), of vp w] Cons.prems(6) a by auto
  obtain dist1 prev1 where step: "update_dist sp u vp w (dist, prev) = Inr (dist1, prev1)"
    "dij_inv t ok src sp dist1 prev1" "relaxed t sp dist1 u todo"
    "\<forall>x < TRACK_MAX. sp ! x \<longrightarrow> dist1 ! x = dist ! x"
    using update_step [OF Cons.prems(1) _ Cons.prems(3-5), of v w todo] Cons.prems(2,6) a v
    by auto
  show ?case
    using Cons.IH [OF step(2,3) Cons.prems(3,4)] Cons.prems(3-8) step a by auto
qed auto

subsection \<open>Choosing the next node\<close>

text \<open>
  The index \<open>min_loop\<close> holds after the first \<open>i\<close> nodes: -1 while none was a candidate, else
  the first candidate of least distance.
\<close>

definition min_inv :: "int list \<Rightarrow> bool list \<Rightarrow> bool list \<Rightarrow> nat \<Rightarrow> int \<Rightarrow> bool" where
  "min_inv dist sp avoid i m \<longleftrightarrow>
     (if m = -1 then \<forall>j < i. sp ! j \<or> avoid ! j
      else \<exists>k < i. m = int k \<and> \<not> sp ! k \<and> \<not> avoid ! k \<and>
        (\<forall>j < i. sp ! j \<or> avoid ! j \<or> dist ! k \<le> dist ! j))"

lemma min_loop_ok:
  assumes "min_inv dist sp avoid i m" "i + left = TRACK_MAX"
    and "length dist = TRACK_MAX" "length sp = TRACK_MAX" "length avoid = TRACK_MAX"
  shows "\<exists>u. min_loop dist sp avoid i left m = Inr u \<and> min_inv dist sp avoid TRACK_MAX u"
  using assms
proof (induction left arbitrary: i m)
  case (Suc left)
  let ?m = "if (m = -1 \<or> dist ! i < dist ! nat m) \<and> \<not> sp ! i \<and> \<not> avoid ! i then int i else m"
  have step: "min_loop dist sp avoid i (Suc left) m = min_loop dist sp avoid (i + 1) left ?m"
    using Suc.prems by (auto simp: rdi_def min_inv_def)
  have "min_inv dist sp avoid (i + 1) ?m"
    using Suc.prems(1) by (auto simp: min_inv_def less_Suc_eq split: if_splits)
  then show ?case using Suc.IH [of "i + 1" ?m] Suc.prems step by simp
qed simp

lemma min_distance_ok:
  assumes "length dist = TRACK_MAX" "length sp = TRACK_MAX" "length avoid = TRACK_MAX"
  obtains u where "min_distance dist sp avoid = Inr u" "min_inv dist sp avoid TRACK_MAX u"
  using min_loop_ok [of dist sp avoid 0 "-1" TRACK_MAX] assms
  by (auto simp: min_distance_def min_inv_def)

lemma relaxed_nil: "relaxed t sp dist u [] = relaxed t sp dist u' []"
  by (simp add: relaxed_def)

lemma settle:
  assumes inv: "dij_inv t (\<lambda>v. \<not> avoid ! v) src sp dist prev" and rel: "relaxed t sp dist x []"
    and min: "min_inv dist sp avoid TRACK_MAX (int u)" and du: "dist ! u < INF_DIST"
  shows "dij_inv t (\<lambda>v. \<not> avoid ! v) src (sp[u := True]) dist prev"
    "relaxed t (sp[u := True]) dist u (arcs t u)"
    "\<forall>x < TRACK_MAX. sp[u := True] ! x \<longrightarrow> dist ! x \<le> dist ! u"
proof -
  have u: "u < TRACK_MAX" "\<not> sp ! u" "\<not> avoid ! u"
    and least: "\<And>j. j < TRACK_MAX \<Longrightarrow> sp ! j \<or> avoid ! j \<or> dist ! u \<le> dist ! j"
    using min by (auto simp: min_inv_def)
  have len: "length sp = TRACK_MAX" using inv by (simp add: dij_inv_def)
  have sp: "sp[u := True] ! x \<longleftrightarrow> x = u \<or> sp ! x" if "x < TRACK_MAX" for x
    using that len u by (auto simp: nth_list_update)
  show le: "\<forall>x < TRACK_MAX. sp[u := True] ! x \<longrightarrow> dist ! x \<le> dist ! u"
    using inv u sp by (auto simp: dij_inv_def)
  have mono: "sp ! x \<Longrightarrow> sp[u := True] ! x" for x
    by (cases "x = u"; cases "u < length sp") (auto simp: list_update_beyond)
  have "traced t (sp[u := True]) prev src v p" if "traced t sp prev src v p" for v p
    using that mono by (auto simp: traced_def)
  then have tr: "\<exists>p. traced t (sp[u := True]) prev src v p \<and> walk_length p = dist ! v"
    if "v < TRACK_MAX" "dist ! v < INF_DIST" for v
    using traced_ok [OF inv that] by blast
  have order: "dist ! x \<le> dist ! y" if "x < TRACK_MAX" "y < TRACK_MAX" "sp[u := True] ! x"
    "\<not> sp[u := True] ! y" "\<not> avoid ! y" for x y
    using that le least [of y] sp by force
  show "dij_inv t (\<lambda>v. \<not> avoid ! v) src (sp[u := True]) dist prev"
    using inv tr order sp u du by (simp add: dij_inv_def)
  show "relaxed t (sp[u := True]) dist u (arcs t u)"
    using rel sp by (auto simp: relaxed_def)
qed

subsection \<open>The whole search\<close>

text \<open>How the loop ends: \<open>u\<close> is what \<open>min_distance\<close> answered last.\<close>

definition search_end ::
  "nat \<Rightarrow> int list \<Rightarrow> node_ptr list \<Rightarrow> int \<Rightarrow> (int \<times> node_ptr list) cres \<Rightarrow> bool" where
  "search_end dest dist prev u r =
     (if u = -1 then r = Inl Out_Of_Bounds
      else if dist ! nat u = INF_DIST then r = Inr (-1, prev)
      else u = int dest \<and> r = Inr (dist ! dest, prev))"

lemma dijkstra_loop_ok:
  assumes "search_ok t" "length avoid = TRACK_MAX" "dest < TRACK_MAX" "\<not> sp ! dest"
    and "dij_inv t (\<lambda>v. \<not> avoid ! v) src sp dist prev" "relaxed t sp dist x []"
  shows "\<exists>sp' dist' prev' u. dij_inv t (\<lambda>v. \<not> avoid ! v) src sp' dist' prev' \<and>
    relaxed t sp' dist' x [] \<and> \<not> sp' ! dest \<and> min_inv dist' sp' avoid TRACK_MAX u \<and>
    search_end dest dist' prev' u (dijkstra_loop t dest avoid sp dist prev)"
  using assms(4-)
proof (induction "count_list sp False" arbitrary: sp dist prev rule: less_induct)
  case less
  note inv = less.prems(2) and rel = less.prems(3)
  have len: "length sp = TRACK_MAX" "length dist = TRACK_MAX" "length prev = TRACK_MAX"
    using inv by (auto simp: dij_inv_def)
  obtain u where u: "min_distance dist sp avoid = Inr u" "min_inv dist sp avoid TRACK_MAX u"
    using min_distance_ok [of dist sp avoid] len assms(2) by blast
  show ?case
  proof (cases "u = -1 \<or> dist ! nat u = INF_DIST \<or> u = int dest")
    case True
    have "dijkstra_loop t dest avoid sp dist prev =
        (if u = -1 then Inl Out_Of_Bounds else if dist ! nat u = INF_DIST then Inr (-1, prev)
         else Inr (dist ! dest, prev))"
      by (subst dijkstra_loop.simps)
         (use True u len in \<open>auto simp: rdi_def min_inv_def split: if_splits\<close>)
    then have "search_end dest dist prev u (dijkstra_loop t dest avoid sp dist prev)"
      using True by (auto simp: search_end_def)
    then show ?thesis using inv rel less.prems(1) u(2) by blast
  next
    case False
    obtain k where k: "u = int k" "k < TRACK_MAX" "\<not> sp ! k"
      using u(2) False by (auto simp: min_inv_def)
    have dk: "dist ! k < INF_DIST" and node: "real_node t k"
      using inv k False by (force simp: dij_inv_def)+
    let ?sp = "sp[k := True]"
    note settle = settle [OF inv rel u(2) [unfolded k] dk]
    obtain dist1 prev1 where step:
      "cfold (\<lambda>st (vp, w). update_dist ?sp k vp w st) (dist, prev) (arcs t k) = Inr (dist1, prev1)"
      "dij_inv t (\<lambda>v. \<not> avoid ! v) src ?sp dist1 prev1" "relaxed t ?sp dist1 k []"
      using relax_arcs [OF settle(1,2) k(2) _ settle(3) _ node assms(1)] k(2) len by auto
    have loop: "dijkstra_loop t dest avoid sp dist prev = dijkstra_loop t dest avoid ?sp dist1 prev1"
      using u(1) False k dk len step(1) search_ok_length [OF assms(1)]
        relax_node_arcs [OF search_ok_edges [OF assms(1) k(2)]]
      by (subst dijkstra_loop.simps) (simp add: rdi_def wri_def)
    have "count_list ?sp False < count_list sp False"
      using k len by (simp add: count_list_True_update)
    moreover have "\<not> ?sp ! dest" using False k less.prems(1) by auto
    ultimately show ?thesis
      using less.hyps [of ?sp dist1 prev1] step(2,3) loop relaxed_nil by metis
  qed
qed

text \<open>A walk clear of the avoided nodes and over no broken edge, whose length is infinite.\<close>

definition route ::
  "track_node list \<Rightarrow> bool list \<Rightarrow> nat \<Rightarrow> (nat \<times> int) list \<Rightarrow> nat \<Rightarrow> bool" where
  "route t avoid u p v = (walk t (\<lambda>x. \<not> avoid ! x) u p v \<and> walk_length p < INF_DIST)"

lemma route_lower:
  assumes "search_ok t" "real_node t src" "dij_inv t (\<lambda>v. \<not> avoid ! v) src sp dist prev"
    and "relaxed t sp dist x []"
    and M: "\<And>y. y < TRACK_MAX \<Longrightarrow> \<not> sp ! y \<Longrightarrow> \<not> avoid ! y \<Longrightarrow> M \<le> dist ! y"
      "\<And>y. y < TRACK_MAX \<Longrightarrow> sp ! y \<Longrightarrow> dist ! y \<le> M"
  shows "route t avoid src p v \<Longrightarrow> if sp ! v then dist ! v \<le> walk_length p else M \<le> walk_length p"
proof (induction p arbitrary: v rule: rev_induct)
  case Nil
  then have "v = src" "\<not> avoid ! src" by (auto simp: route_def)
  moreover have "dist ! src = 0" "src < TRACK_MAX"
    using assms(2,3) by (auto simp: dij_inv_def real_node_def)
  ultimately show ?case using M(1) [of src] by auto
next
  case (snoc a p)
  obtain z w where a: "a = (z, w)" by fastforce
  obtain y where y: "walk t (\<lambda>x. \<not> avoid ! x) src p y" "(Some z, w) \<in> set (arcs t y)"
    "\<not> avoid ! z" "z = v" "walk_length p + w < INF_DIST"
    using snoc.prems a by (auto simp: route_def walk_snoc)
  have real: "real_node t y" using walk_real [OF assms(1,2) y(1)] by simp
  have v: "real_node t v" "0 \<le> w" using search_ok_arc [OF assms(1) real y(2)] y(4) by auto
  have IH: "if sp ! y then dist ! y \<le> walk_length p else M \<le> walk_length p"
    using snoc.IH [of y] y v(2) by (simp add: route_def)
  have lt: "v < TRACK_MAX" "y < TRACK_MAX" using v(1) real by (auto simp: real_node_def)
  have "dist ! v \<le> walk_length p + w" if "sp ! y"
    using assms(4) that y(2,4,5) lt IH by (fastforce simp: relaxed_def)
  then show ?case using IH M(1) [OF lt(1)] M(2) [OF lt(1)] y(3,4) v(2) a by fastforce
qed

lemma route_of_traced:
  assumes "dij_inv t (\<lambda>v. \<not> avoid ! v) src sp dist prev" "v < TRACK_MAX" "dist ! v < INF_DIST"
    and "\<not> avoid ! v"
  obtains p where "route t avoid src p v" "walk_length p = dist ! v"
    "chain prev None (src # map fst p)"
proof -
  obtain p where p: "traced t sp prev src v p" "walk_length p = dist ! v"
    using traced_ok [OF assms(1-3)] by blast
  then have w: "walk t (\<lambda>_. True) src p v" by (simp add: traced_def)
  have chain: "chain prev None (src # map fst p)" using p by (simp add: traced_def)
  have settled: "sp ! x" if "x \<in> set (butlast (src # map fst p))" for x
    using p(1) that by (simp only: traced_def)
  have bound: "chain prev q xs \<Longrightarrow> x \<in> set xs \<Longrightarrow> x < TRACK_MAX" for q xs x
    using dij_invD(3) [OF assms(1)] by (induction xs arbitrary: q) auto
  have "\<not> avoid ! x" if x: "x \<in> set (src # map fst p)" for x
  proof -
    consider "x = v" | "x \<in> set (butlast (src # map fst p))"
      using walk_nodes [OF w x] by blast
    then show ?thesis
    proof cases
      case 2
      then show ?thesis
        using settled bound [OF chain x] dij_invD(5) [OF assms(1)] by blast
    qed (use assms(4) in simp)
  qed

  then have "walk t (\<lambda>x. \<not> avoid ! x) src p v" by (intro walk_mono [OF w] ballI)
  then have "route t avoid src p v" using p(2) assms(3) by (simp add: route_def)
  then show ?thesis using p(2) chain by (rule that)
qed

lemma dijkstra_end:
  assumes "search_ok t" "real_node t src" "dest < TRACK_MAX" "length avoid = TRACK_MAX"
  obtains sp dist prev u where "dij_inv t (\<lambda>v. \<not> avoid ! v) src sp dist prev"
    "relaxed t sp dist 0 []" "\<not> sp ! dest" "min_inv dist sp avoid TRACK_MAX u"
    "search_end dest dist prev u (dijkstra t src dest avoid)"
proof -
  let ?sp = "replicate TRACK_MAX False" and ?dist = "(replicate TRACK_MAX INF_DIST)[src := 0]"
  let ?prev = "replicate TRACK_MAX None"
  have src: "src < TRACK_MAX" using assms(2) by (simp add: real_node_def)
  have "?dist ! v = (if v = src then 0 else INF_DIST)" if "v < TRACK_MAX" for v
    using that src by (simp add: nth_list_update)
  moreover have "traced t ?sp ?prev src src []" using src by (simp add: traced_def)
  ultimately have "dij_inv t (\<lambda>v. \<not> avoid ! v) src ?sp ?dist ?prev"
    using assms(2) src by (auto simp: dij_inv_def INF_DIST_def intro!: exI [of _ "[]"])
  moreover have "relaxed t ?sp ?dist 0 []" by (simp add: relaxed_def)
  ultimately show ?thesis
    using dijkstra_loop_ok [OF assms(1,4,3), of ?sp src ?dist ?prev 0] that src assms(3)
    by (simp add: dijkstra_def) blast
qed

text \<open>What a search promises; the two outcomes of a search that returns, and the one fault.\<close>

definition shortest_route ::
  "track_node list \<Rightarrow> bool list \<Rightarrow> nat \<Rightarrow> (nat \<times> int) list \<Rightarrow> nat \<Rightarrow> bool" where
  "shortest_route t avoid src p dest \<longleftrightarrow> route t avoid src p dest \<and>
     (\<forall>q. route t avoid src q dest \<longrightarrow> walk_length p \<le> walk_length q)"

definition search_spec ::
  "track_node list \<Rightarrow> nat \<Rightarrow> nat \<Rightarrow> bool list \<Rightarrow> (int \<times> node_ptr list) cres \<Rightarrow> bool" where
  "search_spec t src dest avoid r \<longleftrightarrow>
     (case r of
        Inr (d, prev) \<Rightarrow>
          if d = -1 then \<nexists>p. route t avoid src p dest
          else length prev = TRACK_MAX \<and>
               (\<exists>p. shortest_route t avoid src p dest \<and> walk_length p = d \<and>
                    chain prev None (src # map fst p))
      | Inl f \<Rightarrow> f = Out_Of_Bounds \<and> avoid ! dest \<and>
          (\<forall>v < TRACK_MAX. avoid ! v \<or> (\<exists>p. route t avoid src p v)))"

lemma dijkstra_spec:
  assumes "search_ok t" "real_node t src" "dest < TRACK_MAX" "length avoid = TRACK_MAX"
  shows "search_spec t src dest avoid (dijkstra t src dest avoid)"
proof -
  obtain sp dist prev u where fin: "dij_inv t (\<lambda>v. \<not> avoid ! v) src sp dist prev"
    "relaxed t sp dist 0 []" "\<not> sp ! dest" "min_inv dist sp avoid TRACK_MAX u"
    "search_end dest dist prev u (dijkstra t src dest avoid)"
    by (rule dijkstra_end [OF assms])
  have M1: "dist ! k \<le> dist ! y" if "u = int k" "y < TRACK_MAX" "\<not> sp ! y" "\<not> avoid ! y" for k y
    using fin(4) that by (auto simp: min_inv_def)
  have M2: "dist ! y \<le> dist ! k" if "u = int k" "y < TRACK_MAX" "sp ! y" for k y
    using dij_invD(6) [OF fin(1), of y k] fin(4) that by (auto simp: min_inv_def)
  have low: "dist ! k \<le> walk_length p" if "u = int k" "route t avoid src p dest" for k p
    using route_lower [OF assms(1,2) fin(1,2) M1 [OF that(1)] M2 [OF that(1)] that(2)] fin(3) by simp
  consider (oob) "u = -1" | (none) k where "u = int k" "dist ! k = INF_DIST"
    | (found) "u = int dest" "dist ! dest \<noteq> INF_DIST"
  proof (cases "u = -1")
    case False
    then obtain k where "u = int k" using fin(4) by (auto simp: min_inv_def)
    then show ?thesis
      using that(2) [of k] that(3) fin(5)
      by (cases "dist ! k = INF_DIST") (auto simp: search_end_def)
  qed
  then show ?thesis
  proof cases
    case oob
    then have all: "\<forall>j < TRACK_MAX. sp ! j \<or> avoid ! j" using fin(4) by (simp add: min_inv_def)
    have "\<exists>p. route t avoid src p v" if "v < TRACK_MAX" "\<not> avoid ! v" for v
    proof -
      have "dist ! v < INF_DIST" using all that dij_invD(5) [OF fin(1)] by blast
      then show ?thesis by (rule route_of_traced [OF fin(1) that(1) _ that(2)]) blast
    qed
    then show ?thesis
      using oob fin(3,5) all assms(3) by (auto simp: search_end_def search_spec_def)
  next
    case none
    have "\<not> route t avoid src p dest" for p
      using low [OF none(1), of p] none(2) by (auto simp: route_def)
    then show ?thesis using none fin(5) by (simp add: search_end_def search_spec_def)
  next
    case found
    have dest: "\<not> avoid ! dest" "dist ! dest < INF_DIST" "0 \<le> dist ! dest"
      using fin(4) dij_invD(4) [OF fin(1), of dest] found assms(3) by (auto simp: min_inv_def)
    obtain p where "route t avoid src p dest" "walk_length p = dist ! dest"
      "chain prev None (src # map fst p)"
      by (rule route_of_traced [OF fin(1) assms(3) dest(2,1)])
    then show ?thesis
      using low [OF found(1)] found fin(5) dest(3) dij_invD(3) [OF fin(1)]
      by (auto simp: search_end_def search_spec_def shortest_route_def)
  qed
qed


text \<open>The tracks the trains run on, as they are after boot, are fit for the search.\<close>

lemma search_ok_boot: "search_ok tracka_boot" "search_ok trackb_boot"
  by (simp_all add: search_ok_def TRACK_MAX_def list_all_upt_2 arcs_def Let_def tracka_boot_def
      trackb_boot_def init_tracka_nth init_trackb_nth nth_set_dist INF_DIST_def)


end
