(* ===== verification/Path_Worker.thy ===== *)
theory Path_Worker
  imports Shortest_Paths
begin

section \<open>The pathfinding worker (src/user/pathworker.c)\<close>

text \<open>
  What a worker computes between taking a piece of work from the navigation server and
  sending its answer: two searches, the second one keeping clear of the reserved nodes, and the
  path read back from \<open>prev\<close>. \<open>MyParentTid\<close>, \<open>WhoIsBlock\<close>, \<open>Delay\<close> and the two \<open>Send\<close>s around it belong to
  the models of the kernel and of the servers.
\<close>

datatype pathfind_result = FOUND_PATH | NO_PATH_WITH_RESERVE | NO_PATH_AT_ALL

text \<open>The field \<open>pathfindworker_done\<close> of a request; \<open>memset\<close> has cleared what is not assigned.\<close>

record pathfind_done =
  pd_result :: pathfind_result
  pd_path :: "int list"
  pd_path_len :: nat

definition no_path :: "pathfind_result \<Rightarrow> pathfind_done" where
  "no_path res = \<lparr> pd_result = res, pd_path = replicate TRACK_MAX 0, pd_path_len = 0 \<rparr>"

text \<open>The loop that counts the nodes would not end on a cycle: then there is no result.\<close>

partial_function (option) count_path :: "node_ptr list \<Rightarrow> node_ptr \<Rightarrow> nat \<Rightarrow> nat cres option" where
  "count_path prev node path_len =
     (case node of
        None \<Rightarrow> Some (Inr path_len)
      | Some v \<Rightarrow>
          (case rd prev v of
             Inl e \<Rightarrow> Some (Inl e)
           | Inr node' \<Rightarrow> count_path prev node' (path_len + 1)))"

fun fill_path :: "node_ptr list \<Rightarrow> int list \<Rightarrow> node_ptr \<Rightarrow> nat \<Rightarrow> int list cres" where
  "fill_path prev path node 0 = Inr path"
| "fill_path prev path node (Suc i) =
     cbind (deref node) (\<lambda>v.
     cbind (wr path i (int v)) (\<lambda>path'.
     cbind (rd prev v) (\<lambda>node'. fill_path prev path' node' i)))"

definition read_path :: "node_ptr list \<Rightarrow> nat \<Rightarrow> pathfind_done cres option" where
  "read_path prev dest =
     map_option (\<lambda>r. cbind r (\<lambda>path_len.
       cbind (fill_path prev (replicate TRACK_MAX 0) (Some dest) path_len) (\<lambda>path.
         Inr \<lparr> pd_result = FOUND_PATH, pd_path = path, pd_path_len = path_len \<rparr>)))
       (count_path prev (Some dest) 0)"

definition pathfind_work ::
  "track_node list \<Rightarrow> nat \<Rightarrow> nat \<Rightarrow> bool list \<Rightarrow> pathfind_done cres option" where
  "pathfind_work t src dest reserved =
     (case dijkstra t src dest (replicate TRACK_MAX False) of
        Inl e \<Rightarrow> Some (Inl e)
      | Inr (result, prev) \<Rightarrow>
          if result = -1 then Some (Inr (no_path NO_PATH_AT_ALL))
          else
            (case dijkstra t src dest reserved of
               Inl e \<Rightarrow> Some (Inl e)
             | Inr (result, prev) \<Rightarrow>
                 if result = -1 then Some (Inr (no_path NO_PATH_WITH_RESERVE))
                 else read_path prev dest))"

subsection \<open>Reading a chain of predecessors\<close>

lemma chain_unique:
  "chain prev None (xs @ [v]) \<Longrightarrow> chain prev None (ys @ [v]) \<Longrightarrow> xs = ys"
proof (induction xs arbitrary: ys v rule: rev_induct)
  case Nil
  then show ?case by (auto simp: chain_snoc split: if_splits)
next
  case (snoc x xs)
  have last: "prev ! v = Some x" using snoc.prems(1) unfolding chain_snoc by simp
  then have "ys \<noteq> []" "last ys = x" using snoc.prems(2) by (auto simp: chain_snoc split: if_splits)
  then obtain zs where ys: "ys = zs @ [x]" by (metis append_butlast_last_id)
  have "chain prev None (xs @ [x])" "chain prev None (zs @ [x])"
    using snoc.prems unfolding ys by (simp_all only: chain_snoc)
  then show ?case using snoc.IH ys by blast
qed

lemma chain_prefix: "chain prev q (xs @ ys) \<Longrightarrow> chain prev q xs"
  by (induction xs arbitrary: q) auto

lemma chain_distinct: "chain prev None xs \<Longrightarrow> distinct xs"
proof (induction xs rule: rev_induct)
  case (snoc v xs)
  have "v \<notin> set xs"
  proof
    assume "v \<in> set xs"
    then obtain ys zs where xs: "xs = ys @ v # zs" by (meson split_list)
    have "chain prev None (ys @ [v])" using snoc.prems chain_prefix [of prev None "ys @ [v]"] xs by simp
    then have "xs = ys" using chain_unique snoc.prems by blast
    then show False using xs by simp
  qed
  moreover have "chain prev None xs" using snoc.prems by (simp only: chain_snoc)
  ultimately show ?case using snoc.IH by simp
qed simp

lemma chain_length:
  assumes "chain prev None xs" "length prev = TRACK_MAX"
  shows "length xs \<le> TRACK_MAX"
proof -
  have "set xs \<subseteq> {..<TRACK_MAX}"
    using assms by (induction xs rule: rev_induct) (auto simp: chain_snoc)
  then have "card (set xs) \<le> TRACK_MAX" using card_mono [of "{..<TRACK_MAX}"] by auto
  then show ?thesis using chain_distinct [OF assms(1)] by (simp add: distinct_card)
qed

lemma count_path_chain:
  "chain prev None xs \<Longrightarrow>
     count_path prev (if xs = [] then None else Some (last xs)) n = Some (Inr (n + length xs))"
proof (induction xs arbitrary: n rule: rev_induct)
  case Nil
  then show ?case by (simp add: count_path.simps)
next
  case (snoc v xs)
  have v: "v < length prev" "prev ! v = (if xs = [] then None else Some (last xs))"
    and xs: "chain prev None xs"
    using snoc.prems by (simp_all only: chain_snoc)
  have "count_path prev (Some v) n = count_path prev (prev ! v) (n + 1)"
    using v(1) by (subst count_path.simps) simp
  also have "\<dots> = Some (Inr (n + 1 + length xs))"
    unfolding v(2) by (rule snoc.IH [OF xs])
  finally show ?case by simp
qed

lemma fill_path_chain:
  "chain prev None xs \<Longrightarrow> length xs \<le> length path \<Longrightarrow>
     fill_path prev path (if xs = [] then None else Some (last xs)) (length xs)
     = Inr (map int xs @ drop (length xs) path)"
proof (induction xs arbitrary: path rule: rev_induct)
  case (snoc v xs)
  have v: "v < length prev" "prev ! v = (if xs = [] then None else Some (last xs))"
    and xs: "chain prev None xs"
    using snoc.prems by (simp_all only: chain_snoc)
  have "fill_path prev path (Some v) (length (xs @ [v])) =
      fill_path prev (path[length xs := int v]) (prev ! v) (length xs)"
    using v(1) snoc.prems(2) by simp
  also have "\<dots> = Inr (map int xs @ drop (length xs) (path[length xs := int v]))"
    unfolding v(2) by (rule snoc.IH [OF xs]) (use snoc.prems(2) in simp)
  also have "\<dots> = Inr (map int (xs @ [v]) @ drop (length (xs @ [v])) path)"
    using snoc.prems(2) by (simp add: drop_update_swap Cons_nth_drop_Suc [symmetric])
  finally show ?case by simp
qed simp

lemma read_path_chain:
  assumes "chain prev None (xs @ [dest])" "length prev = TRACK_MAX"
  shows "read_path prev dest = Some (Inr
    \<lparr> pd_result = FOUND_PATH,
      pd_path = map int (xs @ [dest]) @ replicate (TRACK_MAX - length (xs @ [dest])) 0,
      pd_path_len = length (xs @ [dest]) \<rparr>)"
  using count_path_chain [OF assms(1), of 0] chain_length [OF assms]
    fill_path_chain [OF assms(1), of "replicate TRACK_MAX 0"]
  by (simp add: read_path_def)

subsection \<open>What the worker answers\<close>

lemma pathfind_found:
  assumes "shortest_route t reserved src p dest" "chain prev None (src # map fst p)"
    and "length prev = TRACK_MAX"
  shows "\<exists>path. read_path prev dest = Some (Inr
      \<lparr> pd_result = FOUND_PATH, pd_path = path, pd_path_len = Suc (length p) \<rparr>) \<and>
    length path = TRACK_MAX \<and> take (Suc (length p)) path = map int (src # map fst p)"
proof -
  have "last (src # map fst p) = dest"
    using assms(1) walk_last by (fastforce simp: shortest_route_def route_def)
  then obtain xs where xs: "src # map fst p = xs @ [dest]"
    by (metis append_butlast_last_id list.distinct(1))
  have len: "length (xs @ [dest]) = Suc (length p)" by (simp only: xs [symmetric]) simp
  have "chain prev None (xs @ [dest])" using assms(2) by (simp only: xs)
  from read_path_chain [OF this assms(3)] chain_length [OF this assms(3)]
  show ?thesis unfolding xs len using len by auto
qed



end
