(* ===== verification/Machine.thy ===== *)
theory Machine
  imports C_String
begin

unbundle bit_operations_syntax

section \<open>Memory and processor state (src/hal/context.c, include/hal/context.h)\<close>

text \<open>
  The kernel copies messages and reads argument structs in the memory of its tasks: 32-bit
  addresses, bytes, little-endian words, as on the ARM of the board. A task is suspended as the
  register file \<open>return_swi\<close> and \<open>return_irq\<close> store (context.s); what runs between \<open>switch_user\<close> and the next
  trap is the user program, an input of the model.
\<close>

type_synonym addr = "32 word"
type_synonym memory = "addr \<Rightarrow> 8 word"

definition ld32 :: "memory \<Rightarrow> addr \<Rightarrow> 32 word" where
  "ld32 m a = ucast (m a) OR push_bit 8 (ucast (m (a + 1))) OR push_bit 16 (ucast (m (a + 2))) OR
     push_bit 24 (ucast (m (a + 3)))"

definition st32 :: "memory \<Rightarrow> addr \<Rightarrow> 32 word \<Rightarrow> memory" where
  "st32 m a v =
     m(a := ucast v, a + 1 := ucast (drop_bit 8 v), a + 2 := ucast (drop_bit 16 v),
       a + 3 := ucast (drop_bit 24 v))"

text \<open>An \<open>int\<close> in memory, and the characters of an array of \<open>n\<close> bytes.\<close>

definition ld_int :: "memory \<Rightarrow> addr \<Rightarrow> int" where
  "ld_int m a = sint (ld32 m a)"

definition ld_chars :: "memory \<Rightarrow> addr \<Rightarrow> nat \<Rightarrow> char list" where
  "ld_chars m a n = map (\<lambda>i. char_of (uint (m (a + of_nat i)))) [0..<n]"

subsection \<open>Tasks\<close>

record registers =
  r0 :: "32 word"
  r1 :: "32 word"
  r2 :: "32 word"
  r3 :: "32 word"
  r4 :: "32 word"
  r5 :: "32 word"
  r6 :: "32 word"
  r7 :: "32 word"
  r8 :: "32 word"
  r9 :: "32 word"
  r10 :: "32 word"
  r11 :: "32 word"
  r12 :: "32 word"
  r15 :: "32 word"
  r13 :: "32 word"
  r14 :: "32 word"
  psr :: "32 word"

definition STACK_SIZE :: nat where "STACK_SIZE = 8192"

text \<open>The stack itself is memory; the record keeps the two guards beside it and the registers.\<close>

record user_task =
  stack_check_a :: "32 word"
  stack_check_b :: "32 word"
  reg :: registers

text \<open>\<open>at\<close> is the address of the struct, \<open>exit_fn\<close> the address of the function \<open>Exit\<close>.\<close>

definition init_user_task :: "addr \<Rightarrow> addr \<Rightarrow> addr \<Rightarrow> user_task" where
  "init_user_task at exit_fn func =
     \<lparr> stack_check_a = at XOR 93, stack_check_b = at XOR 72,
       reg = \<lparr> r0 = 0, r1 = 0, r2 = 0, r3 = 0, r4 = 0, r5 = 0, r6 = 0, r7 = 0, r8 = 0, r9 = 0,
         r10 = 0, r11 = 0, r12 = 0, r15 = func,
         r13 = at + 4 + 4 * (of_nat STACK_SIZE - 1), r14 = exit_fn, psr = 16 \<rparr> \<rparr>"

definition get_data :: "user_task \<Rightarrow> 32 word" where
  "get_data t = r0 (reg t)"

definition set_return :: "user_task \<Rightarrow> 32 word \<Rightarrow> user_task" where
  "set_return t data = t\<lparr> reg := (reg t)\<lparr> r0 := data \<rparr> \<rparr>"

definition stack_checks :: "addr \<Rightarrow> user_task \<Rightarrow> string \<Rightarrow> unit cres" where
  "stack_checks at t when =
     cbind (kassert (stack_check_a t = at XOR 93) (''STACK '' @ when @ ''BROKEN_A'')) (\<lambda>_.
       kassert (stack_check_b t = at XOR 72) (''STACK '' @ when @ ''BROKEN_B''))"

definition SYSCALL_IRQ :: "32 word" where "SYSCALL_IRQ = 0"

text \<open>
  \<open>t'\<close> and \<open>m\<close> are the task and the memory when the user program traps back. The low bit of the saved
  program counter marks an interrupt; otherwise the number of the call is in the \<open>swi\<close> instruction
  before it.
\<close>

definition run_user ::
  "addr \<Rightarrow> user_task \<Rightarrow> user_task \<Rightarrow> memory \<Rightarrow> (32 word \<times> user_task) cres" where
  "run_user at t t' m =
     cbind (stack_checks at t ''PRE'') (\<lambda>_.
     cbind (stack_checks at t' ''POST'') (\<lambda>_.
       if odd (r15 (reg t'))
       then Inr (SYSCALL_IRQ, t'\<lparr> reg := (reg t')\<lparr> r15 := r15 (reg t') - 1 \<rparr> \<rparr>)
       else Inr (ld32 m (r15 (reg t') - 4) AND 0xFFFFFF, t')))"

subsection \<open>Loads and stores\<close>

lemma word_plus_neq [simp]:
  "(a :: 32 word) + 1 \<noteq> a" "a + 2 \<noteq> a" "a + 3 \<noteq> a"
  by simp_all

lemma ld32_st32 [simp]: "ld32 (st32 m a v) a = v"
proof (rule bit_word_eqI)
  fix n :: nat
  assume "n < LENGTH(32)"
  then have n: "n < 32" by simp
  consider "n < 8" | "8 \<le> n" "n < 16" | "16 \<le> n" "n < 24" | "24 \<le> n" by linarith
  then show "bit (ld32 (st32 m a v) a) n \<longleftrightarrow> bit v n"
    by cases (use n in \<open>auto simp: ld32_def st32_def bit_simps\<close>)
qed

lemma ld32_cong:
  "m a = m' a \<Longrightarrow> m (a + 1) = m' (a + 1) \<Longrightarrow> m (a + 2) = m' (a + 2) \<Longrightarrow> m (a + 3) = m' (a + 3) \<Longrightarrow>
     ld32 m a = ld32 m' a"
  by (simp add: ld32_def)

lemma set_return_sel [simp]:
  "get_data (set_return t v) = v"
  "stack_check_a (set_return t v) = stack_check_a t"
  "stack_check_b (set_return t v) = stack_check_b t"
  by (simp_all add: get_data_def set_return_def)

text \<open>The bytes of an area of memory, which may wrap around the address space.\<close>

definition area :: "addr \<Rightarrow> nat \<Rightarrow> addr set" where
  "area a n = (\<lambda>i. a + of_nat i) ` {..<n}"

lemma areaI: "i < n \<Longrightarrow> a + of_nat i \<in> area a n"
  by (auto simp: area_def)

lemma area_4: "area a 4 = {a, a + 1, a + 2, a + 3}"
proof -
  have "{..<4} = {0, 1, 2, 3 :: nat}" by auto
  then show ?thesis by (simp add: area_def)
qed

lemma area_word:
  assumes "4 * i + 4 \<le> n"
  shows "area (a + 4 * of_nat i) 4 \<subseteq> area a n"
proof
  fix x assume "x \<in> area (a + 4 * of_nat i) 4"
  then obtain j where "j < 4" "x = a + of_nat (4 * i + j)" by (auto simp: area_def)
  then show "x \<in> area a n" using assms areaI [of "4 * i + j" n a] by simp
qed

lemma area_disjoint:
  assumes "unat a + n \<le> unat b" "unat b + m \<le> 2 ^ 32"
  shows "area a n \<inter> area b m = {}"
proof -
  have "a + of_nat i \<noteq> b + of_nat j" if "i < n" "j < m" for i j
  proof -
    have "unat (a + of_nat i) = unat a + i" "unat (b + of_nat j) = unat b + j"
      using assms that by (simp_all add: unat_word_ariths unat_of_nat)
    moreover have "unat a + i \<noteq> unat b + j" using assms(1) that(1) by linarith
    ultimately show ?thesis by metis
  qed
  then show ?thesis by (auto simp: area_def)
qed

lemma st32_other: "x \<notin> area a 4 \<Longrightarrow> st32 m a v x = m x"
  by (simp add: st32_def area_4)

lemma ld32_area: "(\<And>x. x \<in> area a 4 \<Longrightarrow> m' x = m x) \<Longrightarrow> ld32 m' a = ld32 m a"
  by (intro ld32_cong) (simp_all add: area_4)

lemma ld32_st32_other: "area b 4 \<inter> area a 4 = {} \<Longrightarrow> ld32 (st32 m a v) b = ld32 m b"
  by (intro ld32_area st32_other) auto

end
