(* ===== verification/Scheduler.thy ===== *)
theory Scheduler
  imports Machine Array_Heap
begin

section \<open>Task descriptors and the ready queue (src/kernel/task.c)\<close>

text \<open>
  The array of task descriptors, the list of free ones, and the ready queue: a binary heap of
  pointers to descriptors, the task to run next at its root. A pointer to a descriptor is its index
  in the array. The 32-bit timer counts down, so of two tasks of one priority the one with the
  larger \<open>added_time\<close> was added earlier. \<open>read_timer(TIMER3, ...)\<close> is an input: the argument \<open>now\<close> of
  the operations that read the clock.
\<close>

datatype tcb_state = ACTIVE | READY | ZOMBIE | SEND | RECEIVE | REPLY | EVENT

definition MAX_NUM_TASKS :: nat where "MAX_NUM_TASKS = 125"
definition MAX_TASK_NAME_LEN :: nat where "MAX_TASK_NAME_LEN = 30"
definition ENOTASKDESCRIPTORS :: int where "ENOTASKDESCRIPTORS = -2"

type_synonym tcb_ptr = "nat option"

record tcb =
  t_next :: tcb_ptr
  task_name :: "char list"
  t_tid :: int
  t_priority :: int
  t_state :: tcb_state
  parentTid :: int
  t_context :: user_task
  added_time :: "32 word"
  want_send :: tcb_ptr
  want_send_end :: tcb_ptr

text \<open>The globals of task.c; \<open>count\<close> is \<open>rq_count\<close> here.\<close>

record scheduler =
  blocks :: "tcb list"
  free_tcb :: tcb_ptr
  capacity :: nat
  ready_queue :: "nat list"
  rq_count :: nat

text \<open>Where the linker and the compiler put a task's context and the function \<open>Exit\<close>.\<close>

record layout =
  ctx_at :: "nat \<Rightarrow> addr"
  exit_at :: addr

definition upd_tcb :: "scheduler \<Rightarrow> nat \<Rightarrow> (tcb \<Rightarrow> tcb) \<Rightarrow> scheduler cres" where
  "upd_tcb s i f =
     cbind (rd (blocks s) i) (\<lambda>t. cbind (wr (blocks s) i (f t)) (\<lambda>b. Inr (s\<lparr> blocks := b \<rparr>)))"

definition upd_blocks :: "tcb list \<Rightarrow> nat \<Rightarrow> (tcb \<Rightarrow> tcb) \<Rightarrow> tcb list cres" where
  "upd_blocks b i f = cbind (rd b i) (\<lambda>t. wr b i (f t))"

text \<open>With a capacity of 0 the bound \<open>cap - 1\<close> of the second loop would wrap around.\<close>

definition scheduler_init :: "nat \<Rightarrow> tcb list \<Rightarrow> nat list \<Rightarrow> scheduler cres" where
  "scheduler_init cap bs rq =
     cbind (cfold (\<lambda>b i. upd_blocks b i (\<lambda>t. t\<lparr> t_state := ZOMBIE, t_tid := int i,
       want_send := None, want_send_end := None \<rparr>)) bs [0..<cap]) (\<lambda>b1.
     if cap = 0 then Inl Out_Of_Bounds
     else
       cbind (cfold (\<lambda>b i. upd_blocks b i (\<lambda>t. t\<lparr> t_next := Some (i + 1) \<rparr>)) b1 [0..<cap - 1])
         (\<lambda>b2.
       cbind (upd_blocks b2 (cap - 1) (\<lambda>t. t\<lparr> t_next := None \<rparr>)) (\<lambda>b3.
         Inr \<lparr> blocks = b3, free_tcb = Some 0, capacity = cap, ready_queue = rq,
               rq_count = 0 \<rparr>)))"

definition swap_ready :: "scheduler \<Rightarrow> nat \<Rightarrow> nat \<Rightarrow> scheduler cres" where
  "swap_ready s a b =
     cbind (rd (ready_queue s) a) (\<lambda>x.
     cbind (rd (ready_queue s) b) (\<lambda>y.
     cbind (wr (ready_queue s) a y) (\<lambda>rq.
     cbind (wr rq b x) (\<lambda>rq'. Inr (s\<lparr> ready_queue := rq' \<rparr>)))))"

definition cmp_priority :: "scheduler \<Rightarrow> nat \<Rightarrow> nat \<Rightarrow> int cres" where
  "cmp_priority s a b =
     cbind (rd (ready_queue s) a) (\<lambda>p. cbind (rd (blocks s) p) (\<lambda>x.
     cbind (rd (ready_queue s) b) (\<lambda>q. cbind (rd (blocks s) q) (\<lambda>y.
       Inr (if t_priority x > t_priority y then 1
            else if t_priority x < t_priority y then -1
            else if added_time x > added_time y then 1
            else -1)))))"

text \<open>\<open>j < count && cmp_priority(j, largest) == 1\<close>\<close>

definition child_wins :: "scheduler \<Rightarrow> nat \<Rightarrow> nat \<Rightarrow> bool cres" where
  "child_wins s j largest =
     (if j < rq_count s then cbind (cmp_priority s j largest) (\<lambda>c. Inr (c = 1)) else Inr False)"

lemma swap_ready_count: "swap_ready s a b = Inr s' \<Longrightarrow> rq_count s' = rq_count s"
  by (auto simp: swap_ready_def c_simps)

lemma child_wins_less: "child_wins s j k = Inr True \<Longrightarrow> j < rq_count s"
  by (simp add: child_wins_def split: if_splits)

function top_down_heapify :: "scheduler \<Rightarrow> nat \<Rightarrow> scheduler cres" where
  "top_down_heapify s i =
     (let l = 2 * i + 1; r = 2 * i + 2 in
      cbind (child_wins s l i) (\<lambda>lw.
      let largest = (if lw then l else i) in
      cbind (child_wins s r largest) (\<lambda>rw.
      let largest' = (if rw then r else largest) in
      if largest' \<noteq> i
      then cbind (swap_ready s i largest') (\<lambda>s'. top_down_heapify s' largest')
      else Inr s)))"
  by pat_completeness auto
termination
  by (relation "measure (\<lambda>(s, i). rq_count s - i)")
     (auto dest!: child_wins_less swap_ready_count)

declare top_down_heapify.simps [simp del]

function sift_up :: "scheduler \<Rightarrow> nat \<Rightarrow> scheduler cres" where
  "sift_up s i =
     (if i = 0 then Inr s
      else
        cbind (cmp_priority s i ((i - 1) div 2)) (\<lambda>c.
        if c = 1
        then cbind (swap_ready s i ((i - 1) div 2)) (\<lambda>s'. sift_up s' ((i - 1) div 2))
        else Inr s))"
  by pat_completeness auto
termination
  by (relation "measure snd") auto

declare sift_up.simps [simp del]

definition add_to_ready_queue :: "scheduler \<Rightarrow> tcb_ptr \<Rightarrow> 32 word \<Rightarrow> scheduler cres" where
  "add_to_ready_queue s tp now =
     cbind (kassert (tp \<noteq> None) ''TCB should not be NULL'') (\<lambda>_.
     cbind (kassert (rq_count s < capacity s) ''Ready queue should have space to add'') (\<lambda>_.
     cbind (deref tp) (\<lambda>t.
     cbind (upd_tcb s t (\<lambda>x. x\<lparr> added_time := now \<rparr>)) (\<lambda>s1.
     let i = rq_count s1 in
     cbind (wr (ready_queue s1) i t) (\<lambda>rq.
       sift_up (s1\<lparr> rq_count := rq_count s1 + 1, ready_queue := rq \<rparr>) i)))))"

definition pop_ready_queue :: "scheduler \<Rightarrow> (nat \<times> scheduler) cres" where
  "pop_ready_queue s =
     cbind (kassert (rq_count s > 0) ''Ready queue should contain TCB's to pop'') (\<lambda>_.
     cbind (rd (ready_queue s) 0) (\<lambda>ret.
     if rq_count s = 1 then Inr (ret, s\<lparr> rq_count := 0 \<rparr>)
     else
       cbind (rd (ready_queue s) (rq_count s - 1)) (\<lambda>x.
       cbind (wr (ready_queue s) 0 x) (\<lambda>rq.
       cbind (top_down_heapify (s\<lparr> ready_queue := rq, rq_count := rq_count s - 1 \<rparr>) 0) (\<lambda>s'.
         Inr (ret, s'))))))"

text \<open>\<open>name\<close> holds the characters from the pointer to the end of the array it lies in.\<close>

definition scheduler_add ::
  "layout \<Rightarrow> scheduler \<Rightarrow> int \<Rightarrow> addr \<Rightarrow> int \<Rightarrow> char list \<Rightarrow> 32 word \<Rightarrow> (int \<times> scheduler) cres" where
  "scheduler_add lay s priority func parent name now =
     (case free_tcb s of
        None \<Rightarrow> Inr (ENOTASKDESCRIPTORS, s)
      | Some ret \<Rightarrow>
          cbind (rd (blocks s) ret) (\<lambda>t.
          cbind (strncpy (task_name t) name MAX_TASK_NAME_LEN) (\<lambda>nm.
          cbind (upd_tcb (s\<lparr> free_tcb := t_next t \<rparr>) ret (\<lambda>t. t\<lparr> t_next := None,
            parentTid := parent, t_priority := priority, t_state := READY, task_name := nm,
            t_context := init_user_task (ctx_at lay ret) (exit_at lay) func \<rparr>)) (\<lambda>s1.
          cbind (add_to_ready_queue s1 (Some ret) now) (\<lambda>s2.
          cbind (rd (blocks s2) ret) (\<lambda>t'. Inr (t_tid t', s2)))))))"

definition free_task :: "scheduler \<Rightarrow> nat \<Rightarrow> scheduler cres" where
  "free_task s i =
     cbind (upd_tcb s i (\<lambda>t. t\<lparr> t_next := free_tcb s \<rparr>)) (\<lambda>s'. Inr (s'\<lparr> free_tcb := Some i \<rparr>))"

definition scheduler_length :: "scheduler \<Rightarrow> nat" where
  "scheduler_length s = rq_count s"

subsection \<open>The order of the queue\<close>

text \<open>What the order depends on: priority, time of addition; the index tells tasks apart.\<close>

type_synonym entry = "int \<times> 32 word \<times> nat"

definition before :: "entry \<Rightarrow> entry \<Rightarrow> bool" where
  "before = (\<lambda>(p, a, i) (q, b, j). q < p \<or> p = q \<and> b \<le> a)"

definition entry_of :: "tcb list \<Rightarrow> nat \<Rightarrow> entry" where
  "entry_of bs i = (t_priority (bs ! i), added_time (bs ! i), i)"

lemma entry_of_update [simp]: "i \<noteq> t \<Longrightarrow> entry_of (bs[t := x]) i = entry_of bs i"
  by (simp add: entry_of_def)

interpretation task_order: heap_order "\<lambda>x y. before (f x) (f y)"
  for f :: "'a \<Rightarrow> entry"
  by unfold_locales (auto simp: before_def split: prod.splits)

abbreviation queue_le :: "tcb list \<Rightarrow> nat \<Rightarrow> nat \<Rightarrow> bool" where
  "queue_le bs i j \<equiv> before (entry_of bs i) (entry_of bs j)"

definition queued :: "scheduler \<Rightarrow> nat list" where
  "queued s = take (rq_count s) (ready_queue s)"

definition sched_inv :: "scheduler \<Rightarrow> bool" where
  "sched_inv s \<longleftrightarrow>
     rq_count s \<le> capacity s \<and> length (ready_queue s) = capacity s \<and>
     length (blocks s) = capacity s \<and> (\<forall>i \<in> set (queued s). i < capacity s) \<and>
     distinct (queued s) \<and> heap_ok (queue_le (blocks s)) (ready_queue s) (rq_count s)"

definition queue_bag :: "scheduler \<Rightarrow> entry multiset" where
  "queue_bag s = image_mset (entry_of (blocks s)) (mset (queued s))"

text \<open>The queue part of the invariant, which the two loops need.\<close>

definition queue_ok :: "scheduler \<Rightarrow> bool" where
  "queue_ok s \<longleftrightarrow> rq_count s \<le> length (ready_queue s) \<and> (\<forall>i \<in> set (queued s). i < length (blocks s))"

lemma queue_ok_nth:
  "queue_ok s \<Longrightarrow> i < rq_count s \<Longrightarrow> i < length (ready_queue s) \<and> ready_queue s ! i < length (blocks s)"
  using nth_mem [of i "queued s"] by (auto simp: queue_ok_def queued_def)

lemma cmp_priority_ok:
  assumes "queue_ok s" "a < rq_count s" "b < rq_count s"
  shows "cmp_priority s a b =
    Inr (if queue_le (blocks s) (ready_queue s ! b) (ready_queue s ! a) then -1 else 1)"
  using queue_ok_nth [OF assms(1,2)] queue_ok_nth [OF assms(1,3)]
  by (auto simp: cmp_priority_def before_def entry_of_def)

lemma swap_ready_ok:
  assumes "queue_ok s" "a < rq_count s" "b < rq_count s"
  shows "swap_ready s a b = Inr (s\<lparr> ready_queue := swapl (ready_queue s) a b \<rparr>)"
    "queue_ok (s\<lparr> ready_queue := swapl (ready_queue s) a b \<rparr>)"
proof -
  show "swap_ready s a b = Inr (s\<lparr> ready_queue := swapl (ready_queue s) a b \<rparr>)"
    using queue_ok_nth [OF assms(1,2)] queue_ok_nth [OF assms(1,3)]
    by (simp add: swap_ready_def swapl_def)
  have "rq_count s \<le> length (ready_queue s)" using assms(1) by (simp add: queue_ok_def)
  then have "mset (take (rq_count s) (swapl (ready_queue s) a b)) = mset (queued s)"
    using assms(2,3) by (simp add: queued_def)
  then have "set (take (rq_count s) (swapl (ready_queue s) a b)) = set (queued s)"
    by (metis set_mset_mset)
  then show "queue_ok (s\<lparr> ready_queue := swapl (ready_queue s) a b \<rparr>)"
    using assms(1) by (simp add: queue_ok_def queued_def)
qed

text \<open>What a loop that reorders the queue of \<open>s\<close> ends with.\<close>

definition reordered :: "scheduler \<Rightarrow> scheduler cres \<Rightarrow> bool" where
  "reordered s r \<longleftrightarrow>
     (\<exists>rq. r = Inr (s\<lparr> ready_queue := rq \<rparr>) \<and> length rq = length (ready_queue s) \<and>
        mset (take (rq_count s) rq) = mset (queued s) \<and>
        heap_ok (queue_le (blocks s)) rq (rq_count s))"

lemma reordered_swap:
  assumes "reordered (s\<lparr> ready_queue := swapl (ready_queue s) a b \<rparr>) r"
    and "queue_ok s" "a < rq_count s" "b < rq_count s"
  shows "reordered s r"
  using assms by (auto simp: reordered_def queued_def queue_ok_def)

lemma sift_up_ok:
  assumes "queue_ok s" "i < rq_count s" "up_ok (queue_le (blocks s)) (ready_queue s) (rq_count s) i"
  shows "reordered s (sift_up s i)"
  using assms
proof (induction i arbitrary: s rule: less_induct)
  case (less i)
  note step = less.prems
  show ?case
  proof (cases "i = 0 \<or> queue_le (blocks s) (ready_queue s ! up i) (ready_queue s ! i)")
    case True
    have "sift_up s i = Inr s"
    proof (cases "i = 0")
      case False
      then have "up i < rq_count s" using step(2) up_less [of i] by linarith
      then show ?thesis
        using True False cmp_priority_ok [OF step(1,2), of "up i"]
        by (subst sift_up.simps) (simp add: up_def)
    qed (simp add: sift_up.simps)
    moreover have "heap_ok (queue_le (blocks s)) (ready_queue s) (rq_count s)"
      using task_order.up_done [OF step(3)] True by auto
    ultimately show ?thesis
      by (auto simp: reordered_def queued_def intro!: exI [of _ "ready_queue s"])
  next
    case False
    then have i: "0 < i" "up i < i" by (auto intro: up_less)
    then have u: "up i < rq_count s" using step(2) by simp
    let ?s = "s\<lparr> ready_queue := swapl (ready_queue s) i (up i) \<rparr>"
    note swap = swap_ready_ok [OF step(1,2) u]
    have loop: "sift_up s i = sift_up ?s (up i)"
      using False i cmp_priority_ok [OF step(1,2) u] swap(1)
      by (subst sift_up.simps) (simp add: up_def)
    have "queue_le (blocks s) (ready_queue s ! i) (ready_queue s ! up i)"
      using False task_order.total [of "entry_of (blocks s)"] by blast
    then have "up_ok (queue_le (blocks s)) (swapl (ready_queue s) i (up i)) (rq_count s) (up i)"
      using step i by (intro task_order.up_step) (auto simp: queue_ok_def)
    then have "reordered ?s (sift_up ?s (up i))"
      using less.IH [OF i(2) swap(2)] u by simp
    then show ?thesis using reordered_swap [OF _ step(1,2) u] loop by simp
  qed
qed

lemma child_wins_ok:
  assumes "queue_ok s" "k < rq_count s"
  shows "child_wins s j k = Inr (j < rq_count s \<and>
    \<not> queue_le (blocks s) (ready_queue s ! k) (ready_queue s ! j))"
  using cmp_priority_ok [OF assms(1) _ assms(2), of j] by (simp add: child_wins_def)

text \<open>The cell \<open>largest\<close> of an iteration: the least of the cell and its children in the order.\<close>

definition heapify_target :: "scheduler \<Rightarrow> nat \<Rightarrow> nat" where
  "heapify_target s i =
     (let wins = (\<lambda>j k. j < rq_count s \<and>
            \<not> queue_le (blocks s) (ready_queue s ! k) (ready_queue s ! j));
          k = (if wins (2 * i + 1) i then 2 * i + 1 else i)
      in if wins (2 * i + 2) k then 2 * i + 2 else k)"

lemma heapify_target:
  assumes "queue_ok s" "i < rq_count s"
  shows "heapify_target s i < rq_count s"
    "top_down_heapify s i =
      (let k = heapify_target s i in
       if k = i then Inr s
       else cbind (swap_ready s i k) (\<lambda>s'. top_down_heapify s' k))"
    "heapify_target s i = i \<or> (up (heapify_target s i) = i \<and> i < heapify_target s i)"
  using assms child_wins_ok [OF assms(1), of i "2 * i + 1"]
    child_wins_ok [OF assms(1), of i "2 * i + 2"]
    child_wins_ok [OF assms(1), of "2 * i + 1" "2 * i + 2"]
  by (auto simp: heapify_target_def Let_def up_def top_down_heapify.simps [of s i])

lemma heapify_target_le:
  assumes "up j = i" "0 < j" "j < rq_count s"
  shows "queue_le (blocks s) (ready_queue s ! heapify_target s i) (ready_queue s ! j)"
    and "queue_le (blocks s) (ready_queue s ! heapify_target s i) (ready_queue s ! i)"
proof -
  let ?le = "\<lambda>j k. queue_le (blocks s) (ready_queue s ! j) (ready_queue s ! k)"
  let ?k = "heapify_target s i"
  define k where "k = (if 2 * i + 1 < rq_count s \<and> \<not> ?le i (2 * i + 1) then 2 * i + 1 else i)"
  have t: "?k = (if 2 * i + 2 < rq_count s \<and> \<not> ?le k (2 * i + 2) then 2 * i + 2 else k)"
    by (simp add: heapify_target_def k_def Let_def)
  have total: "?le a b \<or> ?le b a" for a b by (rule task_order.total)
  have trans: "?le a b \<Longrightarrow> ?le b c \<Longrightarrow> ?le a c" for a b c by (rule task_order.trans)
  have k: "?le k i" "2 * i + 1 < rq_count s \<longrightarrow> ?le k (2 * i + 1)"
    using total by (auto simp: k_def)
  have kt: "?le ?k k" "2 * i + 2 < rq_count s \<longrightarrow> ?le ?k (2 * i + 2)"
    using total by (auto simp: t)
  show "?le ?k i" using trans [OF kt(1) k(1)] .
  have "j = 2 * i + 1 \<or> j = 2 * i + 2" using assms(1,2) up_eq_iff by blast
  then show "?le ?k j" using k kt trans [OF kt(1)] assms(3) by auto
qed

lemma top_down_heapify_ok:
  assumes "queue_ok s" "i < rq_count s" "down_ok (queue_le (blocks s)) (ready_queue s) (rq_count s) i"
  shows "reordered s (top_down_heapify s i)"
  using assms
proof (induction "rq_count s - i" arbitrary: s i rule: less_induct)
  case less
  note step = less.prems
  let ?k = "heapify_target s i"
  show ?case
  proof (cases "?k = i")
    case True
    have le: "queue_le (blocks s) (ready_queue s ! i) (ready_queue s ! j)"
      if "up j = i" "0 < j" "j < rq_count s" for j
      using heapify_target_le(1) [OF that] True by simp
    have "heap_ok (queue_le (blocks s)) (ready_queue s) (rq_count s)"
      using le [of "2 * i + 1"] le [of "2 * i + 2"]
      by (intro task_order.down_done [OF step(3)]) (auto simp: up_def)
    then show ?thesis
      using heapify_target(2) [OF step(1,2)] True
      by (auto simp: reordered_def queued_def intro!: exI [of _ "ready_queue s"])
  next
    case False
    note k = heapify_target(1) [OF step(1,2)]
    have upk: "up ?k = i" "i < ?k" using heapify_target(3) [OF step(1,2)] False by auto
    let ?s = "s\<lparr> ready_queue := swapl (ready_queue s) i ?k \<rparr>"
    note swap = swap_ready_ok [OF step(1,2) k]
    have "down_ok (queue_le (blocks s)) (swapl (ready_queue s) i ?k) (rq_count s) ?k"
      using step upk k heapify_target_le
      by (intro task_order.down_step) (auto simp: queue_ok_def)
    then have "reordered ?s (top_down_heapify ?s ?k)"
      using less.hyps [of ?s ?k] swap(2) k upk by simp
    moreover have "top_down_heapify s i = top_down_heapify ?s ?k"
      using heapify_target(2) [OF step(1,2)] False swap(1) by (simp add: Let_def)
    ultimately show ?thesis using reordered_swap [OF _ step(1,2) k] by simp
  qed
qed

subsection \<open>Adding and removing tasks\<close>

lemma queue_le_cong:
  "(\<And>i. i \<in> set (take n xs) \<Longrightarrow> entry_of bs i = entry_of bs' i) \<Longrightarrow> n \<le> length xs \<Longrightarrow>
     heap_ok (queue_le bs) xs n = heap_ok (queue_le bs') xs n"
  by (intro iffI; erule heap_ok_mono; metis in_set_conv_nth length_take min.absorb2 nth_take)

text \<open>A task that is not queued is put into the queue; nothing but its \<open>added_time\<close> changes.\<close>

lemma add_to_ready_queue_ok:
  assumes inv: "sched_inv s" and room: "rq_count s < capacity s"
    and t: "t < capacity s" "t \<notin> set (queued s)"
  obtains rq where "add_to_ready_queue s (Some t) now = Inr (s\<lparr> blocks := (blocks s)[t := (blocks s ! t)\<lparr> added_time := now \<rparr>],
      rq_count := rq_count s + 1, ready_queue := rq \<rparr>)"
    "sched_inv (s\<lparr> blocks := (blocks s)[t := (blocks s ! t)\<lparr> added_time := now \<rparr>],
      rq_count := rq_count s + 1, ready_queue := rq \<rparr>)"
    "mset (take (rq_count s + 1) rq) = add_mset t (mset (queued s))"
proof -
  let ?n = "rq_count s" and ?bs = "(blocks s)[t := (blocks s ! t)\<lparr> added_time := now \<rparr>]"
  let ?rq = "(ready_queue s)[?n := t]"
  let ?s = "s\<lparr> blocks := ?bs, rq_count := ?n + 1, ready_queue := ?rq \<rparr>"
  have len: "length (ready_queue s) = capacity s" "length (blocks s) = capacity s"
    using inv by (auto simp: sched_inv_def)
  have same: "entry_of ?bs i = entry_of (blocks s) i" if "i \<in> set (queued s)" for i
    using that t by (intro entry_of_update) auto
  have old: "heap_ok (queue_le ?bs) (ready_queue s) ?n"
    using inv len room same queue_le_cong [of ?n "ready_queue s" ?bs "blocks s"]
    by (simp add: sched_inv_def queued_def)
  have up: "up_ok (queue_le ?bs) ?rq (?n + 1) ?n"
    using task_order.up_init [OF old, of t] room len by simp
  have take: "take (?n + 1) ?rq = queued s @ [t]"
    using room len by (simp add: queued_def take_Suc_conv_app_nth)
  have "queue_ok ?s"
    using inv t len room take by (auto simp: queue_ok_def queued_def sched_inv_def)
  then have "reordered ?s (sift_up ?s ?n)"
    by (rule sift_up_ok) (use up in simp_all)
  then obtain rq where rq: "sift_up ?s ?n = Inr (?s\<lparr> ready_queue := rq \<rparr>)"
    "length rq = capacity s" "mset (take (?n + 1) rq) = add_mset t (mset (queued s))"
    "heap_ok (queue_le ?bs) rq (?n + 1)"
    using take len by (auto simp: reordered_def queued_def)
  have mem: "set (take (?n + 1) rq) = insert t (set (queued s))"
    using rq(3) by (metis set_mset_add_mset_insert set_mset_mset)
  have dist: "distinct (take (?n + 1) rq)"
  proof -
    have "mset (take (?n + 1) rq) = mset (t # queued s)" using rq(3) by simp
    moreover have "distinct (t # queued s)" using inv t by (simp add: sched_inv_def)
    ultimately show ?thesis by (metis mset_eq_imp_distinct_iff)
  qed
  have "sched_inv (s\<lparr> blocks := ?bs, rq_count := ?n + 1, ready_queue := rq \<rparr>)"
    using inv rq room t len mem dist by (simp add: sched_inv_def queued_def)
  moreover have "add_to_ready_queue s (Some t) now =
      Inr (s\<lparr> blocks := ?bs, rq_count := ?n + 1, ready_queue := rq \<rparr>)"
    using rq(1) room t len by (simp add: add_to_ready_queue_def upd_tcb_def Let_def)
  ultimately show ?thesis using that rq(3) by blast
qed

lemma pop_ready_queue_ok:
  assumes inv: "sched_inv s" and ne: "0 < rq_count s"
  obtains rq where
    "pop_ready_queue s = Inr (ready_queue s ! 0, s\<lparr> ready_queue := rq, rq_count := rq_count s - 1 \<rparr>)"
    "sched_inv (s\<lparr> ready_queue := rq, rq_count := rq_count s - 1 \<rparr>)"
    "mset (queued s) = add_mset (ready_queue s ! 0) (mset (take (rq_count s - 1) rq))"
proof (cases "rq_count s = 1")
  case True
  then show ?thesis
    using that [of "ready_queue s"] inv
    by (cases "ready_queue s")
       (auto simp: pop_ready_queue_def sched_inv_def queued_def heap_ok_def)
next
  case False
  define n where "n = rq_count s - 1"
  let ?x = "ready_queue s ! n" and ?root = "ready_queue s ! 0"
  let ?rq = "(ready_queue s)[0 := ?x]"
  let ?s = "s\<lparr> ready_queue := ?rq, rq_count := n \<rparr>"
  have n: "0 < n" "rq_count s = Suc n" "n < length (ready_queue s)" "length (blocks s) = capacity s"
    using False ne inv by (auto simp: n_def sched_inv_def)
  have bag: "mset (queued s) = add_mset ?root (mset (take n ?rq))"
    using n by (cases "ready_queue s")
      (auto simp: queued_def take_Suc_conv_app_nth take_Cons' nth_Cons' less_Suc_eq_0_disj)
  have sub: "set (take n ?rq) \<subseteq> set (queued s)"
    using bag by (metis set_mset_add_mset_insert set_mset_mset subset_insertI)
  have "queue_ok ?s" using inv n sub by (auto simp: queue_ok_def queued_def sched_inv_def)
  moreover have "down_ok (queue_le (blocks s)) ?rq n 0"
    using inv n heap_ok_less [of _ "ready_queue s" "rq_count s" n]
    by (intro task_order.down_init) (simp add: sched_inv_def)
  ultimately have "reordered ?s (top_down_heapify ?s 0)"
    using n by (intro top_down_heapify_ok) simp_all
  then obtain rq where rq: "top_down_heapify ?s 0 = Inr (?s\<lparr> ready_queue := rq \<rparr>)"
    "length rq = length (ready_queue s)" "mset (take n rq) = mset (take n ?rq)"
    "heap_ok (queue_le (blocks s)) rq n"
    by (auto simp: reordered_def queued_def)
  have bag': "mset (queued s) = mset (?root # take n rq)" using bag rq(3) by simp
  then have "distinct (?root # take n rq)" "set (queued s) = set (?root # take n rq)"
    using inv mset_eq_imp_distinct_iff [OF bag'] mset_eq_setD [OF bag']
    by (simp_all only: sched_inv_def)
  then have "sched_inv (s\<lparr> ready_queue := rq, rq_count := n \<rparr>)"
    using inv rq(2,4) n by (auto simp: sched_inv_def queued_def)
  moreover have "pop_ready_queue s = Inr (?root, s\<lparr> ready_queue := rq, rq_count := n \<rparr>)"
    using rq(1) n less_trans [OF n(1,3)] by (simp add: pop_ready_queue_def)
  ultimately show ?thesis using that [of rq] bag' by (simp add: n_def)
qed

subsection \<open>The ready queue as a priority queue\<close>

text \<open>Results of the operations with the fault branch dropped.\<close>

definition rq_ins :: "scheduler \<Rightarrow> entry \<Rightarrow> scheduler" where
  "rq_ins s = (\<lambda>(p, now, t). case add_to_ready_queue s (Some t) now of Inr s' \<Rightarrow> s' | Inl _ \<Rightarrow> s)"

definition rq_del :: "scheduler \<Rightarrow> scheduler" where
  "rq_del s = (case pop_ready_queue s of Inr (_, s') \<Rightarrow> s' | Inl _ \<Rightarrow> s)"

definition rq_top :: "scheduler \<Rightarrow> entry" where
  "rq_top s = entry_of (blocks s) (ready_queue s ! 0)"

text \<open>An entry a task may be queued under: its own priority, and not queued yet.\<close>

definition fits :: "scheduler \<Rightarrow> entry \<Rightarrow> bool" where
  "fits s = (\<lambda>(p, now, t). t < capacity s \<and> t \<notin> set (queued s) \<and> t_priority (blocks s ! t) = p)"

lemma rq_ins_ok:
  assumes "sched_inv s" "rq_count s < capacity s" "fits s e"
  shows "sched_inv (rq_ins s e)" "queue_bag (rq_ins s e) = add_mset e (queue_bag s)"
proof -
  obtain p now t where e: "e = (p, now, t)" by (metis prod_cases3)
  have t: "t < capacity s" "t \<notin> set (queued s)" "t_priority (blocks s ! t) = p"
    using assms(3) e by (auto simp: fits_def)
  let ?bs = "(blocks s)[t := (blocks s ! t)\<lparr> added_time := now \<rparr>]"
  obtain rq where rq: "add_to_ready_queue s (Some t) now =
      Inr (s\<lparr> blocks := ?bs, rq_count := rq_count s + 1, ready_queue := rq \<rparr>)"
    "sched_inv (s\<lparr> blocks := ?bs, rq_count := rq_count s + 1, ready_queue := rq \<rparr>)"
    "mset (take (rq_count s + 1) rq) = add_mset t (mset (queued s))"
    using add_to_ready_queue_ok [OF assms(1,2) t(1,2)] by metis
  have "length (blocks s) = capacity s" using assms(1) by (simp add: sched_inv_def)
  then have "entry_of ?bs t = e" using t e by (simp add: entry_of_def)
  moreover have "image_mset (entry_of ?bs) (mset (queued s)) = queue_bag s"
    unfolding queue_bag_def using t(2) by (intro image_mset_cong entry_of_update) auto
  ultimately show "queue_bag (rq_ins s e) = add_mset e (queue_bag s)" "sched_inv (rq_ins s e)"
    using rq e by (simp_all add: rq_ins_def queue_bag_def queued_def)
qed

lemma queue_bag_empty: "sched_inv s \<Longrightarrow> queue_bag s = {#} \<longleftrightarrow> rq_count s = 0"
  by (auto simp: queue_bag_def queued_def sched_inv_def)

lemma rq_del_ok:
  assumes "sched_inv s" "queue_bag s \<noteq> {#}"
  shows "pop_ready_queue s = Inr (ready_queue s ! 0, rq_del s)" "sched_inv (rq_del s)"
    "queue_bag s = add_mset (rq_top s) (queue_bag (rq_del s))" "blocks (rq_del s) = blocks s"
    "mset (queued s) = add_mset (ready_queue s ! 0) (mset (queued (rq_del s)))"
    "rq_count s = Suc (rq_count (rq_del s))"
proof -
  have ne: "0 < rq_count s" using assms queue_bag_empty by blast
  obtain rq where rq:
    "pop_ready_queue s = Inr (ready_queue s ! 0, s\<lparr> ready_queue := rq, rq_count := rq_count s - 1 \<rparr>)"
    "sched_inv (s\<lparr> ready_queue := rq, rq_count := rq_count s - 1 \<rparr>)"
    "mset (queued s) = add_mset (ready_queue s ! 0) (mset (take (rq_count s - 1) rq))"
    using pop_ready_queue_ok [OF assms(1) ne] by metis
  then have del: "rq_del s = s\<lparr> ready_queue := rq, rq_count := rq_count s - 1 \<rparr>"
    by (simp add: rq_del_def)
  show "pop_ready_queue s = Inr (ready_queue s ! 0, rq_del s)" "sched_inv (rq_del s)"
    "queue_bag s = add_mset (rq_top s) (queue_bag (rq_del s))" "blocks (rq_del s) = blocks s"
    "mset (queued s) = add_mset (ready_queue s ! 0) (mset (queued (rq_del s)))"
    "rq_count s = Suc (rq_count (rq_del s))"
    using rq del ne by (simp_all add: queue_bag_def queued_def rq_top_def)
qed

lemma rq_top_le:
  assumes "sched_inv s" "e \<in># queue_bag s"
  shows "before (rq_top s) e"
proof -
  obtain i where i: "i < rq_count s" "e = entry_of (blocks s) (ready_queue s ! i)"
    using assms(2) by (auto simp: queue_bag_def queued_def in_set_conv_nth)
  then show ?thesis
    using task_order.root_le [of "entry_of (blocks s)" "ready_queue s" "rq_count s" i] assms(1)
    by (simp add: sched_inv_def rq_top_def)
qed

interpretation rq: prio_queue sched_inv queue_bag "\<lambda>s. rq_count s < capacity s" fits rq_ins rq_top
    rq_del before
proof (unfold_locales, goal_cases)
  case 1
  then show ?case by (auto simp: before_def split: prod.splits)
next
  case 2
  then show ?case by (auto simp: before_def split: prod.splits)
next
  case 3
  then show ?case by (rule rq_ins_ok(2))
next
  case 4
  then show ?case by (rule rq_ins_ok(1))
next
  case 5
  then show ?case using rq_del_ok(3) by (metis union_single_eq_member)
next
  case 6
  then show ?case by (rule rq_top_le)
next
  case 7
  then show ?case using rq_del_ok(3) by (metis add_mset_remove_trivial)
next
  case 8
  then show ?case by (rule rq_del_ok(2))
qed

text \<open>Popping \<open>n\<close> tasks, with the operation of the code.\<close>

fun pop_all :: "nat \<Rightarrow> scheduler \<Rightarrow> nat list cres" where
  "pop_all 0 s = Inr []"
| "pop_all (Suc n) s =
     cbind (pop_ready_queue s) (\<lambda>(t, s'). cbind (pop_all n s') (\<lambda>ts. Inr (t # ts)))"

lemma pop_all_ok:
  "sched_inv s \<Longrightarrow> rq_count s = n \<Longrightarrow>
     \<exists>ts. pop_all n s = Inr ts \<and> mset ts = mset (queued s) \<and>
          map (entry_of (blocks s)) ts = rq.drain n s"
proof (induction n arbitrary: s)
  case (Suc n)
  have ne: "queue_bag s \<noteq> {#}" using queue_bag_empty [OF Suc.prems(1)] Suc.prems(2) by simp
  note del = rq_del_ok [OF Suc.prems(1) ne]
  have "entry_of (blocks s) (ready_queue s ! 0) = rq_top s" by (simp add: rq_top_def)
  then show ?case using Suc.IH [OF del(2)] del Suc.prems(2) by auto
qed (simp add: queued_def)

text \<open>
  C10: Making a task ready and choosing the next one: on a well-formed scheduler with room,
  \<open>add_to_ready_queue\<close> does not fault, keeps the scheduler well formed, queues exactly the new task
  and changes no descriptor but for its \<open>added_time\<close>; \<open>pop_ready_queue\<close> on a queue that is not
  empty removes exactly the task it returns, and no queued task has a higher priority, nor the same
  priority and an earlier time of addition.
\<close>

theorem ready_queue_operations:
  assumes "sched_inv s"
  shows "(rq_count s < capacity s \<and> t < capacity s \<and> t \<notin> set (queued s) \<longrightarrow>
      (\<exists>s'. add_to_ready_queue s (Some t) now = Inr s' \<and> sched_inv s' \<and>
            mset (queued s') = add_mset t (mset (queued s)) \<and>
            blocks s' = (blocks s)[t := (blocks s ! t)\<lparr> added_time := now \<rparr>])) \<and>
    (0 < rq_count s \<longrightarrow>
      (\<exists>t s'. pop_ready_queue s = Inr (t, s') \<and> sched_inv s' \<and> blocks s' = blocks s \<and>
            mset (queued s) = add_mset t (mset (queued s')) \<and>
            (\<forall>u \<in> set (queued s). t_priority (blocks s ! u) < t_priority (blocks s ! t) \<or>
               t_priority (blocks s ! u) = t_priority (blocks s ! t) \<and>
               added_time (blocks s ! u) \<le> added_time (blocks s ! t))))"
proof (intro conjI impI)
  assume "rq_count s < capacity s \<and> t < capacity s \<and> t \<notin> set (queued s)"
  then show "\<exists>s'. add_to_ready_queue s (Some t) now = Inr s' \<and> sched_inv s' \<and>
      mset (queued s') = add_mset t (mset (queued s)) \<and>
      blocks s' = (blocks s)[t := (blocks s ! t)\<lparr> added_time := now \<rparr>]"
    using add_to_ready_queue_ok [OF assms, of t now] by (fastforce simp: queued_def)
next
  assume "0 < rq_count s"
  then have ne: "queue_bag s \<noteq> {#}" using queue_bag_empty [OF assms] by auto
  have "before (rq_top s) (entry_of (blocks s) u)" if "u \<in> set (queued s)" for u
    using rq_top_le [OF assms] that by (simp add: queue_bag_def)
  then have "\<forall>u \<in> set (queued s). t_priority (blocks s ! u) < t_priority (blocks s ! (ready_queue s ! 0)) \<or>
      t_priority (blocks s ! u) = t_priority (blocks s ! (ready_queue s ! 0)) \<and>
      added_time (blocks s ! u) \<le> added_time (blocks s ! (ready_queue s ! 0))"
    by (force simp: before_def rq_top_def entry_of_def)
  with rq_del_ok [OF assms ne]
  show "\<exists>t s'. pop_ready_queue s = Inr (t, s') \<and> sched_inv s' \<and> blocks s' = blocks s \<and>
      mset (queued s) = add_mset t (mset (queued s')) \<and>
      (\<forall>u \<in> set (queued s). t_priority (blocks s ! u) < t_priority (blocks s ! t) \<or>
         t_priority (blocks s ! u) = t_priority (blocks s ! t) \<and>
         added_time (blocks s ! u) \<le> added_time (blocks s ! t))"
    by blast
qed

text \<open>
  Taking tasks until the ready queue is empty runs every queued task once, by falling
  priority and, within a priority, by falling \<open>added_time\<close>: first in, first out as long as the
  timer, which counts down, does not pass zero in between.
\<close>

theorem ready_queue_drain:
  assumes "sched_inv s"
  shows "\<exists>ts. pop_all (rq_count s) s = Inr ts \<and> mset ts = mset (queued s) \<and>
    sorted_wrt (\<lambda>t u. t_priority (blocks s ! u) < t_priority (blocks s ! t) \<or>
      t_priority (blocks s ! u) = t_priority (blocks s ! t) \<and>
      added_time (blocks s ! u) \<le> added_time (blocks s ! t)) ts"
proof -
  obtain ts where ts: "pop_all (rq_count s) s = Inr ts" "mset ts = mset (queued s)"
    "map (entry_of (blocks s)) ts = rq.drain (rq_count s) s"
    using pop_all_ok [OF assms] by blast
  have "size (queue_bag s) = rq_count s"
    using assms by (simp add: queue_bag_def queued_def sched_inv_def)
  then have "sorted_wrt before (map (entry_of (blocks s)) ts)"
    using rq.drain_sorted [OF assms] ts(3) by simp
  then have "sorted_wrt (\<lambda>t u. before (entry_of (blocks s) t) (entry_of (blocks s) u)) ts"
    by (simp add: sorted_wrt_map)
  then show ?thesis
    using ts(1,2) by (auto simp: before_def entry_of_def eq_commute elim!: sorted_wrt_mono_rel [rotated])
qed

text \<open>A scheduler of three tasks of which two are queued.\<close>

definition sample_regs :: registers where
  "sample_regs = \<lparr> r0 = 0, r1 = 0, r2 = 0, r3 = 0, r4 = 0, r5 = 0, r6 = 0, r7 = 0, r8 = 0, r9 = 0,
     r10 = 0, r11 = 0, r12 = 0, r15 = 0, r13 = 0, r14 = 0, psr = 16 \<rparr>"

definition sample_tcb :: "int \<Rightarrow> int \<Rightarrow> 32 word \<Rightarrow> tcb" where
  "sample_tcb tid prio now = \<lparr> t_next = None, task_name = replicate 30 NUL, t_tid = tid,
     t_priority = prio, t_state = READY, parentTid = 0,
     t_context = \<lparr> stack_check_a = 0, stack_check_b = 0, reg = sample_regs \<rparr>, added_time = now,
     want_send = None, want_send_end = None \<rparr>"

definition sample_sched :: scheduler where
  "sample_sched = \<lparr> blocks = [sample_tcb 0 10 9, sample_tcb 1 20 5, sample_tcb 2 10 0],
     free_tcb = None, capacity = 3, ready_queue = [1, 0, 0], rq_count = 2 \<rparr>"

lemma sample_sched_inv: "sched_inv sample_sched"
  by (simp add: sched_inv_def sample_sched_def sample_tcb_def queued_def heap_ok_upt before_def
      entry_of_def up_def upt_rec)

theorem ready_queue_operations_witness:
  "(\<exists>s'. add_to_ready_queue sample_sched (Some 2) 4 = Inr s' \<and> sched_inv s' \<and>
       mset (queued s') = {# 2, 1, 0 #} \<and>
       blocks s' = [sample_tcb 0 10 9, sample_tcb 1 20 5, sample_tcb 2 10 4]) \<and>
   (\<exists>t s'. pop_ready_queue sample_sched = Inr (t, s') \<and> mset [1, 0] = add_mset t (mset (queued s')))"
  using ready_queue_operations [OF sample_sched_inv, of 2 4]
  by (auto simp: sample_sched_def queued_def sample_tcb_def)

theorem ready_queue_drain_witness:
  "\<exists>ts. pop_all 2 sample_sched = Inr ts \<and> mset ts = {# 0, 1 #} \<and>
     sorted_wrt (\<lambda>t u. t_priority (blocks sample_sched ! u) < t_priority (blocks sample_sched ! t) \<or>
       t_priority (blocks sample_sched ! u) = t_priority (blocks sample_sched ! t) \<and>
       added_time (blocks sample_sched ! u) \<le> added_time (blocks sample_sched ! t)) ts"
  using ready_queue_drain [OF sample_sched_inv]
  by (simp add: sample_sched_def queued_def add_mset_commute)

end
