(* ===== verification/Hal.thy ===== *)
theory Hal
  imports Machine
begin

section \<open>Devices (src/hal/ts7200.c, src/hal/timer.c)\<close>

text \<open>
  The device registers are a map from addresses to words. Reading one gives its present
  value; the hardware changes them between two steps of the kernel, which the kernel model
  takes as an input. The coprocessor instructions of \<open>enable_cache\<close> and \<open>disable_cache\<close> have no
  counterpart.
\<close>

unbundle bit_operations_syntax

type_synonym devices = "addr \<Rightarrow> 32 word"

definition COM1 :: int where "COM1 = 0"
definition COM2 :: int where "COM2 = 1"

definition UART1_BASE :: addr where "UART1_BASE = 0x808c0000"
definition UART2_BASE :: addr where "UART2_BASE = 0x808d0000"
definition VIC1_BASE :: addr where "VIC1_BASE = 0x800B0000"
definition VIC2_BASE :: addr where "VIC2_BASE = 0x800C0000"
definition TIMER1_BASE :: addr where "TIMER1_BASE = 0x80810000"
definition TIMER3_BASE :: addr where "TIMER3_BASE = 0x80810080"

definition UART_DATA_OFFSET :: addr where "UART_DATA_OFFSET = 0"
definition UART_RSR_OFFSET :: addr where "UART_RSR_OFFSET = 4"
definition UART_LCRH_OFFSET :: addr where "UART_LCRH_OFFSET = 8"
definition UART_LCRM_OFFSET :: addr where "UART_LCRM_OFFSET = 0xc"
definition UART_LCRL_OFFSET :: addr where "UART_LCRL_OFFSET = 0x10"
definition UART_CTLR_OFFSET :: addr where "UART_CTLR_OFFSET = 0x14"
definition UART_FLAG_OFFSET :: addr where "UART_FLAG_OFFSET = 0x18"
definition UART_INTR_OFFSET :: addr where "UART_INTR_OFFSET = 0x1c"
definition UART_MDMSTS_OFFSET :: addr where "UART_MDMSTS_OFFSET = 0x104"
definition IRQ_STAT_OFFSET :: addr where "IRQ_STAT_OFFSET = 0"
definition INT_SELECT_OFFSET :: addr where "INT_SELECT_OFFSET = 0xC"
definition INT_ENABLE_OFFSET :: addr where "INT_ENABLE_OFFSET = 0x10"
definition INT_DISABLE_OFFSET :: addr where "INT_DISABLE_OFFSET = 0x14"
definition LDR_OFFSET :: addr where "LDR_OFFSET = 0"
definition VAL_OFFSET :: addr where "VAL_OFFSET = 4"
definition CRTL_OFFSET :: addr where "CRTL_OFFSET = 8"
definition CLR_OFFSET :: addr where "CLR_OFFSET = 0xc"

definition OE_MASK :: "32 word" where "OE_MASK = 0x8"
definition STP2_MASK :: "32 word" where "STP2_MASK = 0x8"
definition FEN_MASK :: "32 word" where "FEN_MASK = 0x10"
definition WLEN_MASK :: "32 word" where "WLEN_MASK = 0x60"
definition MSIEN_MASK :: "32 word" where "MSIEN_MASK = 0x8"
definition RIEN_MASK :: "32 word" where "RIEN_MASK = 0x10"
definition TIEN_MASK :: "32 word" where "TIEN_MASK = 0x20"
definition RTIEN_MASK :: "32 word" where "RTIEN_MASK = 0x40"
definition RXFE_MASK :: "32 word" where "RXFE_MASK = 0x10"
definition TXFF_MASK :: "32 word" where "TXFF_MASK = 0x20"
definition MIS_MASK :: "32 word" where "MIS_MASK = 0x1"
definition RIS_MASK :: "32 word" where "RIS_MASK = 0x2"
definition TIS_MASK :: "32 word" where "TIS_MASK = 0x4"
definition RTIS_MASK :: "32 word" where "RTIS_MASK = 0x8"
definition MSR_DCTS :: "32 word" where "MSR_DCTS = 0x1"
definition MSR_CTS :: "32 word" where "MSR_CTS = 0x10"
definition VIC_TIMER1_MASK :: "32 word" where "VIC_TIMER1_MASK = 0x10"
definition VIC_UART1RXINTR_MASK :: "32 word" where "VIC_UART1RXINTR_MASK = 0x800000"
definition VIC_UART1TXINTR_MASK :: "32 word" where "VIC_UART1TXINTR_MASK = 0x1000000"
definition VIC_UART2RXINTR_MASK :: "32 word" where "VIC_UART2RXINTR_MASK = 0x2000000"
definition VIC_UART2TXINTR_MASK :: "32 word" where "VIC_UART2TXINTR_MASK = 0x4000000"
definition VIC_INT_UART1_MASK :: "32 word" where "VIC_INT_UART1_MASK = 0x100000"
definition VIC_INT_UART2_MASK :: "32 word" where "VIC_INT_UART2_MASK = 0x400000"
definition ENABLE_MASK :: "32 word" where "ENABLE_MASK = 0x80"
definition MODE_MASK :: "32 word" where "MODE_MASK = 0x40"
definition CLKSEL_MASK :: "32 word" where "CLKSEL_MASK = 0x8"

lemmas device_defs =
  UART1_BASE_def UART2_BASE_def VIC1_BASE_def VIC2_BASE_def TIMER1_BASE_def TIMER3_BASE_def
  UART_DATA_OFFSET_def UART_RSR_OFFSET_def UART_LCRH_OFFSET_def UART_LCRM_OFFSET_def
  UART_LCRL_OFFSET_def UART_CTLR_OFFSET_def UART_FLAG_OFFSET_def UART_INTR_OFFSET_def
  UART_MDMSTS_OFFSET_def IRQ_STAT_OFFSET_def INT_SELECT_OFFSET_def INT_ENABLE_OFFSET_def
  INT_DISABLE_OFFSET_def LDR_OFFSET_def VAL_OFFSET_def CRTL_OFFSET_def CLR_OFFSET_def

datatype interrupt =
    TC1 | UART1CTSINTR | UART1TXINTR | UART1RXINTR | UART1INTR | UART2TXINTR | UART2RXINTR
  | UART2RTIEINTR | UART2INTR

text \<open>\<open>*reg = *reg | bits\<close> and \<open>*reg = *reg & ~bits\<close>.\<close>

definition set_bits_at :: "devices \<Rightarrow> addr \<Rightarrow> 32 word \<Rightarrow> devices" where
  "set_bits_at d a bits = d(a := d a OR bits)"

definition clear_bits_at :: "devices \<Rightarrow> addr \<Rightarrow> 32 word \<Rightarrow> devices" where
  "clear_bits_at d a bits = d(a := d a AND NOT bits)"

text \<open>For any other channel the C function ends without a value.\<close>

definition get_base_addr :: "int \<Rightarrow> addr cres" where
  "get_base_addr channel =
     (if channel = COM1 then Inr UART1_BASE else if channel = COM2 then Inr UART2_BASE
      else Inl Undefined_Value)"

definition uart_init :: "int \<Rightarrow> devices \<Rightarrow> devices cres" where
  "uart_init channel d =
     cbind (get_base_addr channel) (\<lambda>base. Inr (
       if channel = COM1
       then d(base + UART_LCRL_OFFSET := 0xBF, base + UART_LCRM_OFFSET := 0,
              base + UART_LCRH_OFFSET := WLEN_MASK OR STP2_MASK)
       else set_bits_at (d(base + UART_LCRL_OFFSET := 0x3, base + UART_LCRM_OFFSET := 0,
              base + UART_LCRH_OFFSET := WLEN_MASK OR FEN_MASK))
              (base + UART_CTLR_OFFSET) (TIEN_MASK OR RIEN_MASK OR RTIEN_MASK)))"

definition uart_can_read :: "int \<Rightarrow> devices \<Rightarrow> bool cres" where
  "uart_can_read channel d =
     cbind (get_base_addr channel) (\<lambda>base. Inr (d (base + UART_FLAG_OFFSET) AND RXFE_MASK = 0))"

definition uart_can_write :: "int \<Rightarrow> devices \<Rightarrow> bool cres" where
  "uart_can_write channel d =
     cbind (get_base_addr channel) (\<lambda>base. Inr (d (base + UART_FLAG_OFFSET) AND TXFF_MASK = 0))"

definition uart_put_char :: "int \<Rightarrow> 8 word \<Rightarrow> devices \<Rightarrow> devices cres" where
  "uart_put_char channel c d =
     cbind (get_base_addr channel) (\<lambda>base. Inr (d(base + UART_DATA_OFFSET := ucast c)))"

definition uart_get_char :: "int \<Rightarrow> devices \<Rightarrow> 8 word cres" where
  "uart_get_char channel d =
     cbind (get_base_addr channel) (\<lambda>base. Inr (ucast (d (base + UART_DATA_OFFSET))))"

text \<open>The control register and the bits of an interrupt of a UART.\<close>

definition uart_intr :: "interrupt \<Rightarrow> (addr \<times> 32 word) cres" where
  "uart_intr i = (case i of
       UART1CTSINTR \<Rightarrow> Inr (UART1_BASE + UART_CTLR_OFFSET, MSIEN_MASK)
     | UART1TXINTR \<Rightarrow> Inr (UART1_BASE + UART_CTLR_OFFSET, TIEN_MASK)
     | UART1RXINTR \<Rightarrow> Inr (UART1_BASE + UART_CTLR_OFFSET, RIEN_MASK)
     | UART2RXINTR \<Rightarrow> Inr (UART2_BASE + UART_CTLR_OFFSET, RIEN_MASK)
     | UART2TXINTR \<Rightarrow> Inr (UART2_BASE + UART_CTLR_OFFSET, TIEN_MASK)
     | UART2RTIEINTR \<Rightarrow> Inr (UART2_BASE + UART_CTLR_OFFSET, RTIEN_MASK)
     | _ \<Rightarrow> Inl (Assert_Failed ''Unknown Interrupt''))"

definition enable_interrupt :: "interrupt \<Rightarrow> devices \<Rightarrow> devices cres" where
  "enable_interrupt i d = cbind (uart_intr i) (\<lambda>(a, bits). Inr (set_bits_at d a bits))"

definition disable_interrupt :: "interrupt \<Rightarrow> devices \<Rightarrow> devices cres" where
  "disable_interrupt i d = cbind (uart_intr i) (\<lambda>(a, bits). Inr (clear_bits_at d a bits))"

text \<open>The interrupt controller and the line of an interrupt.\<close>

definition vic_intr :: "interrupt \<Rightarrow> (addr \<times> 32 word) cres" where
  "vic_intr i = (case i of
       TC1 \<Rightarrow> Inr (VIC1_BASE, VIC_TIMER1_MASK)
     | UART1RXINTR \<Rightarrow> Inr (VIC1_BASE, VIC_UART1RXINTR_MASK)
     | UART1TXINTR \<Rightarrow> Inr (VIC1_BASE, VIC_UART1TXINTR_MASK)
     | UART1INTR \<Rightarrow> Inr (VIC2_BASE, VIC_INT_UART1_MASK)
     | UART2RXINTR \<Rightarrow> Inr (VIC1_BASE, VIC_UART2RXINTR_MASK)
     | UART2TXINTR \<Rightarrow> Inr (VIC1_BASE, VIC_UART2TXINTR_MASK)
     | UART2INTR \<Rightarrow> Inr (VIC2_BASE, VIC_INT_UART2_MASK)
     | _ \<Rightarrow> Inl (Assert_Failed ''Unknown VIC Interrupt''))"

definition enable_vic_interrupt :: "interrupt \<Rightarrow> devices \<Rightarrow> devices cres" where
  "enable_vic_interrupt i d =
     cbind (vic_intr i) (\<lambda>(vic, bits).
       Inr (set_bits_at (clear_bits_at d (vic + INT_SELECT_OFFSET) bits)
              (vic + INT_ENABLE_OFFSET) bits))"

definition disable_vic_interrupt :: "interrupt \<Rightarrow> devices \<Rightarrow> devices cres" where
  "disable_vic_interrupt i d =
     cbind (vic_intr i) (\<lambda>(vic, bits). Inr (d(vic + INT_DISABLE_OFFSET := bits)))"

definition enable_irq :: "devices \<Rightarrow> devices cres" where
  "enable_irq d =
     cbind (cfold (\<lambda>d i. enable_vic_interrupt i d)
       (d(VIC1_BASE + INT_DISABLE_OFFSET := 0xFFFFFFFF,
          VIC2_BASE + INT_DISABLE_OFFSET := 0xFFFFFFFF)) [TC1, UART1INTR, UART2INTR]) (\<lambda>d1.
     cfold (\<lambda>d i. disable_interrupt i d) d1
       [UART1RXINTR, UART1TXINTR, UART1CTSINTR, UART2RXINTR, UART2TXINTR, UART2RTIEINTR])"

definition disable_irq :: "devices \<Rightarrow> devices" where
  "disable_irq d = d(VIC1_BASE + INT_DISABLE_OFFSET := 0xFFFFFFFF,
     VIC2_BASE + INT_DISABLE_OFFSET := 0xFFFFFFFF)"

subsection \<open>Interrupts are masked one at a time\<close>

definition intr_enabled :: "interrupt \<Rightarrow> devices \<Rightarrow> bool" where
  "intr_enabled i d = (case uart_intr i of Inl _ \<Rightarrow> False | Inr (a, bits) \<Rightarrow> d a AND bits \<noteq> 0)"

definition uart_intrs :: "interrupt list" where
  "uart_intrs =
     [UART1RXINTR, UART1TXINTR, UART1CTSINTR, UART2RXINTR, UART2TXINTR, UART2RTIEINTR]"

lemmas intr_defs = uart_intr_def device_defs MSIEN_MASK_def RIEN_MASK_def TIEN_MASK_def
  RTIEN_MASK_def

lemma or_mask: "(x OR (m :: 32 word)) AND n = (x AND n) OR (m AND n)"
  by (rule bit_word_eqI) (auto simp: bit_simps)

lemma and_not_mask [simp]: "(x AND NOT (m :: 32 word)) AND m = 0"
  by (rule bit_word_eqI) (auto simp: bit_simps)

lemma and_not_mask_disjoint: "m AND n = 0 \<Longrightarrow> (x AND NOT (m :: 32 word)) AND n = x AND n"
  by (rule bit_word_eqI) (auto simp: bit_simps bit_eq_iff)

lemma intr_masks:
  assumes "uart_intr i = Inr (a, m)" "uart_intr j = Inr (b, n)"
  shows "i = j \<or> a \<noteq> b \<or> m AND n = 0" "m AND m \<noteq> 0"
  using assms by (cases i; cases j; simp add: intr_defs; fail)+

lemma intr_enabled_set:
  "uart_intr i = Inr (a, m) \<Longrightarrow> intr_enabled j (set_bits_at d a m) \<longleftrightarrow> j = i \<or> intr_enabled j d"
  using intr_masks [of i a m j]
  by (cases "uart_intr j"; cases "j = i")
     (auto simp: intr_enabled_def set_bits_at_def or_mask split: prod.splits)
lemma intr_enabled_clear:
  "uart_intr i = Inr (a, m) \<Longrightarrow> intr_enabled j (clear_bits_at d a m) \<longleftrightarrow> j \<noteq> i \<and> intr_enabled j d"
  using intr_masks [of i a m j]
  by (cases "uart_intr j"; cases "j = i")
     (auto simp: intr_enabled_def clear_bits_at_def and_not_mask_disjoint split: prod.splits)

lemma uart_intr_ok: "i \<in> set uart_intrs \<Longrightarrow> \<exists>a m. uart_intr i = Inr (a, m)"
  by (auto simp: uart_intrs_def uart_intr_def)

text \<open>
  Enabling or disabling one interrupt source of a UART succeeds and changes the state of that
  source only: every other source stays enabled or disabled as it was.
\<close>

theorem uart_interrupts_independent:
  assumes "i \<in> set uart_intrs"
  shows "(\<exists>d'. enable_interrupt i d = Inr d' \<and> (\<forall>j. intr_enabled j d' \<longleftrightarrow> j = i \<or> intr_enabled j d)) \<and>
    (\<exists>d'. disable_interrupt i d = Inr d' \<and> (\<forall>j. intr_enabled j d' \<longleftrightarrow> j \<noteq> i \<and> intr_enabled j d))"
  using uart_intr_ok [OF assms]
  by (auto simp: enable_interrupt_def disable_interrupt_def intr_enabled_set intr_enabled_clear)

theorem uart_interrupts_independent_witness:
  "(\<exists>d'. enable_interrupt UART2TXINTR (\<lambda>_. 0) = Inr d' \<and>
      (\<forall>j. intr_enabled j d' \<longleftrightarrow> j = UART2TXINTR \<or> intr_enabled j (\<lambda>_. 0))) \<and>
   (\<exists>d'. disable_interrupt UART2TXINTR (\<lambda>_. 0) = Inr d' \<and>
      (\<forall>j. intr_enabled j d' \<longleftrightarrow> j \<noteq> UART2TXINTR \<and> intr_enabled j (\<lambda>_. 0)))"
  by (rule uart_interrupts_independent) (simp add: uart_intrs_def)

text \<open>Lines of the interrupt controller: enabled, and raised as an IRQ and not as an FIQ.\<close>

definition vic_irq :: "interrupt \<Rightarrow> devices \<Rightarrow> bool" where
  "vic_irq i d = (case vic_intr i of Inl _ \<Rightarrow> False
     | Inr (vic, m) \<Rightarrow> d (vic + INT_ENABLE_OFFSET) AND m = m \<and> d (vic + INT_SELECT_OFFSET) AND m = 0)"

lemma uart_intr_addr:
  "uart_intr i = Inr (a, m) \<Longrightarrow> a \<in> {UART1_BASE + UART_CTLR_OFFSET, UART2_BASE + UART_CTLR_OFFSET}"
  by (auto simp: uart_intr_def split: interrupt.splits)

lemma disable_fold:
  "set xs \<subseteq> set uart_intrs \<Longrightarrow> \<exists>d'. cfold (\<lambda>d i. disable_interrupt i d) d xs = Inr d' \<and>
     (\<forall>j. intr_enabled j d' \<longleftrightarrow> j \<notin> set xs \<and> intr_enabled j d) \<and>
     (\<forall>a. a \<notin> {UART1_BASE + UART_CTLR_OFFSET, UART2_BASE + UART_CTLR_OFFSET} \<longrightarrow> d' a = d a)"
proof (induction xs arbitrary: d)
  case (Cons i xs)
  obtain a m where i: "uart_intr i = Inr (a, m)" using uart_intr_ok [of i] Cons.prems by auto
  have step: "cfold (\<lambda>d i. disable_interrupt i d) d (i # xs) =
      cfold (\<lambda>d i. disable_interrupt i d) (clear_bits_at d a m) xs"
    by (simp add: disable_interrupt_def i)
  have other: "clear_bits_at d a m x = d x"
    if "x \<notin> {UART1_BASE + UART_CTLR_OFFSET, UART2_BASE + UART_CTLR_OFFSET}" for x
    using uart_intr_addr [OF i] that by (auto simp: clear_bits_at_def)
  have "set xs \<subseteq> set uart_intrs" using Cons.prems by simp
  then obtain d' where d': "cfold (\<lambda>d i. disable_interrupt i d) (clear_bits_at d a m) xs = Inr d'"
    "\<forall>j. intr_enabled j d' \<longleftrightarrow> j \<notin> set xs \<and> intr_enabled j (clear_bits_at d a m)"
    "\<forall>x. x \<notin> {UART1_BASE + UART_CTLR_OFFSET, UART2_BASE + UART_CTLR_OFFSET} \<longrightarrow>
       d' x = clear_bits_at d a m x"
    using Cons.IH by blast
  then show ?case
    unfolding step using intr_enabled_clear [OF i] other by (intro exI [of _ d']) auto
qed simp

lemma enable_irq_works:
  "\<exists>d'. enable_irq d = Inr d' \<and> list_all (\<lambda>i. \<not> intr_enabled i d') uart_intrs \<and>
     vic_irq TC1 d' \<and> vic_irq UART1INTR d' \<and> vic_irq UART2INTR d'"
proof -
  obtain d1 where d1: "cfold (\<lambda>d i. enable_vic_interrupt i d)
      (d(VIC1_BASE + INT_DISABLE_OFFSET := 0xFFFFFFFF, VIC2_BASE + INT_DISABLE_OFFSET := 0xFFFFFFFF))
      [TC1, UART1INTR, UART2INTR] = Inr d1" "vic_irq TC1 d1" "vic_irq UART1INTR d1" "vic_irq UART2INTR d1"
    by (simp add: enable_vic_interrupt_def vic_intr_def vic_irq_def set_bits_at_def clear_bits_at_def
        device_defs VIC_TIMER1_MASK_def VIC_INT_UART1_MASK_def VIC_INT_UART2_MASK_def or_mask
        and.assoc)
  obtain d2 where d2: "cfold (\<lambda>d i. disable_interrupt i d) d1 uart_intrs = Inr d2"
    "\<forall>j. intr_enabled j d2 \<longleftrightarrow> j \<notin> set uart_intrs \<and> intr_enabled j d1"
    "\<forall>a. a \<notin> {UART1_BASE + UART_CTLR_OFFSET, UART2_BASE + UART_CTLR_OFFSET} \<longrightarrow> d2 a = d1 a"
    using disable_fold [OF subset_refl, of d1] by blast
  have "vic_irq i d2 = vic_irq i d1" for i
    using d2(3) by (simp add: vic_irq_def vic_intr_def device_defs split: interrupt.splits)
  then show ?thesis
    using d1 d2(1,2) by (auto simp: enable_irq_def uart_intrs_def)
qed

lemma enable_irq_returns: "\<exists>d'. enable_irq d = Inr d'"
  using enable_irq_works by blast

text \<open>
  After \<open>enable_irq\<close> the timer and the two combined UART lines reach the processor as IRQs,
  and every interrupt source of the UARTs is masked, so that no UART can interrupt before a task waits
  for it.
\<close>

lemma enable_irq_ok:
  "\<exists>d'. enable_irq d = Inr d' \<and> list_all (\<lambda>i. \<not> intr_enabled i d') uart_intrs \<and>
     vic_irq TC1 d' \<and> vic_irq UART1INTR d' \<and> vic_irq UART2INTR d'"
  by (rule enable_irq_works)

subsection \<open>Timers\<close>

datatype timer = TIMER1 | TIMER2 | TIMER3

definition timer_base :: "timer \<Rightarrow> addr cres" where
  "timer_base t = (case t of TIMER1 \<Rightarrow> Inr TIMER1_BASE | TIMER3 \<Rightarrow> Inr TIMER3_BASE
     | TIMER2 \<Rightarrow> Inl Undefined_Value)"

definition get_control :: "timer \<Rightarrow> addr cres" where
  "get_control t = cbind (timer_base t) (\<lambda>b. Inr (b + CRTL_OFFSET))"

definition get_load :: "timer \<Rightarrow> addr cres" where
  "get_load t = cbind (timer_base t) (\<lambda>b. Inr (b + LDR_OFFSET))"

definition get_value :: "timer \<Rightarrow> addr cres" where
  "get_value t = cbind (timer_base t) (\<lambda>b. Inr (b + VAL_OFFSET))"

definition TIMER1LOAD :: "32 word" where "TIMER1LOAD = 508 * 10"
definition TIMER3LOAD :: "32 word" where "TIMER3LOAD = 4294967295"
definition FASTCLOCKRATE :: nat where "FASTCLOCKRATE = 508000"

definition timer_init :: "timer \<Rightarrow> devices \<Rightarrow> devices cres" where
  "timer_init t d =
     (if t = TIMER2 then Inr d
      else
     cbind (get_control t) (\<lambda>control.
     cbind (get_load t) (\<lambda>load.
       Inr ((set_bits_at d control (CLKSEL_MASK OR MODE_MASK))
              (load := if t = TIMER1 then TIMER1LOAD else TIMER3LOAD)))))"

definition start_timer :: "timer \<Rightarrow> devices \<Rightarrow> devices cres" where
  "start_timer t d = cbind (get_control t) (\<lambda>control. Inr (set_bits_at d control ENABLE_MASK))"

definition stop_timer :: "timer \<Rightarrow> devices \<Rightarrow> devices cres" where
  "stop_timer t d = cbind (get_control t) (\<lambda>control. Inr (clear_bits_at d control ENABLE_MASK))"

definition read_timer :: "timer \<Rightarrow> devices \<Rightarrow> 32 word cres" where
  "read_timer t d = cbind (get_value t) (\<lambda>a. Inr (d a))"

text \<open>Times as the user interface shows them; unsigned division by 0 is a fault.\<close>

definition udiv :: "nat \<Rightarrow> nat \<Rightarrow> nat cres" where
  "udiv a b = (if b = 0 then Inl Undefined_Value else Inr (a div b))"

definition ticks_to_mins :: "nat \<Rightarrow> nat \<Rightarrow> nat cres" where
  "ticks_to_mins time_passed clock_rate = udiv time_passed (clock_rate * 60 mod 2 ^ 32)"

definition ticks_to_secs :: "nat \<Rightarrow> nat \<Rightarrow> nat cres" where
  "ticks_to_secs time_passed clock_rate =
     cbind (udiv time_passed clock_rate) (\<lambda>s. Inr (s mod 60))"

definition ticks_to_tens_secs :: "nat \<Rightarrow> nat \<Rightarrow> nat cres" where
  "ticks_to_tens_secs time_passed clock_rate =
     cbind (udiv time_passed (clock_rate div 10)) (\<lambda>t. Inr (t mod 10))"

definition get_formatted_curr_time :: "nat \<Rightarrow> nat \<Rightarrow> (nat \<times> nat \<times> nat) cres" where
  "get_formatted_curr_time curr_time tick_speed =
     cbind (ticks_to_mins curr_time tick_speed) (\<lambda>mins.
     cbind (ticks_to_secs curr_time tick_speed) (\<lambda>secs.
     cbind (ticks_to_tens_secs curr_time tick_speed) (\<lambda>tens. Inr (mins, secs, tens))))"

definition ticks_to_ms :: "nat \<Rightarrow> nat \<Rightarrow> nat cres" where
  "ticks_to_ms ticks clock_rate = cbind (udiv (ticks * 1000) clock_rate) (\<lambda>t. Inr (t mod 2 ^ 32))"

end
