(* ===== verification/Kernel.thy ===== *)
theory Kernel
  imports Scheduler Hal
begin

section \<open>The kernel loop (src/main.c)\<close>

text \<open>
  The kernel between two traps: it takes the next task off the ready queue, lets it run, and
  serves its call or an interrupt. A step gets from outside what the user program and the
  hardware did in the meantime: the task's registers at the trap, the memory, the device
  registers and the readings of TIMER3. Memory protection does not exist on the board;
  the model takes the descriptors and the queues to be out of the reach of user programs.
\<close>

unbundle bit_operations_syntax

definition EINVALIDTID :: int where "EINVALIDTID = -1"
definition ENOTREPLYWAIT :: int where "ENOTREPLYWAIT = -2"

definition SYSCALL_CREATE :: "32 word" where "SYSCALL_CREATE = 1"
definition SYSCALL_MYTID :: "32 word" where "SYSCALL_MYTID = 2"
definition SYSCALL_MYPARENTTID :: "32 word" where "SYSCALL_MYPARENTTID = 3"
definition SYSCALL_YIELD :: "32 word" where "SYSCALL_YIELD = 4"
definition SYSCALL_EXIT :: "32 word" where "SYSCALL_EXIT = 5"
definition SYSCALL_SHUTDOWN :: "32 word" where "SYSCALL_SHUTDOWN = 7"
definition SYSCALL_SEND :: "32 word" where "SYSCALL_SEND = 8"
definition SYSCALL_RECEIVE :: "32 word" where "SYSCALL_RECEIVE = 9"
definition SYSCALL_REPLY :: "32 word" where "SYSCALL_REPLY = 10"
definition SYSCALL_AWAITEVENT :: "32 word" where "SYSCALL_AWAITEVENT = 11"

text \<open>The numbers of \<open>enum Event\<close>.\<close>

definition BREAK_IDLE :: nat where "BREAK_IDLE = 0"
definition TIMER_TICK :: nat where "TIMER_TICK = 1"
definition UART1_RX_INTR :: nat where "UART1_RX_INTR = 2"
definition UART1_TX_INTR :: nat where "UART1_TX_INTR = 3"
definition UART2_TX_HALF_EMPTY :: nat where "UART2_TX_HALF_EMPTY = 4"
definition UART2_RX_INCOMING :: nat where "UART2_RX_INCOMING = 5"
definition NUMBER_OF_EVENTS :: nat where "NUMBER_OF_EVENTS = 6"

lemmas event_defs = BREAK_IDLE_def TIMER_TICK_def UART1_RX_INTR_def UART1_TX_INTR_def
  UART2_TX_HALF_EMPTY_def UART2_RX_INCOMING_def NUMBER_OF_EVENTS_def

text \<open>\<open>k_clock n\<close> is what the \<open>n\<close>-th reading of TIMER3 gives; \<open>k_reads\<close> counts the readings.\<close>

record kernel =
  k_sched :: scheduler
  event_mapping :: "tcb_ptr list"
  interrupt_tasks :: int
  uart1_tx_flag :: "32 word"
  k_mem :: memory
  k_dev :: devices
  k_clock :: "nat \<Rightarrow> 32 word"
  k_reads :: nat

abbreviation task :: "kernel \<Rightarrow> nat \<Rightarrow> tcb cres" where
  "task k i \<equiv> rd (blocks (k_sched k)) i"

definition upd_task :: "kernel \<Rightarrow> nat \<Rightarrow> (tcb \<Rightarrow> tcb) \<Rightarrow> kernel cres" where
  "upd_task k i f = cbind (upd_tcb (k_sched k) i f) (\<lambda>s. Inr (k\<lparr> k_sched := s \<rparr>))"

definition make_ready :: "kernel \<Rightarrow> nat \<Rightarrow> kernel cres" where
  "make_ready k t =
     cbind (add_to_ready_queue (k_sched k) (Some t) (k_clock k (k_reads k))) (\<lambda>s.
       Inr (k\<lparr> k_sched := s, k_reads := k_reads k + 1 \<rparr>))"

definition set_ret :: "kernel \<Rightarrow> nat \<Rightarrow> 32 word \<Rightarrow> kernel cres" where
  "set_ret k t v = upd_task k t (\<lambda>x. x\<lparr> t_context := set_return (t_context x) v \<rparr>)"

definition ret_ready :: "kernel \<Rightarrow> nat \<Rightarrow> int \<Rightarrow> kernel cres" where
  "ret_ready k t v = cbind (set_ret k t (word_of_int v)) (\<lambda>k'. make_ready k' t)"

subsection \<open>Messages\<close>

fun copy_loop :: "addr \<Rightarrow> addr \<Rightarrow> nat \<Rightarrow> nat \<Rightarrow> memory \<Rightarrow> memory" where
  "copy_loop src dest i 0 m = m"
| "copy_loop src dest i (Suc left) m =
     copy_loop src dest (i + 1) left (m(dest + of_nat i := m (src + of_nat i)))"

definition msg_copy :: "addr \<Rightarrow> int \<Rightarrow> addr \<Rightarrow> int \<Rightarrow> memory \<Rightarrow> memory \<times> int" where
  "msg_copy src srclen dest destlen m =
     (let n = (if srclen < destlen then srclen else destlen) in (copy_loop src dest 0 (nat n) m, n))"

text \<open>The offsets of the fields of the argument structs, four bytes each but \<open>create_args.name\<close>.\<close>

definition handle_send :: "kernel \<Rightarrow> nat \<Rightarrow> nat \<Rightarrow> kernel cres" where
  "handle_send k src dst =
     cbind (upd_task k src (\<lambda>t. t\<lparr> t_state := REPLY \<rparr>)) (\<lambda>k1.
     cbind (upd_task k1 dst (\<lambda>t. t\<lparr> t_state := READY \<rparr>)) (\<lambda>k2.
     cbind (task k2 src) (\<lambda>s.
     cbind (task k2 dst) (\<lambda>d.
     let s_args = get_data (t_context s); r_args = get_data (t_context d);
         m = st32 (k_mem k2) (ld32 (k_mem k2) r_args) (word_of_int (t_tid s));
         (m', ret) = msg_copy (ld32 m (s_args + 4)) (ld_int m (s_args + 8))
                       (ld32 m (r_args + 4)) (ld_int m (r_args + 8)) m
     in ret_ready (k2\<lparr> k_mem := m' \<rparr>) dst ret))))"

subsection \<open>System calls\<close>

text \<open>\<open>data\<close> is the caller's \<open>r0\<close>, the address of its argument struct.\<close>

definition sys_create :: "layout \<Rightarrow> kernel \<Rightarrow> nat \<Rightarrow> 32 word \<Rightarrow> kernel cres" where
  "sys_create lay k cur data =
     cbind (task k cur) (\<lambda>c.
     let m = k_mem k in
     cbind (scheduler_add lay (k_sched k) (ld_int m data) (ld32 m (data + 36)) (t_tid c)
              (ld_chars m (data + 4) MAX_TASK_NAME_LEN) (k_clock k (k_reads k))) (\<lambda>(ret, s).
       let reads = (if free_tcb (k_sched k) = None then k_reads k else k_reads k + 1)
       in ret_ready (k\<lparr> k_sched := s, k_reads := reads \<rparr>) cur ret))"

definition sys_mytid :: "kernel \<Rightarrow> nat \<Rightarrow> kernel cres" where
  "sys_mytid k cur = cbind (task k cur) (\<lambda>c. ret_ready k cur (t_tid c))"

definition sys_myparenttid :: "kernel \<Rightarrow> nat \<Rightarrow> kernel cres" where
  "sys_myparenttid k cur = cbind (task k cur) (\<lambda>c. ret_ready k cur (parentTid c))"

definition sys_yield :: "kernel \<Rightarrow> nat \<Rightarrow> kernel cres" where
  "sys_yield k cur = make_ready k cur"

definition sys_exit :: "kernel \<Rightarrow> nat \<Rightarrow> kernel cres" where
  "sys_exit k cur = upd_task k cur (\<lambda>t. t\<lparr> t_state := ZOMBIE \<rparr>)"

text \<open>The sender is put at the end of the target's list, which is linked by \<open>next\<close>.\<close>

definition enqueue_sender :: "kernel \<Rightarrow> nat \<Rightarrow> nat \<Rightarrow> kernel cres" where
  "enqueue_sender k cur target =
     cbind (upd_task k cur (\<lambda>t. t\<lparr> t_state := SEND, t_next := None \<rparr>)) (\<lambda>k1.
     cbind (task k1 target) (\<lambda>t.
     cbind (case want_send_end t of
              Some e \<Rightarrow> upd_task k1 e (\<lambda>x. x\<lparr> t_next := Some cur \<rparr>)
            | None \<Rightarrow> upd_task k1 target (\<lambda>x. x\<lparr> want_send := Some cur \<rparr>)) (\<lambda>k2.
       upd_task k2 target (\<lambda>x. x\<lparr> want_send_end := Some cur \<rparr>))))"

definition sys_send :: "kernel \<Rightarrow> nat \<Rightarrow> 32 word \<Rightarrow> kernel cres" where
  "sys_send k cur data =
     (let tid = ld_int (k_mem k) data in
      if tid < 0 \<or> tid > int MAX_NUM_TASKS then ret_ready k cur EINVALIDTID
      else
        cbind (task k (nat tid)) (\<lambda>target.
        if t_state target = ZOMBIE then ret_ready k cur EINVALIDTID
        else if t_state target = RECEIVE then handle_send k cur (nat tid)
        else enqueue_sender k cur (nat tid)))"

definition sys_receive :: "kernel \<Rightarrow> nat \<Rightarrow> kernel cres" where
  "sys_receive k cur =
     cbind (task k cur) (\<lambda>c.
     case want_send c of
       Some src \<Rightarrow>
         cbind (task k src) (\<lambda>s.
         cbind (upd_task k cur (\<lambda>t. t\<lparr> want_send := t_next s,
           want_send_end := (if t_next s = None then None else want_send_end t) \<rparr>)) (\<lambda>k1.
         cbind (upd_task k1 src (\<lambda>t. t\<lparr> t_next := None \<rparr>)) (\<lambda>k2.
           handle_send k2 src cur)))
     | None \<Rightarrow> upd_task k cur (\<lambda>t. t\<lparr> t_state := RECEIVE \<rparr>))"

text \<open>
  The two error branches of Reply call \<open>debugprint\<close>, which prints by sending to a server: a
  \<open>swi\<close> in the kernel itself. Its handler stores the registers through \<open>user_reg\<close>, which
  \<open>run_user\<close> has set to null.
\<close>

definition kernel_debugprint :: "kernel \<Rightarrow> kernel cres" where
  "kernel_debugprint k = Inl Null_Pointer"

definition sys_reply :: "kernel \<Rightarrow> nat \<Rightarrow> 32 word \<Rightarrow> kernel cres" where
  "sys_reply k cur data =
     (let m = k_mem k; tid = ld_int m data in
      cbind (rdi (blocks (k_sched k)) tid) (\<lambda>target.
      if t_state target = ZOMBIE
      then cbind (ret_ready k cur EINVALIDTID) kernel_debugprint
      else if t_state target \<noteq> REPLY
      then cbind (ret_ready k cur ENOTREPLYWAIT) kernel_debugprint
      else
        let s_args = get_data (t_context target);
            (m', ret) = msg_copy (ld32 m (data + 4)) (ld_int m (data + 8))
                          (ld32 m (s_args + 12)) (ld_int m (s_args + 16)) m
        in cbind (upd_task k (nat tid) (\<lambda>t. t\<lparr> t_state := READY \<rparr>)) (\<lambda>k1.
           cbind (ret_ready (k1\<lparr> k_mem := m' \<rparr>) (nat tid) ret) (\<lambda>k2.
             ret_ready k2 cur ret))))"

subsection \<open>Events and interrupts\<close>

definition with_dev :: "kernel \<Rightarrow> (devices \<Rightarrow> devices cres) \<Rightarrow> kernel cres" where
  "with_dev k f = cbind (f (k_dev k)) (\<lambda>d. Inr (k\<lparr> k_dev := d \<rparr>))"

definition park :: "kernel \<Rightarrow> nat \<Rightarrow> nat \<Rightarrow> interrupt list \<Rightarrow> kernel cres" where
  "park k cur event intrs =
     cbind (with_dev k (\<lambda>d. cfold (\<lambda>d i. enable_interrupt i d) d intrs)) (\<lambda>k1.
     cbind (wr (event_mapping k1) event (Some cur)) (\<lambda>em.
       Inr (k1\<lparr> event_mapping := em, interrupt_tasks := interrupt_tasks k1 + 1 \<rparr>)))"

text \<open>BREAK_IDLE sleeps until an interrupt and returns at once, with the time asleep.\<close>

definition sys_awaitevent :: "kernel \<Rightarrow> nat \<Rightarrow> 32 word \<Rightarrow> kernel cres" where
  "sys_awaitevent k cur data =
     (let event = sint data in
      cbind (rdi (event_mapping k) event) (\<lambda>waiting.
      cbind (kassert (waiting = None) ''No other task should be waiting for this event'') (\<lambda>_.
      if event = int BREAK_IDLE then
        let asleep = k_clock k (k_reads k) - k_clock k (k_reads k + 1)
        in cbind (set_ret (k\<lparr> k_reads := k_reads k + 2 \<rparr>) cur asleep) (\<lambda>k1. make_ready k1 cur)
      else if event = int UART1_TX_INTR then
        cbind (park k cur (nat event) [UART1TXINTR, UART1CTSINTR]) (\<lambda>k1.
          Inr (k1\<lparr> uart1_tx_flag := 0 \<rparr>))
      else if event = int UART1_RX_INTR then park k cur (nat event) [UART1RXINTR]
      else if event = int UART2_TX_HALF_EMPTY then park k cur (nat event) [UART2TXINTR]
      else if event = int UART2_RX_INCOMING then
        park k cur (nat event) [UART2RXINTR, UART2RTIEINTR]
      else if event = int TIMER_TICK then park k cur (nat event) []
      else Inr k)))"

definition wake_up :: "kernel \<Rightarrow> nat \<Rightarrow> (bool \<times> kernel) cres" where
  "wake_up k event =
     cbind (rd (event_mapping k) event) (\<lambda>waiting.
     case waiting of
       None \<Rightarrow> Inr (False, k)
     | Some t \<Rightarrow>
         cbind (wr (event_mapping k) event None) (\<lambda>em.
         cbind (ret_ready (k\<lparr> event_mapping := em, interrupt_tasks := interrupt_tasks k - 1 \<rparr>) t 0)
           (\<lambda>k'. Inr (True, k'))))"

text \<open>A UART interrupt nobody waits for is an assertion failure.\<close>

definition wake_someone :: "kernel \<Rightarrow> nat \<Rightarrow> interrupt list \<Rightarrow> kernel cres" where
  "wake_someone k event intrs =
     cbind (wake_up k event) (\<lambda>(woken, k').
       if woken then with_dev k' (\<lambda>d. cfold (\<lambda>d i. disable_interrupt i d) d intrs)
       else Inl (Assert_Failed ''Nobody home''))"

abbreviation dev_bit :: "kernel \<Rightarrow> addr \<Rightarrow> 32 word \<Rightarrow> bool" where
  "dev_bit k a m \<equiv> k_dev k a AND m \<noteq> 0"

definition irq_timer :: "kernel \<Rightarrow> kernel cres" where
  "irq_timer k =
     (if dev_bit k (VIC1_BASE + IRQ_STAT_OFFSET) VIC_TIMER1_MASK
      then cbind (wake_up (k\<lparr> k_dev := (k_dev k)(TIMER1_BASE + CLR_OFFSET := 1) \<rparr>) TIMER_TICK)
             (\<lambda>(_, k'). Inr k')
      else Inr k)"

definition irq_uart2 :: "kernel \<Rightarrow> kernel cres" where
  "irq_uart2 k =
     (if dev_bit k (VIC2_BASE + IRQ_STAT_OFFSET) VIC_INT_UART2_MASK then
        let combined = UART2_BASE + UART_INTR_OFFSET in
        if dev_bit k combined RTIS_MASK \<or> dev_bit k combined RIS_MASK
        then wake_someone k UART2_RX_INCOMING [UART2RXINTR, UART2RTIEINTR]
        else if dev_bit k combined TIS_MASK
        then wake_someone k UART2_TX_HALF_EMPTY [UART2TXINTR]
        else Inr k
      else Inr k)"

text \<open>
  A byte can go out on UART 1 when the transmitter is free (bit 0 of the flag) and the train
  controller has raised CTS again (bit 1): only then is the waiting task woken.
\<close>

definition irq_uart1_tx :: "kernel \<Rightarrow> kernel cres" where
  "irq_uart1_tx k =
     (if dev_bit k (UART1_BASE + UART_INTR_OFFSET) TIS_MASK
      then with_dev (k\<lparr> uart1_tx_flag := uart1_tx_flag k OR 1 \<rparr>) (disable_interrupt UART1TXINTR)
      else Inr k)"

definition irq_uart1_cts :: "kernel \<Rightarrow> kernel cres" where
  "irq_uart1_cts k =
     (if dev_bit k (UART1_BASE + UART_INTR_OFFSET) MIS_MASK then
        let k1 = k\<lparr> k_dev := (k_dev k)(UART1_BASE + UART_INTR_OFFSET := 0) \<rparr> in
        if dev_bit k1 (UART1_BASE + UART_MDMSTS_OFFSET) MSR_DCTS \<and>
           dev_bit k1 (UART1_BASE + UART_MDMSTS_OFFSET) MSR_CTS
        then with_dev (k1\<lparr> uart1_tx_flag := uart1_tx_flag k1 OR 2 \<rparr>)
               (disable_interrupt UART1CTSINTR)
        else Inr k1
      else Inr k)"

definition irq_uart1 :: "kernel \<Rightarrow> kernel cres" where
  "irq_uart1 k =
     (if dev_bit k (VIC2_BASE + IRQ_STAT_OFFSET) VIC_INT_UART1_MASK then
        cbind (if dev_bit k (UART1_BASE + UART_INTR_OFFSET) RIS_MASK
               then wake_someone k UART1_RX_INTR [UART1RXINTR] else Inr k) (\<lambda>k1.
        cbind (irq_uart1_tx k1) (\<lambda>k2.
        cbind (irq_uart1_cts k2) (\<lambda>k3.
          if uart1_tx_flag k3 = 3
          then cbind (wake_someone k3 UART1_TX_INTR []) (\<lambda>k4. Inr (k4\<lparr> uart1_tx_flag := 0 \<rparr>))
          else Inr k3)))
      else Inr k)"

text \<open>Both status registers are read once, before the first of the handlers writes anything.\<close>

definition sys_irq :: "kernel \<Rightarrow> nat \<Rightarrow> kernel cres" where
  "sys_irq k cur =
     cbind (irq_timer k) (\<lambda>k1. cbind (irq_uart2 k1) (\<lambda>k2. cbind (irq_uart1 k2) (\<lambda>k3.
       make_ready k3 cur)))"

subsection \<open>The loop\<close>

text \<open>What happened between \<open>switch_user\<close> and the trap.\<close>

record user_run =
  u_task :: user_task
  u_mem :: memory
  u_dev :: devices

datatype outcome = Running kernel | Shut_Down kernel

definition continue :: "kernel cres \<Rightarrow> outcome cres" where
  "continue r = cbind r (\<lambda>k. Inr (Running k))"

definition dispatch :: "layout \<Rightarrow> kernel \<Rightarrow> nat \<Rightarrow> 32 word \<Rightarrow> 32 word \<Rightarrow> outcome cres" where
  "dispatch lay k cur why data =
     (if why = SYSCALL_CREATE then continue (sys_create lay k cur data)
      else if why = SYSCALL_MYTID then continue (sys_mytid k cur)
      else if why = SYSCALL_MYPARENTTID then continue (sys_myparenttid k cur)
      else if why = SYSCALL_YIELD then continue (sys_yield k cur)
      else if why = SYSCALL_EXIT then continue (sys_exit k cur)
      else if why = SYSCALL_SHUTDOWN then Inr (Shut_Down k)
      else if why = SYSCALL_SEND then continue (sys_send k cur data)
      else if why = SYSCALL_RECEIVE then continue (sys_receive k cur)
      else if why = SYSCALL_REPLY then continue (sys_reply k cur data)
      else if why = SYSCALL_AWAITEVENT then continue (sys_awaitevent k cur data)
      else if why = SYSCALL_IRQ then continue (sys_irq k cur)
      else Inl (Assert_Failed ''Unknown Syscall''))"

definition kernel_running :: "kernel \<Rightarrow> bool" where
  "kernel_running k = (scheduler_length (k_sched k) > 1 \<or> interrupt_tasks k \<noteq> 0)"

definition kernel_step :: "layout \<Rightarrow> kernel \<Rightarrow> user_run \<Rightarrow> outcome cres" where
  "kernel_step lay k u =
     cbind (kassert (\<not> dev_bit k (UART1_BASE + UART_RSR_OFFSET) OE_MASK) ''Dropped sensor byte'') (\<lambda>_.
     cbind (pop_ready_queue (k_sched k)) (\<lambda>(cur, s).
     cbind (rd (blocks s) cur) (\<lambda>c.
     cbind (run_user (ctx_at lay cur) (t_context c) (u_task u) (u_mem u)) (\<lambda>(why, t').
     cbind (upd_task (k\<lparr> k_sched := s, k_mem := u_mem u, k_dev := u_dev u \<rparr>) cur
              (\<lambda>x. x\<lparr> t_context := t' \<rparr>)) (\<lambda>k1.
       dispatch lay k1 cur why (get_data t'))))))"

subsection \<open>Boot\<close>

text \<open>
  \<open>bs\<close> and \<open>rq\<close> are the uninitialised arrays \<open>backing\<close> and \<open>heap\<close> on the stack of \<open>kmain\<close>; \<open>d\<close> the devices once
  the input of UART 1 is drained. The exception vectors and the caches are not modelled.
\<close>

definition read_track :: "bool \<Rightarrow> 32 word \<Rightarrow> char" where
  "read_track on_board mac =
     (if \<not> on_board then CHR ''?''
      else if mac = 0x0e6d then CHR ''a'' else if mac = 0xc5da then CHR ''b'' else CHR ''?'')"

definition boot_devices :: "devices \<Rightarrow> devices cres" where
  "boot_devices d =
     cbind (uart_init COM2 (d(UART1_BASE + UART_RSR_OFFSET := 0))) (\<lambda>d1.
     cbind (enable_irq d1) (\<lambda>d2.
     cbind (timer_init TIMER1 d2) (\<lambda>d3.
     cbind (start_timer TIMER1 d3) (\<lambda>d4.
     cbind (timer_init TIMER3 d4) (start_timer TIMER3)))))"

definition boot_kernel ::
  "layout \<Rightarrow> addr \<Rightarrow> addr \<Rightarrow> tcb list \<Rightarrow> nat list \<Rightarrow> memory \<Rightarrow> devices \<Rightarrow> (nat \<Rightarrow> 32 word) \<Rightarrow> kernel cres" where
  "boot_kernel lay idle task_k4_init bs rq m d clock =
     cbind (boot_devices d) (\<lambda>d'.
     cbind (scheduler_init MAX_NUM_TASKS bs rq) (\<lambda>s.
     cbind (scheduler_add lay s (-99) idle (-1) (lit ''idle'') (clock 0)) (\<lambda>(_, s1).
     cbind (scheduler_add lay s1 100 task_k4_init (-1) (lit ''k1init'') (clock 1)) (\<lambda>(_, s2).
       Inr \<lparr> k_sched = s2, event_mapping = replicate NUMBER_OF_EVENTS None, interrupt_tasks = 0,
             uart1_tx_flag = 0, k_mem = m, k_dev = d', k_clock = clock, k_reads = 2 \<rparr>))))"

end
