(* ===== verification/Kernel_Inv.thy ===== *)
theory Kernel_Inv
  imports Kernel
begin

section \<open>The kernel invariant\<close>

text \<open>
  Every task is in exactly one place: in the ready queue, waiting for an event, in the list of
  senders of one task, blocked in Receive or Reply, or no task at all. The lists linked through
  \<open>next\<close> are described by the lists of their members: \<open>sq r\<close> for the senders waiting for \<open>r\<close>, \<open>fl\<close> for the free
  descriptors. \<open>run\<close> holds the tasks a step has taken out of their place and not put back yet.
\<close>

fun links :: "tcb list \<Rightarrow> tcb_ptr \<Rightarrow> nat list \<Rightarrow> bool" where
  "links bs p [] = (p = None)"
| "links bs p (x # xs) = (p = Some x \<and> x < length bs \<and> links bs (t_next (bs ! x)) xs)"

definition senders_ok :: "tcb list \<Rightarrow> (nat \<Rightarrow> nat list) \<Rightarrow> bool" where
  "senders_ok bs sq \<longleftrightarrow>
     (\<forall>r < length bs. links bs (want_send (bs ! r)) (sq r) \<and>
        want_send_end (bs ! r) = (if sq r = [] then None else Some (last (sq r))) \<and>
        distinct (sq r) \<and> (\<forall>x \<in> set (sq r). t_state (bs ! x) = SEND) \<and>
        (\<forall>r' < length bs. r \<noteq> r' \<longrightarrow> set (sq r) \<inter> set (sq r') = {})) \<and>
     (\<forall>x < length bs. t_state (bs ! x) = SEND \<longrightarrow> (\<exists>r < length bs. x \<in> set (sq r)))"

definition free_ok :: "tcb list \<Rightarrow> tcb_ptr \<Rightarrow> nat list \<Rightarrow> bool" where
  "free_ok bs p fl \<longleftrightarrow> links bs p fl \<and> distinct fl \<and> (\<forall>x \<in> set fl. t_state (bs ! x) = ZOMBIE)"

text \<open>What holds of each descriptor by itself.\<close>

definition tcb_ok :: "layout \<Rightarrow> nat \<Rightarrow> tcb \<Rightarrow> bool" where
  "tcb_ok lay i t \<longleftrightarrow>
     t_tid t = int i \<and> length (task_name t) = MAX_TASK_NAME_LEN \<and> t_state t \<noteq> ACTIVE \<and> t_state t \<noteq> EVENT \<and>
     (t_state t \<noteq> ZOMBIE \<longrightarrow>
        stack_check_a (t_context t) = ctx_at lay i XOR 93 \<and>
        stack_check_b (t_context t) = ctx_at lay i XOR 72)"

definition tcbs_ok :: "layout \<Rightarrow> tcb list \<Rightarrow> bool" where
  "tcbs_ok lay bs \<longleftrightarrow> (\<forall>i < length bs. tcb_ok lay i (bs ! i))"

definition waiting :: "tcb_ptr list \<Rightarrow> nat list" where
  "waiting em = List.map_filter (\<lambda>p. p) em"

text \<open>The tasks that are ready are those in one of the three places of a ready task.\<close>

definition places_ok :: "tcb list \<Rightarrow> nat list \<Rightarrow> bool" where
  "places_ok bs places \<longleftrightarrow>
     distinct places \<and> (\<forall>i. i \<in> set places \<longleftrightarrow> i < length bs \<and> t_state (bs ! i) = READY)"

definition events_ok :: "tcb_ptr list \<Rightarrow> int \<Rightarrow> bool" where
  "events_ok em n \<longleftrightarrow> length em = NUMBER_OF_EVENTS \<and> em ! BREAK_IDLE = None \<and> n = int (length (waiting em))"

definition kinv :: "layout \<Rightarrow> kernel \<Rightarrow> nat list \<Rightarrow> (nat \<Rightarrow> nat list) \<Rightarrow> nat list \<Rightarrow> bool" where
  "kinv lay k run sq fl \<longleftrightarrow>
     (let s = k_sched k; bs = blocks s in
      sched_inv s \<and> capacity s = MAX_NUM_TASKS \<and> tcbs_ok lay bs \<and> senders_ok bs sq \<and>
      free_ok bs (free_tcb s) fl \<and> events_ok (event_mapping k) (interrupt_tasks k) \<and>
      places_ok bs (queued s @ waiting (event_mapping k) @ run))"

definition kernel_ok :: "layout \<Rightarrow> kernel \<Rightarrow> bool" where
  "kernel_ok lay k \<longleftrightarrow> (\<exists>sq fl. kinv lay k [] sq fl)"

subsection \<open>Lists linked through next\<close>

lemma links_cong:
  "length bs = length bs' \<Longrightarrow> (\<And>x. x \<in> set xs \<Longrightarrow> t_next (bs ! x) = t_next (bs' ! x)) \<Longrightarrow>
     links bs p xs = links bs' p xs"
  by (induction xs arbitrary: p) auto

lemma links_bound: "links bs p xs \<Longrightarrow> x \<in> set xs \<Longrightarrow> x < length bs"
  by (induction xs arbitrary: p) auto


text \<open>Appending \<open>y\<close>: the old last element now points to it.\<close>

lemma links_append:
  assumes "links bs p xs" "xs \<noteq> []" "distinct xs" "length bs' = length bs"
    and "y < length bs" "t_next (bs' ! y) = None" "t_next (bs' ! last xs) = Some y"
    and "\<And>x. x \<in> set xs \<Longrightarrow> x \<noteq> last xs \<Longrightarrow> t_next (bs' ! x) = t_next (bs ! x)"
  shows "links bs' p (xs @ [y])"
  using assms
proof (induction xs arbitrary: p)
  case (Cons x xs)
  show ?case
  proof (cases "xs = []")
    case False
    then have "x \<noteq> last xs" using Cons.prems(3) last_in_set by fastforce
    then show ?thesis using Cons False by auto
  qed (use Cons.prems in auto)
qed simp

subsection \<open>Updating one descriptor\<close>

text \<open>The state with descriptor \<open>i\<close> replaced.\<close>

definition put :: "kernel \<Rightarrow> nat \<Rightarrow> tcb \<Rightarrow> kernel" where
  "put k i t = k\<lparr> k_sched := (k_sched k)\<lparr> blocks := (blocks (k_sched k))[i := t] \<rparr> \<rparr>"

lemma put_sel [simp]:
  "blocks (k_sched (put k i t)) = (blocks (k_sched k))[i := t]"
  "queued (k_sched (put k i t)) = queued (k_sched k)"
  "event_mapping (put k i t) = event_mapping k" "interrupt_tasks (put k i t) = interrupt_tasks k"
  "free_tcb (k_sched (put k i t)) = free_tcb (k_sched k)"
  "rq_count (k_sched (put k i t)) = rq_count (k_sched k)"
  "capacity (k_sched (put k i t)) = capacity (k_sched k)"
  "k_mem (put k i t) = k_mem k" "k_dev (put k i t) = k_dev k" "k_reads (put k i t) = k_reads k"
  by (simp_all add: put_def queued_def)

lemma upd_task_put:
  "i < length (blocks (k_sched k)) \<Longrightarrow> upd_task k i f = Inr (put k i (f (blocks (k_sched k) ! i)))"
  by (simp add: upd_task_def upd_tcb_def put_def)

lemma kinvD:
  assumes "kinv lay k run sq fl"
  shows "sched_inv (k_sched k)" "capacity (k_sched k) = MAX_NUM_TASKS"
    "length (blocks (k_sched k)) = MAX_NUM_TASKS" "tcbs_ok lay (blocks (k_sched k))"
    "senders_ok (blocks (k_sched k)) sq" "free_ok (blocks (k_sched k)) (free_tcb (k_sched k)) fl"
    "events_ok (event_mapping k) (interrupt_tasks k)"
    "places_ok (blocks (k_sched k)) (queued (k_sched k) @ waiting (event_mapping k) @ run)"
proof -
  show s: "sched_inv (k_sched k)" and c: "capacity (k_sched k) = MAX_NUM_TASKS"
    using assms unfolding kinv_def Let_def by blast+
  show "length (blocks (k_sched k)) = MAX_NUM_TASKS" using s c by (simp add: sched_inv_def)
qed (use assms in \<open>unfold kinv_def Let_def, blast\<close>)+

lemma sched_inv_put:
  assumes "sched_inv (k_sched k)" "t_priority t = t_priority (blocks (k_sched k) ! i)"
    and "added_time t = added_time (blocks (k_sched k) ! i)"
  shows "sched_inv (k_sched (put k i t))"
proof -
  let ?bs = "blocks (k_sched k)"
  have "entry_of (?bs[i := t]) j = entry_of ?bs j" for j
    using assms(2,3) by (auto simp: entry_of_def nth_update)
  then show ?thesis using assms(1) by (simp add: sched_inv_def put_def queued_def)
qed

lemma sched_inv_put_other:
  assumes "sched_inv (k_sched k)" "i \<notin> set (queued (k_sched k))"
  shows "sched_inv (k_sched (put k i t))"
proof -
  let ?s = "k_sched k" and ?bs = "blocks (k_sched k)"
  have "heap_ok (queue_le (?bs[i := t])) (ready_queue ?s) (rq_count ?s)"
    using assms queue_le_cong [of "rq_count ?s" "ready_queue ?s" "?bs[i := t]" ?bs]
      entry_of_update [of _ i ?bs t]
    by (metis queued_def sched_inv_def)
  then show ?thesis using assms(1) by (simp add: sched_inv_def put_def queued_def)
qed

lemma tcbs_ok_put: "tcbs_ok lay bs \<Longrightarrow> tcb_ok lay i t \<Longrightarrow> tcbs_ok lay (bs[i := t])"
  by (auto simp: tcbs_ok_def nth_update)

text \<open>A change that concerns no list: neither the old nor the new state is SEND.\<close>

lemma senders_ok_put:
  assumes "senders_ok bs sq" "t_state (bs ! i) \<noteq> SEND" "t_state t \<noteq> SEND"
    and "want_send t = want_send (bs ! i)" "want_send_end t = want_send_end (bs ! i)"
  shows "senders_ok (bs[i := t]) sq"
proof -
  have same: "(bs[i := t]) ! x = bs ! x" if "r < length bs" "x \<in> set (sq r)" for x r
    using assms(1,2) that by (cases "x = i") (auto simp: senders_ok_def)
  have ws: "want_send (bs[i := t] ! r) = want_send (bs ! r)"
    "want_send_end (bs[i := t] ! r) = want_send_end (bs ! r)" for r
    using assms(4,5) by (cases "r = i"; cases "i < length bs"; simp add: list_update_beyond)+
  have "links (bs[i := t]) p (sq r) = links bs p (sq r)" if "r < length bs" for r p
    using same [OF that] by (intro links_cong) auto
  moreover have "t_state (bs[i := t] ! x) = SEND \<Longrightarrow> t_state (bs ! x) = SEND" if "x < length bs" for x
    using assms(3) that by (cases "x = i") auto
  ultimately show ?thesis
    using assms(1) same ws by (simp add: senders_ok_def)
qed

lemma free_ok_put:
  "free_ok bs p fl \<Longrightarrow> i \<notin> set fl \<or> (t_state t = ZOMBIE \<and> t_next t = t_next (bs ! i)) \<Longrightarrow>
     free_ok (bs[i := t]) p fl"
proof (unfold free_ok_def, elim conjE, intro conjI)
  assume l: "links bs p fl" and i: "i \<notin> set fl \<or> (t_state t = ZOMBIE \<and> t_next t = t_next (bs ! i))"
  have "links (bs[i := t]) p fl = links bs p fl"
    by (rule links_cong) (use i in \<open>auto simp: nth_update\<close>)
  then show "links (bs[i := t]) p fl" using l by simp
  show "distinct fl" if "distinct fl" using that .
  assume "\<forall>x \<in> set fl. t_state (bs ! x) = ZOMBIE"
  then show "\<forall>x \<in> set fl. t_state (bs[i := t] ! x) = ZOMBIE"
    using i by (auto simp: nth_update)
qed

subsection \<open>Tasks on their way\<close>

lemma places_okD:
  assumes "places_ok bs places"
  shows "distinct places" "i \<in> set places \<longleftrightarrow> i < length bs \<and> t_state (bs ! i) = READY"
  using assms by (auto simp: places_ok_def)

text \<open>A task taken out of its place is ready, and in no list.\<close>

lemma kinv_run:
  assumes "kinv lay k run sq fl" "i \<in> set run"
  shows "i < MAX_NUM_TASKS" "t_state (blocks (k_sched k) ! i) = READY" "i \<notin> set (queued (k_sched k))"
    "i \<notin> set (waiting (event_mapping k))" "i \<notin> set fl" "tcb_ok lay i (blocks (k_sched k) ! i)"
proof -
  note inv = kinvD [OF assms(1)]
  have i: "i \<in> set (queued (k_sched k) @ waiting (event_mapping k) @ run)" using assms(2) by simp
  then show st: "i < MAX_NUM_TASKS" "t_state (blocks (k_sched k) ! i) = READY"
    using places_okD(2) [OF inv(8)] inv(3) by auto
  show "i \<notin> set (queued (k_sched k))" "i \<notin> set (waiting (event_mapping k))"
    using places_okD(1) [OF inv(8)] assms(2) by auto
  show "i \<notin> set fl" using inv(6) st(2) by (auto simp: free_ok_def)
  show "tcb_ok lay i (blocks (k_sched k) ! i)" using inv(3,4) st(1) by (simp add: tcbs_ok_def)
qed

lemma places_ok_put:
  "places_ok bs places \<Longrightarrow> t_state t = t_state (bs ! i) \<Longrightarrow> places_ok (bs[i := t]) places"
  by (auto simp: places_ok_def nth_update)

text \<open>Its descriptor may be changed in fields no list and no order depends on.\<close>

lemma kinv_put_run:
  assumes inv: "kinv lay k run sq fl" and i: "i \<in> set run" and t: "tcb_ok lay i t"
    and same: "t_state t = READY" "want_send t = want_send (blocks (k_sched k) ! i)"
      "want_send_end t = want_send_end (blocks (k_sched k) ! i)"
  shows "kinv lay (put k i t) run sq fl"
proof -
  note d = kinvD [OF inv] and r = kinv_run [OF inv i]
  have "senders_ok ((blocks (k_sched k))[i := t]) sq"
    by (rule senders_ok_put [OF d(5)]) (simp_all add: r(2) same)
  moreover have "places_ok ((blocks (k_sched k))[i := t])
      (queued (k_sched k) @ waiting (event_mapping k) @ run)"
    by (rule places_ok_put [OF d(8)]) (simp add: r(2) same(1))
  ultimately show ?thesis
    unfolding kinv_def Let_def
    using d(2,7) sched_inv_put_other [OF d(1) r(3)] tcbs_ok_put [OF d(4) t] free_ok_put [OF d(6)] r(5)
    by simp
qed

text \<open>Only this changes when \<open>t\<close> is put into the ready queue, with \<open>ctx\<close> as its context.\<close>

definition readied :: "kernel \<Rightarrow> nat \<Rightarrow> user_task \<Rightarrow> kernel \<Rightarrow> bool" where
  "readied k t ctx k' \<longleftrightarrow>
     mset (queued (k_sched k')) = add_mset t (mset (queued (k_sched k))) \<and>
     blocks (k_sched k') = (blocks (k_sched k))[t := (blocks (k_sched k) ! t)
       \<lparr> t_context := ctx, added_time := k_clock k (k_reads k) \<rparr>] \<and>
     event_mapping k' = event_mapping k \<and> interrupt_tasks k' = interrupt_tasks k \<and>
     k_mem k' = k_mem k \<and> k_dev k' = k_dev k \<and> k_reads k' = k_reads k + 1 \<and>
     uart1_tx_flag k' = uart1_tx_flag k \<and> free_tcb (k_sched k') = free_tcb (k_sched k)"

lemma make_ready_ok:
  assumes inv: "kinv lay k (t # run) sq fl"
  obtains k' where "make_ready k t = Inr k'" "kinv lay k' run sq fl"
    "readied k t (t_context (blocks (k_sched k) ! t)) k'"
proof -
  note d = kinvD [OF inv] and r = kinv_run [OF inv, of t, simplified]
  let ?s = "k_sched k" and ?bs = "blocks (k_sched k)"
  let ?t = "(?bs ! t)\<lparr> added_time := k_clock k (k_reads k) \<rparr>"
  have len: "length (queued ?s) = rq_count ?s" using d(1) by (simp add: queued_def sched_inv_def)
  have "insert t (set (queued ?s)) \<subseteq> {..<MAX_NUM_TASKS}" "distinct (t # queued ?s)"
    using r(1,3) d(1,2) by (auto simp: sched_inv_def)
  then have "length (t # queued ?s) \<le> MAX_NUM_TASKS"
    using card_mono [of "{..<MAX_NUM_TASKS}" "set (t # queued ?s)"] distinct_card by fastforce
  then have room: "rq_count ?s < capacity ?s" using len d(2) by simp
  obtain rq where rq: "add_to_ready_queue ?s (Some t) (k_clock k (k_reads k)) =
      Inr (?s\<lparr> blocks := ?bs[t := ?t], rq_count := rq_count ?s + 1, ready_queue := rq \<rparr>)"
    "sched_inv (?s\<lparr> blocks := ?bs[t := ?t], rq_count := rq_count ?s + 1, ready_queue := rq \<rparr>)"
    "mset (take (rq_count ?s + 1) rq) = add_mset t (mset (queued ?s))"
    using add_to_ready_queue_ok [OF d(1) room, of t "k_clock k (k_reads k)"] r(1,3) d(2) by metis
  let ?k' = "k\<lparr> k_sched := ?s\<lparr> blocks := ?bs[t := ?t], rq_count := rq_count ?s + 1, ready_queue := rq \<rparr>,
      k_reads := k_reads k + 1 \<rparr>"
  have "kinv lay (put k t ?t) (t # run) sq fl"
    using r by (intro kinv_put_run [OF inv]) (auto simp: tcb_ok_def)
  note d' = kinvD [OF this, simplified]
  have places: "places_ok (?bs[t := ?t]) (take (rq_count ?s + 1) rq @ waiting (event_mapping k) @ run)"
  proof -
    have "mset (take (rq_count ?s + 1) rq @ waiting (event_mapping k) @ run) =
        mset (queued ?s @ waiting (event_mapping k) @ t # run)"
      using rq(3) by simp
    then show ?thesis
      using d'(8) mset_eq_imp_distinct_iff mset_eq_setD unfolding places_ok_def by metis
  qed
  have "kinv lay ?k' run sq fl"
    using rq(2) d d' places by (simp add: kinv_def Let_def queued_def)
  then show ?thesis
    using that [of ?k'] rq(1,3) by (simp add: make_ready_def queued_def readied_def)
qed

lemma ret_ready_ok:
  assumes inv: "kinv lay k (t # run) sq fl"
  obtains k' where "ret_ready k t v = Inr k'" "kinv lay k' run sq fl"
    "readied k t (set_return (t_context (blocks (k_sched k) ! t)) (word_of_int v)) k'"
proof -
  note r = kinv_run [OF inv, of t, simplified] and len = kinvD(3) [OF inv]
  let ?t = "(blocks (k_sched k) ! t)
    \<lparr> t_context := set_return (t_context (blocks (k_sched k) ! t)) (word_of_int v) \<rparr>"
  have put: "kinv lay (put k t ?t) (t # run) sq fl"
    using r by (intro kinv_put_run [OF inv]) (auto simp: tcb_ok_def)
  obtain k' where k': "make_ready (put k t ?t) t = Inr k'" "kinv lay k' run sq fl"
    "readied (put k t ?t) t (t_context (blocks (k_sched (put k t ?t)) ! t)) k'"
    using make_ready_ok [OF put] by metis
  have "set_ret k t (word_of_int v) = Inr (put k t ?t)"
    using upd_task_put [of t k] r(1) len by (simp add: set_ret_def)
  then show ?thesis
    using that [of k'] k' r(1) len
    by (simp add: ret_ready_def readied_def put_def queued_def)
qed

text \<open>Nothing in the invariant depends on the memory, the devices or the clock.\<close>

lemma kinv_env [simp]:
  "kinv lay (k\<lparr> k_mem := m \<rparr>) run sq fl = kinv lay k run sq fl"
  "kinv lay (k\<lparr> k_dev := d \<rparr>) run sq fl = kinv lay k run sq fl"
  "kinv lay (k\<lparr> k_reads := n \<rparr>) run sq fl = kinv lay k run sq fl"
  "kinv lay (k\<lparr> uart1_tx_flag := f \<rparr>) run sq fl = kinv lay k run sq fl"
  by (simp_all add: kinv_def)

text \<open>A change of state in which no list of senders takes part.\<close>

lemma kinv_restate:
  assumes inv: "kinv lay k run sq fl" and i: "i < MAX_NUM_TASKS"
    and t: "tcb_ok lay i t" "t_priority t = t_priority (blocks (k_sched k) ! i)"
      "added_time t = added_time (blocks (k_sched k) ! i)"
      "want_send t = want_send (blocks (k_sched k) ! i)"
      "want_send_end t = want_send_end (blocks (k_sched k) ! i)"
    and st: "t_state (blocks (k_sched k) ! i) \<noteq> SEND" "t_state t \<noteq> SEND" "i \<notin> set fl"
    and places: "places_ok ((blocks (k_sched k))[i := t])
      (queued (k_sched k) @ waiting (event_mapping k) @ run')"
  shows "kinv lay (put k i t) run' sq fl"
proof -
  note d = kinvD [OF inv]
  have "senders_ok ((blocks (k_sched k))[i := t]) sq"
    by (rule senders_ok_put [OF d(5) st(1,2) t(4,5)])
  then show ?thesis
    unfolding kinv_def Let_def
    using d(2,7) sched_inv_put [OF d(1) t(2,3)] tcbs_ok_put [OF d(4) t(1)] free_ok_put [OF d(6)]
      st(3) places by simp
qed

text \<open>A running task blocks, or a blocked one is taken up.\<close>

lemma kinv_block:
  assumes inv: "kinv lay k (i # run) sq fl" and t: "tcb_ok lay i (t\<lparr> t_state := st \<rparr>)"
    and "t = blocks (k_sched k) ! i" "st \<noteq> READY" "st \<noteq> SEND"
  shows "kinv lay (put k i (t\<lparr> t_state := st \<rparr>)) run sq fl"
proof -
  note d = kinvD [OF inv] and r = kinv_run [OF inv, of i, simplified]
  have "places_ok ((blocks (k_sched k))[i := t\<lparr> t_state := st \<rparr>])
      (queued (k_sched k) @ waiting (event_mapping k) @ run)"
    using d(3,8) r(1) assms(4) by (auto simp: places_ok_def nth_update)
  then show ?thesis
    using assms(3,5) t r by (intro kinv_restate [OF inv]) simp_all
qed

lemma kinv_unblock:
  assumes inv: "kinv lay k run sq fl" and i: "i < MAX_NUM_TASKS" and t: "t = blocks (k_sched k) ! i"
    and st: "t_state t \<in> {RECEIVE, REPLY}"
  shows "kinv lay (put k i (t\<lparr> t_state := READY \<rparr>)) (i # run) sq fl"
proof -
  note d = kinvD [OF inv]
  have "i \<notin> set (queued (k_sched k) @ waiting (event_mapping k) @ run)"
    using places_okD(2) [OF d(8), of i] st t by auto
  then have "places_ok ((blocks (k_sched k))[i := t\<lparr> t_state := READY \<rparr>])
      (queued (k_sched k) @ waiting (event_mapping k) @ i # run)"
    using d(3,8) i by (auto simp: places_ok_def nth_update)
  moreover have "i \<notin> set fl" using d(6) st t by (auto simp: free_ok_def)
  moreover have "tcb_ok lay i (t\<lparr> t_state := READY \<rparr>)"
    using d(3,4) i t st by (auto simp: tcbs_ok_def tcb_ok_def)
  ultimately show ?thesis
    using st t i by (intro kinv_restate [OF inv]) auto
qed

subsection \<open>The lists of senders\<close>

text \<open>How \<open>enqueue_sender\<close> and the first half of Receive change the links, field by field.\<close>

definition enqueued :: "tcb list \<Rightarrow> (nat \<Rightarrow> nat list) \<Rightarrow> nat \<Rightarrow> nat \<Rightarrow> tcb list \<Rightarrow> bool" where
  "enqueued bs sq cur target bs' \<longleftrightarrow>
     length bs' = length bs \<and>
     (\<forall>x. t_state (bs' ! x) = (if x = cur then SEND else t_state (bs ! x)) \<and>
        t_next (bs' ! x) = (if x = cur then None
          else if sq target \<noteq> [] \<and> x = last (sq target) then Some cur else t_next (bs ! x)) \<and>
        want_send (bs' ! x) =
          (if x = target \<and> sq target = [] then Some cur else want_send (bs ! x)) \<and>
        want_send_end (bs' ! x) = (if x = target then Some cur else want_send_end (bs ! x)))"

lemma senders_okD:
  assumes "senders_ok bs sq" "r < length bs"
  shows "links bs (want_send (bs ! r)) (sq r)"
    "want_send_end (bs ! r) = (if sq r = [] then None else Some (last (sq r)))"
    "distinct (sq r)" "x \<in> set (sq r) \<Longrightarrow> t_state (bs ! x) = SEND \<and> x < length bs"
    "r' < length bs \<Longrightarrow> r \<noteq> r' \<Longrightarrow> x \<in> set (sq r) \<Longrightarrow> x \<notin> set (sq r')"
    "x < length bs \<Longrightarrow> t_state (bs ! x) = SEND \<Longrightarrow> \<exists>r < length bs. x \<in> set (sq r)"
  using assms links_bound [of bs "want_send (bs ! r)" "sq r" x] by (auto simp: senders_ok_def)

lemma senders_ok_enqueue:
  assumes ok: "senders_ok bs sq" and cur: "cur < length bs" "t_state (bs ! cur) \<noteq> SEND"
    and target: "target < length bs" and enq: "enqueued bs sq cur target bs'"
  shows "senders_ok bs' (sq(target := sq target @ [cur]))"
proof -
  note s = senders_okD [OF ok]
  have len: "length bs' = length bs" using enq by (simp add: enqueued_def)
  have cur': "cur \<notin> set (sq r)" if "r < length bs" for r using s(4) [OF that] cur(2) by blast
  have other: "links bs' p (sq r) = links bs p (sq r)" if "r < length bs" "r \<noteq> target" for r p
  proof (rule links_cong)
    fix x assume x: "x \<in> set (sq r)"
    have "sq target \<noteq> [] \<Longrightarrow> x \<noteq> last (sq target)"
      using s(5) [OF that(1) target that(2) x] by auto
    then show "t_next (bs' ! x) = t_next (bs ! x)"
      using enq cur' [OF that(1)] x by (auto simp: enqueued_def)
  qed (rule len)
  have target_links: "links bs' (want_send (bs' ! target)) (sq target @ [cur])"
  proof (cases "sq target = []")
    case False
    then show ?thesis
      using enq cur' [OF target] cur(1) s(1,3) [OF target] last_in_set [OF False]
      by (intro links_append [of bs]) (auto simp: enqueued_def)
  qed (use enq cur len in \<open>simp add: enqueued_def\<close>)
  have state: "t_state (bs' ! x) = SEND \<longleftrightarrow> x = cur \<or> t_state (bs ! x) = SEND" for x
    using enq by (simp add: enqueued_def)
  let ?sq = "sq(target := sq target @ [cur])"
  have each: "links bs' (want_send (bs' ! r)) (?sq r) \<and>
      want_send_end (bs' ! r) = (if ?sq r = [] then None else Some (last (?sq r))) \<and>
      distinct (?sq r) \<and> (\<forall>x \<in> set (?sq r). t_state (bs' ! x) = SEND) \<and>
      (\<forall>r' < length bs. r \<noteq> r' \<longrightarrow> set (?sq r) \<inter> set (?sq r') = {})" if r: "r < length bs" for r
  proof (cases "r = target")
    case True
    then show ?thesis
      using target_links enq s(3,4) [OF target] cur' cur' [OF target] s(5) [OF target] state by (auto simp: enqueued_def)
  next
    case False
    then show ?thesis
      using other [OF r False] enq s(1-4) [OF r] cur' [OF r] s(5) [OF r] state target
      by (auto simp: enqueued_def)
  qed
  show ?thesis
    unfolding senders_ok_def len
  proof (intro conjI)
    show "\<forall>x < length bs. t_state (bs' ! x) = SEND \<longrightarrow> (\<exists>r < length bs. x \<in> set (?sq r))"
    proof (intro allI impI)
      fix x assume x: "x < length bs" "t_state (bs' ! x) = SEND"
      show "\<exists>r < length bs. x \<in> set (?sq r)"
      proof (cases "x = cur")
        case False
        then obtain r where "r < length bs" "x \<in> set (sq r)"
          using s(6) [OF target x(1)] x(2) state by blast
        then show ?thesis by (intro exI [of _ r]) auto
      qed (use target in \<open>auto intro!: exI [of _ target]\<close>)
    qed
  qed (use each in blast)
qed

text \<open>Receive takes \<open>src\<close>, the first sender, off the list of \<open>cur\<close>.\<close>

definition dequeued :: "tcb list \<Rightarrow> nat \<Rightarrow> nat \<Rightarrow> nat list \<Rightarrow> tcb list \<Rightarrow> bool" where
  "dequeued bs cur src rest bs' \<longleftrightarrow>
     length bs' = length bs \<and>
     (\<forall>x. t_state (bs' ! x) = (if x = src then REPLY else t_state (bs ! x)) \<and>
        t_next (bs' ! x) = (if x = src then None else t_next (bs ! x)) \<and>
        want_send (bs' ! x) = (if x = cur then t_next (bs ! src) else want_send (bs ! x)) \<and>
        want_send_end (bs' ! x) = (if x = cur \<and> rest = [] then None else want_send_end (bs ! x)))"

lemma senders_ok_dequeue:
  assumes ok: "senders_ok bs sq" and cur: "cur < length bs" "sq cur = src # rest"
    and deq: "dequeued bs cur src rest bs'"
  shows "senders_ok bs' (sq(cur := rest))"
proof -
  note s = senders_okD [OF ok]
  have len: "length bs' = length bs" using deq by (simp add: dequeued_def)
  have src: "src \<in> set (sq cur)" "src \<notin> set rest" using s(3) [OF cur(1)] cur(2) by auto
  have src': "src \<notin> set (sq r)" if "r < length bs" "r \<noteq> cur" for r
    using s(5) [OF cur(1) that(1) _ src(1)] that(2) by blast
  let ?sq = "sq(cur := rest)"
  have notin: "src \<notin> set (?sq r)" if "r < length bs" for r using src(2) src' that by simp
  have sub: "set (?sq r) \<subseteq> set (sq r)" for r using cur(2) by auto
  have next_same: "links bs' p (?sq r) = links bs p (?sq r)" if "r < length bs" for r p
    using deq notin [OF that] len by (intro links_cong) (auto simp: dequeued_def)
  have "links bs (want_send (bs ! cur)) (src # rest)" using s(1) [OF cur(1)] cur(2) by simp
  then have head: "links bs (t_next (bs ! src)) rest" by simp
  have each: "links bs' (want_send (bs' ! r)) (?sq r) \<and>
      want_send_end (bs' ! r) = (if ?sq r = [] then None else Some (last (?sq r))) \<and>
      distinct (?sq r) \<and> (\<forall>x \<in> set (?sq r). t_state (bs' ! x) = SEND) \<and>
      (\<forall>r' < length bs. r \<noteq> r' \<longrightarrow> set (?sq r) \<inter> set (?sq r') = {})" if r: "r < length bs" for r
  proof (intro conjI)
    show "links bs' (want_send (bs' ! r)) (?sq r)"
      using next_same [OF r] head s(1) [OF r] deq by (auto simp: dequeued_def)
    show "want_send_end (bs' ! r) = (if ?sq r = [] then None else Some (last (?sq r)))"
      using s(2) [OF r] deq cur(2) by (auto simp: dequeued_def)
    show "distinct (?sq r)" using s(3) [OF r] cur(2) by auto
    show "\<forall>x \<in> set (?sq r). t_state (bs' ! x) = SEND"
      using s(4) [OF r] sub [of r] deq notin [OF r] by (auto simp: dequeued_def)
    show "\<forall>r' < length bs. r \<noteq> r' \<longrightarrow> set (?sq r) \<inter> set (?sq r') = {}"
      using s(5) [OF r] sub by blast
  qed
  have "\<exists>r < length bs. x \<in> set (?sq r)" if x: "x < length bs" "t_state (bs' ! x) = SEND" for x
  proof -
    have "x \<noteq> src" "t_state (bs ! x) = SEND" using x(2) deq by (auto simp: dequeued_def split: if_splits)
    then obtain r where "r < length bs" "x \<in> set (sq r)" using s(6) [OF cur(1) x(1)] by blast
    then show ?thesis using cur(2) \<open>x \<noteq> src\<close> by (intro exI [of _ r]) auto
  qed
  then show ?thesis unfolding senders_ok_def len using each by blast
qed

definition with_blocks :: "kernel \<Rightarrow> tcb list \<Rightarrow> kernel" where
  "with_blocks k bs = k\<lparr> k_sched := (k_sched k)\<lparr> blocks := bs \<rparr> \<rparr>"

text \<open>Only the state and the links differ between the two descriptors.\<close>

definition relinked :: "tcb \<Rightarrow> tcb \<Rightarrow> bool" where
  "relinked t t' \<longleftrightarrow>
     t_priority t' = t_priority t \<and> added_time t' = added_time t \<and> t_tid t' = t_tid t \<and>
     task_name t' = task_name t \<and> t_context t' = t_context t \<and> parentTid t' = parentTid t \<and>
     (t_state t' \<noteq> t_state t \<longrightarrow>
        t_state t' \<noteq> ACTIVE \<and> t_state t' \<noteq> EVENT \<and> t_state t \<noteq> ZOMBIE)"

lemma kinv_with_blocks:
  assumes inv: "kinv lay k run sq fl" and len: "length bs' = length (blocks (k_sched k))"
    and same: "\<And>x. x < length bs' \<Longrightarrow> relinked (blocks (k_sched k) ! x) (bs' ! x)"
    and senders: "senders_ok bs' sq'"
    and free: "\<And>x. x \<in> set fl \<Longrightarrow> t_state (bs' ! x) = ZOMBIE \<and> t_next (bs' ! x) = t_next (blocks (k_sched k) ! x)"
    and places: "places_ok bs' (queued (k_sched k) @ waiting (event_mapping k) @ run')"
  shows "kinv lay (with_blocks k bs') run' sq' fl"
proof -
  note d = kinvD [OF inv]
  let ?s = "k_sched k" and ?bs = "blocks (k_sched k)"
  have "entry_of bs' x = entry_of ?bs x" if "x \<in> set (queued ?s)" for x
  proof -
    have "x < length bs'" using d(1) that len by (simp add: sched_inv_def)
    then show ?thesis using same by (simp add: entry_of_def relinked_def)
  qed
  then have "heap_ok (queue_le bs') (ready_queue ?s) (rq_count ?s)"
    using d(1) queue_le_cong [of "rq_count ?s" "ready_queue ?s" bs' ?bs]
    by (simp add: sched_inv_def queued_def)
  then have "sched_inv (k_sched (with_blocks k bs'))"
    using d(1) len by (simp add: sched_inv_def with_blocks_def queued_def)
  moreover have "tcbs_ok lay bs'"
    unfolding tcbs_ok_def
  proof (intro allI impI)
    fix x assume x: "x < length bs'"
    have "tcb_ok lay x (?bs ! x)" using d(4) len x by (simp add: tcbs_ok_def)
    then show "tcb_ok lay x (bs' ! x)"
      using same [OF x] by (cases "t_state (bs' ! x) = t_state (?bs ! x)") (auto simp: tcb_ok_def relinked_def)
  qed
  moreover have "free_ok bs' (free_tcb ?s) fl"
  proof -
    have "links bs' (free_tcb ?s) fl = links ?bs (free_tcb ?s) fl"
      using free len by (intro links_cong) auto
    then show ?thesis using d(6) free by (simp add: free_ok_def)
  qed
  ultimately show ?thesis
    unfolding kinv_def Let_def using d senders places by (simp add: with_blocks_def queued_def)
qed

end
