(* ===== verification/Kernel_Steps.thy ===== *)
theory Kernel_Steps
  imports Kernel_Inv
begin

section \<open>The kernel keeps its invariant\<close>

text \<open>
  Each handler of the kernel, started with the calling task taken off the ready queue, ends with every
  task in a place again. The lemmas say which list or place changes; the properties at the end
  are about whole steps and about the messages.
\<close>

subsection \<open>Queueing a sender\<close>

lemma with_blocks_sel [simp]:
  "blocks (k_sched (with_blocks k bs)) = bs" "with_blocks (with_blocks k bs) bs' = with_blocks k bs'"
  "queued (k_sched (with_blocks k bs)) = queued (k_sched k)"
  "event_mapping (with_blocks k bs) = event_mapping k" "k_mem (with_blocks k bs) = k_mem k"
  "interrupt_tasks (with_blocks k bs) = interrupt_tasks k" "k_dev (with_blocks k bs) = k_dev k"
  "k_clock (with_blocks k bs) = k_clock k" "k_reads (with_blocks k bs) = k_reads k"
  by (simp_all add: with_blocks_def queued_def)

lemma upd_task_with_blocks:
  "i < length (blocks (k_sched k)) \<Longrightarrow>
     upd_task k i f = Inr (with_blocks k ((blocks (k_sched k))[i := f (blocks (k_sched k) ! i)]))"
  by (simp add: upd_task_def upd_tcb_def with_blocks_def)

lemma enqueue_sender_blocks:
  assumes "senders_ok (blocks (k_sched k)) sq" "cur < length (blocks (k_sched k))"
    "target < length (blocks (k_sched k))" "t_state (blocks (k_sched k) ! cur) = READY"
  obtains bs' where "enqueue_sender k cur target = Inr (with_blocks k bs')"
    "enqueued (blocks (k_sched k)) sq cur target bs'"
    "\<And>x. relinked (blocks (k_sched k) ! x) (bs' ! x)"
proof -
  let ?bs = "blocks (k_sched k)"
  let ?b1 = "?bs[cur := (?bs ! cur)\<lparr> t_state := SEND, t_next := None \<rparr>]"
  let ?link = "case want_send_end (?bs ! target) of
      Some e \<Rightarrow> ?b1[e := (?b1 ! e)\<lparr> t_next := Some cur \<rparr>]
    | None \<Rightarrow> ?b1[target := (?b1 ! target)\<lparr> want_send := Some cur \<rparr>]"
  let ?b3 = "?link[target := (?link ! target)\<lparr> want_send_end := Some cur \<rparr>]"
  note s = senders_okD [OF assms(1,3)]
  have we: "want_send_end (?b1 ! target) = want_send_end (?bs ! target)" by (simp add: nth_update)
  have e: "want_send_end (?bs ! target) = Some e \<Longrightarrow>
      e < length ?bs \<and> e \<noteq> cur \<and> sq target \<noteq> [] \<and> e = last (sq target)" for e
    using s(2) s(4) [of e] assms(4) last_in_set [of "sq target"] by (auto split: if_splits)
  have "enqueue_sender k cur target = Inr (with_blocks k ?b3)"
    using assms(2,3) e we
    by (simp add: enqueue_sender_def upd_task_with_blocks split: option.splits)
  moreover have "enqueued ?bs sq cur target ?b3 \<and> (\<forall>x. relinked (?bs ! x) (?b3 ! x))"
  proof (cases "sq target = []")
    case True
    then have "want_send_end (?bs ! target) = None" using s(2) by simp
    then show ?thesis
      using assms(2-4) True by (auto simp: enqueued_def relinked_def nth_update)
  next
    case False
    then have we: "want_send_end (?bs ! target) = Some (last (sq target))" using s(2) by simp
    then show ?thesis
      using assms(2-4) False e [OF we] by (auto simp: enqueued_def relinked_def nth_update)
  qed
  ultimately show ?thesis using that by blast
qed

text \<open>A place for each ready task, seen from the states alone.\<close>

lemma places_ok_drop:
  assumes "places_ok bs (xs @ cur # run)" "length bs' = length bs"
    and "\<And>x. x < length bs \<Longrightarrow> t_state (bs' ! x) = READY \<longleftrightarrow> t_state (bs ! x) = READY \<and> x \<noteq> cur"
  shows "places_ok bs' (xs @ run)"
  using assms by (auto simp: places_ok_def)

lemma enqueue_sender_ok:
  assumes inv: "kinv lay k (cur # run) sq fl" and target: "target < MAX_NUM_TASKS"
  obtains bs' where "enqueue_sender k cur target = Inr (with_blocks k bs')"
    "kinv lay (with_blocks k bs') run (sq(target := sq target @ [cur])) fl"
    "enqueued (blocks (k_sched k)) sq cur target bs'"
    "\<And>x. relinked (blocks (k_sched k) ! x) (bs' ! x)"
proof -
  note d = kinvD [OF inv] and r = kinv_run [OF inv, of cur, simplified]
  let ?bs = "blocks (k_sched k)"
  obtain bs' where bs': "enqueue_sender k cur target = Inr (with_blocks k bs')"
    "enqueued ?bs sq cur target bs'" "\<And>x. relinked (?bs ! x) (bs' ! x)"
    using enqueue_sender_blocks [OF d(5), of cur target] r(1,2) target d(3) by auto
  have len: "length bs' = length ?bs" using bs'(2) by (simp add: enqueued_def)
  have senders: "senders_ok bs' (sq(target := sq target @ [cur]))"
    by (rule senders_ok_enqueue [OF d(5) _ _ _ bs'(2)]) (use r(1,2) target d(3) in auto)
  have last: "sq target \<noteq> [] \<Longrightarrow> t_state (?bs ! last (sq target)) = SEND"
    using senders_okD(4) [OF d(5), of target "last (sq target)"] target d(3) by simp
  have free: "t_state (bs' ! x) = ZOMBIE \<and> t_next (bs' ! x) = t_next (?bs ! x)" if "x \<in> set fl" for x
  proof -
    have x: "t_state (?bs ! x) = ZOMBIE" using d(6) that by (simp add: free_ok_def)
    moreover have "x \<noteq> cur" using r(5) that by auto
    moreover have "\<not> (sq target \<noteq> [] \<and> x = last (sq target))" using last x by auto
    ultimately show ?thesis using bs'(2) by (auto simp: enqueued_def)
  qed
  have "t_state (bs' ! x) = READY \<longleftrightarrow> t_state (?bs ! x) = READY \<and> x \<noteq> cur" for x
    using bs'(2) by (simp add: enqueued_def)
  then have "places_ok bs' (queued (k_sched k) @ waiting (event_mapping k) @ run)"
    using places_ok_drop [OF _ len, of "queued (k_sched k) @ waiting (event_mapping k)" cur run] d(8)
    by simp
  then have "kinv lay (with_blocks k bs') run (sq(target := sq target @ [cur])) fl"
    by (intro kinv_with_blocks [OF inv len bs'(3) senders free]) simp_all
  then show ?thesis using that bs' by blast
qed

lemma readied_queued: "readied k t ctx k' \<Longrightarrow> t \<in> set (queued (k_sched k'))"
  by (auto simp: readied_def dest!: arg_cong [of _ _ set_mset])

subsection \<open>Delivering a message\<close>

text \<open>
  The part of the kernel state \<open>handle_send\<close> leaves in memory: the receiver's \<open>int\<close> holds
  the sender's tid, and the message is copied over that.
\<close>

definition delivered :: "memory \<Rightarrow> tcb \<Rightarrow> tcb \<Rightarrow> memory \<times> int" where
  "delivered m s d =
     (let s_args = get_data (t_context s); r_args = get_data (t_context d);
          m1 = st32 m (ld32 m r_args) (word_of_int (t_tid s))
      in msg_copy (ld32 m1 (s_args + 4)) (ld_int m1 (s_args + 8))
           (ld32 m1 (r_args + 4)) (ld_int m1 (r_args + 8)) m1)"

text \<open>\<open>src\<close> is a running task that now waits for a reply; \<open>dst\<close> was blocked in Receive.\<close>

lemma handle_send_ok:
  assumes inv: "kinv lay k (src # run) sq fl" and dst: "dst < MAX_NUM_TASKS"
    and st: "t_state (blocks (k_sched k) ! dst) = RECEIVE"
    and del: "delivered (k_mem k) (blocks (k_sched k) ! src) (blocks (k_sched k) ! dst) = (m, ret)"
  obtains k' where "handle_send k src dst = Inr k'" "kinv lay k' run sq fl" "k_mem k' = m"
    "t_state (blocks (k_sched k') ! src) = REPLY" "t_state (blocks (k_sched k') ! dst) = READY"
    "get_data (t_context (blocks (k_sched k') ! dst)) = word_of_int ret"
    "dst \<in> set (queued (k_sched k'))"
    "\<And>x. t_state (blocks (k_sched k') ! x) =
       (if x = src then REPLY else if x = dst then READY else t_state (blocks (k_sched k) ! x))"
proof -
  note d = kinvD [OF inv] and r = kinv_run [OF inv, of src, simplified]
  let ?bs = "blocks (k_sched k)"
  let ?s = "(?bs ! src)\<lparr> t_state := REPLY \<rparr>"
  let ?k1 = "put k src ?s"
  have ne: "src \<noteq> dst" using r(2) st by auto
  have k1: "kinv lay ?k1 run sq fl"
    using r by (intro kinv_block [OF inv]) (auto simp: tcb_ok_def)
  let ?d = "(?bs ! dst)\<lparr> t_state := READY \<rparr>"
  let ?k2 = "put ?k1 dst ?d"
  have k2: "kinv lay ?k2 (dst # run) sq fl"
    using st ne dst by (intro kinv_unblock [OF k1]) auto
  have bs2: "blocks (k_sched ?k2) = ?bs[src := ?s, dst := ?d]" by simp
  obtain k' where k': "ret_ready (?k2\<lparr> k_mem := m \<rparr>) dst ret = Inr k'" "kinv lay k' run sq fl"
    "readied (?k2\<lparr> k_mem := m \<rparr>) dst (set_return (t_context ?d) (word_of_int ret)) k'"
    using ret_ready_ok [of lay "?k2\<lparr> k_mem := m \<rparr>" dst run sq fl ret] k2 dst d(3) ne by auto
  have "handle_send k src dst = Inr k'"
    using k'(1) del r(1) dst d(3) ne
    by (simp add: handle_send_def upd_task_put delivered_def Let_def)
  then show ?thesis
    using that [of k'] k'(2,3) r(1) dst d(3) ne
    by (auto simp: readied_def nth_update dest: arg_cong [of _ _ set_mset])
qed

subsection \<open>Send, Receive, Reply\<close>

text \<open>
  What a Send may do: fail, hand the message to a task blocked in Receive, or queue the
  caller. A tid of 125 passes the check of the code and reads past the array.
\<close>

lemma sys_send_ok:
  assumes inv: "kinv lay k [cur] sq fl" and tid: "ld_int (k_mem k) data \<noteq> int MAX_NUM_TASKS"
  obtains k' sq' where "sys_send k cur data = Inr k'" "kinv lay k' [] sq' fl"
proof -
  note d = kinvD [OF inv]
  let ?tid = "ld_int (k_mem k) data"
  show ?thesis
  proof (cases "?tid < 0 \<or> ?tid > int MAX_NUM_TASKS")
    case True
    obtain k' where "ret_ready k cur EINVALIDTID = Inr k'" "kinv lay k' [] sq fl"
      using ret_ready_ok [OF inv] by metis
    then show ?thesis using that True by (simp add: sys_send_def Let_def)
  next
    case False
    let ?i = "nat ?tid"
    let ?target = "blocks (k_sched k) ! ?i"
    have i: "?i < MAX_NUM_TASKS" using False tid by linarith
    have run: "sys_send k cur data =
        (if t_state ?target = ZOMBIE then ret_ready k cur EINVALIDTID
         else if t_state ?target = RECEIVE then handle_send k cur ?i
         else enqueue_sender k cur ?i)"
      using False i d(3) by (simp add: sys_send_def Let_def)
    obtain m ret where del:
      "delivered (k_mem k) (blocks (k_sched k) ! cur) (blocks (k_sched k) ! ?i) = (m, ret)"
      by fastforce
    consider "t_state ?target = ZOMBIE" | "t_state ?target = RECEIVE"
      | "t_state ?target \<notin> {ZOMBIE, RECEIVE}" by blast
    then show ?thesis
    proof cases
      case 1
      obtain k' where "ret_ready k cur EINVALIDTID = Inr k'" "kinv lay k' [] sq fl"
        using ret_ready_ok [OF inv] by metis
      then show ?thesis using that run 1 by simp
    next
      case 2
      obtain k' where "handle_send k cur ?i = Inr k'" "kinv lay k' [] sq fl"
        using handle_send_ok [OF inv i 2 del] by metis
      then show ?thesis using that run 2 by simp
    next
      case 3
      obtain bs' where "enqueue_sender k cur ?i = Inr (with_blocks k bs')"
        "kinv lay (with_blocks k bs') [] (sq(?i := sq ?i @ [cur])) fl"
        using enqueue_sender_ok [OF inv i] by metis
      then show ?thesis using that run 3 by simp
    qed
  qed
qed

lemma delivered_cong:
  "relinked s s' \<Longrightarrow> relinked d d' \<Longrightarrow> delivered m s' d' = delivered m s d"
  by (simp add: delivered_def relinked_def)

text \<open>\<open>handle_send\<close> to a task that is ready already.\<close>

lemma handle_send_eq:
  assumes "b3 = (blocks (k_sched k))[src := (blocks (k_sched k) ! src)\<lparr> t_state := REPLY \<rparr>]"
    and "src < length (blocks (k_sched k))" "dst < length (blocks (k_sched k))"
    and "t_state (b3 ! dst) = READY" "delivered (k_mem k) (b3 ! src) (b3 ! dst) = (m, ret)"
  shows "handle_send k src dst = ret_ready ((with_blocks k b3)\<lparr> k_mem := m \<rparr>) dst ret"
proof -
  have "(b3 ! dst)\<lparr> t_state := READY \<rparr> = b3 ! dst" using assms(4) by simp
  then have "b3[dst := (b3 ! dst)\<lparr> t_state := READY \<rparr>] = b3" by simp
  then show ?thesis
    using assms(2,3,5) unfolding handle_send_def assms(1)
    by (simp add: upd_task_with_blocks delivered_def Let_def)
qed

text \<open>Receive with an empty list blocks; otherwise it takes the sender that came first.\<close>

lemma sys_receive_empty:
  assumes inv: "kinv lay k [cur] sq fl" and "sq cur = []"
  obtains k' where "sys_receive k cur = Inr k'" "kinv lay k' [] sq fl"
    "t_state (blocks (k_sched k') ! cur) = RECEIVE"
    "\<And>x. t_state (blocks (k_sched k') ! x) = (if x = cur then RECEIVE else t_state (blocks (k_sched k) ! x))"
    "k' = put k cur ((blocks (k_sched k) ! cur)\<lparr> t_state := RECEIVE \<rparr>)"
proof -
  note d = kinvD [OF inv] and r = kinv_run [OF inv, of cur, simplified]
  let ?t = "(blocks (k_sched k) ! cur)\<lparr> t_state := RECEIVE \<rparr>"
  have "want_send (blocks (k_sched k) ! cur) = None"
    using senders_okD(1) [OF d(5), of cur] r(1) d(3) assms(2) by simp
  then have "sys_receive k cur = Inr (put k cur ?t)"
    using r(1) d(3) by (simp add: sys_receive_def upd_task_put)
  moreover have "kinv lay (put k cur ?t) [] sq fl"
    using r by (intro kinv_block [OF inv]) (auto simp: tcb_ok_def)
  ultimately show ?thesis using that r(1) d(3) by (simp add: nth_update)
qed

lemma sys_receive_sender:
  assumes inv: "kinv lay k [cur] sq fl" and sq: "sq cur = src # rest"
    and del: "delivered (k_mem k) (blocks (k_sched k) ! src) (blocks (k_sched k) ! cur) = (m, ret)"
  obtains k' where "sys_receive k cur = Inr k'" "kinv lay k' [] (sq(cur := rest)) fl" "k_mem k' = m"
    "t_state (blocks (k_sched k') ! src) = REPLY"
    "get_data (t_context (blocks (k_sched k') ! cur)) = word_of_int ret"
    "cur \<in> set (queued (k_sched k'))"
    "\<And>x. t_state (blocks (k_sched k') ! x) = (if x = src then REPLY else t_state (blocks (k_sched k) ! x))"
proof -
  note d = kinvD [OF inv] and r = kinv_run [OF inv, of cur, simplified]
  let ?bs = "blocks (k_sched k)"
  note s = senders_okD [OF d(5), of cur, unfolded d(3), OF r(1)]
  have src: "src < MAX_NUM_TASKS" "t_state (?bs ! src) = SEND" "src \<noteq> cur"
    using s(4) [of src] sq r(2) d(3) by auto
  have ws: "want_send (?bs ! cur) = Some src" using s(1) sq by simp
  have rest: "t_next (?bs ! src) = None \<longleftrightarrow> rest = []" using s(1) sq by (cases rest) auto
  define c where "c = (?bs ! cur)\<lparr> want_send := t_next (?bs ! src),
    want_send_end := (if t_next (?bs ! src) = None then None else want_send_end (?bs ! cur)) \<rparr>"
  define b2 where "b2 = ?bs[cur := c, src := (?bs ! src)\<lparr> t_next := None \<rparr>]"
  define b3 where "b3 = b2[src := (b2 ! src)\<lparr> t_state := REPLY \<rparr>]"
  note defs = c_def b2_def b3_def
  have len: "length b2 = MAX_NUM_TASKS" "length b3 = MAX_NUM_TASKS" using d(3) by (simp_all add: defs)
  have deq: "dequeued ?bs cur src rest b3"
    using r(1) src(1,3) d(3) rest by (auto simp: dequeued_def nth_update defs)
  have rel: "relinked (?bs ! x) (b3 ! x)" for x
    using src r(1) d(3) by (simp add: relinked_def nth_update defs)
  have senders: "senders_ok b3 (sq(cur := rest))"
    using senders_ok_dequeue [OF d(5) _ sq deq] r(1) d(3) by simp
  have free: "t_state (b3 ! x) = ZOMBIE \<and> t_next (b3 ! x) = t_next (?bs ! x)" if "x \<in> set fl" for x
  proof -
    have "t_state (?bs ! x) = ZOMBIE" using d(6) that by (simp add: free_ok_def)
    then show ?thesis using src r(2,5) that by (auto simp: nth_update defs)
  qed
  have state: "t_state (b3 ! x) = (if x = src then REPLY else t_state (?bs ! x))" for x
    using deq by (simp add: dequeued_def)
  then have "places_ok b3 (queued (k_sched k) @ waiting (event_mapping k) @ [cur])"
    using d(8) src(2) len(2) d(3) by (auto simp: places_ok_def)
  then have "kinv lay (with_blocks k b3) [cur] (sq(cur := rest)) fl"
    by (intro kinv_with_blocks [OF inv _ rel senders free]) (simp_all add: len d(3))
  then have k3: "kinv lay ((with_blocks k b3)\<lparr> k_mem := m \<rparr>) [cur] (sq(cur := rest)) fl"
    by simp
  obtain k' where k': "ret_ready ((with_blocks k b3)\<lparr> k_mem := m \<rparr>) cur ret = Inr k'"
    "kinv lay k' [] (sq(cur := rest)) fl"
    "readied ((with_blocks k b3)\<lparr> k_mem := m \<rparr>) cur (set_return (t_context (b3 ! cur)) (word_of_int ret)) k'"
    using ret_ready_ok [OF k3, of ret] by auto
  have "sys_receive k cur = handle_send (with_blocks k b2) src cur"
    using r(1) d(3) ws src(1,3) by (simp add: sys_receive_def upd_task_with_blocks defs)
  also have "\<dots> = ret_ready ((with_blocks (with_blocks k b2) b3)\<lparr> k_mem := m \<rparr>) cur ret"
  proof (rule handle_send_eq)
    show "delivered (k_mem (with_blocks k b2)) (b3 ! src) (b3 ! cur) = (m, ret)"
      using del delivered_cong [OF rel rel] by simp
    show "t_state (b3 ! cur) = READY" using state src(3) r(2) by simp
  qed (use len src(1) r(1) in \<open>simp_all add: b3_def\<close>)
  finally have "sys_receive k cur = Inr k'" using k'(1) by simp
  then show ?thesis
    using that [of k'] k'(2,3) state r(1) r(2) src(1,3) len
    by (auto simp: readied_def nth_update dest: arg_cong [of _ _ set_mset])
qed

text \<open>Reply to a task that waits for one: both go on, with the length copied.\<close>

lemma sys_reply_ok:
  assumes inv: "kinv lay k [cur] sq fl" and tid: "ld_int (k_mem k) data = int t" "t < MAX_NUM_TASKS"
    and st: "t_state (blocks (k_sched k) ! t) = REPLY"
    and copy: "msg_copy (ld32 (k_mem k) (data + 4)) (ld_int (k_mem k) (data + 8))
      (ld32 (k_mem k) (get_data (t_context (blocks (k_sched k) ! t)) + 12))
      (ld_int (k_mem k) (get_data (t_context (blocks (k_sched k) ! t)) + 16)) (k_mem k) = (m, ret)"
  obtains k' where "sys_reply k cur data = Inr k'" "kinv lay k' [] sq fl" "k_mem k' = m"
    "get_data (t_context (blocks (k_sched k') ! t)) = word_of_int ret"
    "get_data (t_context (blocks (k_sched k') ! cur)) = word_of_int ret"
    "t \<in> set (queued (k_sched k'))" "cur \<in> set (queued (k_sched k'))"
    "\<And>x. t_state (blocks (k_sched k') ! x) = (if x = t then READY else t_state (blocks (k_sched k) ! x))"
proof -
  note d = kinvD [OF inv] and r = kinv_run [OF inv, of cur, simplified]
  let ?bs = "blocks (k_sched k)"
  have ne: "t \<noteq> cur" using st r(2) by auto
  let ?t = "(?bs ! t)\<lparr> t_state := READY \<rparr>"
  have k1: "kinv lay ((put k t ?t)\<lparr> k_mem := m \<rparr>) [t, cur] sq fl"
    using kinv_unblock [OF inv tid(2) refl] st by simp
  obtain k2 where k2: "ret_ready ((put k t ?t)\<lparr> k_mem := m \<rparr>) t ret = Inr k2" "kinv lay k2 [cur] sq fl"
    "readied ((put k t ?t)\<lparr> k_mem := m \<rparr>) t (set_return (t_context (?bs ! t)) (word_of_int ret)) k2"
    using ret_ready_ok [OF k1, of ret] tid(2) d(3) by auto
  obtain k3 where k3: "ret_ready k2 cur ret = Inr k3" "kinv lay k3 [] sq fl"
    "readied k2 cur (set_return (t_context (blocks (k_sched k2) ! cur)) (word_of_int ret)) k3"
    using ret_ready_ok [OF k2(2), of ret] by auto
  have "sys_reply k cur data = Inr k3"
    using tid st copy k2(1) k3(1) d(3)
    by (simp add: sys_reply_def Let_def rdi_def upd_task_put)
  then show ?thesis
    using that [of k3] k2(3) k3(2,3) tid(2) r(1) d(3) ne
    by (auto simp: readied_def nth_update dest!: arg_cong [of _ _ set_mset])
qed

lemma sys_reply_valid:
  assumes "sys_reply k cur data = Inr k'" "length (blocks (k_sched k)) = MAX_NUM_TASKS"
  obtains t where "ld_int (k_mem k) data = int t" "t < MAX_NUM_TASKS"
    "t_state (blocks (k_sched k) ! t) = REPLY"
proof -
  let ?tid = "ld_int (k_mem k) data"
  have "0 \<le> ?tid" "nat ?tid < MAX_NUM_TASKS" "t_state (blocks (k_sched k) ! nat ?tid) = REPLY"
    using assms
    by (auto simp: sys_reply_def Let_def rdi_def rd_def kernel_debugprint_def c_simps
        split: if_splits)
  then show ?thesis using that [of "nat ?tid"] by simp
qed

subsection \<open>Tasks and events\<close>

lemma sys_exit_ok:
  assumes inv: "kinv lay k [cur] sq fl"
  obtains k' where "sys_exit k cur = Inr k'" "kinv lay k' [] sq fl"
proof -
  note d = kinvD [OF inv] and r = kinv_run [OF inv, of cur, simplified]
  have "kinv lay (put k cur ((blocks (k_sched k) ! cur)\<lparr> t_state := ZOMBIE \<rparr>)) [] sq fl"
    using r by (intro kinv_block [OF inv]) (auto simp: tcb_ok_def)
  then show ?thesis using that r(1) d(3) by (simp add: sys_exit_def upd_task_put)
qed

text \<open>A new task takes the first free descriptor.\<close>

definition new_tcb :: "layout \<Rightarrow> nat \<Rightarrow> tcb \<Rightarrow> int \<Rightarrow> addr \<Rightarrow> int \<Rightarrow> char list \<Rightarrow> tcb" where
  "new_tcb lay x t priority func parent nm = t\<lparr> t_next := None, parentTid := parent,
     t_priority := priority, t_state := READY, task_name := nm,
     t_context := init_user_task (ctx_at lay x) (exit_at lay) func \<rparr>"

lemma kinv_new_task:
  assumes inv: "kinv lay k run sq (x # fl)" and nm: "length nm = MAX_TASK_NAME_LEN"
    and t: "t = new_tcb lay x (blocks (k_sched k) ! x) priority func parent nm"
  shows "kinv lay (k\<lparr> k_sched := (k_sched k)\<lparr> free_tcb := t_next (blocks (k_sched k) ! x),
    blocks := (blocks (k_sched k))[x := t] \<rparr> \<rparr>) (x # run) sq fl"
proof -
  note d = kinvD [OF inv]
  let ?bs = "blocks (k_sched k)"
  have x: "x < MAX_NUM_TASKS" "t_state (?bs ! x) = ZOMBIE" "x \<notin> set fl"
    "links ?bs (t_next (?bs ! x)) fl"
    using d(3,6) by (auto simp: free_ok_def)
  have fields: "t_state t = READY" "want_send t = want_send (?bs ! x)"
    "want_send_end t = want_send_end (?bs ! x)" "t_tid t = t_tid (?bs ! x)"
    by (simp_all add: t new_tcb_def)
  have q: "x \<notin> set (queued (k_sched k) @ waiting (event_mapping k) @ run)"
    using places_okD(2) [OF d(8), of x] x(2) by auto
  have "tcb_ok lay x t"
    using d(3,4) x(1) nm by (simp add: tcbs_ok_def tcb_ok_def t new_tcb_def init_user_task_def)
  then have "tcbs_ok lay (?bs[x := t])" using d(4) tcbs_ok_put by blast
  moreover have "senders_ok (?bs[x := t]) sq"
    by (rule senders_ok_put [OF d(5)]) (simp_all add: x fields)
  moreover have "free_ok (?bs[x := t]) (t_next (?bs ! x)) fl"
    using d(6) x by (intro free_ok_put) (simp_all add: free_ok_def)
  moreover have "places_ok (?bs[x := t]) (queued (k_sched k) @ waiting (event_mapping k) @ x # run)"
    using d(3,8) q x(1) fields(1) by (auto simp: places_ok_def nth_update)
  moreover have "sched_inv (k_sched (put k x t))"
    using sched_inv_put_other [OF d(1)] q by simp
  ultimately show ?thesis
    unfolding kinv_def Let_def using d(2,7) by (simp add: put_def sched_inv_def queued_def)
qed

lemma strncpy_length:
  assumes "strncpy dest src n = Inr dest'" "terminated src"
  shows "length dest' = length dest"
  using assms strncpy_ok [of src dest n] strncpy_overflow [of dest src n]
  by (cases "length (cstr src) < length dest") (auto simp: lit_def)

lemma strncpy_loop_terminated: "strncpy_loop dest i src n = Inr dest' \<Longrightarrow> terminated src"
  by (induction dest i src n rule: strncpy_loop.induct)
     (auto simp: terminated_def c_simps split: if_splits)

lemma strncpy_terminated: "strncpy dest src n = Inr dest' \<Longrightarrow> terminated src"
  by (simp add: strncpy_def strncpy_loop_terminated)

text \<open>Create faults exactly when the name is not ended within the array of the argument struct.\<close>

lemma sys_create_ok:
  assumes inv: "kinv lay k [cur] sq fl"
    and name: "fl \<noteq> [] \<Longrightarrow> terminated (ld_chars (k_mem k) (data + 4) MAX_TASK_NAME_LEN)"
  obtains k' fl' where "sys_create lay k cur data = Inr k'" "kinv lay k' [] sq fl'"
    "get_data (t_context (blocks (k_sched k') ! cur)) =
       word_of_int (if fl = [] then ENOTASKDESCRIPTORS else int (hd fl))"
proof -
  note d = kinvD [OF inv] and r = kinv_run [OF inv, of cur, simplified]
  let ?bs = "blocks (k_sched k)" and ?m = "k_mem k"
  let ?name = "ld_chars ?m (data + 4) MAX_TASK_NAME_LEN"
  have tid: "t_tid (?bs ! x) = int x" "length (task_name (?bs ! x)) = MAX_TASK_NAME_LEN"
    if "x < MAX_NUM_TASKS" for x
    using d(3,4) that by (simp_all add: tcbs_ok_def tcb_ok_def)
  show ?thesis
  proof (cases fl)
    case Nil
    then have none: "free_tcb (k_sched k) = None" using d(6) by (simp add: free_ok_def)
    obtain k' where k': "ret_ready k cur ENOTASKDESCRIPTORS = Inr k'" "kinv lay k' [] sq fl"
      "readied k cur (set_return (t_context (?bs ! cur)) (word_of_int ENOTASKDESCRIPTORS)) k'"
      using ret_ready_ok [OF inv] by metis
    then show ?thesis
      using that none Nil r(1) d(3)
      by (simp add: sys_create_def Let_def scheduler_add_def readied_def)
  next
    case (Cons x fl')
    then have x: "free_tcb (k_sched k) = Some x" "x < MAX_NUM_TASKS" "x \<noteq> cur"
      using d(3,6) r(2) by (auto simp: free_ok_def)
    have name: "terminated ?name" using name Cons by simp
    have len: "length (cstr ?name) < MAX_TASK_NAME_LEN"
    proof -
      have "length (cstr ?name) < length ?name" using name by (rule cstr_length)
      then show ?thesis by (simp add: ld_chars_def)
    qed
    then obtain nm where nm: "strncpy (task_name (?bs ! x)) ?name MAX_TASK_NAME_LEN = Inr nm"
      "length nm = MAX_TASK_NAME_LEN"
      using strncpy_ok [OF name, of "task_name (?bs ! x)" MAX_TASK_NAME_LEN] tid(2) [OF x(2)]
        strncpy_length [OF _ name] by metis
    define t where
      "t = new_tcb lay x (?bs ! x) (ld_int ?m data) (ld32 ?m (data + 36)) (t_tid (?bs ! cur)) nm"
    let ?k1 = "k\<lparr> k_sched := (k_sched k)\<lparr> free_tcb := t_next (?bs ! x), blocks := ?bs[x := t] \<rparr> \<rparr>"
    have k1: "kinv lay ?k1 [x, cur] sq fl'"
      by (rule kinv_new_task [OF _ nm(2) t_def]) (use inv Cons in simp)
    obtain k2 where k2: "make_ready ?k1 x = Inr k2" "kinv lay k2 [cur] sq fl'"
      "readied ?k1 x (t_context (blocks (k_sched ?k1) ! x)) k2"
      using make_ready_ok [OF k1] by metis
    obtain k3 where k3: "ret_ready k2 cur (int x) = Inr k3" "kinv lay k3 [] sq fl'"
      "readied k2 cur (set_return (t_context (blocks (k_sched k2) ! cur)) (word_of_int (int x))) k3"
      using ret_ready_ok [OF k2(2)] by metis
    obtain s where s: "add_to_ready_queue (k_sched ?k1) (Some x) (k_clock k (k_reads k)) = Inr s"
      "k2 = ?k1\<lparr> k_sched := s, k_reads := k_reads k + 1 \<rparr>"
      using k2(1) by (auto simp: make_ready_def c_simps)
    have "t_tid (blocks s ! x) = int x" "x < length (blocks s)"
      using kinvD(3,4) [OF k2(2)] s(2) x(2) by (auto simp: tcbs_ok_def tcb_ok_def)
    then have "scheduler_add lay (k_sched k) (ld_int ?m data) (ld32 ?m (data + 36)) (t_tid (?bs ! cur))
        ?name (k_clock k (k_reads k)) = Inr (int x, s)"
      using x d(3) nm(1) s(1) by (simp add: scheduler_add_def upd_tcb_def t_def new_tcb_def)
    then have "sys_create lay k cur data = Inr k3"
      using r(1) d(3) k3(1) s(2) x(1) by (simp add: sys_create_def Let_def)
    then show ?thesis
      using that [of k3] k3(2,3) Cons kinvD(3) [OF k2(2)] r(1) by (simp add: readied_def)
  qed
qed

lemma waiting_split:
  assumes "e < length em"
  shows "mset (waiting em) =
    mset (waiting (em[e := None])) + (case em ! e of None \<Rightarrow> {#} | Some t \<Rightarrow> {# t #})"
proof -
  have em: "em = take e em @ em ! e # drop (Suc e) em" using assms by (rule id_take_nth_drop)
  have up: "em[e := None] = take e em @ None # drop (Suc e) em"
    using assms by (rule upd_conv_take_nth_drop)
  have app: "waiting (xs @ ys) = waiting xs @ waiting ys" for xs ys
    by (simp add: waiting_def map_filter_def)
  have cons: "waiting (p # xs) = (case p of None \<Rightarrow> waiting xs | Some t \<Rightarrow> t # waiting xs)" for p xs
    by (simp add: waiting_def map_filter_simps split: option.splits)
  show ?thesis
    by (subst em, subst up) (simp add: app cons split: option.splits)
qed

lemma places_ok_mset: "mset xs = mset ys \<Longrightarrow> places_ok bs xs = places_ok bs ys"
  unfolding places_ok_def by (metis mset_eq_imp_distinct_iff mset_eq_setD)

text \<open>A running task is entered into the table of events, or one in the table runs.\<close>

lemma kinv_events:
  assumes inv: "kinv lay k run sq fl"
    and "mset (waiting em) + mset run' = mset (waiting (event_mapping k)) + mset run"
    and "events_ok em n"
  shows "kinv lay (k\<lparr> event_mapping := em, interrupt_tasks := n \<rparr>) run' sq fl"
proof -
  note d = kinvD [OF inv]
  have "mset (queued (k_sched k) @ waiting em @ run') =
      mset (queued (k_sched k) @ waiting (event_mapping k) @ run)"
    using assms(2) by simp
  then have "places_ok (blocks (k_sched k)) (queued (k_sched k) @ waiting em @ run')"
    using d(8) places_ok_mset by blast
  then show ?thesis using d assms(3) by (simp add: kinv_def Let_def)
qed

lemma enable_fold: "set xs \<subseteq> set uart_intrs \<Longrightarrow> \<exists>d'. cfold (\<lambda>d i. enable_interrupt i d) d xs = Inr d'"
proof (induction xs arbitrary: d)
  case (Cons i xs)
  then obtain a m where "uart_intr i = Inr (a, m)" using uart_intr_ok [of i] by auto
  then show ?case using Cons by (simp add: enable_interrupt_def)
qed simp

lemma park_ok:
  assumes inv: "kinv lay k (cur # run) sq fl" and e: "e < NUMBER_OF_EVENTS" "e \<noteq> BREAK_IDLE"
    and free: "event_mapping k ! e = None" and intrs: "set xs \<subseteq> set uart_intrs"
  obtains k' where "park k cur e xs = Inr k'" "kinv lay k' run sq fl"
    "event_mapping k' = (event_mapping k)[e := Some cur]"
proof -
  note d = kinvD [OF inv]
  obtain d' where d': "cfold (\<lambda>d i. enable_interrupt i d) (k_dev k) xs = Inr d'"
    using enable_fold [OF intrs] by blast
  let ?em = "(event_mapping k)[e := Some cur]"
  have len: "length (event_mapping k) = NUMBER_OF_EVENTS" using d(7) by (simp add: events_ok_def)
  have bag: "mset (waiting ?em) = add_mset cur (mset (waiting (event_mapping k)))"
    using waiting_split [of e ?em] waiting_split [of e "event_mapping k"] e(1) len free by simp
  then have size: "length (waiting ?em) = length (waiting (event_mapping k)) + 1"
    by (metis Suc_eq_plus1 size_add_mset size_mset)
  have ev: "events_ok ?em (interrupt_tasks k + 1)"
    using d(7) e size by (simp add: events_ok_def)
  let ?k1 = "k\<lparr> k_dev := d' \<rparr>"
  have k1: "kinv lay ?k1 (cur # run) sq fl" using inv by simp
  have bag': "mset (waiting ?em) + mset run = mset (waiting (event_mapping ?k1)) + mset (cur # run)"
    using bag by simp
  have k2: "kinv lay (?k1\<lparr> event_mapping := ?em, interrupt_tasks := interrupt_tasks k + 1 \<rparr>) run sq fl"
    by (rule kinv_events [OF k1 bag' ev])
  have "park k cur e xs = Inr (?k1\<lparr> event_mapping := ?em, interrupt_tasks := interrupt_tasks k + 1 \<rparr>)"
    using d' e(1) len by (simp add: park_def with_dev_def)
  from that [OF this k2] show ?thesis by simp
qed

lemma wake_up_ok:
  assumes inv: "kinv lay k run sq fl" and e: "e < NUMBER_OF_EVENTS"
  obtains k' where "wake_up k e = Inr (event_mapping k ! e \<noteq> None, k')" "kinv lay k' run sq fl"
    "event_mapping k' = (event_mapping k)[e := None]" "k_dev k' = k_dev k"
    "uart1_tx_flag k' = uart1_tx_flag k"
    "\<And>t. event_mapping k ! e = Some t \<Longrightarrow> t \<in> set (queued (k_sched k'))"
proof (cases "event_mapping k ! e")
  case None
  have "length (event_mapping k) = NUMBER_OF_EVENTS" using kinvD(7) [OF inv] by (simp add: events_ok_def)
  then show ?thesis
    using that [of k] inv None e list_update_id [of "event_mapping k" e] by (simp add: wake_up_def)
next
  case (Some t)
  note d = kinvD [OF inv]
  let ?em = "(event_mapping k)[e := None]"
  have len: "length (event_mapping k) = NUMBER_OF_EVENTS" using d(7) by (simp add: events_ok_def)
  have bag: "mset (waiting (event_mapping k)) = add_mset t (mset (waiting ?em))"
    using waiting_split [of e "event_mapping k"] e len Some by simp
  then have size: "length (waiting (event_mapping k)) = length (waiting ?em) + 1"
    by (metis Suc_eq_plus1 size_add_mset size_mset)
  have ev: "events_ok ?em (interrupt_tasks k - 1)"
    using d(7) size by (auto simp: events_ok_def nth_update)
  have k1: "kinv lay (k\<lparr> event_mapping := ?em, interrupt_tasks := interrupt_tasks k - 1 \<rparr>) (t # run) sq fl"
    by (rule kinv_events [where run = run, OF inv _ ev]) (use bag in simp)
  let ?k1 = "k\<lparr> event_mapping := ?em, interrupt_tasks := interrupt_tasks k - 1 \<rparr>"
  obtain k' where k': "ret_ready ?k1 t 0 = Inr k'" "kinv lay k' run sq fl"
    and r: "readied ?k1 t (set_return (t_context (blocks (k_sched ?k1) ! t)) (word_of_int 0)) k'"
    by (rule ret_ready_ok [OF k1])
  have q: "t \<in> set (queued (k_sched k'))" by (rule readied_queued [OF r])
  have "wake_up k e = Inr (True, k')" using k'(1) Some e len by (simp add: wake_up_def)
  moreover have "event_mapping k' = ?em" "k_dev k' = k_dev k" "uart1_tx_flag k' = uart1_tx_flag k"
    using r by (simp_all add: readied_def)
  ultimately show ?thesis using that [of k'] k'(2) q Some by simp
qed

end
