(* ===== verification/Kernel_Loop.thy ===== *)
theory Kernel_Loop
  imports Kernel_Steps
begin

section \<open>Interrupts, whole steps and reachable states\<close>

text \<open>
  \<open>irq_served\<close> and \<open>call_served\<close> say from the state before the call when the handlers meet no failed
  assertion and no access outside an array. The theorems show that these are exactly the calls the
  kernel survives, and that it is then in order again.
\<close>

unbundle bit_operations_syntax

definition status_regs :: "addr list" where
  "status_regs = [VIC1_BASE + IRQ_STAT_OFFSET, VIC2_BASE + IRQ_STAT_OFFSET,
     UART2_BASE + UART_INTR_OFFSET, UART1_BASE + UART_INTR_OFFSET, UART1_BASE + UART_MDMSTS_OFFSET]"

definition same_status :: "devices \<Rightarrow> devices \<Rightarrow> bool" where
  "same_status d d' \<longleftrightarrow> list_all (\<lambda>a. d' a = d a) status_regs"

lemma same_status_refl [simp]: "same_status d d"
  by (simp add: same_status_def list_all_iff)

lemma same_statusD:
  assumes "same_status d d'"
  shows "d' (VIC1_BASE + IRQ_STAT_OFFSET) = d (VIC1_BASE + IRQ_STAT_OFFSET)"
    "d' (VIC2_BASE + IRQ_STAT_OFFSET) = d (VIC2_BASE + IRQ_STAT_OFFSET)"
    "d' (UART2_BASE + UART_INTR_OFFSET) = d (UART2_BASE + UART_INTR_OFFSET)"
    "d' (UART1_BASE + UART_INTR_OFFSET) = d (UART1_BASE + UART_INTR_OFFSET)"
    "d' (UART1_BASE + UART_MDMSTS_OFFSET) = d (UART1_BASE + UART_MDMSTS_OFFSET)"
  using assms by (simp_all add: same_status_def status_regs_def)

lemma same_status_trans: "same_status d d' \<Longrightarrow> same_status d' d'' \<Longrightarrow> same_status d d''"
  by (simp add: same_status_def status_regs_def)

lemma disable_fold_status:
  assumes "set xs \<subseteq> set uart_intrs"
  obtains d' where "cfold (\<lambda>d i. disable_interrupt i d) d xs = Inr d'" "same_status d d'"
proof -
  obtain d' where d': "cfold (\<lambda>d i. disable_interrupt i d) d xs = Inr d'"
    "\<forall>a. a \<notin> {UART1_BASE + UART_CTLR_OFFSET, UART2_BASE + UART_CTLR_OFFSET} \<longrightarrow> d' a = d a"
    using disable_fold [OF assms, of d] by blast
  have "same_status d d'"
    using d'(2) by (simp add: same_status_def status_regs_def device_defs UART_MDMSTS_OFFSET_def)
  with d'(1) that show ?thesis by blast
qed

lemma disable_status:
  assumes "i \<in> set uart_intrs"
  obtains d' where "disable_interrupt i d = Inr d'" "same_status d d'"
  using disable_fold_status [of "[i]" d] assms by (auto simp: c_simps)

lemma wake_someone_ok:
  assumes inv: "kinv lay k run sq fl" and e: "e < NUMBER_OF_EVENTS" and xs: "set xs \<subseteq> set uart_intrs"
    and some: "event_mapping k ! e \<noteq> None"
  obtains k' where "wake_someone k e xs = Inr k'" "kinv lay k' run sq fl"
    "event_mapping k' = (event_mapping k)[e := None]" "same_status (k_dev k) (k_dev k')"
    "uart1_tx_flag k' = uart1_tx_flag k"
proof -
  obtain k1 where k1: "wake_up k e = Inr (event_mapping k ! e \<noteq> None, k1)" "kinv lay k1 run sq fl"
    "event_mapping k1 = (event_mapping k)[e := None]" "k_dev k1 = k_dev k"
    "uart1_tx_flag k1 = uart1_tx_flag k"
    using wake_up_ok [OF inv e] by metis
  obtain d' where "cfold (\<lambda>d i. disable_interrupt i d) (k_dev k1) xs = Inr d'"
    "same_status (k_dev k1) d'"
    by (rule disable_fold_status [OF xs])
  then show ?thesis
    using that [of "k1\<lparr> k_dev := d' \<rparr>"] k1 some by (simp add: wake_someone_def with_dev_def)
qed

lemma wake_someone_nobody:
  assumes "kinv lay k run sq fl" "e < NUMBER_OF_EVENTS" "event_mapping k ! e = None"
  shows "wake_someone k e xs = Inl (Assert_Failed ''Nobody home'')"
proof -
  have "length (event_mapping k) = NUMBER_OF_EVENTS" using kinvD(7) [OF assms(1)] by (simp add: events_ok_def)
  then show ?thesis using assms(2,3) by (simp add: wake_someone_def wake_up_def)
qed

subsection \<open>The interrupt handler\<close>

text \<open>The flag of UART 1 after the handler has looked at the transmitter and at CTS.\<close>

definition tx_flag_after :: "kernel \<Rightarrow> 32 word" where
  "tx_flag_after k = uart1_tx_flag k
     OR (if dev_bit k (UART1_BASE + UART_INTR_OFFSET) TIS_MASK then 1 else 0)
     OR (if dev_bit k (UART1_BASE + UART_INTR_OFFSET) MIS_MASK \<and>
           dev_bit k (UART1_BASE + UART_MDMSTS_OFFSET) MSR_DCTS \<and>
           dev_bit k (UART1_BASE + UART_MDMSTS_OFFSET) MSR_CTS then 2 else 0)"

definition uart2_served :: "kernel \<Rightarrow> bool" where
  "uart2_served k \<longleftrightarrow>
     (if \<not> dev_bit k (VIC2_BASE + IRQ_STAT_OFFSET) VIC_INT_UART2_MASK then True
      else if dev_bit k (UART2_BASE + UART_INTR_OFFSET) RTIS_MASK \<or>
              dev_bit k (UART2_BASE + UART_INTR_OFFSET) RIS_MASK
      then event_mapping k ! UART2_RX_INCOMING \<noteq> None
      else if dev_bit k (UART2_BASE + UART_INTR_OFFSET) TIS_MASK
      then event_mapping k ! UART2_TX_HALF_EMPTY \<noteq> None
      else True)"

definition uart1_served :: "kernel \<Rightarrow> bool" where
  "uart1_served k \<longleftrightarrow>
     (dev_bit k (VIC2_BASE + IRQ_STAT_OFFSET) VIC_INT_UART1_MASK \<longrightarrow>
        (dev_bit k (UART1_BASE + UART_INTR_OFFSET) RIS_MASK \<longrightarrow> event_mapping k ! UART1_RX_INTR \<noteq> None) \<and>
        (tx_flag_after k = 3 \<longrightarrow> event_mapping k ! UART1_TX_INTR \<noteq> None))"

definition irq_served :: "kernel \<Rightarrow> bool" where
  "irq_served k \<longleftrightarrow> uart2_served k \<and> uart1_served k"

text \<open>\<open>k'\<close> follows \<open>k\<close> in the handler: only events in \<open>es\<close> may have been signalled in between.\<close>

definition irq_follows :: "layout \<Rightarrow> nat list \<Rightarrow> (nat \<Rightarrow> nat list) \<Rightarrow> nat list \<Rightarrow> nat set \<Rightarrow>
    kernel \<Rightarrow> kernel \<Rightarrow> bool" where
  "irq_follows lay run sq fl es k k' \<longleftrightarrow>
     kinv lay k' run sq fl \<and> same_status (k_dev k) (k_dev k') \<and> uart1_tx_flag k' = uart1_tx_flag k \<and>
     (\<forall>e. e \<notin> es \<longrightarrow> event_mapping k' ! e = event_mapping k ! e)"

lemma irq_follows_wake:
  assumes "kinv lay k run sq fl" "e < NUMBER_OF_EVENTS" "set xs \<subseteq> set uart_intrs" "e \<in> es"
  shows "if event_mapping k ! e = None then wake_someone k e xs = Inl (Assert_Failed ''Nobody home'')
    else (\<exists>k'. wake_someone k e xs = Inr k' \<and> irq_follows lay run sq fl es k k')"
proof (cases "event_mapping k ! e = None")
  case False
  obtain k' where "wake_someone k e xs = Inr k'" "kinv lay k' run sq fl"
    "event_mapping k' = (event_mapping k)[e := None]" "same_status (k_dev k) (k_dev k')"
    "uart1_tx_flag k' = uart1_tx_flag k"
    by (rule wake_someone_ok [OF assms(1-3) False])
  then show ?thesis using False assms(4) by (auto simp: irq_follows_def nth_update)
qed (use wake_someone_nobody [OF assms(1,2)] in simp)

lemma irq_follows_refl: "kinv lay k run sq fl \<Longrightarrow> irq_follows lay run sq fl es k k"
  by (simp add: irq_follows_def)

lemma irq_timer_ok:
  assumes inv: "kinv lay k run sq fl"
  shows "\<exists>k'. irq_timer k = Inr k' \<and> irq_follows lay run sq fl {TIMER_TICK} k k'"
proof -
  let ?k = "k\<lparr> k_dev := (k_dev k)(TIMER1_BASE + CLR_OFFSET := 1) \<rparr>"
  obtain k' where k': "wake_up ?k TIMER_TICK = Inr (event_mapping ?k ! TIMER_TICK \<noteq> None, k')"
    "kinv lay k' run sq fl" "event_mapping k' = (event_mapping ?k)[TIMER_TICK := None]"
    "k_dev k' = k_dev ?k" "uart1_tx_flag k' = uart1_tx_flag ?k"
    by (rule wake_up_ok [of lay ?k run sq fl TIMER_TICK]) (use inv in \<open>auto simp: event_defs\<close>)
  have "same_status (k_dev k) (k_dev ?k)"
    by (simp add: same_status_def status_regs_def device_defs)
  then have "irq_follows lay run sq fl {TIMER_TICK} k k'"
    using k'(2-5) by (simp add: irq_follows_def nth_update)
  then show ?thesis using k'(1) irq_follows_refl [OF inv] by (auto simp: irq_timer_def)
qed

lemma irq_uart2_ok:
  assumes inv: "kinv lay k run sq fl"
  shows "if uart2_served k
    then (\<exists>k'. irq_uart2 k = Inr k' \<and>
            irq_follows lay run sq fl {UART2_RX_INCOMING, UART2_TX_HALF_EMPTY} k k')
    else irq_uart2 k = Inl (Assert_Failed ''Nobody home'')"
proof -
  let ?es = "{UART2_RX_INCOMING, UART2_TX_HALF_EMPTY}"
  have rx: "if event_mapping k ! UART2_RX_INCOMING = None
      then wake_someone k UART2_RX_INCOMING [UART2RXINTR, UART2RTIEINTR] = Inl (Assert_Failed ''Nobody home'')
      else (\<exists>k'. wake_someone k UART2_RX_INCOMING [UART2RXINTR, UART2RTIEINTR] = Inr k' \<and>
              irq_follows lay run sq fl ?es k k')"
    by (rule irq_follows_wake [OF inv]) (simp_all add: event_defs uart_intrs_def)
  have tx: "if event_mapping k ! UART2_TX_HALF_EMPTY = None
      then wake_someone k UART2_TX_HALF_EMPTY [UART2TXINTR] = Inl (Assert_Failed ''Nobody home'')
      else (\<exists>k'. wake_someone k UART2_TX_HALF_EMPTY [UART2TXINTR] = Inr k' \<and>
              irq_follows lay run sq fl ?es k k')"
    by (rule irq_follows_wake [OF inv]) (simp_all add: event_defs uart_intrs_def)
  show ?thesis
    unfolding irq_uart2_def uart2_served_def Let_def
    using rx tx irq_follows_refl [OF inv, of ?es] by (simp split: if_splits)
qed

lemma irq_uart1_tx_ok:
  assumes inv: "kinv lay k run sq fl"
  obtains k' where "irq_uart1_tx k = Inr k'" "kinv lay k' run sq fl"
    "event_mapping k' = event_mapping k" "same_status (k_dev k) (k_dev k')"
    "uart1_tx_flag k' = uart1_tx_flag k
       OR (if dev_bit k (UART1_BASE + UART_INTR_OFFSET) TIS_MASK then 1 else 0)"
proof (cases "dev_bit k (UART1_BASE + UART_INTR_OFFSET) TIS_MASK")
  case True
  obtain d' where "disable_interrupt UART1TXINTR (k_dev k) = Inr d'" "same_status (k_dev k) d'"
    by (rule disable_status [of UART1TXINTR "k_dev k"]) (simp add: uart_intrs_def)
  then show ?thesis
    using that [of "k\<lparr> uart1_tx_flag := uart1_tx_flag k OR 1, k_dev := d' \<rparr>"] True inv
    by (simp add: irq_uart1_tx_def with_dev_def)
qed (use that [of k] inv in \<open>simp add: irq_uart1_tx_def\<close>)

lemma irq_uart1_cts_ok:
  assumes inv: "kinv lay k run sq fl"
  obtains k' where "irq_uart1_cts k = Inr k'" "kinv lay k' run sq fl"
    "event_mapping k' = event_mapping k"
    "uart1_tx_flag k' = uart1_tx_flag k
       OR (if dev_bit k (UART1_BASE + UART_INTR_OFFSET) MIS_MASK \<and>
             dev_bit k (UART1_BASE + UART_MDMSTS_OFFSET) MSR_DCTS \<and>
             dev_bit k (UART1_BASE + UART_MDMSTS_OFFSET) MSR_CTS then 2 else 0)"
proof -
  let ?k1 = "k\<lparr> k_dev := (k_dev k)(UART1_BASE + UART_INTR_OFFSET := 0) \<rparr>"
  obtain d' where d': "disable_interrupt UART1CTSINTR (k_dev ?k1) = Inr d'"
    by (rule disable_status [of UART1CTSINTR "k_dev ?k1"]) (simp add: uart_intrs_def)
  have mdm: "k_dev ?k1 (UART1_BASE + UART_MDMSTS_OFFSET) = k_dev k (UART1_BASE + UART_MDMSTS_OFFSET)"
    by (simp add: device_defs)
  consider "\<not> dev_bit k (UART1_BASE + UART_INTR_OFFSET) MIS_MASK"
    | "dev_bit k (UART1_BASE + UART_INTR_OFFSET) MIS_MASK"
      "dev_bit k (UART1_BASE + UART_MDMSTS_OFFSET) MSR_DCTS \<and>
       dev_bit k (UART1_BASE + UART_MDMSTS_OFFSET) MSR_CTS"
    | "dev_bit k (UART1_BASE + UART_INTR_OFFSET) MIS_MASK"
      "\<not> (dev_bit k (UART1_BASE + UART_MDMSTS_OFFSET) MSR_DCTS \<and>
       dev_bit k (UART1_BASE + UART_MDMSTS_OFFSET) MSR_CTS)"
    by blast
  then show ?thesis
  proof cases
    case 1
    then show ?thesis using that [of k] inv by (simp add: irq_uart1_cts_def)
  next
    case 2
    then show ?thesis
      using that [of "?k1\<lparr> uart1_tx_flag := uart1_tx_flag k OR 2, k_dev := d' \<rparr>"] inv d' mdm
      by (simp add: irq_uart1_cts_def with_dev_def)
  next
    case 3
    then show ?thesis
      using that [of ?k1] inv mdm by (auto simp: irq_uart1_cts_def)
  qed
qed

lemma irq_uart1_ok:
  assumes inv: "kinv lay k run sq fl"
  shows "if uart1_served k then (\<exists>k'. irq_uart1 k = Inr k' \<and> kinv lay k' run sq fl)
    else irq_uart1 k = Inl (Assert_Failed ''Nobody home'')"
proof (cases "dev_bit k (VIC2_BASE + IRQ_STAT_OFFSET) VIC_INT_UART1_MASK")
  case pending: True
  let ?rx = "dev_bit k (UART1_BASE + UART_INTR_OFFSET) RIS_MASK"
  let ?first = "if ?rx then wake_someone k UART1_RX_INTR [UART1RXINTR] else Inr k"
  have rx: "if event_mapping k ! UART1_RX_INTR = None
      then wake_someone k UART1_RX_INTR [UART1RXINTR] = Inl (Assert_Failed ''Nobody home'')
      else (\<exists>k'. wake_someone k UART1_RX_INTR [UART1RXINTR] = Inr k' \<and>
              irq_follows lay run sq fl {UART1_RX_INTR} k k')"
    by (rule irq_follows_wake [OF inv]) (simp_all add: event_defs uart_intrs_def)
  show ?thesis
  proof (cases "?rx \<and> event_mapping k ! UART1_RX_INTR = None")
    case True
    then show ?thesis using rx pending by (simp add: irq_uart1_def uart1_served_def)
  next
    case False
    then obtain k1 where k1: "?first = Inr k1" "irq_follows lay run sq fl {UART1_RX_INTR} k k1"
      using rx irq_follows_refl [OF inv] by (cases ?rx) auto
    then have inv1: "kinv lay k1 run sq fl" and st1: "same_status (k_dev k) (k_dev k1)"
      and ev1: "uart1_tx_flag k1 = uart1_tx_flag k"
        "event_mapping k1 ! UART1_TX_INTR = event_mapping k ! UART1_TX_INTR"
      by (simp_all add: irq_follows_def event_defs)
    obtain k2 where k2: "irq_uart1_tx k1 = Inr k2" "kinv lay k2 run sq fl"
      "event_mapping k2 = event_mapping k1" "same_status (k_dev k1) (k_dev k2)"
      "uart1_tx_flag k2 = uart1_tx_flag k1
         OR (if dev_bit k1 (UART1_BASE + UART_INTR_OFFSET) TIS_MASK then 1 else 0)"
      by (rule irq_uart1_tx_ok [OF inv1])
    obtain k3 where k3: "irq_uart1_cts k2 = Inr k3" "kinv lay k3 run sq fl"
      "event_mapping k3 = event_mapping k2"
      "uart1_tx_flag k3 = uart1_tx_flag k2
         OR (if dev_bit k2 (UART1_BASE + UART_INTR_OFFSET) MIS_MASK \<and>
               dev_bit k2 (UART1_BASE + UART_MDMSTS_OFFSET) MSR_DCTS \<and>
               dev_bit k2 (UART1_BASE + UART_MDMSTS_OFFSET) MSR_CTS then 2 else 0)"
      by (rule irq_uart1_cts_ok [OF k2(2)])
    have flag: "uart1_tx_flag k3 = tx_flag_after k"
      unfolding k3(4) k2(5) tx_flag_after_def ev1(1)
        same_statusD [OF st1] same_statusD [OF same_status_trans [OF st1 k2(4)]]
      by (simp only: or.assoc)
    have tx: "if event_mapping k3 ! UART1_TX_INTR = None
        then wake_someone k3 UART1_TX_INTR [] = Inl (Assert_Failed ''Nobody home'')
        else (\<exists>k'. wake_someone k3 UART1_TX_INTR [] = Inr k' \<and>
                irq_follows lay run sq fl {UART1_TX_INTR} k3 k')"
      by (rule irq_follows_wake [OF k3(2)]) (simp_all add: event_defs)
    have ev3: "event_mapping k3 ! UART1_TX_INTR = event_mapping k ! UART1_TX_INTR"
      using k3(3) k2(3) ev1(2) by simp
    have run: "irq_uart1 k = (if tx_flag_after k = 3
        then cbind (wake_someone k3 UART1_TX_INTR []) (\<lambda>k4. Inr (k4\<lparr> uart1_tx_flag := 0 \<rparr>))
        else Inr k3)"
      unfolding irq_uart1_def k1(1) using pending k2(1) k3(1) flag by simp
    show ?thesis
      using tx False pending k3(2) unfolding run ev3
      by (auto simp: uart1_served_def irq_follows_def)
  qed
qed (use inv in \<open>simp add: irq_uart1_def uart1_served_def\<close>)

text \<open>The handler for an interrupt returns exactly when somebody waits for what has happened.\<close>

lemma sys_irq_ok:
  assumes inv: "kinv lay k [cur] sq fl"
  shows "if irq_served k then (\<exists>k'. sys_irq k cur = Inr k' \<and> kinv lay k' [] sq fl)
    else sys_irq k cur = Inl (Assert_Failed ''Nobody home'')"
proof -
  obtain k1 where k1: "irq_timer k = Inr k1" "irq_follows lay [cur] sq fl {TIMER_TICK} k k1"
    using irq_timer_ok [OF inv] by blast
  then have inv1: "kinv lay k1 [cur] sq fl" and st1: "same_status (k_dev k) (k_dev k1)"
    and ev1: "uart1_tx_flag k1 = uart1_tx_flag k"
      "\<And>e. e \<noteq> TIMER_TICK \<Longrightarrow> event_mapping k1 ! e = event_mapping k ! e"
    by (simp_all add: irq_follows_def)
  have s2: "uart2_served k1 = uart2_served k"
    unfolding uart2_served_def same_statusD [OF st1] by (simp add: ev1(2) event_defs)
  show ?thesis
  proof (cases "uart2_served k")
    case False
    then show ?thesis
      using irq_uart2_ok [OF inv1] s2 k1(1) by (simp add: sys_irq_def irq_served_def)
  next
    case True
    then obtain k2 where k2: "irq_uart2 k1 = Inr k2"
      "irq_follows lay [cur] sq fl {UART2_RX_INCOMING, UART2_TX_HALF_EMPTY} k1 k2"
      using irq_uart2_ok [OF inv1] s2 by auto
    then have inv2: "kinv lay k2 [cur] sq fl" and st2: "same_status (k_dev k) (k_dev k2)"
      and flag2: "uart1_tx_flag k2 = uart1_tx_flag k"
      and ev2: "event_mapping k2 ! UART1_RX_INTR = event_mapping k ! UART1_RX_INTR"
        "event_mapping k2 ! UART1_TX_INTR = event_mapping k ! UART1_TX_INTR"
      using same_status_trans [OF st1] ev1 by (simp_all add: irq_follows_def event_defs)
    have s1: "uart1_served k2 = uart1_served k"
      unfolding uart1_served_def tx_flag_after_def same_statusD [OF st2] flag2 ev2 ..
    have run: "sys_irq k cur = cbind (irq_uart1 k2) (\<lambda>k3. make_ready k3 cur)"
      using k1(1) k2(1) by (simp add: sys_irq_def)
    show ?thesis
    proof (cases "uart1_served k")
      case False
      then show ?thesis using irq_uart1_ok [OF inv2] s1 run by (simp add: irq_served_def)
    next
      case True
      then obtain k3 where k3: "irq_uart1 k2 = Inr k3" "kinv lay k3 [cur] sq fl"
        using irq_uart1_ok [OF inv2] s1 by auto
      obtain k4 where "make_ready k3 cur = Inr k4" "kinv lay k4 [] sq fl"
        using make_ready_ok [OF k3(2)] by metis
      then show ?thesis using run k3(1) True \<open>uart2_served k\<close> by (simp add: irq_served_def)
    qed
  qed
qed

subsection \<open>System calls\<close>

text \<open>What the kernel takes for granted of a call; the argument struct is in user memory.\<close>

definition call_served :: "kernel \<Rightarrow> 32 word \<Rightarrow> 32 word \<Rightarrow> bool" where
  "call_served k why data =
     (if why = SYSCALL_CREATE then
        free_tcb (k_sched k) = None \<or> terminated (ld_chars (k_mem k) (data + 4) MAX_TASK_NAME_LEN)
      else if why = SYSCALL_SEND then ld_int (k_mem k) data \<noteq> int MAX_NUM_TASKS
      else if why = SYSCALL_REPLY then
        0 \<le> ld_int (k_mem k) data \<and> ld_int (k_mem k) data < int MAX_NUM_TASKS \<and>
        t_state (blocks (k_sched k) ! nat (ld_int (k_mem k) data)) = REPLY
      else if why = SYSCALL_AWAITEVENT then
        0 \<le> sint data \<and> sint data < int NUMBER_OF_EVENTS \<and> event_mapping k ! nat (sint data) = None
      else if why = SYSCALL_IRQ then irq_served k
      else why \<in> {SYSCALL_MYTID, SYSCALL_MYPARENTTID, SYSCALL_YIELD, SYSCALL_EXIT, SYSCALL_SHUTDOWN,
        SYSCALL_RECEIVE})"

lemma sys_create_served:
  assumes inv: "kinv lay k [cur] sq fl"
  shows "if free_tcb (k_sched k) = None \<or> terminated (ld_chars (k_mem k) (data + 4) MAX_TASK_NAME_LEN)
    then (\<exists>k' fl'. sys_create lay k cur data = Inr k' \<and> kinv lay k' [] sq fl')
    else (\<exists>e. sys_create lay k cur data = Inl e)"
proof (cases "free_tcb (k_sched k) = None \<or> terminated (ld_chars (k_mem k) (data + 4) MAX_TASK_NAME_LEN)")
  case True
  have "fl \<noteq> [] \<Longrightarrow> terminated (ld_chars (k_mem k) (data + 4) MAX_TASK_NAME_LEN)"
    using kinvD(6) [OF inv] True by (cases fl) (auto simp: free_ok_def)
  then obtain k' fl' where "sys_create lay k cur data = Inr k'" "kinv lay k' [] sq fl'"
    by (rule sys_create_ok [OF inv])
  then show ?thesis using True by auto
next
  case False
  note d = kinvD [OF inv] and r = kinv_run [OF inv, of cur, simplified]
  from False obtain x where x: "free_tcb (k_sched k) = Some x" by auto
  let ?name = "ld_chars (k_mem k) (data + 4) MAX_TASK_NAME_LEN"
  have bad: "\<exists>e. strncpy dest ?name n = Inl e" for dest n
    using False strncpy_terminated [of dest ?name n] by (cases "strncpy dest ?name n") auto
  have "\<exists>e. scheduler_add lay (k_sched k) p f c ?name now = Inl e" for p f c now
    unfolding scheduler_add_def x
    using bad [of "task_name (blocks (k_sched k) ! x)" MAX_TASK_NAME_LEN]
    by (cases "x < length (blocks (k_sched k))") (auto simp: rd_def)
  then obtain e where "scheduler_add lay (k_sched k) (ld_int (k_mem k) data) (ld32 (k_mem k) (data + 36))
      (t_tid (blocks (k_sched k) ! cur)) ?name (k_clock k (k_reads k)) = Inl e"
    by blast
  then have "sys_create lay k cur data = Inl e"
    using r(1) d(3) by (simp add: sys_create_def Let_def)
  then show ?thesis unfolding if_not_P [OF False] by blast
qed

lemma sys_send_served:
  assumes inv: "kinv lay k [cur] sq fl"
  shows "if ld_int (k_mem k) data \<noteq> int MAX_NUM_TASKS
    then (\<exists>k' sq'. sys_send k cur data = Inr k' \<and> kinv lay k' [] sq' fl)
    else sys_send k cur data = Inl Out_Of_Bounds"
proof (cases "ld_int (k_mem k) data \<noteq> int MAX_NUM_TASKS")
  case True
  obtain k' sq' where "sys_send k cur data = Inr k'" "kinv lay k' [] sq' fl"
    using sys_send_ok [OF inv True] by metis
  then show ?thesis using True by auto
qed (use kinvD(3) [OF inv] in \<open>simp add: sys_send_def Let_def rd_def\<close>)

lemma sys_receive_ok:
  assumes inv: "kinv lay k [cur] sq fl"
  shows "\<exists>k' sq'. sys_receive k cur = Inr k' \<and> kinv lay k' [] sq' fl"
proof (cases "sq cur")
  case Nil
  then show ?thesis using sys_receive_empty [OF inv] by metis
next
  case (Cons src rest)
  obtain m ret where "delivered (k_mem k) (blocks (k_sched k) ! src) (blocks (k_sched k) ! cur) = (m, ret)"
    by fastforce
  then show ?thesis using sys_receive_sender [OF inv Cons] by metis
qed

lemma sys_reply_served:
  assumes inv: "kinv lay k [cur] sq fl"
  shows "if 0 \<le> ld_int (k_mem k) data \<and> ld_int (k_mem k) data < int MAX_NUM_TASKS \<and>
        t_state (blocks (k_sched k) ! nat (ld_int (k_mem k) data)) = REPLY
    then (\<exists>k'. sys_reply k cur data = Inr k' \<and> kinv lay k' [] sq fl)
    else (\<exists>e. sys_reply k cur data = Inl e)"
proof (cases "0 \<le> ld_int (k_mem k) data \<and> ld_int (k_mem k) data < int MAX_NUM_TASKS \<and>
    t_state (blocks (k_sched k) ! nat (ld_int (k_mem k) data)) = REPLY")
  case True
  let ?t = "nat (ld_int (k_mem k) data)"
  have t: "ld_int (k_mem k) data = int ?t" "?t < MAX_NUM_TASKS"
    "t_state (blocks (k_sched k) ! ?t) = REPLY"
    using True by auto
  obtain m ret where c: "msg_copy (ld32 (k_mem k) (data + 4)) (ld_int (k_mem k) (data + 8))
      (ld32 (k_mem k) (get_data (t_context (blocks (k_sched k) ! ?t)) + 12))
      (ld_int (k_mem k) (get_data (t_context (blocks (k_sched k) ! ?t)) + 16)) (k_mem k) = (m, ret)"
    by fastforce
  obtain k' where "sys_reply k cur data = Inr k'" "kinv lay k' [] sq fl"
    using sys_reply_ok [OF inv t c] by metis
  then show ?thesis using True by auto
next
  case False
  have "sys_reply k cur data \<noteq> Inr k'" for k'
  proof
    assume "sys_reply k cur data = Inr k'"
    then obtain t where "ld_int (k_mem k) data = int t" "t < MAX_NUM_TASKS"
      "t_state (blocks (k_sched k) ! t) = REPLY"
      using sys_reply_valid kinvD(3) [OF inv] by metis
    then show False using False by simp
  qed
  then show ?thesis using False by (cases "sys_reply k cur data") auto
qed

lemma sys_awaitevent_park:
  assumes inv: "kinv lay k [cur] sq fl" and e: "e < NUMBER_OF_EVENTS" "e \<noteq> BREAK_IDLE"
    and free: "event_mapping k ! e = None" and data: "sint data = int e"
  shows "\<exists>k'. sys_awaitevent k cur data = Inr k' \<and> kinv lay k' [] sq fl"
proof -
  have len: "length (event_mapping k) = NUMBER_OF_EVENTS" using kinvD(7) [OF inv] by (simp add: events_ok_def)
  have park: "\<exists>k'. park k cur e xs = Inr k' \<and> kinv lay k' [] sq fl" if "set xs \<subseteq> set uart_intrs" for xs
    using park_ok [OF inv e free that] by metis
  have tx: "\<exists>k'. park k cur e [UART1TXINTR, UART1CTSINTR] = Inr k' \<and> kinv lay k' [] sq fl"
    and rx: "\<exists>k'. park k cur e [UART1RXINTR] = Inr k' \<and> kinv lay k' [] sq fl"
    and tx2: "\<exists>k'. park k cur e [UART2TXINTR] = Inr k' \<and> kinv lay k' [] sq fl"
    and rx2: "\<exists>k'. park k cur e [UART2RXINTR, UART2RTIEINTR] = Inr k' \<and> kinv lay k' [] sq fl"
    and none: "\<exists>k'. park k cur e [] = Inr k' \<and> kinv lay k' [] sq fl"
    by (intro park; simp add: uart_intrs_def)+
  have start: "rdi (event_mapping k) (int e) = Inr None" using e len free by (simp add: rdi_def)
  consider "e = TIMER_TICK" | "e = UART1_RX_INTR" | "e = UART1_TX_INTR" | "e = UART2_TX_HALF_EMPTY"
    | "e = UART2_RX_INCOMING"
    using e by (force simp: event_defs)
  then show ?thesis
    unfolding sys_awaitevent_def Let_def data start
    by cases (use e tx rx tx2 rx2 none in \<open>auto simp: event_defs\<close>)
qed

lemma sys_awaitevent_idle:
  assumes inv: "kinv lay k [cur] sq fl" and data: "sint data = int BREAK_IDLE"
  shows "\<exists>k'. sys_awaitevent k cur data = Inr k' \<and> kinv lay k' [] sq fl"
proof -
  have ev: "events_ok (event_mapping k) (interrupt_tasks k)" by (rule kinvD(7) [OF inv])
  then have start: "rdi (event_mapping k) (int BREAK_IDLE) = Inr None"
    by (simp add: rdi_def events_ok_def event_defs)
  let ?asleep = "k_clock k (k_reads k) - k_clock k (k_reads k + 1)"
  have k1: "kinv lay (k\<lparr> k_reads := k_reads k + 2 \<rparr>) [cur] sq fl" using inv by simp
  obtain k' where "ret_ready (k\<lparr> k_reads := k_reads k + 2 \<rparr>) cur (uint ?asleep) = Inr k'"
    "kinv lay k' [] sq fl"
    using ret_ready_ok [OF k1] by metis
  then show ?thesis
    unfolding sys_awaitevent_def Let_def data start
    by (auto simp: ret_ready_def)
qed

lemma sys_awaitevent_served:
  assumes inv: "kinv lay k [cur] sq fl"
  shows "if 0 \<le> sint data \<and> sint data < int NUMBER_OF_EVENTS \<and> event_mapping k ! nat (sint data) = None
    then (\<exists>k'. sys_awaitevent k cur data = Inr k' \<and> kinv lay k' [] sq fl)
    else (\<exists>e. sys_awaitevent k cur data = Inl e)"
proof (cases "0 \<le> sint data \<and> sint data < int NUMBER_OF_EVENTS \<and> event_mapping k ! nat (sint data) = None")
  case True
  let ?e = "nat (sint data)"
  have "sint data = int ?e" "?e < NUMBER_OF_EVENTS" using True by auto
  then have "\<exists>k'. sys_awaitevent k cur data = Inr k' \<and> kinv lay k' [] sq fl"
    using sys_awaitevent_park [OF inv, of ?e data] sys_awaitevent_idle [OF inv, of data] True
    by (cases "?e = BREAK_IDLE") simp_all
  then show ?thesis using True by simp
next
  case False
  have len: "length (event_mapping k) = NUMBER_OF_EVENTS" using kinvD(7) [OF inv] by (simp add: events_ok_def)
  have "sys_awaitevent k cur data \<noteq> Inr k'" for k'
    using False len by (auto simp: sys_awaitevent_def Let_def cbind_Inr_iff rdi_Inr_iff kassert_Inr_iff)
  then have "\<exists>e. sys_awaitevent k cur data = Inl e" by (cases "sys_awaitevent k cur data") auto
  then show ?thesis using False by (simp only: if_False)
qed

lemmas syscall_defs = SYSCALL_CREATE_def SYSCALL_MYTID_def SYSCALL_MYPARENTTID_def SYSCALL_YIELD_def
  SYSCALL_EXIT_def SYSCALL_SHUTDOWN_def SYSCALL_SEND_def SYSCALL_RECEIVE_def SYSCALL_REPLY_def
  SYSCALL_AWAITEVENT_def SYSCALL_IRQ_def

text \<open>The result of a handler: in order again, or a fault.\<close>

definition handled :: "layout \<Rightarrow> bool \<Rightarrow> outcome cres \<Rightarrow> bool" where
  "handled lay served r \<longleftrightarrow>
     (if served
      then (case r of Inr (Running k') \<Rightarrow> kernel_ok lay k' | Inr (Shut_Down _) \<Rightarrow> True | Inl _ \<Rightarrow> False)
      else (case r of Inr _ \<Rightarrow> False | Inl _ \<Rightarrow> True))"

lemma handled_continue:
  "if served then \<exists>k' sq fl. r = Inr k' \<and> kinv lay k' [] sq fl else \<exists>e. r = Inl e \<Longrightarrow>
     handled lay served (continue r)"
  unfolding handled_def continue_def kernel_ok_def by (cases served) (auto, blast)

lemma dispatch_handled:
  assumes inv: "kinv lay k [cur] sq fl"
  shows "handled lay (call_served k why data) (dispatch lay k cur why data)"
proof -
  note d = kinvD [OF inv] and r = kinv_run [OF inv, of cur, simplified]
  have simple: "handled lay True (continue r)" if "\<exists>k' sq fl. r = Inr k' \<and> kinv lay k' [] sq fl" for r
    using that handled_continue [of True r lay] by simp
  have ready: "handled lay True (continue (ret_ready k cur v))" for v
    by (rule simple) (use ret_ready_ok [OF inv, of v] in metis)
  have yield: "handled lay True (continue (make_ready k cur))"
    by (rule simple) (use make_ready_ok [OF inv] in metis)
  have exit: "handled lay True (continue (sys_exit k cur))"
    by (rule simple) (use sys_exit_ok [OF inv] in metis)
  have receive: "handled lay True (continue (sys_receive k cur))"
    by (rule simple) (use sys_receive_ok [OF inv] in blast)
  consider "why = SYSCALL_CREATE" | "why = SYSCALL_MYTID" | "why = SYSCALL_MYPARENTTID"
    | "why = SYSCALL_YIELD" | "why = SYSCALL_EXIT" | "why = SYSCALL_SHUTDOWN" | "why = SYSCALL_SEND"
    | "why = SYSCALL_RECEIVE" | "why = SYSCALL_REPLY" | "why = SYSCALL_AWAITEVENT" | "why = SYSCALL_IRQ"
    | "why \<notin> {SYSCALL_CREATE, SYSCALL_MYTID, SYSCALL_MYPARENTTID, SYSCALL_YIELD, SYSCALL_EXIT,
        SYSCALL_SHUTDOWN, SYSCALL_SEND, SYSCALL_RECEIVE, SYSCALL_REPLY, SYSCALL_AWAITEVENT, SYSCALL_IRQ}"
    by blast
  then show ?thesis
  proof cases
    case 1
    have "dispatch lay k cur why data = continue (sys_create lay k cur data)"
      using 1 by (simp add: dispatch_def)
    moreover have "call_served k why data \<longleftrightarrow> free_tcb (k_sched k) = None \<or>
        terminated (ld_chars (k_mem k) (data + 4) MAX_TASK_NAME_LEN)"
      using 1 by (simp add: call_served_def)
    ultimately show ?thesis
      using sys_create_served [OF inv, of data] by (metis (no_types, lifting) handled_continue)
  next
    case 2
    then show ?thesis
      using ready r(1) d(3)
      by (simp add: dispatch_def call_served_def syscall_defs sys_mytid_def)
  next
    case 3
    then show ?thesis
      using ready r(1) d(3)
      by (simp add: dispatch_def call_served_def syscall_defs sys_myparenttid_def)
  next
    case 4
    then show ?thesis
      using yield by (simp add: dispatch_def call_served_def syscall_defs sys_yield_def)
  next
    case 5
    then show ?thesis
      using exit by (simp add: dispatch_def call_served_def syscall_defs)
  next
    case 6
    then show ?thesis by (simp add: dispatch_def call_served_def syscall_defs handled_def)
  next
    case 7
    have "dispatch lay k cur why data = continue (sys_send k cur data)"
      using 7 by (simp add: dispatch_def syscall_defs)
    moreover have "call_served k why data \<longleftrightarrow> ld_int (k_mem k) data \<noteq> int MAX_NUM_TASKS"
      using 7 by (simp add: call_served_def syscall_defs)
    ultimately show ?thesis
      using sys_send_served [OF inv, of data] by (metis (no_types, lifting) handled_continue)
  next
    case 8
    then show ?thesis
      using receive by (simp add: dispatch_def call_served_def syscall_defs)
  next
    case 9
    have "dispatch lay k cur why data = continue (sys_reply k cur data)"
      using 9 by (simp add: dispatch_def syscall_defs)
    moreover have "call_served k why data \<longleftrightarrow> 0 \<le> ld_int (k_mem k) data \<and>
        ld_int (k_mem k) data < int MAX_NUM_TASKS \<and>
        t_state (blocks (k_sched k) ! nat (ld_int (k_mem k) data)) = REPLY"
      using 9 by (simp add: call_served_def syscall_defs)
    ultimately show ?thesis
      using sys_reply_served [OF inv, of data] by (metis (no_types, lifting) handled_continue)
  next
    case 10
    have "dispatch lay k cur why data = continue (sys_awaitevent k cur data)"
      using 10 by (simp add: dispatch_def syscall_defs)
    moreover have "call_served k why data \<longleftrightarrow> 0 \<le> sint data \<and> sint data < int NUMBER_OF_EVENTS \<and>
        event_mapping k ! nat (sint data) = None"
      using 10 by (simp add: call_served_def syscall_defs)
    ultimately show ?thesis
      using sys_awaitevent_served [OF inv, of data] by (metis (no_types, lifting) handled_continue)
  next
    case 11
    have "dispatch lay k cur why data = continue (sys_irq k cur)"
      using 11 by (simp add: dispatch_def syscall_defs)
    moreover have "call_served k why data \<longleftrightarrow> irq_served k"
      using 11 by (simp add: call_served_def syscall_defs)
    ultimately show ?thesis
      using sys_irq_ok [OF inv] by (metis (no_types, lifting) handled_continue)
  next
    case 12
    then show ?thesis by (auto simp: dispatch_def call_served_def handled_def)
  qed
qed

subsection \<open>A step of the loop\<close>

text \<open>Why the task stopped, and the task as the kernel keeps it.\<close>

definition trap :: "user_run \<Rightarrow> 32 word \<times> user_task" where
  "trap u =
     (let t = u_task u in
      if odd (r15 (reg t)) then (SYSCALL_IRQ, t\<lparr> reg := (reg t)\<lparr> r15 := r15 (reg t) - 1 \<rparr> \<rparr>)
      else (ld32 (u_mem u) (r15 (reg t) - 4) AND 0xFFFFFF, t))"

definition guards_kept :: "layout \<Rightarrow> nat \<Rightarrow> user_run \<Rightarrow> bool" where
  "guards_kept lay cur u \<longleftrightarrow>
     stack_check_a (u_task u) = ctx_at lay cur XOR 93 \<and> stack_check_b (u_task u) = ctx_at lay cur XOR 72"

text \<open>The state when task \<open>cur\<close>, taken off the ready queue, has trapped.\<close>

definition trapped :: "kernel \<Rightarrow> scheduler \<Rightarrow> nat \<Rightarrow> user_run \<Rightarrow> kernel" where
  "trapped k s cur u = put (k\<lparr> k_sched := s, k_mem := u_mem u, k_dev := u_dev u \<rparr>) cur
     ((blocks s ! cur)\<lparr> t_context := snd (trap u) \<rparr>)"

lemma run_user_ok:
  assumes "stack_check_a t = at XOR 93" "stack_check_b t = at XOR 72"
  shows "if stack_check_a (u_task u) = at XOR 93 \<and> stack_check_b (u_task u) = at XOR 72
    then run_user at t (u_task u) (u_mem u) = Inr (trap u)
    else (\<exists>e. run_user at t (u_task u) (u_mem u) = Inl e)"
  using assms by (auto simp: run_user_def stack_checks_def trap_def Let_def kassert_def)

lemma kinv_pop:
  assumes inv: "kinv lay k [] sq fl" and ne: "0 < rq_count (k_sched k)"
  obtains cur s where "pop_ready_queue (k_sched k) = Inr (cur, s)"
    "kinv lay (k\<lparr> k_sched := s \<rparr>) [cur] sq fl" "blocks s = blocks (k_sched k)"
    "mset (queued (k_sched k)) = add_mset cur (mset (queued s))"
    "\<And>i. i \<in> set (queued (k_sched k)) \<Longrightarrow>
       t_priority (blocks (k_sched k) ! i) \<le> t_priority (blocks (k_sched k) ! cur)"
proof -
  note d = kinvD [OF inv]
  let ?s = "k_sched k"
  have best: "t_priority (blocks ?s ! i) \<le> t_priority (blocks ?s ! (ready_queue ?s ! 0))"
    if "i \<in> set (queued ?s)" for i
  proof -
    have "before (rq_top ?s) (entry_of (blocks ?s) i)"
      using rq_top_le [OF d(1)] that by (simp add: queue_bag_def)
    then show ?thesis by (auto simp: before_def rq_top_def entry_of_def)
  qed
  obtain rq where rq: "pop_ready_queue ?s = Inr (ready_queue ?s ! 0, ?s\<lparr> ready_queue := rq, rq_count := rq_count ?s - 1 \<rparr>)"
    "sched_inv (?s\<lparr> ready_queue := rq, rq_count := rq_count ?s - 1 \<rparr>)"
    "mset (queued ?s) = add_mset (ready_queue ?s ! 0) (mset (take (rq_count ?s - 1) rq))"
    by (rule pop_ready_queue_ok [OF d(1) ne])
  let ?s' = "?s\<lparr> ready_queue := rq, rq_count := rq_count ?s - 1 \<rparr>" and ?cur = "ready_queue ?s ! 0"
  have "mset (queued ?s @ waiting (event_mapping k) @ []) =
      mset (queued ?s' @ waiting (event_mapping k) @ [?cur])"
    using rq(3) by (simp add: queued_def)
  then have "places_ok (blocks ?s) (queued ?s' @ waiting (event_mapping k) @ [?cur])"
    using d(8) places_ok_mset by blast
  then have "kinv lay (k\<lparr> k_sched := ?s' \<rparr>) [?cur] sq fl"
    using d rq(2) by (simp add: kinv_def Let_def)
  then show ?thesis using that [of ?cur ?s'] rq best by (simp add: queued_def)
qed

lemma kinv_trapped:
  assumes inv: "kinv lay (k\<lparr> k_sched := s \<rparr>) [cur] sq fl" and g: "guards_kept lay cur u"
  shows "kinv lay (trapped k s cur u) [cur] sq fl"
proof -
  have inv2: "kinv lay (k\<lparr> k_sched := s, k_mem := u_mem u, k_dev := u_dev u \<rparr>) [cur] sq fl"
    using inv by (simp add: kinv_def)
  note r = kinv_run [OF inv2, of cur, simplified]
  have "stack_check_a (snd (trap u)) = ctx_at lay cur XOR 93"
    "stack_check_b (snd (trap u)) = ctx_at lay cur XOR 72"
    using g by (auto simp: trap_def Let_def guards_kept_def)
  then show ?thesis
    unfolding trapped_def using r by (intro kinv_put_run [OF inv2]) (auto simp: tcb_ok_def)
qed

lemma kernel_step_handled:
  assumes inv: "kinv lay k [] sq fl" and pop: "pop_ready_queue (k_sched k) = Inr (cur, s)"
    and inv1: "kinv lay (k\<lparr> k_sched := s \<rparr>) [cur] sq fl"
  shows "handled lay
    (\<not> dev_bit k (UART1_BASE + UART_RSR_OFFSET) OE_MASK \<and> guards_kept lay cur u \<and>
       call_served (trapped k s cur u) (fst (trap u)) (get_data (snd (trap u))))
    (kernel_step lay k u)"
proof -
  let ?oe = "dev_bit k (UART1_BASE + UART_RSR_OFFSET) OE_MASK"
  let ?k1 = "k\<lparr> k_sched := s, k_mem := u_mem u, k_dev := u_dev u \<rparr>"
  have inv2: "kinv lay ?k1 [cur] sq fl" using inv1 by (simp add: kinv_def)
  note d = kinvD [OF inv2] and r = kinv_run [OF inv2, of cur, simplified]
  have c: "rd (blocks s) cur = Inr (blocks s ! cur)" using d(3) r(1) by simp
  have guards: "stack_check_a (t_context (blocks s ! cur)) = ctx_at lay cur XOR 93"
    "stack_check_b (t_context (blocks s ! cur)) = ctx_at lay cur XOR 72"
    using r(2,6) by (simp_all add: tcb_ok_def)
  note run = run_user_ok [OF guards, of u]
  show ?thesis
  proof (cases "?oe \<or> \<not> guards_kept lay cur u")
    case True
    then have "\<exists>e. kernel_step lay k u = Inl e"
      using run pop c by (auto simp: kernel_step_def guards_kept_def kassert_def)
    then show ?thesis using True by (auto simp: handled_def)
  next
    case False
    then have g: "guards_kept lay cur u" by simp
    then have ru: "run_user (ctx_at lay cur) (t_context (blocks s ! cur)) (u_task u) (u_mem u) = Inr (trap u)"
      using run by (simp add: guards_kept_def)
    have inv3: "kinv lay (trapped k s cur u) [cur] sq fl" by (rule kinv_trapped [OF inv1 g])
    have "upd_task ?k1 cur (\<lambda>x. x\<lparr> t_context := snd (trap u) \<rparr>) = Inr (trapped k s cur u)"
      using upd_task_put [of cur ?k1] d(3) r(1) by (simp add: trapped_def)
    then have "kernel_step lay k u =
        dispatch lay (trapped k s cur u) cur (fst (trap u)) (get_data (snd (trap u)))"
      using False pop c ru by (simp add: kernel_step_def case_prod_unfold)
    then show ?thesis using dispatch_handled [OF inv3] False by simp
  qed
qed

end
