(* ===== verification/Kernel_Boot.thy ===== *)
theory Kernel_Boot
  imports Kernel_Loop
begin

section \<open>Boot, and what holds whenever the kernel is between two traps\<close>

text \<open>
  The boot sequence leaves the kernel in order, with the two first tasks ready; every state
  reached from there is in order.
\<close>

subsection \<open>The first descriptors\<close>

lemma upd_blocks_fold:
  "n \<le> length bs \<Longrightarrow> cfold (\<lambda>b i. upd_blocks b i (f i)) bs [0..<n] =
     Inr (map (\<lambda>i. if i < n then f i (bs ! i) else bs ! i) [0..<length bs])"
proof (induction n)
  case 0
  then show ?case by (simp add: map_nth)
next
  case (Suc n)
  let ?g = "\<lambda>m. map (\<lambda>i. if i < m then f i (bs ! i) else bs ! i) [0..<length bs]"
  have "(?g n)[n := f n (bs ! n)] = ?g (Suc n)"
    using Suc.prems by (intro nth_equalityI) (auto simp: nth_update)
  then show ?case
    using Suc by (simp add: cfold_append upd_blocks_def)
qed

text \<open>The descriptors after \<open>scheduler_init\<close>, each linked to the next one.\<close>

definition init_tcb :: "nat \<Rightarrow> nat \<Rightarrow> tcb \<Rightarrow> tcb" where
  "init_tcb cap i t = t\<lparr> t_state := ZOMBIE, t_tid := int i, want_send := None, want_send_end := None,
     t_next := (if i + 1 < cap then Some (i + 1) else None) \<rparr>"

lemma scheduler_init_ok:
  assumes "0 < cap" "length bs = cap"
  shows "scheduler_init cap bs rq = Inr \<lparr> blocks = map (\<lambda>i. init_tcb cap i (bs ! i)) [0..<cap],
    free_tcb = Some 0, capacity = cap, ready_queue = rq, rq_count = 0 \<rparr>"
proof -
  let ?f = "\<lambda>i t. t\<lparr> t_state := ZOMBIE, t_tid := int i, want_send := None, want_send_end := None \<rparr>"
  let ?b1 = "map (\<lambda>i. if i < cap then ?f i (bs ! i) else bs ! i) [0..<length bs]"
  have b1: "cfold (\<lambda>b i. upd_blocks b i (?f i)) bs [0..<cap] = Inr ?b1"
    using assms by (intro upd_blocks_fold) simp
  let ?b2 = "map (\<lambda>i. if i < cap - 1 then (?b1 ! i)\<lparr> t_next := Some (i + 1) \<rparr> else ?b1 ! i) [0..<length ?b1]"
  have b2: "cfold (\<lambda>b i. upd_blocks b i (\<lambda>t. t\<lparr> t_next := Some (i + 1) \<rparr>)) ?b1 [0..<cap - 1] = Inr ?b2"
    by (rule upd_blocks_fold) (use assms in simp)
  have last: "?b2[cap - 1 := (?b2 ! (cap - 1))\<lparr> t_next := None \<rparr>] = map (\<lambda>i. init_tcb cap i (bs ! i)) [0..<cap]"
    using assms by (intro nth_equalityI) (auto simp: nth_update init_tcb_def)
  have b3: "upd_blocks ?b2 (cap - 1) (\<lambda>t. t\<lparr> t_next := None \<rparr>) =
      Inr (map (\<lambda>i. init_tcb cap i (bs ! i)) [0..<cap])"
    unfolding last [symmetric] using assms by (simp add: upd_blocks_def)
  have "cap \<noteq> 0" using assms(1) by simp
  then show ?thesis
    by (simp only: scheduler_init_def b1 b2 b3 cbind_simps if_False)
qed

lemma links_upt:
  assumes "length bs = cap" "\<And>i. i < cap \<Longrightarrow> t_next (bs ! i) = (if i + 1 < cap then Some (i + 1) else None)"
  shows "j \<le> cap \<Longrightarrow> links bs (if j < cap then Some j else None) [j..<cap]"
proof (induction "cap - j" arbitrary: j)
  case (Suc n)
  then have j: "j < cap" by simp
  have "links bs (if Suc j < cap then Some (Suc j) else None) [Suc j..<cap]"
    using Suc by (intro Suc.hyps(1)) auto
  moreover have "t_next (bs ! j) = (if Suc j < cap then Some (Suc j) else None)"
    using assms(2) [OF j] by simp
  ultimately show ?case unfolding upt_conv_Cons [OF j] using j assms(1) by simp
qed simp

text \<open>Arrays as large as the code declares them.\<close>

definition boot_arrays_ok :: "tcb list \<Rightarrow> nat list \<Rightarrow> bool" where
  "boot_arrays_ok bs rq \<longleftrightarrow> length bs = MAX_NUM_TASKS \<and> length rq = MAX_NUM_TASKS \<and>
     list_all (\<lambda>t. length (task_name t) = MAX_TASK_NAME_LEN) bs"

lemma kinv_init:
  assumes arrays: "boot_arrays_ok bs rq" and s: "scheduler_init MAX_NUM_TASKS bs rq = Inr s"
    and k: "k_sched k = s" "event_mapping k = replicate NUMBER_OF_EVENTS None" "interrupt_tasks k = 0"
  shows "kinv lay k [] (\<lambda>_. []) [0..<MAX_NUM_TASKS]"
proof -
  have len: "length bs = MAX_NUM_TASKS" "length rq = MAX_NUM_TASKS" "0 < MAX_NUM_TASKS"
    and nm: "\<And>i. i < MAX_NUM_TASKS \<Longrightarrow> length (task_name (bs ! i)) = MAX_TASK_NAME_LEN"
    using arrays by (auto simp: boot_arrays_ok_def list_all_length MAX_NUM_TASKS_def)
  let ?bs = "map (\<lambda>i. init_tcb MAX_NUM_TASKS i (bs ! i)) [0..<MAX_NUM_TASKS]"
  have s': "s = \<lparr> blocks = ?bs, free_tcb = Some 0, capacity = MAX_NUM_TASKS, ready_queue = rq, rq_count = 0 \<rparr>"
    using s scheduler_init_ok [OF len(3,1)] by simp
  have nth: "?bs ! i = init_tcb MAX_NUM_TASKS i (bs ! i)" if "i < MAX_NUM_TASKS" for i
    using that by simp
  have "sched_inv s" by (simp add: s' sched_inv_def queued_def len heap_ok_def)
  moreover have "tcbs_ok lay ?bs"
    using nm by (simp add: tcbs_ok_def tcb_ok_def init_tcb_def)
  moreover have "senders_ok ?bs (\<lambda>_. [])" by (simp add: senders_ok_def init_tcb_def)
  moreover have "free_ok ?bs (Some 0) [0..<MAX_NUM_TASKS]"
  proof -
    have "links ?bs (if 0 < MAX_NUM_TASKS then Some 0 else None) [0..<MAX_NUM_TASKS]"
      by (rule links_upt) (simp_all add: init_tcb_def)
    then show ?thesis using len(3) by (simp add: free_ok_def init_tcb_def)
  qed
  moreover have "waiting (replicate NUMBER_OF_EVENTS None) = []"
    by (simp add: waiting_def map_filter_def)
  moreover have "places_ok ?bs []" by (auto simp: places_ok_def init_tcb_def)
  ultimately show ?thesis
    using len(3) by (simp add: kinv_def Let_def k s' queued_def events_ok_def event_defs)
qed

subsection \<open>The first tasks\<close>

lemma scheduler_add_ok:
  assumes inv: "kinv lay k run sq (x # fl)" and s0: "k_sched k = s0" and name: "terminated name" "length (cstr name) < MAX_TASK_NAME_LEN"
  obtains s where "scheduler_add lay (k_sched k) priority func parent name (k_clock k (k_reads k)) = Inr (int x, s)"
    "kinv lay (k\<lparr> k_sched := s \<rparr>) run sq fl" "mset (queued s) = add_mset x (mset (queued (k_sched k)))"
    "\<forall>i. t_priority (blocks s ! i) = (if i = x then priority else t_priority (blocks s0 ! i))"
proof -
  note d = kinvD [OF inv]
  let ?bs = "blocks (k_sched k)"
  have x: "free_tcb (k_sched k) = Some x" "x < MAX_NUM_TASKS" using d(3,6) by (auto simp: free_ok_def)
  have tn: "length (task_name (?bs ! x)) = MAX_TASK_NAME_LEN"
    using d(3,4) x(2) by (simp add: tcbs_ok_def tcb_ok_def)
  obtain nm where nm: "strncpy (task_name (?bs ! x)) name MAX_TASK_NAME_LEN = Inr nm"
    "length nm = MAX_TASK_NAME_LEN"
    using strncpy_ok [OF name(1), of "task_name (?bs ! x)" MAX_TASK_NAME_LEN] tn name(2)
      strncpy_length [OF _ name(1)] by metis
  define t where "t = new_tcb lay x (?bs ! x) priority func parent nm"
  let ?k1 = "k\<lparr> k_sched := (k_sched k)\<lparr> free_tcb := t_next (?bs ! x), blocks := ?bs[x := t] \<rparr> \<rparr>"
  have k1: "kinv lay ?k1 (x # run) sq fl" by (rule kinv_new_task [OF inv nm(2) t_def])
  obtain k2 where k2: "make_ready ?k1 x = Inr k2" "kinv lay k2 run sq fl"
    "readied ?k1 x (t_context (blocks (k_sched ?k1) ! x)) k2"
    by (rule make_ready_ok [OF k1])
  obtain s where s: "add_to_ready_queue (k_sched ?k1) (Some x) (k_clock k (k_reads k)) = Inr s"
    "k2 = ?k1\<lparr> k_sched := s, k_reads := k_reads k + 1 \<rparr>"
    using k2(1) by (auto simp: make_ready_def c_simps)
  have tid: "t_tid (blocks s ! x) = int x" "x < length (blocks s)"
    using kinvD(3,4) [OF k2(2)] s(2) x(2) by (auto simp: tcbs_ok_def tcb_ok_def)
  have "scheduler_add lay (k_sched k) priority func parent name (k_clock k (k_reads k)) = Inr (int x, s)"
    using x d(3) nm(1) s(1) tid by (simp add: scheduler_add_def upd_tcb_def t_def new_tcb_def)
  moreover have "kinv lay (k\<lparr> k_sched := s \<rparr>) run sq fl"
    using k2(2) s(2) by (simp add: kinv_def)
  moreover have "mset (queued s) = add_mset x (mset (queued (k_sched k)))"
    using k2(3) s(2) by (simp add: readied_def queued_def)
  moreover have "\<forall>i. t_priority (blocks s ! i) = (if i = x then priority else t_priority (blocks s0 ! i))"
    using k2(3) s(2) x(2) d(3) s0 by (simp add: readied_def nth_update t_def new_tcb_def)
  ultimately show ?thesis by (rule that)
qed

text \<open>The error register of UART 1 is cleared, and nothing sets it afterwards.\<close>

lemma disable_fold_rsr:
  "cfold (\<lambda>d i. disable_interrupt i d) d xs = Inr d' \<Longrightarrow>
     d' (UART1_BASE + UART_RSR_OFFSET) = d (UART1_BASE + UART_RSR_OFFSET)"
proof (induction xs arbitrary: d)
  case (Cons i xs)
  then obtain a m where i: "uart_intr i = Inr (a, m)"
    by (auto simp: disable_interrupt_def c_simps)
  have "UART1_BASE + UART_RSR_OFFSET \<noteq> a"
    using uart_intr_addr [OF i] by (auto simp: device_defs)
  then have "clear_bits_at d a m (UART1_BASE + UART_RSR_OFFSET) = d (UART1_BASE + UART_RSR_OFFSET)"
    by (simp add: clear_bits_at_def)
  moreover have "disable_interrupt i d = Inr (clear_bits_at d a m)"
    using i by (simp add: disable_interrupt_def)
  ultimately show ?case
    using Cons.IH [of "clear_bits_at d a m"] Cons.prems by simp
qed simp

lemma boot_devices_ok: "\<exists>d'. boot_devices d = Inr d' \<and> d' (UART1_BASE + UART_RSR_OFFSET) = 0"
proof -
  let ?rsr = "UART1_BASE + UART_RSR_OFFSET"
  obtain d1 where d1: "uart_init COM2 (d(?rsr := 0)) = Inr d1" "d1 ?rsr = 0"
    by (auto simp: uart_init_def get_base_addr_def COM1_def COM2_def set_bits_at_def device_defs)
  obtain d2 where d2: "enable_irq d1 = Inr d2" using enable_irq_returns by blast
  obtain d3 where d3: "cfold (\<lambda>d i. enable_vic_interrupt i d)
      (d1(VIC1_BASE + INT_DISABLE_OFFSET := 0xFFFFFFFF, VIC2_BASE + INT_DISABLE_OFFSET := 0xFFFFFFFF))
      [TC1, UART1INTR, UART2INTR] = Inr d3" "d3 ?rsr = d1 ?rsr"
    by (simp add: enable_vic_interrupt_def vic_intr_def set_bits_at_def clear_bits_at_def device_defs)
  have "d2 ?rsr = 0"
    using d2 d1(2) d3(2) unfolding enable_irq_def d3(1) by (simp only: cbind_simps disable_fold_rsr)
  then show ?thesis
    using d1(1) d2 by (simp add: boot_devices_def timer_init_def start_timer_def get_control_def
        get_load_def timer_base_def set_bits_at_def device_defs)
qed

lemma boot_kernel_ok:
  assumes arrays: "boot_arrays_ok bs rq"
  obtains k where "boot_kernel lay idle init bs rq m d clock = Inr k"
    "kinv lay k [] (\<lambda>_. []) [2..<MAX_NUM_TASKS]" "mset (queued (k_sched k)) = {# 0, 1 #}"
    "t_priority (blocks (k_sched k) ! 0) = -99" "t_priority (blocks (k_sched k) ! 1) = 100"
    "k_dev k (UART1_BASE + UART_RSR_OFFSET) = 0"
proof -
  obtain d' where d': "boot_devices d = Inr d'" "d' (UART1_BASE + UART_RSR_OFFSET) = 0" using boot_devices_ok by blast
  have len: "length bs = MAX_NUM_TASKS" "0 < MAX_NUM_TASKS"
    using arrays by (auto simp: boot_arrays_ok_def MAX_NUM_TASKS_def)
  obtain s where s: "scheduler_init MAX_NUM_TASKS bs rq = Inr s" "rq_count s = 0"
    using scheduler_init_ok [OF len(2,1)] by simp
  let ?k = "\<lambda>s n. \<lparr> k_sched = s, event_mapping = replicate NUMBER_OF_EVENTS None, interrupt_tasks = 0,
      uart1_tx_flag = 0, k_mem = m, k_dev = d', k_clock = clock, k_reads = n \<rparr>"
  have upt: "[0..<MAX_NUM_TASKS] = 0 # 1 # [2..<MAX_NUM_TASKS]"
    using upt_conv_Cons [of 0 MAX_NUM_TASKS] upt_conv_Cons [of "Suc 0" MAX_NUM_TASKS]
    by (simp add: MAX_NUM_TASKS_def numeral_2_eq_2)
  have k0: "kinv lay (?k s 0) [] (\<lambda>_. []) (0 # 1 # [2..<MAX_NUM_TASKS])"
    unfolding upt [symmetric] by (rule kinv_init [OF arrays s(1)]) simp_all
  have nm: "terminated (lit ''idle'')" "length (cstr (lit ''idle'')) < MAX_TASK_NAME_LEN"
    "terminated (lit ''k1init'')" "length (cstr (lit ''k1init'')) < MAX_TASK_NAME_LEN"
    by (simp_all add: lit_def terminated_def cstr_def MAX_TASK_NAME_LEN_def)
  obtain s1 where s1: "scheduler_add lay s (-99) idle (-1) (lit ''idle'') (clock 0) = Inr (int 0, s1)"
    "kinv lay ((?k s 0)\<lparr> k_sched := s1 \<rparr>) [] (\<lambda>_. []) (1 # [2..<MAX_NUM_TASKS])"
    "mset (queued s1) = add_mset 0 (mset (queued s))"
    "\<forall>i. t_priority (blocks s1 ! i) = (if i = 0 then -99 else t_priority (blocks s ! i))"
    by (rule scheduler_add_ok [OF k0 _ nm(1,2), of s "-99" idle "-1"]) (simp, rule that, simp_all)
  have k1: "kinv lay (?k s1 1) [] (\<lambda>_. []) (1 # [2..<MAX_NUM_TASKS])"
    using s1(2) by (simp add: kinv_def)
  obtain s2 where s2: "scheduler_add lay s1 100 init (-1) (lit ''k1init'') (clock 1) = Inr (int 1, s2)"
    "kinv lay ((?k s1 1)\<lparr> k_sched := s2 \<rparr>) [] (\<lambda>_. []) [2..<MAX_NUM_TASKS]"
    "mset (queued s2) = add_mset 1 (mset (queued s1))"
    "\<forall>i. t_priority (blocks s2 ! i) = (if i = 1 then 100 else t_priority (blocks s1 ! i))"
    by (rule scheduler_add_ok [OF k1 _ nm(3,4), of s1 100 init "-1"]) (simp, rule that, simp_all)
  have "boot_kernel lay idle init bs rq m d clock = Inr (?k s2 2)"
    using d'(1) s(1) s1(1) s2(1) by (simp add: boot_kernel_def)
  moreover have "kinv lay (?k s2 2) [] (\<lambda>_. []) [2..<MAX_NUM_TASKS]"
    using s2(2) by (simp add: kinv_def)
  moreover have "mset (queued (k_sched (?k s2 2))) = {# 0, 1 #}"
    using s1(3) s2(3) s(2) by (simp add: queued_def add_mset_commute)
  ultimately show ?thesis by (rule that) (simp_all add: spec [OF s1(4)] spec [OF s2(4)] d'(2))
qed

end
