(* ===== verification/Messages.thy ===== *)
theory Messages
  imports Kernel_Boot
begin

section \<open>What arrives in a message\<close>

text \<open>
  The kernel copies messages between the tasks' own memory, so what arrives depends on where the
  two tasks have put their argument structs and buffers: the lemmas say what \<open>msg_copy\<close> does on separate areas.
\<close>

lemma copy_loop_ok:
  assumes "\<And>j l. j < i + left \<Longrightarrow> l < i + left \<Longrightarrow> dest + of_nat j \<noteq> src + of_nat l"
    and "i + left \<le> 2 ^ 32"
  shows "(\<forall>j. i \<le> j \<and> j < i + left \<longrightarrow> copy_loop src dest i left m (dest + of_nat j) = m (src + of_nat j)) \<and>
    (\<forall>a. (\<forall>j. i \<le> j \<and> j < i + left \<longrightarrow> a \<noteq> dest + of_nat j) \<longrightarrow> copy_loop src dest i left m a = m a)"
  using assms
proof (induction src dest i left m rule: copy_loop.induct)
  case (2 src dest i left m)
  let ?m = "m(dest + of_nat i := m (src + of_nat i))"
  have inj: "(of_nat j :: 32 word) \<noteq> of_nat i" if "i < j" "j < i + Suc left" for j
  proof -
    have "j < 2 ^ 32" "i < 2 ^ 32" using that 2(3) by linarith+
    then show ?thesis using that by (simp add: word_of_nat_eq_iff take_bit_nat_eq_self)
  qed
  have ih: "(\<forall>j. i + 1 \<le> j \<and> j < i + 1 + left \<longrightarrow>
        copy_loop src dest (i + 1) left ?m (dest + of_nat j) = ?m (src + of_nat j)) \<and>
      (\<forall>a. (\<forall>j. i + 1 \<le> j \<and> j < i + 1 + left \<longrightarrow> a \<noteq> dest + of_nat j) \<longrightarrow>
        copy_loop src dest (i + 1) left ?m a = ?m a)"
    using 2(2,3) by (intro 2(1)) auto
  have "copy_loop src dest i (Suc left) m (dest + of_nat j) = m (src + of_nat j)"
    if j: "i \<le> j" "j < i + Suc left" for j
  proof (cases "j = i")
    case True
    have "\<forall>l. i + 1 \<le> l \<and> l < i + 1 + left \<longrightarrow> dest + of_nat i \<noteq> dest + of_nat l"
    proof (intro allI impI)
      fix l assume "i + 1 \<le> l \<and> l < i + 1 + left"
      then show "dest + of_nat i \<noteq> dest + of_nat l" using inj [of l] by auto
    qed
    then have "copy_loop src dest (i + 1) left ?m (dest + of_nat i) = ?m (dest + of_nat i)"
      using ih by blast
    then show ?thesis using True by simp
  next
    case False
    then have "copy_loop src dest (i + 1) left ?m (dest + of_nat j) = ?m (src + of_nat j)"
      using ih j by simp
    moreover have "src + of_nat j \<noteq> dest + of_nat i" using 2(2) [of i j] j by auto
    ultimately show ?thesis by simp
  qed
  moreover have "copy_loop src dest i (Suc left) m a = m a"
    if a: "\<forall>j. i \<le> j \<and> j < i + Suc left \<longrightarrow> a \<noteq> dest + of_nat j" for a
  proof -
    have "copy_loop src dest (i + 1) left ?m a = ?m a" using ih a by simp
    then show ?thesis using a by simp
  qed
  ultimately show ?case by blast
qed auto

lemma msg_copy_ok:
  assumes "msg_copy src srclen dest destlen m = (m', n)" "srclen < 2 ^ 31 \<or> destlen < 2 ^ 31"
    and sep: "area src (nat n) \<inter> area dest (nat n) = {}"
  shows "n = min srclen destlen" "i < nat n \<Longrightarrow> m' (dest + of_nat i) = m (src + of_nat i)"
    "a \<notin> area dest (nat n) \<Longrightarrow> m' a = m a"
proof -
  show n: "n = min srclen destlen" using assms(1) by (auto simp: msg_copy_def Let_def min_def)
  have m': "m' = copy_loop src dest 0 (nat n) m" using assms(1) by (auto simp: msg_copy_def Let_def)
  have "dest + of_nat j \<noteq> src + of_nat l" if "j < nat n" "l < nat n" for j l
    using sep areaI [OF that(1), of dest] areaI [OF that(2), of src] by auto
  moreover have "nat n \<le> 2 ^ 32" using n assms(2) by auto
  ultimately have c: "(\<forall>j. 0 \<le> j \<and> j < 0 + nat n \<longrightarrow> m' (dest + of_nat j) = m (src + of_nat j)) \<and>
      (\<forall>a. (\<forall>j. 0 \<le> j \<and> j < 0 + nat n \<longrightarrow> a \<noteq> dest + of_nat j) \<longrightarrow> m' a = m a)"
    unfolding m' by (intro copy_loop_ok) auto
  show "i < nat n \<Longrightarrow> m' (dest + of_nat i) = m (src + of_nat i)" using c by simp
  show "m' a = m a" if "a \<notin> area dest (nat n)"
  proof -
    have "\<forall>j. 0 \<le> j \<and> j < 0 + nat n \<longrightarrow> a \<noteq> dest + of_nat j"
      using that areaI [of _ "nat n" dest] by auto
    then show ?thesis using c by blast
  qed
qed

lemma ld_int_bound: "ld_int m a < 2 ^ 31" "- (2 ^ 31) \<le> ld_int m a"
  using sint_range_size [of "ld32 m a"] by (simp_all add: ld_int_def word_size)

text \<open>The areas a Send of \<open>src\<close> to \<open>dst\<close> deals with, and that they are separate.\<close>

definition send_separate :: "memory \<Rightarrow> addr \<Rightarrow> addr \<Rightarrow> bool" where
  "send_separate m s_args r_args \<longleftrightarrow>
     (let n = nat (min (ld_int m (s_args + 8)) (ld_int m (r_args + 8)));
          cell = area (ld32 m r_args) 4;
          msg = area (ld32 m (s_args + 4)) n; buf = area (ld32 m (r_args + 4)) n
      in cell \<inter> (area s_args 20 \<union> area r_args 12 \<union> msg \<union> buf) = {} \<and> msg \<inter> buf = {})"

lemma delivered_ok:
  assumes sep: "send_separate m s_args r_args" and tid: "0 \<le> t_tid s" "t_tid s < 2 ^ 31"
    and args: "get_data (t_context s) = s_args" "get_data (t_context d) = r_args"
    and del: "delivered m s d = (m', n)"
  shows "n = min (ld_int m (s_args + 8)) (ld_int m (r_args + 8))"
    "ld_int m' (ld32 m r_args) = t_tid s"
    "i < nat n \<Longrightarrow> m' (ld32 m (r_args + 4) + of_nat i) = m (ld32 m (s_args + 4) + of_nat i)"
    "a \<notin> area (ld32 m r_args) 4 \<union> area (ld32 m (r_args + 4)) (nat n) \<Longrightarrow> m' a = m a"
proof -
  let ?p = "ld32 m r_args" and ?n = "min (ld_int m (s_args + 8)) (ld_int m (r_args + 8))"
  let ?msg = "ld32 m (s_args + 4)" and ?buf = "ld32 m (r_args + 4)"
  define m1 where "m1 = st32 m ?p (word_of_int (t_tid s))"
  have cell: "area ?p 4 \<inter> area s_args 20 = {}" "area ?p 4 \<inter> area r_args 12 = {}"
    "area ?p 4 \<inter> area ?msg (nat ?n) = {}" "area ?p 4 \<inter> area ?buf (nat ?n) = {}"
    and mb: "area ?msg (nat ?n) \<inter> area ?buf (nat ?n) = {}"
    using sep by (auto simp: send_separate_def Let_def)
  have s: "ld32 m1 (s_args + 4 * of_nat i) = ld32 m (s_args + 4 * of_nat i)" if "4 * i + 4 \<le> 20" for i
    unfolding m1_def using cell(1) area_word [OF that, of s_args] by (intro ld32_st32_other) blast
  have r: "ld32 m1 (r_args + 4 * of_nat i) = ld32 m (r_args + 4 * of_nat i)" if "4 * i + 4 \<le> 12" for i
    unfolding m1_def using cell(2) area_word [OF that, of r_args] by (intro ld32_st32_other) blast
  have args1: "ld32 m1 (s_args + 4) = ?msg" "ld_int m1 (s_args + 8) = ld_int m (s_args + 8)"
    "ld32 m1 (r_args + 4) = ?buf" "ld_int m1 (r_args + 8) = ld_int m (r_args + 8)"
    using s [of 1] s [of 2] r [of 1] r [of 2] by (simp_all add: ld_int_def)
  have copy: "msg_copy ?msg (ld_int m (s_args + 8)) ?buf (ld_int m (r_args + 8)) m1 = (m', n)"
    using del by (simp add: delivered_def Let_def args m1_def [symmetric] args1)
  have n: "n = ?n" using copy by (auto simp: msg_copy_def Let_def min_def)
  note c = msg_copy_ok [OF copy disjI1 [OF ld_int_bound(1)], unfolded n, OF mb, folded n]
  show "n = ?n" by (rule n)
  show "ld_int m' ?p = t_tid s"
  proof -
    have "ld32 m' ?p = ld32 m1 ?p" using cell(4) n by (intro ld32_area c(3)) auto
    also have "\<dots> = word_of_int (t_tid s)" by (simp add: m1_def)
    finally show ?thesis
      using tid by (simp add: ld_int_def sint_sbintrunc' signed_take_bit_int_eq_self)
  qed
  show "m' (?buf + of_nat i) = m (?msg + of_nat i)" if i: "i < nat n"
  proof -
    have "?msg + of_nat i \<notin> area ?p 4" using cell(3) areaI [OF i, of ?msg] n by auto
    then show ?thesis using c(2) [OF i] by (simp add: m1_def st32_other)
  qed
  show "m' a = m a" if "a \<notin> area ?p 4 \<union> area ?buf (nat n)"
    using that c(3) [of a] by (simp add: m1_def st32_other)
qed

end
