(* ===== verification/Kernel_Properties.thy ===== *)
theory Kernel_Properties
  imports Messages
begin

section \<open>What the kernel guarantees\<close>

text \<open>
  The properties of the kernel model: which steps it survives, what holds in every state it
  reaches, how message passing looks to the tasks, and what arrives in a message.
\<close>

subsection \<open>Steps and reachable states\<close>

lemma kernel_step_empty:
  assumes "rq_count (k_sched k) = 0"
  shows "\<exists>e. kernel_step lay k u = Inl e"
proof -
  have "pop_ready_queue (k_sched k) = Inl (Assert_Failed ''Ready queue should contain TCB's to pop'')"
    using assms by (simp add: pop_ready_queue_def)
  then show ?thesis by (auto simp: kernel_step_def kassert_def)
qed

lemma kernel_step_keeps:
  assumes "kernel_ok lay k" "kernel_step lay k u = Inr (Running k')"
  shows "kernel_ok lay k'"
proof (cases "rq_count (k_sched k) = 0")
  case True
  then show ?thesis using kernel_step_empty [of k lay u] assms(2) by simp
next
  case False
  obtain sq fl where inv: "kinv lay k [] sq fl" using assms(1) by (auto simp: kernel_ok_def)
  obtain cur s where c: "pop_ready_queue (k_sched k) = Inr (cur, s)"
    "kinv lay (k\<lparr> k_sched := s \<rparr>) [cur] sq fl"
    using kinv_pop [OF inv] False by (metis gr0I)
  show ?thesis
    using kernel_step_handled [OF inv c, of u] assms(2) by (auto simp: handled_def split: if_splits)
qed

text \<open>The states of the loop in \<open>kmain\<close>; user programs and hardware may do anything in a step.\<close>

inductive reaches :: "layout \<Rightarrow> kernel \<Rightarrow> kernel \<Rightarrow> bool" for lay where
  start: "reaches lay k k"
| step: "reaches lay k k1 \<Longrightarrow> kernel_running k1 \<Longrightarrow> kernel_step lay k1 u = Inr (Running k2) \<Longrightarrow>
    reaches lay k k2"

inductive_cases reachesE: "reaches lay k k'"

lemma reaches_trans: "reaches lay k1 k2 \<Longrightarrow> reaches lay k k1 \<Longrightarrow> reaches lay k k2"
  by (induction rule: reaches.induct) (blast intro: reaches.step)+

lemma reaches_ok: "reaches lay k k' \<Longrightarrow> kernel_ok lay k \<Longrightarrow> kernel_ok lay k'"
  by (induction rule: reaches.induct) (blast intro: kernel_step_keeps)+

lemma booted:
  assumes "boot_arrays_ok bs rq"
  obtains k s where "boot_kernel lay idle init bs rq m d clock = Inr k" "kernel_ok lay k"
    "mset (queued (k_sched k)) = {# 0, 1 #}" "kernel_running k"
    "pop_ready_queue (k_sched k) = Inr (1, s)" "0 < scheduler_length (k_sched k)"
    "k_dev k (UART1_BASE + UART_RSR_OFFSET) = 0"
proof -
  obtain k where k: "boot_kernel lay idle init bs rq m d clock = Inr k"
    "kinv lay k [] (\<lambda>_. []) [2..<MAX_NUM_TASKS]" "mset (queued (k_sched k)) = {# 0, 1 #}"
    "t_priority (blocks (k_sched k) ! 0) = -99" "t_priority (blocks (k_sched k) ! 1) = 100"
    "k_dev k (UART1_BASE + UART_RSR_OFFSET) = 0"
    by (rule boot_kernel_ok [OF assms])
  have len: "rq_count (k_sched k) = 2"
    using arg_cong [OF k(3), of size] kinvD(1) [OF k(2)] by (simp add: sched_inv_def queued_def)
  have q: "set (queued (k_sched k)) = {0, 1}" using arg_cong [OF k(3), of set_mset] by simp
  obtain cur s where c: "pop_ready_queue (k_sched k) = Inr (cur, s)"
    "mset (queued (k_sched k)) = add_mset cur (mset (queued s))"
    "\<And>i. i \<in> set (queued (k_sched k)) \<Longrightarrow>
       t_priority (blocks (k_sched k) ! i) \<le> t_priority (blocks (k_sched k) ! cur)"
    by (rule kinv_pop [OF k(2)]) (simp add: len, rule that)
  have "cur \<in># mset (queued (k_sched k))" unfolding c(2) by simp
  then have "cur \<in> {0, 1}" using q by simp
  moreover have "cur \<noteq> 0"
  proof
    assume 0: "cur = 0"
    have "1 \<in> set (queued (k_sched k))" using q by simp
    from c(3) [OF this] show False unfolding 0 k(4,5) by simp
  qed
  ultimately have "cur = 1" by simp
  then show ?thesis
    using that [of k s] k(1-3,6) c(1) len by (auto simp: kernel_ok_def scheduler_length_def kernel_running_def)
qed

text \<open>
  C11: The boot sequence of \<open>kmain\<close> meets no fault, whatever the uninitialised arrays, the memory and the
  device registers hold: it leaves the kernel in order, with exactly the idle task (tid 0) and the
  first user task (tid 1) in the ready queue, and the user task is the first one to run.
\<close>

theorem boot_in_order:
  assumes "boot_arrays_ok bs rq"
  shows "\<exists>k s. boot_kernel lay idle init bs rq m d clock = Inr k \<and> kernel_ok lay k \<and>
    mset (queued (k_sched k)) = {# 0, 1 #} \<and> kernel_running k \<and>
    pop_ready_queue (k_sched k) = Inr (1, s)"
  using booted [OF assms] by blast

text \<open>Arrays and addresses to start from.\<close>

definition blank_tcbs :: "tcb list" where
  "blank_tcbs = replicate MAX_NUM_TASKS (sample_tcb 7 3 0)"

definition blank_queue :: "nat list" where
  "blank_queue = replicate MAX_NUM_TASKS 9"

definition sample_layout :: layout where
  "sample_layout = \<lparr> ctx_at = (\<lambda>i. 0x1000000 + of_nat i * 0x9000), exit_at = 0x8000 \<rparr>"

lemma blank_arrays: "boot_arrays_ok blank_tcbs blank_queue"
  by (simp add: boot_arrays_ok_def blank_tcbs_def blank_queue_def sample_tcb_def MAX_TASK_NAME_LEN_def
      list_all_length)

abbreviation sample_boot :: "kernel cres" where
  "sample_boot \<equiv> boot_kernel sample_layout 0x9000 0xA000 blank_tcbs blank_queue (\<lambda>_. 0) (\<lambda>_. 0) (\<lambda>n. - of_nat n)"

theorem boot_in_order_witness:
  "\<exists>k s. sample_boot = Inr k \<and> kernel_ok sample_layout k \<and> mset (queued (k_sched k)) = {# 0, 1 #} \<and>
     kernel_running k \<and> pop_ready_queue (k_sched k) = Inr (1, s)"
  by (rule boot_in_order [OF blank_arrays])

text \<open>
  C12: In order, and with a task to run, the kernel serves a step without a fault exactly when three
  things hold: no byte of UART 1 was dropped, the task left the guards around its stack alone, and its
  call is one the code is prepared for (\<open>call_served\<close>: a name that ends in its array, a Send to a tid
  other than 125, a Reply to a task that waits for one, a known event nobody waits for, and for an
  interrupt a task that waits for it). It is then in order again.
\<close>

theorem kernel_step_survives:
  assumes "kernel_ok lay k" "0 < scheduler_length (k_sched k)"
  shows "\<exists>cur s. pop_ready_queue (k_sched k) = Inr (cur, s) \<and>
    (if k_dev k (UART1_BASE + UART_RSR_OFFSET) AND OE_MASK = 0 \<and> guards_kept lay cur u \<and>
        call_served (trapped k s cur u) (fst (trap u)) (get_data (snd (trap u)))
     then (case kernel_step lay k u of Inl _ \<Rightarrow> False | Inr (Running k') \<Rightarrow> kernel_ok lay k' | Inr (Shut_Down _) \<Rightarrow> True)
     else (case kernel_step lay k u of Inl _ \<Rightarrow> True | Inr _ \<Rightarrow> False))"
proof -
  obtain sq fl where inv: "kinv lay k [] sq fl" using assms(1) by (auto simp: kernel_ok_def)
  obtain cur s where c: "pop_ready_queue (k_sched k) = Inr (cur, s)"
    "kinv lay (k\<lparr> k_sched := s \<rparr>) [cur] sq fl"
    using kinv_pop [OF inv assms(2) [unfolded scheduler_length_def]] by metis
  show ?thesis
    using kernel_step_handled [OF inv c, of u] c(1)
    by (intro exI [of _ cur] exI [of _ s]) (simp add: handled_def)
qed

text \<open>A program that yields: \<open>swi 4\<close> before its program counter.\<close>

definition yielding :: user_run where
  "yielding = \<lparr> u_task = \<lparr> stack_check_a = ctx_at sample_layout 1 XOR 93,
      stack_check_b = ctx_at sample_layout 1 XOR 72, reg = sample_regs\<lparr> r15 := 0x104 \<rparr> \<rparr>,
    u_mem = st32 (\<lambda>_. 0) 0x100 (0xEF000000 OR 4), u_dev = (\<lambda>_. 0) \<rparr>"

lemma trap_yielding: "fst (trap yielding) = SYSCALL_YIELD"
  by (simp add: trap_def yielding_def SYSCALL_YIELD_def Let_def sample_regs_def)

theorem kernel_step_survives_witness:
  "\<exists>k. sample_boot = Inr k \<and>
     (case kernel_step sample_layout k yielding of Inl _ \<Rightarrow> False
      | Inr (Running k') \<Rightarrow> kernel_ok sample_layout k' | Inr (Shut_Down _) \<Rightarrow> True)"
proof -
  obtain k s where k: "sample_boot = Inr k" "kernel_ok sample_layout k"
    "pop_ready_queue (k_sched k) = Inr (1, s)" "0 < scheduler_length (k_sched k)"
    "k_dev k (UART1_BASE + UART_RSR_OFFSET) = 0"
    by (rule booted [OF blank_arrays])
  have "guards_kept sample_layout 1 yielding" by (simp add: guards_kept_def yielding_def)
  moreover have "call_served k' (fst (trap yielding)) data" for k' data
    by (simp add: trap_yielding call_served_def syscall_defs)
  ultimately show ?thesis
    using kernel_step_survives [OF k(2,4), of yielding] k(1,3,5) by auto
qed



subsection \<open>Message passing, seen by the tasks\<close>

text \<open>
  The contract of Send, Receive and Reply: a state for each task and, for each task, the list of those
  waiting to send to it.
\<close>

record ipc =
  ipc_state :: "nat \<Rightarrow> tcb_state"
  ipc_senders :: "nat \<Rightarrow> nat list"

definition ipc_send :: "nat \<Rightarrow> nat \<Rightarrow> ipc \<Rightarrow> ipc" where
  "ipc_send cur t a =
     (if ipc_state a t = ZOMBIE then a
      else if ipc_state a t = RECEIVE then a\<lparr> ipc_state := (ipc_state a)(cur := REPLY, t := READY) \<rparr>
      else a\<lparr> ipc_state := (ipc_state a)(cur := SEND),
             ipc_senders := (ipc_senders a)(t := ipc_senders a t @ [cur]) \<rparr>)"

definition ipc_receive :: "nat \<Rightarrow> ipc \<Rightarrow> ipc" where
  "ipc_receive cur a =
     (case ipc_senders a cur of
        [] \<Rightarrow> a\<lparr> ipc_state := (ipc_state a)(cur := RECEIVE) \<rparr>
      | src # rest \<Rightarrow> a\<lparr> ipc_state := (ipc_state a)(src := REPLY),
                       ipc_senders := (ipc_senders a)(cur := rest) \<rparr>)"

definition ipc_reply :: "nat \<Rightarrow> ipc \<Rightarrow> ipc" where
  "ipc_reply t a = a\<lparr> ipc_state := (ipc_state a)(t := READY) \<rparr>"

text \<open>The list read off the pointers, and the contract's view of a kernel state.\<close>

fun chain :: "tcb list \<Rightarrow> tcb_ptr \<Rightarrow> nat \<Rightarrow> nat list" where
  "chain bs (Some x) (Suc n) = x # chain bs (t_next (bs ! x)) n"
| "chain bs _ _ = []"

definition ipc_of :: "kernel \<Rightarrow> ipc" where
  "ipc_of k = (let bs = blocks (k_sched k) in
     \<lparr> ipc_state = (\<lambda>i. if i < MAX_NUM_TASKS then t_state (bs ! i) else ZOMBIE),
       ipc_senders = (\<lambda>r. if r < MAX_NUM_TASKS then chain bs (want_send (bs ! r)) MAX_NUM_TASKS else []) \<rparr>)"

text \<open>Task \<open>cur\<close> has trapped and is being served.\<close>

definition serving :: "layout \<Rightarrow> kernel \<Rightarrow> nat \<Rightarrow> bool" where
  "serving lay k cur \<longleftrightarrow> (\<exists>sq fl. kinv lay k [cur] sq fl)"

lemma chain_links: "links bs p xs \<Longrightarrow> length xs \<le> n \<Longrightarrow> chain bs p n = xs"
proof (induction xs arbitrary: p n)
  case (Cons x xs)
  then show ?case by (cases n) auto
qed (cases n; simp)

lemma ipc_of_kinv:
  assumes inv: "kinv lay k run sq fl"
  shows "ipc_of k = \<lparr> ipc_state = (\<lambda>i. if i < MAX_NUM_TASKS then t_state (blocks (k_sched k) ! i) else ZOMBIE),
    ipc_senders = (\<lambda>r. if r < MAX_NUM_TASKS then sq r else []) \<rparr>"
proof -
  note d = kinvD [OF inv]
  have "chain (blocks (k_sched k)) (want_send (blocks (k_sched k) ! r)) MAX_NUM_TASKS = sq r"
    if r: "r < MAX_NUM_TASKS" for r
  proof (rule chain_links)
    note s = senders_okD [OF d(5), of r, unfolded d(3), OF r]
    show "links (blocks (k_sched k)) (want_send (blocks (k_sched k) ! r)) (sq r)" by (rule s(1))
    have "set (sq r) \<subseteq> {..<MAX_NUM_TASKS}" using s(4) d(3) by auto
    then have "card (set (sq r)) \<le> MAX_NUM_TASKS" using card_mono [of "{..<MAX_NUM_TASKS}"] by fastforce
    then show "length (sq r) \<le> MAX_NUM_TASKS" using distinct_card [OF s(3)] by simp
  qed
  then show ?thesis by (auto simp: ipc_of_def Let_def)
qed

text \<open>Two views agree when the states and the lists do.\<close>

lemma ipc_ofI:
  assumes "kinv lay k' run sq fl"
    and "\<And>i. i < MAX_NUM_TASKS \<Longrightarrow> t_state (blocks (k_sched k') ! i) = ipc_state a i"
    and "\<And>i. \<not> i < MAX_NUM_TASKS \<Longrightarrow> ipc_state a i = ZOMBIE \<and> ipc_senders a i = []"
    and "\<And>r. r < MAX_NUM_TASKS \<Longrightarrow> sq r = ipc_senders a r"
  shows "ipc_of k' = a"
proof -
  have st: "(\<lambda>i. if i < MAX_NUM_TASKS then t_state (blocks (k_sched k') ! i) else ZOMBIE) = ipc_state a"
    using assms(2,3) by auto
  have sn: "(\<lambda>r. if r < MAX_NUM_TASKS then sq r else []) = ipc_senders a"
    using assms(3,4) by auto
  show ?thesis unfolding ipc_of_kinv [OF assms(1)] st sn by simp
qed

lemma readied_state:
  "readied k t ctx k' \<Longrightarrow> t_state (blocks (k_sched k') ! x) = t_state (blocks (k_sched k) ! x)"
  by (simp add: readied_def nth_update)

lemma sys_send_ipc:
  assumes inv: "kinv lay k [cur] sq fl" and tid: "ld_int (k_mem k) data = int t" "t < MAX_NUM_TASKS"
  shows "\<exists>k'. sys_send k cur data = Inr k' \<and> ipc_of k' = ipc_send cur t (ipc_of k)"
proof -
  note d = kinvD [OF inv] and r = kinv_run [OF inv, of cur, simplified]
  note view = ipc_of_kinv [OF inv]
  let ?target = "blocks (k_sched k) ! t"
  obtain m ret where del: "delivered (k_mem k) (blocks (k_sched k) ! cur) ?target = (m, ret)" by fastforce
  have run: "sys_send k cur data =
      (if t_state ?target = ZOMBIE then ret_ready k cur EINVALIDTID
       else if t_state ?target = RECEIVE then handle_send k cur t else enqueue_sender k cur t)"
    using tid d(3) by (simp add: sys_send_def Let_def)
  consider "t_state ?target = ZOMBIE" | "t_state ?target = RECEIVE"
    | "t_state ?target \<notin> {ZOMBIE, RECEIVE}" by blast
  then show ?thesis
  proof cases
    case 1
    obtain k' where k': "ret_ready k cur EINVALIDTID = Inr k'" "kinv lay k' [] sq fl"
      "readied k cur (set_return (t_context (blocks (k_sched k) ! cur)) (word_of_int EINVALIDTID)) k'"
      by (rule ret_ready_ok [OF inv])
    have "ipc_of k' = ipc_send cur t (ipc_of k)"
      by (rule ipc_ofI [OF k'(2)]) (simp_all add: view ipc_send_def readied_state [OF k'(3)] 1 tid(2))
    then show ?thesis using run 1 k'(1) by simp
  next
    case 2
    obtain k' where k': "handle_send k cur t = Inr k'" "kinv lay k' [] sq fl"
      "\<And>x. t_state (blocks (k_sched k') ! x) =
         (if x = cur then REPLY else if x = t then READY else t_state (blocks (k_sched k) ! x))"
      by (rule handle_send_ok [OF inv tid(2) 2 del]) (rule that)
    have "cur \<noteq> t" using r(2) 2 by auto
    then have "ipc_of k' = ipc_send cur t (ipc_of k)"
      by (intro ipc_ofI [OF k'(2)]) (use tid(2) r(1) in \<open>auto simp: view ipc_send_def k'(3) 2\<close>)
    then show ?thesis using run 2 k'(1) by simp
  next
    case 3
    obtain bs' where b: "enqueue_sender k cur t = Inr (with_blocks k bs')"
      "kinv lay (with_blocks k bs') [] (sq(t := sq t @ [cur])) fl"
      "enqueued (blocks (k_sched k)) sq cur t bs'"
      by (rule enqueue_sender_ok [OF inv tid(2)])
    have "ipc_of (with_blocks k bs') = ipc_send cur t (ipc_of k)"
      by (rule ipc_ofI [OF b(2)])
        (use tid(2) r(1) 3 b(3) in \<open>auto simp: view ipc_send_def enqueued_def with_blocks_def\<close>)
    then show ?thesis using run 3 b(1) by simp
  qed
qed

lemma sys_receive_ipc:
  assumes inv: "kinv lay k [cur] sq fl"
  shows "\<exists>k'. sys_receive k cur = Inr k' \<and> ipc_of k' = ipc_receive cur (ipc_of k)"
proof -
  note d = kinvD [OF inv] and r = kinv_run [OF inv, of cur, simplified]
  note view = ipc_of_kinv [OF inv]
  show ?thesis
  proof (cases "sq cur")
    case Nil
    obtain k' where k': "sys_receive k cur = Inr k'" "kinv lay k' [] sq fl"
      "\<And>x. t_state (blocks (k_sched k') ! x) = (if x = cur then RECEIVE else t_state (blocks (k_sched k) ! x))"
      by (rule sys_receive_empty [OF inv Nil]) (rule that)
    have "ipc_of k' = ipc_receive cur (ipc_of k)"
      by (rule ipc_ofI [OF k'(2)]) (use r(1) Nil in \<open>auto simp: view ipc_receive_def k'(3)\<close>)
    then show ?thesis using k'(1) by simp
  next
    case (Cons src rest)
    have src: "src < MAX_NUM_TASKS"
      using senders_okD(4) [OF d(5), of cur src] r(1) d(3) Cons by simp
    obtain m ret where del: "delivered (k_mem k) (blocks (k_sched k) ! src) (blocks (k_sched k) ! cur) = (m, ret)"
      by fastforce
    obtain k' where k': "sys_receive k cur = Inr k'" "kinv lay k' [] (sq(cur := rest)) fl"
      "\<And>x. t_state (blocks (k_sched k') ! x) = (if x = src then REPLY else t_state (blocks (k_sched k) ! x))"
      by (rule sys_receive_sender [OF inv Cons del]) (rule that)
    have "ipc_of k' = ipc_receive cur (ipc_of k)"
      by (rule ipc_ofI [OF k'(2)]) (use r(1) src Cons in \<open>auto simp: view ipc_receive_def k'(3)\<close>)
    then show ?thesis using k'(1) by simp
  qed
qed

lemma sys_reply_ipc:
  assumes inv: "kinv lay k [cur] sq fl" and tid: "ld_int (k_mem k) data = int t" "t < MAX_NUM_TASKS"
    and st: "ipc_state (ipc_of k) t = REPLY"
  shows "\<exists>k'. sys_reply k cur data = Inr k' \<and> ipc_of k' = ipc_reply t (ipc_of k)"
proof -
  note view = ipc_of_kinv [OF inv]
  have st: "t_state (blocks (k_sched k) ! t) = REPLY" using st tid(2) by (simp add: view)
  obtain m ret where c: "msg_copy (ld32 (k_mem k) (data + 4)) (ld_int (k_mem k) (data + 8))
      (ld32 (k_mem k) (get_data (t_context (blocks (k_sched k) ! t)) + 12))
      (ld_int (k_mem k) (get_data (t_context (blocks (k_sched k) ! t)) + 16)) (k_mem k) = (m, ret)"
    by fastforce
  obtain k' where k': "sys_reply k cur data = Inr k'" "kinv lay k' [] sq fl"
    "\<And>x. t_state (blocks (k_sched k') ! x) = (if x = t then READY else t_state (blocks (k_sched k) ! x))"
    by (rule sys_reply_ok [OF inv tid st c]) (rule that)
  have "ipc_of k' = ipc_reply t (ipc_of k)"
    by (rule ipc_ofI [OF k'(2)]) (use tid(2) in \<open>auto simp: view ipc_reply_def k'(3)\<close>)
  then show ?thesis using k'(1) by simp
qed

text \<open>
  C14: Send, Receive and Reply, with their sender lists linked through the descriptors, implement the
  contract: Send to a task that is gone changes nothing, to one blocked in Receive it hands the message over,
  and otherwise the caller is appended to the target's list; Receive takes the first of the list
  (so senders are served first come, first served) or blocks; Reply readies the waiting task.
\<close>

theorem ipc_refinement:
  assumes "serving lay k cur"
  shows "(\<forall>t < MAX_NUM_TASKS. ld_int (k_mem k) data = int t \<longrightarrow>
      (\<exists>k'. sys_send k cur data = Inr k' \<and> ipc_of k' = ipc_send cur t (ipc_of k))) \<and>
    (\<exists>k'. sys_receive k cur = Inr k' \<and> ipc_of k' = ipc_receive cur (ipc_of k)) \<and>
    (\<forall>t < MAX_NUM_TASKS. ld_int (k_mem k) data = int t \<and> ipc_state (ipc_of k) t = REPLY \<longrightarrow>
      (\<exists>k'. sys_reply k cur data = Inr k' \<and> ipc_of k' = ipc_reply t (ipc_of k)))"
proof -
  obtain sq fl where inv: "kinv lay k [cur] sq fl" using assms by (auto simp: serving_def)
  show ?thesis using sys_send_ipc [OF inv] sys_receive_ipc [OF inv] sys_reply_ipc [OF inv] by blast
qed

text \<open>A task to be served: the user task of a fresh boot, then the idle task with the other one in Receive.\<close>

lemma booted_serving:
  obtains k s where "sample_boot = Inr k" "pop_ready_queue (k_sched k) = Inr (1, s)"
    "kinv sample_layout (k\<lparr> k_sched := s \<rparr>) [1] (\<lambda>_. []) [2..<MAX_NUM_TASKS]"
    "mset (queued s) = {# 0 #}"
proof -
  obtain k where k: "sample_boot = Inr k" "kinv sample_layout k [] (\<lambda>_. []) [2..<MAX_NUM_TASKS]"
    "mset (queued (k_sched k)) = {# 0, 1 #}"
    by (rule boot_kernel_ok [OF blank_arrays])
  obtain k0 s where k0: "sample_boot = Inr k0" "pop_ready_queue (k_sched k0) = Inr (1, s)"
    "0 < scheduler_length (k_sched k0)"
    by (rule booted [OF blank_arrays])
  have eq: "k0 = k" using k(1) k0(1) by simp
  obtain cur s' where c: "pop_ready_queue (k_sched k) = Inr (cur, s')"
    "kinv sample_layout (k\<lparr> k_sched := s' \<rparr>) [cur] (\<lambda>_. []) [2..<MAX_NUM_TASKS]"
    "mset (queued (k_sched k)) = add_mset cur (mset (queued s'))"
    by (rule kinv_pop [OF k(2)]) (use k0(3) eq in \<open>simp add: scheduler_length_def\<close>, rule that)
  have "cur = 1" "s' = s" using c(1) k0(2) eq by simp_all
  then show ?thesis using that [of k s] k(1,3) c by (simp add: add_mset_commute)
qed

theorem ipc_refinement_witness:
  "\<exists>k k' k''. ld_int (k_mem k) 0 = 0 \<and>
     sys_send k 1 0 = Inr k' \<and> ipc_of k' = ipc_send 1 0 (ipc_of k) \<and>
     sys_receive k 1 = Inr k'' \<and> ipc_of k'' = ipc_receive 1 (ipc_of k)"
proof -
  obtain k0 s where "kinv sample_layout (k0\<lparr> k_sched := s \<rparr>) [1] (\<lambda>_. []) [2..<MAX_NUM_TASKS]"
    by (rule booted_serving) (rule that)
  then have "kinv sample_layout (k0\<lparr> k_sched := s, k_mem := \<lambda>_. 0 \<rparr>) [1] (\<lambda>_. []) [2..<MAX_NUM_TASKS]"
    by (simp add: kinv_def)
  then have k: "serving sample_layout (k0\<lparr> k_sched := s, k_mem := \<lambda>_. 0 \<rparr>) 1" (is "serving _ ?k _")
    by (auto simp: serving_def)
  have "ld_int (k_mem ?k) 0 = int 0" by (simp add: ld_int_def ld32_def)
  then show ?thesis
    using ipc_refinement [OF k, of 0] by (fastforce simp: MAX_NUM_TASKS_def)
qed

subsection \<open>Messages\<close>


text \<open>The idle task sends five bytes to the user task, which has asked for at most eight.\<close>

definition message_mem :: memory where
  "message_mem = (\<lambda>_. 0)(0x100 := 1, 0x105 := 3, 0x108 := 5, 0x201 := 5, 0x205 := 6, 0x208 := 8,
     0x300 := 104, 0x301 := 101, 0x302 := 108, 0x303 := 108, 0x304 := 111)"

definition trapping :: "nat \<Rightarrow> 32 word \<Rightarrow> user_run" where
  "trapping t args = \<lparr> u_task = \<lparr> stack_check_a = ctx_at sample_layout t XOR 93,
      stack_check_b = ctx_at sample_layout t XOR 72, reg = sample_regs\<lparr> r0 := args, r15 := 0x104 \<rparr> \<rparr>,
    u_mem = message_mem, u_dev = (\<lambda>_. 0) \<rparr>"

lemma trapping_simps [simp]:
  "guards_kept sample_layout t (trapping t args)" "get_data (snd (trap (trapping t args))) = args"
  "u_mem (trapping t args) = message_mem"
  by (simp_all add: guards_kept_def trapping_def trap_def Let_def get_data_def sample_regs_def)

lemma message_mem_words:
  "ld32 message_mem 0x104 = 0x300" "ld_int message_mem 0x108 = 5" "ld_int message_mem 0x100 = 1"
  "ld32 message_mem 0x200 = 0x500" "ld32 message_mem 0x204 = 0x600" "ld_int message_mem 0x208 = 8"
  by (simp_all add: ld_int_def ld32_def message_mem_def)

lemma message_separate: "send_separate message_mem 0x100 0x200"
proof -
  have "area 0x100 20 \<inter> area 0x500 4 = {}" "area 0x200 12 \<inter> area 0x500 4 = {}"
    "area 0x300 5 \<inter> area 0x500 4 = {}" "area 0x500 4 \<inter> area 0x600 5 = {}"
    "area 0x300 5 \<inter> area 0x600 5 = {}"
    by (rule area_disjoint; simp)+
  then show ?thesis
    by (simp add: send_separate_def Let_def message_mem_words Int_Un_distrib Int_commute)
qed

lemma message_state:
  obtains k where "serving sample_layout k 0" "t_state (blocks (k_sched k) ! 1) = RECEIVE"
    "k_mem k = message_mem" "get_data (t_context (blocks (k_sched k) ! 0)) = 0x100"
    "get_data (t_context (blocks (k_sched k) ! 1)) = 0x200"
proof -
  obtain k s where k: "kinv sample_layout (k\<lparr> k_sched := s \<rparr>) [1] (\<lambda>_. []) [2..<MAX_NUM_TASKS]"
    "mset (queued s) = {# 0 #}"
    by (rule booted_serving) (rule that)
  let ?k1 = "trapped k s 1 (trapping 1 0x200)"
  have k1: "kinv sample_layout ?k1 [1] (\<lambda>_. []) [2..<MAX_NUM_TASKS]"
    by (rule kinv_trapped [OF k(1)]) simp
  obtain k2 where k2: "kinv sample_layout k2 [] (\<lambda>_. []) [2..<MAX_NUM_TASKS]"
    "k2 = put ?k1 1 ((blocks (k_sched ?k1) ! 1)\<lparr> t_state := RECEIVE \<rparr>)"
    by (rule sys_receive_empty [OF k1 refl]) (rule that)
  have len: "length (blocks s) = MAX_NUM_TASKS" using kinvD(3) [OF k(1)] by simp
  have q2: "mset (queued (k_sched k2)) = {# 0 #}" using k(2) by (simp add: k2(2) trapped_def)
  have "rq_count (k_sched k2) = 1"
    using arg_cong [OF q2, of size] kinvD(1) [OF k2(1)] by (simp add: sched_inv_def queued_def)
  then have ne: "0 < rq_count (k_sched k2)" by simp
  obtain cur s' where c: "kinv sample_layout (k2\<lparr> k_sched := s' \<rparr>) [cur] (\<lambda>_. []) [2..<MAX_NUM_TASKS]"
    "blocks s' = blocks (k_sched k2)" "mset (queued (k_sched k2)) = add_mset cur (mset (queued s'))"
    by (rule kinv_pop [OF k2(1) ne]) (rule that)
  have cur: "cur = 0" using c(3) q2 by simp
  let ?k3 = "trapped k2 s' 0 (trapping 0 0x100)"
  have "kinv sample_layout ?k3 [0] (\<lambda>_. []) [2..<MAX_NUM_TASKS]"
    by (rule kinv_trapped [OF c(1) [unfolded cur]]) simp
  moreover have "blocks (k_sched ?k3) ! 1 = blocks (k_sched k2) ! 1"
    "get_data (t_context (blocks (k_sched ?k3) ! 0)) = 0x100"
    using c(2) len by (simp_all add: trapped_def k2(2) MAX_NUM_TASKS_def)
  moreover have "t_state (blocks (k_sched k2) ! 1) = RECEIVE"
    "get_data (t_context (blocks (k_sched k2) ! 1)) = 0x200"
    using len by (simp_all add: k2(2) trapped_def MAX_NUM_TASKS_def)
  moreover have "k_mem ?k3 = message_mem" by (simp add: trapped_def)
  ultimately show ?thesis using that [of ?k3] by (auto simp: serving_def)
qed


end
