(* ===== verification/Hashtable.thy ===== *)
theory Hashtable
  imports C_String Interfaces
begin

section \<open>The hash table (src/common/hashtable.c)\<close>

text \<open>
  One slot per hash value and no record of the key: a second key with the same hash replaces the
  first. Pointers are 32-bit words, 0 the null pointer; \<open>char\<close> is unsigned on ARM.
\<close>

record hashtable =
  ht_arr :: "32 word list"
  ht_capacity :: nat

definition E_KEY_MISSING :: int where "E_KEY_MISSING = 2"

fun hash_loop :: "char list \<Rightarrow> 32 word \<Rightarrow> 32 word cres" where
  "hash_loop [] hash = Inl Out_Of_Bounds"
| "hash_loop (c # key) hash =
     (if c \<noteq> NUL then hash_loop key ((push_bit 5 hash + hash) + of_char c) else Inr hash)"

definition hash_function :: "hashtable \<Rightarrow> char list \<Rightarrow> nat cres" where
  "hash_function ht key =
     cbind (hash_loop key 5381) (\<lambda>hash.
       if ht_capacity ht = 0 then Inl Undefined_Value else Inr (unat hash mod ht_capacity ht))"

definition ht_init :: "nat \<Rightarrow> 32 word list \<Rightarrow> hashtable cres" where
  "ht_init capacity arr =
     cbind (memset arr 0 capacity) (\<lambda>arr'. Inr \<lparr> ht_arr = arr', ht_capacity = capacity \<rparr>)"

definition ht_insert :: "hashtable \<Rightarrow> char list \<Rightarrow> 32 word \<Rightarrow> (int \<times> hashtable) cres" where
  "ht_insert ht key value =
     cbind (hash_function ht key) (\<lambda>index.
     cbind (wr (ht_arr ht) index value) (\<lambda>arr. Inr (0, ht\<lparr> ht_arr := arr \<rparr>)))"

text \<open>The status and, when the key is there, what \<open>*ret\<close> is set to.\<close>

definition ht_get :: "hashtable \<Rightarrow> char list \<Rightarrow> (int \<times> 32 word option) cres" where
  "ht_get ht key =
     cbind (hash_function ht key) (\<lambda>index.
     cbind (rd (ht_arr ht) index) (\<lambda>v.
       if v = 0 then Inr (E_KEY_MISSING, None) else Inr (0, Some v)))"

subsection \<open>What the table does\<close>

definition ht_ok :: "hashtable \<Rightarrow> bool" where
  "ht_ok ht \<longleftrightarrow> 0 < ht_capacity ht \<and> ht_capacity ht \<le> length (ht_arr ht)"

definition hash_of :: "string \<Rightarrow> 32 word" where
  "hash_of s = foldl (\<lambda>h c. 33 * h + of_char c) 5381 s"

lemma hash_loop_ok:
  "terminated key \<Longrightarrow> hash_loop key h = Inr (foldl (\<lambda>h c. 33 * h + of_char c) h (cstr key))"
proof (induction key arbitrary: h)
  case (Cons c key)
  have "push_bit 5 h + h = 33 * h" for h :: "32 word"
    by (simp add: push_bit_eq_mult)
  then show ?case using Cons by (auto simp: terminated_def cstr_def)
qed (simp add: terminated_def)

lemma hash_loop_terminated: "hash_loop key h = Inr r \<Longrightarrow> terminated key"
  by (induction key h rule: hash_loop.induct) (auto simp: terminated_def split: if_splits)

definition slot :: "hashtable \<Rightarrow> char list \<Rightarrow> nat" where
  "slot ht key = unat (hash_of (cstr key)) mod ht_capacity ht"

lemma hash_function_ok:
  "ht_ok ht \<Longrightarrow> terminated key \<Longrightarrow> hash_function ht key = Inr (slot ht key)"
  by (simp add: hash_function_def hash_loop_ok hash_of_def slot_def ht_ok_def)

lemma slot_bound: "ht_ok ht \<Longrightarrow> slot ht key < length (ht_arr ht)"
  unfolding slot_def ht_ok_def by (meson mod_less_divisor order_less_le_trans)

lemma ht_insert_ok:
  assumes "ht_ok ht" "terminated key"
  shows "ht_insert ht key v = Inr (0, ht\<lparr> ht_arr := (ht_arr ht)[slot ht key := v] \<rparr>)"
  using assms slot_bound by (simp add: ht_insert_def hash_function_ok)

lemma ht_get_ok:
  assumes "ht_ok ht" "terminated key"
  shows "ht_get ht key = Inr (if ht_arr ht ! slot ht key = 0 then (E_KEY_MISSING, None)
    else (0, Some (ht_arr ht ! slot ht key)))"
  using assms slot_bound by (simp add: ht_get_def hash_function_ok)

text \<open>The table as a client sees it: a state of the right shape, insertion and lookup as total functions.\<close>

definition ht_put :: "hashtable \<Rightarrow> char list \<Rightarrow> 32 word \<Rightarrow> hashtable" where
  "ht_put ht key v = (case ht_insert ht key v of Inr (_, ht') \<Rightarrow> ht' | Inl _ \<Rightarrow> ht)"

definition ht_find :: "hashtable \<Rightarrow> char list \<Rightarrow> 32 word option" where
  "ht_find ht key = (case ht_get ht key of Inr (_, r) \<Rightarrow> r | Inl _ \<Rightarrow> None)"

lemma ht_put_simps [simp]:
  assumes "ht_ok ht" "terminated key"
  shows "ht_ok (ht_put ht key v)" "slot (ht_put ht key v) k = slot ht k"
    "ht_capacity (ht_put ht key v) = ht_capacity ht"
  using assms by (simp_all add: ht_put_def ht_insert_ok ht_ok_def slot_def)

lemma ht_find_put:
  assumes "ht_ok ht" "terminated key" "terminated k"
  shows "ht_find (ht_put ht key v) k =
    (if slot ht k = slot ht key then (if v = 0 then None else Some v) else ht_find ht k)"
proof -
  have ok: "ht_ok (ht\<lparr> ht_arr := (ht_arr ht)[slot ht key := v] \<rparr>)" using assms(1) by (simp add: ht_ok_def)
  have slot: "slot (ht\<lparr> ht_arr := (ht_arr ht)[slot ht key := v] \<rparr>) k = slot ht k" by (simp add: slot_def)
  show ?thesis
    using assms slot_bound [OF assms(1), of key]
    by (auto simp: ht_find_def ht_put_def ht_insert_ok ht_get_ok [OF ok] ht_get_ok slot)
qed

lemma ht_init_ok:
  assumes "0 < capacity" "capacity \<le> length arr"
  obtains ht where "ht_init capacity arr = Inr ht" "ht_ok ht" "ht_capacity ht = capacity"
    "\<And>key. terminated key \<Longrightarrow> ht_find ht key = None"
proof -
  let ?ht = "\<lparr> ht_arr = replicate capacity 0 @ drop capacity arr, ht_capacity = capacity \<rparr>"
  have "ht_init capacity arr = Inr ?ht" using assms by (simp add: ht_init_def memset_ok)
  moreover have ok: "ht_ok ?ht" using assms by (simp add: ht_ok_def)
  moreover have "ht_find ?ht key = None" if "terminated key" for key
  proof -
    have "slot ?ht key < capacity" using assms(1) by (simp add: slot_def)
    then show ?thesis using that by (simp add: ht_find_def ht_get_ok [OF ok] nth_append)
  qed
  ultimately show ?thesis using that by simp
qed

interpretation names: slot_table ht_ok "\<lambda>_ k. terminated k" slot ht_put ht_find "(\<noteq>) 0"
  by unfold_locales (simp_all add: ht_find_put)

text \<open>
  C16: After any sequence of insertions into a table, a lookup finds the value inserted last among those
  whose key has the same hash value modulo the capacity, and otherwise what was there before. Keys
  themselves are never compared, and a null value makes the slot empty again.
\<close>

theorem hashtable_last_writer:
  assumes "ht_ok ht" "list_all (\<lambda>(k, v). terminated k) ops" "terminated key"
  shows "ht_get (foldl (\<lambda>ht (k, v). ht_put ht k v) ht ops) key =
    (case (case filter (\<lambda>(k, v). slot ht k = slot ht key) ops of
             [] \<Rightarrow> ht_find ht key
           | hits \<Rightarrow> if snd (last hits) = 0 then None else Some (snd (last hits)))
     of None \<Rightarrow> Inr (E_KEY_MISSING, None) | Some v \<Rightarrow> Inr (0, Some v))"
proof -
  let ?t = "foldl (\<lambda>ht (k, v). ht_put ht k v) ht ops"
  have find: "ht_find ?t key = (case filter (\<lambda>(k, v). slot ht k = slot ht key) ops of
      [] \<Rightarrow> ht_find ht key | hits \<Rightarrow> if snd (last hits) = 0 then None else Some (snd (last hits)))"
    using names.find_puts [OF assms] by (auto split: list.splits)
  have "ht_get ?t key = (case ht_find ?t key of None \<Rightarrow> Inr (E_KEY_MISSING, None) | Some v \<Rightarrow> Inr (0, Some v))"
    using ht_get_ok [OF names.inv_puts [OF assms(1,2)] assms(3)] by (simp add: ht_find_def)
  then show ?thesis unfolding find .
qed

theorem hashtable_last_writer_witness:
  "ht_get (foldl (\<lambda>ht (k, v). ht_put ht k v) \<lparr> ht_arr = [0, 0, 0], ht_capacity = 3 \<rparr>
     [(lit ''a'', 7), (lit ''b'', 8), (lit ''d'', 9)]) (lit ''a'') = Inr (0, Some 9)"
proof -
  let ?ht = "\<lparr> ht_arr = [0, 0, 0], ht_capacity = 3 \<rparr>"
  have slots: "slot ?ht (lit ''a'') = 1" "slot ?ht (lit ''b'') = 2" "slot ?ht (lit ''d'') = 1"
    by (simp_all add: slot_def hash_of_def)
  show ?thesis
    using hashtable_last_writer [of ?ht "[(lit ''a'', 7), (lit ''b'', 8), (lit ''d'', 9)]" "lit ''a''"]
    by (simp add: ht_ok_def slots)
qed

end
