(* ===== verification/Nameserver.thy ===== *)
theory Nameserver
  imports Hashtable Machine
begin

section \<open>The name server and its clients (src/user/nameserver.c, src/kernel/syscall.c)\<close>

text \<open>
  The server keeps the tids of registered tasks in a hash table; a request and a response are structs
  with a body of \<open>MAX_BODY_LENGTH\<close> characters. \<open>WhoIs\<close> and \<open>RegisterAs\<close> are split at their \<open>Send\<close>: what
  they put into the request, and what they make of the status and the response.
\<close>

unbundle bit_operations_syntax

definition MAX_NAMES :: nat where "MAX_NAMES = 1000"
definition MAX_BODY_LENGTH :: nat where "MAX_BODY_LENGTH = 128"
definition REQUEST_REGISTER_AS :: int where "REQUEST_REGISTER_AS = 1"
definition REQUEST_WHO_IS :: int where "REQUEST_WHO_IS = 2"
definition RESPONSE_GOOD :: int where "RESPONSE_GOOD = 0"
definition RESPONSE_NAME_DNE :: int where "RESPONSE_NAME_DNE = -2"

lemmas ns_defs = REQUEST_REGISTER_AS_def REQUEST_WHO_IS_def RESPONSE_GOOD_def RESPONSE_NAME_DNE_def

record nameserver_msg =
  ns_type :: int
  ns_body :: "char list"
  ns_length :: nat

text \<open>Requests and responses are built alike, and have the same layout.\<close>

definition nameserver_msg_init :: "int \<Rightarrow> char list \<Rightarrow> nat \<Rightarrow> nameserver_msg cres" where
  "nameserver_msg_init type body body_length =
     cbind (kassert (body_length < MAX_BODY_LENGTH) ''name must fit in body arr'') (\<lambda>_.
     cbind (memset (replicate MAX_BODY_LENGTH NUL) NUL MAX_BODY_LENGTH) (\<lambda>b0.
     cbind (memcpy b0 body (min MAX_BODY_LENGTH body_length)) (\<lambda>b.
       Inr \<lparr> ns_type = type, ns_body = b, ns_length = body_length \<rparr>)))"

definition nameserver_request_init :: "int \<Rightarrow> char list \<Rightarrow> nat \<Rightarrow> nameserver_msg cres" where
  "nameserver_request_init = nameserver_msg_init"

definition nameserver_response_init :: "int \<Rightarrow> char list \<Rightarrow> nat \<Rightarrow> nameserver_msg cres" where
  "nameserver_response_init = nameserver_msg_init"

definition get_tid_from_nameserver_response :: "nameserver_msg \<Rightarrow> int cres" where
  "get_tid_from_nameserver_response rs =
     cbind (kassert (ns_length rs \<ge> 4) ''Must hold 4 bytes'') (\<lambda>_.
     cbind (rd (ns_body rs) 0) (\<lambda>b0. cbind (rd (ns_body rs) 1) (\<lambda>b1.
     cbind (rd (ns_body rs) 2) (\<lambda>b2. cbind (rd (ns_body rs) 3) (\<lambda>b3.
       Inr (sint (push_bit 24 (of_char b0 :: 32 word) OR push_bit 16 (of_char b1) OR
                  push_bit 8 (of_char b2) OR of_char b3)))))))"

text \<open>The four bytes of a tid, high byte first.\<close>

definition tid_bytes :: "32 word \<Rightarrow> char list" where
  "tid_bytes tid = map (\<lambda>w. char_of (uint (w AND 0xFF)))
     [drop_bit 24 tid, drop_bit 16 tid, drop_bit 8 tid, tid]"

subsection \<open>The server\<close>

text \<open>\<open>ns_resp\<close> is the array \<open>response_body\<close>, which is kept from one request to the next.\<close>

record nameserver =
  ns_ht :: hashtable
  ns_resp :: "char list"

definition nameserver_init :: "32 word list \<Rightarrow> char list \<Rightarrow> nameserver cres" where
  "nameserver_init backing response_body =
     cbind (ht_init MAX_NAMES backing) (\<lambda>ht. Inr \<lparr> ns_ht = ht, ns_resp = response_body \<rparr>)"

text \<open>
  One request: \<open>who\<close> has sent it, \<open>uninit\<close> is what \<open>lookup_tid_void\<close> holds when the lookup fails. For any
  other type of request \<open>rt\<close> and \<open>body_len\<close> would be read uninitialised.
\<close>

definition nameserver_step ::
  "nameserver \<Rightarrow> int \<Rightarrow> nameserver_msg \<Rightarrow> 32 word \<Rightarrow> (nameserver_msg \<times> nameserver) cres" where
  "nameserver_step st who rq uninit =
     (if ns_type rq = REQUEST_REGISTER_AS then
        cbind (ht_insert (ns_ht st) (ns_body rq) (word_of_int who)) (\<lambda>(_, ht).
        cbind (nameserver_response_init RESPONSE_GOOD (ns_resp st) 0) (\<lambda>rs.
          Inr (rs, st\<lparr> ns_ht := ht \<rparr>)))
      else if ns_type rq = REQUEST_WHO_IS then
        cbind (ht_get (ns_ht st) (ns_body rq)) (\<lambda>(status, found).
          let lookup_tid = (case found of Some v \<Rightarrow> v | None \<Rightarrow> uninit);
              rt = (if status = 0 then RESPONSE_GOOD else RESPONSE_NAME_DNE)
          in cbind (memcpy (ns_resp st) (tid_bytes lookup_tid) 4) (\<lambda>body.
             cbind (nameserver_response_init rt body 4) (\<lambda>rs. Inr (rs, st\<lparr> ns_resp := body \<rparr>))))
      else Inl Undefined_Value)"

subsection \<open>The clients\<close>

definition WhoIs_request :: "char list \<Rightarrow> nameserver_msg cres" where
  "WhoIs_request name =
     cbind (strlen name) (\<lambda>n. nameserver_request_init REQUEST_WHO_IS name (n + 1))"

definition WhoIs_result :: "int \<Rightarrow> nameserver_msg \<Rightarrow> int cres" where
  "WhoIs_result status response =
     (if status = -1 then Inr (-1)
      else if ns_type response = RESPONSE_GOOD then get_tid_from_nameserver_response response
      else if ns_type response = RESPONSE_NAME_DNE then Inr (-2)
      else Inr (-3))"

definition RegisterAs_request :: "char list \<Rightarrow> nameserver_msg cres" where
  "RegisterAs_request name =
     cbind (strlen name) (\<lambda>n. nameserver_request_init REQUEST_REGISTER_AS name (n + 1))"

definition RegisterAs_result :: "int \<Rightarrow> nameserver_msg \<Rightarrow> int" where
  "RegisterAs_result status response = (if status = -1 then -1 else 0)"

text \<open>The whole exchange; \<open>Send\<close> returns the size of the response struct.\<close>

definition WhoIs :: "nameserver \<Rightarrow> int \<Rightarrow> char list \<Rightarrow> 32 word \<Rightarrow> (int \<times> nameserver) cres" where
  "WhoIs st me name uninit =
     cbind (WhoIs_request name) (\<lambda>rq. cbind (nameserver_step st me rq uninit) (\<lambda>(rs, st').
       cbind (WhoIs_result 136 rs) (\<lambda>r. Inr (r, st'))))"

definition RegisterAs :: "nameserver \<Rightarrow> int \<Rightarrow> char list \<Rightarrow> (int \<times> nameserver) cres" where
  "RegisterAs st me name =
     cbind (RegisterAs_request name) (\<lambda>rq. cbind (nameserver_step st me rq 0) (\<lambda>(rs, st').
       Inr (RegisterAs_result 136 rs, st')))"

text \<open>\<open>answers n\<close> is what the \<open>n\<close>-th call of \<open>WhoIs\<close> returns; the loop may run forever.\<close>

partial_function (option) WhoIsBlock :: "(nat \<Rightarrow> int) \<Rightarrow> nat \<Rightarrow> int option" where
  "WhoIsBlock answers n = (let i = answers n in if i < 0 then WhoIsBlock answers (n + 1) else Some i)"

subsection \<open>Bytes and bodies\<close>

lemma byte_mask: "w AND 0xFF = take_bit 8 (w :: 32 word)"
  by (simp add: take_bit_eq_mask mask_eq_exp_minus_1)

lemma of_char_byte: "(of_char (char_of (uint (w AND 0xFF :: 32 word))) :: 32 word) = w AND 0xFF"
proof -
  let ?u = "uint (w AND 0xFF)"
  have "(of_char (char_of ?u) :: 32 word) = of_int (of_char (char_of ?u))"
    by (rule of_int_of_char [symmetric])
  also have "(of_char (char_of ?u) :: int) = ?u mod 256"
    by (rule of_char_of)
  also have "?u mod 256 = ?u"
    unfolding byte_mask unsigned_take_bit_eq by (simp add: take_bit_eq_mod [of 8 "uint w"])
  finally show ?thesis by simp
qed

lemma byte_word:
  "push_bit 24 (drop_bit 24 w AND 0xFF) OR push_bit 16 (drop_bit 16 w AND 0xFF) OR
     push_bit 8 (drop_bit 8 w AND 0xFF) OR (w AND 0xFF) = (w :: 32 word)"
proof (rule bit_word_eqI)
  fix n :: nat
  have mask: "(0xFF :: 32 word) = mask 8" by (simp add: mask_eq_exp_minus_1)
  assume "n < LENGTH(32)"
  then have n: "n < 32" by simp
  consider "n < 8" | "8 \<le> n" "n < 16" | "16 \<le> n" "n < 24" | "24 \<le> n" by linarith
  then show "bit (push_bit 24 (drop_bit 24 w AND 0xFF) OR push_bit 16 (drop_bit 16 w AND 0xFF) OR
      push_bit 8 (drop_bit 8 w AND 0xFF) OR (w AND 0xFF)) n \<longleftrightarrow> bit w n"
    unfolding mask by cases (use n in \<open>auto simp: bit_simps\<close>)
qed

lemmas byte_word_normal = byte_word [simplified]

lemma tid_bytes_length [simp]: "length (tid_bytes w) = 4"
  by (simp add: tid_bytes_def)

subsection \<open>What the clients see\<close>

lemma response_init_ok:
  assumes "n < MAX_BODY_LENGTH" "n \<le> length body"
  shows "nameserver_msg_init type body n =
    Inr \<lparr> ns_type = type, ns_body = take n body @ replicate (MAX_BODY_LENGTH - n) NUL, ns_length = n \<rparr>"
  using assms by (simp add: nameserver_msg_init_def memset_ok memcpy_ok min_def)

text \<open>A name that fits is carried whole, with its end.\<close>

definition name_fits :: "char list \<Rightarrow> bool" where
  "name_fits name \<longleftrightarrow> terminated name \<and> length (cstr name) + 1 < MAX_BODY_LENGTH"

lemma take_cstr: "terminated name \<Longrightarrow> take (length (cstr name) + 1) name = lit (cstr name)"
  unfolding terminated_def cstr_def lit_def by (induction name) auto

lemma cstr_append: "terminated xs \<Longrightarrow> cstr (xs @ ys) = cstr xs"
  unfolding terminated_def cstr_def by (auto intro: takeWhile_append1)

lemma name_request:
  assumes "name_fits name"
  obtains rq where "nameserver_msg_init type name (length (cstr name) + 1) = Inr rq"
    "ns_type rq = type" "terminated (ns_body rq)" "cstr (ns_body rq) = cstr name"
proof -
  have n: "terminated name" "length (cstr name) + 1 < MAX_BODY_LENGTH"
    using assms by (simp_all add: name_fits_def)
  have le: "length (cstr name) + 1 \<le> length name" using cstr_length [OF n(1)] by simp
  let ?body = "lit (cstr name) @ replicate (MAX_BODY_LENGTH - (length (cstr name) + 1)) NUL"
  define rq where "rq = \<lparr> ns_type = type, ns_body = ?body, ns_length = length (cstr name) + 1 \<rparr>"
  show ?thesis
  proof (rule that)
    show "nameserver_msg_init type name (length (cstr name) + 1) = Inr rq"
      using response_init_ok [OF n(2) le, of type] unfolding take_cstr [OF n(1)] rq_def .
    show "ns_type rq = type" "terminated (ns_body rq)" "cstr (ns_body rq) = cstr name"
      by (simp_all add: rq_def cstr_append) (simp add: terminated_def lit_def)
  qed
qed

definition ns_ok :: "nameserver \<Rightarrow> bool" where
  "ns_ok st \<longleftrightarrow> ht_ok (ns_ht st) \<and> length (ns_resp st) = MAX_BODY_LENGTH"

lemma slot_cong: "cstr k = cstr k' \<Longrightarrow> slot ht k = slot ht k'"
  by (simp add: slot_def)

lemma find_cong:
  "ht_ok ht \<Longrightarrow> terminated k \<Longrightarrow> terminated k' \<Longrightarrow> cstr k = cstr k' \<Longrightarrow> ht_find ht k = ht_find ht k'"
  by (simp add: ht_find_def ht_get_ok slot_cong [of k k'])

lemma ht_get_find:
  "ht_ok ht \<Longrightarrow> terminated k \<Longrightarrow>
     ht_get ht k = Inr (if ht_find ht k = None then (E_KEY_MISSING, None) else (0, ht_find ht k))"
  by (simp add: ht_find_def ht_get_ok)

lemma put_cong:
  "ht_ok ht \<Longrightarrow> terminated k \<Longrightarrow> terminated k' \<Longrightarrow> cstr k = cstr k' \<Longrightarrow> ht_put ht k v = ht_put ht k' v"
  by (simp add: ht_put_def ht_insert_ok slot_cong [of k k'])

lemma RegisterAs_ok:
  assumes ok: "ns_ok st" and name: "name_fits name"
  shows "RegisterAs st me name = Inr (0, st\<lparr> ns_ht := ht_put (ns_ht st) name (word_of_int me) \<rparr>)"
proof -
  have t: "terminated name" using name by (simp add: name_fits_def)
  obtain rq where rq: "nameserver_msg_init REQUEST_REGISTER_AS name (length (cstr name) + 1) = Inr rq"
    "ns_type rq = REQUEST_REGISTER_AS" "terminated (ns_body rq)" "cstr (ns_body rq) = cstr name"
    by (rule name_request [OF name])
  have ht: "ht_ok (ns_ht st)" using ok by (simp add: ns_ok_def)
  have ins: "ht_insert (ns_ht st) (ns_body rq) (word_of_int me) =
      Inr (0, ht_put (ns_ht st) name (word_of_int me))"
    using ht_insert_ok [OF ht rq(3)] put_cong [OF ht rq(3) t rq(4)] by (simp add: ht_put_def)
  have "nameserver_msg_init RESPONSE_GOOD (ns_resp st) 0 =
      Inr \<lparr> ns_type = RESPONSE_GOOD, ns_body = replicate MAX_BODY_LENGTH NUL, ns_length = 0 \<rparr>"
    by (simp add: response_init_ok MAX_BODY_LENGTH_def)
  then show ?thesis
    using rq(1,2) ins t
    by (simp add: RegisterAs_def RegisterAs_request_def RegisterAs_result_def strlen_ok
        nameserver_request_init_def nameserver_response_init_def nameserver_step_def)
qed

lemma WhoIs_ok:
  assumes ok: "ns_ok st" and name: "name_fits name"
  shows "\<exists>st'. WhoIs st me name uninit =
      Inr (case ht_find (ns_ht st) name of None \<Rightarrow> -2 | Some v \<Rightarrow> sint v, st') \<and>
    ns_ok st' \<and> ns_ht st' = ns_ht st"
proof -
  have t: "terminated name" using name by (simp add: name_fits_def)
  obtain rq where rq: "nameserver_msg_init REQUEST_WHO_IS name (length (cstr name) + 1) = Inr rq"
    "ns_type rq = REQUEST_WHO_IS" "terminated (ns_body rq)" "cstr (ns_body rq) = cstr name"
    by (rule name_request [OF name])
  have ht: "ht_ok (ns_ht st)" and resp: "length (ns_resp st) = MAX_BODY_LENGTH"
    using ok by (simp_all add: ns_ok_def)
  let ?find = "ht_find (ns_ht st) name"
  have get: "ht_get (ns_ht st) (ns_body rq) = Inr (if ?find = None then (E_KEY_MISSING, None) else (0, ?find))"
    using ht_get_find [OF ht rq(3)] unfolding find_cong [OF ht rq(3) t rq(4)] .
  define v where "v = (case ?find of Some v \<Rightarrow> v | None \<Rightarrow> uninit)"
  define rt where "rt = (if ?find = None then RESPONSE_NAME_DNE else RESPONSE_GOOD)"
  define body where "body = tid_bytes v @ drop 4 (ns_resp st)"
  define rs where "rs = \<lparr> ns_type = rt, ns_body = tid_bytes v @ replicate (MAX_BODY_LENGTH - 4) NUL, ns_length = 4 \<rparr>"
  have copy: "memcpy (ns_resp st) (tid_bytes v) 4 = Inr body"
    using resp by (simp add: memcpy_ok body_def MAX_BODY_LENGTH_def)
  have init: "nameserver_msg_init rt body 4 = Inr rs"
    by (simp add: response_init_ok body_def rs_def MAX_BODY_LENGTH_def)
  have step: "nameserver_step st me rq uninit = Inr (rs, st\<lparr> ns_resp := body \<rparr>)"
    using rq(2) get copy init
    by (cases ?find) (simp_all add: nameserver_step_def nameserver_response_init_def v_def rt_def ns_defs
        Let_def E_KEY_MISSING_def)
  have decode: "get_tid_from_nameserver_response rs = Inr (sint v)"
    by (simp add: get_tid_from_nameserver_response_def rs_def tid_bytes_def of_char_byte byte_word_normal)
  have "WhoIs_result 136 rs = Inr (case ?find of None \<Rightarrow> -2 | Some v \<Rightarrow> sint v)"
    using decode by (cases ?find) (simp_all add: WhoIs_result_def rs_def rt_def v_def ns_defs)
  then have "WhoIs st me name uninit =
      Inr (case ?find of None \<Rightarrow> -2 | Some v \<Rightarrow> sint v, st\<lparr> ns_resp := body \<rparr>)"
    using rq(1) step t
    by (simp add: WhoIs_def WhoIs_request_def nameserver_request_init_def strlen_ok)
  moreover have "ns_ok (st\<lparr> ns_resp := body \<rparr>)"
    using ht resp by (simp add: ns_ok_def body_def MAX_BODY_LENGTH_def)
  ultimately show ?thesis by auto
qed

text \<open>Registrations one after the other.\<close>

definition register_all :: "nameserver \<Rightarrow> (char list \<times> int) list \<Rightarrow> nameserver cres" where
  "register_all = cfold (\<lambda>st (name, me). cbind (RegisterAs st me name) (\<lambda>(_, st'). Inr st'))"

lemma register_all_ok:
  assumes "ns_ok st" "list_all (\<lambda>(name, me). name_fits name) regs"
  shows "\<exists>st'. register_all st regs = Inr st' \<and> ns_ok st' \<and>
    ns_ht st' = foldl (\<lambda>ht (k, v). ht_put ht k v) (ns_ht st) (map (\<lambda>(n, me). (n, word_of_int me)) regs)"
  using assms
proof (induction regs arbitrary: st)
  case (Cons reg regs)
  obtain name me where reg: "reg = (name, me)" by (cases reg)
  let ?st = "st\<lparr> ns_ht := ht_put (ns_ht st) name (word_of_int me) \<rparr>"
  have name: "name_fits name" using Cons.prems(2) reg by simp
  have "ns_ok ?st"
    using Cons.prems(1) name by (simp add: ns_ok_def name_fits_def)
  then show ?case
    using Cons.IH [of ?st] Cons.prems(2) RegisterAs_ok [OF Cons.prems(1) name] reg
    by (simp add: register_all_def)
qed (simp add: register_all_def)

text \<open>
  C17: After a fresh name server has served any registrations of names that fit a request, \<open>WhoIs\<close> gives
  the tid registered last under a name with the same hash value modulo 1000, byte for byte as it was sent,
  and -2 when there is none. Neither side meets a fault.
\<close>

theorem registered_names_are_found:
  assumes "length backing = MAX_NAMES" "length body = MAX_BODY_LENGTH"
    and "list_all (\<lambda>(name, tid). name_fits name \<and> 0 < tid \<and> tid < 2 ^ 31) regs" "name_fits name"
  shows "\<exists>st st' st''. nameserver_init backing body = Inr st \<and> register_all st regs = Inr st' \<and>
    WhoIs st' me name uninit =
      Inr (case filter (\<lambda>(n, tid). slot (ns_ht st) n = slot (ns_ht st) name) regs of
             [] \<Rightarrow> -2 | hits \<Rightarrow> snd (last hits), st'')"
proof -
  have t: "terminated name" using assms(4) by (simp add: name_fits_def)
  obtain ht where ht: "ht_init MAX_NAMES backing = Inr ht" "ht_ok ht"
    "\<And>key. terminated key \<Longrightarrow> ht_find ht key = None"
    by (rule ht_init_ok [of MAX_NAMES backing]) (use assms(1) in \<open>auto simp: MAX_NAMES_def intro: that\<close>)
  let ?st = "\<lparr> ns_ht = ht, ns_resp = body \<rparr>"
  have init: "nameserver_init backing body = Inr ?st" using ht(1) by (simp add: nameserver_init_def)
  have ok: "ns_ok ?st" using ht(2) assms(2) by (simp add: ns_ok_def)
  let ?ops = "map (\<lambda>(n, me). (n, word_of_int me :: 32 word)) regs"
  obtain st' where st': "register_all ?st regs = Inr st'" "ns_ok st'"
    "ns_ht st' = foldl (\<lambda>ht (k, v). ht_put ht k v) ht ?ops"
    using register_all_ok [OF ok, of regs] assms(3) by (auto simp: list_all_iff)
  have valid: "list_all (\<lambda>(k, v). terminated k) ?ops"
    using assms(3) by (auto simp: list_all_iff name_fits_def)
  let ?p = "\<lambda>(n, tid). slot ht n = slot ht name"
  have hits: "filter (\<lambda>(k, v). slot ht k = slot ht name) ?ops = map (\<lambda>(n, me). (n, word_of_int me)) (filter ?p regs)"
    by (simp add: filter_map o_def case_prod_unfold)
  have find: "(case ht_find (ns_ht st') name of None \<Rightarrow> -2 | Some v \<Rightarrow> sint v) =
      (case filter ?p regs of [] \<Rightarrow> -2 | hits \<Rightarrow> snd (last hits))"
  proof (cases "filter ?p regs = []")
    case True
    then show ?thesis
      using names.find_puts [OF ht(2) valid t] ht(3) [OF t] by (simp add: st'(3) hits)
  next
    case False
    obtain n tid where last: "last (filter ?p regs) = (n, tid)" by fastforce
    have "(n, tid) \<in> set regs" using last_in_set [OF False] last by auto
    then have tid: "0 < tid" "tid < 2 ^ 31" using assms(3) by (auto simp: list_all_iff)
    have s: "sint (word_of_int tid :: 32 word) = tid"
      using tid by (simp add: sint_sbintrunc' signed_take_bit_int_eq_self)
    then have "(word_of_int tid :: 32 word) \<noteq> 0" using tid(1) by (metis less_irrefl sint_0)
    then have "ht_find (ns_ht st') name = Some (word_of_int tid)"
      using names.find_puts [OF ht(2) valid t] False last
      by (simp add: st'(3) hits last_map)
    then show ?thesis using False last s by (cases "filter ?p regs") auto
  qed
  obtain st'' where "WhoIs st' me name uninit =
      Inr (case ht_find (ns_ht st') name of None \<Rightarrow> -2 | Some v \<Rightarrow> sint v, st'')"
    using WhoIs_ok [OF st'(2) assms(4)] by blast
  then show ?thesis using init st'(1) find by auto
qed

theorem registered_names_are_found_witness:
  "\<exists>st st' st''. nameserver_init (replicate MAX_NAMES 9) (replicate MAX_BODY_LENGTH (CHR ''x'')) = Inr st \<and>
     register_all st [(lit ''clockserver'', 5), (lit ''track'', 7)] = Inr st' \<and>
     WhoIs st' 3 (lit ''clockserver'') 77 = Inr (5, st'')"
proof -
  have fits: "name_fits (lit ''clockserver'')" "name_fits (lit ''track'')"
    by (simp_all add: name_fits_def MAX_BODY_LENGTH_def)
  obtain st st' st'' where st: "nameserver_init (replicate MAX_NAMES 9) (replicate MAX_BODY_LENGTH (CHR ''x'')) = Inr st"
    "register_all st [(lit ''clockserver'', 5), (lit ''track'', 7)] = Inr st'"
    "WhoIs st' 3 (lit ''clockserver'') 77 =
      Inr (case filter (\<lambda>(n, tid). slot (ns_ht st) n = slot (ns_ht st) (lit ''clockserver''))
             [(lit ''clockserver'', 5), (lit ''track'', 7)] of [] \<Rightarrow> -2 | hits \<Rightarrow> snd (last hits), st'')"
    using registered_names_are_found [of "replicate MAX_NAMES 9" "replicate MAX_BODY_LENGTH (CHR ''x'')"
        "[(lit ''clockserver'', 5), (lit ''track'', 7)]" "lit ''clockserver''" 3 77] fits
    by auto
  have "ht_capacity (ns_ht st) = 1000"
    using st(1) by (auto simp: nameserver_init_def ht_init_def MAX_NAMES_def c_simps)
  then have "slot (ns_ht st) (lit ''clockserver'') \<noteq> slot (ns_ht st) (lit ''track'')"
    by (simp add: slot_def hash_of_def)
  then show ?thesis using st by auto
qed

lemma WhoIsBlock_skip:
  "(\<And>i. n \<le> i \<Longrightarrow> i < m \<Longrightarrow> answers i < 0) \<Longrightarrow> n \<le> m \<Longrightarrow> WhoIsBlock answers n = WhoIsBlock answers m"
proof (induction "m - n" arbitrary: n)
  case (Suc d)
  then have "WhoIsBlock answers n = WhoIsBlock answers (n + 1)"
    by (subst WhoIsBlock.simps) (simp add: Let_def)
  also have "\<dots> = WhoIsBlock answers m" using Suc by (intro Suc.hyps(1)) auto
  finally show ?case .
qed simp

lemma WhoIsBlock_returns:
  assumes "WhoIsBlock answers n = Some v"
  shows "\<exists>m. 0 \<le> answers m"
  using assms
proof (induction rule: WhoIsBlock.raw_induct [rotated, consumes 1, case_names step])
  case (step rec answers n v)
  then show ?case by (cases "answers n < 0") (auto simp: Let_def not_less)
qed

text \<open>
  C18: \<open>WhoIsBlock\<close> returns exactly when some call of \<open>WhoIs\<close> gives a tid, that is, when the server is up
  and the name has been registered, and then it returns the first tid given.
\<close>

theorem WhoIsBlock_terminates:
  "(WhoIsBlock answers 0 \<noteq> None) = (\<exists>n. 0 \<le> answers n) \<and>
     (0 \<le> answers n \<longrightarrow> (\<exists>m. m \<le> n \<and> WhoIsBlock answers 0 = Some (answers m) \<and> 0 \<le> answers m \<and>
        (\<forall>i < m. answers i < 0)))"
proof -
  have first: "\<exists>m. m \<le> n \<and> WhoIsBlock answers 0 = Some (answers m) \<and> 0 \<le> answers m \<and> (\<forall>i < m. answers i < 0)"
    if n: "0 \<le> answers n" for n
  proof -
    define m where "m = (LEAST i. 0 \<le> answers i)"
    have m: "0 \<le> answers m" "m \<le> n" unfolding m_def using n by (auto intro: LeastI Least_le)
    have below: "\<forall>i < m. answers i < 0" unfolding m_def using not_less_Least linorder_not_le by blast
    have "WhoIsBlock answers 0 = WhoIsBlock answers m" using below by (intro WhoIsBlock_skip) auto
    also have "\<dots> = Some (answers m)" using m(1) by (subst WhoIsBlock.simps) (simp add: Let_def)
    finally show ?thesis using m below by blast
  qed
  then show ?thesis using WhoIsBlock_returns by fastforce
qed

theorem WhoIsBlock_terminates_witness:
  "\<exists>m \<le> 3. WhoIsBlock (\<lambda>n. int n - 2) 0 = Some (int m - 2) \<and> 0 \<le> int m - 2"
  using WhoIsBlock_terminates [of "\<lambda>n. int n - 2" 3] by auto

end
