(* ===== verification/Syscall_Stubs.thy ===== *)
theory Syscall_Stubs
  imports Nameserver Kernel
begin

section \<open>The system call stubs (src/kernel/syscall.c)\<close>

text \<open>
  Each stub fills a struct of arguments on the caller's stack, at \<open>a\<close>, and executes \<open>swi\<close> with its address
  in \<open>r0\<close>. A stub is the memory it leaves, the number in the \<open>swi\<close> instruction and \<open>r0\<close>; what the kernel
  writes to \<open>r0\<close> is the result. The lemmas show that the kernel reads back what the stub wrote.
\<close>

type_synonym trap_request = "memory \<times> 32 word \<times> 32 word"

fun st_chars :: "memory \<Rightarrow> addr \<Rightarrow> char list \<Rightarrow> memory" where
  "st_chars m a [] = m"
| "st_chars m a (c # cs) = st_chars (m(a := of_char c)) (a + 1) cs"

text \<open>The array \<open>a.name\<close> holds what was on the stack before \<open>strncpy\<close> fills it.\<close>

definition Create_stub :: "memory \<Rightarrow> addr \<Rightarrow> int \<Rightarrow> char list \<Rightarrow> addr \<Rightarrow> trap_request cres" where
  "Create_stub m a priority name function =
     cbind (strncpy (ld_chars m (a + 4) MAX_TASK_NAME_LEN) name MAX_TASK_NAME_LEN) (\<lambda>nm.
       Inr (st32 (st32 (st_chars m (a + 4) nm) a (word_of_int priority)) (a + 36) function,
            SYSCALL_CREATE, a))"

definition MyTid_stub :: "memory \<Rightarrow> 32 word \<Rightarrow> trap_request" where
  "MyTid_stub m r = (m, SYSCALL_MYTID, r)"

definition MyParentTid_stub :: "memory \<Rightarrow> 32 word \<Rightarrow> trap_request" where
  "MyParentTid_stub m r = (m, SYSCALL_MYPARENTTID, r)"

definition Yield_stub :: "memory \<Rightarrow> 32 word \<Rightarrow> trap_request" where
  "Yield_stub m r = (m, SYSCALL_YIELD, r)"

definition Exit_stub :: "memory \<Rightarrow> 32 word \<Rightarrow> trap_request" where
  "Exit_stub m r = (m, SYSCALL_EXIT, r)"

definition Shutdown_stub :: "memory \<Rightarrow> 32 word \<Rightarrow> trap_request" where
  "Shutdown_stub m r = (m, SYSCALL_SHUTDOWN, r)"

definition Send_stub :: "memory \<Rightarrow> addr \<Rightarrow> int \<Rightarrow> addr \<Rightarrow> int \<Rightarrow> addr \<Rightarrow> int \<Rightarrow> trap_request" where
  "Send_stub m a tid msg msglen reply rplen =
     (st32 (st32 (st32 (st32 (st32 m a (word_of_int tid)) (a + 4) msg) (a + 8) (word_of_int msglen))
        (a + 12) reply) (a + 16) (word_of_int rplen), SYSCALL_SEND, a)"

definition Receive_stub :: "memory \<Rightarrow> addr \<Rightarrow> addr \<Rightarrow> addr \<Rightarrow> int \<Rightarrow> trap_request" where
  "Receive_stub m a tid msg msglen =
     (st32 (st32 (st32 m a tid) (a + 4) msg) (a + 8) (word_of_int msglen), SYSCALL_RECEIVE, a)"

definition Reply_stub :: "memory \<Rightarrow> addr \<Rightarrow> int \<Rightarrow> addr \<Rightarrow> int \<Rightarrow> trap_request" where
  "Reply_stub m a tid reply rplen =
     (st32 (st32 (st32 m a (word_of_int tid)) (a + 4) reply) (a + 8) (word_of_int rplen), SYSCALL_REPLY, a)"

definition AwaitEvent_stub :: "memory \<Rightarrow> int \<Rightarrow> trap_request" where
  "AwaitEvent_stub m eventid = (m, SYSCALL_AWAITEVENT, word_of_int eventid)"

subsection \<open>Reading the fields back\<close>

lemma area_offsets:
  assumes "i + n \<le> j" "j + l \<le> 2 ^ 32"
  shows "area (a + of_nat i) n \<inter> area (a + of_nat j) l = {}"
proof -
  have "a + of_nat i + of_nat p \<noteq> a + of_nat j + of_nat q" if "p < n" "q < l" for p q
  proof
    assume "a + of_nat i + of_nat p = a + of_nat j + of_nat q"
    then have "(of_nat (i + p) :: 32 word) = of_nat (j + q)" by (simp add: add.assoc)
    moreover have "i + p < 2 ^ 32" "j + q < 2 ^ 32" "i + p < j + q" using assms that by linarith+
    ultimately show False by (simp add: word_of_nat_eq_iff take_bit_nat_eq_self del: of_nat_add)
  qed
  then show ?thesis by (auto simp: area_def)
qed

text \<open>A word stored at another offset of the same struct leaves this one alone.\<close>

lemma ld32_field:
  assumes "i + 4 \<le> j \<or> j + 4 \<le> i" "i < 256" "j < 256"
  shows "ld32 (st32 m (a + of_nat j) v) (a + of_nat i) = ld32 m (a + of_nat i)"
  using area_offsets [of i 4 j 4 a] area_offsets [of j 4 i 4 a] assms
  by (intro ld32_st32_other) auto

lemmas ld32_fields [simp] =
  ld32_field [of 0 4, simplified] ld32_field [of 0 8, simplified] ld32_field [of 0 12, simplified]
  ld32_field [of 0 16, simplified] ld32_field [of 0 36, simplified]
  ld32_field [of 4 0, simplified] ld32_field [of 4 8, simplified] ld32_field [of 4 12, simplified]
  ld32_field [of 4 16, simplified] ld32_field [of 8 0, simplified] ld32_field [of 8 4, simplified]
  ld32_field [of 8 12, simplified] ld32_field [of 8 16, simplified] ld32_field [of 12 16, simplified]
  ld32_field [of 36 0, simplified]

lemma sint_word_of_int: "- (2 ^ 31) \<le> i \<Longrightarrow> i < 2 ^ 31 \<Longrightarrow> sint (word_of_int i :: 32 word) = i"
  by (simp add: sint_sbintrunc' signed_take_bit_int_eq_self)

lemma area_Suc: "area a (Suc n) = insert a (area (a + 1) n)"
proof -
  have "{..<Suc n} = insert 0 (Suc ` {..<n})" by (auto simp: less_Suc_eq_0_disj)
  moreover have "(\<lambda>i. a + of_nat i) ` Suc ` {..<n} = (\<lambda>i. a + 1 + of_nat i) ` {..<n}"
    by (simp add: image_image add.assoc)
  ultimately show ?thesis by (simp add: area_def)
qed

lemma area_1: "n < 2 ^ 32 \<Longrightarrow> a \<notin> area (a + 1) n"
  using area_offsets [of 0 1 1 n a] areaI [of 0 1 a] by auto

lemma st_chars_other: "x \<notin> area a (length cs) \<Longrightarrow> st_chars m a cs x = m x"
proof (induction cs arbitrary: m a)
  case (Cons c cs)
  then show ?case using Cons.IH [of "a + 1" "m(a := of_char c)"] by (simp add: area_Suc)
qed simp

lemma st_chars_nth:
  "length cs \<le> 2 ^ 32 \<Longrightarrow> i < length cs \<Longrightarrow> st_chars m a cs (a + of_nat i) = of_char (cs ! i)"
proof (induction cs arbitrary: m a i)
  case (Cons c cs)
  show ?case
  proof (cases i)
    case 0
    have "st_chars (m(a := of_char c)) (a + 1) cs a = of_char c"
      using st_chars_other [of a "a + 1" cs] area_1 [of "length cs" a] Cons.prems(1) by simp
    then show ?thesis using 0 by simp
  next
    case (Suc j)
    then have "st_chars (m(a := of_char c)) (a + 1) cs (a + 1 + of_nat j) = of_char (cs ! j)"
      using Cons.prems by (intro Cons.IH) auto
    moreover have "a + 1 + of_nat j = a + of_nat i" using Suc by (simp add: add.assoc)
    ultimately show ?thesis using Suc by (simp only: st_chars.simps nth_Cons_Suc)
  qed
qed simp

lemma char_of_byte: "char_of (uint (of_char c :: 8 word)) = c"
proof -
  have "uint (of_char c :: 8 word) = uint (of_int (of_char c) :: 8 word)" by (simp only: of_int_of_char)
  also have "\<dots> = of_char c mod 256" by (simp add: uint_word_of_int)
  finally show ?thesis by simp
qed

lemma ld_chars_st_chars:
  "length cs \<le> 2 ^ 32 \<Longrightarrow> ld_chars (st_chars m a cs) a (length cs) = cs"
  by (rule nth_equalityI) (simp_all add: ld_chars_def st_chars_nth char_of_byte)

lemma ld_chars_cong: "(\<And>x. x \<in> area a n \<Longrightarrow> m' x = m x) \<Longrightarrow> ld_chars m' a n = ld_chars m a n"
  by (simp add: ld_chars_def areaI)

lemma ld_chars_field:
  assumes "i + 4 \<le> j \<or> j + n \<le> i" "i < 256" "j < 256" "n < 256"
  shows "ld_chars (st32 m (a + of_nat i) v) (a + of_nat j) n = ld_chars m (a + of_nat j) n"
  using area_offsets [of i 4 j n a] area_offsets [of j n i 4 a] assms
  by (intro ld_chars_cong st32_other) auto



end
