(* ===== verification/Train_Model.thy ===== *)
theory Train_Model
  imports Prelude
begin

section \<open>Trains and their motion (src/user/virtual.c, magic_numbers.c, neutron.c)\<close>

text \<open>
  Virtual train numbers index the table of supported trains. A \<open>neutron\<close> is a short drive: accelerate
  for \<open>time_a\<close>, run steadily for \<open>time_b\<close>, and brake for \<open>time_c\<close>; distances are in micrometres, times in
  ticks, all in 32-bit arithmetic that wraps around.
\<close>

unbundle bit_operations_syntax

subsection \<open>Train numbers\<close>

definition MAX_NUM_TRAINS :: nat where "MAX_NUM_TRAINS = 6"

definition supported_trains :: "int list" where
  "supported_trains = [1, 24, 58, 74, 78, 79]"

definition v_p_train_num :: "int \<Rightarrow> int cres" where
  "v_p_train_num num = rdi supported_trains num"

fun p_v_loop :: "int \<Rightarrow> nat \<Rightarrow> nat \<Rightarrow> int" where
  "p_v_loop num i 0 = -1"
| "p_v_loop num i (Suc left) = (if supported_trains ! i = num then int i else p_v_loop num (i + 1) left)"

definition p_v_train_num :: "int \<Rightarrow> int" where
  "p_v_train_num num = p_v_loop num 0 MAX_NUM_TRAINS"

text \<open>
  Virtual and physical train numbers translate back and forth: every virtual number of the table has a
  physical one that leads back to it, every physical number that is found leads back to itself, and
  -1 is returned exactly for the trains that are not supported. A virtual number outside
  the table is an access outside the array.
\<close>

theorem train_numbers_roundtrip:
  "(\<forall>v. 0 \<le> v \<and> v < int MAX_NUM_TRAINS \<longrightarrow> (\<exists>p. v_p_train_num v = Inr p \<and> p_v_train_num p = v)) \<and>
   (\<forall>p. p_v_train_num p \<noteq> -1 \<longrightarrow> v_p_train_num (p_v_train_num p) = Inr p) \<and>
   (\<forall>p. p_v_train_num p = -1 \<longleftrightarrow> p \<notin> set supported_trains) \<and>
   (\<forall>v. (v < 0 \<or> int MAX_NUM_TRAINS \<le> v) \<longrightarrow> v_p_train_num v = Inl Out_Of_Bounds)"
proof -
  have p_v: "p_v_train_num p = (if p = 1 then 0 else if p = 24 then 1 else if p = 58 then 2
      else if p = 74 then 3 else if p = 78 then 4 else if p = 79 then 5 else -1)" for p
    by (simp add: p_v_train_num_def MAX_NUM_TRAINS_def supported_trains_def eval_nat_numeral)
  have "v = 0 \<or> v = 1 \<or> v = 2 \<or> v = 3 \<or> v = 4 \<or> v = 5" if "0 \<le> v" "v < 6" for v :: int
    using that by presburger
  then have "\<exists>p. v_p_train_num v = Inr p \<and> p_v_train_num p = v" if "0 \<le> v \<and> v < int MAX_NUM_TRAINS" for v
    using that by (fastforce simp: p_v v_p_train_num_def supported_trains_def MAX_NUM_TRAINS_def rdi_def rd_def)
  moreover have "v_p_train_num (p_v_train_num p) = Inr p" if "p_v_train_num p \<noteq> -1" for p
    using that by (auto simp: p_v v_p_train_num_def supported_trains_def rdi_def rd_def split: if_splits)
  moreover have "p_v_train_num p = -1 \<longleftrightarrow> p \<notin> set supported_trains" for p
    by (auto simp: p_v supported_trains_def)
  moreover have "v_p_train_num v = Inl Out_Of_Bounds" if "v < 0 \<or> int MAX_NUM_TRAINS \<le> v" for v
    using that by (auto simp: v_p_train_num_def supported_trains_def rdi_def rd_def MAX_NUM_TRAINS_def)
  ultimately show ?thesis by blast
qed

theorem train_numbers_roundtrip_witness:
  "v_p_train_num 2 = Inr 58 \<and> v_p_train_num (p_v_train_num 58) = Inr 58 \<and> v_p_train_num 6 = Inl Out_Of_Bounds"
proof -
  have "v_p_train_num 2 = Inr 58" by (simp add: v_p_train_num_def supported_trains_def rdi_def rd_def)
  moreover have "p_v_train_num 58 \<noteq> -1"
    by (simp add: p_v_train_num_def MAX_NUM_TRAINS_def supported_trains_def eval_nat_numeral)
  moreover have "int MAX_NUM_TRAINS \<le> 6" by (simp add: MAX_NUM_TRAINS_def)
  ultimately show ?thesis using train_numbers_roundtrip by blast
qed

subsection \<open>Stopping distances\<close>

definition LOOP :: "int list" where
  "LOOP = [57, 95, 96, 52, 69, 98, 51, 21, 105, 43, 107, 3, 31, 108, 36, 90, 46, 59, 93, 74]"

definition LOOP_LEN :: int where "LOOP_LEN = 20"

definition get_stopping :: "char \<Rightarrow> int \<Rightarrow> int \<Rightarrow> int cres" where
  "get_stopping which_track train speed =
     (if which_track = CHR ''a'' \<and> train = 0 \<and> speed = 10 then Inr 435000
      else if which_track = CHR ''a'' \<and> train = 0 \<and> speed = 12 then Inr 773000
      else if which_track = CHR ''a'' \<and> train = 1 \<and> speed = 10 then Inr 448000
      else if which_track = CHR ''b'' \<and> train = 0 \<and> speed = 10 then Inr 405000
      else if which_track = CHR ''b'' \<and> train = 1 \<and> speed = 10 then Inr 448000
      else Inl (Assert_Failed ''Can't stop this train''))"

subsection \<open>Square roots\<close>

lemma unat_shift:
  "unat (drop_bit 2 w) = unat (w :: 32 word) div 4" "unat (drop_bit 1 w) = unat (w :: 32 word) div 2"
  unfolding unat_drop_bit_eq by (simp_all add: drop_bit_eq_div)

text \<open>\<open>one\<close> is the highest power of four not above \<open>op\<close>, or 0.\<close>

function start_bit :: "32 word \<Rightarrow> 32 word \<Rightarrow> 32 word" where
  "start_bit op one = (if one > op then start_bit op (drop_bit 2 one) else one)"
  by pat_completeness auto
termination
proof (relation "measure (\<lambda>(op, one). unat one)")
  fix op one :: "32 word"
  assume "one > op"
  then have "0 < unat one" by (simp add: word_less_nat_alt)
  then show "((op, drop_bit 2 one), op, one) \<in> measure (\<lambda>(op, one). unat one)"
    by (simp add: unat_shift)
qed simp

function sqrt_loop :: "32 word \<Rightarrow> 32 word \<Rightarrow> 32 word \<Rightarrow> 32 word" where
  "sqrt_loop op res one =
     (if one = 0 then res
      else if op \<ge> res + one
      then sqrt_loop (op - (res + one)) (drop_bit 1 (res + 2 * one)) (drop_bit 2 one)
      else sqrt_loop op (drop_bit 1 res) (drop_bit 2 one))"
  by pat_completeness auto
termination
proof (relation "measure (\<lambda>(op, res, one). unat one)")
  fix op res one :: "32 word"
  assume "one \<noteq> 0"
  then have "0 < unat one" by (simp add: unat_gt_0)
  then have less: "unat (drop_bit 2 one) < unat one" by (simp add: unat_shift)
  then show "((op - (res + one), drop_bit 1 (res + 2 * one), drop_bit 2 one), op, res, one)
      \<in> measure (\<lambda>(op, res, one). unat one)"
    "((op, drop_bit 1 res, drop_bit 2 one), op, res, one) \<in> measure (\<lambda>(op, res, one). unat one)"
    by simp_all
qed simp

definition SquareRoot :: "32 word \<Rightarrow> 32 word" where
  "SquareRoot n = sqrt_loop n 0 (start_bit n (2 ^ 30))"

declare start_bit.simps [simp del] sqrt_loop.simps [simp del]

lemma start_bit_ok:
  "j \<le> 15 \<Longrightarrow> unat one = 4 ^ j \<Longrightarrow> unat n < 4 ^ Suc j \<Longrightarrow>
     (\<exists>k \<le> 16. unat (start_bit n one) = (if k = 0 then 0 else 4 ^ (k - 1)) \<and> unat n < 4 ^ k)"
proof (induction j arbitrary: one)
  case 0
  then show ?case
  proof (cases "one > n")
    case True
    then have n: "n = 0" using 0 by (simp add: word_less_nat_alt unat_eq_0)
    have "start_bit n one = start_bit n (drop_bit 2 one)" using True by (simp add: start_bit.simps)
    also have "unat (drop_bit 2 one) = 0" using 0 by (simp add: unat_shift)
    then have "drop_bit 2 one = 0" by (simp add: unat_eq_0)
    finally have "start_bit n one = 0" by (simp add: start_bit.simps)
    then show ?thesis using n by (intro exI [of _ 0]) simp
  next
    case False
    then have "start_bit n one = one" by (simp add: start_bit.simps)
    then show ?thesis using 0 by (intro exI [of _ 1]) simp
  qed
next
  case (Suc j)
  show ?case
  proof (cases "one > n")
    case True
    then have n: "unat n < 4 ^ Suc j" using Suc.prems(2) by (simp add: word_less_nat_alt)
    have one: "unat (drop_bit 2 one) = 4 ^ j" using Suc.prems(2) by (simp add: unat_shift)
    have "start_bit n one = start_bit n (drop_bit 2 one)" using True by (simp add: start_bit.simps)
    then show ?thesis using Suc.IH [OF _ one n] Suc.prems(1) by simp
  next
    case False
    then have "start_bit n one = one" by (simp add: start_bit.simps)
    then show ?thesis using Suc.prems by (intro exI [of _ "Suc (Suc j)"]) simp
  qed
qed

text \<open>\<open>r\<close> is the root found so far, a multiple of the next bit \<open>2 ^ k\<close> times two.\<close>

lemma sqrt_step:
  fixes r j n :: nat
  assumes "j < 16" "r ^ 2 \<le> n" "n < 2 ^ 32" "2 ^ Suc j dvd r"
  shows "r * 2 ^ Suc j + 2 * 4 ^ j < 2 ^ 32"
proof -
  have r: "r < 2 ^ 16"
  proof (rule ccontr)
    assume "\<not> r < 2 ^ 16"
    then have "(2 ^ 16) ^ 2 \<le> r ^ 2" by (intro power_mono) auto
    then show False using assms(2,3) by simp
  qed
  show ?thesis
  proof (cases "j = 15")
    case True
    then have "2 ^ 16 dvd r" using assms(4) by simp
    then have "r = 0" using r by (auto dest: dvd_imp_le)
    then show ?thesis using True by simp
  next
    case False
    then have j: "j \<le> 14" using assms(1) by simp
    have "2 ^ Suc j \<le> (2 ^ 15 :: nat)" "4 ^ j \<le> (4 ^ 14 :: nat)"
      by (rule power_increasing; use j in simp)+
    moreover have "r * 2 ^ Suc j \<le> (2 ^ 16 - 1) * 2 ^ 15"
      by (rule mult_le_mono) (use r calculation(1) in simp_all)
    ultimately show ?thesis by simp
  qed
qed

lemma sqrt_loop_ok:
  assumes "k \<le> 16" "unat one = (if k = 0 then 0 else 4 ^ (k - 1))" "unat res = r * 2 ^ k"
    and "unat op = n - r ^ 2" "r ^ 2 \<le> n" "n < (r + 2 ^ k) ^ 2" "n < 2 ^ 32" "2 ^ k dvd r"
  shows "(unat (sqrt_loop op res one)) ^ 2 \<le> n \<and> n < (unat (sqrt_loop op res one) + 1) ^ 2"
  using assms
proof (induction k arbitrary: op res one r)
  case 0
  then have "one = 0" by (simp add: unat_eq_0)
  then show ?case using 0 by (simp add: sqrt_loop.simps)
next
  case (Suc j)
  let ?b = "2 ^ j :: nat"
  have one: "unat one = 4 ^ j" using Suc.prems(2) by simp
  have bb: "4 ^ j = ?b * ?b" by (simp flip: power_mult_distrib)
  have nz: "one \<noteq> 0" using one by auto
  have small: "r * 2 ^ Suc j + 2 * 4 ^ j < 2 ^ 32"
    using sqrt_step [of j r n] Suc.prems(1,5,7,8) by simp
  then have sum: "unat (res + one) = r * 2 ^ Suc j + 4 ^ j"
    using Suc.prems(3) one by (simp add: unat_word_ariths)
  have sum2: "unat (res + 2 * one) = r * 2 ^ Suc j + 2 * 4 ^ j"
    using small Suc.prems(3) one by (simp add: unat_word_ariths)
  have next_one: "unat (drop_bit 2 one) = (if j = 0 then 0 else 4 ^ (j - 1))"
    using one by (cases j) (simp_all add: unat_shift)
  have square: "(r + ?b) ^ 2 = r ^ 2 + (r * 2 ^ Suc j + 4 ^ j)"
    by (simp add: power2_eq_square bb algebra_simps)
  have dvd: "?b dvd r" using Suc.prems(8) by (metis dvd_mult_left power_Suc2)
  show ?case
  proof (cases "op \<ge> res + one")
    case True
    then have ge: "r * 2 ^ Suc j + 4 ^ j \<le> n - r ^ 2"
      using Suc.prems(4) sum by (simp add: word_le_nat_alt)
    have step: "sqrt_loop op res one =
        sqrt_loop (op - (res + one)) (drop_bit 1 (res + 2 * one)) (drop_bit 2 one)"
      using nz True by (subst sqrt_loop.simps) simp
    have "unat (op - (res + one)) = n - r ^ 2 - (r * 2 ^ Suc j + 4 ^ j)"
      using True sum Suc.prems(4) by (simp add: unat_sub)
    then have op: "unat (op - (res + one)) = n - (r + ?b) ^ 2" unfolding square by simp
    have res: "unat (drop_bit 1 (res + 2 * one)) = (r + ?b) * 2 ^ j"
      unfolding unat_shift sum2 by (simp add: bb algebra_simps)
    have "(unat (sqrt_loop (op - (res + one)) (drop_bit 1 (res + 2 * one)) (drop_bit 2 one)))\<^sup>2 \<le> n \<and>
        n < (unat (sqrt_loop (op - (res + one)) (drop_bit 1 (res + 2 * one)) (drop_bit 2 one)) + 1)\<^sup>2"
    proof (rule Suc.IH [OF _ next_one res op])
      show "(r + ?b) ^ 2 \<le> n" using ge Suc.prems(5) unfolding square by simp
      show "n < (r + ?b + ?b) ^ 2" using Suc.prems(6) by (simp add: mult_2 add.assoc)
      show "?b dvd r + ?b" using dvd by simp
    qed (use Suc.prems in simp_all)
    then show ?thesis unfolding step .
  next
    case False
    then have lt: "n - r ^ 2 < r * 2 ^ Suc j + 4 ^ j"
      using Suc.prems(4) sum by (simp add: word_less_nat_alt not_le)
    have step: "sqrt_loop op res one = sqrt_loop op (drop_bit 1 res) (drop_bit 2 one)"
      using nz False by (subst sqrt_loop.simps) simp
    have res: "unat (drop_bit 1 res) = r * 2 ^ j" unfolding unat_shift Suc.prems(3) by simp
    have "(unat (sqrt_loop op (drop_bit 1 res) (drop_bit 2 one)))\<^sup>2 \<le> n \<and>
        n < (unat (sqrt_loop op (drop_bit 1 res) (drop_bit 2 one)) + 1)\<^sup>2"
    proof (rule Suc.IH [OF _ next_one res Suc.prems(4,5)])
      show "n < (r + ?b) ^ 2" using lt unfolding square by simp
    qed (use Suc.prems dvd in simp_all)
    then show ?thesis unfolding step .
  qed
qed

lemma SquareRoot_floor: "(unat (SquareRoot n)) ^ 2 \<le> unat n \<and> unat n < (unat (SquareRoot n) + 1) ^ 2"
proof -
  have n: "unat n < 2 ^ 32" using unsigned_less [of n] by simp
  obtain k where k: "k \<le> 16" "unat (start_bit n (2 ^ 30)) = (if k = 0 then 0 else 4 ^ (k - 1))"
    "unat n < 4 ^ k"
    using start_bit_ok [of 15 "2 ^ 30" n] n by auto
  have "(4 :: nat) ^ k = (2 ^ k) ^ 2" by (simp flip: power_mult_distrib add: power2_eq_square)
  then show ?thesis
    unfolding SquareRoot_def using k n by (intro sqrt_loop_ok [OF k(1,2), of _ 0]) auto
qed

text \<open>
  C20: \<open>SquareRoot\<close> computes the integer square root of every 32-bit number: the largest number whose square
  is not above it. Neither loop runs forever and no intermediate sum wraps around.
\<close>

theorem SquareRoot_correct:
  "(unat (SquareRoot n)) ^ 2 \<le> unat n \<and> unat n < (unat (SquareRoot n) + 1) ^ 2"
  by (rule SquareRoot_floor)

subsection \<open>Drives\<close>

record neutron =
  n_speed :: "32 word"
  n_distance :: "32 word"
  n_time_a :: "32 word"
  n_dist_a :: "32 word"
  n_time_b :: "32 word"
  n_dist_b :: "32 word"
  n_time_c :: "32 word"
  n_accel :: "32 word"
  n_deaccel :: "32 word"
  n_steady :: "32 word"

text \<open>Rows: tail, velocity, acceleration and braking time, acceleration, deceleration, two short-drive factors.\<close>

definition constants :: "32 word list list" where
  "constants =
    [[293005, 1526, 205, 179, 7448, 8520, 6979, 874],
     [1927195, 4707, 496, 322, 9483, 14595, 7822, 650],
     [510000, 1000, 1000, 20, 1000, 50000, 510, 20],
     [510000, 1000, 1000, 20, 1000, 50000, 510, 20],
     [359022, 1582, 252, 202, 6288, 7821, 5671, 804],
     [1687417, 4523, 384, 363, 11792, 12474, 11470, 945],
     [300653, 1445, 215, 201, 6707, 7200, 6478, 932],
     [1722952, 4338, 444, 350, 9771, 12380, 8741, 789],
     [1108617, 3198, 421, 272, 7591, 11755, 6247, 646],
     [2447698, 5761, 586, 264, 9833, 21835, 7130, 450],
     [333698, 1246, 343, 193, 3632, 6469, 2836, 562],
     [1755431, 3726, 626, 317, 5956, 11765, 4486, 506]]"

definition train_offset :: "int \<Rightarrow> nat" where
  "train_offset p =
     (if p = 1 then 0 else if p = 2 then 2 else if p = 24 then 4 else if p = 58 then 6
      else if p = 74 then 8 else if p = 78 then 10 else 6)"

text \<open>\<open>force_slow\<close> is not read; the branch for speed 12 is dead.\<close>

definition create_neutron :: "int \<Rightarrow> 32 word \<Rightarrow> bool \<Rightarrow> neutron cres" where
  "create_neutron train distance force_slow =
     cbind (v_p_train_num train) (\<lambda>p.
     cbind (rd constants (train_offset p)) (\<lambda>vals.
     let short = distance < vals ! 0;
         time_a = (if short then SquareRoot (distance * 1000 div vals ! 6) else vals ! 2);
         dist_b = (if short then 0 else distance - vals ! 0);
         time_c = (if short then vals ! 7 * time_a div 1000 else vals ! 3)
     in Inr \<lparr> n_speed = 7, n_distance = distance, n_time_a = time_a,
              n_dist_a = vals ! 4 * time_a * time_a div 2000, n_time_b = dist_b div vals ! 1,
              n_dist_b = dist_b, n_time_c = time_c, n_accel = vals ! 4, n_deaccel = vals ! 5,
              n_steady = vals ! 1 \<rparr>))"

text \<open>Division by zero is undefined in C.\<close>

definition wdiv :: "32 word \<Rightarrow> 32 word \<Rightarrow> 32 word cres" where
  "wdiv a b = (if b = 0 then Inl Undefined_Value else Inr (a div b))"

definition find_time :: "neutron \<Rightarrow> 32 word \<Rightarrow> 32 word cres" where
  "find_time n distance =
     (if distance < n_dist_a n then
        cbind (wdiv (distance * 2000) (n_accel n)) (\<lambda>q. Inr (SquareRoot q))
      else if distance < n_dist_a n + n_dist_b n then
        cbind (wdiv (distance - n_dist_a n) (n_steady n)) (\<lambda>q. Inr (q + n_time_a n))
      else if distance < n_distance n then
        cbind (wdiv (2 * distance * 1000) (n_deaccel n)) (\<lambda>q.
          Inr (n_time_a n + n_time_b n + n_time_c n - SquareRoot (n_time_c n * n_time_c n - q)))
      else Inl (Assert_Failed ''Impossible Distance''))"

definition adjust_offset :: "neutron \<Rightarrow> int \<Rightarrow> 32 word \<Rightarrow> neutron cres" where
  "adjust_offset n train offset =
     (if sint offset < 0 then Inr n
      else create_neutron train (n_distance n + n_accel n * offset * offset div 2000) True)"

subsection \<open>Plans\<close>

lemma SquareRoot_mono: "a \<le> b \<Longrightarrow> SquareRoot a \<le> SquareRoot b"
proof (rule ccontr)
  assume "a \<le> b" "\<not> SquareRoot a \<le> SquareRoot b"
  then have "unat (SquareRoot b) + 1 \<le> unat (SquareRoot a)" "unat a \<le> unat b"
    by (simp_all add: word_le_nat_alt)
  then have "(unat (SquareRoot b) + 1) ^ 2 \<le> unat b"
    using SquareRoot_floor [of a] power_mono [of "unat (SquareRoot b) + 1" "unat (SquareRoot a)" 2] by linarith
  then show False using SquareRoot_floor [of b] by simp
qed

lemma SquareRoot_le: "unat n \<le> r ^ 2 \<Longrightarrow> unat (SquareRoot n) \<le> r"
proof (rule ccontr)
  assume "unat n \<le> r ^ 2" "\<not> unat (SquareRoot n) \<le> r"
  then have "(r + 1) ^ 2 \<le> (unat (SquareRoot n)) ^ 2" by (intro power_mono) auto
  then show False using SquareRoot_floor [of n] \<open>unat n \<le> r ^ 2\<close> by (simp add: power2_eq_square)
qed

text \<open>
  What the worker relies on: the phases fit in the distance, the accelerating part is what the acceleration covers, and no product has
  wrapped around.
\<close>

definition plan_ok :: "neutron \<Rightarrow> bool" where
  "plan_ok n \<longleftrightarrow> 0 < n_accel n \<and> 0 < n_steady n \<and>
     unat (n_dist_a n) = unat (n_accel n) * (unat (n_time_a n)) ^ 2 div 2000 \<and>
     unat (n_accel n) * (unat (n_time_a n)) ^ 2 < 2 ^ 32 \<and>
     unat (n_dist_a n) + unat (n_dist_b n) \<le> unat (n_distance n) \<and>
     unat (n_time_a n) + unat (n_time_b n) < 2 ^ 32 \<and>
     n_time_b n = n_dist_b n div n_steady n"

lemma train_rows:
  assumes "v_p_train_num train = Inr p"
  shows "constants ! train_offset p \<in> {[293005, 1526, 205, 179, 7448, 8520, 6979, 874],
    [359022, 1582, 252, 202, 6288, 7821, 5671, 804], [300653, 1445, 215, 201, 6707, 7200, 6478, 932],
    [1108617, 3198, 421, 272, 7591, 11755, 6247, 646], [333698, 1246, 343, 193, 3632, 6469, 2836, 562]}"
    "train_offset p < length constants"
proof -
  have "p \<in> set supported_trains" using assms by (auto simp: v_p_train_num_def c_simps)
  then have "p \<in> {1, 24, 58, 74, 78, 79}" by (auto simp: supported_trains_def)
  then show "constants ! train_offset p \<in> {[293005, 1526, 205, 179, 7448, 8520, 6979, 874],
      [359022, 1582, 252, 202, 6288, 7821, 5671, 804], [300653, 1445, 215, 201, 6707, 7200, 6478, 932],
      [1108617, 3198, 421, 272, 7591, 11755, 6247, 646], [333698, 1246, 343, 193, 3632, 6469, 2836, 562]}"
    "train_offset p < length constants"
    by (auto simp: train_offset_def constants_def)
qed

text \<open>The facts about a row of the table that the plan depends on.\<close>

definition row_ok :: "32 word list \<Rightarrow> bool" where
  "row_ok v \<longleftrightarrow> 0 < v ! 1 \<and> 0 < v ! 4 \<and> 0 < v ! 6 \<and>
     unat (v ! 0) * 2000 < 2 ^ 32 \<and> unat (v ! 4) * (unat (v ! 2)) ^ 2 < 2 ^ 32 \<and>
     unat (v ! 4) * (unat (v ! 2)) ^ 2 div 2000 \<le> unat (v ! 0) \<and> unat (v ! 2) < 2 ^ 16 \<and>
     unat (v ! 4) * 1000 \<le> 2000 * unat (v ! 6) \<and> 1000 \<le> unat (v ! 1) \<and>
     unat (v ! 7) \<le> 1000 \<and> unat (v ! 3) \<le> 1000 \<and> unat (v ! 6) \<le> 1000000 \<and> 2000 \<le> unat (v ! 4) \<and> 1 \<le> unat (v ! 2)"

lemma rows_ok: "v_p_train_num train = Inr p \<Longrightarrow> row_ok (constants ! train_offset p)"
  using train_rows(1) [of train p] by (auto simp: row_ok_def)

lemma unat_mult_small: "unat (a :: 32 word) * unat b < 2 ^ 32 \<Longrightarrow> unat (a * b) = unat a * unat b"
  by (simp add: unat_word_ariths)

lemma unat_plus_small: "unat (a :: 32 word) + unat b < 2 ^ 32 \<Longrightarrow> unat (a + b) = unat a + unat b"
  by (simp add: unat_word_ariths)

lemma unat_32: "unat (w :: 32 word) < 2 ^ 32"
  using unsigned_less [of w] by simp

lemma unat_accel:
  assumes "unat (a :: 32 word) * (unat t) ^ 2 < 2 ^ 32"
  shows "unat (a * t * t) = unat a * (unat t) ^ 2"
proof -
  have "unat t \<le> (unat t) ^ 2" by (simp add: power2_nat_le_imp_le self_le_power)
  then have "unat a * unat t \<le> unat a * (unat t) ^ 2" by (rule mult_le_mono2)
  then have "unat a * unat t < 2 ^ 32" using assms by (rule order_le_less_trans)
  then have at: "unat (a * t) = unat a * unat t" by (rule unat_mult_small)
  then have "unat (a * t) * unat t < 2 ^ 32" using assms by (simp add: power2_eq_square mult.assoc)
  then have "unat (a * t * t) = unat (a * t) * unat t" by (rule unat_mult_small)
  then show ?thesis using at by (simp add: power2_eq_square mult.assoc)
qed

lemma mult_div_le: "a * (b div c) \<le> a * b div (c :: nat)"
  by (cases "c = 0") (simp_all add: less_eq_div_iff_mult_less_eq mult.assoc)

lemma short_accel:
  assumes v: "row_ok v" and d: "d < v ! 0"
  shows "unat (v ! 4) * (unat (SquareRoot (d * 1000 div v ! 6))) ^ 2 \<le> 2000 * unat d"
proof -
  have d': "unat d * 1000 < 2 ^ 32" "unat d < unat (v ! 0)"
    using d v by (auto simp: row_ok_def word_less_nat_alt)
  then have prod: "unat (d * 1000) = unat d * 1000" using unat_mult_small [of d 1000] by simp
  have "(unat (SquareRoot (d * 1000 div v ! 6))) ^ 2 \<le> unat d * 1000 div unat (v ! 6)"
    using SquareRoot_floor [of "d * 1000 div v ! 6"] prod by (simp add: unat_div)
  then have "unat (v ! 4) * (unat (SquareRoot (d * 1000 div v ! 6))) ^ 2 \<le> unat (v ! 4) * (unat d * 1000 div unat (v ! 6))"
    by simp
  also have "\<dots> \<le> unat (v ! 4) * (unat d * 1000) div unat (v ! 6)" by (rule mult_div_le)
  also have "\<dots> \<le> 2000 * unat (v ! 6) * unat d div unat (v ! 6)"
  proof (rule div_le_mono)
    have "unat (v ! 4) * 1000 * unat d \<le> 2000 * unat (v ! 6) * unat d"
      using v by (intro mult_le_mono1) (simp add: row_ok_def)
    then show "unat (v ! 4) * (unat d * 1000) \<le> 2000 * unat (v ! 6) * unat d" by (simp add: mult.commute mult.left_commute)
  qed
  also have "\<dots> = 2000 * unat d"
    using v by (simp add: row_ok_def word_less_nat_alt)
  finally show ?thesis .
qed

lemma create_neutron_ok:
  assumes "0 \<le> train" "train < int MAX_NUM_TRAINS"
  obtains n where "create_neutron train d force_slow = Inr n" "plan_ok n" "n_distance n = d" "n_speed n = 7"
    "unat (n_time_a n) + unat (n_time_b n) < 2 ^ 23" "unat (n_time_c n) < 2 ^ 23" "1000 \<le> unat d \<longrightarrow> 0 < n_dist_a n"
proof -
  have "nat train < length supported_trains" using assms by (simp add: supported_trains_def MAX_NUM_TRAINS_def)
  then have p: "v_p_train_num train = Inr (supported_trains ! nat train)"
    using assms by (simp add: v_p_train_num_def rdi_def rd_def)
  define p where "p = supported_trains ! nat train"
  note p = p [folded p_def]
  define v where "v = constants ! train_offset p"
  have v: "row_ok v" unfolding v_def by (rule rows_ok [OF p])
  have row: "rd constants (train_offset p) = Inr v" using train_rows(2) [OF p] by (simp add: v_def)
  define ta where "ta = (if d < v ! 0 then SquareRoot (d * 1000 div v ! 6) else v ! 2)"
  define db where "db = (if d < v ! 0 then 0 else d - v ! 0)"
  define n where "n = \<lparr> n_speed = 7, n_distance = d, n_time_a = ta,
    n_dist_a = v ! 4 * ta * ta div 2000, n_time_b = db div v ! 1, n_dist_b = db,
    n_time_c = (if d < v ! 0 then v ! 7 * ta div 1000 else v ! 3), n_accel = v ! 4, n_deaccel = v ! 5,
    n_steady = v ! 1 \<rparr>"
  have create: "create_neutron train d force_slow = Inr n"
    using p row by (simp add: create_neutron_def n_def ta_def db_def Let_def)
  have len: "unat (v ! 4) * (unat ta) ^ 2 < 2 ^ 32 \<and>
      unat (v ! 4) * (unat ta) ^ 2 div 2000 + unat db \<le> unat d"
  proof (cases "d < v ! 0")
    case True
    then have "unat (v ! 4) * (unat ta) ^ 2 \<le> 2000 * unat d" using short_accel [OF v True] by (simp add: ta_def)
    moreover have "unat d * 2000 < 2 ^ 32" using True v by (auto simp: row_ok_def word_less_nat_alt)
    moreover have "db = 0" using True by (simp add: db_def)
    ultimately show ?thesis by (simp add: div_le_mono [of _ "2000 * unat d" 2000, simplified])
  next
    case False
    then have "unat db = unat d - unat (v ! 0)" "unat (v ! 0) \<le> unat d"
      using False by (simp_all add: db_def unat_sub not_less word_le_nat_alt [symmetric])
    moreover have "unat (v ! 4) * (unat (v ! 2)) ^ 2 div 2000 \<le> unat (v ! 0)" using v unfolding row_ok_def by blast
    ultimately have "unat (v ! 4) * (unat (v ! 2)) ^ 2 div 2000 + unat db \<le> unat d" by linarith
    then show ?thesis using v False by (simp add: row_ok_def ta_def)
  qed
  have ta: "unat ta < 2 ^ 16"
  proof (cases "d < v ! 0")
    case True
    have "(unat ta) ^ 2 < (2 ^ 16) ^ 2"
      using SquareRoot_floor [of "d * 1000 div v ! 6"] unat_32 [of "d * 1000 div v ! 6"] True
      by (simp add: ta_def)
    then show ?thesis by (rule power_less_imp_less_base) simp
  qed (use v in \<open>simp add: ta_def row_ok_def\<close>)
  have db: "unat (db div v ! 1) \<le> 2 ^ 32 div 1000"
  proof -
    have "1000 \<le> unat (v ! 1)" using v unfolding row_ok_def by blast
    then have "unat db div unat (v ! 1) \<le> unat db div 1000" by (intro div_le_mono2) simp_all
    also have "\<dots> \<le> 2 ^ 32 div 1000" using unat_32 [of db] by (intro div_le_mono order_less_imp_le)
    finally show ?thesis by (simp only: unat_div)
  qed
  have "unat ta + unat (db div v ! 1) < 2 ^ 32" using ta db by simp
  moreover have "unat (v ! 4 * ta * ta div 2000) = unat (v ! 4) * (unat ta) ^ 2 div 2000"
    using unat_accel [of "v ! 4" ta] len by (simp add: unat_div)
  moreover have "0 < v ! 4 \<and> 0 < v ! 1" using v unfolding row_ok_def by blast
  ultimately have "plan_ok n"
    using len unfolding plan_ok_def n_def neutron.simps by metis
  moreover have "unat (n_time_a n) + unat (n_time_b n) < 2 ^ 23" using ta db by (simp add: n_def)
  moreover have "unat (n_time_c n) < 2 ^ 23"
  proof (cases "d < v ! 0")
    case True
    have small: "unat (v ! 7) * unat ta \<le> 1000 * 2 ^ 16"
      using v ta by (intro mult_le_mono) (auto simp: row_ok_def)
    then have "unat (v ! 7 * ta) = unat (v ! 7) * unat ta" by (intro unat_mult_small) simp
    then show ?thesis using True small by (simp add: n_def unat_div)
  qed (use v in \<open>simp add: n_def row_ok_def\<close>)
  moreover have "0 < n_dist_a n" if "1000 \<le> unat d"
  proof -
    have "1 \<le> unat ta"
    proof (cases "d < v ! 0")
      case True
      then have "unat d * 1000 < 2 ^ 32" using v by (auto simp: row_ok_def word_less_nat_alt)
      then have prod: "unat (d * 1000) = unat d * 1000" using unat_mult_small [of d 1000] by simp
      have "unat (v ! 6) \<le> unat d * 1000" "0 < unat (v ! 6)" using v that by (simp_all add: row_ok_def word_less_nat_alt)
      then have "1 \<le> unat (d * 1000 div v ! 6)" using prod by (simp add: unat_div div_greater_zero_iff Suc_le_eq)
      moreover have "unat (d * 1000 div v ! 6) < (unat ta + 1) ^ 2"
        using SquareRoot_floor [of "d * 1000 div v ! 6"] True by (simp add: ta_def)
      ultimately show ?thesis by (cases "unat ta") simp_all
    qed (use v in \<open>simp add: ta_def row_ok_def\<close>)
    then have "1 ^ 2 \<le> (unat ta) ^ 2" by (intro power_mono) simp_all
    then have "2000 * 1 \<le> unat (v ! 4) * (unat ta) ^ 2" using v by (intro mult_le_mono) (simp_all add: row_ok_def)
    then have "0 < unat (n_dist_a n)"
      using unat_accel [of "v ! 4" ta] len by (simp add: n_def unat_div div_greater_zero_iff)
    then show ?thesis by (simp add: word_less_nat_alt)
  qed
  ultimately show ?thesis using that create by (simp add: n_def)
qed

lemma find_time_accelerating:
  assumes n: "plan_ok n" and d: "d < n_dist_a n"
  obtains t where "find_time n d = Inr t" "t = SquareRoot (d * 2000 div n_accel n)"
    "unat t \<le> unat (n_time_a n)" "unat (d * 2000) = unat d * 2000"
proof -
  let ?q = "d * 2000 div n_accel n"
  have a: "unat d < unat (n_accel n) * (unat (n_time_a n)) ^ 2 div 2000"
    using n d by (simp add: plan_ok_def word_less_nat_alt)
  then have "unat d * 2000 \<le> unat (n_accel n) * (unat (n_time_a n)) ^ 2"
    by (simp add: less_eq_div_iff_mult_less_eq [symmetric] Suc_leI order_less_imp_le)
  moreover from this have q: "unat (d * 2000) = unat d * 2000"
    using n unat_mult_small [of d 2000] by (simp add: plan_ok_def)
  ultimately have "unat (d * 2000) div unat (n_accel n) \<le> unat (n_accel n) * (unat (n_time_a n)) ^ 2 div unat (n_accel n)"
    by (intro div_le_mono) simp
  moreover have "0 < unat (n_accel n)" using n by (simp add: plan_ok_def word_less_nat_alt)
  ultimately have "unat ?q \<le> (unat (n_time_a n)) ^ 2" by (simp add: unat_div)
  then have "unat (SquareRoot ?q) \<le> unat (n_time_a n)" by (rule SquareRoot_le)
  then show ?thesis
    using that n d q by (auto simp: find_time_def wdiv_def plan_ok_def)
qed

lemma find_time_steady:
  assumes n: "plan_ok n" and d: "n_dist_a n \<le> d" "d < n_dist_a n + n_dist_b n"
  obtains t where "find_time n d = Inr t" "unat t = unat ((d - n_dist_a n) div n_steady n) + unat (n_time_a n)"
    "unat t \<le> unat (n_time_a n) + unat (n_time_b n)" "unat (d - n_dist_a n) = unat d - unat (n_dist_a n)"
proof -
  let ?q = "(d - n_dist_a n) div n_steady n"
  have sub: "unat (d - n_dist_a n) = unat d - unat (n_dist_a n)" using d(1) by (rule unat_sub)
  have sum: "unat (n_dist_a n + n_dist_b n) = unat (n_dist_a n) + unat (n_dist_b n)"
  proof -
    have "unat (n_dist_a n) + unat (n_dist_b n) \<le> unat (n_distance n)" using n unfolding plan_ok_def by blast
    moreover have "unat (n_distance n) < 2 ^ 32" using unsigned_less [of "n_distance n"] by simp
    ultimately have "unat (n_dist_a n) + unat (n_dist_b n) < 2 ^ 32" by linarith
    then show ?thesis by (rule unat_plus_small)
  qed
  then have "unat d - unat (n_dist_a n) \<le> unat (n_dist_b n)"
    using d by (simp add: word_less_nat_alt word_le_nat_alt)
  then have "unat ?q \<le> unat (n_time_b n)"
    using n sub by (simp add: plan_ok_def unat_div div_le_mono)
  moreover have "unat (n_time_a n) + unat (n_time_b n) < 2 ^ 32" using n unfolding plan_ok_def by blast
  ultimately have "unat ?q + unat (n_time_a n) < 2 ^ 32" "unat ?q \<le> unat (n_time_b n)" by linarith+
  moreover from this(1) have "unat (?q + n_time_a n) = unat ?q + unat (n_time_a n)" by (rule unat_plus_small)
  moreover have "find_time n d = Inr (?q + n_time_a n)"
    using n d by (auto simp: find_time_def wdiv_def plan_ok_def)
  ultimately show ?thesis using sub by (intro that [of "?q + n_time_a n"]) simp_all
qed



end
