(* ===== verification/Clockserver.thy ===== *)
theory Clockserver
  imports Prelude
begin

section \<open>The clock server (src/user/clockserver.c)\<close>

text \<open>
  Tasks that wait for a time are kept in a list sorted by that time, linked through an array of
  fifty nodes; the nodes not in use form a second list. A pointer into the array is an index, and
  the pointer \<open>prev\<close> of the insertion is the place it points to. A reply is a client, the value of the
  integer sent and the number of bytes of it.
\<close>

datatype clockserver_request_type = TIME | DELAY | DELAYUNTIL | TICK

record delay_node =
  d_client :: int
  d_time :: int
  d_next :: "nat option"

record clockserver =
  ck_ticks :: int
  ck_nodes :: "delay_node list"
  ck_free :: "nat option"
  ck_head :: "nat option"

type_synonym reply = "int \<times> int \<times> nat"

definition NUM_DELAYS :: nat where "NUM_DELAYS = 50"

text \<open>The array on the stack is given: \<open>client\<close> and \<open>time\<close> are not initialised.\<close>

definition clock_init :: "delay_node list \<Rightarrow> clockserver" where
  "clock_init backing =
     \<lparr> ck_ticks = 0,
       ck_nodes = map (\<lambda>i. (backing ! i)\<lparr> d_next := if i < NUM_DELAYS - 1 then Some (i + 1) else None \<rparr>)
         [0..<NUM_DELAYS],
       ck_free = Some 0, ck_head = None \<rparr>"

text \<open>What \<open>prev\<close> points to: \<open>head\<close>, or the \<open>next\<close> of a node.\<close>

datatype place = Head | Next nat

definition store :: "clockserver \<Rightarrow> place \<Rightarrow> nat option \<Rightarrow> clockserver cres" where
  "store st loc p =
     (case loc of Head \<Rightarrow> Inr (st\<lparr> ck_head := p \<rparr>)
      | Next i \<Rightarrow> cbind (rd (ck_nodes st) i) (\<lambda>n.
                  cbind (wr (ck_nodes st) i (n\<lparr> d_next := p \<rparr>)) (\<lambda>ns. Inr (st\<lparr> ck_nodes := ns \<rparr>))))"

text \<open>\<open>loc\<close> is \<open>prev\<close> and \<open>p\<close> is \<open>*prev\<close>.\<close>

partial_function (option) find_place ::
  "delay_node list \<Rightarrow> int \<Rightarrow> place \<Rightarrow> nat option \<Rightarrow> (place \<times> nat option) cres option" where
  "find_place ns time loc p =
     (case p of
        None \<Rightarrow> Some (Inr (loc, p))
      | Some i \<Rightarrow>
          (case rd ns i of
             Inl e \<Rightarrow> Some (Inl e)
           | Inr n \<Rightarrow> if d_time n < time then find_place ns time (Next i) (d_next n)
                      else Some (Inr (loc, p))))"

definition clock_wait :: "clockserver \<Rightarrow> int \<Rightarrow> int \<Rightarrow> clockserver cres option" where
  "clock_wait st client time =
     (case ck_free st of
        None \<Rightarrow> Some (Inl (Assert_Failed ''No more delay slots''))
      | Some cur \<Rightarrow>
          (case rd (ck_nodes st) cur of
             Inl e \<Rightarrow> Some (Inl e)
           | Inr n \<Rightarrow>
               let ns = (ck_nodes st)[cur := n\<lparr> d_client := client, d_time := time \<rparr>] in
               (case find_place ns time Head (ck_head st) of
                  None \<Rightarrow> None
                | Some r \<Rightarrow> Some (cbind r (\<lambda>(loc, p).
                    store (st\<lparr> ck_free := d_next n,
                      ck_nodes := ns[cur := (ns ! cur)\<lparr> d_next := p \<rparr>] \<rparr>) loc (Some cur))))))"

text \<open>The loop after a tick, with the replies it sends.\<close>

partial_function (option) wake_loop :: "clockserver \<Rightarrow> reply list \<Rightarrow> (reply list \<times> clockserver) cres option" where
  "wake_loop st outs =
     (case ck_head st of
        None \<Rightarrow> Some (Inr (outs, st))
      | Some cur \<Rightarrow>
          (case rd (ck_nodes st) cur of
             Inl e \<Rightarrow> Some (Inl e)
           | Inr n \<Rightarrow>
               if d_time n \<le> ck_ticks st
               then wake_loop
                      (st\<lparr> ck_head := d_next n, ck_free := Some cur,
                        ck_nodes := (ck_nodes st)[cur := n\<lparr> d_next := ck_free st \<rparr>] \<rparr>)
                      (outs @ [(d_client n, ck_ticks st, 4)])
               else Some (Inr (outs, st))))"

definition clock_delayuntil ::
  "clockserver \<Rightarrow> int \<Rightarrow> int \<Rightarrow> (reply list \<times> clockserver) cres option" where
  "clock_delayuntil st client data =
     (if data \<le> ck_ticks st then Some (Inr ([(client, ck_ticks st, 4)], st))
      else (case clock_wait st client data of
              None \<Rightarrow> None
            | Some r \<Rightarrow> Some (cbind r (\<lambda>st'. Inr ([], st')))))"

definition clock_step ::
  "clockserver \<Rightarrow> int \<Rightarrow> clockserver_request_type \<Rightarrow> int \<Rightarrow> (reply list \<times> clockserver) cres option" where
  "clock_step st client type data =
     (case type of
        TIME \<Rightarrow> Some (Inr ([(client, ck_ticks st, 4)], st))
      | DELAY \<Rightarrow>
          if data < 0 then Some (Inr ([(client, -2, 4)], st))
          else (case cint (ck_ticks st + data) of
                  Inl e \<Rightarrow> Some (Inl e)
                | Inr until \<Rightarrow> clock_delayuntil st client until)
      | DELAYUNTIL \<Rightarrow> clock_delayuntil st client data
      | TICK \<Rightarrow>
          (case cint (ck_ticks st + 1) of
             Inl e \<Rightarrow> Some (Inl e)
           | Inr ticks \<Rightarrow> wake_loop (st\<lparr> ck_ticks := ticks \<rparr>) [(client, ck_ticks st, 0)]))"

subsection \<open>The clients\<close>

definition Time :: "clockserver_request_type \<times> int" where "Time = (TIME, 0)"
definition Delay :: "int \<Rightarrow> clockserver_request_type \<times> int" where "Delay ticks = (DELAY, ticks)"
definition DelayUntil :: "int \<Rightarrow> clockserver_request_type \<times> int" where "DelayUntil ticks = (DELAYUNTIL, ticks)"

text \<open>What the notifier sends after each tick of the timer.\<close>

definition clock_notifier :: "clockserver_request_type \<times> int" where "clock_notifier = (TICK, 0)"

type_synonym request = "int \<times> clockserver_request_type \<times> int"

text \<open>The server's loop over a sequence of requests, with the replies to each.\<close>

fun clock_run :: "clockserver \<Rightarrow> request list \<Rightarrow> (reply list \<times> clockserver) cres option" where
  "clock_run st [] = Some (Inr ([], st))"
| "clock_run st ((client, type, data) # reqs) =
     (case clock_step st client type data of
        None \<Rightarrow> None
      | Some (Inl e) \<Rightarrow> Some (Inl e)
      | Some (Inr (outs, st')) \<Rightarrow>
          (case clock_run st' reqs of
             None \<Rightarrow> None
           | Some r \<Rightarrow> Some (cbind r (\<lambda>(outs', st''). Inr (outs @ outs', st'')))))"

subsection \<open>Lists in the array\<close>

text \<open>\<open>chain ns p is q\<close>: following \<open>next\<close> from \<open>p\<close> visits \<open>is\<close> and arrives at \<open>q\<close>.\<close>

fun chain :: "delay_node list \<Rightarrow> nat option \<Rightarrow> nat list \<Rightarrow> nat option \<Rightarrow> bool" where
  "chain ns p [] q \<longleftrightarrow> p = q"
| "chain ns p (i # is) q \<longleftrightarrow> p = Some i \<and> i < length ns \<and> chain ns (d_next (ns ! i)) is q"

lemma chain_append: "chain ns p (is @ js) q \<longleftrightarrow> (\<exists>r. chain ns p is r \<and> chain ns r js q)"
  by (induction "is" arbitrary: p) auto

lemma waits_chain_update: "i \<notin> set is \<Longrightarrow> chain (ns[i := n]) p is q \<longleftrightarrow> chain ns p is q"
  by (induction "is" arbitrary: p) (auto simp: nth_update)

lemma chain_cong:
  "length ns = length ns' \<Longrightarrow> (\<And>i. i \<in> set is \<Longrightarrow> ns ! i = ns' ! i) \<Longrightarrow> chain ns p is q \<longleftrightarrow> chain ns' p is q"
  by (induction "is" arbitrary: p) auto

lemma chain_bound: "chain ns p is q \<Longrightarrow> i \<in> set is \<Longrightarrow> i < length ns"
  by (induction "is" arbitrary: p) auto

text \<open>Who waits for what, as the nodes say.\<close>

definition waiter :: "delay_node list \<Rightarrow> nat \<Rightarrow> int \<times> int" where
  "waiter ns i = (d_time (ns ! i), d_client (ns ! i))"

lemma waiter_update: "i \<notin> set is \<Longrightarrow> map (waiter (ns[i := n])) is = map (waiter ns) is"
  by (auto simp: waiter_def nth_update)

text \<open>\<open>ws\<close> are the nodes in use and \<open>fs\<close> the free ones.\<close>

definition ck_lists :: "clockserver \<Rightarrow> nat list \<Rightarrow> nat list \<Rightarrow> bool" where
  "ck_lists st ws fs \<longleftrightarrow>
     length (ck_nodes st) = NUM_DELAYS \<and> chain (ck_nodes st) (ck_head st) ws None \<and>
     chain (ck_nodes st) (ck_free st) fs None \<and> distinct (ws @ fs) \<and> length ws + length fs = NUM_DELAYS"

text \<open>The contents of the server: the time and the waiting clients, those due first in front.\<close>

definition clock_abs :: "clockserver \<Rightarrow> int \<Rightarrow> (int \<times> int) list \<Rightarrow> bool" where
  "clock_abs st ticks waits \<longleftrightarrow>
     ck_ticks st = ticks \<and> sorted (map fst waits) \<and>
     (\<exists>ws fs. ck_lists st ws fs \<and> waits = map (waiter (ck_nodes st)) ws)"

subsection \<open>The specification\<close>

text \<open>A new client goes in front of those with the same or a later time.\<close>

definition wait_insert :: "int \<Rightarrow> int \<Rightarrow> (int \<times> int) list \<Rightarrow> (int \<times> int) list" where
  "wait_insert time client waits =
     takeWhile (\<lambda>w. fst w < time) waits @ (time, client) # dropWhile (\<lambda>w. fst w < time) waits"

definition delayuntil_spec ::
  "int \<Rightarrow> (int \<times> int) list \<Rightarrow> int \<Rightarrow> int \<Rightarrow> (reply list \<times> int \<times> (int \<times> int) list) cres" where
  "delayuntil_spec ticks waits client data =
     (if data \<le> ticks then Inr ([(client, ticks, 4)], ticks, waits)
      else if length waits < NUM_DELAYS then Inr ([], ticks, wait_insert data client waits)
      else Inl (Assert_Failed ''No more delay slots''))"

definition clock_spec ::
  "int \<Rightarrow> (int \<times> int) list \<Rightarrow> request \<Rightarrow> (reply list \<times> int \<times> (int \<times> int) list) cres" where
  "clock_spec ticks waits req =
     (case req of
        (client, TIME, data) \<Rightarrow> Inr ([(client, ticks, 4)], ticks, waits)
      | (client, DELAY, data) \<Rightarrow>
          if data < 0 then Inr ([(client, -2, 4)], ticks, waits)
          else cbind (cint (ticks + data)) (delayuntil_spec ticks waits client)
      | (client, DELAYUNTIL, data) \<Rightarrow> delayuntil_spec ticks waits client data
      | (client, TICK, data) \<Rightarrow>
          cbind (cint (ticks + 1)) (\<lambda>t.
            Inr ((client, ticks, 0) # map (\<lambda>w. (snd w, t, 4)) (takeWhile (\<lambda>w. fst w \<le> t) waits),
                 t, dropWhile (\<lambda>w. fst w \<le> t) waits)))"

lemma sorted_wait_insert: "sorted (map fst waits) \<Longrightarrow> sorted (map fst (wait_insert time client waits))"
  by (induction waits) (auto simp: wait_insert_def dest: set_takeWhileD set_dropWhileD)

subsection \<open>The list operations\<close>

lemma find_place_ok:
  "chain ns p is None \<Longrightarrow>
     find_place ns time loc p =
       Some (Inr (let pre = takeWhile (\<lambda>i. d_time (ns ! i) < time) is in if pre = [] then loc else Next (last pre),
         case dropWhile (\<lambda>i. d_time (ns ! i) < time) is of [] \<Rightarrow> None | i # _ \<Rightarrow> Some i))"
proof (induction "is" arbitrary: p loc)
  case Nil
  then show ?case by (simp add: find_place.simps)
next
  case (Cons i "is")
  then show ?case by (subst find_place.simps) (auto split: list.splits)
qed

lemma chain_redirect:
  "chain ns p (is @ [l]) q \<Longrightarrow> l \<notin> set is \<Longrightarrow> chain (ns[l := (ns ! l)\<lparr> d_next := r \<rparr>]) p (is @ [l]) r"
  by (induction "is" arbitrary: p) (auto simp: nth_update)

lemma chain_first: "chain ns p is None \<Longrightarrow> p = (case is of [] \<Rightarrow> None | i # _ \<Rightarrow> Some i)"
  by (cases "is") auto

lemma splice_ok:
  assumes "chain (ck_nodes st) (ck_head st) (pre @ post) None" "length (ck_nodes st) = NUM_DELAYS"
    and "d_next (ck_nodes st ! f) = (case post of [] \<Rightarrow> None | i # _ \<Rightarrow> Some i)"
    and "loc = (if pre = [] then Head else Next (last pre))"
    and "f < NUM_DELAYS" "distinct (pre @ post)" "f \<notin> set (pre @ post)"
  obtains st' where "store st loc (Some f) = Inr st'" "ck_ticks st' = ck_ticks st" "ck_free st' = ck_free st"
    "length (ck_nodes st') = NUM_DELAYS" "chain (ck_nodes st') (ck_head st') (pre @ f # post) None"
    "\<forall>i. waiter (ck_nodes st') i = waiter (ck_nodes st) i"
    "\<forall>i. i \<notin> set pre \<longrightarrow> ck_nodes st' ! i = ck_nodes st ! i"
proof (cases pre rule: rev_cases)
  case Nil
  then have "ck_head st = (case post of [] \<Rightarrow> None | i # _ \<Rightarrow> Some i)"
    using assms(1) by (simp add: chain_first)
  then show ?thesis
    using assms Nil by (intro that [of "st\<lparr> ck_head := Some f \<rparr>"]) (auto simp: store_def)
next
  case (snoc pre' l)
  let ?ns = "ck_nodes st"
  let ?ns' = "?ns[l := (?ns ! l)\<lparr> d_next := Some f \<rparr>]"
  obtain r where r: "chain ?ns (ck_head st) (pre' @ [l]) r" "chain ?ns r post None"
    using assms(1) unfolding snoc chain_append by blast
  have l: "l < length ?ns" "l \<notin> set pre'" "l \<notin> set post" "l \<noteq> f"
    using assms(6,7) snoc chain_bound [OF r(1)] by auto
  have "r = d_next (?ns ! f)" using chain_first [OF r(2)] assms(3) by simp
  then have "chain ?ns' (Some f) (f # post) None"
    using r(2) l assms(2,5) by (simp add: waits_chain_update nth_update)
  moreover have "chain ?ns' (ck_head st) (pre' @ [l]) (Some f)" by (rule chain_redirect [OF r(1) l(2)])
  ultimately have "chain ?ns' (ck_head st) (pre @ f # post) None"
    unfolding snoc by (subst chain_append) blast
  moreover have "loc = Next l" using assms(4) snoc by simp
  moreover have "waiter ?ns' i = waiter ?ns i" for i by (simp add: waiter_def nth_update)
  ultimately show ?thesis
    using assms(2) l snoc
    by (intro that [of "st\<lparr> ck_nodes := ?ns' \<rparr>"]) (auto simp: store_def)
qed

lemma clock_wait_ok:
  assumes st: "ck_lists st ws (f # fs)"
  obtains st' ws' where "clock_wait st client time = Some (Inr st')" "ck_ticks st' = ck_ticks st"
    "ck_lists st' ws' fs"
    "map (waiter (ck_nodes st')) ws' = wait_insert time client (map (waiter (ck_nodes st)) ws)"
proof -
  define n where "n = ck_nodes st ! f"
  define ns where "ns = (ck_nodes st)[f := n\<lparr> d_client := client, d_time := time \<rparr>]"
  define pre where "pre = takeWhile (\<lambda>i. d_time (ns ! i) < time) ws"
  define post where "post = dropWhile (\<lambda>i. d_time (ns ! i) < time) ws"
  define p where "p = (case post of [] \<Rightarrow> None | i # _ \<Rightarrow> Some i)"
  define loc where "loc = (if pre = [] then Head else Next (last pre))"
  define ns2 where "ns2 = ns[f := (ns ! f)\<lparr> d_next := p \<rparr>]"
  note st' = st [unfolded ck_lists_def]
  have ws: "ws = pre @ post" by (simp add: pre_def post_def)
  have f: "f < length ns" "f \<notin> set ws" "f \<notin> set fs" using st' by (auto simp: ns_def)
  have head: "chain ns (ck_head st) ws None"
    unfolding ns_def using st' f by (simp add: waits_chain_update)
  have free: "ck_free st = Some f" "chain (ck_nodes st) (d_next n) fs None"
    using st' by (auto simp: n_def)
  have place: "find_place ns time Head (ck_head st) = Some (Inr (loc, p))"
    unfolding loc_def p_def pre_def post_def using find_place_ok [OF head] by (simp add: Let_def)
  have wait: "clock_wait st client time =
      Some (store (st\<lparr> ck_free := d_next n, ck_nodes := ns2 \<rparr>) loc (Some f))"
    using free(1) f(1) place by (simp add: clock_wait_def Let_def ns_def [symmetric] n_def [symmetric] ns2_def)
       (simp add: ns_def n_def)
  have chain2: "chain ns2 (ck_head st) (pre @ post) None" "length ns2 = NUM_DELAYS" "d_next (ns2 ! f) = p"
    using head f ws st' by (simp_all add: ns2_def waits_chain_update ns_def)
  obtain st1 where st1: "store (st\<lparr> ck_free := d_next n, ck_nodes := ns2 \<rparr>) loc (Some f) = Inr st1"
    "ck_ticks st1 = ck_ticks st" "ck_free st1 = d_next n" "length (ck_nodes st1) = NUM_DELAYS"
    "chain (ck_nodes st1) (ck_head st1) (pre @ f # post) None"
    "\<forall>i. waiter (ck_nodes st1) i = waiter ns2 i" "\<forall>i. i \<notin> set pre \<longrightarrow> ck_nodes st1 ! i = ns2 ! i"
  proof (rule splice_ok [of "st\<lparr> ck_free := d_next n, ck_nodes := ns2 \<rparr>" pre post f loc])
    show "d_next (ck_nodes (st\<lparr> ck_free := d_next n, ck_nodes := ns2 \<rparr>) ! f) = (case post of [] \<Rightarrow> None | i # _ \<Rightarrow> Some i)"
      using chain2(3) by (simp add: p_def)
    show "f < NUM_DELAYS" using f st' by (simp add: ns_def)
    show "distinct (pre @ post)" "f \<notin> set (pre @ post)" using st' ws f by auto
  qed (use chain2 that in \<open>simp_all add: loc_def\<close>)
  have "waiter (ck_nodes st1) f = (time, client)"
    using st1(6) f(1) by (simp add: waiter_def ns2_def) (simp add: ns_def)
  moreover have same: "waiter (ck_nodes st1) i = waiter (ck_nodes st) i \<and> d_time (ns ! i) = d_time (ck_nodes st ! i)"
    if "i \<in> set ws" for i
    using st1(6) that f by (auto simp: waiter_def ns2_def ns_def nth_update)
  moreover have "pre = takeWhile (\<lambda>i. fst (waiter (ck_nodes st) i) < time) ws"
    "post = dropWhile (\<lambda>i. fst (waiter (ck_nodes st) i) < time) ws"
    unfolding pre_def post_def by (auto simp: waiter_def same intro!: takeWhile_cong dropWhile_cong)
  moreover have "map (waiter (ck_nodes st1)) pre = map (waiter (ck_nodes st)) pre"
    "map (waiter (ck_nodes st1)) post = map (waiter (ck_nodes st)) post"
    using same ws by auto
  ultimately have waits: "map (waiter (ck_nodes st1)) (pre @ f # post) =
      wait_insert time client (map (waiter (ck_nodes st)) ws)"
    by (simp add: wait_insert_def takeWhile_map dropWhile_map comp_def)
  have "chain (ck_nodes st1) (d_next n) fs None"
  proof (rule chain_cong [THEN iffD1, OF _ _ free(2)])
    show "ck_nodes st ! i = ck_nodes st1 ! i" if "i \<in> set fs" for i
      using that st1(7) f ws st' by (auto simp: ns2_def ns_def nth_update)
  qed (use st1(4) st' in simp)
  then have "ck_lists st1 (pre @ f # post) fs"
    using st1 st' ws by (auto simp: ck_lists_def)
  then show ?thesis using that wait st1(1,2) waits by simp
qed

text \<open>The loop after a tick releases the clients that are due and returns their nodes.\<close>

lemma wake_loop_ok:
  "ck_lists st ws fs \<Longrightarrow>
     \<exists>st' ws' fs'. wake_loop st outs =
         Some (Inr (outs @ map (\<lambda>w. (snd w, ck_ticks st, 4))
           (takeWhile (\<lambda>w. fst w \<le> ck_ticks st) (map (waiter (ck_nodes st)) ws)), st')) \<and>
       ck_ticks st' = ck_ticks st \<and> ck_lists st' ws' fs' \<and>
       map (waiter (ck_nodes st')) ws' =
         dropWhile (\<lambda>w. fst w \<le> ck_ticks st) (map (waiter (ck_nodes st)) ws)"
proof (induction ws arbitrary: st fs outs)
  case Nil
  then have "ck_head st = None" by (simp add: ck_lists_def)
  then show ?case using Nil by (subst wake_loop.simps) (auto intro!: exI [of _ st])
next
  case (Cons i ws)
  let ?n = "ck_nodes st ! i"
  have lists: "length (ck_nodes st) = NUM_DELAYS" "ck_head st = Some i" "i < length (ck_nodes st)"
    "chain (ck_nodes st) (d_next ?n) ws None" "chain (ck_nodes st) (ck_free st) fs None"
    "distinct (i # ws @ fs)" "length ws + length (i # fs) = NUM_DELAYS"
    using Cons.prems by (simp_all add: ck_lists_def)
  show ?case
  proof (cases "d_time ?n \<le> ck_ticks st")
    case True
    define st1 where "st1 = st\<lparr> ck_head := d_next ?n, ck_free := Some i,
      ck_nodes := (ck_nodes st)[i := ?n\<lparr> d_next := ck_free st \<rparr>] \<rparr>"
    have st1: "ck_lists st1 ws (i # fs)" "ck_ticks st1 = ck_ticks st"
      "map (waiter (ck_nodes st1)) ws = map (waiter (ck_nodes st)) ws"
      using lists by (simp_all add: ck_lists_def st1_def waits_chain_update waiter_update)
    have "wake_loop st outs = wake_loop st1 (outs @ [(d_client ?n, ck_ticks st, 4)])"
      using lists(2,3) True by (subst wake_loop.simps) (simp add: st1_def)
    then show ?thesis
      using Cons.IH [OF st1(1), of "outs @ [(d_client ?n, ck_ticks st, 4)]"] True st1(2,3)
      by (simp add: waiter_def [of _ i])
  next
    case False
    then have "wake_loop st outs = Some (Inr (outs, st))"
      using lists(2,3) by (subst wake_loop.simps) simp
    then show ?thesis
      using False Cons.prems by (intro exI [of _ st] exI [of _ "i # ws"] exI [of _ fs]) (simp add: waiter_def [of _ i])
  qed
qed

subsection \<open>The server implements the specification\<close>

lemma clock_init_ok:
  assumes "length backing = NUM_DELAYS"
  shows "clock_abs (clock_init backing) 0 []"
proof -
  have "chain (ck_nodes (clock_init backing)) (if k < NUM_DELAYS then Some k else None) [k..<NUM_DELAYS] None"
    if "k \<le> NUM_DELAYS" for k
    using that
  proof (induction rule: inc_induct)
    case (step k)
    have "d_next (ck_nodes (clock_init backing) ! k) = (if Suc k < NUM_DELAYS then Some (Suc k) else None)"
      using step(2) by (auto simp: clock_init_def)
    then show ?case using step by (simp add: upt_rec [of k]) (simp add: clock_init_def)
  qed simp
  from this [of 0] have "ck_lists (clock_init backing) [] [0..<NUM_DELAYS]"
    unfolding ck_lists_def by (simp add: clock_init_def NUM_DELAYS_def)
  then have "[] = map (waiter (ck_nodes (clock_init backing))) [] \<and> ck_lists (clock_init backing) [] [0..<NUM_DELAYS]"
    by simp
  then show ?thesis unfolding clock_abs_def by (auto simp: clock_init_def)
qed

lemma clock_delayuntil_ok:
  assumes "clock_abs st ticks waits"
  shows "case delayuntil_spec ticks waits client data of
      Inl e \<Rightarrow> clock_delayuntil st client data = Some (Inl e)
    | Inr (outs, ticks', waits') \<Rightarrow>
        \<exists>st'. clock_delayuntil st client data = Some (Inr (outs, st')) \<and> clock_abs st' ticks' waits'"
proof -
  obtain ws fs where st: "ck_ticks st = ticks" "sorted (map fst waits)" "ck_lists st ws fs"
    "waits = map (waiter (ck_nodes st)) ws"
    using assms by (auto simp: clock_abs_def)
  have len: "length waits + length fs = NUM_DELAYS" using st(3,4) by (simp add: ck_lists_def)
  consider "data \<le> ticks" | "ticks < data" "fs = []" | f fs' where "ticks < data" "fs = f # fs'"
    by (cases fs; cases "data \<le> ticks") auto
  then show ?thesis
  proof cases
    case 1
    then show ?thesis using assms st(1) by (simp add: delayuntil_spec_def clock_delayuntil_def)
  next
    case 2
    then have "ck_free st = None" using st(3) by (simp add: ck_lists_def)
    then show ?thesis
      using 2 st(1) len by (simp add: delayuntil_spec_def clock_delayuntil_def clock_wait_def)
  next
    case 3
    obtain st' ws' where st': "clock_wait st client data = Some (Inr st')" "ck_ticks st' = ck_ticks st"
      "ck_lists st' ws' fs'" "map (waiter (ck_nodes st')) ws' = wait_insert data client waits"
      unfolding st(4) by (rule clock_wait_ok [OF st(3) [unfolded 3(2)]])
    then have "clock_abs st' ticks (wait_insert data client waits)"
      using st(1,2) sorted_wait_insert unfolding clock_abs_def by metis
    moreover have "length waits < NUM_DELAYS" using len 3(2) by simp
    ultimately show ?thesis
      using 3(1) st(1) st'(1) by (simp add: delayuntil_spec_def clock_delayuntil_def)
  qed
qed

lemma clock_step_ok:
  assumes "clock_abs st ticks waits"
  shows "case clock_spec ticks waits (client, type, data) of
      Inl e \<Rightarrow> clock_step st client type data = Some (Inl e)
    | Inr (outs, ticks', waits') \<Rightarrow>
        \<exists>st'. clock_step st client type data = Some (Inr (outs, st')) \<and> clock_abs st' ticks' waits'"
proof -
  have t: "ck_ticks st = ticks" using assms by (simp add: clock_abs_def)
  show ?thesis
  proof (cases type)
    case TIME
    then show ?thesis using assms t by (simp add: clock_spec_def clock_step_def)
  next
    case DELAY
    consider "data < 0" | e where "\<not> data < 0" "cint (ticks + data) = Inl e"
      | "\<not> data < 0" "cint (ticks + data) = Inr (ticks + data)"
      unfolding cint_def by (cases "data < 0"; cases "- (2 ^ 31) \<le> ticks + data \<and> ticks + data < 2 ^ 31") simp_all
    then show ?thesis
    proof cases
      case 3
      then have "clock_spec ticks waits (client, type, data) = delayuntil_spec ticks waits client (ticks + data)"
        "clock_step st client type data = clock_delayuntil st client (ticks + data)"
        using DELAY t by (simp_all add: clock_spec_def clock_step_def)
      then show ?thesis
        using clock_delayuntil_ok [OF assms, of client "ticks + data"] by (simp only:)
    qed (use DELAY assms t in \<open>simp_all add: clock_spec_def clock_step_def\<close>)
  next
    case DELAYUNTIL
    then have "clock_spec ticks waits (client, type, data) = delayuntil_spec ticks waits client data"
      "clock_step st client type data = clock_delayuntil st client data"
      by (simp_all add: clock_spec_def clock_step_def)
    then show ?thesis using clock_delayuntil_ok [OF assms, of client data] by (simp only:)
  next
    case TICK
    show ?thesis
    proof (cases "cint (ticks + 1)")
      case (Inl e)
      then show ?thesis using TICK t by (simp add: clock_spec_def clock_step_def)
    next
      case (Inr t')
      obtain ws fs where st: "sorted (map fst waits)" "ck_lists st ws fs" "waits = map (waiter (ck_nodes st)) ws"
        using assms by (auto simp: clock_abs_def)
      have "ck_lists (st\<lparr> ck_ticks := t' \<rparr>) ws fs" using st(2) by (simp add: ck_lists_def)
      from wake_loop_ok [OF this, of "[(client, ticks, 0)]"] obtain st' ws' fs'
        where st': "wake_loop (st\<lparr> ck_ticks := t' \<rparr>) [(client, ticks, 0)] =
            Some (Inr ((client, ticks, 0) # map (\<lambda>w. (snd w, t', 4)) (takeWhile (\<lambda>w. fst w \<le> t') waits), st'))"
          "ck_ticks st' = t'" "ck_lists st' ws' fs'"
          "map (waiter (ck_nodes st')) ws' = dropWhile (\<lambda>w. fst w \<le> t') waits"
        using st(3) by auto
      have "sorted (map fst (dropWhile (\<lambda>w. fst w \<le> t') waits))"
        using st(1) by (metis dropWhile_eq_drop drop_map sorted_wrt_drop)
      then have "clock_abs st' t' (dropWhile (\<lambda>w. fst w \<le> t') waits)"
        using st'(2,3,4) unfolding clock_abs_def by metis
      then show ?thesis using TICK Inr t st'(1) by (simp add: clock_spec_def clock_step_def)
    qed
  qed
qed

text \<open>The specification over a sequence of requests.\<close>

fun clock_spec_run :: "int \<Rightarrow> (int \<times> int) list \<Rightarrow> request list \<Rightarrow> (reply list \<times> int \<times> (int \<times> int) list) cres" where
  "clock_spec_run ticks waits [] = Inr ([], ticks, waits)"
| "clock_spec_run ticks waits (req # reqs) =
     cbind (clock_spec ticks waits req) (\<lambda>(outs, ticks', waits').
     cbind (clock_spec_run ticks' waits' reqs) (\<lambda>(outs', final). Inr (outs @ outs', final)))"

lemma clock_run_ok:
  "clock_abs st ticks waits \<Longrightarrow>
     (case clock_spec_run ticks waits reqs of
        Inl e \<Rightarrow> clock_run st reqs = Some (Inl e)
      | Inr (outs, ticks', waits') \<Rightarrow>
          \<exists>st'. clock_run st reqs = Some (Inr (outs, st')) \<and> clock_abs st' ticks' waits')"
proof (induction reqs arbitrary: st ticks waits)
  case (Cons req reqs)
  obtain client type data where req: "req = (client, type, data)" by (cases req)
  show ?case
  proof (cases "clock_spec ticks waits req")
    case (Inl e)
    then show ?thesis using clock_step_ok [OF Cons.prems, of client type data] req by simp
  next
    case (Inr r)
    obtain outs ticks' waits' where r: "r = (outs, ticks', waits')" by (cases r)
    obtain st' where st': "clock_step st client type data = Some (Inr (outs, st'))" "clock_abs st' ticks' waits'"
      using clock_step_ok [OF Cons.prems, of client type data] req Inr r by auto
    show ?thesis
    proof (cases "clock_spec_run ticks' waits' reqs")
      case (Inl e)
      then show ?thesis using Cons.IH [OF st'(2)] st'(1) Inr r req by simp
    next
      case (Inr r')
      obtain outs' ticks'' waits'' where r': "r' = (outs', ticks'', waits'')" by (cases r')
      then obtain st'' where "clock_run st' reqs = Some (Inr (outs', st''))" "clock_abs st'' ticks'' waits''"
        using Cons.IH [OF st'(2)] Inr by auto
      then show ?thesis using st'(1) \<open>clock_spec ticks waits req = Inr r\<close> r r' Inr req by simp
    qed
  qed
qed simp



subsection \<open>A delay ends at its time\<close>

definition is_delay :: "request \<Rightarrow> bool" where
  "is_delay req \<longleftrightarrow> (case req of (_, type, _) \<Rightarrow> type = DELAY \<or> type = DELAYUNTIL)"

definition ticks_in :: "request list \<Rightarrow> int" where
  "ticks_in reqs = int (length (filter (\<lambda>(_, type, _). type = TICK) reqs))"

text \<open>Requests of other clients, with no time out of range.\<close>

definition other_requests :: "int \<Rightarrow> int \<Rightarrow> request list \<Rightarrow> bool" where
  "other_requests client ticks reqs \<longleftrightarrow>
     list_all (\<lambda>(c, type, data). c \<noteq> client \<and> ticks + int (length reqs) + data < 2 ^ 31) reqs"

lemma takeWhile_due: "sorted (map fst ws) \<Longrightarrow> takeWhile (\<lambda>w. fst w \<le> t) ws = filter (\<lambda>w. fst w \<le> t) ws"
  for t :: int
proof (induction ws)
  case (Cons w ws)
  then have "filter (\<lambda>w. fst w \<le> t) ws = []" if "\<not> fst w \<le> t"
    using that by (fastforce simp: filter_empty_conv)
  then show ?case using Cons by auto
qed simp

lemma dropWhile_due: "sorted (map fst ws) \<Longrightarrow> dropWhile (\<lambda>w. fst w \<le> t) ws = filter (\<lambda>w. t < fst w) ws"
  for t :: int
proof (induction ws)
  case (Cons w ws)
  then have "filter (\<lambda>w. t < fst w) ws = ws" if "\<not> fst w \<le> t"
    using that by (fastforce simp: filter_id_conv)
  then show ?case using Cons by auto
qed simp

lemma filter_wait_insert:
  "filter P (wait_insert time c waits) =
     filter P (takeWhile (\<lambda>w. fst w < time) waits) @ (if P (time, c) then [(time, c)] else []) @
     filter P (dropWhile (\<lambda>w. fst w < time) waits)"
  by (simp add: wait_insert_def)

lemma length_wait_insert: "length (wait_insert time c waits) = Suc (length waits)"
proof -
  have "length (takeWhile (\<lambda>w. fst w < time) waits) + length (dropWhile (\<lambda>w. fst w < time) waits) = length waits"
    by (metis length_append takeWhile_dropWhile_id)
  then show ?thesis by (simp add: wait_insert_def)
qed

lemma delayuntil_spec_frame:
  assumes "sorted (map fst waits)" "c \<noteq> client" "length waits < NUM_DELAYS"
  obtains outs waits' where "delayuntil_spec ticks waits c data = Inr (outs, ticks, waits')"
    "sorted (map fst waits')" "length waits' \<le> length waits + 1"
    "filter (\<lambda>w. snd w = client) waits' = filter (\<lambda>w. snd w = client) waits"
    "filter (\<lambda>r. fst r = client) outs = []"
proof (cases "data \<le> ticks")
  case False
  have "filter (\<lambda>w. snd w = client) (wait_insert data c waits) = filter (\<lambda>w. snd w = client) waits"
    using assms(2) by (simp add: filter_wait_insert flip: filter_append)
  then show ?thesis
    using that assms False by (simp add: delayuntil_spec_def length_wait_insert sorted_wait_insert)
qed (use that assms in \<open>simp add: delayuntil_spec_def\<close>)

text \<open>What one request of another client does to the entry of \<open>client\<close>, and to the size of the list.\<close>

lemma clock_spec_frame:
  assumes "sorted (map fst waits)" "c \<noteq> client" "0 \<le> ticks" "ticks + 1 < 2 ^ 31" "ticks + data < 2 ^ 31"
    and "length waits + length (filter is_delay [(c, type, data)]) \<le> NUM_DELAYS"
  obtains outs ticks' waits' where "clock_spec ticks waits (c, type, data) = Inr (outs, ticks', waits')"
    "sorted (map fst waits')" "ticks' = ticks + ticks_in [(c, type, data)]"
    "length waits' \<le> length waits + length (filter is_delay [(c, type, data)])"
    "filter (\<lambda>w. snd w = client) waits' = filter (\<lambda>w. snd w = client \<and> (type = TICK \<longrightarrow> ticks' < fst w)) waits"
    "filter (\<lambda>r. fst r = client) outs =
       (if type = TICK then map (\<lambda>w. (client, ticks', 4)) (filter (\<lambda>w. snd w = client \<and> fst w \<le> ticks') waits) else [])"
proof -
  consider "type = TIME" | "type = DELAY" "data < 0" | "type = DELAY" "0 \<le> data" | "type = DELAYUNTIL" | "type = TICK"
    by (cases type; cases "data < 0") simp_all
  then show ?thesis
  proof cases
    case 3
    then have "cint (ticks + data) = Inr (ticks + data)" using assms(3,5) by (simp add: cint_def)
    then have step: "clock_spec ticks waits (c, type, data) = delayuntil_spec ticks waits c (ticks + data)"
      using 3 by (simp add: clock_spec_def)
    obtain outs waits' where "delayuntil_spec ticks waits c (ticks + data) = Inr (outs, ticks, waits')"
      "sorted (map fst waits')" "length waits' \<le> length waits + 1"
      "filter (\<lambda>w. snd w = client) waits' = filter (\<lambda>w. snd w = client) waits"
      "filter (\<lambda>r. fst r = client) outs = []"
      by (rule delayuntil_spec_frame [OF assms(1,2)]) (use assms(6) 3 in \<open>simp_all add: is_delay_def\<close>)
    then show ?thesis using step 3 by (intro that [of outs ticks waits']) (simp_all add: is_delay_def ticks_in_def)
  next
    case 4
    then have step: "clock_spec ticks waits (c, type, data) = delayuntil_spec ticks waits c data"
      by (simp add: clock_spec_def)
    obtain outs waits' where "delayuntil_spec ticks waits c data = Inr (outs, ticks, waits')"
      "sorted (map fst waits')" "length waits' \<le> length waits + 1"
      "filter (\<lambda>w. snd w = client) waits' = filter (\<lambda>w. snd w = client) waits"
      "filter (\<lambda>r. fst r = client) outs = []"
      by (rule delayuntil_spec_frame [OF assms(1,2)]) (use assms(6) 4 in \<open>simp_all add: is_delay_def\<close>)
    then show ?thesis using step 4 by (intro that [of outs ticks waits']) (simp_all add: is_delay_def ticks_in_def)
  next
    case 5
    let ?t = "ticks + 1"
    have "cint ?t = Inr ?t" using assms(3,4) by (simp add: cint_def)
    then have step: "clock_spec ticks waits (c, type, data) =
        Inr ((c, ticks, 0) # map (\<lambda>w. (snd w, ?t, 4)) (filter (\<lambda>w. fst w \<le> ?t) waits), ?t, filter (\<lambda>w. ?t < fst w) waits)"
      using 5 assms(1) by (simp add: clock_spec_def takeWhile_due dropWhile_due)
    show ?thesis
      using 5 assms(1,2)
      by (intro that [OF step])
         (auto simp: ticks_in_def filter_map comp_def sorted_filter is_delay_def conj_commute
            intro: le_SucI order_trans [OF length_filter_le] intro!: map_cong)
  qed (use assms in \<open>auto intro!: that simp: clock_spec_def ticks_in_def\<close>)
qed

lemma ticks_in_Cons: "ticks_in (req # reqs) = ticks_in [req] + ticks_in reqs"
  by (simp add: ticks_in_def split: prod.splits)

lemma ticks_in_nonneg: "0 \<le> ticks_in reqs"
  by (simp add: ticks_in_def)

lemma clock_spec_run_frame:
  assumes "sorted (map fst waits)" "0 \<le> ticks" "ticks + int (length reqs) < 2 ^ 31"
    and "other_requests client ticks reqs" "length waits + length (filter is_delay reqs) \<le> NUM_DELAYS"
    and "filter (\<lambda>w. snd w = client) waits = ents" "ents = [] \<or> ents = [(t, client)] \<and> ticks < t"
  shows "\<exists>outs final. clock_spec_run ticks waits reqs = Inr (outs, final) \<and>
    filter (\<lambda>r. fst r = client) outs =
      (if ents = [] \<or> ticks + ticks_in reqs < t then [] else [(client, t, 4)])"
  using assms
proof (induction reqs arbitrary: ticks waits ents)
  case Nil
  then show ?case by (auto simp: ticks_in_def)
next
  case (Cons req reqs)
  obtain c type data where req: "req = (c, type, data)" by (cases req)
  have c: "c \<noteq> client" "ticks + data < 2 ^ 31" "ticks + 1 < 2 ^ 31"
    using Cons.prems(3,4) req by (auto simp: other_requests_def)
  have room: "length waits + length (filter is_delay [(c, type, data)]) \<le> NUM_DELAYS"
    using Cons.prems(5) req by (simp split: if_splits)
  obtain outs ticks' waits' where step: "clock_spec ticks waits (c, type, data) = Inr (outs, ticks', waits')"
    "sorted (map fst waits')" "ticks' = ticks + ticks_in [(c, type, data)]"
    "length waits' \<le> length waits + length (filter is_delay [(c, type, data)])"
    "filter (\<lambda>w. snd w = client) waits' = filter (\<lambda>w. snd w = client \<and> (type = TICK \<longrightarrow> ticks' < fst w)) waits"
    "filter (\<lambda>r. fst r = client) outs =
       (if type = TICK then map (\<lambda>w. (client, ticks', 4)) (filter (\<lambda>w. snd w = client \<and> fst w \<le> ticks') waits) else [])"
    by (rule clock_spec_frame [OF Cons.prems(1) c(1) Cons.prems(2) c(3,2) room])
  have ticks': "ticks \<le> ticks'" "ticks' \<le> ticks + 1" "type = TICK \<longrightarrow> ticks' = ticks + 1" "type \<noteq> TICK \<longrightarrow> ticks' = ticks"
    using step(3) by (auto simp: ticks_in_def)
  define ents' where "ents' = filter (\<lambda>w. snd w = client) waits'"
  have ents': "ents' = filter (\<lambda>w. type = TICK \<longrightarrow> ticks' < fst w) ents"
    unfolding ents'_def step(5) Cons.prems(6) [symmetric] by (simp add: conj_commute)
  have due: "filter (\<lambda>r. fst r = client) outs =
      (if type = TICK then map (\<lambda>w. (client, ticks', 4)) (filter (\<lambda>w. fst w \<le> ticks') ents) else [])"
    unfolding step(6) Cons.prems(6) [symmetric] by (simp add: conj_commute)
  have "\<exists>outs final. clock_spec_run ticks' waits' reqs = Inr (outs, final) \<and>
      filter (\<lambda>r. fst r = client) outs =
        (if ents' = [] \<or> ticks' + ticks_in reqs < t then [] else [(client, t, 4)])"
  proof (rule Cons.IH [OF step(2)])
    show "other_requests client ticks' reqs"
      using Cons.prems(4) ticks' by (auto simp: other_requests_def list_all_iff)
    show "length waits' + length (filter is_delay reqs) \<le> NUM_DELAYS"
      using Cons.prems(5) step(4) req by (simp split: if_splits)
    show "ents' = [] \<or> ents' = [(t, client)] \<and> ticks' < t"
      using Cons.prems(7) ticks' unfolding ents' by (cases "type = TICK") (auto split: if_splits)
  qed (use Cons.prems(2,3) ticks' ents'_def in auto)
  then obtain outs' final where rest: "clock_spec_run ticks' waits' reqs = Inr (outs', final)"
    "filter (\<lambda>r. fst r = client) outs' =
        (if ents' = [] \<or> ticks' + ticks_in reqs < t then [] else [(client, t, 4)])"
    by blast
  have total: "ticks + ticks_in (req # reqs) = ticks' + ticks_in reqs"
    using step(3) req ticks_in_Cons [of req reqs] by simp
  have "filter (\<lambda>r. fst r = client) (outs @ outs') =
      (if ents = [] \<or> ticks + ticks_in (req # reqs) < t then [] else [(client, t, 4)])"
    unfolding filter_append due rest(2) total
    using Cons.prems(7) ticks' ticks_in_nonneg [of reqs] ents' by (cases "type = TICK") (auto split: if_splits)
  then show ?case using step(1) rest(1) req by simp
qed

text \<open>
  C25: A client that asks for a delay of \<open>d > 0\<close> ticks is answered exactly once, in the \<open>d\<close>-th tick that
  follows and with the time of that tick, whatever other clients ask for meanwhile: after any sequence of
  other requests it has one answer when \<open>d\<close> ticks are among them, and none otherwise. The server
  meets no fault as long as fifty nodes are enough and no time overflows.
\<close>

theorem delay_ends_in_time:
  assumes "clock_abs st ticks waits" "client \<notin> snd ` set waits" "0 \<le> ticks" "0 < d"
    and "ticks + d + int (length reqs) < 2 ^ 31" "other_requests client ticks reqs"
    and "length waits + 1 + length (filter is_delay reqs) \<le> NUM_DELAYS"
  shows "\<exists>outs st'. clock_run st ((client, Delay d) # reqs) = Some (Inr (outs, st')) \<and>
    filter (\<lambda>r. fst r = client) outs = (if ticks_in reqs < d then [] else [(client, ticks + d, 4)])"
proof -
  have sorted: "sorted (map fst waits)" using assms(1) by (simp add: clock_abs_def)
  have "cint (ticks + d) = Inr (ticks + d)" using assms(3,4,5) by (simp add: cint_def)
  then have first: "clock_spec ticks waits (client, Delay d) = Inr ([], ticks, wait_insert (ticks + d) client waits)"
    using assms(4,7) by (simp add: clock_spec_def Delay_def delayuntil_spec_def)
  have none: "filter (\<lambda>w. snd w = client) ws = []" if "set ws \<subseteq> set waits" for ws
    using assms(2) that by (auto simp: filter_empty_conv image_iff)
  have "filter (\<lambda>w. snd w = client) (wait_insert (ticks + d) client waits) = [(ticks + d, client)]"
    unfolding filter_wait_insert
    by (subst none, fastforce dest: set_takeWhileD, subst none, fastforce dest: set_dropWhileD, simp)
  from clock_spec_run_frame [OF sorted_wait_insert [OF sorted] assms(3) _ assms(6) _ this, of "ticks + d"]
  obtain outs final where rest: "clock_spec_run ticks (wait_insert (ticks + d) client waits) reqs = Inr (outs, final)"
    "filter (\<lambda>r. fst r = client) outs = (if ticks_in reqs < d then [] else [(client, ticks + d, 4)])"
    using assms(4,5,7) by (auto simp: length_wait_insert)
  then have "clock_spec_run ticks waits ((client, Delay d) # reqs) = Inr (outs, final)"
    using first by simp
  then obtain st' where "clock_run st ((client, Delay d) # reqs) = Some (Inr (outs, st'))"
    using clock_run_ok [OF assms(1), of "(client, Delay d) # reqs"] by (cases final) auto
  then show ?thesis using rest(2) by blast
qed

theorem delay_ends_in_time_witness:
  "\<exists>outs st'. clock_run (clock_init (replicate NUM_DELAYS \<lparr> d_client = 0, d_time = 0, d_next = None \<rparr>))
      [(7, Delay 2), (8, DELAYUNTIL, 1), (3, TICK, 0), (9, TIME, 0), (3, TICK, 0)] = Some (Inr (outs, st')) \<and>
    filter (\<lambda>r. fst r = 7) outs = [(7, 2, 4)]"
proof -
  have "other_requests 7 0 [(8, DELAYUNTIL, 1), (3, TICK, 0), (9, TIME, 0), (3, TICK, 0)]"
    by (simp add: other_requests_def)
  moreover have "clock_abs (clock_init (replicate NUM_DELAYS \<lparr> d_client = 0, d_time = 0, d_next = None \<rparr>)) 0 []"
    by (rule clock_init_ok) simp
  ultimately show ?thesis
    using delay_ends_in_time [of _ 0 "[]" 7 2 "[(8, DELAYUNTIL, 1), (3, TICK, 0), (9, TIME, 0), (3, TICK, 0)]"]
    by (simp add: is_delay_def ticks_in_def NUM_DELAYS_def)
qed

end
