(* ===== verification/Uartserver.thy ===== *)
theory Uartserver
  imports Circular_Buffer Scheduler
begin

section \<open>The serial line servers (src/user/uartserver.c)\<close>

text \<open>
  Three servers own the serial lines. A client that writes becomes the owner of the line until it
  releases it; the others wait in a queue, with the character they want to write kept
  by tid. Each server's loop body is a step from its state, the client, the request and what the
  hardware reports, to the characters written to the line and the replies sent, in order.
\<close>

datatype uartserver_request_type =
  NOTIFIER_TX_GOOD | NOTIFIER_RX_GOOD | SEND_CHAR | GET_CHAR | RELEASE_LOCK

datatype uart_act = Put "8 word" | Answer int int

definition MAX_CAPACITY :: nat where "MAX_CAPACITY = 100"

subsection \<open>Sending to the terminal\<close>

record uart2_tx =
  tx_parking :: int
  tx_lock :: "int circular_buffer"
  tx_chars :: "8 word list"
  tx_owner :: int

text \<open>\<open>stack\<close> is what \<open>char_buffer\<close> held: only its first hundred bytes are cleared.\<close>

definition uart2_tx_init :: "8 word list \<Rightarrow> uart2_tx" where
  "uart2_tx_init stack =
     \<lparr> tx_parking = -1, tx_lock = cb_init 0 MAX_CAPACITY,
       tx_chars = replicate MAX_CAPACITY 0 @ drop MAX_CAPACITY stack, tx_owner = -1 \<rparr>"

definition unpark_com2_tx_notifier :: "uart2_tx \<Rightarrow> uart_act list \<times> uart2_tx" where
  "unpark_com2_tx_notifier st =
     (if tx_parking st \<noteq> -1 then ([Answer (tx_parking st) 0], st\<lparr> tx_parking := -1 \<rparr>) else ([], st))"

definition uart2_tx_notified :: "uart2_tx \<Rightarrow> int \<Rightarrow> (uart_act list \<times> uart2_tx) cres" where
  "uart2_tx_notified st client =
     (let st1 = st\<lparr> tx_parking := client \<rparr> in
      if tx_owner st = -1 then Inr ([], st1)
      else cbind (rdi (tx_chars st) (tx_owner st)) (\<lambda>c.
        if c \<noteq> 0 then
          cbind (wri (tx_chars st) (tx_owner st) 0) (\<lambda>cs.
            Inr ([Put c, Answer (tx_owner st) 0], st1\<lparr> tx_chars := cs \<rparr>))
        else Inr ([], st1)))"

definition uart2_tx_send :: "uart2_tx \<Rightarrow> int \<Rightarrow> 8 word \<Rightarrow> bool \<Rightarrow> (uart_act list \<times> uart2_tx) cres" where
  "uart2_tx_send st client send_char can_write =
     (if tx_owner st = client \<or> tx_owner st = -1 then
        let st1 = (if tx_owner st = -1 then st\<lparr> tx_owner := client \<rparr> else st) in
        if can_write then Inr ([Put send_char, Answer (tx_owner st1) 0], st1)
        else cbind (wri (tx_chars st1) (tx_owner st1) send_char) (\<lambda>cs.
               Inr (unpark_com2_tx_notifier (st1\<lparr> tx_chars := cs \<rparr>)))
      else
        cbind (cb_push_back (tx_lock st) client False) (\<lambda>(lock, _).
        cbind (wri (tx_chars st) client send_char) (\<lambda>cs.
          Inr ([], st\<lparr> tx_lock := lock, tx_chars := cs \<rparr>))))"

definition uart2_tx_release :: "uart2_tx \<Rightarrow> int \<Rightarrow> (uart_act list \<times> uart2_tx) cres" where
  "uart2_tx_release st client =
     cbind (kassert (tx_owner st = client) ''Uart 2 You must own the lock to uart'') (\<lambda>_.
     cbind (cb_pop_front (tx_lock st)) (\<lambda>(lock, status, item).
       let owner = (case item of Some t \<Rightarrow> t | None \<Rightarrow> tx_owner st);
           st1 = st\<lparr> tx_lock := lock, tx_owner := if status = CB_EMPTY then -1 else owner \<rparr>;
           (outs, st2) = unpark_com2_tx_notifier st1
       in Inr (outs @ [Answer client 0], st2)))"

definition uart2_tx_step ::
  "uart2_tx \<Rightarrow> int \<Rightarrow> uartserver_request_type \<Rightarrow> int \<Rightarrow> bool \<Rightarrow> (uart_act list \<times> uart2_tx) cres" where
  "uart2_tx_step st client type data can_write =
     (case type of
        NOTIFIER_TX_GOOD \<Rightarrow> uart2_tx_notified st client
      | SEND_CHAR \<Rightarrow> uart2_tx_send st client (word_of_int data) can_write
      | RELEASE_LOCK \<Rightarrow> uart2_tx_release st client
      | _ \<Rightarrow> Inr ([], st))"

subsection \<open>Receiving from the terminal\<close>

text \<open>The state is \<open>waiting\<close>; \<open>received\<close> is the character on the line, if one can be read.\<close>

definition uart2_rx_step ::
  "int \<Rightarrow> int \<Rightarrow> int \<Rightarrow> uartserver_request_type \<Rightarrow> bool \<Rightarrow> 8 word \<Rightarrow> (uart_act list \<times> int) cres" where
  "uart2_rx_step notifier_tid waiting client type can_read received =
     (case type of
        NOTIFIER_RX_GOOD \<Rightarrow>
          if waiting \<noteq> -1 then Inr ([Answer waiting (uint received)], -1) else Inr ([], waiting)
      | GET_CHAR \<Rightarrow>
          if can_read then Inr ([Answer client (uint received)], waiting)
          else Inr ([Answer notifier_tid 0], client)
      | _ \<Rightarrow> Inl (Assert_Failed ''Invalid RX server request type''))"

subsection \<open>The line to the trains\<close>

record uart1 =
  u_tx :: int
  u_rx :: int
  u_lock :: "int circular_buffer"
  u_owner :: int
  u_can_send :: bool
  u_want_send :: bool
  u_chars :: "8 word list"

definition uart1_init :: "int \<Rightarrow> int \<Rightarrow> 8 word list \<Rightarrow> uart1" where
  "uart1_init tx rx stack =
     \<lparr> u_tx = tx, u_rx = rx, u_lock = cb_init 0 MAX_NUM_TASKS, u_owner = -1,
       u_can_send = True, u_want_send = False, u_chars = stack \<rparr>"

definition uart1_tx_good :: "uart1 \<Rightarrow> int \<Rightarrow> (uart_act list \<times> uart1) cres" where
  "uart1_tx_good st client =
     (if u_want_send st then
        cbind (rdi (u_chars st) (u_owner st)) (\<lambda>c.
          Inr ([Put c, Answer client 0, Answer (u_owner st) 0], st\<lparr> u_want_send := False \<rparr>))
      else Inr ([], st\<lparr> u_can_send := True \<rparr>))"

definition uart1_send :: "uart1 \<Rightarrow> int \<Rightarrow> 8 word \<Rightarrow> (uart_act list \<times> uart1) cres" where
  "uart1_send st client c =
     (let st1 = (if u_owner st = -1 then st\<lparr> u_owner := client \<rparr> else st) in
      if u_owner st1 = client then
        if u_can_send st1
        then Inr ([Put c, Answer (u_tx st1) 0, Answer client 0], st1\<lparr> u_can_send := False \<rparr>)
        else cbind (wri (u_chars st1) (u_owner st1) c) (\<lambda>cs.
               Inr ([], st1\<lparr> u_want_send := True, u_chars := cs \<rparr>))
      else
        cbind (cb_push_back (u_lock st1) client False) (\<lambda>(lock, _).
        cbind (wri (u_chars st1) client c) (\<lambda>cs.
          Inr ([], st1\<lparr> u_lock := lock, u_chars := cs \<rparr>))))"

definition uart1_release :: "uart1 \<Rightarrow> int \<Rightarrow> (uart_act list \<times> uart1) cres" where
  "uart1_release st client =
     cbind (kassert (u_owner st = client) ''Uart 1 You must own the lock to uart'') (\<lambda>_.
     cbind (cb_pop_front (u_lock st)) (\<lambda>(lock, status, item).
       let st1 = st\<lparr> u_lock := lock \<rparr>;
           owner = (case item of Some t \<Rightarrow> t | None \<Rightarrow> u_owner st)
       in cbind
            (if status = CB_EMPTY then Inr ([], st1\<lparr> u_owner := -1 \<rparr>)
             else if u_can_send st then
               cbind (rdi (u_chars st) owner) (\<lambda>c.
                 Inr ([Put c, Answer (u_tx st) 0, Answer owner 0],
                      st1\<lparr> u_owner := owner, u_can_send := False \<rparr>))
             else Inr ([], st1\<lparr> u_owner := owner, u_want_send := True \<rparr>)) (\<lambda>(outs, st2).
          Inr (outs @ [Answer client 0], st2))))"

definition uart1_step ::
  "uart1 \<Rightarrow> int \<Rightarrow> uartserver_request_type \<Rightarrow> int \<Rightarrow> bool \<Rightarrow> 8 word \<Rightarrow> (uart_act list \<times> uart1) cres" where
  "uart1_step st client type data can_read received =
     (case type of
        NOTIFIER_TX_GOOD \<Rightarrow> uart1_tx_good st client
      | NOTIFIER_RX_GOOD \<Rightarrow> if u_owner st \<noteq> -1 then Inr ([Answer (u_owner st) data], st) else Inr ([], st)
      | SEND_CHAR \<Rightarrow> uart1_send st client (word_of_int data)
      | GET_CHAR \<Rightarrow>
          if can_read then Inr ([Answer (u_owner st) (uint received)], st)
          else Inr ([Answer (u_rx st) 0], st)
      | RELEASE_LOCK \<Rightarrow> uart1_release st client)"

subsection \<open>The clients\<close>

definition Putc :: "8 word \<Rightarrow> uartserver_request_type \<times> int" where "Putc ch = (SEND_CHAR, uint ch)"
definition Getc :: "uartserver_request_type \<times> int" where "Getc = (GET_CHAR, 0)"
definition ReleaseUartLock :: "uartserver_request_type \<times> int" where "ReleaseUartLock = (RELEASE_LOCK, 0)"

text \<open>The requests of the notifiers; the receiving one of COM1 carries the character it has read.\<close>

definition uart_com2_tx_notifier :: "uartserver_request_type \<times> int" where "uart_com2_tx_notifier = (NOTIFIER_TX_GOOD, 0)"
definition uart_com1_tx_notifier :: "uartserver_request_type \<times> int" where "uart_com1_tx_notifier = (NOTIFIER_TX_GOOD, 0)"
definition uart_com1_rx_notifier :: "8 word \<Rightarrow> uartserver_request_type \<times> int" where
  "uart_com1_rx_notifier c = (NOTIFIER_RX_GOOD, uint c)"
definition uart_com2_rx_notifier :: "uartserver_request_type \<times> int" where "uart_com2_rx_notifier = (NOTIFIER_RX_GOOD, 0)"

subsection \<open>The terminal server keeps the characters of its clients in order\<close>

text \<open>
  Clients with tids below 100: only their entries of \<open>char_buffer\<close> are cleared, and the queue holds
  a hundred. A character kept for a client is not 0, which stands for no character.
\<close>

definition waiting :: "8 word list \<Rightarrow> int set" where
  "waiting chars = {c. 0 \<le> c \<and> c < int MAX_CAPACITY \<and> chars ! nat c \<noteq> 0}"

definition tx_ok :: "uart2_tx \<Rightarrow> bool" where
  "tx_ok st \<longleftrightarrow> cb_inv (tx_lock st) \<and> cb_capacity (tx_lock st) = MAX_CAPACITY \<and> MAX_CAPACITY \<le> length (tx_chars st) \<and>
     distinct (cb_items (tx_lock st)) \<and> waiting (tx_chars st) - {tx_owner st} = set (cb_items (tx_lock st)) \<and>
     (tx_owner st = -1 \<and> cb_items (tx_lock st) = [] \<or> 0 \<le> tx_owner st \<and> tx_owner st < int MAX_CAPACITY) \<and>
     (tx_owner st \<in> waiting (tx_chars st) \<longrightarrow> tx_parking st = -1)"

text \<open>What the kernel lets a client send: nothing while it waits for an answer; and the protocol of the lock.\<close>

definition tx_allowed :: "uart2_tx \<Rightarrow> int \<times> uartserver_request_type \<times> int \<times> bool \<Rightarrow> bool" where
  "tx_allowed st req \<longleftrightarrow> (case req of (client, type, data, can_write) \<Rightarrow>
     (type = SEND_CHAR \<longrightarrow> 0 \<le> client \<and> client < int MAX_CAPACITY \<and> (word_of_int data :: 8 word) \<noteq> 0 \<and>
        tx_chars st ! nat client = 0) \<and>
     (type = RELEASE_LOCK \<longrightarrow> client = tx_owner st \<and> 0 \<le> client \<and> client < int MAX_CAPACITY \<and> tx_chars st ! nat client = 0))"

text \<open>The characters kept for a client, sent by it, and written for it: a written character is answered next.\<close>

definition tx_kept :: "uart2_tx \<Rightarrow> int \<Rightarrow> 8 word list" where
  "tx_kept st c = (if tx_chars st ! nat c = 0 then [] else [tx_chars st ! nat c])"

definition sent_by :: "int \<Rightarrow> (int \<times> uartserver_request_type \<times> int \<times> bool) list \<Rightarrow> 8 word list" where
  "sent_by c reqs = map (\<lambda>(_, _, data, _). word_of_int data) (filter (\<lambda>(client, type, _). client = c \<and> type = SEND_CHAR) reqs)"

fun written :: "uart_act list \<Rightarrow> (int \<times> 8 word) list" where
  "written (Put ch # Answer c i # outs) = (c, ch) # written outs"
| "written (_ # outs) = written outs"
| "written [] = []"

definition written_for :: "int \<Rightarrow> uart_act list \<Rightarrow> 8 word list" where
  "written_for c outs = map snd (filter (\<lambda>(client, ch). client = c) (written outs))"

lemma tx_init_ok: "MAX_CAPACITY \<le> length stack \<Longrightarrow> tx_ok (uart2_tx_init stack)"
proof -
  have "nat c < MAX_CAPACITY" if "0 \<le> c" "c < int MAX_CAPACITY" for c using that by linarith
  then have "waiting (replicate MAX_CAPACITY 0 @ drop MAX_CAPACITY stack) = {}"
    by (auto simp: waiting_def nth_append)
  then show "MAX_CAPACITY \<le> length stack \<Longrightarrow> tx_ok (uart2_tx_init stack)"
    by (simp add: tx_ok_def uart2_tx_init_def cb_init_inv MAX_CAPACITY_def)
qed

lemma tx_unpark:
  "tx_owner (snd (unpark_com2_tx_notifier st)) = tx_owner st"
  "tx_lock (snd (unpark_com2_tx_notifier st)) = tx_lock st"
  "tx_chars (snd (unpark_com2_tx_notifier st)) = tx_chars st"
  "tx_parking (snd (unpark_com2_tx_notifier st)) = -1"
  "written (fst (unpark_com2_tx_notifier st)) = []"
  "\<exists>t. fst (unpark_com2_tx_notifier st) \<in> {[], [Answer t 0]}"
  by (auto simp: unpark_com2_tx_notifier_def)

text \<open>What a step does: who owns the line, who is written for, what is kept.\<close>

definition tx_step_ok :: "uart2_tx \<Rightarrow> int \<times> uartserver_request_type \<times> int \<times> bool \<Rightarrow> uart_act list \<Rightarrow> uart2_tx \<Rightarrow> bool" where
  "tx_step_ok st req outs st' \<longleftrightarrow> tx_ok st' \<and> (\<forall>(c, ch) \<in> set (written outs). c = tx_owner st') \<and>
     (tx_owner st \<noteq> -1 \<and> fst (snd req) \<noteq> RELEASE_LOCK \<longrightarrow> tx_owner st' = tx_owner st) \<and>
     (\<forall>c. 0 \<le> c \<and> c < int MAX_CAPACITY \<longrightarrow>
        written_for c outs @ tx_kept st' c = tx_kept st c @ sent_by c [req])"

lemma char_upd:
  "0 \<le> (o' :: int) \<Longrightarrow> 0 \<le> c \<Longrightarrow> nat o' < length xs \<Longrightarrow> xs[nat o' := x] ! nat c = (if c = o' then x else xs ! nat c)"
  by (simp add: nth_list_update eq_nat_nat_iff)

lemma waiting_upd:
  assumes "0 \<le> c" "c < int MAX_CAPACITY" "nat c < length chars"
  shows "waiting (chars[nat c := x]) = (if x = 0 then waiting chars - {c} else insert c (waiting chars))"
  using assms by (auto simp: waiting_def char_upd split: if_splits)

lemma waiting_bound: "c \<in> waiting chars \<Longrightarrow> 0 \<le> c \<and> c < int MAX_CAPACITY"
  by (simp add: waiting_def)

lemma tx_okD:
  assumes "tx_ok st"
  shows "cb_inv (tx_lock st)" "cb_capacity (tx_lock st) = MAX_CAPACITY" "MAX_CAPACITY \<le> length (tx_chars st)"
    "distinct (cb_items (tx_lock st))" "waiting (tx_chars st) - {tx_owner st} = set (cb_items (tx_lock st))"
    "tx_owner st = -1 \<Longrightarrow> cb_items (tx_lock st) = []"
    "tx_owner st \<noteq> -1 \<Longrightarrow> 0 \<le> tx_owner st \<and> tx_owner st < int MAX_CAPACITY"
    "tx_owner st \<in> waiting (tx_chars st) \<Longrightarrow> tx_parking st = -1"
  using assms by (simp_all add: tx_ok_def)

lemma tx_owner_out: "tx_ok st \<Longrightarrow> tx_owner st \<notin> set (cb_items (tx_lock st))"
  using tx_okD(5) by blast

lemma tx_chars_len: "tx_ok st \<Longrightarrow> 0 \<le> c \<Longrightarrow> c < int MAX_CAPACITY \<Longrightarrow> nat c < length (tx_chars st)"
  unfolding tx_ok_def by linarith

lemma tx_owner_ok:
  assumes "tx_ok st" "tx_owner st \<noteq> -1"
  shows "0 \<le> tx_owner st" "tx_owner st < int MAX_CAPACITY" "nat (tx_owner st) < length (tx_chars st)"
  using tx_okD(7) [OF assms] tx_chars_len [OF assms(1)] by blast+

lemma tx_notified_ok:
  assumes st: "tx_ok st"
  obtains outs st' where "uart2_tx_notified st client = Inr (outs, st')"
    "tx_step_ok st (client, NOTIFIER_TX_GOOD, data, w) outs st'"
proof (cases "tx_owner st \<in> waiting (tx_chars st)")
  case False
  have "uart2_tx_notified st client = Inr ([], st\<lparr> tx_parking := client \<rparr>)"
    using tx_owner_ok [OF st] False
    by (cases "tx_owner st = -1") (auto simp: uart2_tx_notified_def rdi_def waiting_def Let_def)
  moreover have "tx_ok (st\<lparr> tx_parking := client \<rparr>)"
    using st False by (simp add: tx_ok_def)
  ultimately show ?thesis
    by (intro that) (auto simp: tx_step_ok_def written_for_def tx_kept_def sent_by_def)
next
  case True
  define o' where "o' = tx_owner st"
  have o: "0 \<le> o'" "o' < int MAX_CAPACITY" "nat o' < length (tx_chars st)" "tx_chars st ! nat o' \<noteq> 0" "o' \<noteq> -1"
    using True tx_chars_len [OF st] by (auto simp: o'_def waiting_def)
  let ?st' = "st\<lparr> tx_parking := client, tx_chars := (tx_chars st)[nat o' := 0] \<rparr>"
  have run: "uart2_tx_notified st client = Inr ([Put (tx_chars st ! nat o'), Answer o' 0], ?st')"
    using o by (simp add: uart2_tx_notified_def rdi_def wri_def o'_def [symmetric] Let_def)
  have "tx_ok ?st'"
    using st waiting_upd [OF o(1,2,3), of 0] tx_owner_out [OF st]
    unfolding tx_ok_def uart2_tx.simps o'_def by simp
  moreover have "written_for c [Put (tx_chars st ! nat o'), Answer o' 0] @ tx_kept ?st' c =
      tx_kept st c @ sent_by c [(client, NOTIFIER_TX_GOOD, data, w)]" if "0 \<le> c" for c
    using o that by (auto simp: written_for_def tx_kept_def sent_by_def char_upd)
  ultimately have "tx_step_ok st (client, NOTIFIER_TX_GOOD, data, w) [Put (tx_chars st ! nat o'), Answer o' 0] ?st'"
    unfolding tx_step_ok_def by (auto simp: o'_def)
  then show ?thesis by (rule that [OF run])
qed

text \<open>A client that does not wait becomes the owner of a free line and writes, or keeps its character for later.\<close>

lemma tx_send_owner_ok:
  assumes st: "tx_ok st" and owner: "tx_owner st = client \<or> tx_owner st = -1"
    and allowed: "tx_allowed st (client, SEND_CHAR, data, w)"
  obtains outs st' where "uart2_tx_send st client (word_of_int data) w = Inr (outs, st')"
    "tx_step_ok st (client, SEND_CHAR, data, w) outs st'"
proof -
  define st1 where "st1 = st\<lparr> tx_owner := client \<rparr>"
  have st1_if: "(if tx_owner st = -1 then st\<lparr> tx_owner := client \<rparr> else st) = st1"
    using owner by (auto simp: st1_def)
  let ?ch = "word_of_int data :: 8 word"
  have a: "0 \<le> client" "client < int MAX_CAPACITY" "?ch \<noteq> 0" "tx_chars st ! nat client = 0"
    using allowed by (auto simp: tx_allowed_def)
  have free: "client \<notin> waiting (tx_chars st)" using a(4) by (simp add: waiting_def)
  have "tx_owner st \<notin> waiting (tx_chars st)" using free owner by (auto simp: waiting_def)
  then have ok: "tx_ok st1" and out: "tx_owner st \<notin> waiting (tx_chars st)"
    using st a free unfolding tx_ok_def st1_def uart2_tx.simps by auto
  show ?thesis
  proof (cases w)
    case True
    then have "uart2_tx_send st client ?ch w = Inr ([Put ?ch, Answer client 0], st1)"
      using owner st1_if by (simp add: uart2_tx_send_def) (simp add: st1_def Let_def)
    moreover have "tx_step_ok st (client, SEND_CHAR, data, w) [Put ?ch, Answer client 0] st1"
      using ok a owner by (auto simp: tx_step_ok_def written_for_def tx_kept_def sent_by_def st1_def)
    ultimately show ?thesis by (rule that)
  next
    case False
    define st2 where "st2 = st1\<lparr> tx_chars := (tx_chars st)[nat client := ?ch] \<rparr>"
    have len: "nat client < length (tx_chars st)" using tx_chars_len [OF st] a by simp
    have "uart2_tx_send st client ?ch w = Inr (unpark_com2_tx_notifier st2)"
      using False owner st1_if a len by (simp add: uart2_tx_send_def) (simp add: st1_def st2_def Let_def wri_def)
    then have send: "uart2_tx_send st client ?ch w =
        Inr (fst (unpark_com2_tx_notifier st2), snd (unpark_com2_tx_notifier st2))" by simp
    have "tx_ok (snd (unpark_com2_tx_notifier st2))"
      using ok waiting_upd [OF a(1,2) len, of ?ch] a(3) free
      unfolding tx_ok_def tx_unpark st2_def st1_def uart2_tx.simps by simp
    moreover have "tx_kept (snd (unpark_com2_tx_notifier st2)) c = tx_kept st c @ sent_by c [(client, SEND_CHAR, data, w)]"
      if "0 \<le> c" for c
      using that a len by (simp add: tx_kept_def sent_by_def tx_unpark st2_def char_upd)
    ultimately have "tx_step_ok st (client, SEND_CHAR, data, w)
        (fst (unpark_com2_tx_notifier st2)) (snd (unpark_com2_tx_notifier st2))"
      using owner unfolding tx_step_ok_def tx_unpark written_for_def by (auto simp: st2_def st1_def)
    then show ?thesis by (rule that [OF send])
  qed
qed

lemma tx_send_other_ok:
  assumes st: "tx_ok st" and owner: "tx_owner st \<noteq> client" "tx_owner st \<noteq> -1"
    and allowed: "tx_allowed st (client, SEND_CHAR, data, w)"
  obtains outs st' where "uart2_tx_send st client (word_of_int data) w = Inr (outs, st')"
    "tx_step_ok st (client, SEND_CHAR, data, w) outs st'"
proof -
  let ?ch = "word_of_int data :: 8 word" and ?q = "cb_items (tx_lock st)"
  have a: "0 \<le> client" "client < int MAX_CAPACITY" "?ch \<noteq> 0" "tx_chars st ! nat client = 0"
    using allowed by (auto simp: tx_allowed_def)
  note inv = tx_okD [OF st]
  have len: "nat client < length (tx_chars st)" using tx_chars_len [OF st] a by simp
  have out: "client \<notin> set ?q" using inv(5) a(4) by (auto simp: waiting_def)
  have "set ?q \<subseteq> {0..<int MAX_CAPACITY} - {tx_owner st}" using inv(5) waiting_bound by fastforce
  then have "card (set ?q) \<le> card ({0..<int MAX_CAPACITY} - {tx_owner st})" by (intro card_mono) auto
  also have "\<dots> < MAX_CAPACITY"
    using tx_owner_ok [OF st owner(2)] by (simp add: MAX_CAPACITY_def)
  finally have room: "cb_count (tx_lock st) < cb_capacity (tx_lock st)"
    using inv(1,2,4) by (simp add: length_cb_items [symmetric] distinct_card)
  obtain lock where lock: "cb_push_back (tx_lock st) client False = Inr (lock, 0)" "cb_inv lock"
    "cb_items lock = ?q @ [client]" "cb_capacity lock = cb_capacity (tx_lock st)"
    by (rule cb_push_ok [OF inv(1) room])
  let ?st' = "st\<lparr> tx_lock := lock, tx_chars := (tx_chars st)[nat client := ?ch] \<rparr>"
  have run: "uart2_tx_send st client ?ch w = Inr ([], ?st')"
    using owner lock(1) a len by (simp add: uart2_tx_send_def wri_def)
  have "tx_ok ?st'"
    using st lock owner out waiting_upd [OF a(1,2) len, of ?ch] a(3)
    unfolding tx_ok_def uart2_tx.simps by auto
  moreover have "tx_kept ?st' c = tx_kept st c @ sent_by c [(client, SEND_CHAR, data, w)]" if "0 \<le> c" for c
    using that a len by (simp add: tx_kept_def sent_by_def char_upd)
  ultimately have "tx_step_ok st (client, SEND_CHAR, data, w) [] ?st'"
    by (simp add: tx_step_ok_def written_for_def)
  then show ?thesis using run that by blast
qed

lemma tx_release_ok:
  assumes st: "tx_ok st" and allowed: "tx_allowed st (client, RELEASE_LOCK, data, w)"
  obtains outs st' where "uart2_tx_release st client = Inr (outs, st')"
    "tx_step_ok st (client, RELEASE_LOCK, data, w) outs st'"
    "tx_owner st' = (case cb_items (tx_lock st) of [] \<Rightarrow> -1 | c # _ \<Rightarrow> c)"
proof -
  let ?q = "cb_items (tx_lock st)"
  have a: "client = tx_owner st" "0 \<le> client" "tx_chars st ! nat client = 0"
    using allowed by (auto simp: tx_allowed_def)
  have inv: "cb_inv (tx_lock st)" using st unfolding tx_ok_def by blast
  obtain lock status item where pop: "cb_pop_front (tx_lock st) = Inr (lock, status, item)"
    "cb_inv lock" "cb_items lock = tl ?q" "cb_capacity lock = cb_capacity (tx_lock st)"
    "(if status = CB_EMPTY then -1 else case item of Some t \<Rightarrow> t | None \<Rightarrow> tx_owner st) =
       (case ?q of [] \<Rightarrow> -1 | c # _ \<Rightarrow> c)"
  proof (cases "cb_count (tx_lock st) = 0")
    case True
    then have "?q = []" using length_cb_items [OF inv] by simp
    then show ?thesis using that [OF cb_pop_empty [OF inv True]] inv by simp
  next
    case False
    then have "?q \<noteq> []" using length_cb_items [OF inv] by auto
    obtain lock where "cb_pop_front (tx_lock st) = Inr (lock, 0, Some (hd ?q))" "cb_inv lock"
      "cb_items lock = tl ?q" "cb_capacity lock = cb_capacity (tx_lock st)"
      by (rule cb_pop_ok [OF inv False])
    then show ?thesis using that \<open>?q \<noteq> []\<close> by (cases ?q) (simp_all add: CB_EMPTY_def)
  qed
  define st1 where "st1 = st\<lparr> tx_lock := lock, tx_owner := (case ?q of [] \<Rightarrow> -1 | c # _ \<Rightarrow> c) \<rparr>"
  let ?u = "unpark_com2_tx_notifier st1"
  have run: "uart2_tx_release st client = Inr (fst ?u @ [Answer client 0], snd ?u)"
    using a pop(1,5) by (simp add: uart2_tx_release_def st1_def Let_def split: prod.split)
  have "tx_owner st \<notin> waiting (tx_chars st)" using a by (simp add: waiting_def)
  then have q: "waiting (tx_chars st) = set ?q" using tx_okD(5) [OF st] by simp
  have "tx_ok (snd ?u)"
  proof (cases ?q)
    case Nil
    then show ?thesis
      using q tx_okD(2,3) [OF st] pop(2,3,4) unfolding tx_ok_def tx_unpark st1_def uart2_tx.simps by simp
  next
    case (Cons c q')
    then have "0 \<le> c \<and> c < int MAX_CAPACITY" using q waiting_bound by auto
    then show ?thesis
      using q Cons tx_okD(2,3,4) [OF st] pop(2,3,4) unfolding tx_ok_def tx_unpark st1_def uart2_tx.simps by simp
  qed
  moreover have "written (fst ?u @ [Answer client 0]) = []"
    using tx_unpark(6) [of st1] by auto
  moreover have "tx_kept (snd ?u) c = tx_kept st c" for c by (simp add: tx_kept_def tx_unpark st1_def)
  ultimately have "tx_step_ok st (client, RELEASE_LOCK, data, w) (fst ?u @ [Answer client 0]) (snd ?u)"
    by (simp add: tx_step_ok_def written_for_def sent_by_def)
  then show ?thesis by (rule that [OF run]) (simp add: tx_unpark st1_def)
qed

lemma tx_step_ok:
  assumes "tx_ok st" "tx_allowed st (client, type, data, w)"
  obtains outs st' where "uart2_tx_step st client type data w = Inr (outs, st')"
    "tx_step_ok st (client, type, data, w) outs st'"
proof (cases type)
  case NOTIFIER_TX_GOOD
  show ?thesis
    by (rule tx_notified_ok [OF assms(1)]) (use that NOTIFIER_TX_GOOD in \<open>simp add: uart2_tx_step_def\<close>)
next
  case SEND_CHAR
  note allowed = assms(2) [unfolded SEND_CHAR]
  show ?thesis
  proof (cases "tx_owner st = client \<or> tx_owner st = -1")
    case True
    show ?thesis
      by (rule tx_send_owner_ok [OF assms(1) True allowed]) (use that SEND_CHAR in \<open>simp add: uart2_tx_step_def\<close>)
  next
    case False
    then have "tx_owner st \<noteq> client" "tx_owner st \<noteq> -1" by auto
    from tx_send_other_ok [OF assms(1) this allowed] show ?thesis
      using that SEND_CHAR by (auto simp: uart2_tx_step_def)
  qed
next
  case RELEASE_LOCK
  from tx_release_ok [OF assms(1) assms(2) [unfolded RELEASE_LOCK]] show ?thesis
    using that RELEASE_LOCK by (auto simp: uart2_tx_step_def)
qed (use that [of "[]" st] assms(1) in
    \<open>simp_all add: uart2_tx_step_def tx_step_ok_def written_for_def sent_by_def\<close>)

text \<open>The server over a sequence of requests, and the sequences its clients can produce.\<close>

type_synonym tx_request = "int \<times> uartserver_request_type \<times> int \<times> bool"

fun uart2_tx_run :: "uart2_tx \<Rightarrow> tx_request list \<Rightarrow> (uart_act list list \<times> uart2_tx) cres" where
  "uart2_tx_run st [] = Inr ([], st)"
| "uart2_tx_run st ((client, type, data, w) # reqs) =
     cbind (uart2_tx_step st client type data w) (\<lambda>(outs, st').
     cbind (uart2_tx_run st' reqs) (\<lambda>(rest, final). Inr (outs # rest, final)))"

fun tx_sequence :: "uart2_tx \<Rightarrow> tx_request list \<Rightarrow> bool" where
  "tx_sequence st [] = True"
| "tx_sequence st ((client, type, data, w) # reqs) =
     (tx_allowed st (client, type, data, w) \<and>
      (case uart2_tx_step st client type data w of Inr (_, st') \<Rightarrow> tx_sequence st' reqs | Inl _ \<Rightarrow> False))"

lemma sent_by_Cons: "sent_by c (req # reqs) = sent_by c [req] @ sent_by c reqs"
  by (simp add: sent_by_def split: prod.splits)

lemma tx_run_ok:
  "tx_ok st \<Longrightarrow> tx_sequence st reqs \<Longrightarrow>
     \<exists>outs st'. uart2_tx_run st reqs = Inr (outs, st') \<and> tx_ok st' \<and>
       (\<forall>c. 0 \<le> c \<and> c < int MAX_CAPACITY \<longrightarrow>
          concat (map (written_for c) outs) @ tx_kept st' c = tx_kept st c @ sent_by c reqs) \<and>
       (tx_owner st \<noteq> -1 \<and> (\<forall>req \<in> set reqs. fst (snd req) \<noteq> RELEASE_LOCK) \<longrightarrow>
          tx_owner st' = tx_owner st \<and> (\<forall>(c, ch) \<in> set (concat (map written outs)). c = tx_owner st))"
proof (induction reqs arbitrary: st)
  case Nil
  then show ?case by (simp add: sent_by_def)
next
  case (Cons req reqs)
  obtain client type data w where req: "req = (client, type, data, w)" by (cases req)
  obtain outs st1 where step: "uart2_tx_step st client type data w = Inr (outs, st1)"
    "tx_step_ok st (client, type, data, w) outs st1"
    by (rule tx_step_ok [OF Cons.prems(1)]) (use Cons.prems(2) req in auto)
  have "tx_sequence st1 reqs" using Cons.prems(2) step(1) req by simp
  then obtain rest st' where rest: "uart2_tx_run st1 reqs = Inr (rest, st')" "tx_ok st'"
    "\<forall>c. 0 \<le> c \<and> c < int MAX_CAPACITY \<longrightarrow>
          concat (map (written_for c) rest) @ tx_kept st' c = tx_kept st1 c @ sent_by c reqs"
    "tx_owner st1 \<noteq> -1 \<and> (\<forall>req \<in> set reqs. fst (snd req) \<noteq> RELEASE_LOCK) \<longrightarrow>
          tx_owner st' = tx_owner st1 \<and> (\<forall>(c, ch) \<in> set (concat (map written rest)). c = tx_owner st1)"
    using Cons.IH [of st1] step(2) unfolding tx_step_ok_def by blast
  have "concat (map (written_for c) (outs # rest)) @ tx_kept st' c = tx_kept st c @ sent_by c (req # reqs)"
    if "0 \<le> c \<and> c < int MAX_CAPACITY" for c
  proof -
    have "written_for c outs @ tx_kept st1 c = tx_kept st c @ sent_by c [req]"
      using step(2) that req unfolding tx_step_ok_def by blast
    then show ?thesis using rest(3) that sent_by_Cons [of c req reqs] by (metis append.assoc concat.simps(2) list.map(2))
  qed
  moreover have "tx_owner st' = tx_owner st \<and> (\<forall>(c, ch) \<in> set (concat (map written (outs # rest))). c = tx_owner st)"
    if "tx_owner st \<noteq> -1 \<and> (\<forall>r \<in> set (req # reqs). fst (snd r) \<noteq> RELEASE_LOCK)"
  proof -
    have "tx_owner st1 = tx_owner st" "\<forall>(c, ch) \<in> set (written outs). c = tx_owner st1"
      using step(2) that req by (auto simp: tx_step_ok_def)
    then show ?thesis using rest(4) that by auto
  qed
  moreover have "uart2_tx_run st (req # reqs) = Inr (outs # rest, st')" using step(1) rest(1) req by simp
  ultimately show ?case using rest(2) by blast
qed

lemma tx_sequence_append:
  assumes "tx_sequence st (xs @ ys)"
  shows "tx_sequence st xs" "uart2_tx_run st xs = Inr (outs, st') \<Longrightarrow> tx_sequence st' ys"
  using assms
  by (induction xs arbitrary: st outs) (auto simp: c_simps split: sum.splits)



subsection \<open>Flow control towards the trains\<close>

type_synonym uart1_request = "int \<times> uartserver_request_type \<times> int \<times> bool \<times> 8 word"

fun uart1_run :: "uart1 \<Rightarrow> uart1_request list \<Rightarrow> (uart_act list \<times> uart1) cres" where
  "uart1_run st [] = Inr ([], st)"
| "uart1_run st ((client, type, data, can_read, received) # reqs) =
     cbind (uart1_step st client type data can_read received) (\<lambda>(outs, st').
     cbind (uart1_run st' reqs) (\<lambda>(rest, final). Inr (outs @ rest, final)))"

definition puts :: "uart_act list \<Rightarrow> nat" where
  "puts outs = length (filter (\<lambda>a. case a of Put _ \<Rightarrow> True | Answer _ _ \<Rightarrow> False) outs)"

definition tx_events :: "uart1_request list \<Rightarrow> nat" where
  "tx_events reqs = length (filter (\<lambda>(_, type, _). type = NOTIFIER_TX_GOOD) reqs)"

lemma puts_simps [simp]:
  "puts [] = 0" "puts (Put c # outs) = Suc (puts outs)" "puts (Answer t i # outs) = puts outs"
  "puts (outs @ outs') = puts outs + puts outs'"
  by (simp_all add: puts_def)

lemma uart1_step_puts:
  assumes "uart1_step st client type data can_read received = Inr (outs, st')"
  shows "puts outs + of_bool (u_can_send st') \<le> of_bool (type = NOTIFIER_TX_GOOD) + of_bool (u_can_send st)"
proof (cases type)
  case RELEASE_LOCK
  then show ?thesis
    using assms by (auto simp: uart1_step_def uart1_release_def c_simps Let_def split: prod.splits if_splits)
qed (use assms in \<open>auto simp: uart1_step_def uart1_tx_good_def uart1_send_def c_simps Let_def split: prod.splits if_splits\<close>)

lemma uart1_run_puts:
  "uart1_run st reqs = Inr (outs, st') \<Longrightarrow>
     puts outs + of_bool (u_can_send st') \<le> tx_events reqs + of_bool (u_can_send st)"
proof (induction reqs arbitrary: st outs)
  case Nil
  then show ?case by (simp add: tx_events_def)
next
  case (Cons req reqs)
  obtain client type data r c where req: "req = (client, type, data, r, c)" by (cases req)
  have events: "tx_events (req # reqs) = of_bool (type = NOTIFIER_TX_GOOD) + tx_events reqs"
    using req by (simp add: tx_events_def)
  obtain outs1 st1 rest where run: "uart1_step st client type data r c = Inr (outs1, st1)"
    "uart1_run st1 reqs = Inr (rest, st')" "outs = outs1 @ rest"
    using Cons.prems req by (auto simp: c_simps)
  then show ?case
    using uart1_step_puts [OF run(1)] Cons.IH [OF run(2)] events by (simp only: puts_simps)
qed



end
