(* ===== verification/Navigation.thy ===== *)
theory Navigation
  imports Path_Worker Circular_Buffer Train_Model
begin

section \<open>The navigation server (src/user/navigationserver.c): routes\<close>

text \<open>
  The server gets a route for a train from the pathfinding worker of the train, cuts it at the places where the train has to
  reverse, and hands the straight pieces one by one to the train's straight path worker, after
  reserving the track of the piece. This theory models the cutting, the reservations and the whole server
  as a step from its state and one request to its state and the messages it sends. The printing of
  debug messages is left out. Trains are numbered from 0 to 5, and -1 stands for no train and no task.
\<close>

subsection \<open>Data\<close>

datatype navigation_state = IDLE | PATHFINDING | STRAIGHTPATHING

record train_state =
  ts_train_num :: int
  ts_reged_at_num :: int
  ts_dest_num :: int
  ts_reversed :: bool
  ts_reged_at_offset :: int
  ts_dest_offset :: int

definition STRAIGHT_MAX :: nat where "STRAIGHT_MAX = TRACK_MAX div 5"

record straightpath_task =
  sp_train :: int
  sp_path :: "int list"
  sp_path_len :: int
  sp_path_dist :: int
  sp_startup :: bool

definition no_straightpath :: straightpath_task where
  "no_straightpath = \<lparr> sp_train = 0, sp_path = replicate STRAIGHT_MAX 0, sp_path_len = 0, sp_path_dist = 0, sp_startup = False \<rparr>"

datatype navigation_type = NAVIGATION_REVERSE | NAVIGATION_STRAIGHT

record navigation_task =
  nt_type :: navigation_type
  nt_task :: straightpath_task

text \<open>A task cleared by \<open>memset\<close>.\<close>

definition reverse_task :: navigation_task where
  "reverse_task = \<lparr> nt_type = NAVIGATION_REVERSE, nt_task = no_straightpath \<rparr>"

record pathfind_task =
  pt_valid :: bool
  pt_train :: int
  pt_source :: int
  pt_dest :: int
  pt_delay :: int

definition MAX_NAVIGATION_TASKS :: nat where "MAX_NAVIGATION_TASKS = 10"
definition TRAIN_LEN :: int where "TRAIN_LEN = 250"

subsection \<open>Cutting a route\<close>

text \<open>The difference of a null pointer and \<open>track\<close> is no index.\<close>

definition reverse_num :: "track_node list \<Rightarrow> int \<Rightarrow> int cres" where
  "reverse_num t i = cbind (rdi t i) (\<lambda>n. case n_reverse n of Some j \<Rightarrow> Inr (int j) | None \<Rightarrow> Inl Undefined_Value)"

definition push :: "'a circular_buffer \<Rightarrow> 'a \<Rightarrow> 'a circular_buffer cres" where
  "push cb x = cbind (cb_push_back cb x False) (\<lambda>(cb', status). Inr cb')"

definition add_navigation_task ::
  "track_node list \<Rightarrow> navigation_task circular_buffer \<Rightarrow> int circular_buffer \<Rightarrow> int \<Rightarrow> int \<Rightarrow> bool \<Rightarrow>
     navigation_task circular_buffer cres" where
  "add_navigation_task t tasks segment train_num offset is_first_task =
     cbind (cb_to_array segment) (\<lambda>(segment_path, len).
     cbind (rd segment_path 0) (\<lambda>f. cbind (rdi t f) (\<lambda>_.
     cbind (rd segment_path (len - 1)) (\<lambda>l. cbind (rdi t l) (\<lambda>_.
     cbind (memcpy (replicate STRAIGHT_MAX 0) segment_path len) (\<lambda>path.
     cbind (get_path_dist t segment_path (int len)) (\<lambda>dist.
       push tasks \<lparr> nt_type = NAVIGATION_STRAIGHT,
         nt_task = \<lparr> sp_train = train_num, sp_path = path, sp_path_len = int len,
           sp_path_dist = dist + offset, sp_startup = is_first_task \<rparr> \<rparr>)))))))"

definition add_buffer_nodes ::
  "track_node list \<Rightarrow> int list list \<Rightarrow> int circular_buffer \<Rightarrow> int \<Rightarrow> bool \<Rightarrow> int circular_buffer cres" where
  "add_buffer_nodes t bn segment switch_node_num forward =
     cbind (rdi t switch_node_num) (\<lambda>n.
     cbind (rdi bn (switch_index (n_num n))) (\<lambda>row.
     cbind (rd row 0) (\<lambda>cnt.
       if forward
       then cfold (\<lambda>seg i. cbind (rd row i) (\<lambda>x. push seg x)) segment [1..<Suc (nat cnt)]
       else cfold (\<lambda>seg i. cbind (rd row i) (\<lambda>x. cbind (reverse_num t x) (\<lambda>r. push seg r)))
              segment (rev [1..<Suc (nat cnt)]))))"

record segments =
  sg_segment :: "int circular_buffer"
  sg_tasks :: "navigation_task circular_buffer"
  sg_came :: bool
  sg_merge :: int
  sg_had :: bool

text \<open>\<open>track[p].reverse == &track[q]\<close>.\<close>

definition points_back :: "track_node list \<Rightarrow> int \<Rightarrow> int \<Rightarrow> bool cres" where
  "points_back t p q = cbind (rdi t p) (\<lambda>n. Inr (points_to (n_reverse n) q))"

text \<open>The body of the loop at a node followed by its reverse; the second result is \<open>terminate\<close>.\<close>

definition segment_reverse ::
  "track_node list \<Rightarrow> int list list \<Rightarrow> int \<Rightarrow> bool \<Rightarrow> int \<Rightarrow> int \<Rightarrow> segments \<Rightarrow> (segments \<times> bool) cres" where
  "segment_reverse t bn p final dest_offset train_num s =
     cbind
       (if 1 \<le> cb_count (sg_segment s) then
          cbind (push (sg_segment s) p) (\<lambda>seg.
          cbind
            (if final then
               cbind (add_navigation_task t (sg_tasks s) seg train_num (- dest_offset) (\<not> sg_had s)) (\<lambda>tasks.
                 Inr (s\<lparr> sg_tasks := tasks, sg_had := True \<rparr>, seg))
             else
               cbind (add_buffer_nodes t bn seg p True) (\<lambda>seg'.
               cbind (add_navigation_task t (sg_tasks s) seg' train_num 0 (\<not> sg_had s)) (\<lambda>tasks.
                 Inr (s\<lparr> sg_tasks := tasks, sg_had := True, sg_merge := p, sg_came := True \<rparr>, seg')))) (\<lambda>(s', seg').
          cbind (cb_clear 0 seg') (\<lambda>empty. Inr (s'\<lparr> sg_segment := empty \<rparr>))))
        else Inr s) (\<lambda>s1.
     cbind (push (sg_tasks s1) reverse_task) (\<lambda>tasks. Inr (s1\<lparr> sg_tasks := tasks \<rparr>, final)))"

definition segment_forward ::
  "track_node list \<Rightarrow> int list list \<Rightarrow> int \<Rightarrow> bool \<Rightarrow> int \<Rightarrow> int \<Rightarrow> segments \<Rightarrow> segments cres" where
  "segment_forward t bn p final dest_offset train_num s =
     cbind
       (if sg_came s
        then cbind (add_buffer_nodes t bn (sg_segment s) (sg_merge s) False) (\<lambda>seg.
               Inr (s\<lparr> sg_segment := seg, sg_came := False \<rparr>))
        else Inr s) (\<lambda>s1.
     cbind (push (sg_segment s1) p) (\<lambda>seg.
       if final then
         cbind (add_navigation_task t (sg_tasks s1) seg train_num dest_offset (\<not> sg_had s1)) (\<lambda>tasks.
         cbind (cb_clear 0 seg) (\<lambda>empty.
           Inr (s1\<lparr> sg_segment := empty, sg_tasks := tasks, sg_had := True \<rparr>)))
       else Inr (s1\<lparr> sg_segment := seg \<rparr>)))"

fun segments_loop ::
  "track_node list \<Rightarrow> int list list \<Rightarrow> int list \<Rightarrow> int \<Rightarrow> int \<Rightarrow> int \<Rightarrow> nat \<Rightarrow> nat \<Rightarrow> segments \<Rightarrow> segments cres" where
  "segments_loop t bn path path_len dest_offset train_num i 0 s = Inr s"
| "segments_loop t bn path path_len dest_offset train_num i (Suc left) s =
     cbind (rd path i) (\<lambda>p.
     cbind (rd path (i + 1)) (\<lambda>q.
     cbind (points_back t p q) (\<lambda>back.
       if back then
         cbind (segment_reverse t bn p (int i = path_len - 2) dest_offset train_num s) (\<lambda>(s', terminate).
           if terminate then Inr s'
           else segments_loop t bn path path_len dest_offset train_num (i + 1) left s')
       else
         cbind (segment_forward t bn p (int i = path_len - 1) dest_offset train_num s) (\<lambda>s'.
           if int i = path_len - 1 then Inr s'
           else segments_loop t bn path path_len dest_offset train_num (i + 1) left s'))))"

definition segments_fill_navigation_tasks ::
  "track_node list \<Rightarrow> int list list \<Rightarrow> int list \<Rightarrow> int \<Rightarrow> navigation_task circular_buffer \<Rightarrow> int \<Rightarrow> int \<Rightarrow>
     navigation_task circular_buffer cres" where
  "segments_fill_navigation_tasks t bn path path_len tasks dest_offset train_num =
     cbind (segments_loop t bn path path_len dest_offset train_num 0 (nat path_len)
       \<lparr> sg_segment = cb_init 0 TRACK_MAX, sg_tasks = tasks, sg_came = False, sg_merge = -1, sg_had = False \<rparr>)
       (\<lambda>s. Inr (sg_tasks s))"

end
