(* ===== verification/Navigation_Server.thy ===== *)
theory Navigation_Server
  imports Navigation
begin

section \<open>The navigation server (src/user/navigationserver.c): the server\<close>

text \<open>
  The state holds the globals of the file and the locals of \<open>navigation_server\<close>. Each handler starts by indexing
  an array of one entry per train with the train of the request; \<open>v_p_train_num\<close> stands for that
  check, and the arrays have six entries each, so the accesses that follow it are in bounds.
\<close>

record navigation =
  nv_states :: "navigation_state list"
  nv_reserved :: "int list"
  nv_reservation_client :: int
  nv_trainstate_client :: int
  nv_reservation_dirty :: bool
  nv_train_states_dirty :: bool
  nv_clients :: "int list"
  nv_should_hang :: "bool list"
  nv_trains :: "train_state list"
  nv_cur :: "straightpath_task list"
  nv_sp_workers :: "int list"
  nv_sp_parking :: "int list"
  nv_tasks :: "navigation_task circular_buffer list"
  nv_pf_workers :: "int list"
  nv_pf_parking :: "int list"
  nv_pf_tasks :: "pathfind_task list"

datatype navigation_response =
    NAVIGATIONSERVER_GOOD
  | NAVIGATIONSERVER_NO_PATH
  | NAVIGATIONSERVER_NEED_REGISTER
  | NAVIGATIONSERVER_BUSY
  | STRAIGHTPATH_WORKER_HERES_WORK "int list" int int int
  | PATHFIND_WORKER_HERES_WORK int int int "bool list" int
  | Whoami_Train int
  | Reservations "int list"

text \<open>What the server sends: a reply to a task, or the command to reverse a train.\<close>

datatype navigation_act = Nav_Reply int navigation_response | HardReverse int int

datatype worker_type = PATHFIND | STRAIGHTPATH

datatype navigation_request =
    NAVIGATION_REQUEST int int int bool
  | STRAIGHTPATH_WORKER int
  | STRAIGHTPATH_WORKER_DONE int
  | PATHFIND_WORKER int
  | PATHFIND_WORKER_DONE int pathfind_done
  | NAVIGATIONSERVER_ATTRIBUTION_COURIER "int list"
  | WHOAMI worker_type
  | GET_RESERVATIONS
  | GET_TRAIN_STATE
  | REGISTER_LOCATION int int

definition NOT_TRIGGERED :: int where "NOT_TRIGGERED = -1"
definition UNATTRIBUTED :: int where "UNATTRIBUTED = -2"

text \<open>The server after its workers have been created with the given tids.\<close>

definition init_train_state :: "int \<Rightarrow> train_state" where
  "init_train_state train =
     \<lparr> ts_train_num = train, ts_reged_at_num = -1, ts_dest_num = -1, ts_reversed = False,
       ts_reged_at_offset = -1, ts_dest_offset = -1 \<rparr>"

definition navigation_init :: "int list \<Rightarrow> int list \<Rightarrow> navigation" where
  "navigation_init straightpath_workers pathfind_workers =
     \<lparr> nv_states = replicate MAX_NUM_TRAINS IDLE, nv_reserved = replicate TRACK_MAX (-1),
       nv_reservation_client = -1, nv_trainstate_client = -1,
       nv_reservation_dirty = False, nv_train_states_dirty = True,
       nv_clients = replicate MAX_NUM_TRAINS (-1), nv_should_hang = replicate MAX_NUM_TRAINS False,
       nv_trains = map (\<lambda>i. init_train_state (int i)) [0..<MAX_NUM_TRAINS],
       nv_cur = replicate MAX_NUM_TRAINS no_straightpath,
       nv_sp_workers = straightpath_workers, nv_sp_parking = replicate MAX_NUM_TRAINS (-1),
       nv_tasks = replicate MAX_NUM_TRAINS (cb_init reverse_task MAX_NAVIGATION_TASKS),
       nv_pf_workers = pathfind_workers, nv_pf_parking = replicate MAX_NUM_TRAINS (-1),
       nv_pf_tasks = replicate MAX_NUM_TRAINS
         \<lparr> pt_valid = False, pt_train = 0, pt_source = 0, pt_dest = 0, pt_delay = 0 \<rparr> \<rparr>"

definition train_of :: "navigation \<Rightarrow> int \<Rightarrow> train_state" where
  "train_of nv train = nv_trains nv ! nat train"

definition upd_train :: "navigation \<Rightarrow> int \<Rightarrow> (train_state \<Rightarrow> train_state) \<Rightarrow> navigation" where
  "upd_train nv train f = nv\<lparr> nv_trains := (nv_trains nv)[nat train := f (train_of nv train)] \<rparr>"

subsection \<open>Reservations\<close>

fun can_reserve_segment :: "int list \<Rightarrow> int list \<Rightarrow> int \<Rightarrow> nat \<Rightarrow> nat \<Rightarrow> bool cres" where
  "can_reserve_segment reserved path train i 0 = Inr True"
| "can_reserve_segment reserved path train i (Suc left) =
     cbind (rd path i) (\<lambda>p.
     cbind (rdi reserved p) (\<lambda>r.
       if r \<noteq> -1 \<and> r \<noteq> train then Inr False
       else can_reserve_segment reserved path train (i + 1) left))"

definition reserve_node :: "track_node list \<Rightarrow> int \<Rightarrow> int \<Rightarrow> navigation \<Rightarrow> navigation cres" where
  "reserve_node t node_num train nv =
     cbind (wri (nv_reserved nv) node_num train) (\<lambda>r1.
     cbind (reverse_num t node_num) (\<lambda>rev.
     cbind (wri r1 rev train) (\<lambda>r2.
       Inr (nv\<lparr> nv_reserved := r2, nv_reservation_dirty := True \<rparr>))))"

definition reserve_path :: "track_node list \<Rightarrow> int list \<Rightarrow> int \<Rightarrow> int \<Rightarrow> navigation \<Rightarrow> navigation cres" where
  "reserve_path t path path_len train nv =
     cfold (\<lambda>nv i. cbind (rd path i) (\<lambda>p. reserve_node t p train nv)) nv [0..<nat path_len]"

text \<open>The reverse of a node is computed for every node but used only for those of the train.\<close>

definition unreserve_node :: "track_node list \<Rightarrow> int \<Rightarrow> int \<Rightarrow> navigation \<Rightarrow> navigation cres" where
  "unreserve_node t node_num train nv =
     cbind (rdi (nv_trains nv) train) (\<lambda>ts.
     cbind (rdi (nv_reserved nv) node_num) (\<lambda>r.
       if r \<noteq> train then Inr nv
       else
         cbind (reverse_num t node_num) (\<lambda>rev.
           if node_num \<noteq> ts_reged_at_num ts \<and> rev \<noteq> ts_reged_at_num ts then
             cbind (wri (nv_reserved nv) node_num (-1)) (\<lambda>r1.
             cbind (wri r1 rev (-1)) (\<lambda>r2.
               Inr (nv\<lparr> nv_reserved := r2, nv_reservation_dirty := True \<rparr>)))
           else Inr nv)))"

fun unreserve_loop ::
  "track_node list \<Rightarrow> int list \<Rightarrow> int \<Rightarrow> int \<Rightarrow> nat \<Rightarrow> nat \<Rightarrow> navigation \<Rightarrow> navigation cres" where
  "unreserve_loop t path node_num train i 0 nv = Inr nv"
| "unreserve_loop t path node_num train i (Suc left) nv =
     cbind (rd path i) (\<lambda>p.
     cbind (unreserve_node t p train nv) (\<lambda>nv'.
       if p = node_num then Inr nv' else unreserve_loop t path node_num train (i + 1) left nv'))"

definition unreserve_path_src_up_to_node :: "track_node list \<Rightarrow> int \<Rightarrow> int \<Rightarrow> navigation \<Rightarrow> navigation cres" where
  "unreserve_path_src_up_to_node t node_num train nv =
     cbind (rdi (nv_cur nv) train) (\<lambda>task.
       unreserve_loop t (sp_path task) node_num train 0 (nat (sp_path_len task)) nv)"

definition clear_reserved_by_train :: "track_node list \<Rightarrow> int \<Rightarrow> navigation \<Rightarrow> navigation cres" where
  "clear_reserved_by_train t train nv =
     cfold (\<lambda>nv i. unreserve_node t (int i) train nv) nv [0..<TRACK_MAX]"

subsection \<open>Giving work\<close>

definition give_pathfinder_work :: "navigation \<Rightarrow> int \<Rightarrow> pathfind_task \<Rightarrow> navigation_act" where
  "give_pathfinder_work nv pathfind_worker task =
     Nav_Reply pathfind_worker (PATHFIND_WORKER_HERES_WORK (pt_train task) (pt_source task) (pt_dest task)
       (map (\<lambda>r. \<not> (r = -1 \<or> r = pt_train task)) (nv_reserved nv)) (pt_delay task))"

definition give_straightpath_work :: "navigation \<Rightarrow> int \<Rightarrow> straightpath_task \<Rightarrow> navigation_act cres" where
  "give_straightpath_work nv straightpath_worker task =
     cbind (memcpy (replicate TRACK_MAX 0) (sp_path task) (nat (sp_path_len task))) (\<lambda>path.
     cbind (rdi (nv_trains nv) (sp_train task)) (\<lambda>ts.
       Inr (Nav_Reply straightpath_worker (STRAIGHTPATH_WORKER_HERES_WORK path (sp_path_len task)
         (sp_path_dist task - ts_reged_at_offset ts) (if sp_startup task then 0 else 30)))))"

text \<open>The last result is true when the path has to be found again.\<close>

definition process_straightpath_task ::
  "track_node list \<Rightarrow> int \<Rightarrow> straightpath_task \<Rightarrow> navigation \<Rightarrow> (navigation_act list \<times> navigation \<times> bool) cres" where
  "process_straightpath_task t train task nv =
     cbind (clear_reserved_by_train t train (nv\<lparr> nv_cur := (nv_cur nv)[nat train := task] \<rparr>)) (\<lambda>nv1.
     cbind (can_reserve_segment (nv_reserved nv1) (sp_path task) train 0 (nat (sp_path_len task))) (\<lambda>can.
       if can then
         cbind (reserve_path t (sp_path task) (sp_path_len task) train nv1) (\<lambda>nv2.
         cbind (give_straightpath_work nv2 (nv_sp_parking nv2 ! nat train) task) (\<lambda>act.
         cbind (rdi (sp_path task) (sp_path_len task - 1)) (\<lambda>e.
           Inr ([act],
             upd_train (nv2\<lparr> nv_sp_parking := (nv_sp_parking nv2)[nat train := -1] \<rparr>) train
               (\<lambda>ts. ts\<lparr> ts_reged_at_num := e, ts_reged_at_offset := 0 \<rparr>),
             False))))
       else Inr ([], nv1, True)))"

definition done_navigation :: "track_node list \<Rightarrow> int \<Rightarrow> navigation \<Rightarrow> (navigation_act list \<times> navigation) cres" where
  "done_navigation t train nv =
     cbind (clear_reserved_by_train t train nv) (\<lambda>nv1.
       let nv2 = nv1\<lparr> nv_states := (nv_states nv1)[nat train := IDLE] \<rparr> in
       if nv_should_hang nv2 ! nat train then
         Inr ([Nav_Reply (nv_clients nv2 ! nat train) NAVIGATIONSERVER_GOOD],
              nv2\<lparr> nv_clients := (nv_clients nv2)[nat train := -1],
                   nv_should_hang := (nv_should_hang nv2)[nat train := False] \<rparr>)
       else Inr ([], nv2))"

text \<open>\<open>now\<close> is the answer of the clock server.\<close>

definition process_reverse ::
  "track_node list \<Rightarrow> int \<Rightarrow> int \<Rightarrow> navigation \<Rightarrow> (navigation_act list \<times> navigation \<times> bool) cres" where
  "process_reverse t train now nv =
     cbind (reverse_num t (ts_reged_at_num (train_of nv train))) (\<lambda>rev.
     let nv1 = (upd_train nv train (\<lambda>ts. ts\<lparr> ts_reversed := \<not> ts_reversed ts, ts_reged_at_num := rev,
                  ts_reged_at_offset := -100 \<rparr>))\<lparr> nv_train_states_dirty := True \<rparr>
     in cbind (cb_is_empty (nv_tasks nv1 ! nat train)) (\<lambda>empty.
          if \<not> empty then
            cbind (cb_pop_front (nv_tasks nv1 ! nat train)) (\<lambda>(tasks, status, item).
            cbind (deref item) (\<lambda>task.
            cbind (process_straightpath_task t train (nt_task task)
                     (nv1\<lparr> nv_tasks := (nv_tasks nv1)[nat train := tasks] \<rparr>)) (\<lambda>(acts, nv2, restart).
              Inr (HardReverse train now # acts, nv2, restart))))
          else
            cbind (done_navigation t train nv1) (\<lambda>(acts, nv2). Inr (HardReverse train now # acts, nv2, False))))"

definition process_next_task ::
  "track_node list \<Rightarrow> int \<Rightarrow> int \<Rightarrow> navigation \<Rightarrow> (navigation_act list \<times> navigation \<times> bool) cres" where
  "process_next_task t train now nv =
     cbind (cb_pop_front (nv_tasks nv ! nat train)) (\<lambda>(tasks, status, item).
     cbind (case item of Some task \<Rightarrow> Inr task | None \<Rightarrow> Inl Undefined_Value) (\<lambda>task.
     let nv1 = nv\<lparr> nv_tasks := (nv_tasks nv)[nat train := tasks] \<rparr> in
       if nt_type task = NAVIGATION_REVERSE then process_reverse t train now nv1
       else process_straightpath_task t train (nt_task task) nv1))"

definition restart_pathfind :: "int \<Rightarrow> navigation \<Rightarrow> navigation cres" where
  "restart_pathfind train nv =
     cbind (cb_clear reverse_task (nv_tasks nv ! nat train)) (\<lambda>tasks.
       let ts = train_of nv train in
       Inr (nv\<lparr> nv_states := (nv_states nv)[nat train := PATHFINDING],
                nv_tasks := (nv_tasks nv)[nat train := tasks],
                nv_pf_tasks := (nv_pf_tasks nv)[nat train :=
                  \<lparr> pt_valid = True, pt_train = ts_train_num ts, pt_source = ts_reged_at_num ts,
                    pt_dest = ts_dest_num ts, pt_delay = 100 \<rparr>] \<rparr>))"

subsection \<open>The handlers\<close>

text \<open>
  A handler gives the messages sent, the new state, and whether it ends with \<open>continue\<close>, which skips
  the end of the loop body.
\<close>

type_synonym handled = "navigation_act list \<times> navigation \<times> bool"

definition handle_navigation_request ::
  "navigation \<Rightarrow> int \<Rightarrow> int \<Rightarrow> int \<Rightarrow> int \<Rightarrow> bool \<Rightarrow> handled cres" where
  "handle_navigation_request nv client train destination_num offset hang =
     cbind (v_p_train_num train) (\<lambda>_.
     let k = nat train; ts = train_of nv train in
       if nv_states nv ! k \<noteq> IDLE then Inr ([Nav_Reply client NAVIGATIONSERVER_BUSY], nv, True)
       else if ts_reged_at_num ts = -1 then Inr ([Nav_Reply client NAVIGATIONSERVER_NEED_REGISTER], nv, True)
       else
         let task = \<lparr> pt_valid = True, pt_train = train, pt_source = ts_reged_at_num ts,
                       pt_dest = destination_num, pt_delay = 0 \<rparr>;
             nv1 = (upd_train nv train (\<lambda>ts. ts\<lparr> ts_dest_num := destination_num, ts_dest_offset := offset \<rparr>))
               \<lparr> nv_states := (nv_states nv)[k := PATHFINDING], nv_clients := (nv_clients nv)[k := client],
                 nv_should_hang := (nv_should_hang nv)[k := hang], nv_train_states_dirty := True \<rparr>
         in if nv_pf_parking nv ! k \<noteq> -1
            then Inr ([give_pathfinder_work nv1 (nv_pf_parking nv ! k) task],
                      nv1\<lparr> nv_pf_parking := (nv_pf_parking nv)[k := -1] \<rparr>, False)
            else Inr ([], nv1\<lparr> nv_pf_tasks := (nv_pf_tasks nv)[k := task] \<rparr>, False))"

definition handle_pathfind_worker :: "navigation \<Rightarrow> int \<Rightarrow> int \<Rightarrow> handled cres" where
  "handle_pathfind_worker nv client train =
     cbind (v_p_train_num train) (\<lambda>_.
     let k = nat train; nv1 = nv\<lparr> nv_pf_parking := (nv_pf_parking nv)[k := client] \<rparr>; task = nv_pf_tasks nv ! k in
       if nv_states nv ! k \<noteq> PATHFINDING \<or> \<not> pt_valid task then Inr ([], nv1, True)
       else Inr ([give_pathfinder_work nv1 client task],
                 nv1\<lparr> nv_pf_parking := (nv_pf_parking nv)[k := -1],
                      nv_pf_tasks := (nv_pf_tasks nv)[k := task\<lparr> pt_valid := False \<rparr>] \<rparr>, False))"

text \<open>The next task of a train, and the search for another path when its track is reserved.\<close>

definition next_or_restart :: "track_node list \<Rightarrow> int \<Rightarrow> int \<Rightarrow> navigation \<Rightarrow> handled cres" where
  "next_or_restart t train now nv =
     cbind (process_next_task t train now nv) (\<lambda>(acts, nv1, restart).
       if restart then cbind (restart_pathfind train nv1) (\<lambda>nv2. Inr (acts, nv2, True))
       else Inr (acts, nv1, False))"

definition handle_pathfind_done ::
  "track_node list \<Rightarrow> int list list \<Rightarrow> int \<Rightarrow> navigation \<Rightarrow> int \<Rightarrow> int \<Rightarrow> pathfind_done \<Rightarrow> handled cres" where
  "handle_pathfind_done t bn now nv client train result =
     cbind (v_p_train_num train) (\<lambda>_.
     let k = nat train; owner = nv_clients nv ! k;
         good = Nav_Reply client NAVIGATIONSERVER_GOOD;
         nv1 = nv\<lparr> nv_states := (nv_states nv)[k := STRAIGHTPATHING] \<rparr> in
       if owner \<noteq> -1 \<and> pd_result result = NO_PATH_AT_ALL
       then Inr ([good, Nav_Reply owner NAVIGATIONSERVER_NO_PATH], nv1\<lparr> nv_states := (nv_states nv)[k := IDLE] \<rparr>, True)
       else
         let answered = owner \<noteq> -1 \<and> \<not> nv_should_hang nv ! k;
             acts = (if answered then [good, Nav_Reply owner NAVIGATIONSERVER_GOOD] else [good]);
             nv2 = (if answered then nv1\<lparr> nv_clients := (nv_clients nv)[k := -1] \<rparr> else nv1)
         in if pd_result result = NO_PATH_WITH_RESERVE
            then cbind (restart_pathfind train nv2) (\<lambda>nv3. Inr (acts, nv3, True))
            else
              cbind (segments_fill_navigation_tasks t bn (pd_path result) (int (pd_path_len result)) (nv_tasks nv2 ! k)
                       (ts_dest_offset (train_of nv2 train)) train) (\<lambda>tasks.
              let nv3 = nv2\<lparr> nv_tasks := (nv_tasks nv2)[k := tasks] \<rparr> in
                if nv_sp_parking nv3 ! k \<noteq> -1
                then cbind (next_or_restart t train now nv3) (\<lambda>(acts', nv4, cont). Inr (acts @ acts', nv4, cont))
                else Inr (acts, nv3, False)))"

definition handle_straightpath_worker ::
  "track_node list \<Rightarrow> int \<Rightarrow> navigation \<Rightarrow> int \<Rightarrow> int \<Rightarrow> handled cres" where
  "handle_straightpath_worker t now nv client train =
     cbind (v_p_train_num train) (\<lambda>_.
     let k = nat train; nv1 = nv\<lparr> nv_sp_parking := (nv_sp_parking nv)[k := client] \<rparr> in
     cbind (if nv_states nv1 ! k \<noteq> STRAIGHTPATHING then Inr True else cb_is_empty (nv_tasks nv1 ! k)) (\<lambda>idle.
       if idle then Inr ([], nv1, True) else next_or_restart t train now nv1))"

definition handle_straightpath_done ::
  "track_node list \<Rightarrow> navigation \<Rightarrow> int \<Rightarrow> int \<Rightarrow> handled cres" where
  "handle_straightpath_done t nv client train =
     cbind (v_p_train_num train) (\<lambda>_.
     cbind (cb_is_empty (nv_tasks nv ! nat train)) (\<lambda>empty.
     cbind (if empty then done_navigation t train nv else Inr ([], nv)) (\<lambda>(acts, nv1).
       Inr (acts @ [Nav_Reply client NAVIGATIONSERVER_GOOD], nv1, False))))"

text \<open>The first train whose worker the client is.\<close>

fun whoami_loop :: "int list \<Rightarrow> int \<Rightarrow> nat \<Rightarrow> nat \<Rightarrow> int option cres" where
  "whoami_loop workers client i 0 = Inr None"
| "whoami_loop workers client i (Suc left) =
     cbind (rd workers i) (\<lambda>w. if w = client then Inr (Some (int i)) else whoami_loop workers client (i + 1) left)"

definition handle_whoami :: "navigation \<Rightarrow> int \<Rightarrow> worker_type \<Rightarrow> handled cres" where
  "handle_whoami nv client type =
     cbind (whoami_loop (if type = STRAIGHTPATH then nv_sp_workers nv else nv_pf_workers nv) client 0 MAX_NUM_TRAINS)
       (\<lambda>found. case found of Some train \<Rightarrow> Inr ([Nav_Reply client (Whoami_Train train)], nv, False)
                | None \<Rightarrow> Inl (Assert_Failed ''Invalid worker''))"

definition handle_register ::
  "track_node list \<Rightarrow> navigation \<Rightarrow> int \<Rightarrow> int \<Rightarrow> int \<Rightarrow> handled cres" where
  "handle_register t nv client train node_num =
     cbind (rdi t node_num) (\<lambda>n.
     cbind (v_p_train_num train) (\<lambda>_.
     let nv1 = upd_train nv train (\<lambda>ts. ts\<lparr> ts_reged_at_num := node_num,
           ts_reged_at_offset := (if n_type n = NODE_ENTER then TRAIN_LEN else 0) \<rparr>)
     in cbind (clear_reserved_by_train t train nv1) (\<lambda>nv2.
        cbind (reserve_node t node_num train nv2) (\<lambda>nv3.
          Inr ([Nav_Reply client NAVIGATIONSERVER_GOOD], nv3\<lparr> nv_train_states_dirty := True \<rparr>, False)))))"

definition handle_attributions ::
  "track_node list \<Rightarrow> navigation \<Rightarrow> int \<Rightarrow> int list \<Rightarrow> handled cres" where
  "handle_attributions t nv client pool =
     cbind (cfold (\<lambda>nv i. cbind (rd pool i) (\<lambda>train.
              if train \<noteq> UNATTRIBUTED \<and> train \<noteq> NOT_TRIGGERED
              then unreserve_path_src_up_to_node t (int i) train nv else Inr nv))
            nv [0..<NUM_SENSOR_GROUPS * SENSORS_PER_GROUP]) (\<lambda>nv1.
       Inr ([Nav_Reply client NAVIGATIONSERVER_GOOD], nv1, False))"

definition handle_navigation ::
  "track_node list \<Rightarrow> int list list \<Rightarrow> int \<Rightarrow> navigation \<Rightarrow> int \<Rightarrow> navigation_request \<Rightarrow> handled cres" where
  "handle_navigation t bn now nv client req =
     (case req of
        NAVIGATION_REQUEST train dest offset hang \<Rightarrow> handle_navigation_request nv client train dest offset hang
      | PATHFIND_WORKER train \<Rightarrow> handle_pathfind_worker nv client train
      | PATHFIND_WORKER_DONE train result \<Rightarrow> handle_pathfind_done t bn now nv client train result
      | STRAIGHTPATH_WORKER train \<Rightarrow> handle_straightpath_worker t now nv client train
      | STRAIGHTPATH_WORKER_DONE train \<Rightarrow> handle_straightpath_done t nv client train
      | WHOAMI type \<Rightarrow> handle_whoami nv client type
      | GET_RESERVATIONS \<Rightarrow> Inr ([], nv\<lparr> nv_reservation_client := client \<rparr>, False)
      | GET_TRAIN_STATE \<Rightarrow> Inr ([], nv\<lparr> nv_trainstate_client := client \<rparr>, False)
      | REGISTER_LOCATION train node_num \<Rightarrow> handle_register t nv client train node_num
      | NAVIGATIONSERVER_ATTRIBUTION_COURIER pool \<Rightarrow> handle_attributions t nv client pool)"

text \<open>
  The end of the loop body. The copy of the train states is \<open>sizeof(train_states) * MAX_NUM_TRAINS\<close> bytes long, six
  times the size of the array it reads from and more than the response it writes to.
\<close>

definition inform_printers :: "navigation \<Rightarrow> (navigation_act list \<times> navigation) cres" where
  "inform_printers nv =
     (let (acts, nv1) =
        (if nv_reservation_client nv \<noteq> -1 \<and> nv_reservation_dirty nv
         then ([Nav_Reply (nv_reservation_client nv) (Reservations (nv_reserved nv))],
               nv\<lparr> nv_reservation_client := -1, nv_reservation_dirty := False \<rparr>)
         else ([], nv))
      in if nv_trainstate_client nv1 \<noteq> -1 \<and> nv_train_states_dirty nv1 then Inl Out_Of_Bounds
         else Inr (acts, nv1))"

definition navigation_step ::
  "track_node list \<Rightarrow> int list list \<Rightarrow> int \<Rightarrow> navigation \<Rightarrow> int \<Rightarrow> navigation_request \<Rightarrow>
     (navigation_act list \<times> navigation) cres" where
  "navigation_step t bn now nv client req =
     cbind (handle_navigation t bn now nv client req) (\<lambda>(acts, nv1, continue).
       if continue then Inr (acts, nv1)
       else cbind (inform_printers nv1) (\<lambda>(acts', nv2). Inr (acts @ acts', nv2)))"

end
