(* ===== verification/Navigation_Properties.thy ===== *)
theory Navigation_Properties
  imports Navigation_Server
begin

section \<open>What the navigation server guarantees\<close>

text \<open>
  Reservations: a node and its reverse always belong to the same train, track goes from one train to another only by
  being freed in between, and a straight piece is handed out only when all of it is reserved for the train.
\<close>

subsection \<open>Nodes and their reverses\<close>

definition involution :: "(nat \<Rightarrow> nat option) \<Rightarrow> bool" where
  "involution f \<longleftrightarrow> list_all (\<lambda>i. case f i of None \<Rightarrow> True | Some j \<Rightarrow> j < TRACK_MAX \<and> f j = Some i) [0..<TRACK_MAX]"

definition mirror_ok :: "track_node list \<Rightarrow> bool" where
  "mirror_ok t \<longleftrightarrow> length t = TRACK_MAX \<and> involution (\<lambda>i. n_reverse (t ! i))"

lemma mirror_init: "mirror_ok init_tracka" "mirror_ok init_trackb"
  by (simp_all add: mirror_ok_def involution_def TRACK_MAX_def list_all_upt_2 init_tracka_nth init_trackb_nth)

lemma mirror_set_dist: "mirror_ok t \<Longrightarrow> mirror_ok (set_dist t i d x)"
proof -
  assume t: "mirror_ok t"
  have "(\<lambda>j. n_reverse (set_dist t i d x ! j)) = (\<lambda>j. n_reverse (t ! j))"
    by (rule ext) (simp add: set_dist_def nth_update)
  then show ?thesis using t by (simp add: mirror_ok_def)
qed

lemma mirror_boot: "mirror_ok tracka_boot" "mirror_ok trackb_boot"
  by (simp_all add: tracka_boot_def trackb_boot_def mirror_set_dist mirror_init)

lemma mirrorD:
  assumes "mirror_ok t" "i < TRACK_MAX" "n_reverse (t ! i) = Some j"
  shows "j < TRACK_MAX" "n_reverse (t ! j) = Some i"
  using assms by (auto simp: mirror_ok_def involution_def list_all_iff dest!: bspec [where x = i])

definition mirrored :: "track_node list \<Rightarrow> int list \<Rightarrow> bool" where
  "mirrored t r \<longleftrightarrow> length r = TRACK_MAX \<and>
     (\<forall>i < TRACK_MAX. case n_reverse (t ! i) of None \<Rightarrow> r ! i = -1 | Some j \<Rightarrow> r ! j = r ! i)"

lemma mirrored_pair:
  assumes "mirror_ok t" "mirrored t r" "i < TRACK_MAX" "n_reverse (t ! i) = Some j"
  shows "mirrored t (r[i := x, j := x])"
proof -
  have j: "j < TRACK_MAX" "n_reverse (t ! j) = Some i" by (rule mirrorD [OF assms(1,3,4)])+
  have "case n_reverse (t ! k) of None \<Rightarrow> r[i := x, j := x] ! k = -1
      | Some l \<Rightarrow> r[i := x, j := x] ! l = r[i := x, j := x] ! k" if k: "k < TRACK_MAX" for k
  proof (cases "n_reverse (t ! k)")
    case None
    then show ?thesis using assms j k by (auto simp: mirrored_def nth_list_update)
  next
    case (Some l)
    have l: "l < TRACK_MAX" "n_reverse (t ! l) = Some k" by (rule mirrorD [OF assms(1) k Some])+
    have "l = i \<longleftrightarrow> k = j" "l = j \<longleftrightarrow> k = i" using Some l j assms(4) by auto
    moreover have "r ! l = r ! k" using assms(2) k Some unfolding mirrored_def by fastforce
    ultimately show ?thesis using Some assms(2,3) j k l by (auto simp: mirrored_def nth_list_update)
  qed
  then show ?thesis using assms(2) by (simp add: mirrored_def)
qed

text \<open>What one train's operations may do to the table: free the track of the train, or take free track.\<close>

definition own_change :: "int \<Rightarrow> int list \<Rightarrow> int list \<Rightarrow> bool" where
  "own_change train r r' \<longleftrightarrow> length r' = length r \<and>
     (\<forall>i < length r. r' ! i = r ! i \<or> r ! i \<in> {-1, train} \<and> r' ! i \<in> {-1, train})"

definition frees :: "int list \<Rightarrow> int list \<Rightarrow> bool" where
  "frees r r' \<longleftrightarrow> length r' = length r \<and> (\<forall>i < length r. r' ! i = r ! i \<or> r' ! i = -1)"

lemma own_change_refl [simp]: "own_change train r r"
  by (simp add: own_change_def)

lemma own_change_trans: "own_change train r r' \<Longrightarrow> own_change train r' r'' \<Longrightarrow> own_change train r r''"
  unfolding own_change_def by (metis insertE)

lemma frees_refl [simp]: "frees r r"
  by (simp add: frees_def)

lemma frees_trans: "frees r r' \<Longrightarrow> frees r' r'' \<Longrightarrow> frees r r''"
  unfolding frees_def by metis

text \<open>The rest of the state.\<close>

definition same_but_reserved :: "navigation \<Rightarrow> navigation \<Rightarrow> bool" where
  "same_but_reserved nv nv' \<longleftrightarrow>
     nv' = nv\<lparr> nv_reserved := nv_reserved nv', nv_reservation_dirty := nv_reservation_dirty nv' \<rparr>"

lemma same_refl [simp]: "same_but_reserved nv nv"
  by (simp add: same_but_reserved_def)

lemma same_trans: "same_but_reserved nv nv' \<Longrightarrow> same_but_reserved nv' nv'' \<Longrightarrow> same_but_reserved nv nv''"
  by (cases nv, cases nv', cases nv'') (simp add: same_but_reserved_def)

lemma same_upd [simp]: "same_but_reserved nv (nv\<lparr> nv_reserved := r, nv_reservation_dirty := d \<rparr>)"
  by (simp add: same_but_reserved_def)

lemma same_sel:
  assumes "same_but_reserved nv nv'"
  shows "nv_states nv' = nv_states nv" "nv_clients nv' = nv_clients nv" "nv_should_hang nv' = nv_should_hang nv"
    "nv_trains nv' = nv_trains nv" "nv_cur nv' = nv_cur nv" "nv_sp_parking nv' = nv_sp_parking nv"
    "nv_pf_parking nv' = nv_pf_parking nv" "nv_tasks nv' = nv_tasks nv" "nv_pf_tasks nv' = nv_pf_tasks nv"
    "nv_sp_workers nv' = nv_sp_workers nv" "nv_pf_workers nv' = nv_pf_workers nv"
  by (subst assms [unfolded same_but_reserved_def], simp)+

subsection \<open>The operations on the table\<close>

lemma reverse_num_Inr: "reverse_num t p = Inr q \<longleftrightarrow>
    (\<exists>i j. p = int i \<and> q = int j \<and> i < length t \<and> n_reverse (t ! i) = Some j)"
  by (auto simp: reverse_num_def c_simps split: option.splits) (metis int_nat_eq)

lemma reserve_node_Inr:
  assumes "mirror_ok t" "mirrored t (nv_reserved nv)" "reserve_node t p train nv = Inr nv'"
  obtains i j where "p = int i" "i < TRACK_MAX" "n_reverse (t ! i) = Some j" "j < TRACK_MAX"
    "nv_reserved nv' = (nv_reserved nv)[i := train, j := train]" "mirrored t (nv_reserved nv')"
    "same_but_reserved nv nv'"
proof -
  obtain i j where ij: "p = int i" "i < length t" "n_reverse (t ! i) = Some j"
    "nv' = nv\<lparr> nv_reserved := (nv_reserved nv)[i := train, j := train], nv_reservation_dirty := True \<rparr>"
    using assms(3) by (auto simp: reserve_node_def c_simps reverse_num_Inr)
  have i: "i < TRACK_MAX" using ij(2) assms(1) by (simp add: mirror_ok_def)
  then have "j < TRACK_MAX" by (rule mirrorD(1) [OF assms(1) _ ij(3)])
  moreover have "mirrored t ((nv_reserved nv)[i := train, j := train])"
    by (rule mirrored_pair [OF assms(1,2) i ij(3)])
  ultimately show ?thesis using that [of i j] ij i by simp
qed

lemma unreserve_node_Inr:
  assumes "mirror_ok t" "mirrored t (nv_reserved nv)" "unreserve_node t p train nv = Inr nv'"
  shows "mirrored t (nv_reserved nv')" "own_change train (nv_reserved nv) (nv_reserved nv')"
    "frees (nv_reserved nv) (nv_reserved nv')" "same_but_reserved nv nv'"
proof -
  consider "nv' = nv" | i j where "i < length t" "n_reverse (t ! i) = Some j" "nv_reserved nv ! i = train"
    "nv' = nv\<lparr> nv_reserved := (nv_reserved nv)[i := -1, j := -1], nv_reservation_dirty := True \<rparr>"
  proof -
    obtain ts where ts: "rdi (nv_trains nv) train = Inr ts" "rdi (nv_reserved nv) p \<noteq> Inl Out_Of_Bounds"
      using assms(3) by (fastforce simp: unreserve_node_def cbind_Inr_iff)
    show ?thesis
    proof (cases "rdi (nv_reserved nv) p = Inr train")
      case False
      then have "nv' = nv" using assms(3) ts by (auto simp: unreserve_node_def cbind_Inr_iff split: if_splits)
      then show ?thesis by (rule that(1))
    next
      case True
      then obtain q where q: "reverse_num t p = Inr q" using assms(3) ts by (auto simp: unreserve_node_def cbind_Inr_iff)
      then obtain i j where ij: "p = int i" "q = int j" "i < length t" "n_reverse (t ! i) = Some j"
        by (auto simp: reverse_num_Inr)
      have "nv' = nv \<or> nv' = nv\<lparr> nv_reserved := (nv_reserved nv)[i := -1, j := -1], nv_reservation_dirty := True \<rparr>"
        using assms(3) ts True q ij(1,2) by (auto simp: unreserve_node_def cbind_Inr_iff wri_Inr_iff split: if_splits)
      moreover have "nv_reserved nv ! i = train" using True ij(1) by (simp add: rdi_Inr_iff)
      ultimately show ?thesis using that ij(3,4) by blast
    qed
  qed
  then have "mirrored t (nv_reserved nv') \<and> own_change train (nv_reserved nv) (nv_reserved nv') \<and>
    frees (nv_reserved nv) (nv_reserved nv') \<and> same_but_reserved nv nv'"
  proof cases
    case 2
    have i: "i < TRACK_MAX" using 2(1) assms(1) by (simp add: mirror_ok_def)
    then have j: "j < TRACK_MAX" by (rule mirrorD(1) [OF assms(1) _ 2(2)])
    have "nv_reserved nv ! j = train" using assms(2) i 2(2,3) by (auto simp: mirrored_def)
    moreover have "mirrored t ((nv_reserved nv)[i := -1, j := -1])" by (rule mirrored_pair [OF assms(1,2) i 2(2)])
    ultimately show ?thesis
      using 2(3,4) i j by (auto simp: own_change_def frees_def nth_update)
  qed (use assms(2) in simp)
  then show "mirrored t (nv_reserved nv')" "own_change train (nv_reserved nv) (nv_reserved nv')"
    "frees (nv_reserved nv) (nv_reserved nv')" "same_but_reserved nv nv'" by blast+
qed

text \<open>Operations of one train that only touch the table.\<close>

definition own_step :: "track_node list \<Rightarrow> int \<Rightarrow> navigation \<Rightarrow> navigation \<Rightarrow> bool" where
  "own_step t train nv nv' \<longleftrightarrow> mirrored t (nv_reserved nv') \<and>
     own_change train (nv_reserved nv) (nv_reserved nv') \<and> same_but_reserved nv nv'"

definition free_step :: "track_node list \<Rightarrow> navigation \<Rightarrow> navigation \<Rightarrow> bool" where
  "free_step t nv nv' \<longleftrightarrow> mirrored t (nv_reserved nv') \<and>
     frees (nv_reserved nv) (nv_reserved nv') \<and> same_but_reserved nv nv'"

lemma own_step_trans: "own_step t train nv nv' \<Longrightarrow> own_step t train nv' nv'' \<Longrightarrow> own_step t train nv nv''"
  unfolding own_step_def using own_change_trans same_trans by blast

lemma free_step_trans: "free_step t nv nv' \<Longrightarrow> free_step t nv' nv'' \<Longrightarrow> free_step t nv nv''"
  unfolding free_step_def using frees_trans same_trans by blast

lemma unreserve_node_steps:
  assumes "mirror_ok t" "mirrored t (nv_reserved nv)" "unreserve_node t p train nv = Inr nv'"
  shows "own_step t train nv nv'" "free_step t nv nv'"
  unfolding own_step_def free_step_def using unreserve_node_Inr [OF assms] by blast+

lemma clear_reserved_step:
  assumes t: "mirror_ok t" and nv: "mirrored t (nv_reserved nv)" and "clear_reserved_by_train t train nv = Inr nv'"
  shows "own_step t train nv nv'"
proof (rule cfold_invariant [where P = "own_step t train nv", OF assms(3) [unfolded clear_reserved_by_train_def]])
  show "own_step t train nv nv" using nv by (simp add: own_step_def)
  show "own_step t train nv nv2" if "own_step t train nv nv1" "unreserve_node t (int i) train nv1 = Inr nv2"
    for nv1 i nv2
    using own_step_trans [OF that(1) unreserve_node_steps(1) [OF t _ that(2)]] that(1) by (simp add: own_step_def)
qed

lemma unreserve_loop_step:
  "mirror_ok t \<Longrightarrow> mirrored t (nv_reserved nv) \<Longrightarrow> unreserve_loop t path p train i left nv = Inr nv' \<Longrightarrow>
     free_step t nv nv'"
proof (induction left arbitrary: i nv)
  case 0
  then show ?case by (simp add: free_step_def)
next
  case (Suc left)
  obtain q nv1 where nv1: "unreserve_node t q train nv = Inr nv1"
    "nv' = nv1 \<or> unreserve_loop t path p train (i + 1) left nv1 = Inr nv'"
    using Suc.prems(3) by (auto simp: cbind_Inr_iff split: if_splits)
  have step: "free_step t nv nv1" by (rule unreserve_node_steps(2) [OF Suc.prems(1,2) nv1(1)])
  then have "mirrored t (nv_reserved nv1)" by (simp add: free_step_def)
  then show ?case using nv1(2) Suc.IH [OF Suc.prems(1)] free_step_trans [OF step] step by blast
qed

lemma can_reserve_True:
  "can_reserve_segment r path train i n = Inr True \<Longrightarrow> k < n \<Longrightarrow>
     i + k < length path \<and> 0 \<le> path ! (i + k) \<and> nat (path ! (i + k)) < length r \<and> r ! nat (path ! (i + k)) \<in> {-1, train}"
proof (induction n arbitrary: i k)
  case (Suc n)
  then show ?case
    by (cases k) (fastforce simp: cbind_Inr_iff rd_Inr_iff rdi_Inr_iff split: if_splits)+
qed simp

text \<open>Reserving a path that may be reserved: afterwards all of it belongs to the train.\<close>

lemma reserve_path_step:
  assumes t: "mirror_ok t" and nv: "mirrored t (nv_reserved nv)"
    and free: "\<forall>k < n. 0 \<le> path ! k \<and> nat (path ! k) < TRACK_MAX \<and> nv_reserved nv ! nat (path ! k) \<in> {-1, train}"
    and "cfold (\<lambda>nv i. cbind (rd path i) (\<lambda>p. reserve_node t p train nv)) nv [0..<n] = Inr nv'"
  shows "own_step t train nv nv' \<and> (\<forall>k < n. nv_reserved nv' ! nat (path ! k) = train)"
  using free assms(4)
proof (induction n arbitrary: nv')
  case 0
  then show ?case using nv by (simp add: own_step_def)
next
  case (Suc n)
  obtain nv1 where nv1: "cfold (\<lambda>nv i. cbind (rd path i) (\<lambda>p. reserve_node t p train nv)) nv [0..<n] = Inr nv1"
    "reserve_node t (path ! n) train nv1 = Inr nv'"
    using Suc.prems(2) by (auto simp: cfold_append cbind_Inr_iff rd_Inr_iff)
  have IH: "own_step t train nv nv1" "\<forall>k < n. nv_reserved nv1 ! nat (path ! k) = train"
    using Suc.IH [OF _ nv1(1)] Suc.prems(1) by auto
  have m1: "mirrored t (nv_reserved nv1)" using IH(1) by (simp add: own_step_def)
  obtain i j where ij: "path ! n = int i" "i < TRACK_MAX" "n_reverse (t ! i) = Some j" "j < TRACK_MAX"
    "nv_reserved nv' = (nv_reserved nv1)[i := train, j := train]" "mirrored t (nv_reserved nv')"
    "same_but_reserved nv1 nv'"
    by (rule reserve_node_Inr [OF t m1 nv1(2)])
  have len: "length (nv_reserved nv) = TRACK_MAX" "length (nv_reserved nv1) = TRACK_MAX"
    using nv m1 by (simp_all add: mirrored_def)
  have "nv_reserved nv ! i \<in> {-1, train}" using Suc.prems(1) ij(1) by auto
  then have i: "nv_reserved nv1 ! i \<in> {-1, train}"
    using IH(1) ij(2) len unfolding own_step_def own_change_def by metis
  have "nv_reserved nv1 ! j = nv_reserved nv1 ! i" using m1 ij(2,3) by (auto simp: mirrored_def)
  then have "own_change train (nv_reserved nv1) (nv_reserved nv')"
    using i ij(5) by (auto simp: own_change_def nth_update)
  then have "own_step t train nv1 nv'" using ij(6,7) by (simp add: own_step_def)
  moreover have "nv_reserved nv' ! nat (path ! k) = train" if "k < Suc n" for k
    using that IH(2) ij(1,2,4,5) len by (cases "k = n") (auto simp: nth_update)
  ultimately show ?case using own_step_trans [OF IH(1)] by blast
qed

subsection \<open>Handing out work\<close>

text \<open>Every piece handed out is reserved for the train.\<close>

definition granted :: "int \<Rightarrow> int list \<Rightarrow> navigation_act list \<Rightarrow> bool" where
  "granted train r acts \<longleftrightarrow> (\<forall>w path len dist delay.
     Nav_Reply w (STRAIGHTPATH_WORKER_HERES_WORK path len dist delay) \<in> set acts \<longrightarrow>
       (\<forall>k < nat len. 0 \<le> path ! k \<and> nat (path ! k) < TRACK_MAX \<and> r ! nat (path ! k) = train))"

lemma granted_simps [simp]:
  "granted train r []"
  "granted train r (HardReverse a b # acts) = granted train r acts"
  "granted train r (Nav_Reply c NAVIGATIONSERVER_GOOD # acts) = granted train r acts"
  "granted train r (Nav_Reply c NAVIGATIONSERVER_NO_PATH # acts) = granted train r acts"
  "granted train r (Nav_Reply c NAVIGATIONSERVER_BUSY # acts) = granted train r acts"
  "granted train r (Nav_Reply c NAVIGATIONSERVER_NEED_REGISTER # acts) = granted train r acts"
  "granted train r (Nav_Reply c (Whoami_Train i) # acts) = granted train r acts"
  "granted train r (Nav_Reply c (Reservations rs) # acts) = granted train r acts"
  "granted train r (Nav_Reply c (PATHFIND_WORKER_HERES_WORK x1 x2 x3 x4 x5) # acts) = granted train r acts"
  "granted train r (acts @ acts') \<longleftrightarrow> granted train r acts \<and> granted train r acts'"
  by (simp_all add: granted_def) blast

definition work_ok :: "track_node list \<Rightarrow> int \<Rightarrow> navigation \<Rightarrow> navigation_act list \<Rightarrow> navigation \<Rightarrow> bool" where
  "work_ok t train nv acts nv' \<longleftrightarrow> mirrored t (nv_reserved nv') \<and> own_change train (nv_reserved nv) (nv_reserved nv') \<and>
     granted train (nv_reserved nv') acts \<and> nv_pf_parking nv' = nv_pf_parking nv \<and>
     (\<forall>k. k \<noteq> nat train \<longrightarrow> nv_states nv' ! k = nv_states nv ! k)"

lemma memcpy_loop_Inr: "memcpy_loop dest src i n = Inr d \<Longrightarrow> 0 < n \<Longrightarrow> i + n \<le> length src \<and> i + n \<le> length dest"
proof (induction dest src i n rule: memcpy_loop.induct)
  case (2 dest src i left)
  then show ?case by (cases left) (auto simp: cbind_Inr_iff rd_Inr_iff wr_Inr_iff)
qed simp

lemma memcpy_Inr:
  assumes "memcpy dest src n = Inr d"
  shows "n \<le> length src" "n \<le> length dest" "d = take n src @ drop n dest"
proof -
  show n: "n \<le> length src" "n \<le> length dest"
    using memcpy_loop_Inr [of dest src 0 n d] assms by (cases n; simp add: memcpy_def)+
  show "d = take n src @ drop n dest" using memcpy_ok [OF n] assms by simp
qed

lemma process_straightpath_ok:
  assumes t: "mirror_ok t" and nv: "mirrored t (nv_reserved nv)"
    and run: "process_straightpath_task t train task nv = Inr (acts, nv', restart)"
  shows "work_ok t train nv acts nv'"
proof -
  let ?nv0 = "nv\<lparr> nv_cur := (nv_cur nv)[nat train := task] \<rparr>" and ?n = "nat (sp_path_len task)"
  obtain nv1 can where nv1: "clear_reserved_by_train t train ?nv0 = Inr nv1"
    "can_reserve_segment (nv_reserved nv1) (sp_path task) train 0 ?n = Inr can"
    using run by (auto simp: process_straightpath_task_def cbind_Inr_iff)
  have step1: "own_step t train ?nv0 nv1" by (rule clear_reserved_step [OF t _ nv1(1)]) (use nv in simp)
  then have m1: "mirrored t (nv_reserved nv1)" "own_change train (nv_reserved nv) (nv_reserved nv1)"
    "same_but_reserved ?nv0 nv1" by (simp_all add: own_step_def)
  show ?thesis
  proof (cases can)
    case False
    then show ?thesis
      using run nv1 m1 same_sel [OF m1(3)] by (auto simp: process_straightpath_task_def work_ok_def)
  next
    case True
    obtain nv2 act e where nv2: "reserve_path t (sp_path task) (sp_path_len task) train nv1 = Inr nv2"
      "give_straightpath_work nv2 (nv_sp_parking nv2 ! nat train) task = Inr act" "acts = [act]"
      "nv' = upd_train (nv2\<lparr> nv_sp_parking := (nv_sp_parking nv2)[nat train := -1] \<rparr>) train
               (\<lambda>ts. ts\<lparr> ts_reged_at_num := e, ts_reged_at_offset := 0 \<rparr>)"
      using run nv1 True by (auto simp: process_straightpath_task_def cbind_Inr_iff)
    have "length (nv_reserved nv1) = TRACK_MAX" using m1(1) by (simp add: mirrored_def)
    then have free: "\<forall>k < ?n. 0 \<le> sp_path task ! k \<and> nat (sp_path task ! k) < TRACK_MAX \<and>
        nv_reserved nv1 ! nat (sp_path task ! k) \<in> {-1, train}"
      using can_reserve_True [of "nv_reserved nv1" "sp_path task" train 0 ?n] nv1(2) True by auto
    have step2: "own_step t train nv1 nv2 \<and> (\<forall>k < ?n. nv_reserved nv2 ! nat (sp_path task ! k) = train)"
      by (rule reserve_path_step [OF t m1(1) free nv2(1) [unfolded reserve_path_def]])
    then have m2: "mirrored t (nv_reserved nv2)" "own_change train (nv_reserved nv1) (nv_reserved nv2)"
      "same_but_reserved nv1 nv2" by (simp_all add: own_step_def)
    obtain path dist delay where act: "memcpy (replicate TRACK_MAX 0) (sp_path task) ?n = Inr path"
      "act = Nav_Reply (nv_sp_parking nv2 ! nat train) (STRAIGHTPATH_WORKER_HERES_WORK path (sp_path_len task) dist delay)"
      using nv2(2) by (auto simp: give_straightpath_work_def cbind_Inr_iff)
    have "path ! k = sp_path task ! k" if "k < ?n" for k
      using that memcpy_Inr [OF act(1)] by (simp add: nth_append)
    then have "granted train (nv_reserved nv2) acts"
      using free step2 act(2) nv2(3) by (simp add: granted_def)
    then show ?thesis
      using m2 own_change_trans [OF m1(2) m2(2)] same_sel [OF m1(3)] same_sel [OF m2(3)] nv2(4)
      by (simp add: work_ok_def upd_train_def)
  qed
qed

lemma done_navigation_ok:
  assumes t: "mirror_ok t" and nv: "mirrored t (nv_reserved nv)" and run: "done_navigation t train nv = Inr (acts, nv')"
  shows "work_ok t train nv acts nv'"
proof -
  obtain nv1 where nv1: "clear_reserved_by_train t train nv = Inr nv1"
    using run by (auto simp: done_navigation_def cbind_Inr_iff)
  have step: "own_step t train nv nv1" by (rule clear_reserved_step [OF t nv nv1])
  then have m1: "mirrored t (nv_reserved nv1)" "own_change train (nv_reserved nv) (nv_reserved nv1)"
    "same_but_reserved nv nv1" by (simp_all add: own_step_def)
  show ?thesis
    using run nv1 m1 same_sel [OF m1(3)]
    by (auto simp: done_navigation_def work_ok_def Let_def nth_update split: if_splits)
qed

lemma process_reverse_ok:
  assumes t: "mirror_ok t" and nv: "mirrored t (nv_reserved nv)"
    and run: "process_reverse t train now nv = Inr (acts, nv', restart)"
  shows "work_ok t train nv acts nv'"
proof -
  obtain rev where rev: "reverse_num t (ts_reged_at_num (train_of nv train)) = Inr rev"
    using run by (auto simp: process_reverse_def cbind_Inr_iff)
  define nv1 where "nv1 = (upd_train nv train (\<lambda>ts. ts\<lparr> ts_reversed := \<not> ts_reversed ts, ts_reged_at_num := rev,
                  ts_reged_at_offset := -100 \<rparr>))\<lparr> nv_train_states_dirty := True \<rparr>"
  have sel: "nv_reserved nv1 = nv_reserved nv" "nv_pf_parking nv1 = nv_pf_parking nv" "nv_states nv1 = nv_states nv"
    by (simp_all add: nv1_def upd_train_def)
  have "(\<exists>tasks task acts'. process_straightpath_task t train task (nv1\<lparr> nv_tasks := tasks \<rparr>) = Inr (acts', nv', restart) \<and>
      acts = HardReverse train now # acts') \<or>
    (\<exists>acts'. done_navigation t train nv1 = Inr (acts', nv') \<and> acts = HardReverse train now # acts')"
    using run rev unfolding process_reverse_def
    by (auto simp: cbind_Inr_iff nv1_def [symmetric] Let_def split: if_splits)
  then show ?thesis
    using process_straightpath_ok [OF t, of "nv1\<lparr> nv_tasks := _ \<rparr>"] done_navigation_ok [OF t, of nv1] nv sel
    by (fastforce simp: work_ok_def)
qed

lemma process_next_ok:
  assumes t: "mirror_ok t" and nv: "mirrored t (nv_reserved nv)"
    and run: "process_next_task t train now nv = Inr (acts, nv', restart)"
  shows "work_ok t train nv acts nv'"
proof -
  obtain tasks task where "process_reverse t train now (nv\<lparr> nv_tasks := tasks \<rparr>) = Inr (acts, nv', restart) \<or>
      process_straightpath_task t train task (nv\<lparr> nv_tasks := tasks \<rparr>) = Inr (acts, nv', restart)"
    using run by (auto simp: process_next_task_def cbind_Inr_iff Let_def split: if_splits)
  then show ?thesis
    using process_reverse_ok [OF t, of "nv\<lparr> nv_tasks := tasks \<rparr>"]
      process_straightpath_ok [OF t, of "nv\<lparr> nv_tasks := tasks \<rparr>"] nv
    by (auto simp: work_ok_def)
qed

lemma next_or_restart_ok:
  assumes t: "mirror_ok t" and nv: "mirrored t (nv_reserved nv)"
    and run: "next_or_restart t train now nv = Inr (acts, nv', cont)"
  shows "work_ok t train nv acts nv'"
proof -
  obtain nv1 restart where nv1: "process_next_task t train now nv = Inr (acts, nv1, restart)"
    "nv' = nv1 \<or> restart_pathfind train nv1 = Inr nv'"
    using run by (auto simp: next_or_restart_def cbind_Inr_iff split: if_splits)
  have "work_ok t train nv acts nv1" by (rule process_next_ok [OF t nv nv1(1)])
  moreover have "nv_reserved nv' = nv_reserved nv1 \<and> nv_pf_parking nv' = nv_pf_parking nv1 \<and>
      (\<forall>k. k \<noteq> nat train \<longrightarrow> nv_states nv' ! k = nv_states nv1 ! k)"
    using nv1(2) by (auto simp: restart_pathfind_def cbind_Inr_iff Let_def)
  ultimately show ?thesis by (simp add: work_ok_def)
qed

subsection \<open>Every step\<close>

definition passes :: "navigation_request \<Rightarrow> int list \<Rightarrow> int list \<Rightarrow> bool" where
  "passes req r r' \<longleftrightarrow> (\<forall>i < TRACK_MAX. r' ! i \<noteq> r ! i \<longrightarrow> r ! i = -1 \<or> r' ! i = -1 \<or>
     (\<exists>train node. req = REGISTER_LOCATION train node \<and> r' ! i = train))"

definition handled_ok :: "track_node list \<Rightarrow> navigation_request \<Rightarrow> navigation \<Rightarrow> navigation_act list \<Rightarrow> navigation \<Rightarrow> bool" where
  "handled_ok t req nv acts nv' \<longleftrightarrow> mirrored t (nv_reserved nv') \<and> passes req (nv_reserved nv) (nv_reserved nv') \<and>
     (\<exists>train. granted train (nv_reserved nv') acts \<and>
        (own_change train (nv_reserved nv) (nv_reserved nv') \<or> (\<forall>train. granted train (nv_reserved nv') acts)))"

lemma own_change_passes: "length r = TRACK_MAX \<Longrightarrow> own_change train r r' \<Longrightarrow> passes req r r'"
  by (fastforce simp: passes_def own_change_def)

lemma work_handled:
  assumes "mirrored t (nv_reserved nv)" "work_ok t train nv acts nv'"
  shows "handled_ok t req nv acts nv'"
  using assms own_change_passes [of "nv_reserved nv" train "nv_reserved nv'"]
  by (auto simp: handled_ok_def work_ok_def mirrored_def)

lemma quiet_handled:
  assumes "mirrored t (nv_reserved nv)" "nv_reserved nv' = nv_reserved nv" "\<And>train. granted train (nv_reserved nv) acts"
  shows "handled_ok t req nv acts nv'"
  using assms by (auto simp: handled_ok_def passes_def)

lemma register_handled:
  assumes t: "mirror_ok t" and nv: "mirrored t (nv_reserved nv)"
    and run: "handle_register t nv client train node = Inr (acts, nv', cont)"
  shows "handled_ok t (REGISTER_LOCATION train node) nv acts nv'"
proof -
  obtain f nv1 nv2 where nv2: "clear_reserved_by_train t train (upd_train nv train f) = Inr nv1"
    "reserve_node t node train nv1 = Inr nv2" "nv' = nv2\<lparr> nv_train_states_dirty := True \<rparr>"
    "acts = [Nav_Reply client NAVIGATIONSERVER_GOOD]"
    using run by (auto simp: handle_register_def cbind_Inr_iff Let_def)
  have "own_step t train (upd_train nv train f) nv1"
    by (rule clear_reserved_step [OF t _ nv2(1)]) (use nv in \<open>simp add: upd_train_def\<close>)
  then have m1: "mirrored t (nv_reserved nv1)" "own_change train (nv_reserved nv) (nv_reserved nv1)"
    by (simp_all add: own_step_def upd_train_def)
  obtain i j where ij: "nv_reserved nv2 = (nv_reserved nv1)[i := train, j := train]" "mirrored t (nv_reserved nv2)"
    by (rule reserve_node_Inr [OF t m1(1) nv2(2)])
  have "length (nv_reserved nv) = TRACK_MAX" using nv by (simp add: mirrored_def)
  then have "passes (REGISTER_LOCATION train node) (nv_reserved nv) (nv_reserved nv2)"
    using m1(2) ij(1) by (fastforce simp: passes_def own_change_def nth_update)
  then show ?thesis using nv2(3,4) ij(2) by (simp add: handled_ok_def)
qed

lemma attributions_handled:
  assumes t: "mirror_ok t" and nv: "mirrored t (nv_reserved nv)"
    and run: "handle_attributions t nv client pool = Inr (acts, nv', cont)"
  shows "handled_ok t req nv acts nv'"
proof -
  have fold: "cfold (\<lambda>nv i. cbind (rd pool i) (\<lambda>train.
        if train \<noteq> UNATTRIBUTED \<and> train \<noteq> NOT_TRIGGERED
        then unreserve_path_src_up_to_node t (int i) train nv else Inr nv))
      nv [0..<NUM_SENSOR_GROUPS * SENSORS_PER_GROUP] = Inr nv'" "acts = [Nav_Reply client NAVIGATIONSERVER_GOOD]"
    using run by (auto simp: handle_attributions_def cbind_Inr_iff)
  have "free_step t nv nv'"
  proof (rule cfold_invariant [where P = "free_step t nv", OF fold(1)])
    show "free_step t nv nv" using nv by (simp add: free_step_def)
    fix nv1 i nv2
    assume nv1: "free_step t nv nv1" and step: "cbind (rd pool i) (\<lambda>train.
        if train \<noteq> UNATTRIBUTED \<and> train \<noteq> NOT_TRIGGERED
        then unreserve_path_src_up_to_node t (int i) train nv1 else Inr nv1) = Inr nv2"
    then consider "nv2 = nv1" | train path n where "unreserve_loop t path (int i) train 0 n nv1 = Inr nv2"
      by (auto simp: cbind_Inr_iff unreserve_path_src_up_to_node_def split: if_splits)
    then show "free_step t nv nv2"
    proof cases
      case 2
      have "free_step t nv1 nv2" by (rule unreserve_loop_step [OF t _ 2]) (use nv1 in \<open>simp add: free_step_def\<close>)
      then show ?thesis by (rule free_step_trans [OF nv1])
    qed (use nv1 in simp)
  qed
  then show ?thesis
    using fold(2) nv by (auto simp: handled_ok_def free_step_def frees_def passes_def mirrored_def)
qed

lemma pathfind_done_handled:
  assumes t: "mirror_ok t" and nv: "mirrored t (nv_reserved nv)"
    and run: "handle_pathfind_done t bn now nv client train result = Inr (acts, nv', cont)"
  shows "handled_ok t req nv acts nv'"
proof -
  consider nv2 acts1 acts2 where "nv_reserved nv2 = nv_reserved nv" "\<And>tr. granted tr (nv_reserved nv') acts1"
      "next_or_restart t train now nv2 = Inr (acts2, nv', cont)" "acts = acts1 @ acts2"
    | "nv_reserved nv' = nv_reserved nv" "\<And>tr. granted tr (nv_reserved nv) acts"
  proof -
    define acts1 where "acts1 = (if nv_clients nv ! nat train \<noteq> -1 \<and> \<not> nv_should_hang nv ! nat train
      then [Nav_Reply client NAVIGATIONSERVER_GOOD, Nav_Reply (nv_clients nv ! nat train) NAVIGATIONSERVER_GOOD]
      else [Nav_Reply client NAVIGATIONSERVER_GOOD])"
    have g: "\<forall>tr r. granted tr r acts1" by (simp add: acts1_def)
    have "(nv_reserved nv' = nv_reserved nv \<and> (\<forall>tr. granted tr (nv_reserved nv) acts)) \<or>
      (\<exists>nv2 acts2. nv_reserved nv2 = nv_reserved nv \<and> next_or_restart t train now nv2 = Inr (acts2, nv', cont) \<and>
         acts = acts1 @ acts2)"
      using run g unfolding handle_pathfind_done_def acts1_def [symmetric] Let_def
      by (auto simp: cbind_Inr_iff restart_pathfind_def Let_def split: if_splits)
    then show ?thesis using that g by blast
  qed
  then show ?thesis
  proof cases
    case 1
    have "work_ok t train nv2 acts2 nv'" by (rule next_or_restart_ok [OF t _ 1(3)]) (use nv 1(1) in simp)
    then have "handled_ok t req nv2 acts2 nv'" by (rule work_handled [rotated]) (use nv 1(1) in simp)
    then show ?thesis using 1 by (auto simp: handled_ok_def)
  next
    case 2
    then show ?thesis by (intro quiet_handled [OF nv]) simp_all
  qed
qed

lemma handle_navigation_ok:
  assumes t: "mirror_ok t" and nv: "mirrored t (nv_reserved nv)"
    and run: "handle_navigation t bn now nv client req = Inr (acts, nv', cont)"
  shows "handled_ok t req nv acts nv'"
proof (cases req)
  case (NAVIGATION_REQUEST train dest offset hang)
  have "nv_reserved nv' = nv_reserved nv \<and> (\<forall>tr. granted tr (nv_reserved nv) acts)"
    using run NAVIGATION_REQUEST
    by (auto simp: handle_navigation_def handle_navigation_request_def cbind_Inr_iff Let_def upd_train_def
        give_pathfinder_work_def split: if_splits)
  then show ?thesis by (intro quiet_handled [OF nv]) simp_all
next
  case (STRAIGHTPATH_WORKER train)
  have "(nv_reserved nv' = nv_reserved nv \<and> acts = []) \<or>
      next_or_restart t train now (nv\<lparr> nv_sp_parking := (nv_sp_parking nv)[nat train := client] \<rparr>) = Inr (acts, nv', cont)"
    using run STRAIGHTPATH_WORKER
    by (auto simp: handle_navigation_def handle_straightpath_worker_def cbind_Inr_iff Let_def split: if_splits)
  then show ?thesis
  proof
    assume "next_or_restart t train now (nv\<lparr> nv_sp_parking := (nv_sp_parking nv)[nat train := client] \<rparr>) = Inr (acts, nv', cont)"
    then have "work_ok t train (nv\<lparr> nv_sp_parking := (nv_sp_parking nv)[nat train := client] \<rparr>) acts nv'"
      by (rule next_or_restart_ok [OF t, rotated]) (use nv in simp)
    then show ?thesis by (intro work_handled [OF nv, where train = train]) (simp add: work_ok_def)
  qed (use nv in \<open>auto intro: quiet_handled\<close>)
next
  case (STRAIGHTPATH_WORKER_DONE train)
  obtain acts1 where "acts = acts1 @ [Nav_Reply client NAVIGATIONSERVER_GOOD]"
    "acts1 = [] \<and> nv' = nv \<or> done_navigation t train nv = Inr (acts1, nv')"
    using run STRAIGHTPATH_WORKER_DONE
    by (auto simp: handle_navigation_def handle_straightpath_done_def cbind_Inr_iff split: if_splits)
  then show ?thesis
  proof (elim disjE)
    assume "done_navigation t train nv = Inr (acts1, nv')"
    then have "handled_ok t req nv acts1 nv'" by (intro work_handled [OF nv done_navigation_ok [OF t nv]])
    then show ?thesis using \<open>acts = _\<close> by (auto simp: handled_ok_def)
  qed (auto intro!: quiet_handled [OF nv])
next
  case (PATHFIND_WORKER train)
  have "nv_reserved nv' = nv_reserved nv \<and> (\<forall>tr. granted tr (nv_reserved nv) acts)"
    using run PATHFIND_WORKER
    by (auto simp: handle_navigation_def handle_pathfind_worker_def cbind_Inr_iff Let_def
        give_pathfinder_work_def split: if_splits)
  then show ?thesis by (intro quiet_handled [OF nv]) simp_all
next
  case (PATHFIND_WORKER_DONE train result)
  then show ?thesis using pathfind_done_handled [OF t nv] run by (simp add: handle_navigation_def)
next
  case (NAVIGATIONSERVER_ATTRIBUTION_COURIER pool)
  then show ?thesis using attributions_handled [OF t nv] run by (simp add: handle_navigation_def)
next
  case (WHOAMI type)
  then show ?thesis
    using run by (intro quiet_handled [OF nv])
      (auto simp: handle_navigation_def handle_whoami_def cbind_Inr_iff split: option.splits)
next
  case (REGISTER_LOCATION train node)
  then show ?thesis using register_handled [OF t nv] run by (simp add: handle_navigation_def)
qed (use run in \<open>auto simp: handle_navigation_def intro!: quiet_handled [OF nv]\<close>)

lemma navigation_step_ok:
  assumes t: "mirror_ok t" and nv: "mirrored t (nv_reserved nv)"
    and run: "navigation_step t bn now nv client req = Inr (acts, nv')"
  shows "handled_ok t req nv acts nv'"
proof -
  obtain acts1 nv1 acts2 cont where nv1: "handle_navigation t bn now nv client req = Inr (acts1, nv1, cont)"
    "acts = acts1 @ acts2" "nv_reserved nv' = nv_reserved nv1" "\<And>tr r. granted tr r acts2"
    using run by (auto simp: navigation_step_def cbind_Inr_iff inform_printers_def Let_def split: if_splits)
  have "handled_ok t req nv acts1 nv1" by (rule handle_navigation_ok [OF t nv nv1(1)])
  then show ?thesis using nv1(2,3,4) by (auto simp: handled_ok_def)
qed

subsection \<open>Every run\<close>

text \<open>The loop of the server: each request comes with the answer of the clock server and the client.\<close>

fun navigation_run ::
  "track_node list \<Rightarrow> int list list \<Rightarrow> navigation \<Rightarrow> (int \<times> int \<times> navigation_request) list \<Rightarrow>
     (navigation_act list \<times> navigation) cres" where
  "navigation_run t bn nv [] = Inr ([], nv)"
| "navigation_run t bn nv ((now, client, req) # reqs) =
     cbind (navigation_step t bn now nv client req) (\<lambda>(acts, nv1).
     cbind (navigation_run t bn nv1 reqs) (\<lambda>(acts', nv2). Inr (acts @ acts', nv2)))"

lemma navigation_run_mirrored:
  "mirror_ok t \<Longrightarrow> mirrored t (nv_reserved nv) \<Longrightarrow> navigation_run t bn nv reqs = Inr (acts, nv') \<Longrightarrow>
     mirrored t (nv_reserved nv')"
proof (induction reqs arbitrary: nv acts)
  case (Cons req reqs)
  obtain now client rq where req: "req = (now, client, rq)" by (cases req)
  then obtain acts1 nv1 acts2 where step: "navigation_step t bn now nv client rq = Inr (acts1, nv1)"
    "navigation_run t bn nv1 reqs = Inr (acts2, nv')"
    using Cons.prems(3) by (auto simp: cbind_Inr_iff)
  have "mirrored t (nv_reserved nv1)"
    using navigation_step_ok [OF Cons.prems(1,2) step(1)] by (simp add: handled_ok_def)
  then show ?case by (rule Cons.IH [OF Cons.prems(1) _ step(2)])
qed simp

lemma mirrored_init: "mirror_ok t \<Longrightarrow> mirrored t (nv_reserved (navigation_init sp pf))"
proof -
  assume t: "mirror_ok t"
  have "case n_reverse (t ! i) of None \<Rightarrow> (replicate TRACK_MAX (-1) :: int list) ! i = -1
      | Some j \<Rightarrow> (replicate TRACK_MAX (-1) :: int list) ! j = replicate TRACK_MAX (-1) ! i" if "i < TRACK_MAX" for i
    using that mirrorD(1) [OF t that] by (cases "n_reverse (t ! i)") simp_all
  then show ?thesis by (simp add: mirrored_def navigation_init_def)
qed

text \<open>Registering a location, when the train holds nothing yet.\<close>

lemma clear_same:
  assumes "\<And>i. i < TRACK_MAX \<Longrightarrow> unreserve_node t (int i) train nv = Inr nv"
  shows "clear_reserved_by_train t train nv = Inr nv"
proof -
  have "cfold (\<lambda>nv i. unreserve_node t (int i) train nv) nv xs = Inr nv" if "set xs \<subseteq> {0..<TRACK_MAX}" for xs
    using that by (induction xs) (auto simp: assms)
  then show ?thesis by (simp add: clear_reserved_by_train_def)
qed

lemma register_first:
  assumes "nat train < length (nv_trains nv)" "0 \<le> train" "train < 6" "length (nv_reserved nv) = TRACK_MAX" "mirror_ok t"
    and "train \<notin> set (nv_reserved nv)" "i < TRACK_MAX" "n_reverse (t ! i) = Some j" "nv_reservation_client nv = -1"
    and "nv_trainstate_client nv = -1"
  shows "\<exists>nv'. navigation_step t bn now nv client (REGISTER_LOCATION train (int i)) =
      Inr ([Nav_Reply client NAVIGATIONSERVER_GOOD], nv') \<and>
    nv_reserved nv' = (nv_reserved nv)[i := train, j := train] \<and> length (nv_trains nv') = length (nv_trains nv) \<and>
    nv_reservation_client nv' = -1 \<and> nv_trainstate_client nv' = -1"
proof -
  have t: "length t = TRACK_MAX" using assms(5) by (simp add: mirror_ok_def)
  have j: "j < TRACK_MAX" by (rule mirrorD(1) [OF assms(5,7,8)])
  have "nv_reserved nv ! k \<noteq> train" if "k < TRACK_MAX" for k
    using that assms(4,6) by (metis nth_mem)
  then have clear: "clear_reserved_by_train t train (upd_train nv train f) = Inr (upd_train nv train f)" for f
    by (intro clear_same) (use assms(1,2,4) in \<open>simp add: unreserve_node_def rdi_def upd_train_def\<close>)
  obtain p where p: "v_p_train_num train = Inr p"
    using assms(2,3) by (auto simp: v_p_train_num_def rdi_def supported_trains_def rd_def nat_less_iff split: if_splits)
  have node: "reserve_node t (int i) train (upd_train nv train f) = Inr ((upd_train nv train f)
      \<lparr> nv_reserved := (nv_reserved nv)[i := train, j := train], nv_reservation_dirty := True \<rparr>)" for f
    using assms(4,7,8) t j by (simp add: reserve_node_def reverse_num_def wri_def rdi_def upd_train_def)
  have "rdi t (int i) = Inr (t ! i)" using assms(7) t by (simp add: rdi_def)
  then show ?thesis
    unfolding navigation_step_def handle_navigation_def handle_register_def
    by (simp add: p clear node inform_printers_def assms(9,10)) (simp add: upd_train_def assms(9,10))
qed



end
