(* ===== verification/Navigation_Routes.thy ===== *)
theory Navigation_Routes
  imports Navigation
begin

section \<open>Routes without and with reversals\<close>

text \<open>The segment while a stretch without reversal is being read: its items are the nodes read so far.\<close>

definition open_segment :: "segments \<Rightarrow> int list \<Rightarrow> bool" where
  "open_segment s ps \<longleftrightarrow> cb_inv (sg_segment s) \<and> cb_capacity (sg_segment s) = TRACK_MAX \<and>
     cb_items (sg_segment s) = ps \<and> \<not> sg_came s"

lemma push_ok:
  assumes "cb_inv cb" "length (cb_items cb) < cb_capacity cb"
  obtains cb' where "push cb x = Inr cb'" "cb_inv cb'" "cb_items cb' = cb_items cb @ [x]" "cb_capacity cb' = cb_capacity cb"
proof -
  have room: "cb_count cb < cb_capacity cb" using assms by (simp add: length_cb_items)
  obtain cb' where "cb_push_back cb x False = Inr (cb', 0)" "cb_inv cb'" "cb_items cb' = cb_items cb @ [x]"
    "cb_capacity cb' = cb_capacity cb"
    by (rule cb_push_ok [OF assms(1) room])
  then show ?thesis using that by (simp add: push_def)
qed

lemma memcpy_overflow:
  "length dest < i + n \<Longrightarrow> i + n \<le> length src \<Longrightarrow> i \<le> length dest \<Longrightarrow> memcpy_loop dest src i n = Inl Out_Of_Bounds"
proof (induction dest src i n rule: memcpy_loop.induct)
  case (2 dest src i left)
  then show ?case by (cases "i < length dest") (simp_all add: wr_def)
qed simp

text \<open>The task that is made of a segment.\<close>

definition straight_task :: "int list \<Rightarrow> int \<Rightarrow> int \<Rightarrow> bool \<Rightarrow> navigation_task" where
  "straight_task ps dist train startup = \<lparr> nt_type = NAVIGATION_STRAIGHT,
     nt_task = \<lparr> sp_train = train, sp_path = ps @ replicate (STRAIGHT_MAX - length ps) 0, sp_path_len = int (length ps),
       sp_path_dist = dist, sp_startup = startup \<rparr> \<rparr>"

lemma add_navigation_task_ok:
  assumes "cb_inv segment" "cb_items segment = ps" "ps \<noteq> []" "\<forall>p \<in> set ps. 0 \<le> p \<and> nat p < length t"
    and "get_path_dist t ps (int (length ps)) = Inr dist"
  shows "add_navigation_task t tasks segment train offset first =
    (if length ps \<le> STRAIGHT_MAX then push tasks (straight_task ps (dist + offset) train first) else Inl Out_Of_Bounds)"
proof -
  let ?n = "length ps"
  have arr: "cb_to_array segment = Inr (ps, ?n)"
    using cb_to_array_items [OF assms(1)] length_cb_items [OF assms(1)] assms(2) by simp
  have "ps ! 0 \<in> set ps" "ps ! (?n - 1) \<in> set ps" using assms(3) by simp_all
  then have ends: "rdi t (ps ! 0) = Inr (t ! nat (ps ! 0))" "rdi t (ps ! (?n - 1)) = Inr (t ! nat (ps ! (?n - 1)))"
    using assms(4) by (auto simp: rdi_def rd_def)
  have "memcpy (replicate STRAIGHT_MAX 0) ps ?n =
      (if ?n \<le> STRAIGHT_MAX then Inr (ps @ replicate (STRAIGHT_MAX - ?n) 0) else Inl Out_Of_Bounds)"
    using memcpy_overflow [of "replicate STRAIGHT_MAX 0" 0 ?n ps] by (simp add: memcpy_ok) (simp add: memcpy_def)
  then show ?thesis
    using arr ends assms(3,5) by (simp add: add_navigation_task_def straight_task_def rd_def)
qed

text \<open>Reading a stretch of nodes none of which is followed by its reverse.\<close>

lemma segments_loop_open:
  "i + m + 1 < length path \<Longrightarrow> \<forall>k. i \<le> k \<and> k < i + m \<longrightarrow> points_back t (path ! k) (path ! (k + 1)) = Inr False \<Longrightarrow>
   int (i + m) < path_len \<Longrightarrow> open_segment s ps \<Longrightarrow> length ps + m \<le> TRACK_MAX \<Longrightarrow>
   \<exists>s'. segments_loop t bn path path_len off train i (m + rest) s = segments_loop t bn path path_len off train (i + m) rest s' \<and>
     open_segment s' (ps @ take m (drop i path)) \<and> sg_tasks s' = sg_tasks s \<and> sg_had s' = sg_had s \<and> sg_merge s' = sg_merge s"
proof (induction m arbitrary: i s ps)
  case 0
  then show ?case by auto
next
  case (Suc m)
  have seg: "cb_inv (sg_segment s)" "length (cb_items (sg_segment s)) < cb_capacity (sg_segment s)" "\<not> sg_came s"
    "cb_capacity (sg_segment s) = TRACK_MAX" "cb_items (sg_segment s) = ps"
    using Suc.prems(4,5) by (auto simp: open_segment_def)
  obtain cb where cb: "push (sg_segment s) (path ! i) = Inr cb" "cb_inv cb" "cb_items cb = ps @ [path ! i]"
    "cb_capacity cb = TRACK_MAX"
    using push_ok [OF seg(1,2)] seg(4,5) by metis
  let ?s = "s\<lparr> sg_segment := cb \<rparr>"
  have no_back: "points_back t (path ! i) (path ! (i + 1)) = Inr False" using Suc.prems(2) by simp
  have "int i \<noteq> path_len - 1" using Suc.prems(3) by simp
  then have step: "segments_loop t bn path path_len off train i (Suc m + rest) s =
      segments_loop t bn path path_len off train (i + 1) (m + rest) ?s"
    using Suc.prems(1) no_back cb(1) seg(3) by (simp add: segment_forward_def)
  have open_s: "open_segment ?s (ps @ [path ! i])" using cb seg(3) by (simp add: open_segment_def)
  have path: "(ps @ [path ! i]) @ take m (drop (i + 1) path) = ps @ take (Suc m) (drop i path)"
    using Suc.prems(1) by (simp add: Cons_nth_drop_Suc [symmetric])
  have "\<exists>s'. segments_loop t bn path path_len off train (i + 1) (m + rest) ?s =
        segments_loop t bn path path_len off train (i + 1 + m) rest s' \<and>
     open_segment s' ((ps @ [path ! i]) @ take m (drop (i + 1) path)) \<and> sg_tasks s' = sg_tasks ?s \<and> sg_had s' = sg_had ?s \<and>
     sg_merge s' = sg_merge ?s"
    by (rule Suc.IH [OF _ _ _ open_s]) (use Suc.prems in auto)
  then show ?case unfolding step path by (simp add: add.commute)
qed

text \<open>The last stretch: all of it is read, and one task is made of it.\<close>

lemma segments_loop_end:
  assumes "n = i + m + 1" "n < length path" "\<forall>k. i \<le> k \<and> k < n \<longrightarrow> points_back t (path ! k) (path ! (k + 1)) = Inr False"
    and "open_segment s ps" "length ps + m < TRACK_MAX" "cb_inv (sg_tasks s)"
    and "length (cb_items (sg_tasks s)) < cb_capacity (sg_tasks s)"
    and "qs = ps @ take (m + 1) (drop i path)" "\<forall>p \<in> set qs. 0 \<le> p \<and> nat p < length t"
    and "get_path_dist t qs (int (length qs)) = Inr dist"
  shows "if length qs \<le> STRAIGHT_MAX
    then \<exists>s'. segments_loop t bn path (int n) off train i (m + 1) s = Inr s' \<and> cb_inv (sg_tasks s') \<and>
      cb_capacity (sg_tasks s') = cb_capacity (sg_tasks s) \<and>
      cb_items (sg_tasks s') = cb_items (sg_tasks s) @ [straight_task qs (dist + off) train (\<not> sg_had s)]
    else segments_loop t bn path (int n) off train i (m + 1) s = Inl Out_Of_Bounds"
proof -
  obtain s1 where s1: "segments_loop t bn path (int n) off train i (m + 1) s = segments_loop t bn path (int n) off train (i + m) 1 s1"
    "open_segment s1 (ps @ take m (drop i path))" "sg_tasks s1 = sg_tasks s" "sg_had s1 = sg_had s"
    using segments_loop_open [of i m path t "int n" s ps bn off train 1] assms(1-5) by auto
  have qs: "qs = (ps @ take m (drop i path)) @ [path ! (i + m)]"
    using assms(1,2,8) by (simp add: take_Suc_conv_app_nth)
  obtain cb where cb: "push (sg_segment s1) (path ! (i + m)) = Inr cb" "cb_inv cb" "cb_items cb = qs"
    using push_ok [of "sg_segment s1" "path ! (i + m)"] s1(2) assms(1,2,5) qs by (auto simp: open_segment_def)
  have "qs \<noteq> []" using qs by simp
  note add = add_navigation_task_ok [OF cb(2,3) this assms(9,10), of "sg_tasks s" train off "\<not> sg_had s"]
  have last_step: "segments_loop t bn path (int n) off train (i + m) 1 s1 =
      cbind (add_navigation_task t (sg_tasks s1) cb train off (\<not> sg_had s1)) (\<lambda>tasks.
      cbind (cb_clear 0 cb) (\<lambda>empty. Inr (s1\<lparr> sg_segment := empty, sg_tasks := tasks, sg_had := True \<rparr>)))"
    using assms(1-3) s1(2) cb(1)
    by (simp add: segment_forward_def open_segment_def)
  show ?thesis
  proof (cases "length qs \<le> STRAIGHT_MAX")
    case True
    obtain tasks where tasks: "push (sg_tasks s) (straight_task qs (dist + off) train (\<not> sg_had s)) = Inr tasks"
      "cb_inv tasks" "cb_items tasks = cb_items (sg_tasks s) @ [straight_task qs (dist + off) train (\<not> sg_had s)]"
      "cb_capacity tasks = cb_capacity (sg_tasks s)"
      by (rule push_ok [OF assms(6,7)])
    then show ?thesis using True last_step s1 add cb_clear_ok [OF cb(2)] by auto
  next
    case False
    then show ?thesis using last_step s1 add by simp
  qed
qed

lemma open_start: "open_segment \<lparr> sg_segment = cb_init 0 TRACK_MAX, sg_tasks = tasks, sg_came = False, sg_merge = a, sg_had = b \<rparr> []"
  by (simp add: open_segment_def cb_init_inv TRACK_MAX_def)



end
