(* ===== verification/Trainserver.thy ===== *)
theory Trainserver
  imports Min_Heap Train_Model
begin

section \<open>The train server (src/user/trainserver.c)\<close>

text \<open>
  The server keeps the commands for the train line in a heap ordered by their times. Commands are nodes of the array
  \<open>backing\<close>; the heap and the list of free nodes hold pointers into it, modelled as indices, so
  that a node written through one pointer is seen through the other. The worker asks for the next command, and polls the
  sensors of the track when none is due; the server adds up the sensors that have been pressed until the
  courier fetches them. The model is a step from a state and a request to a state and the messages sent; the
  debug output is left out. The request type of the C union and its data are one constructor.
\<close>

subsection \<open>Data\<close>

datatype train_msg =
    WORKER int
  | WORKER_CMD "8 word" "8 word" "8 word" int
  | WORKER_SENSOR int "8 word list"
  | SPEED int int int
  | REVERSE int int int
  | SWITCH int int int
  | SENSOR_EVENT
  | BRANCH_EVENT

record train_event =
  ev_time :: int
  ev_sensors :: "8 word list"
  ev_branch_a :: "8 word list"
  ev_branch_b :: "8 word list"

record train_task =
  tt_time :: int
  tt_a :: "8 word"
  tt_b :: "8 word"
  tt_len :: "8 word"
  tt_branch :: int
  tt_branch_state :: int
  tt_reqid :: int
  tt_next :: "nat option"

definition MAX_TRAIN_CMDS :: nat where "MAX_TRAIN_CMDS = 100"
definition SENSOR_BYTES :: nat where "SENSOR_BYTES = 10"

record trainserver =
  tv_backing :: "train_task list"
  tv_free :: "nat option"
  tv_heap :: "nat heap"
  tv_sensors :: "8 word list"
  tv_sensor_dirty :: bool
  tv_sensor_waiting :: int
  tv_branch_dirty :: bool
  tv_branch_waiting :: int
  tv_event :: train_event
  tv_reqid :: int

datatype worker_reply = Do_Cmd "8 word" "8 word" "8 word" int | Do_Sensors | Do_Nothing

text \<open>A reply to the worker, an empty reply, or the events for a courier.\<close>

datatype train_act = Tell_Worker int worker_reply | Ack int | Tell_Event int train_event

text \<open>The key of a pointer in the heap: the first member of the node it points to.\<close>

definition tkey :: "train_task list \<Rightarrow> nat \<Rightarrow> int" where
  "tkey backing i = tt_time (backing ! i)"

text \<open>The arrays \<open>backing\<close> and \<open>heap_backing\<close> are on the stack, with any content.\<close>

definition train_init :: "train_task list \<Rightarrow> nat list \<Rightarrow> trainserver" where
  "train_init backing heap_backing =
     \<lparr> tv_backing = map (\<lambda>i. (backing ! i)\<lparr> tt_next := if i < MAX_TRAIN_CMDS - 1 then Some (i + 1) else None \<rparr>)
         [0..<MAX_TRAIN_CMDS],
       tv_free = Some 0, tv_heap = heap_init heap_backing,
       tv_sensors = replicate SENSOR_BYTES 0, tv_sensor_dirty = False, tv_sensor_waiting = -1,
       tv_branch_dirty = False, tv_branch_waiting = -1,
       tv_event = \<lparr> ev_time = 0, ev_sensors = replicate SENSOR_BYTES 0,
         ev_branch_a = replicate 20 2, ev_branch_b = replicate 4 2 \<rparr>,
       tv_reqid = 0 \<rparr>"

subsection \<open>Commands\<close>

definition build_task ::
  "trainserver \<Rightarrow> int \<Rightarrow> 8 word \<Rightarrow> 8 word \<Rightarrow> 8 word \<Rightarrow> (nat \<times> trainserver) cres" where
  "build_task st time a b clen =
     cbind (kassert (tv_free st \<noteq> None) ''No Free Train Task'') (\<lambda>_.
     cbind (deref (tv_free st)) (\<lambda>cur.
     cbind (rd (tv_backing st) cur) (\<lambda>n.
     cbind (wr (tv_backing st) cur
       (n\<lparr> tt_time := time, tt_a := a, tt_b := b, tt_len := clen, tt_branch := -1, tt_reqid := tv_reqid st \<rparr>)) (\<lambda>backing.
     cbind (cint (tv_reqid st + 1)) (\<lambda>reqid.
       Inr (cur, st\<lparr> tv_backing := backing, tv_free := tt_next n, tv_reqid := reqid \<rparr>))))))"

definition set_branch :: "trainserver \<Rightarrow> nat \<Rightarrow> int \<Rightarrow> int \<Rightarrow> trainserver cres" where
  "set_branch st cur branch state =
     cbind (rd (tv_backing st) cur) (\<lambda>n.
     cbind (wr (tv_backing st) cur (n\<lparr> tt_branch := branch, tt_branch_state := state \<rparr>)) (\<lambda>backing.
       Inr (st\<lparr> tv_backing := backing \<rparr>)))"

definition queue_task :: "trainserver \<Rightarrow> nat \<Rightarrow> trainserver cres" where
  "queue_task st cur =
     cbind (heap_add (tkey (tv_backing st)) (tv_heap st) cur) (\<lambda>h. Inr (st\<lparr> tv_heap := h \<rparr>))"

text \<open>\<open>heap_add(&h, build_task(...))\<close>, with the lines that set the switch of the task, if any, in between.\<close>

definition add_command ::
  "trainserver \<Rightarrow> int \<Rightarrow> 8 word \<Rightarrow> 8 word \<Rightarrow> 8 word \<Rightarrow> (int \<times> int) option \<Rightarrow> trainserver cres" where
  "add_command st time a b clen br =
     cbind (build_task st time a b clen) (\<lambda>(cur, st1).
     cbind (case br of None \<Rightarrow> Inr st1 | Some (branch, state) \<Rightarrow> set_branch st1 cur branch state) (\<lambda>st2.
       queue_task st2 cur))"

subsection \<open>The handlers\<close>

definition mark_branch :: "train_event \<Rightarrow> train_task \<Rightarrow> train_event cres" where
  "mark_branch ev n =
     (if tt_branch n < 20 then
        cbind (wri (ev_branch_a ev) (tt_branch n) (word_of_int (tt_branch_state n))) (\<lambda>a. Inr (ev\<lparr> ev_branch_a := a \<rparr>))
      else if 153 \<le> tt_branch n \<and> tt_branch n \<le> 156 then
        cbind (wri (ev_branch_b ev) (tt_branch n - 153) (word_of_int (tt_branch_state n))) (\<lambda>b. Inr (ev\<lparr> ev_branch_b := b \<rparr>))
      else Inl (Assert_Failed ''Bad Branch''))"

definition handle_worker :: "trainserver \<Rightarrow> char \<Rightarrow> int \<Rightarrow> int \<Rightarrow> (train_act list \<times> trainserver) cres" where
  "handle_worker st which_track client time =
     cbind (heap_peek (tv_heap st)) (\<lambda>peek.
     cbind (case peek of None \<Rightarrow> Inr None | Some p \<Rightarrow> cbind (rd (tv_backing st) p) (\<lambda>n. Inr (Some (p, n)))) (\<lambda>found.
       case found of
         None \<Rightarrow> Inr ([Tell_Worker client (if which_track \<noteq> CHR ''?'' then Do_Sensors else Do_Nothing)], st)
       | Some (p, n) \<Rightarrow>
           if tt_time n \<le> time then
             cbind (if tt_branch n \<noteq> -1
                    then cbind (mark_branch (tv_event st) n) (\<lambda>ev. Inr (st\<lparr> tv_event := ev, tv_branch_dirty := True \<rparr>))
                    else Inr st) (\<lambda>st1.
             cbind (heap_pop (tkey (tv_backing st1)) (tv_heap st1)) (\<lambda>h.
             cbind (wr (tv_backing st1) p (n\<lparr> tt_next := tv_free st1 \<rparr>)) (\<lambda>backing.
               Inr ([Tell_Worker client (Do_Cmd (tt_a n) (tt_b n) (tt_len n) (tt_reqid n))],
                    st1\<lparr> tv_heap := h, tv_backing := backing, tv_free := Some p \<rparr>))))
           else
             cbind (cint (time + 7)) (\<lambda>soon.
               Inr ([Tell_Worker client
                      (if soon < tt_time n \<and> which_track \<noteq> CHR ''?'' then Do_Sensors else Do_Nothing)], st))))"

text \<open>The body of the loop over the sensor bytes.\<close>

definition sensor_byte :: "8 word list \<Rightarrow> trainserver \<Rightarrow> nat \<Rightarrow> trainserver cres" where
  "sensor_byte sensor_res st i =
     cbind (rd (ev_sensors (tv_event st)) i) (\<lambda>e.
     cbind (rd sensor_res i) (\<lambda>r.
     cbind (rd (tv_sensors st) i) (\<lambda>s.
     let e' = or e (and r (not s)) in
     cbind (wr (ev_sensors (tv_event st)) i e') (\<lambda>es.
     cbind (wr (tv_sensors st) i r) (\<lambda>ss.
       Inr (st\<lparr> tv_event := (tv_event st)\<lparr> ev_sensors := es \<rparr>, tv_sensors := ss,
                tv_sensor_dirty := tv_sensor_dirty st \<or> e' \<noteq> 0 \<rparr>))))))"

definition handle_sensors :: "trainserver \<Rightarrow> int \<Rightarrow> int \<Rightarrow> 8 word list \<Rightarrow> (train_act list \<times> trainserver) cres" where
  "handle_sensors st client time sensor_res =
     cbind (cfold (sensor_byte sensor_res) st [0..<SENSOR_BYTES]) (\<lambda>st1.
       Inr ([Ack client], st1\<lparr> tv_event := (tv_event st1)\<lparr> ev_time := time \<rparr> \<rparr>))"

definition handle_speed :: "trainserver \<Rightarrow> int \<Rightarrow> int \<Rightarrow> int \<Rightarrow> int \<Rightarrow> (train_act list \<times> trainserver) cres" where
  "handle_speed st client target data time =
     cbind (v_p_train_num target) (\<lambda>train.
     cbind (add_command st time (or (word_of_int data) 16) (word_of_int train) 2 None) (\<lambda>st1. Inr ([Ack client], st1)))"

definition handle_reverse :: "trainserver \<Rightarrow> int \<Rightarrow> int \<Rightarrow> int \<Rightarrow> int \<Rightarrow> (train_act list \<times> trainserver) cres" where
  "handle_reverse st client target data time =
     cbind (v_p_train_num target) (\<lambda>train.
     cbind (add_command st time 16 (word_of_int train) 2 None) (\<lambda>st1.
     cbind (cint (time + 500)) (\<lambda>t1.
     cbind (add_command st1 t1 15 (word_of_int train) 2 None) (\<lambda>st2.
     cbind (cint (time + 510)) (\<lambda>t2.
     cbind (add_command st2 t2 (or (word_of_int data) 16) (word_of_int train) 2 None) (\<lambda>st3.
       Inr ([Ack client], st3)))))))"

text \<open>The switches of a three-way point, each with the other one.\<close>

definition switch_partner :: "int \<Rightarrow> int option" where
  "switch_partner sw =
     (if sw = 153 then Some 154 else if sw = 154 then Some 153
      else if sw = 155 then Some 156 else if sw = 156 then Some 155 else None)"

definition handle_switch :: "trainserver \<Rightarrow> int \<Rightarrow> int \<Rightarrow> int \<Rightarrow> int \<Rightarrow> (train_act list \<times> trainserver) cres" where
  "handle_switch st client target data time =
     cbind (add_command st time (33 + word_of_int data) (word_of_int target) 2 (Some (target, data))) (\<lambda>st1.
     cbind (case switch_partner target of
              None \<Rightarrow> Inr (time, st1)
            | Some other \<Rightarrow>
                let opposite = (if data = 0 then 1 else 0) in
                cbind (cint (time + 20)) (\<lambda>t.
                cbind (add_command st1 t (33 + word_of_int opposite) (word_of_int other) 2 (Some (other, opposite)))
                  (\<lambda>st2. Inr (t, st2)))) (\<lambda>(t, st2).
     cbind (cint (t + 20)) (\<lambda>t'.
     cbind (add_command st2 t' 32 0 1 None) (\<lambda>st3. Inr ([Ack client], st3)))))"

definition handle_train_msg ::
  "trainserver \<Rightarrow> char \<Rightarrow> int \<Rightarrow> train_msg \<Rightarrow> (train_act list \<times> trainserver) cres" where
  "handle_train_msg st which_track client req =
     (case req of
        WORKER time \<Rightarrow> handle_worker st which_track client time
      | WORKER_SENSOR time sensor_res \<Rightarrow> handle_sensors st client time sensor_res
      | SENSOR_EVENT \<Rightarrow> Inr ([], st\<lparr> tv_sensor_waiting := client \<rparr>)
      | BRANCH_EVENT \<Rightarrow> Inr ([], st\<lparr> tv_branch_waiting := client \<rparr>)
      | SPEED target data time \<Rightarrow> handle_speed st client target data time
      | REVERSE target data time \<Rightarrow> handle_reverse st client target data time
      | SWITCH target data time \<Rightarrow> handle_switch st client target data time
      | WORKER_CMD a b l reqid \<Rightarrow> Inl (Assert_Failed ''Unknown train command''))"

definition tell_couriers :: "trainserver \<Rightarrow> (train_act list \<times> trainserver) cres" where
  "tell_couriers st =
     (let (acts, st1) =
        (if tv_sensor_dirty st \<and> tv_sensor_waiting st \<noteq> -1
         then ([Tell_Event (tv_sensor_waiting st) (tv_event st)],
               st\<lparr> tv_sensor_waiting := -1, tv_sensor_dirty := False,
                    tv_event := (tv_event st)\<lparr> ev_sensors := replicate SENSOR_BYTES 0 \<rparr> \<rparr>)
         else ([], st))
      in if tv_branch_dirty st1 \<and> tv_branch_waiting st1 \<noteq> -1
         then Inr (acts @ [Tell_Event (tv_branch_waiting st1) (tv_event st1)],
                   st1\<lparr> tv_branch_waiting := -1, tv_branch_dirty := False \<rparr>)
         else Inr (acts, st1))"

definition train_step ::
  "char \<Rightarrow> trainserver \<Rightarrow> int \<times> train_msg \<Rightarrow> (train_act list \<times> trainserver) cres" where
  "train_step which_track st = (\<lambda>(client, req).
     cbind (handle_train_msg st which_track client req) (\<lambda>(acts, st1).
     cbind (tell_couriers st1) (\<lambda>(acts', st2). Inr (acts @ acts', st2))))"

fun train_run :: "char \<Rightarrow> trainserver \<Rightarrow> (int \<times> train_msg) list \<Rightarrow> (train_act list list \<times> trainserver) cres" where
  "train_run which_track st [] = Inr ([], st)"
| "train_run which_track st (req # reqs) =
     cbind (train_step which_track st req) (\<lambda>(acts, st1).
     cbind (train_run which_track st1 reqs) (\<lambda>(outs, st2). Inr (acts # outs, st2)))"

subsection \<open>The worker and the client stubs\<close>

text \<open>
  What the worker does with an answer of the server: the bytes it writes to the line, whether it waits a tick, and
  the report it sends, given the ten bytes the track has answered and the time after them.
\<close>

definition train_worker :: "worker_reply \<Rightarrow> 8 word list \<Rightarrow> int \<Rightarrow> 8 word list \<times> bool \<times> train_msg option" where
  "train_worker reply answered now =
     (case reply of
        Do_Cmd a b clen reqid \<Rightarrow> (if clen = 2 then [a, b] else [a], False, None)
      | Do_Sensors \<Rightarrow> ([0x85], False, Some (WORKER_SENSOR now answered))
      | Do_Nothing \<Rightarrow> ([], True, None))"

definition TrainCommand :: "int \<Rightarrow> (int \<Rightarrow> int \<Rightarrow> int \<Rightarrow> train_msg) \<Rightarrow> int \<Rightarrow> int \<Rightarrow> train_msg" where
  "TrainCommand time type target data = type target data time"

definition SensorEvent :: train_msg where "SensorEvent = SENSOR_EVENT"
definition BranchEvent :: train_msg where "BranchEvent = BRANCH_EVENT"
definition HardReverse_msg :: "int \<Rightarrow> int \<Rightarrow> train_msg" where "HardReverse_msg train_num time = TrainCommand time SPEED train_num 15"

end
