(* ===== verification/Trainserver_Properties.thy ===== *)
theory Trainserver_Properties
  imports Trainserver
begin

section \<open>What the train server guarantees\<close>

text \<open>
  The abstract server keeps a bag of commands, the sensors that have been pressed since the last report, and a
  table of the switches. The lemmas show that the array, the list of free nodes and the heap of pointers
  implement the bag, so that a command handed out is one of the earliest, and none is lost.
\<close>

subsection \<open>The abstract server\<close>

definition any_bit :: "8 word list \<Rightarrow> bool" where
  "any_bit bytes \<longleftrightarrow> (\<exists>b \<in> set bytes. b \<noteq> 0)"

lemma any_bit_zero [simp]: "\<not> any_bit (replicate n 0)"
  by (simp add: any_bit_def)

text \<open>A command: its time, its bytes and their number, the switch it turns and the number of the request.\<close>

record command =
  c_time :: int
  c_bytes :: "8 word \<times> 8 word \<times> 8 word"
  c_branch :: "(int \<times> int) option"
  c_reqid :: int

definition cmd_of :: "train_task \<Rightarrow> command" where
  "cmd_of n = \<lparr> c_time = tt_time n, c_bytes = (tt_a n, tt_b n, tt_len n),
     c_branch = (if tt_branch n = -1 then None else Some (tt_branch n, tt_branch_state n)), c_reqid = tt_reqid n \<rparr>"

record train_abs =
  ab_pending :: "command multiset"
  ab_next :: int
  ab_last :: "8 word list"
  ab_pressed :: "8 word list"
  ab_time :: int
  ab_switch :: "int \<Rightarrow> 8 word"
  ab_switched :: bool
  ab_sensor_courier :: int
  ab_branch_courier :: int

definition is_branch :: "int \<Rightarrow> bool" where
  "is_branch b \<longleftrightarrow> 0 \<le> b \<and> b < 20 \<or> 153 \<le> b \<and> b \<le> 156"

definition switch_state :: "train_event \<Rightarrow> int \<Rightarrow> 8 word" where
  "switch_state ev b = (if 0 \<le> b \<and> b < 20 then ev_branch_a ev ! nat b
     else if 153 \<le> b \<and> b \<le> 156 then ev_branch_b ev ! nat (b - 153) else 0)"

definition pending :: "trainserver \<Rightarrow> command multiset" where
  "pending st = image_mset (\<lambda>i. cmd_of (tv_backing st ! i)) (heap_bag (tv_heap st))"

definition train_abs :: "trainserver \<Rightarrow> train_abs" where
  "train_abs st = \<lparr> ab_pending = pending st, ab_next = tv_reqid st, ab_last = tv_sensors st,
     ab_pressed = ev_sensors (tv_event st), ab_time = ev_time (tv_event st), ab_switch = switch_state (tv_event st),
     ab_switched = tv_branch_dirty st, ab_sensor_courier = tv_sensor_waiting st, ab_branch_courier = tv_branch_waiting st \<rparr>"

text \<open>The commands of a request, the first with the number \<open>r\<close>.\<close>

definition physical :: "int \<Rightarrow> 8 word" where
  "physical train = word_of_int (supported_trains ! nat train)"

definition train_cmd :: "int \<Rightarrow> 8 word \<times> 8 word \<times> 8 word \<Rightarrow> (int \<times> int) option \<Rightarrow> int \<Rightarrow> command" where
  "train_cmd time bytes br r = \<lparr> c_time = time, c_bytes = bytes, c_branch = br, c_reqid = r \<rparr>"

fun commands_of :: "train_msg \<Rightarrow> int \<Rightarrow> command list" where
  "commands_of (SPEED train data time) r = [train_cmd time (or (word_of_int data) 16, physical train, 2) None r]"
| "commands_of (REVERSE train data time) r =
     [train_cmd time (16, physical train, 2) None r,
      train_cmd (time + 500) (15, physical train, 2) None (r + 1),
      train_cmd (time + 510) (or (word_of_int data) 16, physical train, 2) None (r + 2)]"
| "commands_of (SWITCH sw data time) r =
     train_cmd time (33 + word_of_int data, word_of_int sw, 2) (Some (sw, data)) r #
     (case switch_partner sw of
        None \<Rightarrow> [train_cmd (time + 20) (32, 0, 1) None (r + 1)]
      | Some other \<Rightarrow>
          let opposite = (if data = 0 then 1 else 0) in
          [train_cmd (time + 20) (33 + word_of_int opposite, word_of_int other, 2) (Some (other, opposite)) (r + 1),
           train_cmd (time + 40) (32, 0, 1) None (r + 2)])"
| "commands_of req r = []"

text \<open>
  What the server asks of its clients: trains and switches that exist, and times below the key that
  the heap takes for a missing child (0x00FFFFFF ticks, more than forty-six hours).
\<close>

fun request_ok :: "train_msg \<Rightarrow> bool" where
  "request_ok (WORKER time) \<longleftrightarrow> - (2 ^ 31) \<le> time \<and> time < NO_CHILD"
| "request_ok (WORKER_CMD a b l r) \<longleftrightarrow> False"
| "request_ok (WORKER_SENSOR time bytes) \<longleftrightarrow> length bytes = SENSOR_BYTES"
| "request_ok (SPEED train data time) \<longleftrightarrow> 0 \<le> train \<and> train < 6 \<and> time < NO_CHILD"
| "request_ok (REVERSE train data time) \<longleftrightarrow> 0 \<le> train \<and> train < 6 \<and> 0 \<le> time \<and> time + 510 < NO_CHILD"
| "request_ok (SWITCH sw data time) \<longleftrightarrow> is_branch sw \<and> 0 \<le> time \<and> time + 40 < NO_CHILD"
| "request_ok SENSOR_EVENT \<longleftrightarrow> True"
| "request_ok BRANCH_EVENT \<longleftrightarrow> True"

definition turned :: "(int \<Rightarrow> 8 word) \<Rightarrow> command \<Rightarrow> int \<Rightarrow> 8 word" where
  "turned sw c = (case c_branch c of None \<Rightarrow> sw | Some (b, state) \<Rightarrow> sw(b := word_of_int state))"

definition do_cmd :: "command \<Rightarrow> worker_reply" where
  "do_cmd c = (case c_bytes c of (a, b, l) \<Rightarrow> Do_Cmd a b l (c_reqid c))"

text \<open>One request: what is handed out is one of the earliest commands that are due.\<close>

fun train_spec :: "char \<Rightarrow> int \<Rightarrow> train_msg \<Rightarrow> train_abs \<Rightarrow> train_act list \<Rightarrow> train_abs \<Rightarrow> bool" where
  "train_spec wt client (WORKER now) ab acts ab' \<longleftrightarrow>
     (if \<exists>c \<in># ab_pending ab. c_time c \<le> now
      then \<exists>c \<in># ab_pending ab. (\<forall>d \<in># ab_pending ab. c_time c \<le> c_time d) \<and> c_time c \<le> now \<and>
             acts = [Tell_Worker client (do_cmd c)] \<and>
             ab' = ab\<lparr> ab_pending := ab_pending ab - {#c#}, ab_switch := turned (ab_switch ab) c,
                       ab_switched := (ab_switched ab \<or> c_branch c \<noteq> None) \<rparr>
      else ab' = ab \<and> acts = [Tell_Worker client
             (if wt \<noteq> CHR ''?'' \<and> (\<forall>c \<in># ab_pending ab. now + 7 < c_time c) then Do_Sensors else Do_Nothing)])"
| "train_spec wt client (WORKER_SENSOR time bytes) ab acts ab' \<longleftrightarrow>
     acts = [Ack client] \<and>
     ab' = ab\<lparr> ab_pressed := map (\<lambda>i. or (ab_pressed ab ! i) (and (bytes ! i) (not (ab_last ab ! i)))) [0..<SENSOR_BYTES],
               ab_last := bytes, ab_time := time \<rparr>"
| "train_spec wt client SENSOR_EVENT ab acts ab' \<longleftrightarrow> acts = [] \<and> ab' = ab\<lparr> ab_sensor_courier := client \<rparr>"
| "train_spec wt client BRANCH_EVENT ab acts ab' \<longleftrightarrow> acts = [] \<and> ab' = ab\<lparr> ab_branch_courier := client \<rparr>"
| "train_spec wt client req ab acts ab' \<longleftrightarrow>
     acts = [Ack client] \<and>
     ab' = ab\<lparr> ab_pending := ab_pending ab + mset (commands_of req (ab_next ab)),
               ab_next := ab_next ab + int (length (commands_of req (ab_next ab))) \<rparr>"

text \<open>The couriers: pressed sensors and turned switches are reported to a courier that waits, once.\<close>

definition tells :: "train_abs \<Rightarrow> train_event \<Rightarrow> bool" where
  "tells ab ev \<longleftrightarrow> ev_sensors ev = ab_pressed ab \<and> ev_time ev = ab_time ab \<and> switch_state ev = ab_switch ab"

definition courier_spec :: "train_abs \<Rightarrow> train_act list \<Rightarrow> train_abs \<Rightarrow> bool" where
  "courier_spec ab acts ab' \<longleftrightarrow>
     (let pressed = any_bit (ab_pressed ab) \<and> ab_sensor_courier ab \<noteq> -1;
          ab1 = (if pressed then ab\<lparr> ab_pressed := replicate SENSOR_BYTES 0, ab_sensor_courier := -1 \<rparr> else ab);
          turned = ab_switched ab \<and> ab_branch_courier ab \<noteq> -1
      in ab' = (if turned then ab1\<lparr> ab_switched := False, ab_branch_courier := -1 \<rparr> else ab1) \<and>
         (\<exists>ev1 ev2. tells ab ev1 \<and> tells ab1 ev2 \<and>
            acts = (if pressed then [Tell_Event (ab_sensor_courier ab) ev1] else []) @
                   (if turned then [Tell_Event (ab_branch_courier ab) ev2] else [])))"

subsection \<open>The invariant\<close>

fun linked :: "train_task list \<Rightarrow> nat option \<Rightarrow> nat list \<Rightarrow> bool" where
  "linked ns p [] \<longleftrightarrow> p = None"
| "linked ns p (x # xs) \<longleftrightarrow> p = Some x \<and> linked ns (tt_next (ns ! x)) xs"

lemma linked_cong: "(\<And>x. x \<in> set xs \<Longrightarrow> tt_next (ns ! x) = tt_next (ns' ! x)) \<Longrightarrow> linked ns p xs = linked ns' p xs"
  by (induction xs arbitrary: p) auto

text \<open>Every node is either free or in the heap.\<close>

definition nodes_ok :: "train_task list \<Rightarrow> nat option \<Rightarrow> nat heap \<Rightarrow> nat list \<Rightarrow> bool" where
  "nodes_ok ns p h fs \<longleftrightarrow>
     length ns = MAX_TRAIN_CMDS \<and> linked ns p fs \<and> mset fs + heap_bag h = mset [0..<MAX_TRAIN_CMDS] \<and>
     heap_inv (tkey ns) h \<and> length (items h) = MAX_TRAIN_CMDS"

definition train_ok :: "trainserver \<Rightarrow> bool" where
  "train_ok st \<longleftrightarrow>
     (\<exists>fs. nodes_ok (tv_backing st) (tv_free st) (tv_heap st) fs) \<and>
     (\<forall>c \<in># pending st. \<forall>b state. c_branch c = Some (b, state) \<longrightarrow> is_branch b) \<and>
     length (tv_sensors st) = SENSOR_BYTES \<and> length (ev_sensors (tv_event st)) = SENSOR_BYTES \<and>
     length (ev_branch_a (tv_event st)) = 20 \<and> length (ev_branch_b (tv_event st)) = 4 \<and>
     (tv_sensor_dirty st \<longleftrightarrow> any_bit (ev_sensors (tv_event st)))"

lemma heap_inv_cong:
  assumes "heap_inv key h" "\<And>x. x \<in># heap_bag h \<Longrightarrow> key' x = key x"
  shows "heap_inv key' h"
proof -
  have mem: "items h ! i \<in># heap_bag h" if "i < len h" for i
    using that assms(1) by (auto simp: heap_inv_def heap_bag_def in_set_conv_nth intro!: exI [of _ i])
  have "key_le key' (items h ! up i) (items h ! i) = key_le key (items h ! up i) (items h ! i)"
    if i: "0 < i" "i < len h" for i
    using assms(2) [OF mem [OF i(2)]] assms(2) [OF mem [of "up i"]] up_less [OF i(1)] i(2) by simp
  then have "heap_ok (key_le key') (items h) (len h) = heap_ok (key_le key) (items h) (len h)"
    unfolding heap_ok_def by blast
  then show ?thesis using assms by (auto simp: heap_inv_def heap_bag_def)
qed

lemma mset_nodes:
  assumes "mset fs + heap_bag h = mset [0..<n]"
  shows "distinct fs" "x \<in> set fs \<Longrightarrow> x \<notin># heap_bag h" "x \<in># heap_bag h \<Longrightarrow> x < n" "x \<in> set fs \<Longrightarrow> x < n"
    "length fs + size (heap_bag h) = n"
proof -
  have cnt: "count (mset fs) y + count (heap_bag h) y = (if y < n then 1 else 0)" for y
    using arg_cong [OF assms, of "\<lambda>m. count m y"] distinct_count_atmost_1 [of "[0..<n]"] by simp
  have "count (mset fs) y = (if y \<in> set fs then 1 else 0)" for y
  proof (cases "y \<in> set fs")
    case True
    have "0 < count (mset fs) y" using True by simp
    moreover have "count (mset fs) y + count (heap_bag h) y \<le> 1" by (simp add: cnt)
    ultimately have "count (mset fs) y = 1" by linarith
    then show ?thesis using True by simp
  qed simp
  then show "distinct fs" by (simp add: distinct_count_atmost_1)
  show "x \<in> set fs \<Longrightarrow> x \<notin># heap_bag h"
  proof
    assume "x \<in> set fs" "x \<in># heap_bag h"
    then have "0 < count (mset fs) x" "0 < count (heap_bag h) x" by simp_all
    moreover have "count (mset fs) x + count (heap_bag h) x \<le> 1" by (simp add: cnt)
    ultimately show False by linarith
  qed
  have "set fs \<union> set_mset (heap_bag h) = {0..<n}"
    using arg_cong [OF assms, of set_mset] by simp
  then show "x \<in># heap_bag h \<Longrightarrow> x < n" "x \<in> set fs \<Longrightarrow> x < n" by auto
  show "length fs + size (heap_bag h) = n" using arg_cong [OF assms, of size] by simp
qed

lemma len_heap: "heap_inv key h \<Longrightarrow> size (heap_bag h) = len h"
  by (simp add: heap_bag_def heap_inv_def)

text \<open>A node taken from the free list, filled in and put into the heap.\<close>

lemma queue_node_ok:
  assumes "nodes_ok ns (Some x) h (x # fs)" "tt_next N = tt_next (ns ! x)" "tt_time N < NO_CHILD"
  obtains h' where "heap_add (tkey (ns[x := N])) h x = Inr h'" "nodes_ok (ns[x := N]) (tt_next (ns ! x)) h' fs"
    "image_mset (\<lambda>i. cmd_of (ns[x := N] ! i)) (heap_bag h') = add_mset (cmd_of N) (image_mset (\<lambda>i. cmd_of (ns ! i)) (heap_bag h))"
proof -
  let ?ns = "ns[x := N]"
  have nodes: "length ns = MAX_TRAIN_CMDS" "linked ns (Some x) (x # fs)" "mset (x # fs) + heap_bag h = mset [0..<MAX_TRAIN_CMDS]"
    "heap_inv (tkey ns) h" "length (items h) = MAX_TRAIN_CMDS"
    using assms(1) by (simp_all add: nodes_ok_def)
  note ms = mset_nodes [OF nodes(3)]
  have x: "x < length ns" "x \<notin> set fs" "x \<notin># heap_bag h" using ms nodes(1) by auto
  have same: "?ns ! i = ns ! i" if "i \<in># heap_bag h" for i using that x(3) by (auto simp: nth_update)
  have inv: "heap_inv (tkey ?ns) h"
    by (rule heap_inv_cong [OF nodes(4)]) (use same in \<open>simp add: tkey_def\<close>)
  have room: "len h < length (items h)" using ms(5) nodes(5) len_heap [OF nodes(4)] by simp
  have key: "tkey ?ns x < NO_CHILD" using assms(3) x(1) by (simp add: tkey_def)
  obtain h' where h': "heap_add (tkey ?ns) h x = Inr h'" "heap_inv (tkey ?ns) h'" "heap_bag h' = add_mset x (heap_bag h)"
    "length (items h') = length (items h)"
    by (rule heap_add_ok [OF inv room key])
  have "linked ns (tt_next (ns ! x)) fs = linked ?ns (tt_next (ns ! x)) fs"
    by (rule linked_cong) (use x(2) in \<open>auto simp: nth_update\<close>)
  then have "linked ?ns (tt_next (ns ! x)) fs" using nodes(2) by simp
  then have "nodes_ok ?ns (tt_next (ns ! x)) h' fs"
    using nodes h' by (simp add: nodes_ok_def)
  moreover have "image_mset (\<lambda>i. cmd_of (?ns ! i)) (heap_bag h) = image_mset (\<lambda>i. cmd_of (ns ! i)) (heap_bag h)"
    by (rule image_mset_cong) (simp add: same)
  then have "image_mset (\<lambda>i. cmd_of (?ns ! i)) (heap_bag h') =
      add_mset (cmd_of N) (image_mset (\<lambda>i. cmd_of (ns ! i)) (heap_bag h))"
    using h'(3) x(1) by simp
  ultimately show ?thesis by (rule that [OF h'(1)])
qed

lemma add_command_ok:
  assumes ok: "train_ok st" and room: "size (pending st) < MAX_TRAIN_CMDS" and time: "time < NO_CHILD"
    and r: "0 \<le> tv_reqid st" "tv_reqid st < 2 ^ 31 - 1" and br: "\<forall>b state. br = Some (b, state) \<longrightarrow> is_branch b"
  obtains st' where "add_command st time a b clen br = Inr st'" "train_ok st'"
    "train_abs st' = (train_abs st)\<lparr> ab_pending := add_mset (train_cmd time (a, b, clen) br (tv_reqid st)) (pending st),
       ab_next := tv_reqid st + 1 \<rparr>"
proof -
  let ?ns = "tv_backing st"
  obtain fs0 where fs0: "nodes_ok ?ns (tv_free st) (tv_heap st) fs0" using ok by (auto simp: train_ok_def)
  have "length fs0 + size (pending st) = MAX_TRAIN_CMDS"
    using mset_nodes(5) [of fs0 "tv_heap st" MAX_TRAIN_CMDS] fs0 by (simp add: nodes_ok_def pending_def)
  then obtain x fs where "fs0 = x # fs" using room by (cases fs0) auto
  then have x: "tv_free st = Some x" "nodes_ok ?ns (Some x) (tv_heap st) (x # fs)" "x < length ?ns"
    using fs0 mset_nodes(4) [of fs0 "tv_heap st" MAX_TRAIN_CMDS x] by (auto simp: nodes_ok_def)
  define N where "N = (let n = (?ns ! x)\<lparr> tt_time := time, tt_a := a, tt_b := b, tt_len := clen, tt_branch := -1,
      tt_reqid := tv_reqid st \<rparr>
    in case br of None \<Rightarrow> n | Some (branch, state) \<Rightarrow> n\<lparr> tt_branch := branch, tt_branch_state := state \<rparr>)"
  have N: "tt_next N = tt_next (?ns ! x)" "tt_time N < NO_CHILD" "cmd_of N = train_cmd time (a, b, clen) br (tv_reqid st)"
    using time br by (auto simp: N_def Let_def cmd_of_def train_cmd_def is_branch_def split: option.splits)
  obtain h where h: "heap_add (tkey (?ns[x := N])) (tv_heap st) x = Inr h" "nodes_ok (?ns[x := N]) (tt_next (?ns ! x)) h fs"
    "image_mset (\<lambda>i. cmd_of (?ns[x := N] ! i)) (heap_bag h) = add_mset (cmd_of N) (pending st)"
    using queue_node_ok [OF x(2) N(1,2)] unfolding pending_def by blast
  let ?st = "st\<lparr> tv_backing := ?ns[x := N], tv_free := tt_next (?ns ! x), tv_reqid := tv_reqid st + 1, tv_heap := h \<rparr>"
  have reqid: "cint (tv_reqid st + 1) = Inr (tv_reqid st + 1)" using r by (simp add: cint_def)
  have run: "add_command st time a b clen br = Inr ?st"
    using x(1,3) h(1) reqid
    by (cases br) (auto simp: add_command_def build_task_def set_branch_def queue_task_def N_def Let_def)
  have pend: "pending ?st = add_mset (train_cmd time (a, b, clen) br (tv_reqid st)) (pending st)"
    using h(3) N(3) by (simp add: pending_def)
  have "train_ok ?st"
    using ok h(2) br pend by (auto simp: train_ok_def train_cmd_def)
  moreover have "train_abs ?st = (train_abs st)\<lparr> ab_pending := add_mset (train_cmd time (a, b, clen) br (tv_reqid st)) (pending st),
       ab_next := tv_reqid st + 1 \<rparr>"
    using pend by (simp add: train_abs_def)
  ultimately show ?thesis by (rule that [OF run])
qed
subsection \<open>The worker\<close>

lemma mark_branch_ok:
  assumes "is_branch (tt_branch n)" "length (ev_branch_a ev) = 20" "length (ev_branch_b ev) = 4"
  obtains ev' where "mark_branch ev n = Inr ev'"
    "switch_state ev' = (switch_state ev)(tt_branch n := word_of_int (tt_branch_state n))"
    "ev_sensors ev' = ev_sensors ev" "ev_time ev' = ev_time ev" "length (ev_branch_a ev') = 20" "length (ev_branch_b ev') = 4"
proof (cases "tt_branch n < 20")
  case True
  then have b: "0 \<le> tt_branch n" using assms(1) by (simp add: is_branch_def)
  let ?ev = "ev\<lparr> ev_branch_a := (ev_branch_a ev)[nat (tt_branch n) := word_of_int (tt_branch_state n)] \<rparr>"
  have "switch_state ?ev x = ((switch_state ev)(tt_branch n := word_of_int (tt_branch_state n))) x" for x
    using True b assms(2) by (auto simp: switch_state_def nth_update)
  then show ?thesis
    by (intro that [of ?ev] ext) (use True b assms in \<open>simp_all add: mark_branch_def wri_def\<close>)
next
  case False
  then have b: "153 \<le> tt_branch n" "tt_branch n \<le> 156" using assms(1) by (simp_all add: is_branch_def)
  let ?ev = "ev\<lparr> ev_branch_b := (ev_branch_b ev)[nat (tt_branch n - 153) := word_of_int (tt_branch_state n)] \<rparr>"
  have "switch_state ?ev x = ((switch_state ev)(tt_branch n := word_of_int (tt_branch_state n))) x" for x
    using False b assms(3) by (auto simp: switch_state_def nth_update)
  then show ?thesis
    by (intro that [of ?ev] ext) (use False b assms in \<open>simp_all add: mark_branch_def wri_def\<close>)
qed

text \<open>Taking the first node out of the heap and putting it back on the free list.\<close>

lemma take_node_ok:
  assumes "nodes_ok ns p h fs" "heap_bag h \<noteq> {#}" "x = items h ! 0"
  obtains h' where "x < length ns" "x \<in># heap_bag h" "\<forall>y \<in># heap_bag h. tt_time (ns ! x) \<le> tt_time (ns ! y)"
    "heap_pop (tkey ns) h = Inr h'" "nodes_ok (ns[x := (ns ! x)\<lparr> tt_next := p \<rparr>]) (Some x) h' (x # fs)"
    "heap_bag h' = heap_bag h - {#x#}"
proof -
  have nodes: "length ns = MAX_TRAIN_CMDS" "linked ns p fs" "mset fs + heap_bag h = mset [0..<MAX_TRAIN_CMDS]"
    "heap_inv (tkey ns) h" "length (items h) = MAX_TRAIN_CMDS"
    using assms(1) by (simp_all add: nodes_ok_def)
  note ms = mset_nodes [OF nodes(3)]
  have x: "x \<in># heap_bag h" "x < length ns" "x \<notin> set fs"
    using heap_root_in [OF nodes(4) assms(2)] assms(3) ms nodes(1) by auto
  have min: "\<forall>y \<in># heap_bag h. tt_time (ns ! x) \<le> tt_time (ns ! y)"
    using heap_root_min [OF nodes(4)] assms(3) by (simp add: tkey_def)
  obtain h' where h': "heap_pop (tkey ns) h = Inr h'" "heap_inv (tkey ns) h'" "heap_bag h' = heap_bag h - {#x#}"
    "length (items h') = length (items h)"
    using heap_pop_ok [OF nodes(4) assms(2)] assms(3) by metis
  let ?ns = "ns[x := (ns ! x)\<lparr> tt_next := p \<rparr>]"
  have "linked ns p fs = linked ?ns p fs"
    by (rule linked_cong) (use x(3) in \<open>auto simp: nth_update\<close>)
  moreover have "heap_inv (tkey ?ns) h'"
    by (rule heap_inv_cong [OF h'(2)]) (simp add: tkey_def nth_update)
  moreover have "mset (x # fs) + heap_bag h' = mset [0..<MAX_TRAIN_CMDS]"
    using nodes(3) h'(3) x(1) by (metis add_mset_add_single insert_DiffM mset.simps(2) union_mset_add_mset_left union_mset_add_mset_right)
  ultimately have "nodes_ok ?ns (Some x) h' (x # fs)"
    using nodes h'(4) x(2) by (simp add: nodes_ok_def)
  then show ?thesis using that x min h'(1,3) by blast
qed

lemma handle_worker_ok:
  assumes ok: "train_ok st" and now: "- (2 ^ 31) \<le> now" "now < NO_CHILD"
  shows "\<exists>acts st'. handle_worker st wt client now = Inr (acts, st') \<and> train_ok st' \<and>
    train_spec wt client (WORKER now) (train_abs st) acts (train_abs st')"
proof -
  let ?ns = "tv_backing st" and ?h = "tv_heap st"
  obtain fs where fs: "nodes_ok ?ns (tv_free st) ?h fs" using ok by (auto simp: train_ok_def)
  then have inv: "heap_inv (tkey ?ns) ?h" by (simp add: nodes_ok_def)
  show ?thesis
  proof (cases "heap_bag ?h = {#}")
    case True
    then show ?thesis
      using ok heap_peek_ok [OF inv] by (auto simp: handle_worker_def train_abs_def pending_def)
  next
    case False
    define x where "x = items ?h ! 0"
    obtain h' where h': "x < length ?ns" "x \<in># heap_bag ?h" "\<forall>y \<in># heap_bag ?h. tt_time (?ns ! x) \<le> tt_time (?ns ! y)"
      "heap_pop (tkey ?ns) ?h = Inr h'" "nodes_ok (?ns[x := (?ns ! x)\<lparr> tt_next := tv_free st \<rparr>]) (Some x) h' (x # fs)"
      "heap_bag h' = heap_bag ?h - {#x#}"
      by (rule take_node_ok [OF fs False x_def])
    have peek: "heap_peek ?h = Inr (Some x)" using heap_peek_ok [OF inv] False by (simp add: x_def)
    let ?n = "?ns ! x" and ?c = "cmd_of (?ns ! x)"
    have c: "?c \<in># pending st" "\<forall>d \<in># pending st. c_time ?c \<le> c_time d" "c_time ?c = tt_time ?n"
      using h'(2,3) by (auto simp: pending_def cmd_of_def)
    show ?thesis
    proof (cases "tt_time ?n \<le> now")
      case False
      have "cint (now + 7) = Inr (now + 7)" using now by (simp add: cint_def NO_CHILD_def)
      moreover have "(\<forall>d \<in># pending st. now + 7 < c_time d) \<longleftrightarrow> now + 7 < tt_time ?n"
        using c by fastforce
      moreover have "\<not> (\<exists>d \<in># pending st. c_time d \<le> now)" using c False by fastforce
      ultimately show ?thesis
        using ok h'(1) peek False by (auto simp: handle_worker_def train_abs_def)
    next
      case True
      let ?ns' = "?ns[x := ?n\<lparr> tt_next := tv_free st \<rparr>]"
      have lens: "length (ev_branch_a (tv_event st)) = 20" "length (ev_branch_b (tv_event st)) = 4"
        using ok by (simp_all add: train_ok_def)
      obtain ev where ev: "cbind (if tt_branch ?n \<noteq> -1
            then cbind (mark_branch (tv_event st) ?n) (\<lambda>ev. Inr (st\<lparr> tv_event := ev, tv_branch_dirty := True \<rparr>)) else Inr st) f =
          f (st\<lparr> tv_event := ev, tv_branch_dirty := (tv_branch_dirty st \<or> c_branch ?c \<noteq> None) \<rparr>)"
        "switch_state ev = turned (switch_state (tv_event st)) ?c" "ev_sensors ev = ev_sensors (tv_event st)"
        "ev_time ev = ev_time (tv_event st)" "length (ev_branch_a ev) = 20" "length (ev_branch_b ev) = 4"
        for f :: "trainserver \<Rightarrow> (train_act list \<times> trainserver) cres"
      proof (cases "tt_branch ?n = -1")
        case True
        show ?thesis by (rule that [of "tv_event st"]) (use True lens in \<open>simp_all add: cmd_of_def turned_def\<close>)
      next
        case False
        then have "is_branch (tt_branch ?n)"
          using ok c(1) unfolding train_ok_def by (auto simp: cmd_of_def)
        then obtain ev where ev: "mark_branch (tv_event st) ?n = Inr ev"
          "switch_state ev = (switch_state (tv_event st))(tt_branch ?n := word_of_int (tt_branch_state ?n))"
          "ev_sensors ev = ev_sensors (tv_event st)" "ev_time ev = ev_time (tv_event st)"
          "length (ev_branch_a ev) = 20" "length (ev_branch_b ev) = 4"
          using mark_branch_ok [OF _ lens] by metis
        show ?thesis by (rule that [of ev]) (use False ev in \<open>simp_all add: cmd_of_def turned_def\<close>)
      qed
      let ?st = "st\<lparr> tv_event := ev, tv_branch_dirty := (tv_branch_dirty st \<or> c_branch ?c \<noteq> None), tv_heap := h',
        tv_backing := ?ns', tv_free := Some x \<rparr>"
      have run: "handle_worker st wt client now = Inr ([Tell_Worker client (do_cmd ?c)], ?st)"
        using peek h'(1,4) True unfolding handle_worker_def
        by (simp only: cbind_simps option.case rd_ok prod.case if_True ev(1)) (simp add: do_cmd_def cmd_of_def)
      have "cmd_of (?ns' ! i) = cmd_of (?ns ! i)" for i by (simp add: nth_update cmd_of_def)
      then have pend: "pending ?st = pending st - {#?c#}"
        using h'(2,6) by (simp add: pending_def image_mset_Diff)
      have "train_ok ?st"
        using ok h'(5) ev pend in_diffD [of _ "pending st" "{#?c#}"] unfolding train_ok_def by fastforce
      moreover have "train_abs ?st = (train_abs st)\<lparr> ab_pending := pending st - {#?c#},
          ab_switch := turned (switch_state (tv_event st)) ?c,
          ab_switched := (tv_branch_dirty st \<or> c_branch ?c \<noteq> None) \<rparr>"
        using pend ev by (simp add: train_abs_def)
      moreover have "\<exists>d \<in># pending st. c_time d \<le> now"
        by (rule bexI [OF _ c(1)]) (use c(3) True in simp)
      ultimately have "train_spec wt client (WORKER now) (train_abs st) [Tell_Worker client (do_cmd ?c)] (train_abs ?st)"
        unfolding train_spec.simps using c True by (auto simp: train_abs_def intro!: bexI [OF _ c(1)])
      then show ?thesis using run \<open>train_ok ?st\<close> by blast
    qed
  qed
qed
subsection \<open>The sensors\<close>

definition rising :: "8 word list \<Rightarrow> 8 word list \<Rightarrow> 8 word list \<Rightarrow> nat \<Rightarrow> 8 word" where
  "rising es new old i = or (es ! i) (and (new ! i) (not (old ! i)))"

lemma sensor_bytes_ok:
  assumes "length es = SENSOR_BYTES" "length bytes = SENSOR_BYTES" "length (tv_sensors st) = SENSOR_BYTES"
    and "ev_sensors (tv_event st) = es" "n \<le> SENSOR_BYTES"
  shows "cfold (sensor_byte bytes) st [0..<n] = Inr (st
    \<lparr> tv_event := (tv_event st)\<lparr> ev_sensors := map (\<lambda>i. if i < n then rising es bytes (tv_sensors st) i else es ! i) [0..<SENSOR_BYTES] \<rparr>,
      tv_sensors := map (\<lambda>i. if i < n then bytes ! i else tv_sensors st ! i) [0..<SENSOR_BYTES],
      tv_sensor_dirty := (tv_sensor_dirty st \<or> (\<exists>i < n. rising es bytes (tv_sensors st) i \<noteq> 0)) \<rparr>)"
  using assms(5)
proof (induction n)
  case 0
  have "map ((!) es) [0..<SENSOR_BYTES] = es" "map ((!) (tv_sensors st)) [0..<SENSOR_BYTES] = tv_sensors st"
    using assms(1,3) map_nth by metis+
  then show ?case using assms(4) by simp
next
  case (Suc n)
  let ?st = "st\<lparr> tv_event := (tv_event st)\<lparr> ev_sensors := map (\<lambda>i. if i < n then rising es bytes (tv_sensors st) i else es ! i) [0..<SENSOR_BYTES] \<rparr>,
      tv_sensors := map (\<lambda>i. if i < n then bytes ! i else tv_sensors st ! i) [0..<SENSOR_BYTES],
      tv_sensor_dirty := (tv_sensor_dirty st \<or> (\<exists>i < n. rising es bytes (tv_sensors st) i \<noteq> 0)) \<rparr>"
  have n: "n < SENSOR_BYTES" using Suc.prems by simp
  have upd: "(map (\<lambda>i. if i < n then f i else g i) [0..<SENSOR_BYTES])[n := f n] =
      map (\<lambda>i. if i < Suc n then f i else g i) [0..<SENSOR_BYTES]" for f g :: "nat \<Rightarrow> 8 word"
    by (rule nth_equalityI) (auto simp: nth_update n less_Suc_eq)
  have "cfold (sensor_byte bytes) st [0..<Suc n] = sensor_byte bytes ?st n"
    using Suc.IH n by (simp add: cfold_append)
  also have "\<dots> = Inr (st
    \<lparr> tv_event := (tv_event st)\<lparr> ev_sensors := map (\<lambda>i. if i < Suc n then rising es bytes (tv_sensors st) i else es ! i) [0..<SENSOR_BYTES] \<rparr>,
      tv_sensors := map (\<lambda>i. if i < Suc n then bytes ! i else tv_sensors st ! i) [0..<SENSOR_BYTES],
      tv_sensor_dirty := (tv_sensor_dirty st \<or> (\<exists>i < Suc n. rising es bytes (tv_sensors st) i \<noteq> 0)) \<rparr>)"
  proof -
    have "(map (\<lambda>i. if i < n then rising es bytes (tv_sensors st) i else es ! i) [0..<SENSOR_BYTES])
        [n := or (es ! n) (and (bytes ! n) (not (tv_sensors st ! n)))] =
      map (\<lambda>i. if i < Suc n then rising es bytes (tv_sensors st) i else es ! i) [0..<SENSOR_BYTES]"
      using upd [of "rising es bytes (tv_sensors st)" "(!) es"] by (simp add: rising_def)
    moreover have "(\<exists>i < Suc n. P i) \<longleftrightarrow> (\<exists>i < n. P i) \<or> P n" for P by (auto simp: less_Suc_eq)
    ultimately show ?thesis
      using n assms(2) upd [of "(!) bytes" "(!) (tv_sensors st)"]
      by (simp add: sensor_byte_def Let_def rising_def disj_assoc)
  qed
  finally show ?case .
qed

lemma handle_sensors_ok:
  assumes ok: "train_ok st" and bytes: "length bytes = SENSOR_BYTES"
  shows "\<exists>acts st'. handle_sensors st client time bytes = Inr (acts, st') \<and> train_ok st' \<and>
    train_spec wt client (WORKER_SENSOR time bytes) (train_abs st) acts (train_abs st')"
proof -
  let ?es = "ev_sensors (tv_event st)" and ?n = SENSOR_BYTES
  have lens: "length ?es = ?n" "length (tv_sensors st) = ?n"
    and dirty: "tv_sensor_dirty st \<longleftrightarrow> any_bit ?es"
    using ok by (simp_all add: train_ok_def)
  let ?es' = "map (rising ?es bytes (tv_sensors st)) [0..<?n]"
  have maps: "map (\<lambda>i. if i < ?n then f i else g i) [0..<?n] = map f [0..<?n]" for f g :: "nat \<Rightarrow> 8 word" by simp
  have "map ((!) bytes) [0..<?n] = bytes" using bytes map_nth [of bytes] by simp
  then have fold: "cfold (sensor_byte bytes) st [0..<?n] = Inr (st\<lparr> tv_event := (tv_event st)\<lparr> ev_sensors := ?es' \<rparr>,
      tv_sensors := bytes, tv_sensor_dirty := (tv_sensor_dirty st \<or> (\<exists>i < ?n. rising ?es bytes (tv_sensors st) i \<noteq> 0)) \<rparr>)"
    using sensor_bytes_ok [OF lens(1) bytes lens(2) refl le_refl] by (simp only: maps)
  have "(tv_sensor_dirty st \<or> (\<exists>i < ?n. rising ?es bytes (tv_sensors st) i \<noteq> 0)) \<longleftrightarrow> any_bit ?es'"
  proof -
    have "\<exists>i < ?n. rising ?es bytes (tv_sensors st) i \<noteq> 0" if d: "tv_sensor_dirty st"
    proof -
      obtain b where b: "b \<in> set ?es" "b \<noteq> 0" using d dirty unfolding any_bit_def by blast
      then obtain i where "i < length ?es" "?es ! i = b" unfolding in_set_conv_nth by blast
      then have "i < ?n" "?es ! i \<noteq> 0" using b(2) lens(1) by simp_all
      then show ?thesis by (intro exI [of _ i]) (simp add: rising_def or_eq_0_iff)
    qed
    moreover have "any_bit ?es' \<longleftrightarrow> (\<exists>i < ?n. rising ?es bytes (tv_sensors st) i \<noteq> 0)"
      by (auto simp: any_bit_def)
    ultimately show ?thesis by blast
  qed
  then show ?thesis
    using ok fold bytes
    by (auto simp: handle_sensors_def train_ok_def train_abs_def pending_def rising_def switch_state_def fun_eq_iff)
qed

subsection \<open>New commands\<close>

lemma physical_ok: "0 \<le> train \<Longrightarrow> train < 6 \<Longrightarrow> v_p_train_num train = Inr (supported_trains ! nat train)"
  by (simp add: v_p_train_num_def rdi_def rd_def supported_trains_def nat_less_iff)

text \<open>Several commands one after the other.\<close>

fun add_all :: "trainserver \<Rightarrow> command list \<Rightarrow> trainserver cres" where
  "add_all st [] = Inr st"
| "add_all st (c # cs) = (case c_bytes c of (a, b, l) \<Rightarrow>
     cbind (add_command st (c_time c) a b l (c_branch c)) (\<lambda>st1. add_all st1 cs))"

fun numbered :: "int \<Rightarrow> command list \<Rightarrow> bool" where
  "numbered r [] \<longleftrightarrow> True"
| "numbered r (c # cs) \<longleftrightarrow> c_reqid c = r \<and> numbered (r + 1) cs"

lemma add_all_ok:
  assumes "train_ok st" "size (pending st) + length cs \<le> MAX_TRAIN_CMDS" "0 \<le> tv_reqid st"
    and "tv_reqid st + int (length cs) < 2 ^ 31" "numbered (tv_reqid st) cs" "\<forall>c \<in> set cs. c_time c < NO_CHILD"
    and "\<forall>c \<in> set cs. \<forall>b state. c_branch c = Some (b, state) \<longrightarrow> is_branch b"
  shows "\<exists>st'. add_all st cs = Inr st' \<and> train_ok st' \<and>
    train_abs st' = (train_abs st)\<lparr> ab_pending := pending st + mset cs, ab_next := tv_reqid st + int (length cs) \<rparr>"
  using assms
proof (induction cs arbitrary: st)
  case Nil
  then show ?case by (simp add: train_abs_def)
next
  case (Cons c cs)
  obtain a b l where bytes: "c_bytes c = (a, b, l)" by (cases "c_bytes c") auto
  obtain st1 where st1: "add_command st (c_time c) a b l (c_branch c) = Inr st1" "train_ok st1"
    "train_abs st1 = (train_abs st)\<lparr> ab_pending := add_mset (train_cmd (c_time c) (a, b, l) (c_branch c) (tv_reqid st)) (pending st),
       ab_next := tv_reqid st + 1 \<rparr>"
    by (rule add_command_ok [OF Cons.prems(1), of "c_time c" "c_branch c"]) (use Cons.prems in auto)
  have "train_cmd (c_time c) (a, b, l) (c_branch c) (tv_reqid st) = c"
    using bytes Cons.prems(5) by (cases c) (simp add: train_cmd_def)
  then have sel: "pending st1 = add_mset c (pending st)" "tv_reqid st1 = tv_reqid st + 1"
    using st1(3) by (simp_all add: train_abs_def)
  obtain st' where "add_all st1 cs = Inr st'" "train_ok st'"
    "train_abs st' = (train_abs st1)\<lparr> ab_pending := pending st1 + mset cs, ab_next := tv_reqid st1 + int (length cs) \<rparr>"
    using Cons.IH [OF st1(2)] Cons.prems sel by auto
  then show ?case using st1(1,3) bytes sel by (simp add: algebra_simps)
qed
lemma add_command_full:
  assumes "train_ok st" "size (pending st) = MAX_TRAIN_CMDS"
  shows "add_command st time a b clen br = Inl (Assert_Failed ''No Free Train Task'')"
proof -
  obtain fs where fs: "nodes_ok (tv_backing st) (tv_free st) (tv_heap st) fs" using assms(1) by (auto simp: train_ok_def)
  then have "length fs + size (pending st) = MAX_TRAIN_CMDS"
    using mset_nodes(5) [of fs "tv_heap st" MAX_TRAIN_CMDS] by (simp add: nodes_ok_def pending_def)
  then have "tv_free st = None" using fs assms(2) by (simp add: nodes_ok_def)
  then show ?thesis by (simp add: add_command_def build_task_def)
qed

lemma pending_bound: "train_ok st \<Longrightarrow> size (pending st) \<le> MAX_TRAIN_CMDS"
  using mset_nodes(5) [of _ "tv_heap st" MAX_TRAIN_CMDS] by (force simp: train_ok_def nodes_ok_def pending_def)

lemma add_all_full:
  assumes "train_ok st" "MAX_TRAIN_CMDS < size (pending st) + length cs" "0 \<le> tv_reqid st"
    and "tv_reqid st + int (length cs) < 2 ^ 31" "\<forall>c \<in> set cs. c_time c < NO_CHILD"
    and "\<forall>c \<in> set cs. \<forall>b state. c_branch c = Some (b, state) \<longrightarrow> is_branch b"
  shows "add_all st cs = Inl (Assert_Failed ''No Free Train Task'')"
  using assms
proof (induction cs arbitrary: st)
  case Nil
  then show ?case using pending_bound [of st] by simp
next
  case (Cons c cs)
  obtain a b l where bytes: "c_bytes c = (a, b, l)" by (cases "c_bytes c") auto
  show ?case
  proof (cases "size (pending st) = MAX_TRAIN_CMDS")
    case True
    then show ?thesis using add_command_full [OF Cons.prems(1)] bytes by simp
  next
    case False
    then have room: "size (pending st) < MAX_TRAIN_CMDS" using pending_bound [OF Cons.prems(1)] by simp
    obtain st1 where st1: "add_command st (c_time c) a b l (c_branch c) = Inr st1" "train_ok st1"
      "train_abs st1 = (train_abs st)\<lparr> ab_pending := add_mset (train_cmd (c_time c) (a, b, l) (c_branch c) (tv_reqid st)) (pending st),
         ab_next := tv_reqid st + 1 \<rparr>"
      by (rule add_command_ok [OF Cons.prems(1) room, of "c_time c" "c_branch c"]) (use Cons.prems in auto)
    then have "size (pending st1) = size (pending st) + 1" "tv_reqid st1 = tv_reqid st + 1" by (simp_all add: train_abs_def)
    then show ?thesis using st1(1) bytes Cons.IH [OF st1(2)] Cons.prems by simp
  qed
qed

text \<open>The handlers of commands add the commands of the request, in order.\<close>

definition is_command :: "train_msg \<Rightarrow> bool" where
  "is_command req \<longleftrightarrow> (case req of SPEED _ _ _ \<Rightarrow> True | REVERSE _ _ _ \<Rightarrow> True | SWITCH _ _ _ \<Rightarrow> True | _ \<Rightarrow> False)"

lemma handle_command:
  assumes "request_ok req" "is_command req"
  shows "handle_train_msg st wt client req = cbind (add_all st (commands_of req r)) (\<lambda>st1. Inr ([Ack client], st1))"
proof (cases req)
  case (SPEED train data time)
  then show ?thesis using assms(1)
    by (simp add: handle_train_msg_def handle_speed_def physical_ok physical_def train_cmd_def cbind_assoc)
next
  case (REVERSE train data time)
  then have "cint (time + 500) = Inr (time + 500)" "cint (time + 510) = Inr (time + 510)"
    using assms(1) by (simp_all add: cint_def NO_CHILD_def)
  then show ?thesis using assms(1) REVERSE
    by (simp add: handle_train_msg_def handle_reverse_def physical_ok physical_def train_cmd_def cbind_assoc)
next
  case (SWITCH sw data time)
  then have ints: "cint (time + 20) = Inr (time + 20)" "cint (40 + time) = Inr (time + 40)"
    using assms(1) by (simp_all add: cint_def NO_CHILD_def)
  show ?thesis
  proof (cases "switch_partner sw")
    case None
    then show ?thesis using SWITCH ints by (simp add: handle_train_msg_def handle_switch_def train_cmd_def cbind_assoc)
  next
    case (Some other)
    then show ?thesis using SWITCH ints
      by (simp add: handle_train_msg_def handle_switch_def train_cmd_def cbind_assoc Let_def)
  qed
qed (use assms(2) in \<open>simp_all add: is_command_def\<close>)

lemma commands_ok:
  assumes "request_ok req" "is_command req" "cs = commands_of req r"
  shows "numbered r cs" "\<forall>c \<in> set cs. c_time c < NO_CHILD" "length cs \<le> 3"
    "\<forall>c \<in> set cs. \<forall>b state. c_branch c = Some (b, state) \<longrightarrow> is_branch b"
proof -
  have "numbered r cs \<and> (\<forall>c \<in> set cs. c_time c < NO_CHILD) \<and> length cs \<le> 3 \<and>
    (\<forall>c \<in> set cs. \<forall>b state. c_branch c = Some (b, state) \<longrightarrow> is_branch b)"
  proof (cases req)
    case (SWITCH sw data time)
    show ?thesis
    proof (cases "switch_partner sw")
      case (Some other)
      then have "is_branch other" by (auto simp: switch_partner_def is_branch_def split: if_splits)
      then show ?thesis using SWITCH Some assms by (auto simp: train_cmd_def Let_def)
    qed (use SWITCH assms in \<open>auto simp: train_cmd_def\<close>)
  qed (use assms in \<open>auto simp: train_cmd_def is_command_def\<close>)
  then show "numbered r cs" "\<forall>c \<in> set cs. c_time c < NO_CHILD" "length cs \<le> 3"
    "\<forall>c \<in> set cs. \<forall>b state. c_branch c = Some (b, state) \<longrightarrow> is_branch b" by blast+
qed

subsection \<open>Steps and runs\<close>

lemma train_ok_frame:
  assumes "train_ok st" "tv_backing st' = tv_backing st" "tv_free st' = tv_free st" "tv_heap st' = tv_heap st"
    "tv_sensors st' = tv_sensors st" "ev_branch_a (tv_event st') = ev_branch_a (tv_event st)"
    "ev_branch_b (tv_event st') = ev_branch_b (tv_event st)" "length (ev_sensors (tv_event st')) = SENSOR_BYTES"
    "tv_sensor_dirty st' \<longleftrightarrow> any_bit (ev_sensors (tv_event st'))"
  shows "train_ok st'"
  using assms(1,8,9) unfolding train_ok_def pending_def assms(2-7) by blast

lemma tell_couriers_ok:
  assumes "train_ok st"
  shows "\<exists>acts st'. tell_couriers st = Inr (acts, st') \<and> train_ok st' \<and> courier_spec (train_abs st) acts (train_abs st')"
proof -
  have dirty: "tv_sensor_dirty st \<longleftrightarrow> any_bit (ev_sensors (tv_event st))" using assms by (simp add: train_ok_def)
  define st1 where "st1 = (if tv_sensor_dirty st \<and> tv_sensor_waiting st \<noteq> -1
    then st\<lparr> tv_sensor_waiting := -1, tv_sensor_dirty := False,
      tv_event := (tv_event st)\<lparr> ev_sensors := replicate SENSOR_BYTES 0 \<rparr> \<rparr> else st)"
  define st2 where "st2 = (if tv_branch_dirty st1 \<and> tv_branch_waiting st1 \<noteq> -1
    then st1\<lparr> tv_branch_waiting := -1, tv_branch_dirty := False \<rparr> else st1)"
  define acts where "acts = (if tv_sensor_dirty st \<and> tv_sensor_waiting st \<noteq> -1 then [Tell_Event (tv_sensor_waiting st) (tv_event st)] else []) @
     (if tv_branch_dirty st1 \<and> tv_branch_waiting st1 \<noteq> -1 then [Tell_Event (tv_branch_waiting st1) (tv_event st1)] else [])"
  have run: "tell_couriers st = Inr (acts, st2)"
  proof -
    have "(if tv_sensor_dirty st \<and> tv_sensor_waiting st \<noteq> -1
         then ([Tell_Event (tv_sensor_waiting st) (tv_event st)],
               st\<lparr> tv_sensor_waiting := -1, tv_sensor_dirty := False,
                    tv_event := (tv_event st)\<lparr> ev_sensors := replicate SENSOR_BYTES 0 \<rparr> \<rparr>)
         else ([], st)) =
      (if tv_sensor_dirty st \<and> tv_sensor_waiting st \<noteq> -1 then [Tell_Event (tv_sensor_waiting st) (tv_event st)] else [], st1)"
      unfolding st1_def by simp
    then show ?thesis
      by (cases "tv_branch_dirty st1 \<and> tv_branch_waiting st1 \<noteq> -1") (simp_all only: tell_couriers_def acts_def st2_def Let_def prod.case simp_thms if_True if_False append_Nil2)
  qed
  have lens: "length (ev_sensors (tv_event st)) = SENSOR_BYTES" using assms by (simp add: train_ok_def)
  have ok1: "train_ok st1"
    by (rule train_ok_frame [OF assms]) (use dirty lens in \<open>simp_all add: st1_def\<close>)
  have "length (ev_sensors (tv_event st1)) = SENSOR_BYTES" "tv_sensor_dirty st1 \<longleftrightarrow> any_bit (ev_sensors (tv_event st1))"
    using ok1 unfolding train_ok_def by blast+
  then have ok2: "train_ok st2"
    by (intro train_ok_frame [OF ok1]) (simp_all add: st2_def)
  have ab1: "train_abs st1 = (if tv_sensor_dirty st \<and> tv_sensor_waiting st \<noteq> -1
      then (train_abs st)\<lparr> ab_pressed := replicate SENSOR_BYTES 0, ab_sensor_courier := -1 \<rparr> else train_abs st)"
    by (simp add: st1_def train_abs_def pending_def switch_state_def fun_eq_iff)
  have ab2: "train_abs st2 = (if tv_branch_dirty st1 \<and> tv_branch_waiting st1 \<noteq> -1
      then (train_abs st1)\<lparr> ab_switched := False, ab_branch_courier := -1 \<rparr> else train_abs st1)"
    by (simp add: st2_def train_abs_def pending_def)
  have sel: "tv_branch_dirty st1 = tv_branch_dirty st" "tv_branch_waiting st1 = tv_branch_waiting st" by (simp_all add: st1_def)
  have told: "tells (train_abs st) (tv_event st)" "tells (train_abs st1) (tv_event st1)"
    by (simp_all add: tells_def train_abs_def)
  have pressed: "(any_bit (ab_pressed (train_abs st)) \<and> ab_sensor_courier (train_abs st) \<noteq> -1) =
      (tv_sensor_dirty st \<and> tv_sensor_waiting st \<noteq> -1)"
    using dirty by (simp add: train_abs_def)
  have switched: "(ab_switched (train_abs st) \<and> ab_branch_courier (train_abs st) \<noteq> -1) =
      (tv_branch_dirty st1 \<and> tv_branch_waiting st1 \<noteq> -1)"
    using sel by (simp add: train_abs_def)
  have "ab_sensor_courier (train_abs st) = tv_sensor_waiting st" "ab_branch_courier (train_abs st) = tv_branch_waiting st1"
    using sel by (simp_all add: train_abs_def)
  then have "courier_spec (train_abs st) acts (train_abs st2)"
    unfolding courier_spec_def Let_def pressed switched ab1 [symmetric]
    using ab2 told by (auto simp: acts_def)
  then show ?thesis using run ok2 by blast
qed

text \<open>One request, when there is room for its commands and when there is not.\<close>

lemma train_step_ok:
  assumes ok: "train_ok st" and req: "request_ok req" and r: "0 \<le> tv_reqid st" "tv_reqid st + 3 < 2 ^ 31"
  shows "if size (pending st) + length (commands_of req (tv_reqid st)) \<le> MAX_TRAIN_CMDS
    then \<exists>acts1 acts2 ab1 st'. train_step wt st (client, req) = Inr (acts1 @ acts2, st') \<and> train_ok st' \<and>
      train_spec wt client req (train_abs st) acts1 ab1 \<and> courier_spec ab1 acts2 (train_abs st')
    else train_step wt st (client, req) = Inl (Assert_Failed ''No Free Train Task'')"
proof -
  have "if size (pending st) + length (commands_of req (tv_reqid st)) \<le> MAX_TRAIN_CMDS
    then \<exists>acts st'. handle_train_msg st wt client req = Inr (acts, st') \<and> train_ok st' \<and>
      train_spec wt client req (train_abs st) acts (train_abs st')
    else handle_train_msg st wt client req = Inl (Assert_Failed ''No Free Train Task'')"
  proof (cases "is_command req")
    case True
    let ?cs = "commands_of req (tv_reqid st)"
    note cs = commands_ok [OF req True refl, of "tv_reqid st"]
    have r': "tv_reqid st + int (length ?cs) < 2 ^ 31" using r(2) cs(3) by linarith
    show ?thesis
    proof (cases "size (pending st) + length ?cs \<le> MAX_TRAIN_CMDS")
      case room: True
      obtain st' where st': "add_all st ?cs = Inr st'" "train_ok st'"
        "train_abs st' = (train_abs st)\<lparr> ab_pending := pending st + mset ?cs, ab_next := tv_reqid st + int (length ?cs) \<rparr>"
        using add_all_ok [OF ok room r(1) r' cs(1,2,4)] by blast
      have "train_spec wt client req (train_abs st) [Ack client] (train_abs st')"
        using True st'(3) unfolding is_command_def by (cases req) (simp_all add: train_abs_def)
      then show ?thesis using room st' handle_command [OF req True, of st wt client "tv_reqid st"] by simp
    next
      case False
      then show ?thesis
        using handle_command [OF req True, of st wt client "tv_reqid st"] add_all_full [OF ok _ r(1) r' cs(2,4)] by simp
    qed
  next
    case False
    then have none: "commands_of req (tv_reqid st) = []" by (cases req) (simp_all add: is_command_def)
    have "\<exists>acts st'. handle_train_msg st wt client req = Inr (acts, st') \<and> train_ok st' \<and>
      train_spec wt client req (train_abs st) acts (train_abs st')"
    proof (cases req)
      case (WORKER time)
      then show ?thesis using handle_worker_ok [OF ok] req by (auto simp: handle_train_msg_def simp del: train_spec.simps)
    next
      case (WORKER_SENSOR time bytes)
      then show ?thesis using handle_sensors_ok [OF ok] req by (auto simp: handle_train_msg_def simp del: train_spec.simps)
    next
      case SENSOR_EVENT
      then show ?thesis using ok by (simp add: handle_train_msg_def train_ok_def train_abs_def pending_def)
    next
      case BRANCH_EVENT
      then show ?thesis using ok by (simp add: handle_train_msg_def train_ok_def train_abs_def pending_def)
    qed (use req False in \<open>simp_all add: is_command_def\<close>)
    then show ?thesis using pending_bound [OF ok] none by simp
  qed
  then show ?thesis
  proof (cases "size (pending st) + length (commands_of req (tv_reqid st)) \<le> MAX_TRAIN_CMDS")
    case True
    then obtain acts1 st1 where st1: "handle_train_msg st wt client req = Inr (acts1, st1)" "train_ok st1"
      "train_spec wt client req (train_abs st) acts1 (train_abs st1)"
      using \<open>if _ then _ else _\<close> by auto
    obtain acts2 st' where "tell_couriers st1 = Inr (acts2, st')" "train_ok st'" "courier_spec (train_abs st1) acts2 (train_abs st')"
      using tell_couriers_ok [OF st1(2)] by blast
    then show ?thesis using True st1 by (auto simp: train_step_def)
  next
    case False
    then show ?thesis using \<open>if _ then _ else _\<close> by (simp add: train_step_def)
  qed
qed
text \<open>A run of the abstract server.\<close>

fun spec_run ::
  "char \<Rightarrow> train_abs \<Rightarrow> (int \<times> train_msg) list \<Rightarrow> train_act list list \<Rightarrow> train_abs \<Rightarrow> bool" where
  "spec_run wt ab [] outs ab' \<longleftrightarrow> outs = [] \<and> ab' = ab"
| "spec_run wt ab ((client, req) # reqs) outs ab' \<longleftrightarrow>
     (\<exists>acts1 acts2 ab1 ab2 outs'. train_spec wt client req ab acts1 ab1 \<and> courier_spec ab1 acts2 ab2 \<and>
        outs = (acts1 @ acts2) # outs' \<and> spec_run wt ab2 reqs outs' ab')"

text \<open>The run meets no fault, or it ends where there is no room for the commands of a request.\<close>

definition out_of_nodes :: "char \<Rightarrow> trainserver \<Rightarrow> (int \<times> train_msg) list \<Rightarrow> bool" where
  "out_of_nodes wt st reqs \<longleftrightarrow>
     (\<exists>earlier client req later outs st1. reqs = earlier @ (client, req) # later \<and> train_run wt st earlier = Inr (outs, st1) \<and>
        MAX_TRAIN_CMDS < size (pending st1) + length (commands_of req 0))"

lemma length_commands: "length (commands_of req r) = length (commands_of req 0)"
  by (cases req) (auto simp: Let_def split: option.splits)

lemma spec_reqid:
  assumes "train_spec wt client req ab acts1 ab1" "courier_spec ab1 acts2 ab2"
  shows "ab_next ab2 = ab_next ab + int (length (commands_of req (ab_next ab)))"
proof -
  have "ab_next ab1 = ab_next ab + int (length (commands_of req (ab_next ab)))"
    using assms(1) by (cases req) (auto split: if_splits)
  moreover have "ab_next ab2 = ab_next ab1" using assms(2) by (auto simp: courier_spec_def Let_def)
  ultimately show ?thesis by simp
qed

lemma length_commands_le: "length (commands_of req r) \<le> 3"
  by (cases req) (auto simp: Let_def split: option.splits)

lemma train_run_ok:
  assumes "train_ok st" "\<forall>req \<in> set reqs. request_ok (snd req)" "0 \<le> tv_reqid st"
    and "tv_reqid st + 3 * int (length reqs) < 2 ^ 31"
  shows "(\<exists>outs st'. train_run wt st reqs = Inr (outs, st') \<and> train_ok st' \<and> spec_run wt (train_abs st) reqs outs (train_abs st')) \<or>
    train_run wt st reqs = Inl (Assert_Failed ''No Free Train Task'') \<and> out_of_nodes wt st reqs"
  using assms
proof (induction reqs arbitrary: st)
  case Nil
  then show ?case by simp
next
  case (Cons cr reqs)
  obtain client req where cr: "cr = (client, req)" by (cases cr)
  have req: "request_ok req" and r: "tv_reqid st + 3 < 2 ^ 31" using Cons.prems(2,4) cr by auto
  note step = train_step_ok [OF Cons.prems(1) req Cons.prems(3) r, of wt client]
  show ?case
  proof (cases "size (pending st) + length (commands_of req (tv_reqid st)) \<le> MAX_TRAIN_CMDS")
    case False
    then have "out_of_nodes wt st (cr # reqs)"
      unfolding out_of_nodes_def cr length_commands [of req "tv_reqid st"] by (intro exI [of _ "[]"]) auto
    then show ?thesis using False step cr by simp
  next
    case True
    obtain acts1 acts2 ab1 st1 where st1: "train_step wt st (client, req) = Inr (acts1 @ acts2, st1)" "train_ok st1"
      "train_spec wt client req (train_abs st) acts1 ab1" "courier_spec ab1 acts2 (train_abs st1)"
      using step True by auto
    have r1: "tv_reqid st1 = tv_reqid st + int (length (commands_of req (tv_reqid st)))"
      using spec_reqid [OF st1(3,4)] by (simp add: train_abs_def)
    have "tv_reqid st1 + 3 * int (length reqs) < 2 ^ 31" "0 \<le> tv_reqid st1"
      using r1 Cons.prems(3,4) length_commands_le [of req "tv_reqid st"] by auto
    then consider outs st' where "train_run wt st1 reqs = Inr (outs, st')" "train_ok st'"
        "spec_run wt (train_abs st1) reqs outs (train_abs st')"
      | "train_run wt st1 reqs = Inl (Assert_Failed ''No Free Train Task'')" "out_of_nodes wt st1 reqs"
      using Cons.IH [OF st1(2)] Cons.prems(2) by auto
    then show ?thesis
    proof cases
      case 1
      then show ?thesis using st1 cr by auto
    next
      case 2
      then obtain earlier client' req' later outs st2 where "reqs = earlier @ (client', req') # later"
        "train_run wt st1 earlier = Inr (outs, st2)" "MAX_TRAIN_CMDS < size (pending st2) + length (commands_of req' 0)"
        unfolding out_of_nodes_def by blast
      then have "out_of_nodes wt st (cr # reqs)"
        unfolding out_of_nodes_def
        by (intro exI [of _ "cr # earlier"] exI [of _ client'] exI [of _ req'] exI [of _ later]) (use st1(1) cr in auto)
      then show ?thesis using 2(1) st1(1) cr by simp
    qed
  qed
qed

lemma linked_upt:
  assumes "\<And>i. i < n \<Longrightarrow> tt_next (ns ! i) = (if i < n - 1 then Some (i + 1) else None)"
  shows "j \<le> n \<Longrightarrow> linked ns (if j < n then Some j else None) [j..<n]"
proof (induction "n - j" arbitrary: j)
  case (Suc m)
  then have j: "j < n" by simp
  have "linked ns (if Suc j < n then Some (Suc j) else None) [Suc j..<n]"
    using Suc by (intro Suc.hyps(1)) auto
  then show ?case unfolding upt_conv_Cons [OF j] using j assms [OF j] by (auto split: if_splits)
qed simp

lemma train_init_ok:
  assumes "length heap_backing = MAX_TRAIN_CMDS"
  shows "train_ok (train_init backing heap_backing)" "pending (train_init backing heap_backing) = {#}"
proof -
  let ?ns = "tv_backing (train_init backing heap_backing)"
  have "linked ?ns (if 0 < MAX_TRAIN_CMDS then Some 0 else None) [0..<MAX_TRAIN_CMDS]"
    by (rule linked_upt) (simp_all add: train_init_def)
  then have "nodes_ok ?ns (Some 0) (heap_init heap_backing) [0..<MAX_TRAIN_CMDS]"
    using assms heap_init_inv by (simp add: nodes_ok_def train_init_def) (simp add: heap_init_def MAX_TRAIN_CMDS_def)
  then show "train_ok (train_init backing heap_backing)"
    unfolding train_ok_def pending_def by (auto simp: train_init_def)
  show "pending (train_init backing heap_backing) = {#}" by (simp add: pending_def train_init_def)
qed

text \<open>
  C29: The train server implements a bag of commands. For every run of requests about trains and switches that exist its
  messages are those of the abstract server: the worker is handed one of the earliest commands, and
  only when it is due, each command once; the sensors are polled only while no command is due within seven ticks; a sensor
  that goes from released to pressed is told to the courier exactly once, however often the track
  is polled before the courier asks; and a courier hears of every switch that has been turned. The only fault is the assertion that
  a hundred commands are enough, when they are not.
\<close>

theorem trainserver_refinement:
  assumes "length heap_backing = MAX_TRAIN_CMDS" "\<forall>req \<in> set reqs. request_ok (snd req)" "3 * length reqs < 2 ^ 31"
  shows "(\<exists>outs st. train_run wt (train_init backing heap_backing) reqs = Inr (outs, st) \<and>
      spec_run wt (train_abs (train_init backing heap_backing)) reqs outs (train_abs st)) \<or>
    train_run wt (train_init backing heap_backing) reqs = Inl (Assert_Failed ''No Free Train Task'') \<and>
    out_of_nodes wt (train_init backing heap_backing) reqs"
proof -
  have "tv_reqid (train_init backing heap_backing) = 0" by (simp add: train_init_def)
  then show ?thesis
    using train_run_ok [OF train_init_ok(1) [OF assms(1), of backing] assms(2), of wt] assms(3) by auto
qed

theorem trainserver_refinement_witness:
  "\<exists>outs st. train_run CHR ''a'' (train_init [] (replicate 100 0)) [(7, SPEED 1 14 300), (9, WORKER 280), (9, WORKER 300)] = Inr (outs, st) \<and>
    spec_run CHR ''a'' (train_abs (train_init [] (replicate 100 0))) [(7, SPEED 1 14 300), (9, WORKER 280), (9, WORKER 300)] outs (train_abs st) \<and>
    outs = [[Ack 7], [Tell_Worker 9 Do_Sensors], [Tell_Worker 9 (Do_Cmd 30 24 2 0)]]"
proof -
  let ?st = "train_init [] (replicate 100 0)" and ?reqs = "[(7, SPEED 1 14 300), (9, WORKER 280), (9, WORKER 300)]"
  obtain outs st where run: "train_run CHR ''a'' ?st ?reqs = Inr (outs, st)"
    "outs = [[Ack 7], [Tell_Worker 9 Do_Sensors], [Tell_Worker 9 (Do_Cmd 30 24 2 0)]]"
    by (simp add: train_step_def handle_train_msg_def handle_speed_def v_p_train_num_def rdi_def supported_trains_def
        add_command_def build_task_def queue_task_def train_init_def MAX_TRAIN_CMDS_def cint_def heap_add_def heap_init_def
        add_loop.simps tell_couriers_def handle_worker_def heap_peek_def tkey_def heap_pop_def numeral_2_eq_2)
  have "length (replicate 100 (0::nat)) = MAX_TRAIN_CMDS" by (simp add: MAX_TRAIN_CMDS_def)
  then show ?thesis
    using trainserver_refinement [of "replicate 100 0" ?reqs "CHR ''a''" "[]"] run by (auto simp: NO_CHILD_def simp del: spec_run.simps)
qed

end
