(* ===== verification/Dispatchserver.thy ===== *)
theory Dispatchserver
  imports Navigation_Server Trainserver
begin

section \<open>The dispatch server (src/user/dispatchserver.c)\<close>

text \<open>
  The dispatch server attributes each triggered sensor to the train whose straight path worker has subscribed to it, answers
  those workers, and passes the attributions to the printer and, through the attribution courier, to
  the navigation server. The model is a step from a state and a request to a state and the messages sent; the couriers
  between the servers are functions from what they receive to what they send. Debug output is left out.
\<close>

subsection \<open>Data\<close>

definition SENSORS :: nat where "SENSORS = NUM_SENSOR_GROUPS * SENSORS_PER_GROUP"
definition MAX_SUBSCRIBED_SENSORS :: nat where "MAX_SUBSCRIBED_SENSORS = 5"

datatype dispatch_request =
    SENSOR_UPDATE "8 word list" int
  | SUBSCRIBE_SENSOR_LIST "int list" int int
  | ATTRIBUTION_PRINT
  | ATTRIBUTION_COURIER
  | SUBSCRIPTION_PRINT
  | STRAIGHTPATHWORKER_INIT int

text \<open>The replies: an empty one, triggered sensors with their number and time, attributions, subscriptions.\<close>

datatype dispatch_act =
    Dispatch_Good int
  | Triggered int "int list" int int
  | Pool_Print int "int list" int
  | Attribution int "int list"
  | Subscriptions int "int list"

record dispatch_state =
  ds_workers :: "int list"
  ds_sensor_printer :: int
  ds_subscribe_printer :: int
  ds_courier :: int
  ds_buffer_valid :: bool
  ds_buffer :: "int list"
  ds_subscribers :: "int list"
  ds_changed :: bool

text \<open>The buffer is on the stack and holds anything at first.\<close>

definition dispatch_init :: "int list \<Rightarrow> dispatch_state" where
  "dispatch_init buffer =
     \<lparr> ds_workers = replicate MAX_NUM_TRAINS (-1), ds_sensor_printer = -1, ds_subscribe_printer = -1, ds_courier = -1,
       ds_buffer_valid = False, ds_buffer = buffer, ds_subscribers = replicate SENSORS (-1), ds_changed = False \<rparr>"

subsection \<open>Subscriptions\<close>

definition subscribe_one :: "int list \<Rightarrow> int \<Rightarrow> int list \<Rightarrow> nat \<Rightarrow> int list cres" where
  "subscribe_one subscribed train subscribers i =
     cbind (rd subscribed i) (\<lambda>s.
     cbind (rdi subscribers s) (\<lambda>owner.
     cbind (kassert (owner = -1) ''Only one task can subscribe to a sensor at a time'') (\<lambda>_.
       wri subscribers s train)))"

definition handle_subscribe :: "dispatch_state \<Rightarrow> int \<Rightarrow> int list \<Rightarrow> int \<Rightarrow> int \<Rightarrow> (dispatch_act list \<times> dispatch_state) cres" where
  "handle_subscribe st client subscribed subscribed_len train =
     cbind (kassert (subscribed_len \<le> int MAX_SUBSCRIBED_SENSORS) ''Can only subscribe to limited number of sensors'') (\<lambda>_.
     cbind (wri (ds_workers st) train client) (\<lambda>workers.
     cbind (cfold (subscribe_one subscribed train) (ds_subscribers st) [0..<nat subscribed_len]) (\<lambda>subscribers.
       Inr ([], st\<lparr> ds_workers := workers, ds_subscribers := subscribers, ds_changed := True \<rparr>))))"

subsection \<open>Sensor updates\<close>

definition sensor_bit :: "8 word list \<Rightarrow> nat \<Rightarrow> bool cres" where
  "sensor_bit readings i = cbind (rd readings (i div 8)) (\<lambda>a. Inr (and a (drop_bit (i mod 8) 0x80) \<noteq> 0))"

text \<open>What the first loop builds: the pool, a ring buffer for each train, and the trains that have triggered a sensor.\<close>

type_synonym attributed = "int list \<times> int circular_buffer list \<times> bool list"

definition attribute_sensor :: "int list \<Rightarrow> 8 word list \<Rightarrow> attributed \<Rightarrow> nat \<Rightarrow> attributed cres" where
  "attribute_sensor subscribers readings = (\<lambda>(pool, bufs, trig) i.
     cbind (wr pool i NOT_TRIGGERED) (\<lambda>pool.
     cbind (sensor_bit readings i) (\<lambda>hit.
       if \<not> hit then Inr (pool, bufs, trig)
       else
         cbind (rd subscribers i) (\<lambda>s.
           if s = -1 then cbind (wr pool i UNATTRIBUTED) (\<lambda>pool. Inr (pool, bufs, trig))
           else
             cbind (rdi bufs s) (\<lambda>buf.
             cbind (cb_push_back buf (int i) False) (\<lambda>(buf', status).
             cbind (kassert (status \<noteq> CB_FULL) ''Attributed sensors len must be <= MAX_SUBSCRIBED_SENSORS'') (\<lambda>_.
             cbind (wri bufs s buf') (\<lambda>bufs'.
             cbind (wr pool i s) (\<lambda>pool.
             cbind (wri trig s True) (\<lambda>trig'. Inr (pool, bufs', trig')))))))))))"

text \<open>The body of the second loop, for one train.\<close>

definition answer_train ::
  "int \<Rightarrow> int circular_buffer list \<Rightarrow> bool list \<Rightarrow> dispatch_act list \<times> dispatch_state \<Rightarrow> nat \<Rightarrow> (dispatch_act list \<times> dispatch_state) cres" where
  "answer_train time bufs trig = (\<lambda>(acts, st) train.
     cbind (rd trig train) (\<lambda>t.
     let mine = (\<lambda>s. s = int train);
         st1 = (if t then st\<lparr> ds_subscribers := map (\<lambda>s. if mine s then -1 else s) (ds_subscribers st),
                               ds_changed := (ds_changed st \<or> (\<exists>s \<in> set (ds_subscribers st). mine s)) \<rparr>
                else st)
     in cbind (rd bufs train) (\<lambda>buf.
          if cb_count buf = 0 then Inr (acts, st1)
          else
            cbind (cb_to_array buf) (\<lambda>(arr, n).
            cbind (memcpy (replicate MAX_SUBSCRIBED_SENSORS 0) arr n) (\<lambda>triggered.
            cbind (rd (ds_workers st1) train) (\<lambda>worker.
              Inr (acts @ [Triggered worker triggered (int n) time], st1)))))))"

definition handle_sensor_update :: "dispatch_state \<Rightarrow> int \<Rightarrow> 8 word list \<Rightarrow> int \<Rightarrow> (dispatch_act list \<times> dispatch_state) cres" where
  "handle_sensor_update st client readings time =
     cbind (cfold (attribute_sensor (ds_subscribers st) readings)
       (replicate SENSORS 0, replicate MAX_NUM_TRAINS (cb_init 0 MAX_SUBSCRIBED_SENSORS), replicate MAX_NUM_TRAINS False)
       [0..<SENSORS]) (\<lambda>(pool, bufs, trig).
     cbind (cfold (answer_train time bufs trig) ([Dispatch_Good client], st) [0..<MAX_NUM_TRAINS]) (\<lambda>(acts, st1).
     let (acts2, st2) = (if ds_sensor_printer st1 \<noteq> -1
            then (acts @ [Pool_Print (ds_sensor_printer st1) pool time], st1\<lparr> ds_sensor_printer := -1 \<rparr>)
            else (acts, st1))
     in Inr (if ds_buffer_valid st2 then (acts2, st2)
             else if ds_courier st2 \<noteq> -1
             then (acts2 @ [Attribution (ds_courier st2) pool], st2\<lparr> ds_courier := -1 \<rparr>)
             else (acts2, st2\<lparr> ds_buffer_valid := True, ds_buffer := pool \<rparr>))))"

subsection \<open>The server\<close>

definition handle_dispatch :: "dispatch_state \<Rightarrow> int \<Rightarrow> dispatch_request \<Rightarrow> (dispatch_act list \<times> dispatch_state) cres" where
  "handle_dispatch st client req =
     (case req of
        SUBSCRIBE_SENSOR_LIST subscribed n train \<Rightarrow> handle_subscribe st client subscribed n train
      | ATTRIBUTION_PRINT \<Rightarrow> Inr ([], st\<lparr> ds_sensor_printer := client \<rparr>)
      | SUBSCRIPTION_PRINT \<Rightarrow> Inr ([], st\<lparr> ds_subscribe_printer := client \<rparr>)
      | ATTRIBUTION_COURIER \<Rightarrow>
          Inr (if ds_buffer_valid st
               then ([Attribution client (ds_buffer st)], st\<lparr> ds_courier := -1, ds_buffer_valid := False \<rparr>)
               else ([], st\<lparr> ds_courier := client \<rparr>))
      | STRAIGHTPATHWORKER_INIT train \<Rightarrow> cbind (wri (ds_workers st) train client) (\<lambda>workers. Inr ([], st\<lparr> ds_workers := workers \<rparr>))
      | SENSOR_UPDATE readings time \<Rightarrow> handle_sensor_update st client readings time)"

definition inform_subscriber :: "dispatch_state \<Rightarrow> dispatch_act list \<times> dispatch_state" where
  "inform_subscriber st =
     (if ds_changed st \<and> ds_subscribe_printer st \<noteq> -1
      then ([Subscriptions (ds_subscribe_printer st) (ds_subscribers st)], st\<lparr> ds_changed := False, ds_subscribe_printer := -1 \<rparr>)
      else ([], st))"

definition dispatch_step :: "dispatch_state \<Rightarrow> int \<Rightarrow> dispatch_request \<Rightarrow> (dispatch_act list \<times> dispatch_state) cres" where
  "dispatch_step st client req =
     cbind (handle_dispatch st client req) (\<lambda>(acts, st1).
       let (acts', st2) = inform_subscriber st1 in Inr (acts @ acts', st2))"

text \<open>The couriers: an event of the train server becomes a request here, a reply from here one to the navigation server.\<close>

definition sensor_courier :: "train_event \<Rightarrow> dispatch_request cres" where
  "sensor_courier event =
     cbind (memcpy (replicate NUM_SENSOR_GROUPS 0) (ev_sensors event) NUM_SENSOR_GROUPS) (\<lambda>readings.
       Inr (SENSOR_UPDATE readings (ev_time event)))"

definition attribution_courier :: "int list \<Rightarrow> navigation_request cres" where
  "attribution_courier attributed =
     cbind (memcpy (replicate (NUM_SENSOR_GROUPS * SENSORS_PER_GROUP) 0) attributed (NUM_SENSOR_GROUPS * SENSORS_PER_GROUP)) (\<lambda>pool.
       Inr (NAVIGATIONSERVER_ATTRIBUTION_COURIER pool))"

text \<open>The printer of the subscriptions: the last five sensors of each train.\<close>

definition subscription_table :: "int list \<Rightarrow> int circular_buffer list cres" where
  "subscription_table subscriptions =
     cfold (\<lambda>bufs i. cbind (rd subscriptions i) (\<lambda>train.
              if 0 \<le> train
              then cbind (rdi bufs train) (\<lambda>buf.
                   cbind (cb_push_back buf (int i) True) (\<lambda>(buf', status). wri bufs train buf'))
              else Inr bufs))
       (replicate MAX_NUM_TRAINS (cb_init 0 MAX_SUBSCRIBED_SENSORS)) [0..<NUM_SENSOR_GROUPS * SENSORS_PER_GROUP]"

end
