(* ===== verification/Dispatchserver_Properties.thy ===== *)
theory Dispatchserver_Properties
  imports Dispatchserver
begin

section \<open>What the dispatch server guarantees\<close>

subsection \<open>The attribution, as the subscribers see it\<close>

definition pressed :: "8 word list \<Rightarrow> nat \<Rightarrow> bool" where
  "pressed readings i \<longleftrightarrow> and (readings ! (i div 8)) (drop_bit (i mod 8) 0x80) \<noteq> 0"

definition attribution :: "int list \<Rightarrow> 8 word list \<Rightarrow> nat \<Rightarrow> int" where
  "attribution subs readings i =
     (if \<not> pressed readings i then NOT_TRIGGERED else if subs ! i = -1 then UNATTRIBUTED else subs ! i)"

text \<open>The sensors of a train that are pressed, among the first \<open>n\<close>.\<close>

definition hits :: "int list \<Rightarrow> 8 word list \<Rightarrow> nat \<Rightarrow> int \<Rightarrow> nat list" where
  "hits subs readings n train = filter (\<lambda>i. pressed readings i \<and> subs ! i = train) [0..<n]"

definition subscribed :: "int list \<Rightarrow> int \<Rightarrow> nat list" where
  "subscribed subs train = filter (\<lambda>i. subs ! i = train) [0..<length subs]"

definition dispatch_ok :: "dispatch_state \<Rightarrow> bool" where
  "dispatch_ok st \<longleftrightarrow>
     length (ds_workers st) = MAX_NUM_TRAINS \<and> length (ds_subscribers st) = SENSORS \<and> length (ds_buffer st) = SENSORS \<and>
     (\<forall>s \<in> set (ds_subscribers st). -1 \<le> s \<and> s < int MAX_NUM_TRAINS) \<and>
     (\<forall>train. train \<noteq> -1 \<longrightarrow> length (subscribed (ds_subscribers st) train) \<le> MAX_SUBSCRIBED_SENSORS)"

text \<open>The messages to the workers.\<close>

definition worker_msg :: "dispatch_state \<Rightarrow> 8 word list \<Rightarrow> int \<Rightarrow> nat \<Rightarrow> dispatch_act list" where
  "worker_msg st readings time train =
     (let hs = hits (ds_subscribers st) readings SENSORS (int train)
      in if hs = [] then []
         else [Triggered (ds_workers st ! train) (map int hs @ replicate (MAX_SUBSCRIBED_SENSORS - length hs) 0)
                 (int (length hs)) time])"

subsection \<open>The first loop\<close>

lemma SENSORS_80: "SENSORS = 80" "NUM_SENSOR_GROUPS * SENSORS_PER_GROUP = SENSORS"
  by (simp_all add: SENSORS_def NUM_SENSOR_GROUPS_def SENSORS_PER_GROUP_def)

lemma hits_Suc: "hits subs readings (Suc n) train =
    (if pressed readings n \<and> subs ! n = train then hits subs readings n train @ [n] else hits subs readings n train)"
  by (simp add: hits_def)

lemma length_filter_sub: "(\<And>x. P x \<Longrightarrow> Q x) \<Longrightarrow> length (filter P xs) \<le> length (filter Q xs)"
  by (induction xs) (auto simp: le_SucI)

lemma length_hits:
  assumes "length subs = SENSORS" "n < SENSORS" "pressed readings n" "subs ! n = train"
  shows "Suc (length (hits subs readings n train)) \<le> length (subscribed subs train)"
proof -
  have split: "[0..<SENSORS] = [0..<Suc n] @ [Suc n..<SENSORS]"
    using assms(2) upt_add_eq_append [of 0 "Suc n" "SENSORS - Suc n"] by simp
  have "Suc (length (hits subs readings n train)) = length (hits subs readings (Suc n) train)"
    using assms(3,4) by (simp add: hits_Suc)
  also have "\<dots> \<le> length (filter (\<lambda>i. subs ! i = train) [0..<Suc n])"
    unfolding hits_def by (rule length_filter_sub) simp
  also have "\<dots> \<le> length (subscribed subs train)"
    unfolding subscribed_def assms(1) split by simp
  finally show ?thesis .
qed

lemma sensor_bit_ok: "length readings = NUM_SENSOR_GROUPS \<Longrightarrow> i < SENSORS \<Longrightarrow> sensor_bit readings i = Inr (pressed readings i)"
  by (simp add: sensor_bit_def pressed_def rd_def SENSORS_80 NUM_SENSOR_GROUPS_def)

definition attributed_ok :: "int list \<Rightarrow> 8 word list \<Rightarrow> nat \<Rightarrow> attributed \<Rightarrow> bool" where
  "attributed_ok subs readings n = (\<lambda>(pool, bufs, trig).
     length pool = SENSORS \<and> (\<forall>i < n. pool ! i = attribution subs readings i) \<and>
     length bufs = MAX_NUM_TRAINS \<and> length trig = MAX_NUM_TRAINS \<and>
     (\<forall>train < MAX_NUM_TRAINS. cb_inv (bufs ! train) \<and> cb_capacity (bufs ! train) = MAX_SUBSCRIBED_SENSORS \<and>
        cb_items (bufs ! train) = map int (hits subs readings n (int train)) \<and>
        trig ! train = (hits subs readings n (int train) \<noteq> [])))"

lemma attribute_sensor_ok:
  assumes st: "dispatch_ok st" and subs: "subs = ds_subscribers st" and readings: "length readings = NUM_SENSOR_GROUPS"
    and n: "n < SENSORS" and inv: "attributed_ok subs readings n x"
  shows "\<exists>y. attribute_sensor subs readings x n = Inr y \<and> attributed_ok subs readings (Suc n) y"
proof -
  obtain pool bufs trig where x: "x = (pool, bufs, trig)" by (cases x)
  have inv': "length pool = SENSORS" "\<forall>i < n. pool ! i = attribution subs readings i"
    "length bufs = MAX_NUM_TRAINS" "length trig = MAX_NUM_TRAINS"
    "\<forall>train < MAX_NUM_TRAINS. cb_inv (bufs ! train) \<and> cb_capacity (bufs ! train) = MAX_SUBSCRIBED_SENSORS \<and>
        cb_items (bufs ! train) = map int (hits subs readings n (int train)) \<and>
        trig ! train = (hits subs readings n (int train) \<noteq> [])"
    using inv unfolding attributed_ok_def x prod.case by blast+
  note bit = sensor_bit_ok [OF readings n]
  have len: "length subs = SENSORS" using st subs by (simp add: dispatch_ok_def)
  have "subs ! n \<in> set subs" using n len by simp
  then have range: "-1 \<le> subs ! n" "subs ! n < int MAX_NUM_TRAINS"
    using st subs unfolding dispatch_ok_def by blast+
  have pool: "\<forall>i < Suc n. pool[n := a] ! i = attribution subs readings i" if "a = attribution subs readings n" for a
    using that inv'(1,2) n by (auto simp: nth_update less_Suc_eq)
  show ?thesis
  proof (cases "pressed readings n \<and> subs ! n \<noteq> -1")
    case False
    have same: "hits subs readings (Suc n) (int train) = hits subs readings n (int train)" for train
      using False by (auto simp: hits_Suc)
    have "attribute_sensor subs readings x n = Inr (pool[n := attribution subs readings n], bufs, trig)"
      using False bit n len inv'(1) by (auto simp: attribute_sensor_def x attribution_def)
    moreover have "attributed_ok subs readings (Suc n) (pool[n := attribution subs readings n], bufs, trig)"
      unfolding attributed_ok_def prod.case same using inv' pool by simp
    ultimately show ?thesis by blast
  next
    case True
    define k where "k = nat (subs ! n)"
    have k: "subs ! n = int k" "k < MAX_NUM_TRAINS" using True range by (auto simp: k_def)
    have room: "cb_count (bufs ! k) < cb_capacity (bufs ! k)"
    proof -
      have "cb_inv (bufs ! k)" "cb_items (bufs ! k) = map int (hits subs readings n (int k))"
        "cb_capacity (bufs ! k) = MAX_SUBSCRIBED_SENSORS"
        using inv'(5) k(2) by blast+
      moreover have "length (subscribed subs (int k)) \<le> MAX_SUBSCRIBED_SENSORS"
        using st subs unfolding dispatch_ok_def by simp
      ultimately show ?thesis
        using length_hits [OF len n, of readings "int k"] True k(1) length_cb_items [of "bufs ! k"] by simp
    qed
    have "cb_inv (bufs ! k)" using inv'(5) k(2) by blast
    then obtain buf where buf: "cb_push_back (bufs ! k) (int n) False = Inr (buf, 0)" "cb_inv buf"
      "cb_items buf = cb_items (bufs ! k) @ [int n]" "cb_capacity buf = cb_capacity (bufs ! k)"
      using room by (rule cb_push_ok)
    have attr: "attribution subs readings n = int k" using True k(1) by (simp add: attribution_def)
    have "attribute_sensor subs readings x n = Inr (pool[n := int k], bufs[k := buf], trig[k := True])"
      using True bit n len inv'(1,3,4) k buf(1)
      by (simp add: attribute_sensor_def x rdi_def wri_def CB_FULL_def)
    moreover have "attributed_ok subs readings (Suc n) (pool[n := int k], bufs[k := buf], trig[k := True])"
    proof -
      have "cb_inv (bufs[k := buf] ! train) \<and> cb_capacity (bufs[k := buf] ! train) = MAX_SUBSCRIBED_SENSORS \<and>
        cb_items (bufs[k := buf] ! train) = map int (hits subs readings (Suc n) (int train)) \<and>
        trig[k := True] ! train = (hits subs readings (Suc n) (int train) \<noteq> [])" if "train < MAX_NUM_TRAINS" for train
        using inv'(3,4,5) that buf True k by (simp add: nth_update hits_Suc)
      then show ?thesis unfolding attributed_ok_def prod.case using inv' pool [OF attr [symmetric]] by simp
    qed
    ultimately show ?thesis by blast
  qed
qed

lemma attribute_all_ok:
  assumes st: "dispatch_ok st" and subs: "subs = ds_subscribers st" and readings: "length readings = NUM_SENSOR_GROUPS"
    and "n \<le> SENSORS"
  shows "\<exists>y. cfold (attribute_sensor subs readings)
      (replicate SENSORS 0, replicate MAX_NUM_TRAINS (cb_init 0 MAX_SUBSCRIBED_SENSORS), replicate MAX_NUM_TRAINS False) [0..<n] = Inr y \<and>
    attributed_ok subs readings n y"
  using assms(4)
proof (induction n)
  case 0
  then show ?case by (simp add: attributed_ok_def hits_def cb_init_inv MAX_SUBSCRIBED_SENSORS_def)
next
  case (Suc n)
  then obtain y where y: "cfold (attribute_sensor subs readings)
      (replicate SENSORS 0, replicate MAX_NUM_TRAINS (cb_init 0 MAX_SUBSCRIBED_SENSORS), replicate MAX_NUM_TRAINS False) [0..<n] = Inr y"
    "attributed_ok subs readings n y" by auto
  then show ?case using attribute_sensor_ok [OF st subs readings _ y(2)] Suc.prems by (simp add: cfold_append)
qed

subsection \<open>The second loop\<close>

definition freed :: "int list \<Rightarrow> 8 word list \<Rightarrow> nat \<Rightarrow> int \<Rightarrow> bool" where
  "freed subs readings m s \<longleftrightarrow> 0 \<le> s \<and> s < int m \<and> hits subs readings SENSORS s \<noteq> []"

lemma answer_all_ok:
  assumes st: "dispatch_ok st" and subs: "subs = ds_subscribers st"
    and ok: "attributed_ok subs readings SENSORS (pool, bufs, trig)" and "m \<le> MAX_NUM_TRAINS"
  shows "cfold (answer_train time bufs trig) (acts, st) [0..<m] = Inr
    (acts @ concat (map (worker_msg st readings time) [0..<m]),
     st\<lparr> ds_subscribers := map (\<lambda>s. if freed subs readings m s then -1 else s) subs,
         ds_changed := (ds_changed st \<or> (\<exists>s \<in> set subs. freed subs readings m s)) \<rparr>)"
  using assms(4)
proof (induction m)
  case 0
  have "\<not> freed subs readings 0 s" for s by (simp add: freed_def)
  then show ?case using subs by simp
next
  case (Suc m)
  let ?st = "st\<lparr> ds_subscribers := map (\<lambda>s. if freed subs readings m s then -1 else s) subs,
         ds_changed := (ds_changed st \<or> (\<exists>s \<in> set subs. freed subs readings m s)) \<rparr>"
  let ?acts = "acts @ concat (map (worker_msg st readings time) [0..<m])"
  let ?hs = "hits subs readings SENSORS (int m)"
  have m: "m < MAX_NUM_TRAINS" using Suc.prems by simp
  have buf: "cb_inv (bufs ! m)" "cb_items (bufs ! m) = map int ?hs" "trig ! m = (?hs \<noteq> [])"
    "cb_capacity (bufs ! m) = MAX_SUBSCRIBED_SENSORS" "length bufs = MAX_NUM_TRAINS" "length trig = MAX_NUM_TRAINS"
    using ok m unfolding attributed_ok_def prod.case by blast+
  have cnt: "cb_count (bufs ! m) = length ?hs" using length_cb_items [OF buf(1)] buf(2) by simp
  have small: "length ?hs \<le> MAX_SUBSCRIBED_SENSORS"
    using buf(1,4) cnt by (simp add: cb_inv_def split: option.splits)
  have arr: "cb_to_array (bufs ! m) = Inr (map int ?hs, length ?hs)"
    using cb_to_array_items [OF buf(1)] buf(2) cnt by simp
  have freed_Suc: "freed subs readings (Suc m) s \<longleftrightarrow> freed subs readings m s \<or> s = int m \<and> ?hs \<noteq> []" for s
    by (cases "s = int m") (auto simp: freed_def)
  have workers: "length (ds_workers st) = MAX_NUM_TRAINS" using st by (simp add: dispatch_ok_def)
  have "cfold (answer_train time bufs trig) (acts, st) [0..<Suc m] = answer_train time bufs trig (?acts, ?st) m"
    using Suc by (simp add: cfold_append)
  also have "\<dots> = Inr
    (acts @ concat (map (worker_msg st readings time) [0..<Suc m]),
     st\<lparr> ds_subscribers := map (\<lambda>s. if freed subs readings (Suc m) s then -1 else s) subs,
         ds_changed := (ds_changed st \<or> (\<exists>s \<in> set subs. freed subs readings (Suc m) s)) \<rparr>)"
  proof (cases "?hs = []")
    case True
    have same: "freed subs readings (Suc m) = freed subs readings m" using True by (intro ext) (simp add: freed_Suc)
    show ?thesis
      unfolding same using True m buf cnt subs by (simp add: answer_train_def worker_msg_def)
  next
    case False
    have "map (\<lambda>s. if s = int m then -1 else s) (map (\<lambda>s. if freed subs readings m s then -1 else s) subs) =
        map (\<lambda>s. if freed subs readings (Suc m) s then -1 else s) subs"
      using False by (auto simp: freed_Suc)
    moreover have "(\<exists>s \<in> set (map (\<lambda>s. if freed subs readings m s then -1 else s) subs). s = int m) \<longleftrightarrow> int m \<in> set subs"
      by (auto simp: freed_def image_iff)
    moreover have "(\<exists>s \<in> set subs. freed subs readings (Suc m) s) \<longleftrightarrow> (\<exists>s \<in> set subs. freed subs readings m s) \<or> int m \<in> set subs"
      using False by (auto simp: freed_Suc)
    ultimately show ?thesis
      using False m buf cnt arr small workers subs
      by (simp add: answer_train_def memcpy_ok worker_msg_def Let_def disj_assoc del: map_map set_map)
  qed
  finally show ?case .
qed

subsection \<open>An update\<close>

lemma handle_sensor_update_ok:
  assumes st: "dispatch_ok st" and readings: "length readings = NUM_SENSOR_GROUPS"
  shows "\<exists>pool st1. length pool = SENSORS \<and> (\<forall>i < SENSORS. pool ! i = attribution (ds_subscribers st) readings i) \<and>
    st1 = st\<lparr> ds_subscribers := map (\<lambda>s. if freed (ds_subscribers st) readings MAX_NUM_TRAINS s then -1 else s) (ds_subscribers st),
         ds_changed := (ds_changed st \<or> (\<exists>s \<in> set (ds_subscribers st). freed (ds_subscribers st) readings MAX_NUM_TRAINS s)),
         ds_sensor_printer := -1, ds_courier := (if ds_buffer_valid st then ds_courier st else -1),
         ds_buffer := (if ds_buffer_valid st \<or> ds_courier st \<noteq> -1 then ds_buffer st else pool),
         ds_buffer_valid := (ds_buffer_valid st \<or> ds_courier st = -1) \<rparr> \<and>
    handle_sensor_update st client readings time = Inr
      (Dispatch_Good client # concat (map (worker_msg st readings time) [0..<MAX_NUM_TRAINS]) @
       (if ds_sensor_printer st \<noteq> -1 then [Pool_Print (ds_sensor_printer st) pool time] else []) @
       (if \<not> ds_buffer_valid st \<and> ds_courier st \<noteq> -1 then [Attribution (ds_courier st) pool] else []), st1)"
proof -
  obtain pool bufs trig where loop: "cfold (attribute_sensor (ds_subscribers st) readings)
      (replicate SENSORS 0, replicate MAX_NUM_TRAINS (cb_init 0 MAX_SUBSCRIBED_SENSORS), replicate MAX_NUM_TRAINS False)
      [0..<SENSORS] = Inr (pool, bufs, trig)" "attributed_ok (ds_subscribers st) readings SENSORS (pool, bufs, trig)"
    using attribute_all_ok [OF st refl readings le_refl] by (metis prod_cases3)
  have "length pool = SENSORS" "\<forall>i < SENSORS. pool ! i = attribution (ds_subscribers st) readings i"
    using loop(2) unfolding attributed_ok_def prod.case by blast+
  then show ?thesis
    using loop(1) answer_all_ok [OF st refl loop(2) le_refl, of time "[Dispatch_Good client]"]
    by (intro exI [of _ pool]) (auto simp: handle_sensor_update_def Let_def)
qed
subsection \<open>Subscribing\<close>

lemma subscribe_all_ok:
  assumes "length subs = SENSORS" "n \<le> length sensors" "distinct (take n sensors)"
    and "\<forall>s \<in> set (take n sensors). 0 \<le> s \<and> s < int SENSORS \<and> subs ! nat s = -1"
  shows "\<exists>subs'. cfold (subscribe_one sensors train) subs [0..<n] = Inr subs' \<and> length subs' = SENSORS \<and>
    (\<forall>i < SENSORS. subs' ! i = (if int i \<in> set (take n sensors) then train else subs ! i))"
  using assms(2-4)
proof (induction n)
  case 0
  then show ?case using assms(1) by simp
next
  case (Suc n)
  have n: "n < length sensors" using Suc.prems(1) by simp
  have tk: "take (Suc n) sensors = take n sensors @ [sensors ! n]" by (rule take_Suc_conv_app_nth [OF n])
  obtain subs' where subs': "cfold (subscribe_one sensors train) subs [0..<n] = Inr subs'" "length subs' = SENSORS"
    "\<forall>i < SENSORS. subs' ! i = (if int i \<in> set (take n sensors) then train else subs ! i)"
    using Suc tk by auto
  have s: "0 \<le> sensors ! n" "sensors ! n < int SENSORS" "subs ! nat (sensors ! n) = -1" "sensors ! n \<notin> set (take n sensors)"
    using Suc.prems(2,3) tk by auto
  define k where "k = nat (sensors ! n)"
  have k: "sensors ! n = int k" "k < SENSORS" using s(1,2) by (simp_all add: k_def)
  have "subs' ! k = -1" using subs'(3) k s(3,4) by simp
  then have "cfold (subscribe_one sensors train) subs [0..<Suc n] = Inr (subs'[k := train])"
    using subs'(1,2) n k by (simp add: cfold_append subscribe_one_def rdi_def wri_def)
  moreover have "\<forall>i < SENSORS. subs'[k := train] ! i = (if int i \<in> set (take (Suc n) sensors) then train else subs ! i)"
    unfolding tk using subs'(2,3) k by (auto simp: nth_update)
  ultimately show ?case using subs'(2) by auto
qed

text \<open>
  The protocol of the clients: sensors that exist and that nobody has subscribed to, for a train that has no
  subscription left.
\<close>

fun dispatch_allowed :: "dispatch_state \<Rightarrow> dispatch_request \<Rightarrow> bool" where
  "dispatch_allowed st (SENSOR_UPDATE readings time) \<longleftrightarrow> length readings = NUM_SENSOR_GROUPS"
| "dispatch_allowed st (SUBSCRIBE_SENSOR_LIST sensors n train) \<longleftrightarrow>
     length sensors = MAX_SUBSCRIBED_SENSORS \<and> n \<le> int MAX_SUBSCRIBED_SENSORS \<and> 0 \<le> train \<and> train < int MAX_NUM_TRAINS \<and>
     train \<notin> set (ds_subscribers st) \<and> distinct (take (nat n) sensors) \<and>
     (\<forall>s \<in> set (take (nat n) sensors). 0 \<le> s \<and> s < int SENSORS \<and> ds_subscribers st ! nat s = -1)"
| "dispatch_allowed st (STRAIGHTPATHWORKER_INIT train) \<longleftrightarrow> 0 \<le> train \<and> train < int MAX_NUM_TRAINS"
| "dispatch_allowed st req \<longleftrightarrow> True"

lemma subscribe_keeps:
  assumes st: "dispatch_ok st" and "dispatch_allowed st (SUBSCRIBE_SENSOR_LIST sensors n train)"
  shows "\<exists>st'. handle_subscribe st client sensors n train = Inr ([], st') \<and> dispatch_ok st' \<and>
    ds_workers st' = (ds_workers st)[nat train := client] \<and>
    (\<forall>i < SENSORS. ds_subscribers st' ! i = (if int i \<in> set (take (nat n) sensors) then train else ds_subscribers st ! i))"
proof -
  let ?n = "nat n" and ?subs = "ds_subscribers st"
  have al: "length sensors = MAX_SUBSCRIBED_SENSORS" "n \<le> int MAX_SUBSCRIBED_SENSORS" "0 \<le> train" "train < int MAX_NUM_TRAINS"
    "train \<notin> set ?subs" "distinct (take ?n sensors)"
    "\<forall>s \<in> set (take ?n sensors). 0 \<le> s \<and> s < int SENSORS \<and> ?subs ! nat s = -1"
    using assms(2) unfolding dispatch_allowed.simps by blast+
  have ok: "length (ds_workers st) = MAX_NUM_TRAINS" "length ?subs = SENSORS" "length (ds_buffer st) = SENSORS"
    "\<forall>s \<in> set ?subs. -1 \<le> s \<and> s < int MAX_NUM_TRAINS"
    "\<forall>train. train \<noteq> -1 \<longrightarrow> length (subscribed ?subs train) \<le> MAX_SUBSCRIBED_SENSORS"
    using st unfolding dispatch_ok_def by blast+
  have n: "?n \<le> length sensors" using al(1,2) by linarith
  obtain subs' where subs': "cfold (subscribe_one sensors train) ?subs [0..<?n] = Inr subs'" "length subs' = SENSORS"
    "\<forall>i < SENSORS. subs' ! i = (if int i \<in> set (take ?n sensors) then train else ?subs ! i)"
    using subscribe_all_ok [OF ok(2) n al(6,7)] by blast
  have bound: "length (subscribed subs' tr) \<le> MAX_SUBSCRIBED_SENSORS" if "tr \<noteq> -1" for tr
  proof (cases "tr = train")
    case True
    have no: "?subs ! i \<noteq> train" if "i < SENSORS" for i using al(5) ok(2) that nth_mem by metis
    have "set (subscribed subs' tr) \<subseteq> nat ` set (take ?n sensors)"
    proof
      fix i assume "i \<in> set (subscribed subs' tr)"
      then have i: "i < SENSORS" "subs' ! i = train" using subs'(2) True by (simp_all add: subscribed_def)
      then have "int i \<in> set (take ?n sensors)" using subs'(3) no [OF i(1)] by metis
      then show "i \<in> nat ` set (take ?n sensors)" by (metis image_eqI nat_int)
    qed
    moreover have "distinct (subscribed subs' tr)" by (simp add: subscribed_def)
    ultimately have "length (subscribed subs' tr) \<le> card (nat ` set (take ?n sensors))"
      by (metis card_mono distinct_card finite_imageI finite_set)
    also have "\<dots> \<le> length (take ?n sensors)"
      by (meson card_image_le card_length finite_set le_trans)
    finally show ?thesis using al(1) by simp
  next
    case False
    have "length (subscribed subs' tr) \<le> length (subscribed ?subs tr)"
    proof -
      have "filter (\<lambda>i. subs' ! i = tr) [0..<SENSORS] = filter (\<lambda>i. subs' ! i = tr \<and> ?subs ! i = tr) [0..<SENSORS]"
        by (rule filter_cong) (use subs'(3) False in auto)
      also have "length \<dots> \<le> length (filter (\<lambda>i. ?subs ! i = tr) [0..<SENSORS])"
        by (rule length_filter_sub) simp
      finally show ?thesis using subs'(2) ok(2) by (simp add: subscribed_def)
    qed
    then show ?thesis using ok(5) that by (meson le_trans)
  qed
  let ?st = "st\<lparr> ds_workers := (ds_workers st)[nat train := client], ds_subscribers := subs', ds_changed := True \<rparr>"
  have "set subs' \<subseteq> set ?subs \<union> {train}"
  proof
    fix s assume "s \<in> set subs'"
    then obtain i where i: "i < SENSORS" "subs' ! i = s" using subs'(2) by (metis in_set_conv_nth)
    then show "s \<in> set ?subs \<union> {train}"
      using subs'(3) ok(2) nth_mem [of i ?subs] by (cases "int i \<in> set (take ?n sensors)") auto
  qed
  then have "dispatch_ok ?st" using ok bound subs'(2) al(3,4) unfolding dispatch_ok_def by auto
  moreover have "handle_subscribe st client sensors n train = Inr ([], ?st)"
    using al(2,3,4) ok(1) subs'(1) by (simp add: handle_subscribe_def wri_def)
  ultimately show ?thesis using subs'(3) by auto
qed

lemma update_keeps:
  assumes st: "dispatch_ok st" and "length pool = SENSORS"
    and "st' = st\<lparr> ds_subscribers := map (\<lambda>s. if f s then -1 else s) (ds_subscribers st), ds_changed := c,
      ds_sensor_printer := p, ds_courier := co, ds_buffer := (if b then ds_buffer st else pool), ds_buffer_valid := v \<rparr>"
  shows "dispatch_ok st'"
proof -
  let ?subs = "ds_subscribers st"
  have "length (subscribed (map (\<lambda>s. if f s then -1 else s) ?subs) train) \<le> length (subscribed ?subs train)" if "train \<noteq> -1" for train
  proof -
    have "filter (\<lambda>i. map (\<lambda>s. if f s then -1 else s) ?subs ! i = train) [0..<length ?subs] =
        filter (\<lambda>i. ?subs ! i = train \<and> \<not> f train) [0..<length ?subs]"
      by (rule filter_cong) (use that in auto)
    also have "length \<dots> \<le> length (filter (\<lambda>i. ?subs ! i = train) [0..<length ?subs])"
      by (rule length_filter_sub) simp
    finally show ?thesis by (simp add: subscribed_def)
  qed
  then show ?thesis using st assms(2,3) unfolding dispatch_ok_def by (auto intro: le_trans)
qed

subsection \<open>Reachable states\<close>

inductive dispatch_reaches :: "int list \<Rightarrow> dispatch_state \<Rightarrow> bool" for buffer where
  dispatch_start: "dispatch_reaches buffer (dispatch_init buffer)"
| dispatch_next: "dispatch_reaches buffer st \<Longrightarrow> dispatch_allowed st req \<Longrightarrow> dispatch_step st client req = Inr (acts, st') \<Longrightarrow>
     dispatch_reaches buffer st'"

text \<open>What a request does to the subscribers, and what it sends to the workers and the navigation server.\<close>

fun dispatch_spec :: "dispatch_state \<Rightarrow> int \<Rightarrow> dispatch_request \<Rightarrow> dispatch_act list \<Rightarrow> dispatch_state \<Rightarrow> bool" where
  "dispatch_spec st client (SENSOR_UPDATE readings time) acts st' \<longleftrightarrow>
     (\<exists>pool rest. length pool = SENSORS \<and> (\<forall>i < SENSORS. pool ! i = attribution (ds_subscribers st) readings i) \<and>
        acts = Dispatch_Good client # concat (map (worker_msg st readings time) [0..<MAX_NUM_TRAINS]) @ rest \<and>
        (\<forall>a \<in> set rest. \<forall>w arr n tm. a \<noteq> Triggered w arr n tm) \<and>
        ds_subscribers st' = map (\<lambda>s. if freed (ds_subscribers st) readings MAX_NUM_TRAINS s then -1 else s) (ds_subscribers st) \<and>
        (if ds_buffer_valid st then ds_buffer_valid st' \<and> ds_buffer st' = ds_buffer st
         else if ds_courier st \<noteq> -1 then Attribution (ds_courier st) pool \<in> set rest \<and> \<not> ds_buffer_valid st'
         else ds_buffer_valid st' \<and> ds_buffer st' = pool))"
| "dispatch_spec st client (SUBSCRIBE_SENSOR_LIST sensors n train) acts st' \<longleftrightarrow>
     ds_workers st' = (ds_workers st)[nat train := client] \<and>
     (\<forall>i < SENSORS. ds_subscribers st' ! i = (if int i \<in> set (take (nat n) sensors) then train else ds_subscribers st ! i))"
| "dispatch_spec st client ATTRIBUTION_COURIER acts st' \<longleftrightarrow>
     (if ds_buffer_valid st then Attribution client (ds_buffer st) \<in> set acts else ds_courier st' = client) \<and> \<not> ds_buffer_valid st' \<and>
     ds_subscribers st' = ds_subscribers st"
| "dispatch_spec st client req acts st' \<longleftrightarrow> ds_subscribers st' = ds_subscribers st"

lemma inform_ok:
  assumes "dispatch_ok st"
  obtains acts st' where "inform_subscriber st = (acts, st')" "dispatch_ok st'" "ds_subscribers st' = ds_subscribers st"
    "ds_workers st' = ds_workers st" "ds_buffer st' = ds_buffer st" "ds_buffer_valid st' = ds_buffer_valid st"
    "ds_courier st' = ds_courier st" "\<forall>a \<in> set acts. \<forall>w arr n tm. a \<noteq> Triggered w arr n tm"
  by (rule that [of "fst (inform_subscriber st)" "snd (inform_subscriber st)"])
    (use assms in \<open>auto simp: inform_subscriber_def dispatch_ok_def\<close>)

lemma dispatch_step_ok:
  assumes st: "dispatch_ok st" and req: "dispatch_allowed st req"
  shows "\<exists>acts st'. dispatch_step st client req = Inr (acts, st') \<and> dispatch_ok st' \<and> dispatch_spec st client req acts st'"
proof -
  have step: "\<exists>acts st'. dispatch_step st client req = Inr (acts, st') \<and> dispatch_ok st' \<and> dispatch_spec st client req acts st'"
    if h: "handle_dispatch st client req = Inr (acts1, st1)" "dispatch_ok st1"
      "\<And>acts2 st'. ds_subscribers st' = ds_subscribers st1 \<Longrightarrow> ds_workers st' = ds_workers st1 \<Longrightarrow> ds_buffer st' = ds_buffer st1 \<Longrightarrow>
        ds_buffer_valid st' = ds_buffer_valid st1 \<Longrightarrow> ds_courier st' = ds_courier st1 \<Longrightarrow>
        \<forall>a \<in> set acts2. \<forall>w arr n tm. a \<noteq> Triggered w arr n tm \<Longrightarrow> dispatch_spec st client req (acts1 @ acts2) st'"
    for acts1 st1
  proof -
    obtain acts2 st' where "inform_subscriber st1 = (acts2, st')" "dispatch_ok st'" "ds_subscribers st' = ds_subscribers st1"
      "ds_workers st' = ds_workers st1" "ds_buffer st' = ds_buffer st1" "ds_buffer_valid st' = ds_buffer_valid st1"
      "ds_courier st' = ds_courier st1" "\<forall>a \<in> set acts2. \<forall>w arr n tm. a \<noteq> Triggered w arr n tm"
      by (rule inform_ok [OF h(2)])
    then show ?thesis using h(1,3) by (simp add: dispatch_step_def)
  qed
  show ?thesis
  proof (cases req)
    case (SENSOR_UPDATE readings time)
    then have readings: "length readings = NUM_SENSOR_GROUPS" using req by simp
    let ?w = "concat (map (worker_msg st readings time) [0..<MAX_NUM_TRAINS])"
    obtain pool st1 where upd: "length pool = SENSORS" "\<forall>i < SENSORS. pool ! i = attribution (ds_subscribers st) readings i"
      "st1 = st\<lparr> ds_subscribers := map (\<lambda>s. if freed (ds_subscribers st) readings MAX_NUM_TRAINS s then -1 else s) (ds_subscribers st),
         ds_changed := (ds_changed st \<or> (\<exists>s \<in> set (ds_subscribers st). freed (ds_subscribers st) readings MAX_NUM_TRAINS s)),
         ds_sensor_printer := -1, ds_courier := (if ds_buffer_valid st then ds_courier st else -1),
         ds_buffer := (if ds_buffer_valid st \<or> ds_courier st \<noteq> -1 then ds_buffer st else pool),
         ds_buffer_valid := (ds_buffer_valid st \<or> ds_courier st = -1) \<rparr>"
      "handle_sensor_update st client readings time = Inr
      (Dispatch_Good client # ?w @
       (if ds_sensor_printer st \<noteq> -1 then [Pool_Print (ds_sensor_printer st) pool time] else []) @
       (if \<not> ds_buffer_valid st \<and> ds_courier st \<noteq> -1 then [Attribution (ds_courier st) pool] else []), st1)"
      using handle_sensor_update_ok [OF st readings] by blast
    have ok1: "dispatch_ok st1" by (rule update_keeps [OF st upd(1,3)])
    let ?rest = "(if ds_sensor_printer st \<noteq> -1 then [Pool_Print (ds_sensor_printer st) pool time] else []) @
       (if \<not> ds_buffer_valid st \<and> ds_courier st \<noteq> -1 then [Attribution (ds_courier st) pool] else [])"
    have rest: "\<forall>a \<in> set ?rest. \<forall>w arr n tm. a \<noteq> Triggered w arr n tm" by auto
    show ?thesis
    proof (rule step [of "Dispatch_Good client # ?w @ ?rest" st1])
      show "handle_dispatch st client req = Inr (Dispatch_Good client # ?w @ ?rest, st1)"
        using upd(4) SENSOR_UPDATE by (simp add: handle_dispatch_def)
      fix acts2 and st' :: dispatch_state
      assume same: "ds_subscribers st' = ds_subscribers st1" "ds_buffer st' = ds_buffer st1" "ds_buffer_valid st' = ds_buffer_valid st1"
        and acts2: "\<forall>a \<in> set acts2. \<forall>w arr n tm. a \<noteq> Triggered w arr n tm"
      show "dispatch_spec st client req ((Dispatch_Good client # ?w @ ?rest) @ acts2) st'"
        unfolding SENSOR_UPDATE dispatch_spec.simps
      proof (rule exI [of _ pool], rule exI [of _ "?rest @ acts2"], intro conjI)
        show "\<forall>a \<in> set (?rest @ acts2). \<forall>w arr n tm. a \<noteq> Triggered w arr n tm"
          using rest acts2 unfolding set_append ball_Un by blast
      qed (use upd(1,2,3) same in simp_all)
    qed (rule ok1)
  next
    case (SUBSCRIBE_SENSOR_LIST sensors n train)
    then obtain st1 where "handle_subscribe st client sensors n train = Inr ([], st1)" "dispatch_ok st1"
      "ds_workers st1 = (ds_workers st)[nat train := client]"
      "\<forall>i < SENSORS. ds_subscribers st1 ! i = (if int i \<in> set (take (nat n) sensors) then train else ds_subscribers st ! i)"
      using subscribe_keeps [OF st] req by blast
    then show ?thesis by (intro step [of "[]" st1]) (simp_all add: SUBSCRIBE_SENSOR_LIST handle_dispatch_def)
  next
    case (STRAIGHTPATHWORKER_INIT train)
    then have "0 \<le> train" "train < int MAX_NUM_TRAINS" using req by simp_all
    then show ?thesis
      using st by (intro step [of "[]" "st\<lparr> ds_workers := (ds_workers st)[nat train := client] \<rparr>"])
        (simp_all add: STRAIGHTPATHWORKER_INIT handle_dispatch_def dispatch_ok_def wri_def)
  next
    case ATTRIBUTION_COURIER
    then show ?thesis
      using st by (intro step [of "if ds_buffer_valid st then [Attribution client (ds_buffer st)] else []"
          "if ds_buffer_valid st then st\<lparr> ds_courier := -1, ds_buffer_valid := False \<rparr> else st\<lparr> ds_courier := client \<rparr>"])
        (auto simp: handle_dispatch_def dispatch_ok_def)
  next
    case ATTRIBUTION_PRINT
    then show ?thesis
      using st by (intro step [of "[]" "st\<lparr> ds_sensor_printer := client \<rparr>"]) (simp_all add: handle_dispatch_def dispatch_ok_def)
  next
    case SUBSCRIPTION_PRINT
    then show ?thesis
      using st by (intro step [of "[]" "st\<lparr> ds_subscribe_printer := client \<rparr>"]) (simp_all add: handle_dispatch_def dispatch_ok_def)
  qed
qed
lemma dispatch_init_ok: "length buffer = SENSORS \<Longrightarrow> dispatch_ok (dispatch_init buffer)"
  by (simp add: dispatch_ok_def dispatch_init_def subscribed_def SENSORS_80)

lemma dispatch_reaches_ok:
  assumes "dispatch_reaches buffer st" "length buffer = SENSORS"
  shows "dispatch_ok st"
  using assms
proof (induction rule: dispatch_reaches.induct)
  case dispatch_start
  then show ?case by (rule dispatch_init_ok)
next
  case (dispatch_next st req client acts st')
  then show ?case using dispatch_step_ok [of st req client] by auto
qed

text \<open>
  C30: Sensors are attributed to the trains that wait for them. In every state the server can reach with clients that follow the
  protocol, a request is served without a fault. On an update of the sensors, the pool says of every sensor whether it is
  pressed and whose it is; a train that has subscribed to pressed sensors has its worker answered, once, with exactly
  those sensors in ascending order, and loses all its subscriptions, while the others keep theirs; no other worker is
  answered. The pool goes to the attribution courier, now or when it asks, unless the one before is still waiting for it.
\<close>

theorem sensors_attributed:
  assumes "dispatch_reaches buffer st" "length buffer = SENSORS" "dispatch_allowed st req"
  shows "\<exists>acts st'. dispatch_step st client req = Inr (acts, st') \<and> dispatch_reaches buffer st' \<and> dispatch_spec st client req acts st'"
  using dispatch_step_ok [OF dispatch_reaches_ok [OF assms(1,2)] assms(3)] dispatch_next [OF assms(1,3)] by blast

theorem sensors_attributed_witness:
  "\<exists>st acts st'. dispatch_step (dispatch_init (replicate 80 0)) 50 (SUBSCRIBE_SENSOR_LIST [3, 70, 0, 0, 0] 2 1) = Inr ([], st) \<and>
    dispatch_step st 60 (SENSOR_UPDATE [0x10, 0, 0, 0, 0, 0, 0, 0, 0, 1] 900) = Inr (acts, st') \<and>
    acts = [Dispatch_Good 60, Triggered 50 [3, 0, 0, 0, 0] 1 900] \<and>
    dispatch_spec st 60 (SENSOR_UPDATE [0x10, 0, 0, 0, 0, 0, 0, 0, 0, 1] 900) acts st'"
proof -
  let ?init = "dispatch_init (replicate 80 0)" and ?sub = "SUBSCRIBE_SENSOR_LIST [3, 70, 0, 0, 0] 2 1"
    and ?upd = "SENSOR_UPDATE [0x10, 0, 0, 0, 0, 0, 0, 0, 0, 1] 900"
  have len: "length (replicate 80 (0::int)) = SENSORS" by (simp add: SENSORS_80)
  have al: "dispatch_allowed ?init ?sub"
    by (simp add: dispatch_init_def MAX_SUBSCRIBED_SENSORS_def MAX_NUM_TRAINS_def SENSORS_80 numeral_2_eq_2)
  obtain st where st: "dispatch_step ?init 50 ?sub = Inr ([], st)" "dispatch_reaches (replicate 80 0) st"
    using sensors_attributed [OF dispatch_start len al, of 50]
    by (auto simp: dispatch_step_def handle_dispatch_def handle_subscribe_def inform_subscriber_def dispatch_init_def cbind_Inr_iff)
  have "dispatch_allowed st ?upd" by (simp add: NUM_SENSOR_GROUPS_def)
  then obtain acts st' where step: "dispatch_step st 60 ?upd = Inr (acts, st')" "dispatch_spec st 60 ?upd acts st'"
    using sensors_attributed [OF st(2) len] by blast
  moreover have "acts = [Dispatch_Good 60, Triggered 50 [3, 0, 0, 0, 0] 1 900]"
  proof -
    have "st = ?init\<lparr> ds_workers := [-1, 50, -1, -1, -1, -1], ds_subscribers := (replicate 80 (-1))[3 := 1, 70 := 1], ds_changed := True \<rparr>"
      using st(1)
      by (simp add: dispatch_step_def handle_dispatch_def handle_subscribe_def inform_subscriber_def dispatch_init_def
          MAX_SUBSCRIBED_SENSORS_def MAX_NUM_TRAINS_def SENSORS_80 subscribe_one_def rdi_def wri_def numeral_2_eq_2 eval_nat_numeral)
    then have sel: "ds_subscribers st = (replicate 80 (-1))[3 := 1, 70 := 1]" "ds_workers st = [-1, 50, -1, -1, -1, -1]"
      "ds_sensor_printer st = -1" "ds_courier st = -1" "ds_subscribe_printer st = -1"
      by (simp_all add: dispatch_init_def)
    let ?readings = "[0x10, 0, 0, 0, 0, 0, 0, 0, 0, 1] :: 8 word list"
    have "map (hits ((replicate 80 (-1))[3 := 1, 70 := 1]) ?readings 80) [0, 1, 2, 3, 4, 5] = [[], [3], [], [], [], []]"
      by code_simp
    then have "concat (map (worker_msg st ?readings 900) [0..<MAX_NUM_TRAINS]) = [Triggered 50 [3, 0, 0, 0, 0] 1 900]"
      by (simp add: MAX_NUM_TRAINS_def upt_rec worker_msg_def sel SENSORS_80 MAX_SUBSCRIBED_SENSORS_def eval_nat_numeral)
    then show ?thesis
      using step(1) handle_sensor_update_ok [OF dispatch_reaches_ok [OF st(2) len], of ?readings 60 900] sel
      by (auto simp: dispatch_step_def handle_dispatch_def inform_subscriber_def NUM_SENSOR_GROUPS_def split: if_splits)
  qed
  ultimately show ?thesis using st(1) by blast
qed

end
