(* ===== verification/Straightpathworker.thy ===== *)
theory Straightpathworker
  imports Dispatchserver Algorithms
begin

section \<open>The straight path worker (src/user/straightpathworker.c)\<close>

text \<open>
  The worker of a train gets a straight piece of its route, sets the switches on it, a sensor ahead of the train, starts the
  train, follows it by subscribing to the sensors of the piece, and has it stopped at the computed time. The model is one
  round of the worker from the piece it gets to the report that it is done: it collects what the worker sends, and takes
  as arguments the readings of the clock and the answers of the dispatch server. Pointers into the
  track are indices; the debug output is left out.
\<close>

subsection \<open>Data\<close>

record train_record =
  tr_train :: int
  tr_speed :: int
  tr_n :: neutron
  tr_time :: "int list"
  tr_distance :: "int list"
  tr_next :: "int list"
  tr_len :: nat
  tr_branches :: "int list"
  tr_j :: int
  tr_dist :: int
  tr_stop_marker :: int
  tr_stop_offset :: int

datatype sp_act =
    Sp_Delay int
  | Sp_Command train_msg
  | Sp_Subscribe dispatch_request
  | Sp_Delay_Until int
  | Sp_Done int

text \<open>The state of a round: the record, what has been sent, the readings of the clock so far, the answers to come.\<close>

record sp_round =
  sr_train :: train_record
  sr_acts :: "sp_act list"
  sr_reads :: nat
  sr_answers :: "(int list \<times> 32 word) list"

definition emit :: "sp_act \<Rightarrow> sp_round \<Rightarrow> sp_round" where
  "emit a st = st\<lparr> sr_acts := sr_acts st @ [a] \<rparr>"

subsection \<open>Reading the path\<close>

text \<open>
  The body of the loop: the record, the distance since the last sensor, and the numbers of sensors and of entries of
  \<open>branches\<close>. An entry is 0 for a sensor, the number and the direction of a switch otherwise.
\<close>

definition process_node ::
  "track_node list \<Rightarrow> int list \<Rightarrow> nat \<Rightarrow> train_record \<times> int \<times> nat \<times> nat \<Rightarrow> nat \<Rightarrow> (train_record \<times> int \<times> nat \<times> nat) cres" where
  "process_node t path path_len = (\<lambda>(tr, dist, j, k) i.
     cbind (rd path i) (\<lambda>p.
     cbind (rdi t p) (\<lambda>cur.
     cbind
       (if n_type cur = NODE_SENSOR then
          cbind (wr (tr_next tr) j (n_num cur)) (\<lambda>next.
          cbind (cint (dist * 1000)) (\<lambda>d.
          cbind (wr (tr_distance tr) j d) (\<lambda>distance.
          cbind (wr (tr_branches tr) k 0) (\<lambda>branches.
            Inr (tr\<lparr> tr_next := next, tr_distance := distance, tr_branches := branches \<rparr>, 0, j + 1, k + 1, 0)))))
        else if n_type cur = NODE_BRANCH \<and> i + 1 < path_len then
          cbind (edge cur DIR_CURVED) (\<lambda>curved.
          cbind (rd path (i + 1)) (\<lambda>q.
          let dir = (if points_to (e_dest curved) q then 1 else 0) in
          cbind (wr (tr_branches tr) k (or (push_bit 8 (int dir)) (n_num cur))) (\<lambda>branches.
            Inr (tr\<lparr> tr_branches := branches \<rparr>, dist, j, k + 1, dir))))
        else if n_type cur = NODE_MERGE \<and> 0 < i then
          cbind (deref (n_reverse cur)) (\<lambda>r.
          cbind (rd t r) (\<lambda>rev.
          cbind (edge rev DIR_CURVED) (\<lambda>curved.
          cbind (rd path (i - 1)) (\<lambda>q.
          cbind (rdi t q) (\<lambda>earlier.
          let rdir = (if e_dest curved = n_reverse earlier then 1 else 0 :: int) in
          cbind (wr (tr_branches tr) k (or (push_bit 8 rdir) (n_num cur))) (\<lambda>branches.
            Inr (tr\<lparr> tr_branches := branches \<rparr>, dist, j, k + 1, 0)))))))
        else Inr (tr, dist, j, k, 0 :: nat)) (\<lambda>(tr', dist', j', k', dir).
     cbind (edge cur dir) (\<lambda>e.
     cbind (cint (dist' + e_dist e)) (\<lambda>dist''. Inr (tr', dist'', j', k')))))))"

definition process_path :: "track_node list \<Rightarrow> train_record \<Rightarrow> int list \<Rightarrow> nat \<Rightarrow> train_record cres" where
  "process_path t tr path path_len =
     cbind (cfold (process_node t path path_len) (tr, 0, 0, 0) [0..<path_len]) (\<lambda>(tr', dist, j, k).
     cbind (wr (tr_branches tr') k (-1)) (\<lambda>branches.
       Inr (tr'\<lparr> tr_len := j, tr_branches := branches \<rparr>)))"

subsection \<open>Setting switches\<close>

function send_loop :: "int \<Rightarrow> int list \<Rightarrow> nat \<Rightarrow> (sp_act list \<times> nat) cres" where
  "send_loop time branches j =
     (if length branches \<le> j then Inl Out_Of_Bounds
      else if 0 < branches ! j then
        cbind (send_loop time branches (j + 1)) (\<lambda>(acts, j').
          Inr (Sp_Command (TrainCommand time SWITCH (and (branches ! j) 0xff) (drop_bit 8 (branches ! j))) # acts, j'))
      else Inr ([], j))"
  by pat_completeness auto
termination
  by (relation "measure (\<lambda>(time, branches, j). length branches - j)") auto

declare send_loop.simps [simp del]

text \<open>\<open>send_branches(&train, Time(clock), trainctl)\<close>\<close>

definition send_branches :: "(nat \<Rightarrow> int) \<Rightarrow> sp_round \<Rightarrow> sp_round cres" where
  "send_branches clock st =
     (let tr = sr_train st; time = clock (sr_reads st); st1 = st\<lparr> sr_reads := sr_reads st + 1 \<rparr> in
      cbind (if 0 \<le> tr_j tr then cbind (rdi (tr_branches tr) (tr_j tr)) (\<lambda>b. Inr (b = -1)) else Inr False) (\<lambda>finished.
        if finished then Inr st1
        else
          cbind (if tr_j tr + 1 < 0 then Inl Out_Of_Bounds else send_loop time (tr_branches tr) (nat (tr_j tr + 1))) (\<lambda>(acts, j).
            Inr (st1\<lparr> sr_acts := sr_acts st @ acts, sr_train := tr\<lparr> tr_j := int j \<rparr> \<rparr>))))"

text \<open>\<open>while (train.branches[train.j] != -1) send_branches(...)\<close>, with fuel.\<close>

fun send_rest :: "(nat \<Rightarrow> int) \<Rightarrow> nat \<Rightarrow> sp_round \<Rightarrow> sp_round cres" where
  "send_rest clock 0 st = Inl Undefined_Value"
| "send_rest clock (Suc fuel) st =
     cbind (rdi (tr_branches (sr_train st)) (tr_j (sr_train st))) (\<lambda>b.
       if b = -1 then Inr st else cbind (send_branches clock st) (send_rest clock fuel))"

subsection \<open>The plan\<close>

text \<open>The last sensor before braking starts, and its distance; the sums are unsigned as the fields of the plan are.\<close>

fun plan_loop :: "neutron \<Rightarrow> int list \<Rightarrow> nat \<Rightarrow> nat \<Rightarrow> int \<Rightarrow> int \<Rightarrow> (int \<times> int) cres" where
  "plan_loop n distance i 0 dist marker = Inr (dist, marker)"
| "plan_loop n distance i (Suc remaining) dist marker =
     cbind (rd distance i) (\<lambda>d.
     cbind (cint (dist + d)) (\<lambda>sum.
       if word_of_int sum < n_dist_a n + n_dist_b n
       then plan_loop n distance (i + 1) remaining sum (int i)
       else Inr (dist, marker)))"

definition plan_stop :: "int \<Rightarrow> train_record \<Rightarrow> train_record cres" where
  "plan_stop path_dist tr =
     cbind (cint (path_dist * 1000)) (\<lambda>d.
     cbind (create_neutron (tr_train tr) (word_of_int d) False) (\<lambda>n.
     cbind (plan_loop n (tr_distance tr) 0 (tr_len tr) 0 (-1)) (\<lambda>(dist, marker).
     cbind (find_time n (word_of_int dist)) (\<lambda>time.
       Inr (tr\<lparr> tr_dist := d, tr_n := n, tr_speed := uint (n_speed n), tr_stop_marker := marker,
                tr_stop_offset := sint (n_time_a n + n_time_b n - time) \<rparr>)))))"

subsection \<open>Following the train\<close>

definition subscribe :: "int list \<Rightarrow> int \<Rightarrow> sp_round \<Rightarrow> ((int list \<times> 32 word) \<times> sp_round) cres" where
  "subscribe sensors train st =
     (case sr_answers st of
        [] \<Rightarrow> Inl Undefined_Value
      | a # rest \<Rightarrow>
          Inr (a, (emit (Sp_Subscribe (SUBSCRIBE_SENSOR_LIST sensors (int (length sensors)) train)) st)\<lparr> sr_answers := rest \<rparr>))"

text \<open>The loop over the sensors up to the stop marker; \<open>res\<close> is the last answer of the dispatch server.\<close>

fun follow_loop :: "(nat \<Rightarrow> int) \<Rightarrow> nat \<Rightarrow> nat \<Rightarrow> bool \<Rightarrow> int list \<times> 32 word \<Rightarrow> sp_round \<Rightarrow> sp_round cres" where
  "follow_loop clock i 0 skip res st = Inr st"
| "follow_loop clock i (Suc remaining) skip res st =
     (let tr = sr_train st in
      cbind (rd (tr_next tr) i) (\<lambda>next.
      cbind (if i + 1 < tr_len tr then cbind (rd (tr_next tr) (i + 1)) (\<lambda>after. Inr [next, after]) else Inr [next]) (\<lambda>sensors.
      cbind (if skip then Inr (res, st) else subscribe sensors (tr_train tr) st) (\<lambda>(res', st1).
      cbind (wr (tr_time tr) i (sint (snd res') - (if i = 0 then 100 else 0))) (\<lambda>times.
      cbind (rd (fst res') 0) (\<lambda>triggered.
      cbind (send_branches clock (st1\<lparr> sr_train := tr\<lparr> tr_time := times \<rparr> \<rparr>)) (\<lambda>st2.
        follow_loop clock (i + 1) remaining (i + 1 < tr_len tr \<and> triggered = sensors ! 1) res' st2)))))))"

text \<open>From the start of the train to the time and the offset of the stop.\<close>

definition follow_train :: "(nat \<Rightarrow> int) \<Rightarrow> int \<Rightarrow> sp_round \<Rightarrow> (int \<times> sp_round) cres" where
  "follow_train clock start_time st =
     (let tr = sr_train st in
      if n_dist_b (tr_n tr) = 0 \<and> tr_len tr \<noteq> 0 then
        cbind (rd (tr_next tr) 0) (\<lambda>next.
        cbind (subscribe [next] (tr_train tr) st) (\<lambda>(res, st1).
        cbind (adjust_offset (tr_n tr) (tr_train tr) (snd res - 100 - word_of_int start_time)) (\<lambda>n.
          Inr (start_time, st1\<lparr> sr_train := tr\<lparr> tr_n := n, tr_stop_offset := sint (n_time_a n + n_time_b n) \<rparr> \<rparr>))))
      else if tr_stop_marker tr \<noteq> -1 then
        cbind (follow_loop clock 0 (nat (tr_stop_marker tr + 1)) False ([], 0) st) (\<lambda>st1.
        cbind (rdi (tr_time (sr_train st1)) (tr_stop_marker tr)) (\<lambda>marker_time. Inr (marker_time, st1)))
      else Inr (start_time, st))"

subsection \<open>A round\<close>

definition sp_start :: "int \<Rightarrow> train_record \<Rightarrow> (int list \<times> 32 word) list \<Rightarrow> sp_round" where
  "sp_start delay_time tr answers = \<lparr> sr_train = tr, sr_acts = [Sp_Delay delay_time], sr_reads = 0, sr_answers = answers \<rparr>"

text \<open>From the start of the train to the report, for the record \<open>tr\<close> as it was before the first switch.\<close>

definition drive :: "(nat \<Rightarrow> int) \<Rightarrow> train_record \<Rightarrow> sp_round \<Rightarrow> sp_round cres" where
  "drive clock tr st =
     (let start_time = clock (sr_reads st);
          st1 = emit (Sp_Command (TrainCommand start_time SPEED (tr_train tr) (tr_speed tr))) (st\<lparr> sr_reads := sr_reads st + 1 \<rparr>)
      in cbind (follow_train clock start_time st1) (\<lambda>(marker_time, st2).
         cbind (cint (marker_time + tr_stop_offset (sr_train st2))) (\<lambda>time.
         let st3 = (emit (Sp_Command (TrainCommand time SPEED (tr_train tr) 0)) st2)
                     \<lparr> sr_train := (sr_train st2)\<lparr> tr_stop_marker := -1 \<rparr> \<rparr>
         in cbind (send_rest clock (length (tr_branches tr) + 1) st3) (\<lambda>st4.
            cbind (cint (time + sint (n_time_c (tr_n (sr_train st4))))) (\<lambda>until.
              Inr (emit (Sp_Done (tr_train tr)) (emit (Sp_Delay_Until until) st4)))))))"

definition straightpath_round ::
  "track_node list \<Rightarrow> (nat \<Rightarrow> int) \<Rightarrow> train_record \<Rightarrow> int list \<Rightarrow> nat \<Rightarrow> int \<Rightarrow> int \<Rightarrow> (int list \<times> 32 word) list \<Rightarrow> sp_round cres" where
  "straightpath_round t clock tr0 path path_len path_dist delay_time answers =
     cbind (kassert (0 < path_dist) ''Negative Distance'') (\<lambda>_.
     cbind (process_path t (tr0\<lparr> tr_time := replicate 160 0 \<rparr>) path path_len) (\<lambda>tr1.
     cbind (plan_stop path_dist (tr1\<lparr> tr_j := -1 \<rparr>)) (\<lambda>tr2.
     cbind (send_branches clock (sp_start delay_time tr2 answers)) (\<lambda>st1.
     cbind (send_branches clock st1) (\<lambda>st2. drive clock tr2 st2)))))"

end
