(* ===== verification/Straightpathworker_Properties.thy ===== *)
theory Straightpathworker_Properties
  imports Straightpathworker Track_Data
begin

section \<open>What the straight path worker does\<close>

subsection \<open>The switches of a path\<close>

text \<open>What there is to do at a node: nothing, a sensor to pass, or a switch to set in a direction.\<close>

datatype mark = Sensor_Mark int | Switch_Mark int int

definition marks_at :: "track_node list \<Rightarrow> int list \<Rightarrow> nat \<Rightarrow> nat \<Rightarrow> mark list" where
  "marks_at t path n i =
     (let cur = t ! nat (path ! i) in
      if n_type cur = NODE_SENSOR then [Sensor_Mark (n_num cur)]
      else if n_type cur = NODE_BRANCH \<and> i + 1 < n
      then [Switch_Mark (n_num cur) (if points_to (e_dest (n_edges cur ! DIR_CURVED)) (path ! (i + 1)) then 1 else 0)]
      else if n_type cur = NODE_MERGE \<and> 0 < i
      then [Switch_Mark (n_num cur)
              (if e_dest (n_edges (t ! the (n_reverse cur)) ! DIR_CURVED) = n_reverse (t ! nat (path ! (i - 1))) then 1 else 0)]
      else [])"

definition marks :: "track_node list \<Rightarrow> int list \<Rightarrow> nat \<Rightarrow> nat \<Rightarrow> mark list" where
  "marks t path n m = concat (map (marks_at t path n) [0..<m])"

fun sensors_of :: "mark list \<Rightarrow> int list" where
  "sensors_of [] = []"
| "sensors_of (Sensor_Mark s # ms) = s # sensors_of ms"
| "sensors_of (Switch_Mark a d # ms) = sensors_of ms"

text \<open>The switches between the sensors, one list for each stretch.\<close>

fun stretches :: "mark list \<Rightarrow> (int \<times> int) list list" where
  "stretches [] = [[]]"
| "stretches (Sensor_Mark s # ms) = [] # stretches ms"
| "stretches (Switch_Mark a d # ms) = ((a, d) # hd (stretches ms)) # tl (stretches ms)"

lemma stretches_ne [simp]: "stretches ms \<noteq> []"
  by (cases ms rule: stretches.cases) auto

lemma length_stretches: "length (stretches ms) = length (sensors_of ms) + 1"
  by (induction ms rule: stretches.induct) (auto simp: neq_Nil_conv length_tl)

lemma sensors_of_append [simp]: "sensors_of (xs @ ys) = sensors_of xs @ sensors_of ys"
  by (induction xs rule: sensors_of.induct) auto

text \<open>How a mark is written into \<open>branches\<close>.\<close>

fun code :: "mark \<Rightarrow> int" where
  "code (Sensor_Mark s) = 0"
| "code (Switch_Mark a d) = or (push_bit 8 d) a"

fun mark_ok :: "mark \<Rightarrow> bool" where
  "mark_ok (Sensor_Mark s) \<longleftrightarrow> True"
| "mark_ok (Switch_Mark a d) \<longleftrightarrow> 0 < a \<and> a < 256 \<and> d \<in> {0, 1}"

lemma code_switch:
  assumes "0 < (a :: int)" "a < 256" "d = 0 \<or> d = 1"
  shows "0 < or (push_bit 8 d) a" "and (or (push_bit 8 d) a) 0xff = a" "drop_bit 8 (or (push_bit 8 d) a) = d"
proof -
  have a: "and a 0xff = a"
  proof -
    have "and a 0xff = take_bit 8 a" by (simp add: take_bit_eq_mask mask_eq_exp_minus_1)
    then show ?thesis using assms(1,2) by (simp add: take_bit_int_eq_self_iff)
  qed
  have d: "and (push_bit 8 d) 0xff = 0" "drop_bit 8 a = 0" "drop_bit 8 (push_bit 8 d) = d"
    using assms by (auto simp: drop_bit_eq_div)
  show m: "and (or (push_bit 8 d) a) 0xff = a" using a d(1) by (simp add: bit.conj_disj_distrib2)
  show "drop_bit 8 (or (push_bit 8 d) a) = d" using d(2,3) by (simp add: drop_bit_or)
  have "0 \<le> or (push_bit 8 d) a" using assms by (auto simp: or_nonnegative_int_iff)
  moreover have "or (push_bit 8 d) a \<noteq> 0" using m assms(1) by auto
  ultimately show "0 < or (push_bit 8 d) a" by linarith
qed

subsection \<open>Reading the path\<close>

text \<open>
  A path as the navigation server hands it out: nodes of the track, switches with numbers of one byte, no
  edge of it longer than ten metres (an edge behind a broken sensor is marked with a longer one).
\<close>

definition leg :: "track_node list \<Rightarrow> int list \<Rightarrow> nat \<Rightarrow> nat \<Rightarrow> int" where
  "leg t path n i =
     (let cur = t ! nat (path ! i) in
      e_dist (n_edges cur ! (if n_type cur = NODE_BRANCH \<and> i + 1 < n \<and> points_to (e_dest (n_edges cur ! DIR_CURVED)) (path ! (i + 1))
        then 1 else 0)))"

definition node_fit :: "nat \<Rightarrow> track_node \<Rightarrow> bool" where
  "node_fit nodes n \<longleftrightarrow> length (n_edges n) = 2 \<and>
     (n_type n = NODE_BRANCH \<or> n_type n = NODE_MERGE \<longrightarrow> 0 < n_num n \<and> n_num n < 256 \<and>
        (case n_reverse n of None \<Rightarrow> False | Some r \<Rightarrow> r < nodes))"

definition track_fit :: "track_node list \<Rightarrow> bool" where
  "track_fit t \<longleftrightarrow> list_all (node_fit (length t)) t"

definition piece_ok :: "track_node list \<Rightarrow> int list \<Rightarrow> nat \<Rightarrow> bool" where
  "piece_ok t path n \<longleftrightarrow> n \<le> length path \<and> n \<le> TRACK_MAX \<and>
     (\<forall>i < n. 0 \<le> path ! i \<and> nat (path ! i) < length t \<and> 0 \<le> leg t path n i \<and> leg t path n i \<le> 10000)"

text \<open>The arrays of the record are as long as declared.\<close>

definition record_ok :: "train_record \<Rightarrow> bool" where
  "record_ok tr \<longleftrightarrow> length (tr_time tr) = 160 \<and> length (tr_distance tr) = 160 \<and> length (tr_next tr) = 160 \<and>
     length (tr_branches tr) = 2 * TRACK_MAX"

text \<open>After \<open>m\<close> nodes: the marks so far are in the arrays, and the distances are small.\<close>

definition read_ok :: "track_node list \<Rightarrow> int list \<Rightarrow> nat \<Rightarrow> train_record \<Rightarrow> nat \<Rightarrow> train_record \<times> int \<times> nat \<times> nat \<Rightarrow> bool" where
  "read_ok t path n tr0 m = (\<lambda>(tr, dist, j, k).
     (\<exists>ns ds bs. tr = tr0\<lparr> tr_next := ns, tr_distance := ds, tr_branches := bs \<rparr> \<and> record_ok tr \<and>
        take j ns = sensors_of (marks t path n m) \<and> j \<le> length ns \<and>
        take k bs = map code (marks t path n m) \<and> k \<le> length bs \<and>
        (\<forall>i < j. 0 \<le> ds ! i \<and> ds ! i \<le> 1000 * (10000 * int m)) \<and> sum_list (take j ds) + 1000 * dist \<le> 1000 * (10000 * int m)) \<and>
     j \<le> m \<and> k \<le> m \<and> 0 \<le> dist \<and> dist \<le> 10000 * int m)"

lemma marks_Suc: "marks t path n (Suc m) = marks t path n m @ marks_at t path n m"
  by (simp add: marks_def)

lemma take_Suc_update: "i < length xs \<Longrightarrow> take (Suc i) (xs[i := x]) = take i xs @ [x]"
  by (simp add: take_Suc_conv_app_nth)

lemma process_node_ok:
  assumes t: "track_fit t" and piece: "piece_ok t path n" and m: "m < n" and inv: "read_ok t path n tr0 m x"
  shows "\<exists>y. process_node t path n x m = Inr y \<and> read_ok t path n tr0 (Suc m) y"
proof -
  obtain tr dist j k where x: "x = (tr, dist, j, k)" by (cases x)
  obtain ns ds bs where arrays: "tr = tr0\<lparr> tr_next := ns, tr_distance := ds, tr_branches := bs \<rparr>" "record_ok tr"
    "take j ns = sensors_of (marks t path n m)" "take k bs = map code (marks t path n m)"
    "\<forall>i < j. 0 \<le> ds ! i \<and> ds ! i \<le> 1000 * (10000 * int m)" "sum_list (take j ds) + 1000 * dist \<le> 1000 * (10000 * int m)"
    and small: "j \<le> m" "k \<le> m" "0 \<le> dist" "dist \<le> 10000 * int m"
    using inv unfolding read_ok_def x prod.case by blast
  have lens: "length ns = 160" "length ds = 160" "length bs = 2 * TRACK_MAX"
    using arrays(1,2) by (simp_all add: record_ok_def)
  have path: "m < length path" "0 \<le> path ! m" "nat (path ! m) < length t" "0 \<le> leg t path n m" "leg t path n m \<le> 10000" "n \<le> TRACK_MAX"
    using piece m unfolding piece_ok_def by auto
  have bounds: "j < 160" "k < 2 * TRACK_MAX" using small(1,2) m path(6) by (simp_all add: TRACK_MAX_def)
  have m144: "int m < 144" using m path(6) by (simp add: TRACK_MAX_def)
  define cur where "cur = t ! nat (path ! m)"
  have fit: "node_fit (length t) cur" using t path(3) by (simp add: track_fit_def list_all_iff cur_def)
  then have edges: "length (n_edges cur) = 2" by (simp add: node_fit_def)
  have node: "rdi t (path ! m) = Inr cur" using path(2,3) by (simp add: rdi_def cur_def)
  have leg_int: "cint (d + leg t path n m) = Inr (d + leg t path n m)" if "0 \<le> d" "d \<le> 10000 * int m" for d
    using that path(4,5) m144 by (simp add: cint_def)
  show ?thesis
  proof (cases "n_type cur = NODE_SENSOR")
    case True
    have marks: "marks_at t path n m = [Sensor_Mark (n_num cur)]" using True by (simp add: marks_at_def cur_def Let_def)
    have legm: "leg t path n m = e_dist (n_edges cur ! 0)" using True by (simp add: leg_def cur_def [symmetric] Let_def)
    have "cint (dist * 1000) = Inr (dist * 1000)" using small(3,4) m144 by (simp add: cint_def)
    then have run: "process_node t path n x m = Inr (tr\<lparr> tr_next := ns[j := n_num cur], tr_distance := ds[j := dist * 1000],
        tr_branches := bs[k := 0] \<rparr>, leg t path n m, j + 1, k + 1)"
      using True node path(1) bounds lens arrays(1) edges leg_int [of 0]
      by (simp add: process_node_def x edge_def legm)
    have "sum_list (take (Suc j) (ds[j := dist * 1000])) + 1000 * leg t path n m \<le> 1000 * (10000 * int (Suc m))"
      using arrays(6) path(5) bounds lens by (simp add: take_Suc_update)
    moreover have "0 \<le> ds[j := dist * 1000] ! i \<and> ds[j := dist * 1000] ! i \<le> 1000 * (10000 * int (Suc m))" if "i < Suc j" for i
      using that arrays(5) small(3,4) lens bounds by (auto simp: nth_update less_Suc_eq)
    ultimately have "read_ok t path n tr0 (Suc m) (tr\<lparr> tr_next := ns[j := n_num cur], tr_distance := ds[j := dist * 1000],
        tr_branches := bs[k := 0] \<rparr>, leg t path n m, j + 1, k + 1)"
      unfolding read_ok_def prod.case
      using arrays lens bounds small path(4,5)
      by (intro conjI exI [of _ "ns[j := n_num cur]"] exI [of _ "ds[j := dist * 1000]"] exI [of _ "bs[k := 0]"])
        (simp_all add: record_ok_def take_Suc_update marks_Suc marks)
    then show ?thesis using run by blast
  next
    case no_sensor: False
    have keep: "read_ok t path n tr0 (Suc m) (tr\<lparr> tr_branches := bs' \<rparr>, dist + leg t path n m, j, k')"
      if bs': "length bs' = length bs" "take k' bs' = map code (marks t path n (Suc m))" "k' \<le> Suc k"
        and none: "sensors_of (marks_at t path n m) = []" for bs' k'
      unfolding read_ok_def prod.case
      using arrays lens bounds small path(4,5) bs' none
      by (intro conjI exI [of _ ns] exI [of _ ds] exI [of _ bs']) (auto simp: record_ok_def marks_Suc intro: order_trans)
    consider (branch) "n_type cur = NODE_BRANCH" "m + 1 < n" | (merge) "n_type cur = NODE_MERGE" "0 < m"
      | (other) "\<not> (n_type cur = NODE_BRANCH \<and> m + 1 < n)" "\<not> (n_type cur = NODE_MERGE \<and> 0 < m)" by blast
    then show ?thesis
    proof cases
      case branch
      define dir where "dir = (if points_to (e_dest (n_edges cur ! 1)) (path ! (m + 1)) then 1 else 0 :: nat)"
      have nxt: "m + 1 < length path" using branch(2) piece by (simp add: piece_ok_def)
      have marks: "marks_at t path n m = [Switch_Mark (n_num cur) (int dir)]"
        using branch by (simp add: marks_at_def cur_def [symmetric] Let_def dir_def)
      have legm: "leg t path n m = e_dist (n_edges cur ! dir)"
        using branch by (simp add: leg_def cur_def [symmetric] Let_def dir_def)
      let ?bs = "bs[k := or (push_bit 8 (int dir)) (n_num cur)]"
      have "process_node t path n x m = Inr (tr\<lparr> tr_branches := ?bs \<rparr>, dist + leg t path n m, j, k + 1)"
        using branch node path(1) nxt bounds lens arrays(1) edges leg_int [OF small(3,4)] unfolding legm
        by (simp add: process_node_def x edge_def Let_def dir_def)
      moreover have "take (k + 1) ?bs = map code (marks t path n (Suc m))"
        using arrays(4) bounds lens by (simp add: take_Suc_update marks_Suc marks)
      ultimately show ?thesis using keep [of ?bs "k + 1"] marks by auto
    next
      case merge
      obtain r where r: "n_reverse cur = Some r" "r < length t" using fit merge(1) by (auto simp: node_fit_def split: option.splits)
      have edges_r: "length (n_edges (t ! r)) = 2" using t r(2) by (simp add: track_fit_def list_all_iff node_fit_def)
      have prv: "m - 1 < length path" "0 \<le> path ! (m - 1)" "nat (path ! (m - 1)) < length t"
        using piece m merge(2) path(1) unfolding piece_ok_def by auto
      define rdir where "rdir = (if e_dest (n_edges (t ! r) ! 1) = n_reverse (t ! nat (path ! (m - 1))) then 1 else 0 :: int)"
      have marks: "marks_at t path n m = [Switch_Mark (n_num cur) rdir]"
        using merge r(1) by (simp add: marks_at_def cur_def [symmetric] Let_def rdir_def)
      have legm: "leg t path n m = e_dist (n_edges cur ! 0)" using merge by (simp add: leg_def cur_def [symmetric] Let_def)
      let ?bs = "bs[k := or (push_bit 8 rdir) (n_num cur)]"
      have "process_node t path n x m = Inr (tr\<lparr> tr_branches := ?bs \<rparr>, dist + leg t path n m, j, k + 1)"
        using merge node path(1) prv bounds lens arrays(1) edges edges_r r leg_int [OF small(3,4)] unfolding legm
        by (simp add: process_node_def x edge_def Let_def rdir_def rdi_def)
      moreover have "take (k + 1) ?bs = map code (marks t path n (Suc m))"
        using arrays(4) bounds lens by (simp add: take_Suc_update marks_Suc marks)
      ultimately show ?thesis using keep [of ?bs "k + 1"] marks by auto
    next
      case other
      have marks: "marks_at t path n m = []" using other no_sensor by (auto simp: marks_at_def cur_def [symmetric] Let_def)
      have legm: "leg t path n m = e_dist (n_edges cur ! 0)" using other by (auto simp: leg_def cur_def [symmetric] Let_def)
      have "process_node t path n x m = Inr (tr\<lparr> tr_branches := bs \<rparr>, dist + leg t path n m, j, k)"
        using other no_sensor node path(1) bounds lens arrays(1) edges leg_int [OF small(3,4)] unfolding legm
        by (auto simp: process_node_def x edge_def)
      then show ?thesis using keep [of bs k] arrays(4) by (auto simp: marks_Suc marks)
    qed
  qed
qed

lemma process_path_ok:
  assumes t: "track_fit t" and piece: "piece_ok t path n" and tr: "record_ok tr"
  obtains ns ds bs where "process_path t tr path n =
      Inr (tr\<lparr> tr_next := ns, tr_distance := ds, tr_branches := bs, tr_len := length (sensors_of (marks t path n n)) \<rparr>)"
    "length ns = 160" "length ds = 160" "length bs = 2 * TRACK_MAX"
    "take (length (sensors_of (marks t path n n))) ns = sensors_of (marks t path n n)"
    "length (sensors_of (marks t path n n)) \<le> n"
    "take (length (marks t path n n) + 1) bs = map code (marks t path n n) @ [-1]" "length (marks t path n n) \<le> n"
    "\<forall>m \<le> length (sensors_of (marks t path n n)). sum_list (take m ds) \<le> 1440000000 \<and> 0 \<le> sum_list (take m ds)"
proof -
  let ?x = "(tr, 0, 0, 0)" and ?ms = "marks t path n n"
  have "\<exists>y. cfold (process_node t path n) ?x [0..<m] = Inr y \<and> read_ok t path n tr m y" if "m \<le> n" for m
    using that
  proof (induction m)
    case 0
    have "read_ok t path n tr 0 ?x"
      unfolding read_ok_def prod.case using tr
      by (intro conjI exI [of _ "tr_next tr"] exI [of _ "tr_distance tr"] exI [of _ "tr_branches tr"]) (simp_all add: marks_def)
    then show ?case by simp
  next
    case (Suc m)
    then obtain y where y: "cfold (process_node t path n) ?x [0..<m] = Inr y" "read_ok t path n tr m y" by auto
    then show ?case using process_node_ok [OF t piece _ y(2)] Suc.prems by (simp add: cfold_append)
  qed
  then obtain tr' dist j k where fold: "cfold (process_node t path n) ?x [0..<n] = Inr (tr', dist, j, k)"
    "read_ok t path n tr n (tr', dist, j, k)" by (metis le_refl prod_cases4)
  obtain ns ds bs where arrays: "tr' = tr\<lparr> tr_next := ns, tr_distance := ds, tr_branches := bs \<rparr>" "record_ok tr'"
    "take j ns = sensors_of ?ms" "j \<le> length ns" "take k bs = map code ?ms" "k \<le> length bs"
    "\<forall>i < j. 0 \<le> ds ! i \<and> ds ! i \<le> 1000 * (10000 * int n)" "sum_list (take j ds) + 1000 * dist \<le> 1000 * (10000 * int n)"
    and small: "j \<le> n" "k \<le> n" "0 \<le> dist"
    using fold(2) unfolding read_ok_def prod.case by blast
  have lens: "length ns = 160" "length ds = 160" "length bs = 2 * TRACK_MAX" using arrays(1,2) by (simp_all add: record_ok_def)
  have n144: "n \<le> 144" using piece by (simp add: piece_ok_def TRACK_MAX_def)
  have jk: "j = length (sensors_of ?ms)" "k = length ?ms"
    using arg_cong [OF arrays(3), of length] arg_cong [OF arrays(5), of length] arrays(4,6) by simp_all
  have k: "k < length bs" using small(2) n144 lens by (simp add: TRACK_MAX_def)
  have sums: "sum_list (take m ds) \<le> 1440000000 \<and> 0 \<le> sum_list (take m ds)" if "m \<le> j" for m
  proof -
    have "take j ds = take m ds @ take (j - m) (drop m ds)" using that by (metis le_add_diff_inverse take_add)
    then have split: "sum_list (take j ds) = sum_list (take m ds) + sum_list (take (j - m) (drop m ds))" by simp
    have nonneg: "\<forall>d \<in> set (take j ds). 0 \<le> d" using arrays(7) lens by (auto simp: in_set_conv_nth)
    then have "\<forall>d \<in> set (take m ds). 0 \<le> d" "\<forall>d \<in> set (take (j - m) (drop m ds)). 0 \<le> d"
      using \<open>take j ds = _\<close> by simp_all
    then have "0 \<le> sum_list (take m ds)" "0 \<le> sum_list (take (j - m) (drop m ds))"
      by (simp_all add: sum_list_nonneg)
    moreover have "sum_list (take j ds) \<le> 1000 * (10000 * int n)" using arrays(8) small(3) by linarith
    ultimately show ?thesis using split n144 by linarith
  qed
  have "process_path t tr path n =
      Inr (tr\<lparr> tr_next := ns, tr_distance := ds, tr_branches := bs[k := -1], tr_len := length (sensors_of ?ms) \<rparr>)"
    using fold(1) arrays(1) k jk by (simp add: process_path_def)
  then show ?thesis
    by (rule that) (use lens arrays(3,5) small jk k sums in \<open>simp_all add: take_Suc_update\<close>)
qed

lemma track_fit_boot: "track_fit tracka_boot" "track_fit trackb_boot"
proof -
  have keep: "track_fit (set_dist t i d x)" if t: "track_fit t" for t i d x
  proof -
    have "node_fit (length t) (set_dist t i d x ! j)" if "j < length t" for j
    proof -
      have "node_fit (length t) (t ! j)" using t that by (simp add: track_fit_def list_all_length)
      then show ?thesis by (auto simp: set_dist_def nth_update node_fit_def)
    qed
    then show ?thesis by (simp add: track_fit_def list_all_length set_dist_def)
  qed
  have "track_fit init_tracka" "track_fit init_trackb"
    by (simp_all add: track_fit_def init_tracka_rows init_trackb_rows node_fit_def)
  then show "track_fit tracka_boot" "track_fit trackb_boot"
    by (simp_all add: tracka_boot_def trackb_boot_def keep)
qed

subsection \<open>Sending switches\<close>

text \<open>The stretches still to be sent: \<open>j\<close> is at the end of the one sent last, or before the first.\<close>

definition todo :: "train_record \<Rightarrow> (int \<times> int) list list \<Rightarrow> bool" where
  "todo tr ss \<longleftrightarrow>
     (ss = [] \<and> (\<exists>pre post. tr_branches tr = pre @ -1 # post \<and> tr_j tr = int (length pre))) \<or>
     (\<exists>pre ms post. tr_branches tr = pre @ map code ms @ -1 # post \<and> stretches ms = ss \<and> list_all mark_ok ms \<and>
        tr_j tr = int (length pre) - 1 \<and> (pre \<noteq> [] \<longrightarrow> last pre \<noteq> -1))"

definition switch_cmds :: "int \<Rightarrow> (int \<times> int) list \<Rightarrow> sp_act list" where
  "switch_cmds time sws = map (\<lambda>(a, d). Sp_Command (TrainCommand time SWITCH a d)) sws"

text \<open>One call sends one stretch.\<close>

lemma send_loop_ok:
  assumes "list_all mark_ok ms"
  shows "send_loop time (pre @ map code ms @ -1 # post) (length pre) =
      Inr (switch_cmds time (hd (stretches ms)), length pre + length (hd (stretches ms))) \<and>
    (if tl (stretches ms) = []
     then \<exists>q. pre @ map code ms @ -1 # post = q @ -1 # post \<and> length q = length pre + length (hd (stretches ms))
     else \<exists>q ms'. pre @ map code ms @ -1 # post = q @ map code ms' @ -1 # post \<and> stretches ms' = tl (stretches ms) \<and>
       list_all mark_ok ms' \<and> length q = length pre + length (hd (stretches ms)) + 1 \<and> last q = 0)"
  using assms
proof (induction ms arbitrary: pre rule: stretches.induct)
  case 1
  then show ?case by (subst send_loop.simps) (simp add: switch_cmds_def)
next
  case (2 s ms)
  have "send_loop time (pre @ map code (Sensor_Mark s # ms) @ -1 # post) (length pre) = Inr ([], length pre)"
    by (subst send_loop.simps) simp
  moreover have "\<exists>q ms'. pre @ map code (Sensor_Mark s # ms) @ -1 # post = q @ map code ms' @ -1 # post \<and>
      stretches ms' = stretches ms \<and> list_all mark_ok ms' \<and> length q = length pre + 1 \<and> last q = 0"
    using 2 by (intro exI [of _ "pre @ [0]"] exI [of _ ms]) simp
  ultimately show ?case by (simp add: switch_cmds_def)
next
  case (3 a d ms)
  have ok: "0 < a" "a < 256" "d = 0 \<or> d = 1" "list_all mark_ok ms" using 3 by auto
  note code = code_switch [OF ok(1-3)]
  let ?bs = "pre @ map code (Switch_Mark a d # ms) @ -1 # post" and ?pre = "pre @ [or (push_bit 8 d) a]"
  have bs: "?bs = ?pre @ map code ms @ -1 # post" by simp
  note IH = 3(1) [OF ok(4), of ?pre]
  have "send_loop time ?bs (length pre) = cbind (send_loop time ?bs (length pre + 1)) (\<lambda>(acts, j').
      Inr (Sp_Command (TrainCommand time SWITCH a d) # acts, j'))"
    using code by (subst send_loop.simps) (simp add: nth_append)
  moreover have "send_loop time ?bs (length pre + 1) =
      Inr (switch_cmds time (hd (stretches ms)), length ?pre + length (hd (stretches ms)))"
    using IH unfolding bs by simp
  ultimately have "send_loop time ?bs (length pre) =
      Inr (switch_cmds time (hd (stretches (Switch_Mark a d # ms))), length pre + length (hd (stretches (Switch_Mark a d # ms))))"
    by (simp add: switch_cmds_def)
  then show ?case using IH unfolding bs by (simp split: if_splits)
qed

lemma send_branches_ok:
  assumes "todo (sr_train st) ss"
  shows "\<exists>j. send_branches clock st = Inr (st\<lparr> sr_reads := sr_reads st + 1,
      sr_acts := sr_acts st @ switch_cmds (clock (sr_reads st)) (if ss = [] then [] else hd ss),
      sr_train := (sr_train st)\<lparr> tr_j := j \<rparr> \<rparr>) \<and> todo ((sr_train st)\<lparr> tr_j := j \<rparr>) (tl ss) \<and> 0 \<le> j"
proof -
  let ?tr = "sr_train st"
  consider (finished) pre post where "ss = []" "tr_branches ?tr = pre @ -1 # post" "tr_j ?tr = int (length pre)"
    | (more) pre ms post where "tr_branches ?tr = pre @ map code ms @ -1 # post" "stretches ms = ss" "list_all mark_ok ms"
      "tr_j ?tr = int (length pre) - 1" "pre \<noteq> [] \<longrightarrow> last pre \<noteq> -1"
    using assms unfolding todo_def by blast
  then show ?thesis
  proof cases
    case finished
    have "send_branches clock st = Inr (st\<lparr> sr_reads := sr_reads st + 1 \<rparr>)"
      using finished(2,3) by (simp add: send_branches_def Let_def rdi_def)
    moreover have "0 \<le> tr_j ?tr" using finished(3) by simp
    ultimately show ?thesis using assms finished(1) by (intro exI [of _ "tr_j ?tr"]) (simp add: switch_cmds_def)
  next
    case more
    have loop: "send_loop (clock (sr_reads st)) (tr_branches ?tr) (length pre) =
        Inr (switch_cmds (clock (sr_reads st)) (hd ss), length pre + length (hd ss))"
      "if tl ss = [] then \<exists>q. tr_branches ?tr = q @ -1 # post \<and> length q = length pre + length (hd ss)
       else \<exists>q ms'. tr_branches ?tr = q @ map code ms' @ -1 # post \<and> stretches ms' = tl ss \<and>
         list_all mark_ok ms' \<and> length q = length pre + length (hd ss) + 1 \<and> last q = 0"
      using send_loop_ok [OF more(3), of "clock (sr_reads st)" pre post] unfolding more(1,2) by blast+
    have "(if 0 \<le> tr_j ?tr then cbind (rdi (tr_branches ?tr) (tr_j ?tr)) (\<lambda>b. Inr (b = -1)) else Inr False) = Inr False"
    proof (cases "pre = []")
      case False
      then have "tr_branches ?tr ! (length pre - 1) = last pre" "0 < length pre"
        using more(1) by (simp_all add: nth_append last_conv_nth)
      moreover have "nat (tr_j ?tr) = length pre - 1" using more(4) by simp
      ultimately show ?thesis using more(1,4,5) False by (simp add: rdi_def)
    qed (use more(4) in simp)
    then have run: "send_branches clock st = Inr (st\<lparr> sr_reads := sr_reads st + 1,
        sr_acts := sr_acts st @ switch_cmds (clock (sr_reads st)) (hd ss),
        sr_train := ?tr\<lparr> tr_j := int (length pre + length (hd ss)) \<rparr> \<rparr>)"
      using loop(1) more(4) by (simp add: send_branches_def Let_def)
    have "todo (?tr\<lparr> tr_j := int (length pre + length (hd ss)) \<rparr>) (tl ss)"
    proof (cases "tl ss = []")
      case True
      then show ?thesis using loop(2) unfolding todo_def by fastforce
    next
      case False
      then obtain q ms' where q: "tr_branches ?tr = q @ map code ms' @ -1 # post" "stretches ms' = tl ss"
         "list_all mark_ok ms'" "length q = length pre + length (hd ss) + 1" "last q = 0"
        using loop(2) by auto
      then show ?thesis unfolding todo_def
        by (intro disjI2 exI [of _ q] exI [of _ ms'] exI [of _ post]) simp
    qed
    moreover have "ss \<noteq> []" using more(2) by auto
    ultimately show ?thesis using run by auto
  qed
qed
text \<open>What has been sent: the switches with their directions, the speeds, and before each subscription the switches so far.\<close>

definition switches :: "sp_act list \<Rightarrow> (int \<times> int) list" where
  "switches acts = concat (map (\<lambda>a. case a of Sp_Command (SWITCH sw dir time) \<Rightarrow> [(sw, dir)] | _ \<Rightarrow> []) acts)"

definition speeds :: "sp_act list \<Rightarrow> (int \<times> int \<times> int) list" where
  "speeds acts = concat (map (\<lambda>a. case a of Sp_Command (SPEED train speed time) \<Rightarrow> [(train, speed, time)] | _ \<Rightarrow> []) acts)"

fun subs_at :: "(int \<times> int) list \<Rightarrow> sp_act list \<Rightarrow> (dispatch_request \<times> (int \<times> int) list) list" where
  "subs_at sw [] = []"
| "subs_at sw (a # acts) =
     (case a of Sp_Subscribe sub \<Rightarrow> (sub, sw) # subs_at sw acts | _ \<Rightarrow> subs_at (sw @ switches [a]) acts)"

lemma switches_simps [simp]:
  "switches [] = []" "switches (xs @ ys) = switches xs @ switches ys" "switches (switch_cmds time sws) = sws"
  "switches [Sp_Subscribe sub] = []" "switches [Sp_Command (TrainCommand time SPEED train speed)] = []" "switches [Sp_Delay d] = []"
  "switches [Sp_Delay_Until u] = []" "switches [Sp_Done train] = []"
  by (induction sws) (auto simp: switches_def switch_cmds_def TrainCommand_def)

lemma speeds_simps [simp]:
  "speeds [] = []" "speeds (xs @ ys) = speeds xs @ speeds ys" "speeds (switch_cmds time sws) = []"
  "speeds [Sp_Subscribe sub] = []" "speeds [Sp_Command (TrainCommand time SPEED train speed)] = [(train, speed, time)]"
  "speeds [Sp_Delay d] = []" "speeds [Sp_Delay_Until u] = []" "speeds [Sp_Done train] = []"
  by (induction sws) (auto simp: speeds_def switch_cmds_def TrainCommand_def)

lemma subs_at_append: "subs_at sw (xs @ ys) = subs_at sw xs @ subs_at (sw @ switches xs) ys"
proof (induction xs arbitrary: sw)
  case (Cons a xs)
  have "switches (a # xs) = switches [a] @ switches xs" by (simp add: switches_def)
  then show ?case using Cons by (cases a) (auto simp: switches_def split: train_msg.splits)
qed simp

lemma subs_at_none: "\<forall>a \<in> set acts. \<forall>sub. a \<noteq> Sp_Subscribe sub \<Longrightarrow> subs_at sw acts = []"
  by (induction acts arbitrary: sw) (auto split: sp_act.splits)

lemma subs_at_switch_cmds [simp]: "subs_at sw (switch_cmds time sws) = []"
  by (rule subs_at_none) (auto simp: switch_cmds_def)

text \<open>The last loop: all stretches left are sent.\<close>

lemma todo_at:
  assumes "todo tr ss" "0 \<le> tr_j tr"
  obtains b where "rdi (tr_branches tr) (tr_j tr) = Inr b" "b = -1 \<longleftrightarrow> ss = []"
proof -
  consider (finished) pre post where "ss = []" "tr_branches tr = pre @ -1 # post" "tr_j tr = int (length pre)"
    | (more) pre ms post where "tr_branches tr = pre @ map code ms @ -1 # post" "stretches ms = ss"
      "tr_j tr = int (length pre) - 1" "pre \<noteq> [] \<longrightarrow> last pre \<noteq> -1"
    using assms(1) unfolding todo_def by blast
  then show ?thesis
  proof cases
    case finished
    then show ?thesis by (intro that [of "-1"]) (simp_all add: rdi_def)
  next
    case more
    then have pre: "pre \<noteq> []" "0 < length pre" using assms(2) by auto
    have j: "nat (tr_j tr) = length pre - 1" using more(3) by simp
    have "rdi (tr_branches tr) (tr_j tr) = Inr (last pre)"
      using more(1) j pre assms(2) by (simp add: rdi_def nth_append last_conv_nth)
    then show ?thesis by (rule that) (use more(2,4) pre in auto)
  qed
qed

lemma send_rest_ok:
  "todo (sr_train st) ss \<Longrightarrow> 0 \<le> tr_j (sr_train st) \<Longrightarrow> length ss < fuel \<Longrightarrow>
   \<exists>st' j acts. send_rest clock fuel st = Inr st' \<and> sr_train st' = (sr_train st)\<lparr> tr_j := j \<rparr> \<and>
     sr_acts st' = sr_acts st @ acts \<and> switches acts = concat ss \<and> speeds acts = [] \<and> (\<forall>sw. subs_at sw acts = [])"
proof (induction fuel arbitrary: st ss)
  case (Suc fuel)
  obtain b where b: "rdi (tr_branches (sr_train st)) (tr_j (sr_train st)) = Inr b" "b = -1 \<longleftrightarrow> ss = []"
    by (rule todo_at [OF Suc.prems(1,2)])
  show ?case
  proof (cases ss)
    case Nil
    then show ?thesis using b by (intro exI [of _ st] exI [of _ "tr_j (sr_train st)"] exI [of _ "[]"]) simp
  next
    case (Cons s ss')
    obtain j where j: "send_branches clock st = Inr (st\<lparr> sr_reads := sr_reads st + 1,
      sr_acts := sr_acts st @ switch_cmds (clock (sr_reads st)) s, sr_train := (sr_train st)\<lparr> tr_j := j \<rparr> \<rparr>)"
      "todo ((sr_train st)\<lparr> tr_j := j \<rparr>) ss'" "0 \<le> j"
      using send_branches_ok [OF Suc.prems(1), of clock] Cons by auto
    let ?st = "st\<lparr> sr_reads := sr_reads st + 1,
      sr_acts := sr_acts st @ switch_cmds (clock (sr_reads st)) s, sr_train := (sr_train st)\<lparr> tr_j := j \<rparr> \<rparr>"
    obtain st' j' acts where IH: "send_rest clock fuel ?st = Inr st'" "sr_train st' = (sr_train ?st)\<lparr> tr_j := j' \<rparr>"
      "sr_acts st' = sr_acts ?st @ acts" "switches acts = concat ss'" "speeds acts = []" "\<forall>sw. subs_at sw acts = []"
      using Suc.IH [of ?st ss'] j(2,3) Suc.prems(3) Cons by auto
    have "send_rest clock (Suc fuel) st = Inr st'" using b Cons j(1) IH(1) by simp
    then show ?thesis
      using IH Cons by (intro exI [of _ st'] exI [of _ j'] exI [of _ "switch_cmds (clock (sr_reads st)) s @ acts"])
        (simp add: subs_at_append)
  qed
qed simp

subsection \<open>The plan of the stop\<close>

lemma plan_sum: "plan_ok n \<Longrightarrow> unat (n_dist_a n + n_dist_b n) = unat (n_dist_a n) + unat (n_dist_b n)"
proof -
  assume "plan_ok n"
  then have "unat (n_dist_a n) + unat (n_dist_b n) \<le> unat (n_distance n)" unfolding plan_ok_def by blast
  then have "unat (n_dist_a n) + unat (n_dist_b n) < 2 ^ 32" using unat_32 [of "n_distance n"] by linarith
  then show ?thesis by (rule unat_plus_small)
qed

lemma time_before_braking:
  assumes "plan_ok n" "d < n_dist_a n + n_dist_b n"
  obtains t where "find_time n d = Inr t" "unat t \<le> unat (n_time_a n) + unat (n_time_b n)"
proof (cases "d < n_dist_a n")
  case True
  obtain t where "find_time n d = Inr t" "unat t \<le> unat (n_time_a n)"
    by (rule find_time_accelerating [OF assms(1) True]) (rule that)
  then show ?thesis by (intro that) auto
next
  case False
  then have "n_dist_a n \<le> d" by simp
  then show ?thesis by (rule find_time_steady [OF assms(1) _ assms(2)]) (rule that)
qed

lemma plan_loop_ok:
  assumes "i + remaining \<le> length ds" "\<forall>m \<le> i + remaining. sum_list (take m ds) \<le> 1440000000 \<and> 0 \<le> sum_list (take m ds)"
    and "word_of_int (sum_list (take i ds)) < n_dist_a n + n_dist_b n"
  shows "\<exists>k. i \<le> k \<and> k \<le> i + remaining \<and>
    plan_loop n ds i remaining (sum_list (take i ds)) (int i - 1) = Inr (sum_list (take k ds), int k - 1) \<and>
    word_of_int (sum_list (take k ds)) < n_dist_a n + n_dist_b n"
  using assms
proof (induction remaining arbitrary: i)
  case (Suc remaining)
  have i: "i < length ds" using Suc.prems(1) by simp
  have sum: "sum_list (take i ds) + ds ! i = sum_list (take (Suc i) ds)" using i by (simp add: take_Suc_conv_app_nth)
  have bounds: "sum_list (take (Suc i) ds) \<le> 1440000000 \<and> 0 \<le> sum_list (take (Suc i) ds)"
    using Suc.prems(2) by (auto dest!: spec [of _ "Suc i"])
  then have c: "cint (sum_list (take (Suc i) ds)) = Inr (sum_list (take (Suc i) ds))" by (simp add: cint_def)
  show ?case
  proof (cases "word_of_int (sum_list (take (Suc i) ds)) < n_dist_a n + n_dist_b n")
    case True
    have step: "plan_loop n ds i (Suc remaining) (sum_list (take i ds)) (int i - 1) =
        plan_loop n ds (Suc i) remaining (sum_list (take (Suc i) ds)) (int (Suc i) - 1)"
      using True i sum c by simp
    have "\<exists>k. Suc i \<le> k \<and> k \<le> Suc i + remaining \<and>
      plan_loop n ds (Suc i) remaining (sum_list (take (Suc i) ds)) (int (Suc i) - 1) = Inr (sum_list (take k ds), int k - 1) \<and>
      word_of_int (sum_list (take k ds)) < n_dist_a n + n_dist_b n"
      using Suc.IH [of "Suc i"] Suc.prems True by simp
    then show ?thesis unfolding step by fastforce
  next
    case False
    then show ?thesis using i sum c Suc.prems(3) by (intro exI [of _ i]) simp
  qed
qed auto

lemma sint_small:
  assumes "unat (w :: 32 word) < 2 ^ b" "b \<le> 31"
  shows "0 \<le> sint w" "sint w < 2 ^ b"
proof -
  have "int (unat w) < int (2 ^ b)" using assms(1) by (simp only: of_nat_less_iff)
  then have u: "uint w < 2 ^ b" by simp
  moreover have "(2 :: int) ^ b \<le> 2 ^ (LENGTH(32) - Suc 0)" by (rule power_increasing) (use assms(2) in simp_all)
  ultimately have "uint w < 2 ^ (LENGTH(32) - Suc 0)" by linarith
  then have "signed_take_bit (LENGTH(32) - Suc 0) (uint w) = uint w"
    by (rule signed_take_bit_int_eq_self [rotated]) (rule order_trans [of _ 0], simp_all)
  then show "0 \<le> sint w" "sint w < 2 ^ b" unfolding sint_uint using u by simp_all
qed

lemma uint_small: "0 \<le> k \<Longrightarrow> k < 2 ^ 32 \<Longrightarrow> uint (word_of_int k :: 32 word) = k"
  by (simp add: unsigned_of_int take_bit_int_eq_self)

lemma plan_stop_ok:
  assumes "0 < path_dist" "path_dist \<le> 1000000" "0 \<le> tr_train tr" "tr_train tr < int MAX_NUM_TRAINS" "tr_len tr \<le> length (tr_distance tr)"
    and "\<forall>m \<le> tr_len tr. sum_list (take m (tr_distance tr)) \<le> 1440000000 \<and> 0 \<le> sum_list (take m (tr_distance tr))"
  obtains d n k off where "plan_stop path_dist tr = Inr (tr\<lparr> tr_dist := d, tr_n := n, tr_speed := 7,
      tr_stop_marker := int k - 1, tr_stop_offset := off \<rparr>)" "k \<le> tr_len tr" "0 \<le> off" "off < 2 ^ 23" "unat (n_time_c n) < 2 ^ 23"
    "unat (n_time_a n) + unat (n_time_b n) < 2 ^ 23"
proof -
  have d: "cint (path_dist * 1000) = Inr (path_dist * 1000)" using assms(1,2) by (simp add: cint_def)
  have big: "1000 \<le> unat (word_of_int (path_dist * 1000) :: 32 word)"
  proof -
    have "uint (word_of_int (path_dist * 1000) :: 32 word) = path_dist * 1000"
      by (rule uint_small) (use assms(1,2) in simp_all)
    then show ?thesis using assms(1) by (simp add: unat_eq_nat_uint)
  qed
  obtain n where n: "create_neutron (tr_train tr) (word_of_int (path_dist * 1000)) False = Inr n" "plan_ok n" "n_speed n = 7"
    "unat (n_time_a n) + unat (n_time_b n) < 2 ^ 23" "unat (n_time_c n) < 2 ^ 23" "0 < n_dist_a n"
    using create_neutron_ok [OF assms(3,4), of "word_of_int (path_dist * 1000)" False] big by metis
  have "unat (0 :: 32 word) < unat (n_dist_a n + n_dist_b n)"
    using plan_sum [OF n(2)] n(6) by (simp add: word_less_nat_alt)
  then have "(0 :: 32 word) < n_dist_a n + n_dist_b n" by (simp add: word_less_nat_alt)
  then obtain k where k: "k \<le> tr_len tr" "plan_loop n (tr_distance tr) 0 (tr_len tr) 0 (-1) = Inr (sum_list (take k (tr_distance tr)), int k - 1)"
    "word_of_int (sum_list (take k (tr_distance tr))) < n_dist_a n + n_dist_b n"
    using plan_loop_ok [of 0 "tr_len tr" "tr_distance tr" n] assms(5,6) by auto
  obtain t where t: "find_time n (word_of_int (sum_list (take k (tr_distance tr)))) = Inr t"
    "unat t \<le> unat (n_time_a n) + unat (n_time_b n)"
    by (rule time_before_braking [OF n(2) k(3)])
  have sum: "unat (n_time_a n + n_time_b n) = unat (n_time_a n) + unat (n_time_b n)"
    by (rule unat_plus_small) (use n(4) in simp)
  then have "unat (n_time_a n + n_time_b n - t) = unat (n_time_a n) + unat (n_time_b n) - unat t"
    using t(2) unat_sub [of t "n_time_a n + n_time_b n"] by (simp add: word_le_nat_alt)
  then have small: "unat (n_time_a n + n_time_b n - t) < 2 ^ 23" using n(4) by simp
  have "plan_stop path_dist tr = Inr (tr\<lparr> tr_dist := path_dist * 1000, tr_n := n, tr_speed := 7,
      tr_stop_marker := int k - 1, tr_stop_offset := sint (n_time_a n + n_time_b n - t) \<rparr>)"
    using d n(1,3) k(2) t(1) by (simp add: plan_stop_def)
  then show ?thesis
    by (rule that [OF _ k(1)]) (rule sint_small [OF small], simp, rule sint_small [OF small], simp, rule n(5), rule n(4))
qed
subsection \<open>Following the train\<close>

text \<open>The plan stays as it is while the train is followed.\<close>

definition same_plan :: "train_record \<Rightarrow> train_record \<Rightarrow> bool" where
  "same_plan tr0 tr \<longleftrightarrow> tr = tr0\<lparr> tr_time := tr_time tr, tr_j := tr_j tr \<rparr> \<and> length (tr_time tr) = 160 \<and>
     (\<forall>k < 160. -100 \<le> tr_time tr ! k \<and> tr_time tr ! k < 2 ^ 30)"

lemma same_plan_j: "same_plan tr0 tr \<Longrightarrow> same_plan tr0 (tr\<lparr> tr_j := j \<rparr>)"
  by (cases tr0, cases tr) (simp add: same_plan_def)

lemma same_plan_time:
  "same_plan tr0 tr \<Longrightarrow> -100 \<le> x \<Longrightarrow> x < 2 ^ 30 \<Longrightarrow> same_plan tr0 (tr\<lparr> tr_time := (tr_time tr)[i := x] \<rparr>)"
  by (cases tr0, cases tr) (auto simp: same_plan_def nth_update)

lemma same_planD:
  assumes "same_plan tr0 tr"
  shows "tr_next tr = tr_next tr0" "tr_len tr = tr_len tr0" "tr_train tr = tr_train tr0" "tr_branches tr = tr_branches tr0"
    "tr_n tr = tr_n tr0" "tr_stop_marker tr = tr_stop_marker tr0" "tr_stop_offset tr = tr_stop_offset tr0"
    "length (tr_time tr) = 160" "k < 160 \<Longrightarrow> -100 \<le> tr_time tr ! k" "k < 160 \<Longrightarrow> tr_time tr ! k < 2 ^ 30"
  using assms by (cases tr0, cases tr, simp add: same_plan_def)+

definition sub_fits :: "train_record \<Rightarrow> (int \<times> int) list list \<Rightarrow> dispatch_request \<times> (int \<times> int) list \<Rightarrow> bool" where
  "sub_fits tr ss = (\<lambda>(sub, sw). \<exists>i < tr_len tr. \<exists>more.
     sub = SUBSCRIBE_SENSOR_LIST (tr_next tr ! i # more) (int (length more + 1)) (tr_train tr) \<and> sw = concat (take (i + 2) ss))"

text \<open>After \<open>m\<close> stretches have been sent.\<close>

definition sent_ok :: "train_record \<Rightarrow> (int \<times> int) list list \<Rightarrow> nat \<Rightarrow> sp_round \<Rightarrow> bool" where
  "sent_ok tr0 ss m st \<longleftrightarrow> todo (sr_train st) (drop m ss) \<and> switches (sr_acts st) = concat (take m ss) \<and>
     (\<forall>s \<in> set (subs_at [] (sr_acts st)). sub_fits tr0 ss s)"

lemma take_drop_hd: "concat (take (Suc m) ss) = concat (take m ss) @ (if drop m ss = [] then [] else hd (drop m ss))"
  by (cases "m < length ss") (simp_all add: take_Suc_conv_app_nth hd_drop_conv_nth)

lemma send_round:
  assumes "sent_ok tr0 ss m st" "same_plan tr1 (sr_train st)"
  obtains st' where "send_branches clock st = Inr st'" "sent_ok tr0 ss (Suc m) st'" "same_plan tr1 (sr_train st')"
    "0 \<le> tr_j (sr_train st')" "speeds (sr_acts st') = speeds (sr_acts st)" "sr_answers st' = sr_answers st"
    "sr_reads st' = sr_reads st + 1" "tr_time (sr_train st') = tr_time (sr_train st)"
proof -
  have sent: "todo (sr_train st) (drop m ss)" "switches (sr_acts st) = concat (take m ss)"
    "\<forall>s \<in> set (subs_at [] (sr_acts st)). sub_fits tr0 ss s"
    using assms(1) by (simp_all add: sent_ok_def)
  let ?s = "if drop m ss = [] then [] else hd (drop m ss)"
  obtain j where j: "send_branches clock st = Inr (st\<lparr> sr_reads := sr_reads st + 1,
      sr_acts := sr_acts st @ switch_cmds (clock (sr_reads st)) ?s, sr_train := (sr_train st)\<lparr> tr_j := j \<rparr> \<rparr>)"
    "todo ((sr_train st)\<lparr> tr_j := j \<rparr>) (tl (drop m ss))" "0 \<le> j"
    using send_branches_ok [OF sent(1), of clock] by blast
  have "tl (drop m ss) = drop (Suc m) ss" by (simp add: drop_Suc tl_drop)
  then show ?thesis
    by (intro that [OF j(1)])
      (use j assms(2) sent in \<open>auto simp: sent_ok_def take_drop_hd subs_at_append same_plan_j\<close>)
qed

text \<open>An answer of the dispatch server: sensors, and a time before 2^30.\<close>

definition answer_ok :: "int list \<times> 32 word \<Rightarrow> bool" where
  "answer_ok = (\<lambda>(sensors, time). sensors \<noteq> [] \<and> unat time < 2 ^ 30)"

lemma follow_loop_ok:
  assumes "sent_ok tr0 ss (i + 2) st" "same_plan tr0 (sr_train st)" "0 \<le> tr_j (sr_train st)"
    and "i + remaining \<le> tr_len tr0" "tr_len tr0 \<le> 144" "length (tr_next tr0) = 160"
    and "remaining \<le> length (sr_answers st)" "\<forall>a \<in> set (sr_answers st). answer_ok a" "skip \<longrightarrow> answer_ok res"
  shows "\<exists>st'. follow_loop clock i remaining skip res st = Inr st' \<and> sent_ok tr0 ss (i + remaining + 2) st' \<and>
    same_plan tr0 (sr_train st') \<and> 0 \<le> tr_j (sr_train st') \<and> speeds (sr_acts st') = speeds (sr_acts st)"
  using assms
proof (induction remaining arbitrary: i skip res st)
  case 0
  then show ?case by simp
next
  case (Suc remaining)
  let ?tr = "sr_train st" and ?next = "tr_next tr0 ! i"
  note plan = same_planD [OF Suc.prems(2)]
  have i: "i < tr_len tr0" "i < 160" using Suc.prems(4,5) by simp_all
  define sensors where "sensors = (if i + 1 < tr_len tr0 then [?next, tr_next tr0 ! (i + 1)] else [?next])"
  have rd: "rd (tr_next ?tr) i = Inr ?next"
    "(if i + 1 < tr_len ?tr then cbind (rd (tr_next ?tr) (i + 1)) (\<lambda>after. Inr [?next, after]) else Inr [?next]) = Inr sensors"
    using plan(1,2) i Suc.prems(5,6) by (simp_all add: sensors_def)
  obtain res' st1 where sub: "(if skip then Inr (res, st) else subscribe sensors (tr_train ?tr) st) = Inr (res', st1)" "answer_ok res'"
    "sent_ok tr0 ss (i + 2) st1" "sr_train st1 = ?tr" "speeds (sr_acts st1) = speeds (sr_acts st)"
    "remaining \<le> length (sr_answers st1)" "\<forall>a \<in> set (sr_answers st1). answer_ok a"
  proof (cases skip)
    case True
    then show ?thesis using that [of res st] Suc.prems by simp
  next
    case False
    obtain a as where as: "sr_answers st = a # as" using Suc.prems(7) by (cases "sr_answers st") auto
    let ?sub = "SUBSCRIBE_SENSOR_LIST sensors (int (length sensors)) (tr_train ?tr)"
    let ?st = "(emit (Sp_Subscribe ?sub) st)\<lparr> sr_answers := as \<rparr>"
    have "sub_fits tr0 ss (?sub, concat (take (i + 2) ss))"
      using i(1) plan(3) unfolding sub_fits_def prod.case sensors_def
      by (intro exI [of _ i] conjI exI [of _ "if i + 1 < tr_len tr0 then [tr_next tr0 ! (i + 1)] else []"]) simp_all
    then have "sent_ok tr0 ss (i + 2) ?st"
      using Suc.prems(1) by (auto simp: sent_ok_def emit_def subs_at_append)
    then show ?thesis
      using that [of a ?st] False as Suc.prems(7,8) by (simp add: subscribe_def emit_def)
  qed
  let ?ts = "(tr_time ?tr)[i := sint (snd res') - (if i = 0 then 100 else 0)]"
  have times: "0 \<le> sint (snd res')" "sint (snd res') < 2 ^ 30"
    using sub(2) sint_small [of "snd res'" 30] by (auto simp: answer_ok_def split: prod.splits)
  have wr: "wr (tr_time ?tr) i (sint (snd res') - (if i = 0 then 100 else 0)) = Inr ?ts"
    using plan(8) i(2) by simp
  have "fst res' \<noteq> []" using sub(2) by (auto simp: answer_ok_def split: prod.splits)
  then have trig: "rd (fst res') 0 = Inr (fst res' ! 0)" by simp
  let ?st = "st1\<lparr> sr_train := ?tr\<lparr> tr_time := ?ts \<rparr> \<rparr>"
  have sp: "same_plan tr0 (sr_train ?st)"
    using same_plan_time [OF Suc.prems(2), of "sint (snd res') - (if i = 0 then 100 else 0)" i] times by (auto split: if_splits)
  have "sent_ok tr0 ss (i + 2) ?st" using sub(3,4) by (simp add: sent_ok_def todo_def)
  from send_round [OF this sp, of clock]
  obtain st2 where st2: "send_branches clock ?st = Inr st2" "sent_ok tr0 ss (Suc (i + 2)) st2" "same_plan tr0 (sr_train st2)"
    "0 \<le> tr_j (sr_train st2)" "speeds (sr_acts st2) = speeds (sr_acts ?st)" "sr_answers st2 = sr_answers ?st" by blast
  let ?skip = "i + 1 < tr_len tr0 \<and> fst res' ! 0 = sensors ! 1"
  have step: "follow_loop clock i (Suc remaining) skip res st = follow_loop clock (i + 1) remaining ?skip res' st2"
    unfolding follow_loop.simps Let_def rd wr trig sub(1) cbind_simps prod.case st2(1) using plan(2) by simp
  have "\<exists>st'. follow_loop clock (i + 1) remaining ?skip res' st2 = Inr st' \<and> sent_ok tr0 ss (i + 1 + remaining + 2) st' \<and>
    same_plan tr0 (sr_train st') \<and> 0 \<le> tr_j (sr_train st') \<and> speeds (sr_acts st') = speeds (sr_acts st2)"
    by (rule Suc.IH) (use st2 sub Suc.prems(4-6) in simp_all)
  then show ?case unfolding step using st2(5) sub(5) by simp
qed

text \<open>Whatever the case, the switches are sent as far as the train has come, and the time of the stop does not overflow.\<close>

lemma follow_train_ok:
  assumes sent: "sent_ok tr ss 2 st" and plan: "same_plan tr (sr_train st)" and j: "0 \<le> tr_j (sr_train st)"
    and tr: "tr_stop_marker tr = int k - 1" "k \<le> tr_len tr" "tr_len tr \<le> 144" "length (tr_next tr) = 160"
      "0 \<le> tr_stop_offset tr" "tr_stop_offset tr < 2 ^ 23" "unat (n_time_c (tr_n tr)) < 2 ^ 23"
      "unat (n_time_a (tr_n tr)) + unat (n_time_b (tr_n tr)) < 2 ^ 23" "0 \<le> tr_train tr" "tr_train tr < int MAX_NUM_TRAINS"
    and answers: "tr_len tr \<le> length (sr_answers st)" "\<forall>a \<in> set (sr_answers st). answer_ok a"
    and start: "0 \<le> start" "start < 2 ^ 30"
  shows "\<exists>marker_time st' m. follow_train clock start st = Inr (marker_time, st') \<and> sent_ok tr ss m st' \<and>
    -100 \<le> marker_time \<and> marker_time < 2 ^ 30 \<and> 0 \<le> tr_j (sr_train st') \<and> speeds (sr_acts st') = speeds (sr_acts st) \<and>
    0 \<le> tr_stop_offset (sr_train st') \<and> tr_stop_offset (sr_train st') < 2 ^ 23 \<and> unat (n_time_c (tr_n (sr_train st'))) < 2 ^ 23"
proof -
  note same = same_planD [OF plan]
  consider (short) "n_dist_b (tr_n tr) = 0 \<and> tr_len tr \<noteq> 0" | (far) "\<not> (n_dist_b (tr_n tr) = 0 \<and> tr_len tr \<noteq> 0)" "k \<noteq> 0"
    | (none) "\<not> (n_dist_b (tr_n tr) = 0 \<and> tr_len tr \<noteq> 0)" "k = 0" by blast
  then show ?thesis
  proof cases
    case short
    obtain a as where as: "sr_answers st = a # as" using answers(1) short by (cases "sr_answers st") auto
    let ?sub = "SUBSCRIBE_SENSOR_LIST [tr_next tr ! 0] 1 (tr_train tr)"
    let ?lag = "snd a - 100 - word_of_int start"
    obtain n where n: "adjust_offset (tr_n tr) (tr_train tr) ?lag = Inr n" "unat (n_time_c n) < 2 ^ 23"
      "unat (n_time_a n) + unat (n_time_b n) < 2 ^ 23"
    proof (cases "sint ?lag < 0")
      case True
      then show ?thesis using that [of "tr_n tr"] tr by (simp add: adjust_offset_def)
    next
      case False
      obtain n where "create_neutron (tr_train tr) (n_distance (tr_n tr) + n_accel (tr_n tr) * ?lag * ?lag div 2000) True = Inr n"
        "unat (n_time_c n) < 2 ^ 23" "unat (n_time_a n) + unat (n_time_b n) < 2 ^ 23"
        by (rule create_neutron_ok [OF tr(9,10)]) (rule that)
      then show ?thesis using that False by (simp add: adjust_offset_def)
    qed
    have "unat (n_time_a n + n_time_b n) = unat (n_time_a n) + unat (n_time_b n)"
      by (rule unat_plus_small) (use n(3) in simp)
    then have small: "unat (n_time_a n + n_time_b n) < 2 ^ 23" using n(3) by simp
    let ?st = "((emit (Sp_Subscribe ?sub) st)\<lparr> sr_answers := as \<rparr>)
      \<lparr> sr_train := (sr_train st)\<lparr> tr_n := n, tr_stop_offset := sint (n_time_a n + n_time_b n) \<rparr> \<rparr>"
    have "tr_next tr \<noteq> []" using tr(4) by auto
    then have run: "follow_train clock start st = Inr (start, ?st)"
      using short same n(1) as by (simp add: follow_train_def subscribe_def emit_def Let_def)
    have "sub_fits tr ss (?sub, concat (take 2 ss))"
      using short unfolding sub_fits_def prod.case by (intro exI [of _ 0] conjI exI [of _ "[]"]) (simp_all add: numeral_2_eq_2)
    then have "sent_ok tr ss 2 ?st"
      using sent by (auto simp: sent_ok_def emit_def subs_at_append todo_def)
    then show ?thesis
      using run start j n(2) sint_small [OF small] by (intro exI [of _ start] exI [of _ ?st] exI [of _ 2]) (simp add: emit_def)
  next
    case far
    have sent2: "sent_ok tr ss (0 + 2) st" using sent by (simp only: add_0)
    have "\<exists>st'. follow_loop clock 0 k False ([], 0) st = Inr st' \<and> sent_ok tr ss (0 + k + 2) st' \<and>
        same_plan tr (sr_train st') \<and> 0 \<le> tr_j (sr_train st') \<and> speeds (sr_acts st') = speeds (sr_acts st)"
      by (rule follow_loop_ok [OF sent2 plan j]) (use tr answers in simp_all)
    then obtain st' where st': "follow_loop clock 0 k False ([], 0) st = Inr st'" "sent_ok tr ss (k + 2) st'"
      "same_plan tr (sr_train st')" "0 \<le> tr_j (sr_train st')" "speeds (sr_acts st') = speeds (sr_acts st)" by auto
    note same' = same_planD [OF st'(3)]
    have k: "k - 1 < 160" "nat (int k - 1) = k - 1" "nat (int k - 1 + 1) = k" "0 \<le> int k - 1" using far(2) tr(2,3) by auto
    have "rdi (tr_time (sr_train st')) (int k - 1) = Inr (tr_time (sr_train st') ! (k - 1))"
      using k same'(8) by (simp add: rdi_def)
    then have "follow_train clock start st = Inr (tr_time (sr_train st') ! (k - 1), st')"
      using far same st'(1) k(3,4) tr(1) by (auto simp: follow_train_def Let_def)
    then show ?thesis using st' same' k(1) tr by auto
  next
    case none
    then have "follow_train clock start st = Inr (start, st)"
      using same tr(1) by (auto simp: follow_train_def Let_def)
    then show ?thesis using sent j start same tr by auto
  qed
qed
subsection \<open>A round\<close>

lemma marks_ok:
  assumes "track_fit t" "piece_ok t path n"
  shows "m \<le> n \<Longrightarrow> list_all mark_ok (marks t path n m)"
proof (induction m)
  case (Suc m)
  have "nat (path ! m) < length t" using assms(2) Suc.prems by (simp add: piece_ok_def)
  then have "node_fit (length t) (t ! nat (path ! m))" using assms(1) by (simp add: track_fit_def list_all_length)
  then have "list_all mark_ok (marks_at t path n m)" by (auto simp: marks_at_def Let_def node_fit_def)
  then show ?case using Suc by (simp add: marks_Suc)
qed (simp add: marks_def)

text \<open>The part before the train starts.\<close>

lemma round_start:
  assumes "track_fit t" "piece_ok t path n" "record_ok tr" "0 \<le> tr_train tr" "tr_train tr < int MAX_NUM_TRAINS"
    and "0 < path_dist" "path_dist \<le> 1000000" "ms = marks t path n n" "ss = stretches ms"
  obtains tr2 st k where "straightpath_round t clock tr path n path_dist delay_time answers = drive clock tr2 st"
    "sent_ok tr2 ss 2 st" "same_plan tr2 (sr_train st)" "0 \<le> tr_j (sr_train st)" "tr_stop_marker tr2 = int k - 1" "k \<le> tr_len tr2"
    "tr_len tr2 = length (sensors_of ms)" "tr_len tr2 \<le> 144" "length (tr_next tr2) = 160" "take (tr_len tr2) (tr_next tr2) = sensors_of ms"
    "0 \<le> tr_stop_offset tr2" "tr_stop_offset tr2 < 2 ^ 23" "unat (n_time_c (tr_n tr2)) < 2 ^ 23"
    "unat (n_time_a (tr_n tr2)) + unat (n_time_b (tr_n tr2)) < 2 ^ 23" "tr_train tr2 = tr_train tr" "tr_speed tr2 = 7"
    "length (tr_branches tr2) = 2 * TRACK_MAX" "sr_reads st = 2" "speeds (sr_acts st) = []" "sr_answers st = answers"
proof -
  let ?tr = "tr\<lparr> tr_time := replicate 160 0 \<rparr>"
  have rec: "record_ok ?tr" using assms(3) by (simp add: record_ok_def)
  obtain ns ds bs where read: "process_path t ?tr path n =
      Inr (?tr\<lparr> tr_next := ns, tr_distance := ds, tr_branches := bs, tr_len := length (sensors_of ms) \<rparr>)"
    "length ns = 160" "length ds = 160" "length bs = 2 * TRACK_MAX" "take (length (sensors_of ms)) ns = sensors_of ms"
    "length (sensors_of ms) \<le> n" "take (length ms + 1) bs = map code ms @ [-1]" "length ms \<le> n"
    "\<forall>m \<le> length (sensors_of ms). sum_list (take m ds) \<le> 1440000000 \<and> 0 \<le> sum_list (take m ds)"
    by (rule process_path_ok [OF assms(1,2) rec, folded assms(8)])
  have n144: "n \<le> 144" using assms(2) by (simp add: piece_ok_def TRACK_MAX_def)
  let ?tr1 = "?tr\<lparr> tr_next := ns, tr_distance := ds, tr_branches := bs, tr_len := length (sensors_of ms), tr_j := -1 \<rparr>"
  obtain d nn k off where plan: "plan_stop path_dist ?tr1 = Inr (?tr1\<lparr> tr_dist := d, tr_n := nn, tr_speed := 7,
      tr_stop_marker := int k - 1, tr_stop_offset := off \<rparr>)" "k \<le> length (sensors_of ms)" "0 \<le> off" "off < 2 ^ 23"
    "unat (n_time_c nn) < 2 ^ 23" "unat (n_time_a nn) + unat (n_time_b nn) < 2 ^ 23"
    by (rule plan_stop_ok [of path_dist ?tr1]) (use assms(4-7) read(3,6,9) n144 in auto)
  define tr2 where "tr2 = ?tr1\<lparr> tr_dist := d, tr_n := nn, tr_speed := 7, tr_stop_marker := int k - 1, tr_stop_offset := off \<rparr>"
  have sel: "tr_train tr2 = tr_train tr" "tr_speed tr2 = 7" "tr_len tr2 = length (sensors_of ms)" "tr_next tr2 = ns" "tr_branches tr2 = bs"
    "tr_stop_marker tr2 = int k - 1" "tr_stop_offset tr2 = off" "tr_n tr2 = nn" "tr_time tr2 = replicate 160 0" "tr_j tr2 = -1"
    by (simp_all add: tr2_def)
  let ?st0 = "sp_start delay_time tr2 answers"
  have "bs = [] @ map code ms @ -1 # drop (length ms + 1) bs"
    using append_take_drop_id [of "length ms + 1" bs] unfolding read(7) by simp
  moreover have "list_all mark_ok ms" unfolding assms(8) by (rule marks_ok [OF assms(1,2) le_refl])
  ultimately have "todo tr2 ss" unfolding todo_def using sel
    by (intro disjI2 exI [of _ "[]"] exI [of _ ms] exI [of _ "drop (length ms + 1) bs"]) (simp add: assms(9))
  then have sent0: "sent_ok tr2 ss 0 ?st0" by (simp add: sent_ok_def sp_start_def)
  have plan0: "same_plan tr2 (sr_train ?st0)" using sel by (simp add: same_plan_def sp_start_def)
  obtain st1 where st1: "send_branches clock ?st0 = Inr st1" "sent_ok tr2 ss (Suc 0) st1" "same_plan tr2 (sr_train st1)"
    "speeds (sr_acts st1) = speeds (sr_acts ?st0)" "sr_answers st1 = sr_answers ?st0" "sr_reads st1 = sr_reads ?st0 + 1"
    using send_round [OF sent0 plan0, of clock] by metis
  obtain st2 where st2: "send_branches clock st1 = Inr st2" "sent_ok tr2 ss (Suc (Suc 0)) st2" "same_plan tr2 (sr_train st2)"
    "0 \<le> tr_j (sr_train st2)" "speeds (sr_acts st2) = speeds (sr_acts st1)" "sr_answers st2 = sr_answers st1"
    "sr_reads st2 = sr_reads st1 + 1"
    using send_round [OF st1(2,3), of clock] by metis
  have run: "straightpath_round t clock tr path n path_dist delay_time answers = drive clock tr2 st2"
    using assms(6) read(1) plan(1) st1(1) st2(1) by (simp add: straightpath_round_def tr2_def [symmetric])
  have "sent_ok tr2 ss 2 st2" using st2(2) by (simp add: numeral_2_eq_2)
  then show ?thesis
    by (rule that [OF run]) (use sel plan read st1 st2 n144 in \<open>simp_all add: sp_start_def\<close>)
qed

text \<open>The drive.\<close>

lemma drive_ok:
  fixes clock :: "nat \<Rightarrow> int"
  assumes sent: "sent_ok tr ss 2 st" and plan: "same_plan tr (sr_train st)" and j: "0 \<le> tr_j (sr_train st)"
    and tr: "tr_stop_marker tr = int k - 1" "k \<le> tr_len tr" "tr_len tr \<le> 144" "length (tr_next tr) = 160"
      "0 \<le> tr_stop_offset tr" "tr_stop_offset tr < 2 ^ 23" "unat (n_time_c (tr_n tr)) < 2 ^ 23"
      "unat (n_time_a (tr_n tr)) + unat (n_time_b (tr_n tr)) < 2 ^ 23" "tr_train tr = train" "tr_speed tr = 7"
      "length (tr_branches tr) = 2 * TRACK_MAX" "sr_reads st = 2" "speeds (sr_acts st) = []"
    and answers: "\<forall>k. 0 \<le> clock k \<and> clock k < 2 ^ 30" "0 \<le> train" "train < int MAX_NUM_TRAINS" "tr_len tr \<le> length (sr_answers st)"
      "\<forall>a \<in> set (sr_answers st). answer_ok a" "length ss \<le> 2 * TRACK_MAX"
  obtains st' acts stop until where "drive clock tr st = Inr st'" "switches (sr_acts st') = concat ss"
    "\<forall>s \<in> set (subs_at [] (sr_acts st')). sub_fits tr ss s" "speeds (sr_acts st') = [(train, 7, clock 2), (train, 0, stop)]"
    "sr_acts st' = acts @ [Sp_Delay_Until until, Sp_Done train]" "stop \<le> until"
proof -
  let ?st1 = "emit (Sp_Command (TrainCommand (clock 2) SPEED train 7)) (st\<lparr> sr_reads := 3 \<rparr>)"
  have sent1: "sent_ok tr ss 2 ?st1" using sent by (auto simp: sent_ok_def emit_def subs_at_append)
  have "\<exists>marker_time st' m. follow_train clock (clock 2) ?st1 = Inr (marker_time, st') \<and> sent_ok tr ss m st' \<and>
    -100 \<le> marker_time \<and> marker_time < 2 ^ 30 \<and> 0 \<le> tr_j (sr_train st') \<and> speeds (sr_acts st') = speeds (sr_acts ?st1) \<and>
    0 \<le> tr_stop_offset (sr_train st') \<and> tr_stop_offset (sr_train st') < 2 ^ 23 \<and> unat (n_time_c (tr_n (sr_train st'))) < 2 ^ 23"
    by (rule follow_train_ok [OF sent1 _ _ tr(1-8)]) (use plan j tr answers in \<open>simp_all add: emit_def\<close>)
  then obtain marker_time st2 m where st2: "follow_train clock (clock 2) ?st1 = Inr (marker_time, st2)" "sent_ok tr ss m st2"
    "-100 \<le> marker_time" "marker_time < 2 ^ 30" "0 \<le> tr_j (sr_train st2)" "speeds (sr_acts st2) = speeds (sr_acts ?st1)"
    "0 \<le> tr_stop_offset (sr_train st2)" "tr_stop_offset (sr_train st2) < 2 ^ 23" "unat (n_time_c (tr_n (sr_train st2))) < 2 ^ 23"
    by blast
  define stop where "stop = marker_time + tr_stop_offset (sr_train st2)"
  have stop: "cint stop = Inr stop" using st2(3,4,7,8) by (simp add: cint_def stop_def)
  let ?st3 = "(emit (Sp_Command (TrainCommand stop SPEED train 0)) st2)\<lparr> sr_train := (sr_train st2)\<lparr> tr_stop_marker := -1 \<rparr> \<rparr>"
  have todo3: "todo (sr_train ?st3) (drop m ss)" "0 \<le> tr_j (sr_train ?st3)" using st2(2,5) by (simp_all add: sent_ok_def emit_def todo_def)
  have fuel: "length (drop m ss) < length (tr_branches tr) + 1" using answers(6) tr(11) by simp
  obtain st4 j rest where st4: "send_rest clock (length (tr_branches tr) + 1) ?st3 = Inr st4" "sr_train st4 = (sr_train ?st3)\<lparr> tr_j := j \<rparr>"
    "sr_acts st4 = sr_acts ?st3 @ rest" "switches rest = concat (drop m ss)" "speeds rest = []" "\<forall>sw. subs_at sw rest = []"
    using send_rest_ok [OF todo3 fuel, of clock] by blast
  define until where "until = stop + sint (n_time_c (tr_n (sr_train st2)))"
  have c: "0 \<le> sint (n_time_c (tr_n (sr_train st2)))" "sint (n_time_c (tr_n (sr_train st2))) < 2 ^ 23"
    using sint_small [OF st2(9)] by simp_all
  have until: "cint until = Inr until" using st2(3,4,7,8) c by (simp add: cint_def until_def stop_def)
  let ?st = "emit (Sp_Done train) (emit (Sp_Delay_Until until) st4)"
  have run: "drive clock tr st = Inr ?st"
    using tr(9,10,12) st2(1) stop st4(1,2) until by (simp add: drive_def Let_def stop_def until_def emit_def)
  have acts: "sr_acts ?st = sr_acts st2 @ [Sp_Command (TrainCommand stop SPEED train 0)] @ rest @ [Sp_Delay_Until until] @ [Sp_Done train]"
    using st4(3) by (simp add: emit_def)
  have sent2: "switches (sr_acts st2) = concat (take m ss)" "\<forall>s \<in> set (subs_at [] (sr_acts st2)). sub_fits tr ss s"
    using st2(2) by (simp_all add: sent_ok_def)
  have "concat (take m ss) @ concat (drop m ss) = concat ss" by (metis append_take_drop_id concat_append)
  then have sw: "switches (sr_acts ?st) = concat ss" unfolding acts by (simp only: switches_simps sent2(1) st4(4) append_Nil append_Nil2)
  have subs: "\<forall>s \<in> set (subs_at [] (sr_acts ?st)). sub_fits tr ss s"
    unfolding acts subs_at_append using st4(6) sent2(2) by simp
  have sp: "speeds (sr_acts ?st) = [(train, 7, clock 2), (train, 0, stop)]"
    proof -
    have "speeds (sr_acts st2) = [(train, 7, clock 2)]" using st2(6) tr(13) by (simp add: emit_def)
    then show ?thesis unfolding acts by (simp only: speeds_simps st4(5) append_Nil append_Nil2) simp
  qed
  have "sr_acts ?st = (sr_acts st2 @ [Sp_Command (TrainCommand stop SPEED train 0)] @ rest) @ [Sp_Delay_Until until, Sp_Done train]"
    unfolding acts by simp
  then show ?thesis by (rule that [OF run sw subs sp]) (use c(1) in \<open>simp add: until_def\<close>)
qed

text \<open>
  C31: A worker that gets a piece of track of up to 144 nodes and a kilometre always brings the round to its end, without a fault or an
  overflow, whatever the sensors report. It sets every switch of the piece, once, in the order of the path and in the direction of
  the path; whenever it waits for a sensor the switches up to the next sensor but one have been sent, so
  the train never runs onto a switch that is still to be set; it starts the train once, stops it once, and reports
  only after the train has come to a stop.
\<close>

theorem straightpath_switches:
  assumes "track_fit t" "piece_ok t path n" "record_ok tr" "0 \<le> tr_train tr" "tr_train tr < int MAX_NUM_TRAINS"
    and "0 < path_dist" "path_dist \<le> 1000000" "\<forall>k. 0 \<le> clock k \<and> clock k < 2 ^ 30"
    and "length (sensors_of (marks t path n n)) \<le> length answers" "\<forall>a \<in> set answers. answer_ok a"
  shows "\<exists>st acts stop until. straightpath_round t clock tr path n path_dist delay_time answers = Inr st \<and>
    switches (sr_acts st) = concat (stretches (marks t path n n)) \<and>
    (\<forall>(sub, sw) \<in> set (subs_at [] (sr_acts st)). \<exists>i < length (sensors_of (marks t path n n)). \<exists>more.
       sub = SUBSCRIBE_SENSOR_LIST (sensors_of (marks t path n n) ! i # more) (int (length more + 1)) (tr_train tr) \<and>
       sw = concat (take (i + 2) (stretches (marks t path n n)))) \<and>
    speeds (sr_acts st) = [(tr_train tr, 7, clock 2), (tr_train tr, 0, stop)] \<and>
    sr_acts st = acts @ [Sp_Delay_Until until, Sp_Done (tr_train tr)] \<and> stop \<le> until"
proof -
  define ms where "ms = marks t path n n"
  define ss where "ss = stretches ms"
  obtain tr2 st2 k where start: "straightpath_round t clock tr path n path_dist delay_time answers = drive clock tr2 st2"
    "sent_ok tr2 ss 2 st2" "same_plan tr2 (sr_train st2)" "0 \<le> tr_j (sr_train st2)" "tr_stop_marker tr2 = int k - 1" "k \<le> tr_len tr2"
    "tr_len tr2 = length (sensors_of ms)" "tr_len tr2 \<le> 144" "length (tr_next tr2) = 160" "take (tr_len tr2) (tr_next tr2) = sensors_of ms"
    "0 \<le> tr_stop_offset tr2" "tr_stop_offset tr2 < 2 ^ 23" "unat (n_time_c (tr_n tr2)) < 2 ^ 23"
    "unat (n_time_a (tr_n tr2)) + unat (n_time_b (tr_n tr2)) < 2 ^ 23" "tr_train tr2 = tr_train tr" "tr_speed tr2 = 7"
    "length (tr_branches tr2) = 2 * TRACK_MAX" "sr_reads st2 = 2" "speeds (sr_acts st2) = []" "sr_answers st2 = answers"
    by (rule round_start [OF assms(1-7) ms_def ss_def])
  obtain st acts stop until where "drive clock tr2 st2 = Inr st" "switches (sr_acts st) = concat ss"
    "\<forall>s \<in> set (subs_at [] (sr_acts st)). sub_fits tr2 ss s"
    "speeds (sr_acts st) = [(tr_train tr, 7, clock 2), (tr_train tr, 0, stop)]"
    "sr_acts st = acts @ [Sp_Delay_Until until, Sp_Done (tr_train tr)]" "stop \<le> until"
    by (rule drive_ok [OF start(2-6,8,9,11-19) assms(8,4,5)])
      (use start(7,8,20) assms(9,10) length_stretches [of ms] in \<open>auto simp: ss_def ms_def TRACK_MAX_def\<close>)
  moreover have "sub_fits tr2 ss s \<longleftrightarrow> (case s of (sub, sw) \<Rightarrow> \<exists>i < length (sensors_of ms). \<exists>more.
       sub = SUBSCRIBE_SENSOR_LIST (sensors_of ms ! i # more) (int (length more + 1)) (tr_train tr) \<and>
       sw = concat (take (i + 2) ss))" for s
  proof -
    have "tr_next tr2 ! i = sensors_of ms ! i" if "i < length (sensors_of ms)" for i
      using start(7,10) that by (metis nth_take)
    then show ?thesis unfolding sub_fits_def start(7,15) by (auto split: prod.splits)
  qed
  ultimately show ?thesis using start(1) unfolding ss_def ms_def by (intro exI [of _ st] exI [of _ acts] exI [of _ stop] exI [of _ until]) simp
qed

theorem straightpath_switches_witness:
  "\<exists>st. straightpath_round tracka_boot (\<lambda>k. 500 + int (k mod 1000))
      \<lparr> tr_train = 2, tr_speed = 0, tr_n = \<lparr> n_speed = 0, n_distance = 0, n_time_a = 0, n_dist_a = 0,
          n_time_b = 0, n_dist_b = 0, n_time_c = 0, n_accel = 0, n_deaccel = 0, n_steady = 0 \<rparr>, tr_time = replicate 160 7, tr_distance = replicate 160 7, tr_next = replicate 160 7,
        tr_len = 0, tr_branches = replicate (2 * TRACK_MAX) 7, tr_j = 0, tr_dist = 0, tr_stop_marker = 0, tr_stop_offset = 0 \<rparr>
      [71, 45, 100, 107] 4 1413 0 [([71], 650), ([45], 800)] = Inr st \<and>
    switches (sr_acts st) = [(11, 1), (14, 0)]"
proof -
  let ?path = "[71, 45, 100, 107 :: int]"
  let ?tr = "\<lparr> tr_train = 2, tr_speed = 0, tr_n = \<lparr> n_speed = 0, n_distance = 0, n_time_a = 0, n_dist_a = 0,
          n_time_b = 0, n_dist_b = 0, n_time_c = 0, n_accel = 0, n_deaccel = 0, n_steady = 0 \<rparr>, tr_time = replicate 160 7, tr_distance = replicate 160 7, tr_next = replicate 160 7,
        tr_len = 0, tr_branches = replicate (2 * TRACK_MAX) 7, tr_j = 0, tr_dist = 0, tr_stop_marker = 0, tr_stop_offset = 0 \<rparr>"
  have nodes: "tracka_boot ! 71 = init_tracka ! 71" "tracka_boot ! 45 = init_tracka ! 45" "tracka_boot ! 100 = init_tracka ! 100"
    "tracka_boot ! 107 = init_tracka ! 107" "tracka_boot ! 106 = init_tracka ! 106"
    by (simp_all add: tracka_boot_def set_dist_def)
  have len: "length tracka_boot = TRACK_MAX" by (simp add: tracka_boot_def set_dist_def init_tracka_nth TRACK_MAX_def)
  have upt: "[0..<4] = [0, 1, 2, 3 :: nat]" by (simp add: upt_conv_Cons)
  have marks: "marks tracka_boot ?path 4 4 = [Sensor_Mark 71, Sensor_Mark 45, Switch_Mark 11 1, Switch_Mark 14 0]"
    by (simp add: upt marks_def marks_at_def Let_def nodes init_tracka_nth points_to_def)
  have "\<forall>i \<in> set [0..<4]. 0 \<le> ?path ! i \<and> nat (?path ! i) < length tracka_boot \<and> 0 \<le> leg tracka_boot ?path 4 i \<and> leg tracka_boot ?path 4 i \<le> 10000"
    unfolding upt by (simp add: leg_def Let_def nodes init_tracka_nth points_to_def len TRACK_MAX_def)
  then have piece: "piece_ok tracka_boot ?path 4" by (simp add: piece_ok_def TRACK_MAX_def)
  have rec: "record_ok ?tr" by (simp add: record_ok_def)
  have sensors: "length (sensors_of (marks tracka_boot ?path 4 4)) \<le> length [([71 :: int], 650 :: 32 word), ([45], 800)]"
    unfolding marks by simp
  have answers: "\<forall>a \<in> set [([71], 650), ([45], 800)]. answer_ok a" by (simp add: answer_ok_def)
  have trains: "0 \<le> tr_train ?tr" "tr_train ?tr < int MAX_NUM_TRAINS" by (simp_all add: MAX_NUM_TRAINS_def)
  have clock: "\<forall>k. 0 \<le> 500 + int (k mod 1000) \<and> 500 + int (k mod 1000) < 2 ^ 30"
  proof
    fix k :: nat
    have "k mod 1000 < 1000" by simp
    then show "0 \<le> 500 + int (k mod 1000) \<and> 500 + int (k mod 1000) < 2 ^ 30" by simp
  qed
  have "concat (stretches (marks tracka_boot ?path 4 4)) = [(11, 1), (14, 0)]" unfolding marks by simp
  then show ?thesis
    using straightpath_switches [OF track_fit_boot(1) piece rec trains _ _ clock sensors answers, of 1413 0] by auto
qed

end
