(* ===== verification/Shell.thy ===== *)
theory Shell
  imports Navigation_Server Trainserver Dispatchserver Circular_Buffer C_String "HOL-Library.Signed_Division"
begin

section \<open>The shell (src/user/shell.c)\<close>

text \<open>
  The shell reads keys, edits a line of at most 20 characters, cuts it at its spaces, checks the command and either
  queues it (planning mode) or carries out all that is queued. The model is one turn of its loop: the key
  and the state to the new state and what is sent. The tokens point into the line, so that
  cutting it changes what they show; a token that was not set points to an empty string of its own. The clock
  and the answers of the navigation server are arguments, one for each command of the queue. Of
  the output there are the messages that tell why a line is refused and in which mode the shell is; the echo of accepted commands and the
  drawing of the line follow in \<open>Shell_Screen\<close>, but the reading of the track for them is here.
\<close>

subsection \<open>Data\<close>

definition TERMINALMAXINPUTSIZE :: nat where "TERMINALMAXINPUTSIZE = 20"
definition MAX_COMMAND_TOKENS :: nat where "MAX_COMMAND_TOKENS = 6"
definition MAX_PLANNED_COMMANDS :: nat where "MAX_PLANNED_COMMANDS = 10"
definition NUM_SWITCHES :: int where "NUM_SWITCHES = 256"

datatype command =
    COMMAND_TR int int
  | COMMAND_SW int char
  | COMMAND_RV int
  | COMMAND_Q
  | COMMAND_GT int int int
  | COMMAND_DIE
  | COMMAND_REG int int
  | COMMAND_MOCK int
  | COMMAND_RANDOM int int

text \<open>What the shell sends: to the servers, to a new task that drives at random, to the kernel, to the terminal.\<close>

datatype shell_act =
    Shell_Train train_msg
  | Shell_Navigation navigation_request
  | Shell_Dispatch dispatch_request
  | Shell_Random int int
  | Shell_Shutdown
  | Shell_Debug string

record shell =
  sh_input :: "char list"
  sh_len :: nat
  sh_prev_speed :: "int list"
  sh_commands :: "command circular_buffer"
  sh_planning :: bool

definition shell_start :: shell where
  "shell_start = \<lparr> sh_input = replicate TERMINALMAXINPUTSIZE NUL, sh_len = 0, sh_prev_speed = replicate MAX_NUM_TRAINS 0,
     sh_commands = cb_init (COMMAND_TR 0 0) MAX_PLANNED_COMMANDS, sh_planning = False \<rparr>"

subsection \<open>Characters and tokens\<close>

text \<open>\<open>char\<close> is unsigned on ARM. The sums are in the order of the code.\<close>

fun atoi_loop :: "char list \<Rightarrow> nat \<Rightarrow> int \<Rightarrow> bool \<Rightarrow> (int \<times> bool) cres" where
  "atoi_loop [] i res negative = Inl Out_Of_Bounds"
| "atoi_loop (c # str) i res negative =
     (if c = NUL then Inr (res, negative)
      else if i = 0 \<and> c = CHR ''-'' then atoi_loop str (i + 1) res True
      else cbind (cint (res * 10)) (\<lambda>tens. cbind (cint (tens + of_char c)) (\<lambda>sum. cbind (cint (sum - 48)) (\<lambda>res'.
        atoi_loop str (i + 1) res' negative))))"

definition atoi :: "char list \<Rightarrow> int cres" where
  "atoi str = cbind (atoi_loop str 0 0 False) (\<lambda>(res, negative). if negative then cint (- res) else Inr res)"

text \<open>A token: a place in the line, or \<open>None\<close> for \<open>&empty\<close>.\<close>

definition token :: "char list \<Rightarrow> nat option list \<Rightarrow> nat \<Rightarrow> char list" where
  "token line tokens i = (case tokens ! i of None \<Rightarrow> [NUL] | Some p \<Rightarrow> drop p line)"

function tokenizer_loop :: "char list \<Rightarrow> nat \<Rightarrow> nat option list \<Rightarrow> nat \<Rightarrow> nat \<Rightarrow> (char list \<times> nat option list) cres" where
  "tokenizer_loop line pos tokens i num_tokens =
     (if length line \<le> pos then Inl Out_Of_Bounds
      else if line ! pos \<noteq> NUL \<and> i < num_tokens then
        if line ! pos = CHR '' '' then
          cbind (wr tokens (i + 1) (Some (pos + 1))) (\<lambda>tokens'.
            tokenizer_loop (line[pos := NUL]) (pos + 1) tokens' (i + 1) num_tokens)
        else tokenizer_loop line (pos + 1) tokens i num_tokens
      else Inr (line, tokens))"
  by pat_completeness auto
termination
  by (relation "measure (\<lambda>(line, pos, tokens, i, num_tokens). length line - pos)") auto

declare tokenizer_loop.simps [simp del]

definition tokenizer :: "char list \<Rightarrow> nat option list \<Rightarrow> nat \<Rightarrow> (char list \<times> nat option list) cres" where
  "tokenizer line tokens num_tokens =
     cbind (wr tokens 0 (Some 0)) (\<lambda>tokens'. tokenizer_loop line 0 tokens' 0 num_tokens)"

text \<open>A key: whether a line is complete, and its tokens.\<close>

definition handle_new_char :: "char \<Rightarrow> shell \<Rightarrow> nat option list \<Rightarrow> (bool \<times> shell \<times> nat option list) cres" where
  "handle_new_char c st tokens =
     (if sh_len st = TERMINALMAXINPUTSIZE then Inr (False, st, tokens)
      else if c = CHR 0x08 then
        if 0 < sh_len st then
          cbind (wr (sh_input st) (sh_len st - 1) NUL) (\<lambda>line.
            Inr (False, st\<lparr> sh_input := line, sh_len := sh_len st - 1 \<rparr>, tokens))
        else Inr (False, st, tokens)
      else if c = CHR 0x0D then
        cbind (tokenizer (sh_input st) tokens MAX_COMMAND_TOKENS) (\<lambda>(line, tokens').
          Inr (True, st\<lparr> sh_input := line, sh_len := 0 \<rparr>, tokens'))
      else
        cbind (wr (sh_input st) (sh_len st) c) (\<lambda>line.
          Inr (False, st\<lparr> sh_input := line, sh_len := sh_len st + 1 \<rparr>, tokens)))"

subsection \<open>Checking a command\<close>

datatype verdict = Plan | Doneplan | Queue command | Rejected string | Unknown

text \<open>Which of the words the first token is, in the order the code tries them.\<close>

fun command_word :: "char list \<Rightarrow> string list \<Rightarrow> string option cres" where
  "command_word tok [] = Inr None"
| "command_word tok (w # ws) =
     cbind (strncmp tok (lit w) (length w)) (\<lambda>c. if c = 0 then Inr (Some w) else command_word tok ws)"

definition words :: "string list" where
  "words = [''plan'', ''doneplan'', ''tr'', ''sw'', ''rv'', ''q'', ''gt'', ''die'', ''reg'', ''mock'', ''random'']"

definition parse_tr :: "(nat \<Rightarrow> char list) \<Rightarrow> verdict cres" where
  "parse_tr tok =
     cbind (atoi (tok 1)) (\<lambda>n. cbind (atoi (tok 2)) (\<lambda>speed.
       if speed < 0 \<or> 14 < speed then Inr (Rejected ''Please enter a valid speed'')
       else if p_v_train_num n < 0 then Inr (Rejected ''Please enter a valid train num'')
       else cbind (v_p_train_num (p_v_train_num n)) (\<lambda>_. Inr (Queue (COMMAND_TR (p_v_train_num n) speed)))))"

definition parse_sw :: "(nat \<Rightarrow> char list) \<Rightarrow> verdict cres" where
  "parse_sw tok =
     cbind (atoi (tok 1)) (\<lambda>switch_num. cbind (rd (tok 2) 0) (\<lambda>orientation.
       if switch_num < 1 \<or> NUM_SWITCHES < switch_num then Inr (Rejected ''Please enter a valid switch num'')
       else if orientation \<noteq> CHR ''c'' \<and> orientation \<noteq> CHR ''s'' then Inr (Rejected ''Please enter a valid switch orientation'')
       else Inr (Queue (COMMAND_SW switch_num orientation))))"

definition parse_rv :: "(nat \<Rightarrow> char list) \<Rightarrow> verdict cres" where
  "parse_rv tok =
     cbind (atoi (tok 1)) (\<lambda>n.
       if p_v_train_num n < 0 then Inr (Rejected ''Please enter a valid train num'')
       else cbind (v_p_train_num (p_v_train_num n)) (\<lambda>_. Inr (Queue (COMMAND_RV (p_v_train_num n)))))"

definition parse_gt :: "track_node list \<Rightarrow> (nat \<Rightarrow> char list) \<Rightarrow> verdict cres" where
  "parse_gt t tok =
     cbind (atoi (tok 1)) (\<lambda>n. cbind (track_name_to_num t (tok 2)) (\<lambda>dest. cbind (atoi (tok 3)) (\<lambda>offset.
       if p_v_train_num n < 0 then Inr (Rejected ''Please enter a valid train num'')
       else if dest < 0 then Inr (Rejected ''Please enter a valid destination node'')
       else cbind (v_p_train_num (p_v_train_num n)) (\<lambda>_. cbind (rdi t dest) (\<lambda>_.
         Inr (Queue (COMMAND_GT (p_v_train_num n) dest offset)))))))"

definition parse_reg :: "track_node list \<Rightarrow> (nat \<Rightarrow> char list) \<Rightarrow> verdict cres" where
  "parse_reg t tok =
     cbind (atoi (tok 1)) (\<lambda>n. cbind (track_name_to_num t (tok 2)) (\<lambda>source.
       if p_v_train_num n < 0 then Inr (Rejected ''Please enter a valid train num'')
       else if source < 0 then Inr (Rejected ''Please enter a valid node'')
       else cbind (v_p_train_num (p_v_train_num n)) (\<lambda>_. cbind (rdi t source) (\<lambda>_.
         Inr (Queue (COMMAND_REG (p_v_train_num n) source))))))"

definition parse_mock :: "track_node list \<Rightarrow> (nat \<Rightarrow> char list) \<Rightarrow> verdict cres" where
  "parse_mock t tok =
     cbind (track_name_to_num t (tok 1)) (\<lambda>sensor. cbind (rdi t sensor) (\<lambda>_. Inr (Queue (COMMAND_MOCK sensor))))"

definition parse_random :: "(nat \<Rightarrow> char list) \<Rightarrow> verdict cres" where
  "parse_random tok =
     cbind (atoi (tok 1)) (\<lambda>type. cbind (atoi (tok 2)) (\<lambda>n.
       if type < 1 \<or> 3 < type then Inr (Rejected ''Please enter a valid random'')
       else if p_v_train_num n < 0 then Inr (Rejected ''Please enter a valid train num'')
       else Inr (Queue (COMMAND_RANDOM (p_v_train_num n) type))))"

definition parse_word :: "track_node list \<Rightarrow> string option \<Rightarrow> (nat \<Rightarrow> char list) \<Rightarrow> verdict cres" where
  "parse_word t w tok =
     (if w = Some ''plan'' then Inr Plan
      else if w = Some ''doneplan'' then Inr Doneplan
      else if w = Some ''tr'' then parse_tr tok
      else if w = Some ''sw'' then parse_sw tok
      else if w = Some ''rv'' then parse_rv tok
      else if w = Some ''q'' then Inr (Queue COMMAND_Q)
      else if w = Some ''gt'' then parse_gt t tok
      else if w = Some ''die'' then Inr (Queue COMMAND_DIE)
      else if w = Some ''reg'' then parse_reg t tok
      else if w = Some ''mock'' then parse_mock t tok
      else if w = Some ''random'' then parse_random tok
      else Inr Unknown)"

definition parse_command :: "track_node list \<Rightarrow> (nat \<Rightarrow> char list) \<Rightarrow> verdict cres" where
  "parse_command t tok = cbind (command_word (tok 0) words) (\<lambda>w. parse_word t w tok)"

subsection \<open>Carrying out commands\<close>

definition navigation_message :: "navigation_response \<Rightarrow> shell_act list" where
  "navigation_message res =
     (case res of
        NAVIGATIONSERVER_BUSY \<Rightarrow> [Shell_Debug ''Navigation server busy'']
      | NAVIGATIONSERVER_NO_PATH \<Rightarrow> [Shell_Debug ''No path'']
      | NAVIGATIONSERVER_NEED_REGISTER \<Rightarrow> [Shell_Debug ''Need to register train location first'']
      | _ \<Rightarrow> [])"

text \<open>One command, at the time \<open>now\<close>, answered by the navigation server with \<open>res\<close>; also the speeds noted for the trains.\<close>

fun exec_command :: "track_node list \<Rightarrow> int \<Rightarrow> navigation_response \<Rightarrow> int list \<Rightarrow> command \<Rightarrow> (int list \<times> shell_act list) cres" where
  "exec_command t now res speeds (COMMAND_TR train speed) =
     cbind (wri speeds train speed) (\<lambda>speeds'. Inr (speeds', [Shell_Train (TrainCommand now SPEED train speed)]))"
| "exec_command t now res speeds (COMMAND_SW switch_num orientation) =
     Inr (speeds, [Shell_Train (TrainCommand now SWITCH switch_num (if orientation = CHR ''c'' then 1 else 0))])"
| "exec_command t now res speeds (COMMAND_RV train) = Inr (speeds, [Shell_Train (TrainCommand now SPEED train 15)])"
| "exec_command t now res speeds COMMAND_Q = Inr (speeds, [Shell_Shutdown])"
| "exec_command t now res speeds (COMMAND_GT train dest offset) =
     cbind
       (if res \<in> {NAVIGATIONSERVER_BUSY, NAVIGATIONSERVER_NO_PATH, NAVIGATIONSERVER_NEED_REGISTER} then Inr ()
        else cbind (v_p_train_num train) (\<lambda>_. cbind (rdi t dest) (\<lambda>_. Inr ())))
       (\<lambda>_. Inr (speeds, Shell_Navigation (NAVIGATION_REQUEST train dest offset False) # navigation_message res))"
| "exec_command t now res speeds COMMAND_DIE = cbind (kassert False ''DIE!'') (\<lambda>_. Inr (speeds, []))"
| "exec_command t now res speeds (COMMAND_REG train source) =
     Inr (speeds, [Shell_Navigation (REGISTER_LOCATION train source)])"
| "exec_command t now res speeds (COMMAND_MOCK sensor_num) =
     cbind (wri (replicate NUM_SENSOR_GROUPS 0) (sensor_num sdiv int SENSORS_PER_GROUP)
         (drop_bit (nat (sensor_num smod int SENSORS_PER_GROUP)) 0x80)) (\<lambda>readings.
       Inr (speeds, [Shell_Dispatch (SENSOR_UPDATE readings now)]))"
| "exec_command t now res speeds (COMMAND_RANDOM train type) = Inr (speeds, [Shell_Random type train])"

text \<open>
  The loop over the queue. The kernel does not return from \<open>Shutdown\<close>; the model goes on as the code does.
\<close>

function flush_commands ::
  "track_node list \<Rightarrow> (nat \<Rightarrow> int) \<Rightarrow> (nat \<Rightarrow> navigation_response) \<Rightarrow> nat \<Rightarrow> shell \<Rightarrow> (shell \<times> shell_act list) cres" where
  "flush_commands t clock nav k st =
     (if cb_count (sh_commands st) = 0 then Inr (st, [])
      else
        cbind (cb_pop_front (sh_commands st)) (\<lambda>(cb, status, item).
        cbind (deref item) (\<lambda>command.
        cbind (exec_command t (clock k) (nav k) (sh_prev_speed st) command) (\<lambda>(speeds, acts).
        cbind (flush_commands t clock nav (k + 1) (st\<lparr> sh_commands := cb, sh_prev_speed := speeds \<rparr>)) (\<lambda>(st', acts').
          Inr (st', acts @ acts'))))))"
  by pat_completeness auto
termination
  by (relation "measure (\<lambda>(t, clock, nav, k, st). cb_count (sh_commands st))")
    (auto simp: cb_pop_front_def Let_def c_simps split: if_splits)

declare flush_commands.simps [simp del]

subsection \<open>A turn of the loop\<close>

text \<open>After a command was queued or not understood, or planning ended.\<close>

definition finish_line ::
  "track_node list \<Rightarrow> (nat \<Rightarrow> int) \<Rightarrow> (nat \<Rightarrow> navigation_response) \<Rightarrow> shell \<Rightarrow> shell_act list \<Rightarrow> (shell \<times> shell_act list) cres" where
  "finish_line t clock nav st acts =
     cbind (if sh_planning st then Inr (st, []) else flush_commands t clock nav 0 st) (\<lambda>(st1, acts').
     cbind (memset (sh_input st1) NUL TERMINALMAXINPUTSIZE) (\<lambda>line. Inr (st1\<lparr> sh_input := line \<rparr>, acts @ acts')))"

definition obey ::
  "track_node list \<Rightarrow> (nat \<Rightarrow> int) \<Rightarrow> (nat \<Rightarrow> navigation_response) \<Rightarrow> verdict \<Rightarrow> shell \<Rightarrow> (shell \<times> shell_act list) cres" where
  "obey t clock nav v st =
     (case v of
        Plan \<Rightarrow>
          if sh_planning st then Inr (st, [Shell_Debug ''Already in planning mode''])
          else Inr (st\<lparr> sh_planning := True \<rparr>, [Shell_Debug ''In planning mode''])
      | Doneplan \<Rightarrow>
          if sh_planning st
          then finish_line t clock nav (st\<lparr> sh_planning := False \<rparr>) [Shell_Debug ''Exiting planning mode, flushing planned commands'']
          else Inr (st, [Shell_Debug ''Not in planning mode''])
      | Queue command \<Rightarrow>
          cbind (cb_push_back (sh_commands st) command False) (\<lambda>(cb, status). finish_line t clock nav (st\<lparr> sh_commands := cb \<rparr>) [])
      | Rejected why \<Rightarrow> Inr (st, [Shell_Debug why])
      | Unknown \<Rightarrow> finish_line t clock nav st [Shell_Debug ''Invalid Command Type''])"

definition shell_step ::
  "track_node list \<Rightarrow> (nat \<Rightarrow> int) \<Rightarrow> (nat \<Rightarrow> navigation_response) \<Rightarrow> char \<Rightarrow> shell \<Rightarrow> (shell \<times> shell_act list) cres" where
  "shell_step t clock nav c st =
     cbind (handle_new_char c st (replicate MAX_COMMAND_TOKENS None)) (\<lambda>(entered, st1, tokens).
       if entered then cbind (parse_command t (token (sh_input st1) tokens)) (\<lambda>v. obey t clock nav v st1)
       else Inr (st1, []))"

text \<open>The keys one after the other; what is sent for each.\<close>

fun shell_keys ::
  "track_node list \<Rightarrow> (nat \<Rightarrow> int) \<Rightarrow> (nat \<Rightarrow> navigation_response) \<Rightarrow> char list \<Rightarrow> shell \<Rightarrow> (shell \<times> shell_act list) cres" where
  "shell_keys t clock nav [] st = Inr (st, [])"
| "shell_keys t clock nav (c # cs) st =
     cbind (shell_step t clock nav c st) (\<lambda>(st1, acts).
     cbind (shell_keys t clock nav cs st1) (\<lambda>(st2, acts'). Inr (st2, acts @ acts')))"

end
