(* ===== verification/Shell_Properties.thy ===== *)
theory Shell_Properties
  imports Shell
begin

section \<open>What the shell does\<close>

subsection \<open>The text of a buffer\<close>

text \<open>The functions that read a string look no further than its end.\<close>

lemma atoi_loop_text: "terminated buf \<Longrightarrow> atoi_loop buf i res negative = atoi_loop (lit (cstr buf)) i res negative"
proof (induction buf arbitrary: i res negative)
  case (Cons c buf)
  then show ?case by (cases "c = NUL") (simp_all add: lit_def cstr_Cons terminated_Cons)
qed (simp add: terminated_def)

lemma atoi_text: "terminated buf \<Longrightarrow> atoi buf = atoi (lit (cstr buf))"
  using atoi_loop_text [of buf] by (simp add: atoi_def)

lemma strncmp_text: "terminated buf \<Longrightarrow> strncmp buf s n = strncmp (lit (cstr buf)) s n"
proof (induction buf arbitrary: s)
  case (Cons c buf)
  then show ?case by (cases "c = NUL") (auto simp: lit_def cstr_Cons terminated_Cons split: list.splits)
qed (simp add: terminated_def)

lemma track_name_to_num_text: "terminated buf \<Longrightarrow> track_name_to_num t buf = track_name_to_num t (lit (cstr buf))"
proof -
  assume buf: "terminated buf"
  have "track_name_loop t buf i k = track_name_loop t (lit (cstr buf)) i k" for i k
  proof (induction k arbitrary: i)
    case (Suc k)
    show ?case using strncmp_text [OF buf] buf by (simp add: Suc strlen_ok cong: if_cong)
  qed simp
  then show ?thesis by (simp add: track_name_to_num_def)
qed

lemma command_word_text: "terminated buf \<Longrightarrow> command_word buf ws = command_word (lit (cstr buf)) ws"
  using strncmp_text [of buf] by (induction ws) (simp_all cong: if_cong)

lemma first_text: "terminated buf \<Longrightarrow> rd buf 0 = rd (lit (cstr buf)) 0"
  by (cases buf) (auto simp: rd_def lit_def cstr_Cons terminated_def)

lemma parse_command_text:
  assumes "\<forall>i < MAX_COMMAND_TOKENS. terminated (tok i) \<and> cstr (tok i) = ws i"
  shows "parse_command t tok = parse_command t (\<lambda>i. lit (ws i))"
proof -
  have texts: "atoi (tok i) = atoi (lit (ws i))" "track_name_to_num t (tok i) = track_name_to_num t (lit (ws i))"
    "rd (tok i) 0 = rd (lit (ws i)) 0" "command_word (tok i) ww = command_word (lit (ws i)) ww" if "i < MAX_COMMAND_TOKENS" for i ww
    using assms that atoi_text [of "tok i"] track_name_to_num_text [of "tok i"] first_text [of "tok i"] command_word_text [of "tok i"]
    by simp_all
  have small: "0 < MAX_COMMAND_TOKENS" "1 < MAX_COMMAND_TOKENS" "2 < MAX_COMMAND_TOKENS" "3 < MAX_COMMAND_TOKENS"
    by (simp_all add: MAX_COMMAND_TOKENS_def)
  show ?thesis
    unfolding parse_command_def parse_word_def parse_tr_def parse_sw_def parse_rv_def parse_gt_def parse_reg_def parse_mock_def
      parse_random_def
    by (simp only: small texts)
qed

text \<open>A word is found exactly when the first token is that word.\<close>

lemma command_word_eq:
  assumes "NUL \<notin> set w0" "\<forall>w \<in> set ws. NUL \<notin> set w \<and> w \<noteq> []"
  shows "command_word (lit w0) ws = Inr (if w0 \<in> set ws then Some w0 else None)"
  using assms(2)
proof (induction ws)
  case (Cons w ws)
  obtain c where c: "strncmp (lit w0) (lit w) (length w) = Inr c"
    using strncmp_lex [of "lit w0" "lit w"] by auto
  have "c = 0 \<longleftrightarrow> w0 = w"
    using strncmp_eq_iff [of "lit w0" "lit w" "length w"] c Cons.prems assms(1) by simp
  then show ?case using c Cons by auto
qed simp

lemma command_word_words: "NUL \<notin> set w0 \<Longrightarrow> command_word (lit w0) words = Inr (if w0 \<in> set words then Some w0 else None)"
  by (rule command_word_eq) (auto simp: words_def)

subsection \<open>Cutting a line\<close>

text \<open>The words of a line between its spaces; the line with its spaces overwritten; where the words but the first start.\<close>

fun words_of :: "string \<Rightarrow> string list" where
  "words_of [] = [[]]"
| "words_of (c # cs) = (if c = CHR '' '' then [] # words_of cs else (c # hd (words_of cs)) # tl (words_of cs))"

definition blanked :: "string \<Rightarrow> char list" where
  "blanked = map (\<lambda>c. if c = CHR '' '' then NUL else c)"

fun starts :: "nat \<Rightarrow> string \<Rightarrow> nat list" where
  "starts pos [] = []"
| "starts pos (c # cs) = (if c = CHR '' '' then (pos + 1) # starts (pos + 1) cs else starts (pos + 1) cs)"

definition word :: "string list \<Rightarrow> nat \<Rightarrow> string" where
  "word ws i = (if i < length ws then ws ! i else [])"

lemma words_of_ne [simp]: "words_of w \<noteq> []"
  by (cases w) auto

lemma length_words_of: "length (words_of w) = length (starts pos w) + 1"
  by (induction w arbitrary: pos) (auto simp: length_tl)

lemma words_of_NUL: "NUL \<notin> set w \<Longrightarrow> ws \<in> set (words_of w) \<Longrightarrow> NUL \<notin> set ws"
proof (induction w arbitrary: ws)
  case (Cons c w)
  obtain x xs where "words_of w = x # xs" using words_of_ne by (meson neq_Nil_conv)
  then show ?case using Cons by (auto split: if_splits)
qed simp

lemma tokenizer_loop_ok:
  assumes "NUL \<notin> set w" "length tokens = num" "i + length (starts (length pre) w) < num" "num \<le> n"
  shows "tokenizer_loop (pre @ w @ NUL # post) (length pre) tokens i n =
    Inr (pre @ blanked w @ NUL # post,
      take (i + 1) tokens @ map Some (starts (length pre) w) @ drop (i + 1 + length (starts (length pre) w)) tokens)"
  using assms
proof (induction w arbitrary: pre tokens i)
  case Nil
  then show ?case by (subst tokenizer_loop.simps) (simp add: blanked_def)
next
  case (Cons c w)
  show ?case
  proof (cases "c = CHR '' ''")
    case True
    have "tokenizer_loop ((pre @ [NUL]) @ w @ NUL # post) (length (pre @ [NUL])) (tokens[i + 1 := Some (length pre + 1)]) (i + 1) n =
        Inr ((pre @ [NUL]) @ blanked w @ NUL # post,
          take (i + 1 + 1) (tokens[i + 1 := Some (length pre + 1)]) @ map Some (starts (length (pre @ [NUL])) w) @
          drop (i + 1 + 1 + length (starts (length (pre @ [NUL])) w)) (tokens[i + 1 := Some (length pre + 1)]))"
      by (rule Cons.IH) (use Cons.prems True in auto)
    then show ?thesis using Cons.prems True
      by (subst tokenizer_loop.simps) (simp add: blanked_def take_Suc_conv_app_nth list_update_append)
  next
    case False
    have "tokenizer_loop ((pre @ [c]) @ w @ NUL # post) (length (pre @ [c])) tokens i n =
        Inr ((pre @ [c]) @ blanked w @ NUL # post, take (i + 1) tokens @ map Some (starts (length (pre @ [c])) w) @
          drop (i + 1 + length (starts (length (pre @ [c])) w)) tokens)"
      by (rule Cons.IH) (use Cons.prems False in auto)
    then show ?thesis using Cons.prems False by (subst tokenizer_loop.simps) (auto simp: blanked_def)
  qed
qed

text \<open>A line with more spaces than there is room for writes behind the array of tokens.\<close>

lemma tokenizer_loop_overflow:
  assumes "NUL \<notin> set w" "i < length tokens" "length tokens \<le> i + length (starts (length pre) w)" "length tokens \<le> n"
  shows "tokenizer_loop (pre @ w @ NUL # post) (length pre) tokens i n = Inl Out_Of_Bounds"
  using assms
proof (induction w arbitrary: pre tokens i)
  case (Cons c w)
  show ?case
  proof (cases "c = CHR '' ''")
    case True
    show ?thesis
    proof (cases "i + 1 < length tokens")
      case more: True
      have "tokenizer_loop ((pre @ [NUL]) @ w @ NUL # post) (length (pre @ [NUL])) (tokens[i + 1 := Some (length pre + 1)]) (i + 1) n
          = Inl Out_Of_Bounds"
        by (rule Cons.IH) (use Cons.prems True more in auto)
      then show ?thesis using Cons.prems True more by (subst tokenizer_loop.simps) (simp add: list_update_append)
    next
      case False
      then show ?thesis using Cons.prems True by (subst tokenizer_loop.simps) (simp add: wr_def)
    qed
  next
    case False
    have "tokenizer_loop ((pre @ [c]) @ w @ NUL # post) (length (pre @ [c])) tokens i n = Inl Out_Of_Bounds"
      by (rule Cons.IH) (use Cons.prems False in auto)
    then show ?thesis using Cons.prems False by (subst tokenizer_loop.simps) auto
  qed
qed simp

text \<open>What the tokens show once the line is cut.\<close>

lemma starts_words:
  assumes "NUL \<notin> set w" "j < length (starts (length pre) w)"
  shows "cstr (drop (starts (length pre) w ! j) (pre @ blanked w @ NUL # post)) = words_of w ! (j + 1) \<and>
    terminated (drop (starts (length pre) w ! j) (pre @ blanked w @ NUL # post))"
  using assms
proof (induction w arbitrary: pre j)
  case (Cons c w)
  show ?case
  proof (cases "c = CHR '' ''")
    case True
    show ?thesis
    proof (cases j)
      case 0
      have "cstr (blanked w @ NUL # post) = hd (words_of w)"
        using Cons.prems(1) by (induction w) (auto simp: blanked_def cstr_Cons hd_append split: if_splits)
      moreover have "terminated (blanked w @ NUL # post)" by (simp add: terminated_def)
      ultimately show ?thesis using True 0 by (simp add: blanked_def hd_conv_nth)
    next
      case (Suc j')
      then show ?thesis using Cons.IH [of j' "pre @ [NUL]"] Cons.prems True by (simp add: blanked_def)
    qed
  next
    case False
    have "words_of (c # w) ! (j + 1) = words_of w ! (j + 1)"
      using False length_words_of [of w "length pre + 1"] Cons.prems(2) by (cases "words_of w") auto
    then show ?thesis using Cons.IH [of j "pre @ [c]"] Cons.prems False by (simp add: blanked_def)
  qed
qed simp

lemma cstr_blanked: "NUL \<notin> set w \<Longrightarrow> cstr (blanked w @ NUL # post) = hd (words_of w)"
  by (induction w) (auto simp: blanked_def cstr_Cons)

lemma tokenizer_ok:
  assumes "NUL \<notin> set w" "length (words_of w) \<le> MAX_COMMAND_TOKENS"
  obtains tokens where "tokenizer (w @ NUL # post) (replicate MAX_COMMAND_TOKENS None) MAX_COMMAND_TOKENS = Inr (blanked w @ NUL # post, tokens)"
    "\<forall>i < MAX_COMMAND_TOKENS. terminated (token (blanked w @ NUL # post) tokens i) \<and>
       cstr (token (blanked w @ NUL # post) tokens i) = word (words_of w) i"
proof -
  let ?line = "blanked w @ NUL # post" and ?none = "replicate MAX_COMMAND_TOKENS None"
  let ?starts = "starts 0 w"
  let ?tokens = "Some 0 # map Some ?starts @ replicate (MAX_COMMAND_TOKENS - (1 + length ?starts)) None"
  have len: "1 + length ?starts \<le> MAX_COMMAND_TOKENS" using assms(2) length_words_of [of w 0] by simp
  have "tokenizer_loop ([] @ w @ NUL # post) (length []) (?none[0 := Some 0]) 0 MAX_COMMAND_TOKENS =
      Inr ([] @ ?line, take (0 + 1) (?none[0 := Some 0]) @ map Some (starts (length []) w) @
        drop (0 + 1 + length (starts (length []) w)) (?none[0 := Some 0]))"
    using tokenizer_loop_ok [of w "?none[0 := Some 0]" MAX_COMMAND_TOKENS 0 "[]" MAX_COMMAND_TOKENS post] assms(1) len by simp
  then have run: "tokenizer (w @ NUL # post) ?none MAX_COMMAND_TOKENS = Inr (?line, ?tokens)"
    using len by (simp add: tokenizer_def MAX_COMMAND_TOKENS_def take_Suc_conv_app_nth)
  have "terminated (token ?line ?tokens i) \<and> cstr (token ?line ?tokens i) = word (words_of w) i" if i: "i < MAX_COMMAND_TOKENS" for i
  proof (cases i)
    case 0
    then show ?thesis using cstr_blanked [OF assms(1)] by (simp add: token_def word_def hd_conv_nth terminated_def)
  next
    case (Suc j)
    show ?thesis
    proof (cases "j < length ?starts")
      case True
      then have "?tokens ! i = Some (?starts ! j)" using Suc by (simp add: nth_append)
      then show ?thesis
        using starts_words [of w j "[]"] assms(1) True Suc length_words_of [of w 0] by (simp add: token_def word_def)
    next
      case False
      then have "?tokens ! i = None" using Suc i by (simp add: nth_append)
      then show ?thesis using False Suc length_words_of [of w 0] by (simp add: token_def word_def terminated_def cstr_def)
    qed
  qed
  then show ?thesis using that [OF run] by blast
qed

lemma tokenizer_overflow:
  assumes "NUL \<notin> set w" "MAX_COMMAND_TOKENS < length (words_of w)"
  shows "tokenizer (w @ NUL # post) (replicate MAX_COMMAND_TOKENS None) MAX_COMMAND_TOKENS = Inl Out_Of_Bounds"
  using tokenizer_loop_overflow [of w 0 "(replicate MAX_COMMAND_TOKENS None)[0 := Some 0]" "[]" MAX_COMMAND_TOKENS post]
    assms length_words_of [of w 0] by (simp add: tokenizer_def MAX_COMMAND_TOKENS_def)

subsection \<open>Numbers\<close>

text \<open>Words of up to seven characters are read without an overflow, whatever the characters.\<close>

lemma atoi_loop_bound:
  assumes "terminated str" "k + length (cstr str) \<le> 7" "\<bar>res\<bar> \<le> 23 * (10 ^ k - 1)"
  shows "\<exists>n neg'. atoi_loop str i res neg = Inr (n, neg') \<and> \<bar>n\<bar> \<le> 23 * (10 ^ 7 - 1)"
  using assms
proof (induction str arbitrary: k i res neg)
  case (Cons c str)
  show ?case
  proof (cases "c = NUL")
    case True
    have "(10::int) ^ k \<le> 10 ^ 7" using Cons.prems(2) by (intro power_increasing) simp_all
    then show ?thesis using True Cons.prems(3) by simp
  next
    case False
    have str: "terminated str" "Suc k + length (cstr str) \<le> 7"
      using Cons.prems(1,2) False by (simp_all add: terminated_Cons cstr_Cons)
    have "(10::int) ^ k \<le> 10 ^ 6" using str(2) by (intro power_increasing) simp_all
    then have k: "(10::int) ^ k \<le> 1000000" by simp
    have pos: "(1::int) \<le> 10 ^ k" by simp
    have c: "0 \<le> (of_char c :: int)" "(of_char c :: int) \<le> 255"
    proof -
      have "int (of_char c :: nat) < 256" using nat_of_char_less_256 [of c] by linarith
      moreover have "int (of_char c :: nat) = (of_char c :: int)" by (rule of_nat_of_char)
      ultimately show "0 \<le> (of_char c :: int)" "(of_char c :: int) \<le> 255" by linarith+
    qed
    show ?thesis
    proof (cases "i = 0 \<and> c = CHR ''-''")
      case True
      have "\<bar>res\<bar> \<le> 23 * (10 ^ Suc k - 1)" using Cons.prems(3) pos by simp
      then have "\<exists>n neg'. atoi_loop str (i + 1) res True = Inr (n, neg') \<and> \<bar>n\<bar> \<le> 23 * (10 ^ 7 - 1)"
        by (rule Cons.IH [OF str])
      then show ?thesis using True by simp
    next
      case no_sign: False
      let ?res = "res * 10 + of_char c - 48"
      have small: "\<bar>res\<bar> \<le> 23 * 1000000" using Cons.prems(3) k by simp
      have "\<bar>?res\<bar> \<le> 23 * (10 ^ Suc k - 1)" using Cons.prems(3) c by simp
      then have "\<exists>n neg'. atoi_loop str (i + 1) ?res neg = Inr (n, neg') \<and> \<bar>n\<bar> \<le> 23 * (10 ^ 7 - 1)"
        by (rule Cons.IH [OF str])
      moreover have "atoi_loop (c # str) i res neg = atoi_loop str (i + 1) ?res neg"
        using small c False no_sign by (auto simp: cint_def)
      ultimately show ?thesis by simp
    qed
  qed
qed (simp add: terminated_def)

lemma atoi_bound:
  assumes "NUL \<notin> set w" "length w \<le> 7"
  shows "\<exists>n. atoi (lit w) = Inr n"
proof -
  obtain n neg' where "atoi_loop (lit w) 0 0 False = Inr (n, neg')" "\<bar>n\<bar> \<le> 23 * (10 ^ 7 - 1)"
    using atoi_loop_bound [of "lit w" 0 0 0 False] assms by auto
  then show ?thesis by (auto simp: atoi_def cint_def)
qed

subsection \<open>What a line can mean\<close>

definition train_ok :: "int \<Rightarrow> bool" where "train_ok train \<longleftrightarrow> 0 \<le> train \<and> train < int MAX_NUM_TRAINS"

text \<open>The commands the shell queues: known trains, speeds up to 14, switches up to 256, nodes of the track, sensors.\<close>

fun command_ok :: "command \<Rightarrow> bool" where
  "command_ok (COMMAND_TR train speed) \<longleftrightarrow> train_ok train \<and> 0 \<le> speed \<and> speed \<le> 14"
| "command_ok (COMMAND_SW n d) \<longleftrightarrow> 1 \<le> n \<and> n \<le> NUM_SWITCHES \<and> d \<in> {CHR ''c'', CHR ''s''}"
| "command_ok (COMMAND_RV train) \<longleftrightarrow> train_ok train"
| "command_ok COMMAND_Q \<longleftrightarrow> True"
| "command_ok (COMMAND_GT train dest offset) \<longleftrightarrow> train_ok train \<and> 0 \<le> dest \<and> dest < int TRACK_MAX"
| "command_ok COMMAND_DIE \<longleftrightarrow> False"
| "command_ok (COMMAND_REG train source) \<longleftrightarrow> train_ok train \<and> 0 \<le> source \<and> source < int TRACK_MAX"
| "command_ok (COMMAND_MOCK sensor) \<longleftrightarrow> 0 \<le> sensor \<and> sensor < 80"
| "command_ok (COMMAND_RANDOM train type) \<longleftrightarrow> train_ok train \<and> type \<in> {1..3}"

fun verdict_ok :: "verdict \<Rightarrow> bool" where
  "verdict_ok (Queue c) \<longleftrightarrow> command_ok c"
| "verdict_ok _ \<longleftrightarrow> True"

text \<open>
  The lines that do no harm: at most five spaces, arguments of at most seven characters, names the track knows (a table
  that is not full has nodes without a name, and a search that gets there follows a null pointer), a sensor after
  \<open>mock\<close>, and not \<open>die\<close>.
\<close>

definition name_known :: "track_node list \<Rightarrow> nat \<Rightarrow> string \<Rightarrow> bool" where
  "name_known t m s \<longleftrightarrow> s = [] \<or> (\<exists>i < m. n_name (t ! i) = Some s)"

definition safe_line :: "track_node list \<Rightarrow> nat \<Rightarrow> string list \<Rightarrow> bool" where
  "safe_line t m ws \<longleftrightarrow> length ws \<le> MAX_COMMAND_TOKENS \<and> (\<forall>i > 0. length (word ws i) \<le> 7) \<and> word ws 0 \<noteq> ''die'' \<and>
     (word ws 0 \<in> {''gt'', ''reg''} \<longrightarrow> m = TRACK_MAX \<or> name_known t m (word ws 2)) \<and>
     (word ws 0 = ''mock'' \<longrightarrow> name_known t 80 (word ws 1))"

lemma lookup_known:
  assumes "names_ok t m" "NUL \<notin> set s" "k \<le> m" "name_known t k s"
  obtains i where "track_name_to_num t (lit s) = Inr (int i)" "i < k \<or> s = []" "i < m"
proof (cases "s = []")
  case True
  then have "track_name_to_num t (lit s) = Inr 0" using track_name_to_num_empty [OF assms(1), of "lit s"] assms(2) by simp
  then show ?thesis using that [of 0] True names_okD(2) [OF assms(1)] by simp
next
  case False
  then obtain i where "i < k" "n_name (t ! i) = Some s" using assms(4) by (auto simp: name_known_def)
  then show ?thesis using that [of i] track_name_to_num_ok [OF assms(1), of "lit s" i] assms(2,3) by simp
qed

lemma lookup_full:
  assumes "names_ok t TRACK_MAX" "NUL \<notin> set s"
  shows "\<exists>n. track_name_to_num t (lit s) = Inr n \<and> n < int TRACK_MAX"
proof (cases "name_known t TRACK_MAX s")
  case True
  then obtain i where "track_name_to_num t (lit s) = Inr (int i)" "i < TRACK_MAX"
    using lookup_known [OF assms le_refl] by blast
  then show ?thesis by auto
next
  case False
  then show ?thesis
    using track_name_to_num_unknown [OF assms(1), of "lit s"] assms(2) by (auto simp: name_known_def TRACK_MAX_def)
qed

lemma lookup_ok:
  assumes "names_ok t m" "NUL \<notin> set s" "m = TRACK_MAX \<or> name_known t m s"
  shows "\<exists>n. track_name_to_num t (lit s) = Inr n \<and> n < int TRACK_MAX"
  using assms(3)
proof
  assume "m = TRACK_MAX"
  then show ?thesis using lookup_full [of t s] assms(1,2) by simp
next
  assume "name_known t m s"
  then obtain i where i: "track_name_to_num t (lit s) = Inr (int i)" "i < m"
    using lookup_known [OF assms(1,2) le_refl] by blast
  have "int i < int TRACK_MAX" using i(2) names_okD(3) [OF assms(1)] by linarith
  then show ?thesis using i(1) by blast
qed

lemma p_v_range: "p_v_train_num n < int MAX_NUM_TRAINS"
  by (simp add: p_v_train_num_def MAX_NUM_TRAINS_def eval_nat_numeral)

lemma v_p_ok: "\<not> p_v_train_num n < 0 \<Longrightarrow> \<exists>p. v_p_train_num (p_v_train_num n) = Inr p"
  using p_v_range [of n] by (simp add: v_p_train_num_def rdi_def supported_trains_def MAX_NUM_TRAINS_def rd_def nat_less_iff)

lemma rdi_track: "names_ok t m \<Longrightarrow> \<not> n < 0 \<Longrightarrow> n < int TRACK_MAX \<Longrightarrow> \<exists>x. rdi t n = Inr x"
  using names_okD(1) [of t m] by (simp add: rdi_def rd_def nat_less_iff)

lemma parse_safe:
  assumes names: "names_ok t m" and ws: "\<forall>i. NUL \<notin> set (word ws i)" and safe: "safe_line t m ws"
  shows "\<exists>v. parse_command t (\<lambda>i. lit (word ws i)) = Inr v \<and> verdict_ok v"
proof -
  let ?tok = "\<lambda>i. lit (word ws i)" and ?w = "word ws 0"
  have num: "\<exists>n. atoi (?tok i) = Inr n" if "0 < i" for i
    using atoi_bound [of "word ws i"] ws safe that by (simp add: safe_line_def)
  obtain n1 n2 n3 where n: "atoi (?tok 1) = Inr n1" "atoi (?tok 2) = Inr n2" "atoi (?tok 3) = Inr n3"
    using num [of 1] num [of 2] num [of 3] by auto
  note trains = v_p_ok [of n1] v_p_ok [of n2] p_v_range [of n1] p_v_range [of n2]
  have tr: "\<exists>v. parse_tr ?tok = Inr v \<and> verdict_ok v"
    using n trains by (auto simp: parse_tr_def train_ok_def)
  have sw: "\<exists>v. parse_sw ?tok = Inr v \<and> verdict_ok v"
    using n by (auto simp: parse_sw_def lit_def)
  have rv: "\<exists>v. parse_rv ?tok = Inr v \<and> verdict_ok v"
    using n trains by (auto simp: parse_rv_def train_ok_def)
  have gt: "\<exists>v. parse_gt t ?tok = Inr v \<and> verdict_ok v" if h: "?w = ''gt''"
  proof -
    obtain d where "track_name_to_num t (?tok 2) = Inr d" "d < int TRACK_MAX"
      using lookup_ok [OF names, of "word ws 2"] ws safe h by (auto simp: safe_line_def)
    then show ?thesis using n trains rdi_track [OF names, of d] by (auto simp: parse_gt_def train_ok_def)
  qed
  have reg: "\<exists>v. parse_reg t ?tok = Inr v \<and> verdict_ok v" if h: "?w = ''reg''"
  proof -
    obtain d where "track_name_to_num t (?tok 2) = Inr d" "d < int TRACK_MAX"
      using lookup_ok [OF names, of "word ws 2"] ws safe h by (auto simp: safe_line_def)
    then show ?thesis using n trains rdi_track [OF names, of d] by (auto simp: parse_reg_def train_ok_def)
  qed
  have mock: "\<exists>v. parse_mock t ?tok = Inr v \<and> verdict_ok v" if "?w = ''mock''"
  proof -
    have known: "name_known t 80 (word ws 1)" using safe that by (simp add: safe_line_def)
    have "\<exists>d. track_name_to_num t (?tok 1) = Inr d \<and> 0 \<le> d \<and> d < 80 \<and> d < int TRACK_MAX"
    proof (cases "word ws 1 = []")
      case True
      then show ?thesis using track_name_to_num_empty [OF names, of "?tok 1"] by (simp add: TRACK_MAX_def)
    next
      case False
      then obtain i where i: "i < 80" "n_name (t ! i) = Some (word ws 1)" using known by (auto simp: name_known_def)
      have "i < m"
      proof (rule ccontr)
        assume "\<not> i < m"
        then show False using names_okD(5) [OF names, of i] i by (simp add: TRACK_MAX_def)
      qed
      then show ?thesis using track_name_to_num_ok [OF names, of "?tok 1" i] ws i by (simp add: TRACK_MAX_def)
    qed
    then obtain d where d: "track_name_to_num t (?tok 1) = Inr d" "0 \<le> d" "d < 80" "d < int TRACK_MAX" by blast
    then show ?thesis using rdi_track [OF names, of d] by (auto simp: parse_mock_def)
  qed
  have random: "\<exists>v. parse_random ?tok = Inr v \<and> verdict_ok v"
    using n trains by (auto simp: parse_random_def train_ok_def)
  have die: "?w \<noteq> ''die''" using safe by (simp add: safe_line_def)
  have "\<exists>v. parse_word t (if ?w \<in> set words then Some ?w else None) ?tok = Inr v \<and> verdict_ok v"
    unfolding parse_word_def using tr sw rv gt reg mock random die by simp
  then show ?thesis using command_word_words [of ?w] ws by (simp add: parse_command_def)
qed

subsection \<open>Carrying out the queue\<close>

text \<open>What the servers are sent: what they accept of the shell.\<close>

fun act_ok :: "shell_act \<Rightarrow> bool" where
  "act_ok (Shell_Train (SPEED train speed time)) \<longleftrightarrow> train_ok train \<and> 0 \<le> speed \<and> speed \<le> 15"
| "act_ok (Shell_Train (SWITCH n d time)) \<longleftrightarrow> 1 \<le> n \<and> n \<le> NUM_SWITCHES \<and> d \<in> {0, 1}"
| "act_ok (Shell_Train _) \<longleftrightarrow> False"
| "act_ok (Shell_Navigation (NAVIGATION_REQUEST train dest offset hang)) \<longleftrightarrow> train_ok train \<and> 0 \<le> dest \<and> dest < int TRACK_MAX \<and> \<not> hang"
| "act_ok (Shell_Navigation (REGISTER_LOCATION train source)) \<longleftrightarrow> train_ok train \<and> 0 \<le> source \<and> source < int TRACK_MAX"
| "act_ok (Shell_Navigation _) \<longleftrightarrow> False"
| "act_ok (Shell_Dispatch (SENSOR_UPDATE readings time)) \<longleftrightarrow>
     (\<exists>s < 80. readings = (replicate NUM_SENSOR_GROUPS 0)[s div 8 := drop_bit (s mod 8) 0x80])"
| "act_ok (Shell_Dispatch _) \<longleftrightarrow> False"
| "act_ok (Shell_Random type train) \<longleftrightarrow> type \<in> {1..3} \<and> train_ok train"
| "act_ok Shell_Shutdown \<longleftrightarrow> True"
| "act_ok (Shell_Debug s) \<longleftrightarrow> True"

lemma mock_ok:
  assumes "0 \<le> s" "s < 80"
  shows "wri (replicate NUM_SENSOR_GROUPS (0 :: 8 word)) (s sdiv int SENSORS_PER_GROUP) (drop_bit (nat (s smod int SENSORS_PER_GROUP)) 0x80) =
    Inr ((replicate NUM_SENSOR_GROUPS 0)[nat s div 8 := drop_bit (nat s mod 8) 0x80])"
proof -
  have "s sdiv 8 = int (nat s div 8)" "s smod 8 = int (nat s mod 8)"
    using assms by (simp_all add: signed_divide_int_def signed_modulo_int_def sgn_if zdiv_int zmod_int)
  moreover have "nat s div 8 < 10" using assms(2) by (simp add: less_mult_imp_div_less nat_less_iff)
  ultimately show ?thesis by (simp add: wri_def SENSORS_PER_GROUP_def NUM_SENSOR_GROUPS_def)
qed

lemma exec_ok:
  assumes "command_ok c" "length speeds = MAX_NUM_TRAINS" "length t = TRACK_MAX"
  shows "\<exists>speeds' acts. exec_command t now res speeds c = Inr (speeds', acts) \<and> length speeds' = MAX_NUM_TRAINS \<and> list_all act_ok acts"
proof (cases c)
  case (COMMAND_TR train speed)
  then show ?thesis using assms by (auto simp: wri_def wr_def train_ok_def nat_less_iff TrainCommand_def)
next
  case (COMMAND_GT train dest offset)
  then obtain p x where "v_p_train_num train = Inr p" "rdi t dest = Inr x"
    using assms by (auto simp: train_ok_def v_p_train_num_def rdi_def rd_def supported_trains_def MAX_NUM_TRAINS_def nat_less_iff)
  then show ?thesis using COMMAND_GT assms by (auto simp: navigation_message_def split: navigation_response.splits)
next
  case (COMMAND_MOCK s)
  then have s: "0 \<le> s" "s < 80" using assms(1) by simp_all
  have "nat s < 80" using s by (simp add: nat_less_iff)
  then show ?thesis using COMMAND_MOCK assms(2) mock_ok [OF s] by auto
qed (use assms in \<open>auto simp: TrainCommand_def\<close>)

text \<open>The loop over the queue as a recursion over the commands in it.\<close>

fun run_commands ::
  "track_node list \<Rightarrow> (nat \<Rightarrow> int) \<Rightarrow> (nat \<Rightarrow> navigation_response) \<Rightarrow> nat \<Rightarrow> int list \<Rightarrow> command list \<Rightarrow> (int list \<times> shell_act list) cres" where
  "run_commands t clock nav k speeds [] = Inr (speeds, [])"
| "run_commands t clock nav k speeds (c # cs) =
     cbind (exec_command t (clock k) (nav k) speeds c) (\<lambda>(speeds', acts).
     cbind (run_commands t clock nav (k + 1) speeds' cs) (\<lambda>(speeds'', acts'). Inr (speeds'', acts @ acts')))"

lemma flush_run:
  assumes "cb_inv (sh_commands st)"
  shows "\<exists>cb. cb_inv cb \<and> cb_items cb = [] \<and> cb_capacity cb = cb_capacity (sh_commands st) \<and>
    flush_commands t clock nav k st =
      cbind (run_commands t clock nav k (sh_prev_speed st) (cb_items (sh_commands st))) (\<lambda>(speeds, acts).
        Inr (st\<lparr> sh_commands := cb, sh_prev_speed := speeds \<rparr>, acts))"
  using assms
proof (induction "cb_count (sh_commands st)" arbitrary: st k)
  case 0
  then have "cb_items (sh_commands st) = []" using length_cb_items [OF 0(2)] by simp
  then show ?case using 0 by (intro exI [of _ "sh_commands st"]) (simp add: flush_commands.simps)
next
  case (Suc n)
  obtain cb where cb: "cb_pop_front (sh_commands st) = Inr (cb, 0, Some (hd (cb_items (sh_commands st))))" "cb_inv cb"
    "cb_items cb = tl (cb_items (sh_commands st))" "cb_capacity cb = cb_capacity (sh_commands st)" "cb_count cb = n"
    using cb_pop_ok [OF Suc.prems] Suc.hyps(2) by (metis diff_Suc_1 nat.distinct(1))
  obtain c cs where items: "cb_items (sh_commands st) = c # cs"
    using length_cb_items [OF Suc.prems] Suc.hyps(2) by (cases "cb_items (sh_commands st)") simp_all
  show ?case
  proof (cases "exec_command t (clock k) (nav k) (sh_prev_speed st) c")
    case (Inl e)
    then have "flush_commands t clock nav k st = Inl e"
      using cb(1) items Suc.hyps(2) by (subst flush_commands.simps) simp
    moreover have "0 < cb_capacity (sh_commands st)" using Suc.prems by (auto simp: cb_inv_def)
    ultimately show ?thesis
      using Inl items by (intro exI [of _ "cb_init c (cb_capacity (sh_commands st))"]) (simp add: cb_init_inv)
  next
    case (Inr r)
    obtain speeds acts where r: "r = (speeds, acts)" by (cases r)
    let ?st = "st\<lparr> sh_commands := cb, sh_prev_speed := speeds \<rparr>"
    obtain cb' where cb': "cb_inv cb'" "cb_items cb' = []" "cb_capacity cb' = cb_capacity cb"
      "flush_commands t clock nav (k + 1) ?st = cbind (run_commands t clock nav (k + 1) speeds cs) (\<lambda>(speeds', acts').
        Inr (?st\<lparr> sh_commands := cb', sh_prev_speed := speeds' \<rparr>, acts'))"
      using Suc.hyps(1) [of ?st "k + 1"] cb items by auto
    have "flush_commands t clock nav k st = cbind (flush_commands t clock nav (k + 1) ?st) (\<lambda>(st', acts'). Inr (st', acts @ acts'))"
      using cb(1) items Suc.hyps(2) Inr r by (subst flush_commands.simps) simp
    then have "flush_commands t clock nav k st =
      cbind (run_commands t clock nav k (sh_prev_speed st) (cb_items (sh_commands st))) (\<lambda>(speeds, acts).
        Inr (st\<lparr> sh_commands := cb', sh_prev_speed := speeds \<rparr>, acts))"
      using cb'(4) items Inr r by (auto simp: cbind_def split: sum.splits prod.splits)
    then show ?thesis using cb' cb(4) by auto
  qed
qed

lemma run_ok:
  assumes "list_all command_ok cs" "length speeds = MAX_NUM_TRAINS" "length t = TRACK_MAX"
  shows "\<exists>speeds' acts. run_commands t clock nav k speeds cs = Inr (speeds', acts) \<and> length speeds' = MAX_NUM_TRAINS \<and> list_all act_ok acts"
  using assms(1,2)
proof (induction cs arbitrary: k speeds)
  case (Cons c cs)
  obtain speeds1 acts1 where one: "exec_command t (clock k) (nav k) speeds c = Inr (speeds1, acts1)"
    "length speeds1 = MAX_NUM_TRAINS" "list_all act_ok acts1"
    using exec_ok [of c speeds t "clock k" "nav k"] Cons.prems assms(3) by auto
  obtain speeds2 acts2 where "run_commands t clock nav (k + 1) speeds1 cs = Inr (speeds2, acts2)"
    "length speeds2 = MAX_NUM_TRAINS" "list_all act_ok acts2"
    using Cons.IH [of speeds1 "k + 1"] Cons.prems(1) one(2) by auto
  then show ?case using one by simp
qed simp

subsection \<open>A key\<close>

text \<open>
  The state between two keys: the line ends in the array unless it is full, and the queue holds commands of
  the right types, none outside of planning mode.
\<close>

definition shell_core :: "shell \<Rightarrow> bool" where
  "shell_core st \<longleftrightarrow> length (sh_input st) = TERMINALMAXINPUTSIZE \<and> sh_len st \<le> TERMINALMAXINPUTSIZE \<and>
     (sh_len st < TERMINALMAXINPUTSIZE \<longrightarrow> sh_input st ! (TERMINALMAXINPUTSIZE - 1) = NUL) \<and>
     length (sh_prev_speed st) = MAX_NUM_TRAINS \<and> cb_inv (sh_commands st) \<and> cb_capacity (sh_commands st) = MAX_PLANNED_COMMANDS \<and>
     list_all command_ok (cb_items (sh_commands st))"

definition shell_inv :: "shell \<Rightarrow> bool" where
  "shell_inv st \<longleftrightarrow> shell_core st \<and> (\<not> sh_planning st \<longrightarrow> cb_items (sh_commands st) = [])"

lemma shell_start_inv: "shell_inv shell_start"
  by (simp add: shell_inv_def shell_core_def shell_start_def TERMINALMAXINPUTSIZE_def MAX_PLANNED_COMMANDS_def cb_init_inv)

lemma split_line: "terminated buf \<Longrightarrow> \<exists>post. buf = cstr buf @ NUL # post"
  by (induction buf) (auto simp: terminated_Cons cstr_Cons, simp add: terminated_def)

lemma word_NUL: "NUL \<notin> set w \<Longrightarrow> NUL \<notin> set (word (words_of w) i)"
  using words_of_NUL [of w "words_of w ! i"] by (simp add: word_def)

lemma enter_step:
  assumes "sh_len st < TERMINALMAXINPUTSIZE" "sh_input st = w @ NUL # post" "NUL \<notin> set w" "length (words_of w) \<le> MAX_COMMAND_TOKENS"
  shows "shell_step t clock nav (CHR 0x0D) st =
    cbind (parse_command t (\<lambda>i. lit (word (words_of w) i))) (\<lambda>v.
      obey t clock nav v (st\<lparr> sh_input := blanked w @ NUL # post, sh_len := 0 \<rparr>))"
proof -
  let ?line = "blanked w @ NUL # post"
  obtain tokens where tokens: "tokenizer (w @ NUL # post) (replicate MAX_COMMAND_TOKENS None) MAX_COMMAND_TOKENS = Inr (?line, tokens)"
    "\<forall>i < MAX_COMMAND_TOKENS. terminated (token ?line tokens i) \<and> cstr (token ?line tokens i) = word (words_of w) i"
    by (rule tokenizer_ok [OF assms(3,4)])
  have "parse_command t (token ?line tokens) = parse_command t (\<lambda>i. lit (word (words_of w) i))"
    by (rule parse_command_text) (rule tokens(2))
  then show ?thesis using assms(1,2) tokens(1) by (simp add: shell_step_def handle_new_char_def)
qed

lemma finish_line_ok:
  assumes "shell_core st" "length t = TRACK_MAX"
  shows "\<exists>speeds acts' cb. (if sh_planning st then acts' = [] \<and> speeds = sh_prev_speed st \<and> cb = sh_commands st
      else run_commands t clock nav 0 (sh_prev_speed st) (cb_items (sh_commands st)) = Inr (speeds, acts') \<and> cb_items cb = []) \<and>
    finish_line t clock nav st acts =
      Inr (st\<lparr> sh_input := replicate TERMINALMAXINPUTSIZE NUL, sh_commands := cb, sh_prev_speed := speeds \<rparr>, acts @ acts') \<and>
    list_all act_ok acts' \<and>
    shell_inv (st\<lparr> sh_input := replicate TERMINALMAXINPUTSIZE NUL, sh_commands := cb, sh_prev_speed := speeds \<rparr>)"
proof (cases "sh_planning st")
  case True
  have "finish_line t clock nav st acts = Inr (st\<lparr> sh_input := replicate TERMINALMAXINPUTSIZE NUL \<rparr>, acts)"
    using True assms(1) by (simp add: finish_line_def memset_ok shell_core_def)
  then show ?thesis
    using True assms(1) by (intro exI [of _ "sh_prev_speed st"] exI [of _ "[]"] exI [of _ "sh_commands st"])
      (simp add: shell_inv_def shell_core_def TERMINALMAXINPUTSIZE_def)
next
  case False
  have core: "cb_inv (sh_commands st)" "list_all command_ok (cb_items (sh_commands st))" "length (sh_prev_speed st) = MAX_NUM_TRAINS"
    using assms(1) by (simp_all add: shell_core_def)
  obtain cb where cb: "cb_inv cb" "cb_items cb = []" "cb_capacity cb = cb_capacity (sh_commands st)"
    "flush_commands t clock nav 0 st =
      cbind (run_commands t clock nav 0 (sh_prev_speed st) (cb_items (sh_commands st))) (\<lambda>(speeds, acts).
        Inr (st\<lparr> sh_commands := cb, sh_prev_speed := speeds \<rparr>, acts))"
    using flush_run [OF core(1)] by blast
  obtain speeds acts' where run: "run_commands t clock nav 0 (sh_prev_speed st) (cb_items (sh_commands st)) = Inr (speeds, acts')"
    "length speeds = MAX_NUM_TRAINS" "list_all act_ok acts'"
    using run_ok [OF core(2,3) assms(2)] by blast
  have "finish_line t clock nav st acts =
      Inr (st\<lparr> sh_input := replicate TERMINALMAXINPUTSIZE NUL, sh_commands := cb, sh_prev_speed := speeds \<rparr>, acts @ acts')"
    using False assms(1) cb(4) run(1) by (simp add: finish_line_def memset_ok shell_core_def)
  then show ?thesis
    using False assms(1) cb run by (intro exI [of _ speeds] exI [of _ acts'] exI [of _ cb])
      (simp add: shell_inv_def shell_core_def TERMINALMAXINPUTSIZE_def)
qed

lemma push_command_core:
  assumes "shell_core st" "command_ok c"
  obtains cb where "cb_push_back (sh_commands st) c False = Inr (cb, if length (cb_items (sh_commands st)) < MAX_PLANNED_COMMANDS then 0 else CB_FULL)"
    "cb_items cb = (if length (cb_items (sh_commands st)) < MAX_PLANNED_COMMANDS then cb_items (sh_commands st) @ [c] else cb_items (sh_commands st))"
    "shell_core (st\<lparr> sh_commands := cb \<rparr>)"
proof -
  have inv: "cb_inv (sh_commands st)" "cb_capacity (sh_commands st) = MAX_PLANNED_COMMANDS"
    using assms(1) by (simp_all add: shell_core_def)
  note len = length_cb_items [OF inv(1)]
  show ?thesis
  proof (cases "cb_count (sh_commands st) < cb_capacity (sh_commands st)")
    case True
    obtain cb where "cb_push_back (sh_commands st) c False = Inr (cb, 0)" "cb_inv cb" "cb_items cb = cb_items (sh_commands st) @ [c]"
      "cb_capacity cb = cb_capacity (sh_commands st)"
      using cb_push_ok [OF inv(1) True, of c False] by blast
    then show ?thesis using True assms len inv(2) by (intro that [of cb]) (simp_all add: shell_core_def)
  next
    case False
    then have "cb_count (sh_commands st) = cb_capacity (sh_commands st)" using inv(1) by (simp add: cb_inv_def)
    then show ?thesis
      using cb_push_full [OF inv(1), of c] assms len inv(2) by (intro that [of "sh_commands st"]) simp_all
  qed
qed

lemma obey_ok:
  assumes "shell_inv st" "verdict_ok v" "length t = TRACK_MAX"
  shows "\<exists>st' acts. obey t clock nav v st = Inr (st', acts) \<and> shell_inv st' \<and> list_all act_ok acts"
proof (cases v)
  case Doneplan
  have "shell_core (st\<lparr> sh_planning := False \<rparr>)" using assms(1) by (simp add: shell_inv_def shell_core_def)
  then show ?thesis
    using Doneplan assms(1) finish_line_ok [of "st\<lparr> sh_planning := False \<rparr>" t clock nav] assms(3) by (fastforce simp: obey_def)
next
  case (Queue c)
  have "shell_core st" "command_ok c" using assms(1,2) Queue by (simp_all add: shell_inv_def)
  then obtain cb status where "cb_push_back (sh_commands st) c False = Inr (cb, status)" "shell_core (st\<lparr> sh_commands := cb \<rparr>)"
    using push_command_core by blast
  then show ?thesis
    using Queue finish_line_ok [of "st\<lparr> sh_commands := cb \<rparr>" t clock nav] assms(3) by (fastforce simp: obey_def)
next
  case Unknown
  then show ?thesis
    using assms(1) finish_line_ok [of st t clock nav] assms(3) by (fastforce simp: obey_def shell_inv_def)
qed (use assms in \<open>auto simp: obey_def shell_inv_def shell_core_def\<close>)

text \<open>Enter on a harmless line, up to what is then done about it.\<close>

lemma enter_ok:
  assumes "names_ok t m" "shell_inv st" "sh_len st < TERMINALMAXINPUTSIZE" "safe_line t m (words_of (cstr (sh_input st)))"
  obtains st1 tokens v where
    "handle_new_char (CHR 0x0D) st (replicate MAX_COMMAND_TOKENS None) = Inr (True, st1, tokens)"
    "parse_command t (token (sh_input st1) tokens) = Inr v"
    "parse_command t (\<lambda>i. lit (word (words_of (cstr (sh_input st))) i)) = Inr v" "verdict_ok v"
    "shell_inv st1" "sh_len st1 = 0" "sh_commands st1 = sh_commands st"
proof -
  let ?w = "cstr (sh_input st)"
  have core: "shell_core st" using assms(2) by (simp add: shell_inv_def)
  then have len: "length (sh_input st) = 20" "sh_len st < 20" "sh_input st ! 19 = NUL"
    using assms(3) by (simp_all add: shell_core_def TERMINALMAXINPUTSIZE_def)
  then have "terminated (sh_input st)" using nth_mem [of 19 "sh_input st"] by (simp add: terminated_def)
  then obtain w post where line: "sh_input st = w @ NUL # post" and w: "w = ?w" using split_line by blast
  have free: "NUL \<notin> set w" by (simp add: w)
  have safe: "safe_line t m (words_of w)" unfolding w by (rule assms(4))
  let ?line = "blanked w @ NUL # post"
  let ?st = "st\<lparr> sh_input := ?line, sh_len := 0 \<rparr>"
  have few: "length (words_of w) \<le> MAX_COMMAND_TOKENS" using safe by (simp add: safe_line_def)
  obtain tokens where tokens: "tokenizer (w @ NUL # post) (replicate MAX_COMMAND_TOKENS None) MAX_COMMAND_TOKENS = Inr (?line, tokens)"
    "\<forall>i < MAX_COMMAND_TOKENS. terminated (token ?line tokens i) \<and> cstr (token ?line tokens i) = word (words_of w) i"
    by (rule tokenizer_ok [OF free few])
  have parse: "parse_command t (token ?line tokens) = parse_command t (\<lambda>i. lit (word (words_of w) i))"
    by (rule parse_command_text) (rule tokens(2))
  obtain v where v: "parse_command t (\<lambda>i. lit (word (words_of w) i)) = Inr v" "verdict_ok v"
    using parse_safe [OF assms(1) _ safe] word_NUL [OF free] by auto
  have total: "length (w @ NUL # post) = 20" using len(1) unfolding line .
  then have "length ?line = 20" by (simp add: blanked_def)
  moreover have "?line ! 19 = NUL"
  proof (cases "19 < length w")
    case True
    then show ?thesis using total by simp
  next
    case False
    then show ?thesis using len(3) unfolding line by (simp add: blanked_def nth_append)
  qed
  ultimately have "shell_inv ?st" using assms(2) by (simp add: shell_inv_def shell_core_def TERMINALMAXINPUTSIZE_def)
  moreover have "handle_new_char (CHR 0x0D) st (replicate MAX_COMMAND_TOKENS None) = Inr (True, ?st, tokens)"
    using tokens(1) line assms(3) by (simp add: handle_new_char_def)
  ultimately show ?thesis using that parse v w by simp
qed



subsection \<open>Lines for commands\<close>

text \<open>The line a user types for a command.\<close>

fun digits :: "nat \<Rightarrow> string" where
  "digits n = (if n < 10 then [char_of (48 + n)] else digits (n div 10) @ [char_of (48 + n mod 10)])"

declare digits.simps [simp del]

definition decimal :: "int \<Rightarrow> string" where
  "decimal n = (if n < 0 then CHR ''-'' # digits (nat (- n)) else digits (nat n))"

definition node_name :: "track_node list \<Rightarrow> int \<Rightarrow> string" where
  "node_name t i = the (n_name (t ! nat i))"

definition train_name :: "int \<Rightarrow> string" where
  "train_name train = decimal (supported_trains ! nat train)"

fun command_words :: "track_node list \<Rightarrow> command \<Rightarrow> string list" where
  "command_words t (COMMAND_TR train speed) = [''tr'', train_name train, decimal speed]"
| "command_words t (COMMAND_SW n d) = [''sw'', decimal n, [d]]"
| "command_words t (COMMAND_RV train) = [''rv'', train_name train]"
| "command_words t COMMAND_Q = [''q'']"
| "command_words t (COMMAND_GT train dest offset) = [''gt'', train_name train, node_name t dest, decimal offset]"
| "command_words t COMMAND_DIE = [''die'']"
| "command_words t (COMMAND_REG train source) = [''reg'', train_name train, node_name t source]"
| "command_words t (COMMAND_MOCK sensor) = [''mock'', node_name t sensor]"
| "command_words t (COMMAND_RANDOM train type) = [''random'', decimal type, train_name train]"

fun unwords :: "string list \<Rightarrow> string" where
  "unwords [] = []"
| "unwords [w] = w"
| "unwords (w # ws) = w @ CHR '' '' # unwords ws"

definition command_line :: "track_node list \<Rightarrow> command \<Rightarrow> string" where
  "command_line t c = unwords (command_words t c)"

text \<open>The nodes a command names, and the names that can be typed as a word.\<close>

fun command_nodes :: "command \<Rightarrow> int set" where
  "command_nodes (COMMAND_GT train dest offset) = {dest}"
| "command_nodes (COMMAND_REG train source) = {source}"
| "command_nodes (COMMAND_MOCK sensor) = {sensor}"
| "command_nodes _ = {}"

fun command_numbers :: "command \<Rightarrow> int set" where
  "command_numbers (COMMAND_GT train dest offset) = {offset}"
| "command_numbers _ = {}"

definition plain :: "string \<Rightarrow> bool" where
  "plain s \<longleftrightarrow> list_all (\<lambda>c. c \<notin> {NUL, CHR '' '', CHR 0x08, CHR 0x0D}) s"

lemma plain_append [simp]: "plain (u @ v) \<longleftrightarrow> plain u \<and> plain v"
  by (simp add: plain_def)

lemma plain_Cons [simp]: "plain (c # s) \<longleftrightarrow> c \<notin> {NUL, CHR '' '', CHR 0x08, CHR 0x0D} \<and> plain s" "plain []"
  by (simp_all add: plain_def)

lemma words_of_plain: "plain u \<Longrightarrow> words_of u = [u]"
  by (induction u) auto

lemma words_of_cons: "plain u \<Longrightarrow> words_of (u @ CHR '' '' # v) = u # words_of v"
  by (induction u) auto

lemma words_of_unwords: "list_all plain ws \<Longrightarrow> ws \<noteq> [] \<Longrightarrow> words_of (unwords ws) = ws"
  by (induction ws rule: unwords.induct) (simp_all add: words_of_plain words_of_cons)

lemma unwords_keys: "list_all plain ws \<Longrightarrow> c \<in> set (unwords ws) \<Longrightarrow> c \<noteq> NUL \<and> c \<noteq> CHR 0x08 \<and> c \<noteq> CHR 0x0D"
  by (induction ws rule: unwords.induct) (auto simp: plain_def list_all_iff)

lemma digit_value: "d < (10 :: nat) \<Longrightarrow> of_char (char_of (48 + d) :: char) = (48 + int d :: int)"
proof -
  assume d: "d < 10"
  have "of_char (char_of (48 + d) :: char) = int (of_char (char_of (48 + d) :: char))" by (rule of_nat_of_char [symmetric])
  then show ?thesis using d by simp
qed

lemma digit_other: "d < (10 :: nat) \<Longrightarrow> of_char c \<notin> {48 .. 57 :: int} \<Longrightarrow> char_of (48 + d) \<noteq> (c :: char)"
  using digit_value [of d] by auto

lemma digits_plain: "plain (digits n)"
proof (induction n rule: digits.induct)
  case (1 n)
  have one: "plain [char_of (48 + d)]" if "d < 10" for d :: nat
    using digit_other [OF that, of NUL] digit_other [OF that, of "CHR '' ''"] digit_other [OF that, of "CHR 0x08"]
      digit_other [OF that, of "CHR 0x0D"] by simp
  then show ?case using 1 by (subst digits.simps) auto
qed

lemma decimal_plain: "plain (decimal n)" "plain (train_name train)"
  using digits_plain by (simp_all add: decimal_def train_name_def)

lemma digits_ne: "digits n \<noteq> []" "hd (digits n) \<noteq> CHR ''-''"
proof (induction n rule: digits.induct)
  case (1 n)
  have "char_of (48 + d) \<noteq> CHR ''-''" if "d < 10" for d :: nat
    using digit_other [OF that, of "CHR ''-''"] by simp
  then show "digits n \<noteq> []" "hd (digits n) \<noteq> CHR ''-''" using 1 by (subst digits.simps; simp)+
qed

text \<open>The shell reads back a number.\<close>

lemma atoi_loop_digit:
  assumes "d < 10" "0 \<le> res" "res < 10 ^ 7"
  shows "atoi_loop (char_of (48 + d) # str) i res neg = atoi_loop str (i + 1) (res * 10 + int d) neg"
proof -
  have "char_of (48 + d) \<noteq> NUL" "char_of (48 + d) \<noteq> CHR ''-''"
    using digit_other [OF assms(1), of NUL] digit_other [OF assms(1), of "CHR ''-''"] by simp_all
  then show ?thesis using assms digit_value [OF assms(1)] by (simp add: cint_def)
qed

lemma atoi_loop_digits:
  "n < 10 ^ 7 \<Longrightarrow> atoi_loop (digits n @ str) i 0 neg = atoi_loop str (i + length (digits n)) (int n) neg"
proof (induction n arbitrary: str i rule: digits.induct)
  case (1 n)
  show ?case
  proof (cases "n < 10")
    case True
    then show ?thesis using atoi_loop_digit [of n 0 str i neg] by (simp add: digits.simps [of n])
  next
    case False
    have "atoi_loop (digits n @ str) i 0 neg = atoi_loop (digits (n div 10) @ char_of (48 + n mod 10) # str) i 0 neg"
      using False by (simp add: digits.simps [of n])
    also have "\<dots> = atoi_loop (char_of (48 + n mod 10) # str) (i + length (digits (n div 10))) (int (n div 10)) neg"
      using 1 False by simp
    also have "\<dots> = atoi_loop str (i + length (digits (n div 10)) + 1) (int (n div 10) * 10 + int (n mod 10)) neg"
      by (rule atoi_loop_digit) (use "1.prems" in \<open>simp_all add: zdiv_int\<close>)
    also have "int (n div 10) * 10 + int (n mod 10) = int n" by (metis div_mult_mod_eq of_nat_add of_nat_mult of_nat_numeral)
    finally show ?thesis using False by (simp add: digits.simps [of n])
  qed
qed

lemma atoi_decimal:
  assumes "\<bar>n\<bar> < 10 ^ 7"
  shows "atoi (lit (decimal n)) = Inr n"
proof (cases "n < 0")
  case True
  have "atoi_loop (lit (decimal n)) 0 0 False = atoi_loop (digits (nat (- n)) @ [NUL]) 1 0 True"
    using True by (simp add: decimal_def lit_def)
  also have "\<dots> = Inr (- n, True)" using True assms by (simp add: atoi_loop_digits nat_less_iff)
  finally show ?thesis using True assms by (simp add: atoi_def cint_def)
next
  case False
  have "atoi_loop (lit (decimal n)) 0 0 False = Inr (n, False)"
    using False assms by (simp add: decimal_def lit_def atoi_loop_digits nat_less_iff)
  then show ?thesis by (simp add: atoi_def)
qed

lemma atoi_train:
  assumes "train_ok train"
  shows "\<exists>p. atoi (lit (train_name train)) = Inr p \<and> p_v_train_num p = train \<and> v_p_train_num train = Inr p"
proof -
  have "nat train < 6" using assms by (simp add: train_ok_def MAX_NUM_TRAINS_def nat_less_iff)
  then consider "nat train = 0" | "nat train = 1" | "nat train = 2" | "nat train = 3" | "nat train = 4" | "nat train = 5" by linarith
  then have "\<bar>supported_trains ! nat train\<bar> < 10 ^ 7 \<and> p_v_train_num (supported_trains ! nat train) = int (nat train)"
    by cases (simp_all add: supported_trains_def p_v_train_num_def MAX_NUM_TRAINS_def eval_nat_numeral)
  then show ?thesis
    using assms \<open>nat train < 6\<close>
    by (auto simp: train_name_def atoi_decimal v_p_train_num_def rdi_def supported_trains_def train_ok_def)
qed

lemma rd_lit: "rd (lit (c # s)) 0 = Inr c"
  by (simp add: lit_def)

text \<open>The words of a command are understood as that command.\<close>

lemma parse_command_words:
  assumes names: "names_ok t m" and c: "command_ok c" and nodes: "\<forall>i \<in> command_nodes c. 0 \<le> i \<and> i < int m"
    and numbers: "\<forall>n \<in> command_numbers c. \<bar>n\<bar> < 10 ^ 7"
  shows "parse_command t (\<lambda>i. lit (word (command_words t c) i)) = Inr (Queue c)"
proof -
  have node: "track_name_to_num t (lit (node_name t i)) = Inr i \<and> (\<exists>x. rdi t i = Inr x)" if "0 \<le> i" "i < int m" for i
  proof -
    have i: "nat i < m" using that by (simp add: nat_less_iff)
    obtain s where "n_name (t ! nat i) = Some s" "NUL \<notin> set s" using names_okD(4) [OF names i] by auto
    then have "track_name_to_num t (lit (node_name t i)) = Inr i"
      using track_name_to_num_ok [OF names, of "lit s" "nat i"] i that by (simp add: node_name_def)
    moreover have "i < int TRACK_MAX" using that names_okD(3) [OF names] by linarith
    ultimately show ?thesis using rdi_track [OF names, of i] that by simp
  qed
  have free: "NUL \<notin> set (word (command_words t c) 0)" by (cases c) (simp_all add: word_def)
  have word: "command_word (lit (word (command_words t c) 0)) words = Inr (Some (word (command_words t c) 0))"
    unfolding command_word_words [OF free] by (cases c) (use c in \<open>simp_all add: word_def words_def\<close>)
  have step: "parse_command t (\<lambda>i. lit (word (command_words t c) i)) =
      parse_word t (Some (word (command_words t c) 0)) (\<lambda>i. lit (word (command_words t c) i))"
    by (simp add: parse_command_def word)
  note defs = parse_word_def word_def
  have "parse_word t (Some (word (command_words t c) 0)) (\<lambda>i. lit (word (command_words t c) i)) = Inr (Queue c)"
  proof (cases c)
    case (COMMAND_TR train speed)
    then show ?thesis using c atoi_train [of train] by (auto simp: defs parse_tr_def atoi_decimal train_ok_def)
  next
    case (COMMAND_SW n d)
    then show ?thesis using c by (auto simp: defs parse_sw_def atoi_decimal NUM_SWITCHES_def rd_lit)
  next
    case (COMMAND_RV train)
    then show ?thesis using c atoi_train [of train] by (auto simp: defs parse_rv_def train_ok_def)
  next
    case (COMMAND_GT train dest offset)
    then show ?thesis
      using c atoi_train [of train] node [of dest] nodes numbers
      by (auto simp: defs parse_gt_def atoi_decimal train_ok_def eval_nat_numeral)
  next
    case (COMMAND_REG train source)
    then show ?thesis using c atoi_train [of train] node [of source] nodes by (auto simp: defs parse_reg_def train_ok_def)
  next
    case (COMMAND_MOCK sensor)
    then show ?thesis using node [of sensor] nodes by (auto simp: defs parse_mock_def)
  next
    case (COMMAND_RANDOM train type)
    then show ?thesis using c atoi_train [of train] by (auto simp: defs parse_random_def atoi_decimal train_ok_def)
  qed (use c in \<open>simp_all add: defs\<close>)
  then show ?thesis using step by simp
qed

subsection \<open>Typing\<close>

text \<open>A shell that waits for a line: nothing typed, nothing queued.\<close>

definition shell_idle :: "shell \<Rightarrow> bool" where
  "shell_idle st \<longleftrightarrow> shell_inv st \<and> \<not> sh_planning st \<and> sh_len st = 0 \<and> sh_input st = replicate TERMINALMAXINPUTSIZE NUL"

lemma shell_keys_append:
  "shell_keys t clock nav (us @ vs) st =
    cbind (shell_keys t clock nav us st) (\<lambda>(st1, acts). cbind (shell_keys t clock nav vs st1) (\<lambda>(st2, acts'). Inr (st2, acts @ acts')))"
  by (induction us arbitrary: st) (auto simp: cbind_def split: sum.splits prod.splits)

lemma type_keys:
  assumes "length (u @ w) \<le> TERMINALMAXINPUTSIZE" "\<forall>c \<in> set w. c \<noteq> CHR 0x08 \<and> c \<noteq> CHR 0x0D"
    "sh_input st = u @ replicate (TERMINALMAXINPUTSIZE - length u) NUL" "sh_len st = length u"
  shows "shell_keys t clock nav w st =
    Inr (st\<lparr> sh_input := (u @ w) @ replicate (TERMINALMAXINPUTSIZE - length (u @ w)) NUL, sh_len := length (u @ w) \<rparr>, [])"
  using assms
proof (induction w arbitrary: u st)
  case (Cons c w)
  let ?n = "TERMINALMAXINPUTSIZE - length u"
  let ?st = "st\<lparr> sh_input := (u @ [c]) @ replicate (TERMINALMAXINPUTSIZE - length (u @ [c])) NUL, sh_len := length (u @ [c]) \<rparr>"
  have n: "?n = Suc (TERMINALMAXINPUTSIZE - length (u @ [c]))" using Cons.prems(1) by simp
  have "(sh_input st)[length u := c] = (u @ [c]) @ replicate (TERMINALMAXINPUTSIZE - length (u @ [c])) NUL"
    unfolding Cons.prems(3) n by simp
  then have "shell_step t clock nav c st = Inr (?st, [])"
    using Cons.prems by (simp add: shell_step_def handle_new_char_def)
  moreover have "shell_keys t clock nav w ?st =
      Inr (?st\<lparr> sh_input := ((u @ [c]) @ w) @ replicate (TERMINALMAXINPUTSIZE - length ((u @ [c]) @ w)) NUL, sh_len := length ((u @ [c]) @ w) \<rparr>, [])"
    by (rule Cons.IH) (use Cons.prems in simp_all)
  ultimately show ?case by simp
qed simp

text \<open>
  C33: Round trip of the command line. Every command of the right types has a line, its words with its numbers in decimal
  and its nodes by name; typed into an idle shell and ended with Enter it makes the shell carry out exactly
  that command, once, and leaves the shell idle. The line has to fit (it has at most 19 characters) and the
  names have to be words.
\<close>

theorem shell_line_roundtrip:
  assumes "names_ok t m" "shell_idle st" "command_ok c"
    and "\<forall>i \<in> command_nodes c. 0 \<le> i \<and> i < int m \<and> plain (node_name t i)" "\<forall>n \<in> command_numbers c. \<bar>n\<bar> < 10 ^ 7"
    and "length (command_line t c) < TERMINALMAXINPUTSIZE"
  shows "\<exists>st' speeds acts. exec_command t (clock 0) (nav 0) (sh_prev_speed st) c = Inr (speeds, acts) \<and>
    shell_keys t clock nav (command_line t c @ [CHR 0x0D]) st = Inr (st', acts) \<and> shell_idle st' \<and> sh_prev_speed st' = speeds"
proof -
  let ?w = "command_line t c"
  have idle: "shell_inv st" "\<not> sh_planning st" "sh_len st = 0" "sh_input st = replicate TERMINALMAXINPUTSIZE NUL"
    using assms(2) by (simp_all add: shell_idle_def)
  have empty: "cb_items (sh_commands st) = []" using idle(1,2) by (simp add: shell_inv_def)
  have plain: "list_all plain (command_words t c)"
    by (cases c) (use assms(3,4) decimal_plain in \<open>auto\<close>)
  have ne: "command_words t c \<noteq> []" by (cases c) simp_all
  have words: "words_of ?w = command_words t c" using words_of_unwords [OF plain ne] by (simp add: command_line_def)
  have keys: "c' \<noteq> NUL \<and> c' \<noteq> CHR 0x08 \<and> c' \<noteq> CHR 0x0D" if "c' \<in> set ?w" for c'
    using unwords_keys [OF plain] that by (simp add: command_line_def)
  let ?post = "replicate (TERMINALMAXINPUTSIZE - length ?w - 1) NUL"
  let ?st1 = "st\<lparr> sh_input := ?w @ NUL # ?post, sh_len := length ?w \<rparr>"
  let ?st2 = "st\<lparr> sh_input := blanked ?w @ NUL # ?post, sh_len := 0 \<rparr>"
  have post: "replicate (TERMINALMAXINPUTSIZE - length ?w) NUL = NUL # ?post"
    using assms(6) by (metis Suc_diff_Suc diff_Suc_eq_diff_pred diff_commute replicate_Suc diff_Suc_1)
  then have typed: "shell_keys t clock nav ?w st = Inr (?st1, [])"
    using type_keys [of "[]" ?w st t clock nav] idle assms(6) keys by simp
  have "length (command_words t c) \<le> 4" by (cases c) simp_all
  then have "shell_step t clock nav (CHR 0x0D) ?st1 =
      cbind (parse_command t (\<lambda>i. lit (word (words_of ?w) i))) (\<lambda>v. obey t clock nav v (?st1\<lparr> sh_input := blanked ?w @ NUL # ?post, sh_len := 0 \<rparr>))"
    using words keys assms(6) by (intro enter_step) (auto simp: MAX_COMMAND_TOKENS_def)
  then have enter: "shell_step t clock nav (CHR 0x0D) ?st1 = obey t clock nav (Queue c) ?st2"
    unfolding words using parse_command_words [OF assms(1,3) _ assms(5)] assms(4) by simp
  have core: "shell_core ?st2"
  proof -
    have "length (blanked ?w @ NUL # ?post) = TERMINALMAXINPUTSIZE" using assms(6) by (simp add: blanked_def)
    moreover have "(blanked ?w @ NUL # ?post) ! (TERMINALMAXINPUTSIZE - 1) = NUL"
    proof -
      have "\<not> TERMINALMAXINPUTSIZE - 1 < length ?w" using assms(6) by simp
      then show ?thesis unfolding post [symmetric] using assms(6) by (simp add: blanked_def nth_append)
    qed
    ultimately show ?thesis using idle(1) by (simp add: shell_inv_def shell_core_def)
  qed
  have room: "length (cb_items (sh_commands ?st2)) < MAX_PLANNED_COMMANDS" using empty by (simp add: MAX_PLANNED_COMMANDS_def)
  obtain cb where cb: "cb_push_back (sh_commands ?st2) c False = Inr (cb, 0)" "cb_items cb = [c]" "shell_core (?st2\<lparr> sh_commands := cb \<rparr>)"
    using push_command_core [OF core assms(3)] room empty by auto
  let ?st3 = "?st2\<lparr> sh_commands := cb \<rparr>"
  obtain speeds acts cb' where run: "run_commands t clock nav 0 (sh_prev_speed st) [c] = Inr (speeds, acts)"
    "finish_line t clock nav ?st3 [] = Inr (?st3\<lparr> sh_input := replicate TERMINALMAXINPUTSIZE NUL, sh_commands := cb', sh_prev_speed := speeds \<rparr>, acts)"
    "shell_inv (?st3\<lparr> sh_input := replicate TERMINALMAXINPUTSIZE NUL, sh_commands := cb', sh_prev_speed := speeds \<rparr>)"
    using finish_line_ok [OF cb(3) names_okD(1) [OF assms(1)], of clock nav "[]"] idle(2) cb(2) by auto
  let ?st4 = "?st3\<lparr> sh_input := replicate TERMINALMAXINPUTSIZE NUL, sh_commands := cb', sh_prev_speed := speeds \<rparr>"
  have "shell_keys t clock nav (?w @ [CHR 0x0D]) st = Inr (?st4, acts)"
    using typed enter cb(1) run(2) by (simp add: shell_keys_append obey_def)
  moreover have "exec_command t (clock 0) (nav 0) (sh_prev_speed st) c = Inr (speeds, acts)"
    using run(1) by (auto simp: cbind_Inr_iff split: prod.splits)
  moreover have "shell_idle ?st4" using run(3) idle(2) by (simp add: shell_idle_def)
  ultimately show ?thesis by (intro exI [of _ ?st4] exI [of _ speeds] exI [of _ acts]) simp
qed

theorem shell_line_roundtrip_witness:
  "\<exists>st'. shell_keys init_tracka (\<lambda>k. 5) (\<lambda>k. NAVIGATIONSERVER_BUSY) (''gt 24 A3 -20'' @ [CHR 0x0D]) shell_start =
    Inr (st', [Shell_Navigation (NAVIGATION_REQUEST 1 2 (-20) False), Shell_Debug ''Navigation server busy'']) \<and> shell_idle st'"
proof -
  let ?c = "COMMAND_GT 1 2 (-20)"
  have start: "shell_idle shell_start" using shell_start_inv by (simp add: shell_idle_def shell_start_def)
  have name: "node_name init_tracka 2 = ''A3''" by (simp add: node_name_def init_tracka_nth)
  have digits: "digits 24 = ''24''" "digits 20 = ''20''" by code_simp+
  have line: "command_line init_tracka ?c = ''gt 24 A3 -20''"
    by (simp add: command_line_def train_name_def supported_trains_def decimal_def digits name)
  show ?thesis
    using shell_line_roundtrip [OF names_tracka start, of ?c "\<lambda>k. 5" "\<lambda>k. NAVIGATIONSERVER_BUSY"]
    by (auto simp: line name train_ok_def MAX_NUM_TRAINS_def TRACK_MAX_def TERMINALMAXINPUTSIZE_def navigation_message_def)
qed

subsection \<open>Lines that go wrong\<close>

text \<open>A full line cannot be left again: Backspace and Enter are ignored like every other key.\<close>

lemma shell_stuck: "sh_len st = TERMINALMAXINPUTSIZE \<Longrightarrow> shell_keys t clock nav keys st = Inr (st, [])"
  by (induction keys) (simp_all add: shell_step_def handle_new_char_def)

text \<open>Six spaces write behind the array of tokens.\<close>

lemma shell_six_spaces:
  assumes "sh_len st < TERMINALMAXINPUTSIZE" "sh_input st = w @ NUL # post" "NUL \<notin> set w" "MAX_COMMAND_TOKENS < length (words_of w)"
  shows "shell_step t clock nav (CHR 0x0D) st = Inl Out_Of_Bounds"
  using assms tokenizer_overflow [OF assms(3,4), of post] by (simp add: shell_step_def handle_new_char_def)

end
