(* ===== verification/Kprintf.thy ===== *)
theory Kprintf
  imports C_String "HOL-Library.Word" "HOL-Library.Signed_Division"
begin

section \<open>Formatted output (src/common/kprintf.c)\<close>

text \<open>
  The \<open>printf\<close> family: every character goes through an output function that gets the index of the character and the
  size of the buffer. The output functions are the constructors of \<open>sink\<close>: a buffer in memory, a
  channel that passes on all characters but \<open>NUL\<close> (\<open>_out_char\<close> and \<open>_out_fct\<close>), and none. The variable arguments
  are a list; taking one that is missing or of another type is undefined. Widths and precisions are 32-bit numbers,
  indices are taken as unbounded (the real ones wrap after 4 GB of output). The arithmetic of floating point
  numbers is an argument, \<open>fp\<close>.
\<close>

unbundle bit_operations_syntax

subsection \<open>Output\<close>

datatype sink = Out_Buffer "char list" | Out_Char "char list" | Out_Null

definition out :: "char \<Rightarrow> sink \<Rightarrow> nat \<Rightarrow> nat \<Rightarrow> sink cres" where
  "out c s idx maxlen =
     (case s of
        Out_Buffer buffer \<Rightarrow> if idx < maxlen then cbind (wr buffer idx c) (\<lambda>b. Inr (Out_Buffer b)) else Inr s
      | Out_Char cs \<Rightarrow> Inr (Out_Char (if c \<noteq> NUL then cs @ [c] else cs))
      | Out_Null \<Rightarrow> Inr s)"

text \<open>\<open>out(c, buffer, idx++, maxlen)\<close>\<close>

definition emit_char :: "nat \<Rightarrow> sink \<times> nat \<Rightarrow> char \<Rightarrow> (sink \<times> nat) cres" where
  "emit_char maxlen = (\<lambda>(s, idx) c. cbind (out c s idx maxlen) (\<lambda>s'. Inr (s', idx + 1)))"

text \<open>A counting loop from \<open>i\<close> up to \<open>width\<close> that puts out a character each time.\<close>

definition pad :: "nat \<Rightarrow> char \<Rightarrow> nat \<Rightarrow> nat \<Rightarrow> sink \<times> nat \<Rightarrow> (sink \<times> nat) cres" where
  "pad maxlen c i width st = cfold (\<lambda>st _. emit_char maxlen st c) st [i..<width]"

definition FLAGS_ZEROPAD :: "32 word" where "FLAGS_ZEROPAD = push_bit 0 1"
definition FLAGS_LEFT :: "32 word" where "FLAGS_LEFT = push_bit 1 1"
definition FLAGS_PLUS :: "32 word" where "FLAGS_PLUS = push_bit 2 1"
definition FLAGS_SPACE :: "32 word" where "FLAGS_SPACE = push_bit 3 1"
definition FLAGS_HASH :: "32 word" where "FLAGS_HASH = push_bit 4 1"
definition FLAGS_UPPERCASE :: "32 word" where "FLAGS_UPPERCASE = push_bit 5 1"
definition FLAGS_CHAR :: "32 word" where "FLAGS_CHAR = push_bit 6 1"
definition FLAGS_SHORT :: "32 word" where "FLAGS_SHORT = push_bit 7 1"
definition FLAGS_LONG :: "32 word" where "FLAGS_LONG = push_bit 8 1"
definition FLAGS_LONG_LONG :: "32 word" where "FLAGS_LONG_LONG = push_bit 9 1"
definition FLAGS_PRECISION :: "32 word" where "FLAGS_PRECISION = push_bit 10 1"
definition FLAGS_ADAPT_EXP :: "32 word" where "FLAGS_ADAPT_EXP = push_bit 11 1"

lemmas flag_defs = FLAGS_ZEROPAD_def FLAGS_LEFT_def FLAGS_PLUS_def FLAGS_SPACE_def FLAGS_HASH_def FLAGS_UPPERCASE_def
  FLAGS_CHAR_def FLAGS_SHORT_def FLAGS_LONG_def FLAGS_LONG_LONG_def FLAGS_PRECISION_def FLAGS_ADAPT_EXP_def

definition has_flag :: "32 word \<Rightarrow> 32 word \<Rightarrow> bool" where
  "has_flag flags f \<longleftrightarrow> flags AND f \<noteq> 0"

subsection \<open>Helpers\<close>

fun strnlen_s :: "char list \<Rightarrow> nat \<Rightarrow> nat cres" where
  "strnlen_s [] maxsize = Inl Out_Of_Bounds"
| "strnlen_s (c # str) maxsize =
     (if c \<noteq> NUL \<and> maxsize \<noteq> 0 then cbind (strnlen_s str (maxsize - 1)) (\<lambda>n. Inr (n + 1)) else Inr 0)"

definition is_digit :: "char \<Rightarrow> bool" where
  "is_digit ch \<longleftrightarrow> CHR ''0'' \<le> ch \<and> ch \<le> CHR ''9''"

text \<open>The number, and where the string goes on.\<close>

fun atoi_format :: "char list \<Rightarrow> nat \<Rightarrow> (char list \<times> nat) cres" where
  "atoi_format [] i = Inl Out_Of_Bounds"
| "atoi_format (c # str) i =
     (if is_digit c then atoi_format str ((i * 10 + (of_char c - 48)) mod 2 ^ 32) else Inr (c # str, i))"

subsection \<open>Integers\<close>

definition PRINTF_NTOA_BUFFER_SIZE :: nat where "PRINTF_NTOA_BUFFER_SIZE = 32"

definition out_rev ::
  "nat \<Rightarrow> sink \<times> nat \<Rightarrow> char list \<Rightarrow> nat \<Rightarrow> nat \<Rightarrow> 32 word \<Rightarrow> (sink \<times> nat) cres" where
  "out_rev maxlen st buf len width flags =
     cbind (if \<not> has_flag flags FLAGS_LEFT \<and> \<not> has_flag flags FLAGS_ZEROPAD then pad maxlen CHR '' '' len width st else Inr st) (\<lambda>st1.
     cbind (cfold (\<lambda>st i. cbind (rd buf i) (emit_char maxlen st)) st1 (rev [0..<len])) (\<lambda>st2.
       if has_flag flags FLAGS_LEFT then pad maxlen CHR '' '' (snd st2 - snd st) width st2 else Inr st2))"

text \<open>\<open>buf[len++] = c\<close>\<close>

definition put :: "char \<Rightarrow> char list \<times> nat \<Rightarrow> (char list \<times> nat) cres" where
  "put c = (\<lambda>(buf, len). cbind (wr buf len c) (\<lambda>buf'. Inr (buf', len + 1)))"

definition zeros :: "nat \<Rightarrow> char list \<times> nat \<Rightarrow> (char list \<times> nat) cres" where
  "zeros n b = cfold (\<lambda>b _. put CHR ''0'' b) b [snd b..<min n PRINTF_NTOA_BUFFER_SIZE]"

text \<open>If there is room.\<close>

definition put_room :: "char \<Rightarrow> char list \<times> nat \<Rightarrow> (char list \<times> nat) cres" where
  "put_room c b = (if snd b < PRINTF_NTOA_BUFFER_SIZE then put c b else Inr b)"

definition ntoa_hash :: "char list \<times> nat \<Rightarrow> nat \<Rightarrow> nat \<Rightarrow> nat \<Rightarrow> 32 word \<Rightarrow> (char list \<times> nat) cres" where
  "ntoa_hash b base prec width flags =
     (let len = snd b;
          len1 = (if \<not> has_flag flags FLAGS_PRECISION \<and> len \<noteq> 0 \<and> (len = prec \<or> len = width)
                  then if len - 1 \<noteq> 0 \<and> base = 16 then len - 2 else len - 1 else len)
      in cbind
           (if base = 16 \<and> \<not> has_flag flags FLAGS_UPPERCASE \<and> len1 < PRINTF_NTOA_BUFFER_SIZE then put CHR ''x'' (fst b, len1)
            else if base = 16 \<and> has_flag flags FLAGS_UPPERCASE \<and> len1 < PRINTF_NTOA_BUFFER_SIZE then put CHR ''X'' (fst b, len1)
            else if base = 2 \<and> len1 < PRINTF_NTOA_BUFFER_SIZE then put CHR ''b'' (fst b, len1)
            else Inr (fst b, len1))
           (put_room CHR ''0''))"

definition ntoa_format ::
  "nat \<Rightarrow> sink \<times> nat \<Rightarrow> char list \<times> nat \<Rightarrow> bool \<Rightarrow> nat \<Rightarrow> nat \<Rightarrow> nat \<Rightarrow> 32 word \<Rightarrow> (sink \<times> nat) cres" where
  "ntoa_format maxlen st b negative base prec width flags =
     (let padding = \<not> has_flag flags FLAGS_LEFT;
          width' = (if padding \<and> width \<noteq> 0 \<and> has_flag flags FLAGS_ZEROPAD \<and>
                       (negative \<or> has_flag flags (FLAGS_PLUS OR FLAGS_SPACE)) then width - 1 else width)
      in cbind (if padding then zeros prec b else Inr b) (\<lambda>b1.
         cbind (if padding \<and> has_flag flags FLAGS_ZEROPAD then zeros width' b1 else Inr b1) (\<lambda>b2.
         cbind (if has_flag flags FLAGS_HASH then ntoa_hash b2 base prec width' flags else Inr b2) (\<lambda>b3.
         cbind
           (if snd b3 < PRINTF_NTOA_BUFFER_SIZE then
              if negative then put CHR ''-'' b3
              else if has_flag flags FLAGS_PLUS then put CHR ''+'' b3
              else if has_flag flags FLAGS_SPACE then put CHR '' '' b3
              else Inr b3
            else Inr b3) (\<lambda>(buf, len).
           out_rev maxlen st buf len width' flags)))))"

definition digit_char :: "nat \<Rightarrow> 32 word \<Rightarrow> char" where
  "digit_char digit flags =
     (if digit < 10 then char_of (48 + digit) else char_of ((if has_flag flags FLAGS_UPPERCASE then 65 else 97) + digit - 10))"

text \<open>The digits, lowest first, for both widths of \<open>value\<close>.\<close>

function ntoa_digits :: "nat \<Rightarrow> 32 word \<Rightarrow> nat \<Rightarrow> char list \<times> nat \<Rightarrow> (char list \<times> nat) cres" where
  "ntoa_digits base flags value b =
     cbind (put (digit_char (value mod base) flags) b) (\<lambda>b'.
       if value div base \<noteq> 0 \<and> snd b' < PRINTF_NTOA_BUFFER_SIZE then ntoa_digits base flags (value div base) b' else Inr b')"
  by pat_completeness auto
termination
  by (relation "measure (\<lambda>(base, flags, value, b). PRINTF_NTOA_BUFFER_SIZE - snd b)")
    (auto simp: put_def c_simps split: prod.splits)

declare ntoa_digits.simps [simp del]

definition ntoa ::
  "nat \<Rightarrow> sink \<times> nat \<Rightarrow> nat \<Rightarrow> bool \<Rightarrow> nat \<Rightarrow> nat \<Rightarrow> nat \<Rightarrow> 32 word \<Rightarrow> (sink \<times> nat) cres" where
  "ntoa maxlen st value negative base prec width flags =
     (let flags' = (if value = 0 then flags AND NOT FLAGS_HASH else flags);
          b = (replicate PRINTF_NTOA_BUFFER_SIZE NUL, 0)
      in cbind (if \<not> has_flag flags' FLAGS_PRECISION \<or> value \<noteq> 0 then ntoa_digits base flags' value b else Inr b) (\<lambda>b1.
         ntoa_format maxlen st b1 negative base prec width flags'))"

definition ntoa_long :: "nat \<Rightarrow> sink \<times> nat \<Rightarrow> 32 word \<Rightarrow> bool \<Rightarrow> nat \<Rightarrow> nat \<Rightarrow> nat \<Rightarrow> 32 word \<Rightarrow> (sink \<times> nat) cres" where
  "ntoa_long maxlen st value = ntoa maxlen st (unat value)"

definition ntoa_long_long :: "nat \<Rightarrow> sink \<times> nat \<Rightarrow> 64 word \<Rightarrow> bool \<Rightarrow> nat \<Rightarrow> nat \<Rightarrow> nat \<Rightarrow> 32 word \<Rightarrow> (sink \<times> nat) cres" where
  "ntoa_long_long maxlen st value = ntoa maxlen st (unat value)"

subsection \<open>Floating point numbers\<close>

text \<open>
  The arithmetic of \<open>double\<close> is not part of the program: the processor has no floating point unit, the functions
  come with the compiler. It is an argument, with an operation for each the code uses: \<open>d_decimal m e\<close> is the constant
  \<open>m * 10 ^ e\<close>, \<open>d_trunc\<close> drops the fraction, \<open>d_bits\<close> and \<open>d_of_bits\<close> are the two sides of the union.
\<close>

record 'd double_ops =
  d_decimal :: "int \<Rightarrow> int \<Rightarrow> 'd"
  d_of_int :: "int \<Rightarrow> 'd"
  d_trunc :: "'d \<Rightarrow> int"
  d_neg :: "'d \<Rightarrow> 'd"
  d_add :: "'d \<Rightarrow> 'd \<Rightarrow> 'd"
  d_sub :: "'d \<Rightarrow> 'd \<Rightarrow> 'd"
  d_mul :: "'d \<Rightarrow> 'd \<Rightarrow> 'd"
  d_div :: "'d \<Rightarrow> 'd \<Rightarrow> 'd"
  d_eq :: "'d \<Rightarrow> 'd \<Rightarrow> bool"
  d_less :: "'d \<Rightarrow> 'd \<Rightarrow> bool"
  d_le :: "'d \<Rightarrow> 'd \<Rightarrow> bool"
  d_bits :: "'d \<Rightarrow> 64 word"
  d_of_bits :: "64 word \<Rightarrow> 'd"
  d_max :: 'd

definition PRINTF_FTOA_BUFFER_SIZE :: nat where "PRINTF_FTOA_BUFFER_SIZE = 32"
definition PRINTF_DEFAULT_FLOAT_PRECISION :: nat where "PRINTF_DEFAULT_FLOAT_PRECISION = 6"
definition PRINTF_MAX_FLOAT :: "'d double_ops \<Rightarrow> 'd" where "PRINTF_MAX_FLOAT fp = d_decimal fp 1 9"

text \<open>Casts of a \<open>double\<close> to \<open>int\<close> and to \<open>unsigned long\<close>: a value that does not fit is undefined.\<close>

definition d_int :: "'d double_ops \<Rightarrow> 'd \<Rightarrow> int cres" where
  "d_int fp d = cint (d_trunc fp d)"

definition d_ulong :: "'d double_ops \<Rightarrow> 'd \<Rightarrow> 32 word cres" where
  "d_ulong fp d = (let i = d_trunc fp d in if 0 \<le> i \<and> i < 2 ^ 32 then Inr (word_of_int i) else Inl Undefined_Value)"

definition pow10 :: "'d double_ops \<Rightarrow> 'd list" where
  "pow10 fp = map (\<lambda>k. d_of_int fp (10 ^ k)) [0..<10]"

text \<open>Precisions above 9 are filled up with zeros, as long as there is room.\<close>

function limit_prec :: "char list \<times> nat \<Rightarrow> nat \<Rightarrow> ((char list \<times> nat) \<times> nat) cres" where
  "limit_prec b prec =
     (if snd b < PRINTF_FTOA_BUFFER_SIZE \<and> 9 < prec then cbind (put CHR ''0'' b) (\<lambda>b'. limit_prec b' (prec - 1)) else Inr (b, prec))"
  by pat_completeness auto
termination by (relation "measure snd") auto

declare limit_prec.simps [simp del]

text \<open>The whole part and the fraction as a number of \<open>prec\<close> digits, rounded half to even.\<close>

definition split_value :: "'d double_ops \<Rightarrow> 'd \<Rightarrow> nat \<Rightarrow> (int \<times> 32 word) cres" where
  "split_value fp value prec =
     (let half = d_decimal fp 5 (- 1) in
      cbind (d_int fp value) (\<lambda>whole.
      cbind (rd (pow10 fp) prec) (\<lambda>scale.
      let tmp = d_mul fp (d_sub fp value (d_of_int fp whole)) scale in
      cbind (d_ulong fp tmp) (\<lambda>frac.
      let diff = d_sub fp tmp (d_of_int fp (uint frac)) in
      if d_less fp half diff then
        let frac' = frac + 1 in
        if d_le fp scale (d_of_int fp (uint frac')) then cbind (cint (whole + 1)) (\<lambda>whole'. Inr (whole', 0)) else Inr (whole, frac')
      else if d_less fp diff half then Inr (whole, frac)
      else if frac = 0 \<or> odd (uint frac) then Inr (whole, frac + 1)
      else Inr (whole, frac)))))"

text \<open>Without a fraction the whole part is rounded; \<open>whole & 1\<close> is its last bit, also of a negative number.\<close>

definition round_whole :: "'d double_ops \<Rightarrow> 'd \<Rightarrow> int \<Rightarrow> int cres" where
  "round_whole fp value whole =
     (let half = d_decimal fp 5 (- 1); diff = d_sub fp value (d_of_int fp whole) in
      if (\<not> d_less fp diff half \<or> d_less fp half diff) \<and> odd whole then cint (whole + 1) else Inr whole)"

text \<open>The digits of the fraction; \<open>count\<close> is unsigned and counts down.\<close>

function frac_digits :: "32 word \<Rightarrow> 32 word \<Rightarrow> char list \<times> nat \<Rightarrow> (32 word \<times> (char list \<times> nat)) cres" where
  "frac_digits frac cnt b =
     (if snd b < PRINTF_FTOA_BUFFER_SIZE then
        cbind (put (char_of (48 + unat frac mod 10)) b) (\<lambda>b'.
          if unat frac div 10 = 0 then Inr (cnt - 1, b') else frac_digits (word_of_nat (unat frac div 10)) (cnt - 1) b')
      else Inr (cnt, b))"
  by pat_completeness auto
termination
  by (relation "measure (\<lambda>(frac, cnt, b). PRINTF_FTOA_BUFFER_SIZE - snd b)") (auto simp: put_def c_simps split: prod.splits)

declare frac_digits.simps [simp del]

definition frac_zeros :: "32 word \<Rightarrow> char list \<times> nat \<Rightarrow> (char list \<times> nat) cres" where
  "frac_zeros cnt b = cfold (\<lambda>b _. put CHR ''0'' b) b [0..<min (unat cnt) (PRINTF_FTOA_BUFFER_SIZE - snd b)]"

text \<open>The digits of the whole part; the remainder has the sign of the number, and \<open>char\<close> has eight bits.\<close>

function whole_digits :: "int \<Rightarrow> char list \<times> nat \<Rightarrow> (char list \<times> nat) cres" where
  "whole_digits whole b =
     (if snd b < PRINTF_FTOA_BUFFER_SIZE then
        cbind (put (char_of (48 + whole smod 10)) b) (\<lambda>b'. if whole sdiv 10 = 0 then Inr b' else whole_digits (whole sdiv 10) b')
      else Inr b)"
  by pat_completeness auto
termination
  by (relation "measure (\<lambda>(whole, b). PRINTF_FTOA_BUFFER_SIZE - snd b)") (auto simp: put_def c_simps split: prod.splits)

declare whole_digits.simps [simp del]

text \<open>A finite value of at most \<open>PRINTF_MAX_FLOAT\<close>: its characters in reverse, and the width that is left.\<close>

definition ftoa_buffer ::
  "'d double_ops \<Rightarrow> 'd \<Rightarrow> nat \<Rightarrow> nat \<Rightarrow> 32 word \<Rightarrow> ((char list \<times> nat) \<times> nat) cres" where
  "ftoa_buffer fp value0 prec0 width flags =
     (let zero = d_of_int fp 0;
          negative = d_less fp value0 zero;
          value = (if negative then d_sub fp zero value0 else value0);
          prec1 = (if has_flag flags FLAGS_PRECISION then prec0 else PRINTF_DEFAULT_FLOAT_PRECISION)
      in cbind (limit_prec (replicate PRINTF_FTOA_BUFFER_SIZE NUL, 0) prec1) (\<lambda>(b1, prec).
         cbind (split_value fp value prec) (\<lambda>(whole, frac).
         cbind
           (if prec = 0 then cbind (round_whole fp value whole) (\<lambda>whole'. Inr (whole', b1))
            else
              cbind (frac_digits frac (word_of_nat prec) b1) (\<lambda>(cnt, b2).
              cbind (frac_zeros cnt b2) (\<lambda>b3.
              cbind (if snd b3 < PRINTF_FTOA_BUFFER_SIZE then put CHR ''.'' b3 else Inr b3) (\<lambda>b4. Inr (whole, b4))))) (\<lambda>(whole', b5).
         cbind (whole_digits whole' b5) (\<lambda>b6.
         let padding = \<not> has_flag flags FLAGS_LEFT \<and> has_flag flags FLAGS_ZEROPAD;
             width' = (if padding \<and> width \<noteq> 0 \<and> (negative \<or> has_flag flags (FLAGS_PLUS OR FLAGS_SPACE)) then width - 1 else width)
         in cbind (if padding then cfold (\<lambda>b _. put CHR ''0'' b) b6 [snd b6..<min width' PRINTF_FTOA_BUFFER_SIZE] else Inr b6) (\<lambda>b7.
            cbind
              (if snd b7 < PRINTF_FTOA_BUFFER_SIZE then
                 if negative then put CHR ''-'' b7
                 else if has_flag flags FLAGS_PLUS then put CHR ''+'' b7
                 else if has_flag flags FLAGS_SPACE then put CHR '' '' b7
                 else Inr b7
               else Inr b7) (\<lambda>b8. Inr (b8, width'))))))))"

text \<open>\<open>_ftoa\<close>; \<open>etoa\<close> is what prints a value above \<open>PRINTF_MAX_FLOAT\<close>.\<close>

type_synonym 'd put_double = "nat \<Rightarrow> sink \<times> nat \<Rightarrow> 'd \<Rightarrow> nat \<Rightarrow> nat \<Rightarrow> 32 word \<Rightarrow> (sink \<times> nat) cres"

definition ftoa_with :: "'d double_ops \<Rightarrow> 'd put_double \<Rightarrow> 'd put_double" where
  "ftoa_with fp etoa maxlen st value prec width flags =
     (if \<not> d_eq fp value value then out_rev maxlen st ''nan'' 3 width flags
      else if d_less fp value (d_neg fp (d_max fp)) then out_rev maxlen st ''fni-'' 4 width flags
      else if d_less fp (d_max fp) value then
        if has_flag flags FLAGS_PLUS then out_rev maxlen st ''fni+'' 4 width flags else out_rev maxlen st ''fni'' 3 width flags
      else if d_less fp (PRINTF_MAX_FLOAT fp) value \<or> d_less fp value (d_neg fp (PRINTF_MAX_FLOAT fp))
        then etoa maxlen st value prec width flags
      else cbind (ftoa_buffer fp value prec width flags) (\<lambda>((buf, len), width'). out_rev maxlen st buf len width' flags))"

text \<open>The decimal exponent of a positive value and the power of ten that belongs to it, both estimated from the bits.\<close>

definition decimal_exponent :: "'d double_ops \<Rightarrow> 'd \<Rightarrow> (int \<times> 'd) cres" where
  "decimal_exponent fp value =
     (let num = d_of_int fp;
          u = d_bits fp value;
          exp2 = uint (drop_bit 52 u AND 0x7FF) - 1023;
          f = d_of_bits fp (u AND (push_bit 52 1 - 1) OR push_bit 52 1023)
      in cbind (d_int fp (d_add fp (d_add fp (d_decimal fp 1760912590558 (- 13)) (d_mul fp (num exp2) (d_decimal fp 301029995663981 (- 15))))
                  (d_mul fp (d_sub fp f (d_decimal fp 15 (- 1))) (d_decimal fp 289529654602168 (- 15))))) (\<lambda>expval.
         cbind (d_int fp (d_add fp (d_mul fp (num expval) (d_decimal fp 3321928094887362 (- 15))) (d_decimal fp 5 (- 1)))) (\<lambda>exp2.
         let z = d_sub fp (d_mul fp (num expval) (d_decimal fp 2302585092994046 (- 15))) (d_mul fp (num exp2) (d_decimal fp 6931471805599453 (- 16)));
             z2 = d_mul fp z z
         in cbind (cint (exp2 + 1023)) (\<lambda>e.
            let f = d_mul fp (d_of_bits fp (push_bit 52 (word_of_int e)))
                  (d_add fp (num 1) (d_div fp (d_mul fp (num 2) z)
                     (d_add fp (d_sub fp (num 2) z)
                        (d_div fp z2 (d_add fp (num 6) (d_div fp z2 (d_add fp (num 10) (d_div fp z2 (num 14)))))))))
            in if d_less fp value f then cbind (cint (expval - 1)) (\<lambda>expval'. Inr (expval', d_div fp f (num 10)))
               else Inr (expval, f)))))"

text \<open>
  \<open>_etoa\<close>. With \<open>%g\<close> the precision counts the significant figures, and values of moderate size are printed without an
  exponent: \<open>minwidth\<close> is then 0. \<open>(int)prec\<close> wraps.
\<close>

definition etoa_adapt ::
  "'d double_ops \<Rightarrow> 'd \<Rightarrow> int \<Rightarrow> nat \<Rightarrow> 32 word \<Rightarrow> (int \<times> nat \<times> 32 word \<times> nat) cres" where
  "etoa_adapt fp value expval prec flags =
     (let minwidth = (if expval < 100 \<and> - 100 < expval then 4 else 5) in
      if has_flag flags FLAGS_ADAPT_EXP then
        if d_le fp (d_decimal fp 1 (- 4)) value \<and> d_less fp value (d_decimal fp 1 6) then
          let p = sint (word_of_nat prec :: 32 word) in
          if expval < p then
            cbind (cint (p - expval)) (\<lambda>d. cbind (cint (d - 1)) (\<lambda>d. Inr (0, unat (word_of_int d :: 32 word), flags OR FLAGS_PRECISION, 0)))
          else Inr (0, 0, flags OR FLAGS_PRECISION, 0)
        else if 0 < prec \<and> has_flag flags FLAGS_PRECISION then Inr (expval, prec - 1, flags, minwidth)
        else Inr (expval, prec, flags, minwidth)
      else Inr (expval, prec, flags, minwidth))"

text \<open>What \<open>_etoa\<close> passes on to \<open>_ftoa\<close>: the value scaled down, with its sign, the precision, the width and the flags; and the exponent.\<close>

definition etoa_scale ::
  "'d double_ops \<Rightarrow> 'd \<Rightarrow> nat \<Rightarrow> nat \<Rightarrow> 32 word \<Rightarrow> ('d \<times> nat \<times> nat \<times> 32 word \<times> int \<times> nat) cres" where
  "etoa_scale fp value0 prec0 width flags0 =
     (let negative = d_less fp value0 (d_of_int fp 0);
          value = (if negative then d_neg fp value0 else value0);
          prec1 = (if has_flag flags0 FLAGS_PRECISION then prec0 else PRINTF_DEFAULT_FLOAT_PRECISION)
      in cbind (decimal_exponent fp value) (\<lambda>(expval0, f).
         cbind (etoa_adapt fp value expval0 prec1 flags0) (\<lambda>(expval, prec, flags, minwidth).
         let fwidth = (if has_flag flags FLAGS_LEFT \<and> minwidth \<noteq> 0 then 0 else if minwidth < width then width - minwidth else 0);
             value' = (if expval \<noteq> 0 then d_div fp value f else value)
         in Inr (if negative then d_neg fp value' else value', prec, fwidth, flags, expval, minwidth))))"

definition etoa_with :: "'d double_ops \<Rightarrow> 'd put_double \<Rightarrow> 'd put_double" where
  "etoa_with fp ftoa maxlen st value prec width flags =
     (if \<not> d_eq fp value value \<or> d_less fp (d_max fp) value \<or> d_less fp value (d_neg fp (d_max fp))
      then ftoa maxlen st value prec width flags
      else
        cbind (etoa_scale fp value prec width flags) (\<lambda>(value', prec', fwidth, flags', expval, minwidth).
        cbind (ftoa maxlen st value' prec' fwidth (flags' AND NOT FLAGS_ADAPT_EXP)) (\<lambda>st1.
          if minwidth = 0 then Inr st1
          else
            cbind (emit_char maxlen st1 (if has_flag flags' FLAGS_UPPERCASE then CHR ''E'' else CHR ''e'')) (\<lambda>st2.
            cbind (if expval < 0 then cint (- expval) else Inr expval) (\<lambda>e.
            cbind (ntoa_long maxlen st2 (word_of_int e) (expval < 0) 10 0 (minwidth - 1) (FLAGS_ZEROPAD OR FLAGS_PLUS)) (\<lambda>st3.
              if has_flag flags' FLAGS_LEFT then pad maxlen CHR '' '' (snd st3 - snd st) width st3 else Inr st3))))))"

text \<open>
  The two call each other: \<open>_etoa\<close> scales the value down before it calls \<open>_ftoa\<close>, so that with the arithmetic of IEEE 754 the second \<open>_ftoa\<close>
  does not call \<open>_etoa\<close> again. The first argument bounds the calls of \<open>_etoa\<close>; beyond them nothing is defined.
\<close>

fun ftoa :: "nat \<Rightarrow> 'd double_ops \<Rightarrow> 'd put_double" where
  "ftoa 0 fp = ftoa_with fp (\<lambda>_ _ _ _ _ _. Inl Undefined_Value)"
| "ftoa (Suc n) fp = ftoa_with fp (etoa_with fp (ftoa n fp))"

definition etoa :: "nat \<Rightarrow> 'd double_ops \<Rightarrow> 'd put_double" where
  "etoa n fp = etoa_with fp (ftoa n fp)"

subsection \<open>Arguments\<close>

text \<open>\<open>int\<close>, \<open>long\<close> and pointers have 32 bits; a string is its buffer.\<close>

datatype 'd va = VInt "32 word" | VLong_Long "64 word" | VString "char list" | VDouble 'd

fun next_int :: "'d va list \<Rightarrow> (32 word \<times> 'd va list) cres" where
  "next_int (VInt w # va) = Inr (w, va)"
| "next_int _ = Inl Undefined_Value"

fun next_long_long :: "'d va list \<Rightarrow> (64 word \<times> 'd va list) cres" where
  "next_long_long (VLong_Long w # va) = Inr (w, va)"
| "next_long_long _ = Inl Undefined_Value"

fun next_string :: "'d va list \<Rightarrow> (char list \<times> 'd va list) cres" where
  "next_string (VString s # va) = Inr (s, va)"
| "next_string _ = Inl Undefined_Value"

fun next_double :: "'d va list \<Rightarrow> ('d \<times> 'd va list) cres" where
  "next_double (VDouble d # va) = Inr (d, va)"
| "next_double _ = Inl Undefined_Value"

subsection \<open>Reading a directive\<close>

fun parse_flags :: "char list \<Rightarrow> 32 word \<Rightarrow> (char list \<times> 32 word) cres" where
  "parse_flags [] flags = Inl Out_Of_Bounds"
| "parse_flags (c # format) flags =
     (if c = CHR ''0'' then parse_flags format (flags OR FLAGS_ZEROPAD)
      else if c = CHR ''-'' then parse_flags format (flags OR FLAGS_LEFT)
      else if c = CHR ''+'' then parse_flags format (flags OR FLAGS_PLUS)
      else if c = CHR '' '' then parse_flags format (flags OR FLAGS_SPACE)
      else if c = CHR ''#'' then parse_flags format (flags OR FLAGS_HASH)
      else Inr (c # format, flags))"

definition parse_width :: "char list \<Rightarrow> 32 word \<Rightarrow> 'd va list \<Rightarrow> (char list \<times> 32 word \<times> nat \<times> 'd va list) cres" where
  "parse_width format flags va =
     cbind (rd format 0) (\<lambda>c.
       if is_digit c then cbind (atoi_format format 0) (\<lambda>(format', width). Inr (format', flags, width, va))
       else if c = CHR ''*'' then
         cbind (next_int va) (\<lambda>(w, va').
         cbind (if sint w < 0 then cint (- sint w) else Inr (sint w)) (\<lambda>width.
           Inr (tl format, if sint w < 0 then flags OR FLAGS_LEFT else flags, nat width, va')))
       else Inr (format, flags, 0, va))"

definition parse_precision :: "char list \<Rightarrow> 32 word \<Rightarrow> 'd va list \<Rightarrow> (char list \<times> 32 word \<times> nat \<times> 'd va list) cres" where
  "parse_precision format flags va =
     cbind (rd format 0) (\<lambda>c.
       if c \<noteq> CHR ''.'' then Inr (format, flags, 0, va)
       else
         let flags' = flags OR FLAGS_PRECISION; format' = tl format in
         cbind (rd format' 0) (\<lambda>c'.
           if is_digit c' then cbind (atoi_format format' 0) (\<lambda>(format'', precision). Inr (format'', flags', precision, va))
           else if c' = CHR ''*'' then
             cbind (next_int va) (\<lambda>(w, va'). Inr (tl format', flags', nat (sint w), va'))
           else Inr (format', flags', 0, va)))"

text \<open>\<open>ptrdiff_t\<close> and \<open>size_t\<close> are as wide as \<open>long\<close>, \<open>intmax_t\<close> is wider.\<close>

definition parse_length :: "char list \<Rightarrow> 32 word \<Rightarrow> (char list \<times> 32 word) cres" where
  "parse_length format flags =
     cbind (rd format 0) (\<lambda>c.
       if c = CHR ''l'' then
         cbind (rd format 1) (\<lambda>c'.
           if c' = CHR ''l'' then Inr (drop 2 format, flags OR FLAGS_LONG OR FLAGS_LONG_LONG) else Inr (tl format, flags OR FLAGS_LONG))
       else if c = CHR ''h'' then
         cbind (rd format 1) (\<lambda>c'.
           if c' = CHR ''h'' then Inr (drop 2 format, flags OR FLAGS_SHORT OR FLAGS_CHAR) else Inr (tl format, flags OR FLAGS_SHORT))
       else if c = CHR ''t'' then Inr (tl format, flags OR FLAGS_LONG)
       else if c = CHR ''j'' then Inr (tl format, flags OR FLAGS_LONG_LONG)
       else if c = CHR ''z'' then Inr (tl format, flags OR FLAGS_LONG)
       else Inr (format, flags))"

subsection \<open>Conversions\<close>

text \<open>\<open>value > 0 ? value : 0 - value\<close>, in \<open>bits\<close> bits.\<close>

definition magnitude :: "nat \<Rightarrow> int \<Rightarrow> int cres" where
  "magnitude bits value = (if 0 < value then Inr value else if 0 - value < 2 ^ (bits - 1) then Inr (0 - value) else Inl Undefined_Value)"

text \<open>The argument of a conversion of up to 32 bits; \<open>char\<close> is unsigned.\<close>

definition int_value :: "32 word \<Rightarrow> 32 word \<Rightarrow> int" where
  "int_value flags w =
     (if has_flag flags FLAGS_LONG then sint w
      else if has_flag flags FLAGS_CHAR then uint (ucast w :: 8 word)
      else if has_flag flags FLAGS_SHORT then sint (ucast w :: 16 word)
      else sint w)"

definition unsigned_value :: "32 word \<Rightarrow> 32 word \<Rightarrow> 32 word" where
  "unsigned_value flags w =
     (if has_flag flags FLAGS_LONG then w
      else if has_flag flags FLAGS_CHAR then ucast (ucast w :: 8 word)
      else if has_flag flags FLAGS_SHORT then ucast (ucast w :: 16 word)
      else w)"

definition integer_base :: "char \<Rightarrow> nat" where
  "integer_base c = (if c = CHR ''x'' \<or> c = CHR ''X'' then 16 else if c = CHR ''o'' then 8 else if c = CHR ''b'' then 2 else 10)"

definition integer_flags :: "char \<Rightarrow> 32 word \<Rightarrow> 32 word" where
  "integer_flags c flags =
     (let f1 = (if integer_base c = 10 then flags AND NOT FLAGS_HASH else flags);
          f2 = (if c = CHR ''X'' then f1 OR FLAGS_UPPERCASE else f1);
          f3 = (if c \<noteq> CHR ''i'' \<and> c \<noteq> CHR ''d'' then f2 AND NOT (FLAGS_PLUS OR FLAGS_SPACE) else f2)
      in if has_flag f3 FLAGS_PRECISION then f3 AND NOT FLAGS_ZEROPAD else f3)"

definition format_integer ::
  "nat \<Rightarrow> char \<Rightarrow> 32 word \<Rightarrow> nat \<Rightarrow> nat \<Rightarrow> 'd va list \<Rightarrow> sink \<times> nat \<Rightarrow> ('d va list \<times> (sink \<times> nat)) cres" where
  "format_integer maxlen c flags0 width precision va st =
     (let base = integer_base c; flags = integer_flags c flags0 in
      if c = CHR ''i'' \<or> c = CHR ''d'' then
        if has_flag flags FLAGS_LONG_LONG then
          cbind (next_long_long va) (\<lambda>(w, va').
          cbind (magnitude 64 (sint w)) (\<lambda>m.
          cbind (ntoa_long_long maxlen st (word_of_int m) (sint w < 0) base precision width flags) (\<lambda>st'. Inr (va', st'))))
        else
          cbind (next_int va) (\<lambda>(w, va').
          cbind (magnitude 32 (int_value flags w)) (\<lambda>m.
          cbind (ntoa_long maxlen st (word_of_int m) (int_value flags w < 0) base precision width flags) (\<lambda>st'. Inr (va', st'))))
      else
        if has_flag flags FLAGS_LONG_LONG then
          cbind (next_long_long va) (\<lambda>(w, va').
          cbind (ntoa_long_long maxlen st w False base precision width flags) (\<lambda>st'. Inr (va', st')))
        else
          cbind (next_int va) (\<lambda>(w, va').
          cbind (ntoa_long maxlen st (unsigned_value flags w) False base precision width flags) (\<lambda>st'. Inr (va', st'))))"

text \<open>\<open>while (l++ < width)\<close>, before and after the text.\<close>

definition padded :: "nat \<Rightarrow> 32 word \<Rightarrow> nat \<Rightarrow> nat \<Rightarrow> (sink \<times> nat \<Rightarrow> (sink \<times> nat) cres) \<Rightarrow> sink \<times> nat \<Rightarrow> (sink \<times> nat) cres" where
  "padded maxlen flags l width body st =
     cbind (if has_flag flags FLAGS_LEFT then Inr st else pad maxlen CHR '' '' l width st) (\<lambda>st1.
     cbind (body st1) (\<lambda>st2.
       if has_flag flags FLAGS_LEFT then pad maxlen CHR '' '' l width st2 else Inr st2))"

definition format_char ::
  "nat \<Rightarrow> 32 word \<Rightarrow> nat \<Rightarrow> 'd va list \<Rightarrow> sink \<times> nat \<Rightarrow> ('d va list \<times> (sink \<times> nat)) cres" where
  "format_char maxlen flags width va st =
     cbind (next_int va) (\<lambda>(w, va').
     cbind (padded maxlen flags 1 width (\<lambda>st. emit_char maxlen st (char_of (unat (ucast w :: 8 word)))) st) (\<lambda>st'. Inr (va', st')))"

fun string_loop :: "nat \<Rightarrow> 32 word \<Rightarrow> char list \<Rightarrow> nat \<Rightarrow> sink \<times> nat \<Rightarrow> (sink \<times> nat) cres" where
  "string_loop maxlen flags [] precision st = Inl Out_Of_Bounds"
| "string_loop maxlen flags (c # p) precision st =
     (if c \<noteq> NUL \<and> (\<not> has_flag flags FLAGS_PRECISION \<or> precision \<noteq> 0)
      then cbind (emit_char maxlen st c) (string_loop maxlen flags p (precision - 1))
      else Inr st)"

definition format_string ::
  "nat \<Rightarrow> 32 word \<Rightarrow> nat \<Rightarrow> nat \<Rightarrow> 'd va list \<Rightarrow> sink \<times> nat \<Rightarrow> ('d va list \<times> (sink \<times> nat)) cres" where
  "format_string maxlen flags width precision va st =
     cbind (next_string va) (\<lambda>(p, va').
     cbind (strnlen_s p (if precision \<noteq> 0 then precision else 2 ^ 32 - 1)) (\<lambda>n.
     cbind (padded maxlen flags (if has_flag flags FLAGS_PRECISION then min n precision else n) width
         (string_loop maxlen flags p precision) st) (\<lambda>st'. Inr (va', st'))))"

text \<open>A pointer: eight digits.\<close>

definition format_pointer ::
  "nat \<Rightarrow> 32 word \<Rightarrow> nat \<Rightarrow> 'd va list \<Rightarrow> sink \<times> nat \<Rightarrow> ('d va list \<times> (sink \<times> nat)) cres" where
  "format_pointer maxlen flags precision va st =
     cbind (next_int va) (\<lambda>(w, va').
     cbind (ntoa_long maxlen st w False 16 precision 8 (flags OR FLAGS_ZEROPAD OR FLAGS_UPPERCASE)) (\<lambda>st'. Inr (va', st')))"

text \<open>A floating point number, by \<open>_ftoa\<close> or by \<open>_etoa\<close>.\<close>

definition format_double ::
  "'d double_ops \<Rightarrow> nat \<Rightarrow> char \<Rightarrow> 32 word \<Rightarrow> nat \<Rightarrow> nat \<Rightarrow> 'd va list \<Rightarrow> sink \<times> nat \<Rightarrow> ('d va list \<times> (sink \<times> nat)) cres" where
  "format_double fp maxlen c flags width precision va st =
     cbind (next_double va) (\<lambda>(d, va').
       let flags1 = (if c = CHR ''g'' \<or> c = CHR ''G'' then flags OR FLAGS_ADAPT_EXP else flags);
           flags2 = (if c = CHR ''F'' \<or> c = CHR ''E'' \<or> c = CHR ''G'' then flags1 OR FLAGS_UPPERCASE else flags1)
       in cbind
            (if c = CHR ''f'' \<or> c = CHR ''F'' then ftoa 1 fp maxlen st d precision width flags2
             else etoa 1 fp maxlen st d precision width flags2) (\<lambda>st'. Inr (va', st')))"

subsection \<open>The format\<close>

text \<open>What follows a percent sign.\<close>

definition convert ::
  "'d double_ops \<Rightarrow> nat \<Rightarrow> char \<Rightarrow> 32 word \<Rightarrow> nat \<Rightarrow> nat \<Rightarrow> 'd va list \<Rightarrow> sink \<times> nat \<Rightarrow>
     ('d va list \<times> (sink \<times> nat)) cres" where
  "convert fp maxlen c flags width precision va st =
     (if c \<in> set ''diuxXob'' then format_integer maxlen c flags width precision va st
      else if c \<in> set ''fFeEgG'' then format_double fp maxlen c flags width precision va st
      else if c = CHR ''c'' then format_char maxlen flags width va st
      else if c = CHR ''s'' then format_string maxlen flags width precision va st
      else if c = CHR ''p'' then format_pointer maxlen flags precision va st
      else if c = CHR ''%'' then cbind (emit_char maxlen st CHR ''%'') (\<lambda>st'. Inr (va, st'))
      else cbind (emit_char maxlen st c) (\<lambda>st'. Inr (va, st')))"

definition directive ::
  "char list \<Rightarrow> 'd va list \<Rightarrow> (char \<times> char list \<times> 32 word \<times> nat \<times> nat \<times> 'd va list) cres" where
  "directive format va =
     cbind (parse_flags format 0) (\<lambda>(format1, flags1).
     cbind (parse_width format1 flags1 va) (\<lambda>(format2, flags2, width, va2).
     cbind (parse_precision format2 flags2 va2) (\<lambda>(format3, flags3, precision, va3).
     cbind (parse_length format3 flags3) (\<lambda>(format4, flags4).
     cbind (rd format4 0) (\<lambda>c. Inr (c, tl format4, flags4, width, precision, va3))))))"

lemma parse_flags_length: "parse_flags format flags = Inr (format', flags') \<Longrightarrow> length format' \<le> length format"
  by (induction format arbitrary: flags) (auto split: if_splits intro: le_SucI)

lemma atoi_format_length: "atoi_format format i = Inr (format', n) \<Longrightarrow> length format' \<le> length format"
  by (induction format arbitrary: i) (auto split: if_splits intro: le_SucI)

lemma parse_width_length: "parse_width format flags va = Inr (format', r) \<Longrightarrow> length format' \<le> length format"
  by (auto simp: parse_width_def c_simps split: if_splits prod.splits dest!: atoi_format_length)

lemma parse_precision_length: "parse_precision format flags va = Inr (format', r) \<Longrightarrow> length format' \<le> length format"
  by (auto simp: parse_precision_def c_simps Let_def split: if_splits prod.splits dest!: atoi_format_length)

lemma parse_length_length: "parse_length format flags = Inr (format', r) \<Longrightarrow> length format' \<le> length format"
  by (auto simp: parse_length_def c_simps split: if_splits)

lemma directive_length:
  assumes "directive format va = Inr (c, format', r)"
  shows "length format' < length format"
proof -
  obtain f1 fl1 f2 fl2 w va2 f3 fl3 p va3 f4 fl4 where
    "parse_flags format 0 = Inr (f1, fl1)" "parse_width f1 fl1 va = Inr (f2, fl2, w, va2)"
    "parse_precision f2 fl2 va2 = Inr (f3, fl3, p, va3)" "parse_length f3 fl3 = Inr (f4, fl4)" "f4 \<noteq> []" "format' = tl f4"
    using assms by (auto simp: directive_def c_simps split: prod.splits)
  then show ?thesis
    using parse_flags_length [of format 0 f1 fl1] parse_width_length [of f1 fl1 va f2] parse_precision_length [of f2 fl2 va2 f3]
      parse_length_length [of f3 fl3 f4] by (cases f4) auto
qed

function vsnprintf_loop ::
  "'d double_ops \<Rightarrow> nat \<Rightarrow> char list \<Rightarrow> 'd va list \<Rightarrow> sink \<times> nat \<Rightarrow> (sink \<times> nat) cres" where
  "vsnprintf_loop fp maxlen [] va st = Inl Out_Of_Bounds"
| "vsnprintf_loop fp maxlen (c # format) va st =
     (if c = NUL then Inr st
      else if c \<noteq> CHR ''%'' then cbind (emit_char maxlen st c) (vsnprintf_loop fp maxlen format va)
      else
        cbind (directive format va) (\<lambda>(d, format', flags, width, precision, va').
        cbind (convert fp maxlen d flags width precision va' st) (\<lambda>(va'', st'). vsnprintf_loop fp maxlen format' va'' st')))"
  by pat_completeness auto
termination
  by (relation "measure (\<lambda>(fp, maxlen, format, va, st). length format)") (auto dest: directive_length intro: less_SucI)

definition vsnprintf ::
  "'d double_ops \<Rightarrow> sink \<Rightarrow> nat \<Rightarrow> char list \<Rightarrow> 'd va list \<Rightarrow> (sink \<times> nat) cres" where
  "vsnprintf fp s maxlen format va =
     cbind (vsnprintf_loop fp maxlen format va (s, 0)) (\<lambda>(s', idx).
     cbind (out NUL s' (if idx < maxlen then idx else maxlen - 1) maxlen) (\<lambda>s''. Inr (s'', idx)))"

text \<open>The functions with these names: what goes to the channel, or the buffer, and the number of characters.\<close>

definition printf :: "'d double_ops \<Rightarrow> char list \<Rightarrow> 'd va list \<Rightarrow> (sink \<times> nat) cres" where
  "printf fp format va = vsnprintf fp (Out_Char []) (2 ^ 32 - 1) format va"

definition sprintf :: "'d double_ops \<Rightarrow> char list \<Rightarrow> char list \<Rightarrow> 'd va list \<Rightarrow> (sink \<times> nat) cres" where
  "sprintf fp buffer format va = vsnprintf fp (Out_Buffer buffer) (2 ^ 32 - 1) format va"

definition snprintf ::
  "'d double_ops \<Rightarrow> char list option \<Rightarrow> nat \<Rightarrow> char list \<Rightarrow> 'd va list \<Rightarrow> (sink \<times> nat) cres" where
  "snprintf fp buffer n format va =
     vsnprintf fp (case buffer of None \<Rightarrow> Out_Null | Some b \<Rightarrow> Out_Buffer b) n format va"

end
