(* ===== verification/Kprintf_Properties.thy ===== *)
theory Kprintf_Properties
  imports Kprintf Shell_Properties
begin

section \<open>What formatted output does\<close>

subsection \<open>The same text for every sink\<close>

text \<open>An arithmetic to try the functions on: numbers of thousandths.\<close>

definition thousandths :: "int double_ops" where
  "thousandths =
     \<lparr> d_decimal = (\<lambda>m e. if - 3 \<le> e then m * 10 ^ nat (e + 3) else m sdiv 10 ^ nat (- 3 - e)),
       d_of_int = (\<lambda>i. i * 1000), d_trunc = (\<lambda>d. d sdiv 1000), d_neg = uminus,
       d_add = (+), d_sub = (-), d_mul = (\<lambda>c d. (c * d) sdiv 1000), d_div = (\<lambda>c d. (c * 1000) sdiv d),
       d_eq = (=), d_less = (<), d_le = (\<le>), d_bits = word_of_int, d_of_bits = uint, d_max = 10 ^ 300 \<rparr>"

text \<open>Characters put out without a check, as long as the buffer is as large as the caller says.\<close>

fun emit1 :: "nat \<Rightarrow> char \<Rightarrow> sink \<times> nat \<Rightarrow> sink \<times> nat" where
  "emit1 maxlen c (Out_Buffer b, idx) = (Out_Buffer (if idx < maxlen then b[idx := c] else b), idx + 1)"
| "emit1 maxlen c (Out_Char cs, idx) = (Out_Char (if c \<noteq> NUL then cs @ [c] else cs), idx + 1)"
| "emit1 maxlen c (Out_Null, idx) = (Out_Null, idx + 1)"

definition emitted :: "nat \<Rightarrow> string \<Rightarrow> sink \<times> nat \<Rightarrow> sink \<times> nat" where
  "emitted maxlen cs st = fold (emit1 maxlen) cs st"

fun sink_ok :: "nat \<Rightarrow> sink \<times> nat \<Rightarrow> bool" where
  "sink_ok maxlen (Out_Buffer b, idx) \<longleftrightarrow> maxlen \<le> length b"
| "sink_ok maxlen _ \<longleftrightarrow> True"

lemma emitted_simps [simp]:
  "emitted maxlen [] st = st" "emitted maxlen (c # cs) st = emitted maxlen cs (emit1 maxlen c st)"
  "emitted maxlen (cs @ ds) st = emitted maxlen ds (emitted maxlen cs st)"
  by (simp_all add: emitted_def)

lemma emit1_ok [simp]: "sink_ok maxlen st \<Longrightarrow> sink_ok maxlen (emit1 maxlen c st)"
  by (cases "(maxlen, c, st)" rule: emit1.cases) auto

lemma emitted_ok [simp]: "sink_ok maxlen st \<Longrightarrow> sink_ok maxlen (emitted maxlen cs st)"
  by (induction cs arbitrary: st) simp_all

lemma emit_char_ok [simp]: "sink_ok maxlen st \<Longrightarrow> emit_char maxlen st c = Inr (emit1 maxlen c st)"
  by (cases "(maxlen, c, st)" rule: emit1.cases) (auto simp: emit_char_def out_def)

lemma snd_emitted: "snd (emitted maxlen cs st) = snd st + length cs"
proof (induction cs arbitrary: st)
  case (Cons c cs)
  have "snd (emit1 maxlen c st) = snd st + 1" by (cases "(maxlen, c, st)" rule: emit1.cases) auto
  then show ?case using Cons by simp
qed simp

text \<open>
  A computation that puts out the same text, and returns the same result, whatever the sink and the size of the
  buffer are, or meets the same fault.
\<close>

definition uniform :: "(nat \<Rightarrow> sink \<times> nat \<Rightarrow> ('r \<times> (sink \<times> nat)) cres) \<Rightarrow> bool" where
  "uniform f \<longleftrightarrow>
     (\<exists>e. \<forall>maxlen st. sink_ok maxlen st \<longrightarrow> f maxlen st = Inl e) \<or>
     (\<exists>r cs. \<forall>maxlen st. sink_ok maxlen st \<longrightarrow> f maxlen st = Inr (r, emitted maxlen cs st))"

definition writes :: "(nat \<Rightarrow> sink \<times> nat \<Rightarrow> (sink \<times> nat) cres) \<Rightarrow> bool" where
  "writes f \<longleftrightarrow>
     (\<exists>e. \<forall>maxlen st. sink_ok maxlen st \<longrightarrow> f maxlen st = Inl e) \<or>
     (\<exists>cs. \<forall>maxlen st. sink_ok maxlen st \<longrightarrow> f maxlen st = Inr (emitted maxlen cs st))"

lemma writesI: "(\<And>maxlen st. sink_ok maxlen st \<Longrightarrow> f maxlen st = Inr (emitted maxlen cs st)) \<Longrightarrow> writes f"
  by (auto simp: writes_def)

lemma writes_Inr: "writes (\<lambda>maxlen st. Inr st)"
  by (rule writesI [of _ "[]"]) simp

lemma writes_Inl: "writes (\<lambda>maxlen st. Inl e)"
  by (auto simp: writes_def)

lemma writes_if: "writes f \<Longrightarrow> writes g \<Longrightarrow> writes (\<lambda>maxlen st. if b then f maxlen st else g maxlen st)"
  by (cases b) simp_all

lemma writes_emit: "writes (\<lambda>maxlen st. emit_char maxlen st c)"
  by (rule writesI [of _ "[c]"]) simp

lemma writes_fail: "(\<And>maxlen st. sink_ok maxlen st \<Longrightarrow> f maxlen st = Inl e) \<Longrightarrow> writes f"
  by (auto simp: writes_def)

lemma writes_cases:
  assumes "writes f"
  obtains (fault) e where "\<And>maxlen st. sink_ok maxlen st \<Longrightarrow> f maxlen st = Inl e"
    | (puts) cs where "\<And>maxlen st. sink_ok maxlen st \<Longrightarrow> f maxlen st = Inr (emitted maxlen cs st)"
  using assms unfolding writes_def by blast

lemma writes_bind:
  assumes f: "writes f" and g: "writes g"
  shows "writes (\<lambda>maxlen st. cbind (f maxlen st) (g maxlen))"
  using f
proof (cases rule: writes_cases)
  case (fault e)
  then show ?thesis by (intro writes_fail [of _ e]) simp
next
  case cs: (puts cs)
  show ?thesis using g
  proof (cases rule: writes_cases)
    case (fault e)
    then show ?thesis using cs by (intro writes_fail [of _ e]) simp
  next
    case (puts ds)
    then show ?thesis using cs by (intro writesI [of _ "cs @ ds"]) simp
  qed
qed

lemma writes_cfold:
  assumes "\<And>x. writes (\<lambda>maxlen st. f maxlen st x)"
  shows "writes (\<lambda>maxlen st. cfold (f maxlen) st xs)"
proof (induction xs)
  case (Cons x xs)
  show ?case using writes_bind [OF assms [of x] Cons] by simp
qed (simp add: writes_Inr)

lemma writes_emit_list: "writes (\<lambda>maxlen st. cfold (emit_char maxlen) st cs)"
  by (rule writes_cfold) (rule writes_emit)

lemma writes_const: "(\<And>x. m = Inr x \<Longrightarrow> writes (f x)) \<Longrightarrow> writes (\<lambda>maxlen st. cbind m (\<lambda>x. f x maxlen st))"
  by (cases m) (simp_all add: writes_Inl)

lemma writes_pad: "writes (\<lambda>maxlen st. pad maxlen c i width st)"
  unfolding pad_def by (rule writes_cfold) (rule writes_emit)

text \<open>The filling up on the right looks at the index, but only at the number of characters since the start.\<close>

lemma writes_fill_up:
  assumes "writes f"
  shows "writes (\<lambda>maxlen st. cbind (f maxlen st) (\<lambda>st2. pad maxlen c (snd st2 - snd st) width st2))"
  using assms
proof (cases rule: writes_cases)
  case (fault e)
  then show ?thesis by (intro writes_fail [of _ e]) simp
next
  case (puts cs)
  have "writes (\<lambda>maxlen st. cbind (Inr (emitted maxlen cs st)) (pad maxlen c (length cs) width))"
    by (rule writes_bind) (rule writesI [of _ cs], simp, rule writes_pad)
  then show ?thesis unfolding writes_def using puts by (simp add: snd_emitted)
qed

lemma writes_fill_up_if:
  assumes "writes f"
  shows "writes (\<lambda>maxlen st. cbind (f maxlen st) (\<lambda>st2. if b then pad maxlen c (snd st2 - snd st) width st2 else Inr st2))"
  using writes_fill_up [OF assms] assms by (cases b) simp_all

lemma writes_out_rev: "writes (\<lambda>maxlen st. out_rev maxlen st buf n width flags)"
proof -
  have "writes (\<lambda>maxlen st. cbind (rd buf i) (emit_char maxlen st))" for i
    using writes_const [of "rd buf i" "\<lambda>c maxlen st. emit_char maxlen st c"] writes_emit by simp
  then have "writes (\<lambda>maxlen st. cfold (\<lambda>st i. cbind (rd buf i) (emit_char maxlen st)) st (rev [0..<n]))" by (rule writes_cfold)
  then have "writes (\<lambda>maxlen st. cbind
      (if \<not> has_flag flags FLAGS_LEFT \<and> \<not> has_flag flags FLAGS_ZEROPAD then pad maxlen CHR '' '' n width st else Inr st)
      (\<lambda>st1. cfold (\<lambda>st i. cbind (rd buf i) (emit_char maxlen st)) st1 (rev [0..<n])))"
    by (intro writes_bind writes_if writes_pad writes_Inr)
  from writes_fill_up_if [OF this, of "has_flag flags FLAGS_LEFT" "CHR '' ''" width]
  show ?thesis by (simp add: out_rev_def cbind_assoc)
qed

lemma writes_ntoa: "writes (\<lambda>maxlen st. ntoa maxlen st value negative base prec width flags)"
proof -
  have fmt: "writes (\<lambda>maxlen st. ntoa_format maxlen st b negative base prec width fl)" for b fl
    unfolding ntoa_format_def Let_def
    by (intro writes_const) (auto intro!: writes_const writes_out_rev split: prod.splits)
  show ?thesis unfolding ntoa_def Let_def by (intro writes_const fmt)
qed

lemma uniform_const: "(\<And>x. m = Inr x \<Longrightarrow> uniform (f x)) \<Longrightarrow> uniform (\<lambda>maxlen st. cbind m (\<lambda>x. f x maxlen st))"
  by (cases m) (simp_all add: uniform_def)

lemma uniform_pair: "(\<And>x y. uniform (f x y)) \<Longrightarrow> uniform (\<lambda>maxlen st. cbind m (\<lambda>(x, y). f x y maxlen st))"
proof (cases m)
  case (Inr r)
  moreover assume "\<And>x y. uniform (f x y)"
  ultimately show ?thesis by (cases r) simp
qed (simp add: uniform_def)

lemma uniform_writes: "writes f \<Longrightarrow> uniform (\<lambda>maxlen st. cbind (f maxlen st) (\<lambda>st'. Inr (r, st')))"
  by (erule writes_cases) (auto simp: uniform_def)

lemma uniform_if: "uniform f \<Longrightarrow> uniform g \<Longrightarrow> uniform (\<lambda>maxlen st. if b then f maxlen st else g maxlen st)"
  by (cases b) simp_all

lemma writes_uniform:
  assumes "uniform f" "\<And>r. writes (g r)"
  shows "writes (\<lambda>maxlen st. cbind (f maxlen st) (\<lambda>(r, st'). g r maxlen st'))"
  using assms(1) unfolding uniform_def
proof (elim disjE exE)
  fix e assume "\<forall>maxlen st. sink_ok maxlen st \<longrightarrow> f maxlen st = Inl e"
  then show ?thesis by (intro writes_fail [of _ e]) (simp only: cbind_simps)
next
  fix r cs assume f: "\<forall>maxlen st. sink_ok maxlen st \<longrightarrow> f maxlen st = Inr (r, emitted maxlen cs st)"
  have "writes (\<lambda>maxlen st. cbind (Inr (emitted maxlen cs st)) (g r maxlen))"
    by (rule writes_bind) (rule writesI [of _ cs], simp, rule assms(2))
  then show ?thesis using f unfolding writes_def by simp
qed

lemma writes_padded: "writes (\<lambda>maxlen st. body maxlen st) \<Longrightarrow> writes (\<lambda>maxlen st. padded maxlen flags l width (body maxlen) st)"
  unfolding padded_def by (intro writes_bind writes_if writes_pad writes_Inr)

lemma writes_string_loop: "writes (\<lambda>maxlen st. string_loop maxlen flags p precision st)"
proof (induction p arbitrary: precision)
  case Nil
  show ?case unfolding string_loop.simps by (rule writes_Inl)
next
  case (Cons c p)
  show ?case unfolding string_loop.simps by (intro writes_if writes_bind writes_emit Cons writes_Inr)
qed

lemma uniform_integer: "uniform (\<lambda>maxlen st. format_integer maxlen c flags width precision va st)"
  unfolding format_integer_def Let_def ntoa_long_def ntoa_long_long_def
  by (intro uniform_if uniform_pair uniform_const uniform_writes writes_ntoa)

lemma writes_ftoa_with:
  assumes "\<And>value prec width flags. writes (\<lambda>maxlen st. e maxlen st value prec width flags)"
  shows "writes (\<lambda>maxlen st. ftoa_with fp e maxlen st value prec width flags)"
  unfolding ftoa_with_def by (intro writes_if writes_out_rev assms writes_const) (auto intro!: writes_out_rev split: prod.splits)

lemma writes_etoa_with:
  assumes "\<And>value prec width flags. writes (\<lambda>maxlen st. f maxlen st value prec width flags)"
  shows "writes (\<lambda>maxlen st. etoa_with fp f maxlen st value prec width flags)"
proof -
  have "writes (\<lambda>maxlen st. cbind (f maxlen st v p w (fl AND NOT FLAGS_ADAPT_EXP)) (\<lambda>st1.
          if minwidth = 0 then Inr st1
          else
            cbind (emit_char maxlen st1 c) (\<lambda>st2.
            cbind i (\<lambda>e. cbind (ntoa_long maxlen st2 (word_of_int e) neg 10 0 (minwidth - 1) nfl) (\<lambda>st3.
              if has_flag fl FLAGS_LEFT then pad maxlen CHR '' '' (snd st3 - snd st) width st3 else Inr st3)))))" (is "writes ?f")
    for v p w fl minwidth c and i :: "int cres" and neg nfl
  proof -
    have parts: "writes (\<lambda>maxlen st. cbind (f maxlen st v p w (fl AND NOT FLAGS_ADAPT_EXP)) (\<lambda>st1. cbind (emit_char maxlen st1 c) (\<lambda>st2.
        cbind i (\<lambda>e. ntoa_long maxlen st2 (word_of_int e) neg 10 0 (minwidth - 1) nfl))))"
      unfolding ntoa_long_def by (intro writes_bind assms writes_emit writes_const writes_ntoa)
    show ?thesis
    proof (cases "minwidth = 0")
      case False
      then show ?thesis using writes_fill_up_if [OF parts, of "has_flag fl FLAGS_LEFT" "CHR '' ''" width] by (simp add: cbind_assoc)
    qed (use assms in simp)
  qed
  then show ?thesis
    unfolding etoa_with_def by (intro writes_if assms writes_const) (auto split: prod.splits)
qed

lemma writes_ftoa: "writes (\<lambda>maxlen st. ftoa n fp maxlen st v prec width flags)"
  by (induction n arbitrary: v prec width flags) (auto intro!: writes_ftoa_with writes_etoa_with writes_Inl)

lemma writes_etoa: "writes (\<lambda>maxlen st. etoa n fp maxlen st value prec width flags)"
  unfolding etoa_def by (intro writes_etoa_with writes_ftoa)

lemma uniform_double: "uniform (\<lambda>maxlen st. format_double fp maxlen c flags width precision va st)"
  unfolding format_double_def Let_def by (intro uniform_pair uniform_writes writes_if writes_ftoa writes_etoa)

lemma uniform_char: "uniform (\<lambda>maxlen st. format_char maxlen flags width va st)"
  unfolding format_char_def by (intro uniform_pair uniform_writes writes_padded writes_emit)

lemma uniform_string: "uniform (\<lambda>maxlen st. format_string maxlen flags width precision va st)"
  unfolding format_string_def by (intro uniform_pair uniform_const uniform_writes writes_padded writes_string_loop)

lemma uniform_pointer: "uniform (\<lambda>maxlen st. format_pointer maxlen flags precision va st)"
  unfolding format_pointer_def ntoa_long_def by (intro uniform_pair uniform_writes writes_ntoa)

lemma uniform_convert: "uniform (\<lambda>maxlen st. convert fp maxlen c flags width precision va st)"
  unfolding convert_def
  by (intro uniform_if uniform_integer uniform_double uniform_char uniform_string uniform_pointer uniform_writes writes_emit)

lemma writes_vsnprintf_loop: "writes (\<lambda>maxlen st. vsnprintf_loop fp maxlen format va st)"
proof (induction format arbitrary: va rule: measure_induct_rule [of length])
  case (less format)
  show ?case
  proof (cases format)
    case Nil
    then show ?thesis by (simp add: writes_Inl)
  next
    case (Cons c rest)
    have plain: "writes (\<lambda>maxlen st. cbind (emit_char maxlen st c) (vsnprintf_loop fp maxlen rest va))"
      using less [of rest] Cons by (intro writes_bind writes_emit) simp
    have directive: "writes (\<lambda>maxlen st. cbind (directive rest va) (\<lambda>(d, format', flags, width, precision, va').
        cbind (convert fp maxlen d flags width precision va' st) (\<lambda>(va'', st'). vsnprintf_loop fp maxlen format' va'' st')))"
    proof (cases "directive rest va")
      case (Inr x)
      obtain d format' flags width precision va' where x: "x = (d, format', flags, width, precision, va')" by (cases x)
      have "length format' < length format" using directive_length [of rest va d format'] Inr x Cons by simp
      then have "writes (\<lambda>maxlen st. cbind (convert fp maxlen d flags width precision va' st) (\<lambda>(va'', st'). vsnprintf_loop fp maxlen format' va'' st'))"
        by (intro writes_uniform uniform_convert less)
      then show ?thesis using Inr x by simp
    qed (simp add: writes_Inl)
    show ?thesis unfolding Cons vsnprintf_loop.simps by (intro writes_if plain directive writes_Inr)
  qed
qed

subsection \<open>Truncation\<close>

lemma emitted_buffer:
  "maxlen \<le> length b \<Longrightarrow>
     emitted maxlen cs (Out_Buffer b, 0) = (Out_Buffer (take maxlen cs @ drop (min (length cs) maxlen) b), length cs)"
proof (induction cs rule: rev_induct)
  case (snoc c cs)
  show ?case
  proof (cases "length cs < maxlen")
    case True
    then have "drop (length cs) b = b ! length cs # drop (Suc (length cs)) b" using snoc.prems by (simp add: Cons_nth_drop_Suc)
    then show ?thesis using snoc True by (simp add: list_update_append)
  next
    case False
    then show ?thesis using snoc by simp
  qed
qed simp

lemma emitted_channel: "emitted maxlen cs (Out_Char ds, idx) = (Out_Char (ds @ filter (\<lambda>c. c \<noteq> NUL) cs), idx + length cs)"
  by (induction cs arbitrary: ds idx) simp_all

text \<open>
  C35: \<open>snprintf\<close> writes what \<open>printf\<close> sends. For every format and all arguments both meet the same fault, or there is
  one text: \<open>printf\<close> sends it (without its \<open>NUL\<close>s), and \<open>snprintf\<close> writes as much of it as fits in front of
  a \<open>NUL\<close> within the size it was given, which is always written, leaves the rest of the buffer as it was, and returns
  the length of the whole text. In particular it never writes behind the buffer.
\<close>

theorem snprintf_truncates:
  assumes "0 < n" "n \<le> length b"
  shows "(\<exists>e. snprintf fp (Some b) n format va = Inl e \<and> printf fp format va = Inl e) \<or>
    (\<exists>cs. snprintf fp (Some b) n format va =
        Inr (Out_Buffer (take (n - 1) cs @ NUL # drop (min (length cs) (n - 1) + 1) b), length cs) \<and>
      printf fp format va = Inr (Out_Char (filter (\<lambda>c. c \<noteq> NUL) cs), length cs))"
  using writes_vsnprintf_loop [of fp format va]
proof (cases rule: writes_cases)
  case (fault e)
  then show ?thesis using assms by (simp add: snprintf_def printf_def vsnprintf_def)
next
  case (puts cs)
  have buffer: "vsnprintf_loop fp n format va (Out_Buffer b, 0) =
      Inr (Out_Buffer (take n cs @ drop (min (length cs) n) b), length cs)"
    using puts assms emitted_buffer by simp
  have "snprintf fp (Some b) n format va =
      Inr (Out_Buffer (take (n - 1) cs @ NUL # drop (min (length cs) (n - 1) + 1) b), length cs)"
  proof (cases "length cs < n")
    case True
    then have "drop (length cs) b = b ! length cs # drop (Suc (length cs)) b" using assms by (simp add: Cons_nth_drop_Suc)
    then show ?thesis using True assms by (simp add: snprintf_def vsnprintf_def buffer out_def list_update_append)
  next
    case False
    obtain k where k: "n = Suc k" using assms(1) not0_implies_Suc by blast
    then have "take n cs = take k cs @ [cs ! k]" using False by (simp add: take_Suc_conv_app_nth)
    then show ?thesis using False assms unfolding k by (simp add: snprintf_def vsnprintf_def buffer [unfolded k] out_def list_update_append)
  qed
  moreover have "printf fp format va = Inr (Out_Char (filter (\<lambda>c. c \<noteq> NUL) cs), length cs)"
    using puts by (simp add: printf_def vsnprintf_def out_def emitted_channel)
  ultimately show ?thesis by blast
qed

theorem snprintf_truncates_witness:
  "snprintf thousandths (Some (replicate 8 CHR ''#'')) 6 (lit ''on track'') ([] :: int va list) =
    Inr (Out_Buffer (''on tr'' @ [NUL] @ ''##''), 8)"
proof -
  have "printf thousandths (lit ''on track'') ([] :: int va list) = Inr (Out_Char ''on track'', 8)"
    by (simp add: printf_def vsnprintf_def lit_def emit_char_def out_def)
  then obtain cs where cs: "filter (\<lambda>c. c \<noteq> NUL) cs = ''on track''" "length cs = 8"
    "snprintf thousandths (Some (replicate 8 CHR ''#'')) 6 (lit ''on track'') ([] :: int va list) =
      Inr (Out_Buffer (take 5 cs @ NUL # drop 6 (replicate 8 CHR ''#'')), 8)"
    using snprintf_truncates [of 6 "replicate 8 CHR ''#''" "thousandths" "lit ''on track''" "[] :: int va list"] by auto
  have "\<forall>c \<in> set cs. c \<noteq> NUL"
  proof
    fix c assume "c \<in> set cs"
    then show "c \<noteq> NUL" using length_filter_less [of c cs "\<lambda>c. c \<noteq> NUL"] cs(1,2) by auto
  qed
  then have "cs = ''on track''" using cs(1) by (simp add: filter_True)
  then show ?thesis using cs(3) by (simp add: eval_nat_numeral)
qed

subsection \<open>Numbers\<close>

lemma digits_length: "n < 10 ^ k \<Longrightarrow> 0 < k \<Longrightarrow> length (digits n) \<le> k"
proof (induction k arbitrary: n)
  case (Suc k)
  show ?case
  proof (cases "n < 10")
    case True
    then show ?thesis by (simp add: digits.simps [of n])
  next
    case False
    then have "0 < k" using Suc.prems(1) by (cases k) simp_all
    moreover have "n div 10 < 10 ^ k" using Suc.prems(1) by (simp add: less_mult_imp_div_less mult.commute)
    ultimately show ?thesis using Suc.IH [of "n div 10"] False by (simp add: digits.simps [of n])
  qed
qed simp

lemma digit_char_decimal: "d < 10 \<Longrightarrow> digit_char d flags = char_of (48 + d)"
  by (simp add: digit_char_def)

lemma put_ok: "snd b < length (fst b) \<Longrightarrow> put c b = Inr ((fst b)[snd b := c], snd b + 1)"
  by (cases b) (simp add: put_def)

lemma take_update_Suc: "i < length xs \<Longrightarrow> take (Suc i) (xs[i := x]) = take i xs @ [x]"
  by (simp add: take_Suc_conv_app_nth)

lemma ntoa_digits_ok:
  assumes "length buf = PRINTF_NTOA_BUFFER_SIZE" "n + length (digits v) \<le> PRINTF_NTOA_BUFFER_SIZE"
  shows "\<exists>buf'. ntoa_digits 10 flags v (buf, n) = Inr (buf', n + length (digits v)) \<and>
    length buf' = PRINTF_NTOA_BUFFER_SIZE \<and> take (n + length (digits v)) buf' = take n buf @ rev (digits v)"
  using assms
proof (induction v arbitrary: buf n rule: digits.induct)
  case (1 v)
  let ?buf = "buf[n := char_of (48 + v mod 10)]"
  have n: "n < PRINTF_NTOA_BUFFER_SIZE" using "1.prems"(2) digits_ne(1) [of v] by (cases "digits v") simp_all
  have put: "put (digit_char (v mod 10) flags) (buf, n) = Inr (?buf, Suc n)"
    using put_ok [of "(buf, n)"] n "1.prems"(1) by (simp add: digit_char_decimal)
  have last: "take (Suc n) ?buf = take n buf @ [char_of (48 + v mod 10)]" using n "1.prems"(1) by (simp add: take_update_Suc)
  show ?case
  proof (cases "v < 10")
    case True
    then show ?thesis using put last "1.prems"(1) by (subst ntoa_digits.simps) (simp add: digits.simps [of v])
  next
    case False
    have ds: "digits v = digits (v div 10) @ [char_of (48 + v mod 10)]" using False by (simp add: digits.simps [of v])
    have room: "Suc n + length (digits (v div 10)) \<le> PRINTF_NTOA_BUFFER_SIZE" using "1.prems"(2) ds by simp
    have "0 < length (digits (v div 10))" using digits_ne(1) by simp
    then have more: "Suc n < PRINTF_NTOA_BUFFER_SIZE" using room by linarith
    have nonzero: "v div 10 \<noteq> 0" using False by (simp add: div_eq_0_iff)
    obtain buf' where "ntoa_digits 10 flags (v div 10) (?buf, Suc n) = Inr (buf', Suc n + length (digits (v div 10)))"
      "length buf' = PRINTF_NTOA_BUFFER_SIZE" "take (Suc n + length (digits (v div 10))) buf' = take (Suc n) ?buf @ rev (digits (v div 10))"
      using "1.IH" [OF False _ room, of ?buf] "1.prems"(1) by auto
    then show ?thesis using put last more nonzero ds by (subst ntoa_digits.simps) (auto simp del: One_nat_def)
  qed
qed

text \<open>Characters put out one after the other, into any sink, also a buffer that is too short.\<close>

lemma emit_text: "sink_ok maxlen st \<Longrightarrow> cfold (emit_char maxlen) st cs = Inr (emitted maxlen cs st)"
  by (induction cs arbitrary: st) simp_all

lemma pad_text: "pad maxlen c i width st = cfold (emit_char maxlen) st (replicate (width - i) c)"
proof -
  have "cfold (\<lambda>st _. emit_char maxlen st c) st xs = cfold (emit_char maxlen) st (replicate (length xs) c)" for xs :: "nat list" and st
    by (induction xs arbitrary: st) simp_all
  then show ?thesis by (simp add: pad_def)
qed

lemma pad_ok: "sink_ok maxlen st \<Longrightarrow> pad maxlen c i width st = Inr (emitted maxlen (replicate (width - i) c) st)"
  by (simp add: pad_text emit_text)

lemma reverse_text:
  "n \<le> length buf \<Longrightarrow>
     cfold (\<lambda>st i. cbind (rd buf i) (emit_char maxlen st)) st (rev [0..<n]) = cfold (emit_char maxlen) st (rev (take n buf))"
  by (induction n arbitrary: st) (simp_all add: take_Suc_conv_app_nth)

lemma no_flags [simp]: "\<not> has_flag 0 f"
  by (simp add: has_flag_def)

text \<open>Without flags and precision: the digits and the sign, filled up with spaces in front.\<close>

lemma ntoa_decimal:
  assumes v: "v < 2 ^ 32"
  shows "ntoa maxlen st v negative 10 0 width 0 =
    (let cs = (if negative then CHR ''-'' # digits v else digits v)
     in cfold (emit_char maxlen) st (replicate (width - length cs) CHR '' '' @ cs))"
proof -
  have ten: "length (digits v) \<le> 10" using v by (intro digits_length) simp_all
  obtain buf where buf: "ntoa_digits 10 0 v (replicate PRINTF_NTOA_BUFFER_SIZE NUL, 0) = Inr (buf, length (digits v))"
    "length buf = PRINTF_NTOA_BUFFER_SIZE" "take (length (digits v)) buf = rev (digits v)"
    using ntoa_digits_ok [of "replicate PRINTF_NTOA_BUFFER_SIZE NUL" 0 v 0] ten by (auto simp: PRINTF_NTOA_BUFFER_SIZE_def)
  let ?n = "length (digits v)"
  have room: "?n < length buf" using ten buf(2) by (simp add: PRINTF_NTOA_BUFFER_SIZE_def)
  have zeros: "zeros 0 (buf, ?n) = Inr (buf, ?n)" by (simp add: zeros_def)
  have out: "out_rev maxlen st b (length cs) width 0 = cfold (emit_char maxlen) st (replicate (width - length cs) CHR '' '' @ cs)"
    if "take (length cs) b = rev cs" "length cs \<le> length b" for b cs
    using that by (simp add: out_rev_def pad_text reverse_text cfold_append)
  have "(if v = 0 then 0 AND NOT FLAGS_HASH else 0) = 0" by simp
  then have start: "ntoa maxlen st v negative 10 0 width 0 = ntoa_format maxlen st (buf, ?n) negative 10 0 width 0"
    unfolding ntoa_def Let_def by (simp add: buf(1))
  show ?thesis
  proof (cases negative)
    case True
    have "put CHR ''-'' (buf, ?n) = Inr (buf[?n := CHR ''-''], Suc ?n)" using put_ok [of "(buf, ?n)"] room by simp
    moreover have "out_rev maxlen st (buf[?n := CHR ''-'']) (Suc ?n) width 0 =
        cfold (emit_char maxlen) st (replicate (width - Suc ?n) CHR '' '' @ CHR ''-'' # digits v)"
      using out [of "CHR ''-'' # digits v" "buf[?n := CHR ''-'']"] room buf(3) by (simp add: take_update_Suc)
    ultimately show ?thesis
      using True buf zeros room unfolding start by (simp add: ntoa_format_def Let_def)
  next
    case False
    then show ?thesis using out [of "digits v" buf] buf zeros room unfolding start by (simp add: ntoa_format_def Let_def)
  qed
qed

subsection \<open>Directives\<close>

lemma is_digit_char: "d < (10 :: nat) \<Longrightarrow> is_digit (char_of (48 + d))"
  by (simp add: is_digit_def less_eq_char_def)

lemma atoi_format_digits:
  "n < 2 ^ 32 \<Longrightarrow> atoi_format (digits n @ str) 0 = atoi_format str n"
proof (induction n arbitrary: str rule: digits.induct)
  case (1 n)
  have step: "atoi_format (char_of (48 + d) # str) i = atoi_format str ((i * 10 + d) mod 2 ^ 32)" if "d < 10" for d i :: nat
    using is_digit_char [OF that] that by simp
  show ?case
  proof (cases "n < 10")
    case True
    then show ?thesis using step [of n 0] by (simp add: digits.simps [of n])
  next
    case False
    have "atoi_format (digits n @ str) 0 = atoi_format (digits (n div 10) @ char_of (48 + n mod 10) # str) 0"
      using False by (simp add: digits.simps [of n])
    also have "\<dots> = atoi_format (char_of (48 + n mod 10) # str) (n div 10)" by (rule "1.IH") (use False "1.prems" in simp_all)
    also have "\<dots> = atoi_format str n" using step [of "n mod 10" "n div 10"] "1.prems" by simp
    finally show ?thesis .
  qed
qed

lemma hd_digits: "0 < n \<Longrightarrow> \<exists>d :: nat. 0 < d \<and> d < 10 \<and> hd (digits n) = char_of (48 + d)"
proof (induction n rule: digits.induct)
  case (1 n)
  show ?case
  proof (cases "n < 10")
    case True
    then show ?thesis using "1.prems" by (intro exI [of _ n]) (simp add: digits.simps [of n])
  next
    case False
    then show ?thesis using "1.IH" digits_ne(1) [of "n div 10"] by (simp add: digits.simps [of n] div_greater_zero_iff)
  qed
qed

text \<open>The field width of a directive, and the directive \<open>%d\<close> with one.\<close>

definition field :: "nat \<Rightarrow> string" where
  "field width = (if width = 0 then [] else digits width)"

lemma directive_decimal:
  assumes "width < 2 ^ 32"
  shows "directive (field width @ CHR ''d'' # rest) va = Inr (CHR ''d'', rest, 0, width, 0, va)"
proof -
  have d: "\<not> is_digit CHR ''d''" by (simp add: is_digit_def)
  have flags: "parse_flags (field width @ CHR ''d'' # rest) 0 = Inr (field width @ CHR ''d'' # rest, 0)"
  proof (cases "width = 0")
    case False
    then obtain k :: nat where k: "0 < k" "k < 10" "hd (digits width) = char_of (48 + k)" using hd_digits [of width] by auto
    obtain c cs where cs: "digits width = c # cs" using digits_ne(1) [of width] by (cases "digits width") auto
    have "(of_char c :: int) = 48 + int k" using k cs digit_value [OF k(2)] by simp
    then have "c \<noteq> CHR ''0''" "c \<noteq> CHR ''-''" "c \<noteq> CHR ''+''" "c \<noteq> CHR '' ''" "c \<noteq> CHR ''#''" using k by auto
    then show ?thesis using False cs by (simp add: field_def)
  qed (simp add: field_def)
  have width: "parse_width (field width @ CHR ''d'' # rest) 0 va = Inr (CHR ''d'' # rest, 0, width, va)"
  proof (cases "width = 0")
    case False
    then obtain k :: nat where k: "0 < k" "k < 10" "hd (digits width) = char_of (48 + k)" using hd_digits [of width] by auto
    obtain c cs where cs: "digits width = c # cs" using digits_ne(1) [of width] by (cases "digits width") auto
    have "is_digit c" using k cs is_digit_char [OF k(2)] by simp
    then show ?thesis
      using False assms d cs atoi_format_digits [OF assms, of "CHR ''d'' # rest"] by (simp add: parse_width_def field_def)
  qed (use d in \<open>simp add: parse_width_def field_def\<close>)
  show ?thesis unfolding directive_def flags by (simp add: width parse_precision_def parse_length_def)
qed

lemma format_decimal:
  assumes "sint w \<noteq> - (2 ^ 31)"
  shows "format_integer maxlen CHR ''d'' 0 width 0 (VInt w # va) st =
    cbind (cfold (emit_char maxlen) st (replicate (width - length (decimal (sint w))) CHR '' '' @ decimal (sint w))) (\<lambda>st'. Inr (va, st'))"
proof -
  let ?text = "decimal (sint w)"
  have range: "- (2 ^ 31) \<le> sint w" "sint w < 2 ^ 31" using sint_greater_eq [of w] sint_less [of w] by simp_all
  let ?m = "if 0 < sint w then sint w else - sint w"
  have m: "magnitude 32 (sint w) = Inr ?m" "0 \<le> ?m" "?m < 2 ^ 31" using range assms(1) by (auto simp: magnitude_def)
  have val: "unat (word_of_int ?m :: 32 word) = nat ?m" using m(2,3) by (simp add: unat_eq_nat_uint uint_word_of_int)
  have flags: "integer_flags CHR ''d'' 0 = 0" by (simp add: integer_flags_def Let_def integer_base_def)
  have shown: "(if sint w < 0 then CHR ''-'' # digits (nat ?m) else digits (nat ?m)) = ?text" by (auto simp: decimal_def)
  show ?thesis
    using ntoa_decimal [of "nat ?m" maxlen st "sint w < 0" width] m val shown
    by (simp add: format_integer_def Let_def flags integer_base_def int_value_def ntoa_long_def nat_less_iff)
qed



end
