(* ===== verification/Kprintf_Doubles.thy ===== *)
theory Kprintf_Doubles
  imports Kprintf_Properties
begin

section \<open>The conversions of printf stay in their buffers\<close>

text \<open>
  Integers for every base, width and precision, floating point numbers for every arithmetic: the lemmas bound the
  characters collected in the buffer of the conversion.
\<close>

definition room :: "char list \<times> nat \<Rightarrow> bool" where
  "room b \<longleftrightarrow> length (fst b) = 32 \<and> snd b \<le> 32"

definition fills :: "(char list \<times> nat) cres \<Rightarrow> bool" where
  "fills m \<longleftrightarrow> (\<exists>b. m = Inr b \<and> room b)"

lemma fills_Inr [simp]: "fills (Inr b) \<longleftrightarrow> room b"
  by (simp add: fills_def)

lemma fillsE: "fills m \<Longrightarrow> (\<And>b. m = Inr b \<Longrightarrow> room b \<Longrightarrow> thesis) \<Longrightarrow> thesis"
  by (auto simp: fills_def)

lemma fills_bind: "fills m \<Longrightarrow> (\<And>b. room b \<Longrightarrow> fills (f b)) \<Longrightarrow> fills (cbind m f)"
  by (auto simp: fills_def)

lemma put_fills: "room b \<Longrightarrow> snd b < 32 \<Longrightarrow> fills (put c b)"
  by (simp add: room_def put_ok)

lemma put_snd: "room b \<Longrightarrow> snd b < 32 \<Longrightarrow> put c b = Inr ((fst b)[snd b := c], snd b + 1) \<and> room ((fst b)[snd b := c], snd b + 1)"
  by (simp add: room_def put_ok)

lemma puts_fill: "room b \<Longrightarrow> snd b + length xs \<le> 32 \<Longrightarrow> fills (cfold (\<lambda>b _. put c b) b xs)"
proof (induction xs arbitrary: b)
  case (Cons x xs)
  then show ?case using put_snd [of b c] Cons.IH [of "((fst b)[snd b := c], snd b + 1)"] by simp
qed simp

lemma zeros_fill: "room b \<Longrightarrow> fills (zeros n b)"
  unfolding zeros_def by (rule puts_fill) (auto simp: room_def PRINTF_NTOA_BUFFER_SIZE_def)

lemma put_room_fills: "room b \<Longrightarrow> fills (put_room c b)"
  by (simp add: put_room_def put_fills PRINTF_NTOA_BUFFER_SIZE_def)

subsection \<open>Integers\<close>

lemma ntoa_digits_fill: "room b \<Longrightarrow> snd b < 32 \<Longrightarrow> fills (ntoa_digits base flags v b)"
proof (induction base flags v b rule: ntoa_digits.induct)
  case (1 base flags v b)
  show ?case
    using put_snd [OF "1.prems"] "1.IH" by (subst ntoa_digits.simps) (auto simp: PRINTF_NTOA_BUFFER_SIZE_def)
qed

lemma ntoa_hash_fill: "room b \<Longrightarrow> fills (ntoa_hash b base prec width flags)"
  unfolding ntoa_hash_def Let_def
  by (rule fills_bind [OF _ put_room_fills]) (auto intro!: put_fills simp: PRINTF_NTOA_BUFFER_SIZE_def room_def)

text \<open>What has been collected is put out, whatever it is.\<close>

lemma body_total:
  "sink_ok maxlen st \<Longrightarrow> set is \<subseteq> {..<length buf} \<Longrightarrow>
     cfold (\<lambda>st i. cbind (rd buf i) (emit_char maxlen st)) st is = Inr (emitted maxlen (map ((!) buf) is) st)"
  by (induction "is" arbitrary: st) simp_all

lemma out_rev_total:
  assumes "sink_ok maxlen st" "n \<le> length buf"
  shows "\<exists>cs. out_rev maxlen st buf n width flags = Inr (emitted maxlen cs st)"
proof -
  obtain ds where front: "(if \<not> has_flag flags FLAGS_LEFT \<and> \<not> has_flag flags FLAGS_ZEROPAD then pad maxlen CHR '' '' n width st else Inr st) =
      Inr (emitted maxlen ds st)"
    using pad_ok [OF assms(1)] by (metis emitted_simps(1))
  let ?cs = "ds @ map ((!) buf) (rev [0..<n])"
  have body: "cfold (\<lambda>st i. cbind (rd buf i) (emit_char maxlen st)) (emitted maxlen ds st) (rev [0..<n]) = Inr (emitted maxlen ?cs st)"
    using body_total [of maxlen "emitted maxlen ds st" "rev [0..<n]" buf] assms by (simp add: subset_iff)
  obtain es where right: "(if has_flag flags FLAGS_LEFT then pad maxlen CHR '' '' (snd (emitted maxlen ?cs st) - snd st) width (emitted maxlen ?cs st)
      else Inr (emitted maxlen ?cs st)) = Inr (emitted maxlen (?cs @ es) st)"
    using pad_ok [OF emitted_ok [OF assms(1)]] by (metis append_Nil2 emitted_simps(3))
  show ?thesis unfolding out_rev_def front cbind_simps body right by blast
qed

lemma fills_out:
  assumes "fills m" "sink_ok maxlen st"
  shows "\<exists>cs. cbind m (\<lambda>(buf, len). out_rev maxlen st buf len width flags) = Inr (emitted maxlen cs st)"
  using assms(1) out_rev_total [OF assms(2)] by (elim fillsE) (auto simp: room_def split: prod.splits)

lemma ntoa_total:
  assumes "sink_ok maxlen st"
  shows "\<exists>cs. ntoa maxlen st v negative base prec width flags = Inr (emitted maxlen cs st)"
proof -
  have format: "\<exists>cs. ntoa_format maxlen st b negative base prec width fl = Inr (emitted maxlen cs st)" if "room b" for b fl
    unfolding ntoa_format_def Let_def cbind_assoc [symmetric] PRINTF_NTOA_BUFFER_SIZE_def
    by (rule fills_out [OF _ assms], intro fills_bind) (auto intro: zeros_fill ntoa_hash_fill that put_fills)
  have start: "room (replicate PRINTF_NTOA_BUFFER_SIZE NUL, 0)" by (simp add: room_def PRINTF_NTOA_BUFFER_SIZE_def)
  have digits: "fills (if \<not> has_flag fl FLAGS_PRECISION \<or> v \<noteq> 0 then ntoa_digits base fl v (replicate PRINTF_NTOA_BUFFER_SIZE NUL, 0)
      else Inr (replicate PRINTF_NTOA_BUFFER_SIZE NUL, 0))" for fl
    using ntoa_digits_fill [OF start] start by simp
  have "\<exists>cs. cbind (if \<not> has_flag fl FLAGS_PRECISION \<or> v \<noteq> 0 then ntoa_digits base fl v (replicate PRINTF_NTOA_BUFFER_SIZE NUL, 0)
      else Inr (replicate PRINTF_NTOA_BUFFER_SIZE NUL, 0)) (\<lambda>b. ntoa_format maxlen st b negative base prec width fl) = Inr (emitted maxlen cs st)" for fl
    using digits [of fl] format by (elim fillsE) (simp only: cbind_simps)
  then show ?thesis unfolding ntoa_def Let_def .
qed

subsection \<open>Floating point numbers\<close>

text \<open>A precision is brought down to 9 only as long as there is room for the zeros.\<close>

lemma limit_prec_ok:
  "room b \<Longrightarrow> \<exists>b'. limit_prec b prec = Inr (b', prec - min (prec - 9) (32 - snd b)) \<and> room b' \<and> snd b' = snd b + min (prec - 9) (32 - snd b)"
proof (induction b prec rule: limit_prec.induct)
  case (1 b prec)
  show ?case
  proof (cases "snd b < 32 \<and> 9 < prec")
    case True
    note step = put_snd [OF "1.prems", of "CHR ''0''"]
    let ?b = "((fst b)[snd b := CHR ''0''], snd b + 1)"
    obtain b' where b': "limit_prec ?b (prec - 1) = Inr (b', prec - 1 - min (prec - 1 - 9) (32 - snd ?b))" "room b'"
      "snd b' = snd ?b + min (prec - 1 - 9) (32 - snd ?b)"
      using "1.IH" [of ?b] step True by (auto simp: PRINTF_FTOA_BUFFER_SIZE_def)
    have "min (prec - 9) (32 - snd b) = Suc (min (prec - 1 - 9) (32 - snd ?b))" using True by (auto simp: min_def)
    then show ?thesis using b' step True by (subst limit_prec.simps) (simp add: PRINTF_FTOA_BUFFER_SIZE_def)
  next
    case False
    then have "min (prec - 9) (32 - snd b) = 0" by auto
    then show ?thesis using False "1.prems" by (subst limit_prec.simps) (cases b, auto simp: PRINTF_FTOA_BUFFER_SIZE_def)
  qed
qed

lemma frac_digits_fill: "room b \<Longrightarrow> \<exists>c b'. frac_digits frac cnt b = Inr (c, b') \<and> room b'"
proof (induction frac cnt b rule: frac_digits.induct)
  case (1 frac cnt b)
  show ?case
    using put_snd [OF "1.prems"] "1.IH" "1.prems"
    by (subst frac_digits.simps) (cases b, auto simp: PRINTF_FTOA_BUFFER_SIZE_def)
qed

lemma frac_zeros_fill: "room b \<Longrightarrow> fills (frac_zeros cnt b)"
  unfolding frac_zeros_def by (rule puts_fill) (auto simp: room_def PRINTF_FTOA_BUFFER_SIZE_def)

lemma whole_digits_fill: "room b \<Longrightarrow> fills (whole_digits whole b)"
proof (induction whole b rule: whole_digits.induct)
  case (1 whole b)
  show ?case
    using put_snd [OF "1.prems"] "1.IH" "1.prems" by (subst whole_digits.simps) (auto simp: PRINTF_FTOA_BUFFER_SIZE_def)
qed

lemma cint_not_bounds: "cint i \<noteq> Inl Out_Of_Bounds"
  by (simp add: cint_def)

lemma split_value_bounds:
  "prec \<le> 9 \<Longrightarrow> split_value fp v prec \<noteq> Inl Out_Of_Bounds"
  "9 < prec \<Longrightarrow> d_int fp v = Inr w \<Longrightarrow> split_value fp v prec = Inl Out_Of_Bounds"
proof -
  show "split_value fp v prec \<noteq> Inl Out_Of_Bounds" if "prec \<le> 9"
    using that by (auto simp: split_value_def Let_def cbind_Inl_iff rd_def pow10_def d_int_def d_ulong_def cint_def split: if_splits)
  show "split_value fp v prec = Inl Out_Of_Bounds" if "9 < prec" "d_int fp v = Inr w"
    using that by (simp add: split_value_def Let_def rd_def pow10_def)
qed

definition prec_of :: "32 word \<Rightarrow> nat \<Rightarrow> nat" where
  "prec_of flags prec = (if has_flag flags FLAGS_PRECISION then prec else PRINTF_DEFAULT_FLOAT_PRECISION)"

definition abs_of :: "'d double_ops \<Rightarrow> 'd \<Rightarrow> 'd" where
  "abs_of fp v = (if d_less fp v (d_of_int fp 0) then d_sub fp (d_of_int fp 0) v else v)"

lemma limit_start:
  obtains b where "limit_prec (replicate PRINTF_FTOA_BUFFER_SIZE NUL, 0) prec = Inr (b, prec - min (prec - 9) 32)" "room b"
  using limit_prec_ok [of "(replicate PRINTF_FTOA_BUFFER_SIZE NUL, 0)" prec] that by (auto simp: room_def PRINTF_FTOA_BUFFER_SIZE_def)

text \<open>The fraction with its point, the whole part, and what is put in front.\<close>

lemma fraction_fill:
  assumes "room b"
  shows "\<exists>b'. cbind (frac_digits frac cnt b) (\<lambda>(c, b2). cbind (frac_zeros c b2) (\<lambda>b3.
      cbind (if snd b3 < PRINTF_FTOA_BUFFER_SIZE then put CHR ''.'' b3 else Inr b3) (\<lambda>b4. Inr (whole, b4)))) = Inr (whole, b') \<and> room b'"
proof -
  obtain c b2 where b2: "frac_digits frac cnt b = Inr (c, b2)" "room b2" using frac_digits_fill [OF assms] by blast
  obtain b3 where b3: "frac_zeros c b2 = Inr b3" "room b3" using frac_zeros_fill [OF b2(2)] by (rule fillsE)
  have "fills (if snd b3 < PRINTF_FTOA_BUFFER_SIZE then put CHR ''.'' b3 else Inr b3)"
    using b3(2) by (simp add: put_fills PRINTF_FTOA_BUFFER_SIZE_def)
  then show ?thesis using b2 b3 by (elim fillsE) (simp del: split_paired_Ex)
qed

lemma front_fill:
  assumes "room b"
  shows "fills (cbind (if padding then cfold (\<lambda>b _. put CHR ''0'' b) b [snd b..<min width PRINTF_FTOA_BUFFER_SIZE] else Inr b) (\<lambda>b7.
     if snd b7 < PRINTF_FTOA_BUFFER_SIZE then if negative then put CHR ''-'' b7 else if p then put CHR ''+'' b7
       else if s then put CHR '' '' b7 else Inr b7 else Inr b7))"
proof (rule fills_bind)
  show "fills (if padding then cfold (\<lambda>b _. put CHR ''0'' b) b [snd b..<min width PRINTF_FTOA_BUFFER_SIZE] else Inr b)"
    using puts_fill [OF assms, of "[snd b..<min width PRINTF_FTOA_BUFFER_SIZE]"] assms
    by (auto simp: room_def PRINTF_FTOA_BUFFER_SIZE_def min_def)
qed (simp add: put_fills PRINTF_FTOA_BUFFER_SIZE_def)

text \<open>The whole conversion: with a precision of at most 41 it stays in bounds, with more it reads behind the powers of ten.\<close>

lemma ftoa_buffer_total:
  assumes "prec_of flags prec \<le> 41"
  shows "(\<exists>buf len w. ftoa_buffer fp v prec width flags = Inr ((buf, len), w) \<and> room (buf, len)) \<or>
    (\<exists>e. ftoa_buffer fp v prec width flags = Inl e \<and> e \<noteq> Out_Of_Bounds)"
proof -
  let ?v = "abs_of fp v" and ?negative = "d_less fp v (d_of_int fp 0)"
  obtain b p where b: "limit_prec (replicate PRINTF_FTOA_BUFFER_SIZE NUL, 0) (prec_of flags prec) = Inr (b, p)" "room b" "p \<le> 9"
    by (rule limit_start [of "prec_of flags prec"]) (use assms that in auto)
  show ?thesis
  proof (cases "split_value fp ?v p")
    case (Inl e)
    then show ?thesis
      using b split_value_bounds(1) [OF b(3), of fp ?v] by (simp add: ftoa_buffer_def Let_def prec_of_def abs_of_def)
  next
    case (Inr r)
    obtain whole frac where wf: "split_value fp ?v p = Inr (whole, frac)" using Inr by (cases r) simp
    let ?digits = "if p = 0 then cbind (round_whole fp ?v whole) (\<lambda>whole'. Inr (whole', b))
      else cbind (frac_digits frac (word_of_nat p) b) (\<lambda>(cnt, b2). cbind (frac_zeros cnt b2) (\<lambda>b3.
        cbind (if snd b3 < PRINTF_FTOA_BUFFER_SIZE then put CHR ''.'' b3 else Inr b3) (\<lambda>b4. Inr (whole, b4))))"
    have digits: "(\<exists>whole' b5. ?digits = Inr (whole', b5) \<and> room b5) \<or> (\<exists>e. ?digits = Inl e \<and> e \<noteq> Out_Of_Bounds)"
    proof (cases "p = 0")
      case True
      then show ?thesis using b(2) by (cases b) (simp add: round_whole_def Let_def cint_def)
    next
      case False
      then show ?thesis using fraction_fill [OF b(2), of frac "word_of_nat p" whole] unfolding if_not_P [OF False] by blast
    qed
    have run: "ftoa_buffer fp v prec width flags = cbind ?digits (\<lambda>(whole', b5). cbind (whole_digits whole' b5) (\<lambda>b6.
        let padding = \<not> has_flag flags FLAGS_LEFT \<and> has_flag flags FLAGS_ZEROPAD;
            width' = (if padding \<and> width \<noteq> 0 \<and> (?negative \<or> has_flag flags (FLAGS_PLUS OR FLAGS_SPACE)) then width - 1 else width)
        in cbind (cbind (if padding then cfold (\<lambda>b _. put CHR ''0'' b) b6 [snd b6..<min width' PRINTF_FTOA_BUFFER_SIZE] else Inr b6) (\<lambda>b7.
             if snd b7 < PRINTF_FTOA_BUFFER_SIZE then
               if ?negative then put CHR ''-'' b7
               else if has_flag flags FLAGS_PLUS then put CHR ''+'' b7
               else if has_flag flags FLAGS_SPACE then put CHR '' '' b7
               else Inr b7
             else Inr b7)) (\<lambda>b8. Inr (b8, width'))))"
      using b(1) wf by (simp add: ftoa_buffer_def Let_def prec_of_def abs_of_def cbind_assoc)
    from digits show ?thesis
    proof (elim disjE exE conjE)
      fix whole' b5 assume d: "?digits = Inr (whole', b5)" "room b5"
      obtain b6 where b6: "whole_digits whole' b5 = Inr b6" "room b6" using whole_digits_fill [OF d(2)] by (rule fillsE)
      let ?padding = "\<not> has_flag flags FLAGS_LEFT \<and> has_flag flags FLAGS_ZEROPAD"
      let ?width = "if ?padding \<and> width \<noteq> 0 \<and> (?negative \<or> has_flag flags (FLAGS_PLUS OR FLAGS_SPACE)) then width - 1 else width"
      obtain b8 where b8: "cbind (if ?padding then cfold (\<lambda>b _. put CHR ''0'' b) b6 [snd b6..<min ?width PRINTF_FTOA_BUFFER_SIZE] else Inr b6) (\<lambda>b7.
             if snd b7 < PRINTF_FTOA_BUFFER_SIZE then
               if ?negative then put CHR ''-'' b7
               else if has_flag flags FLAGS_PLUS then put CHR ''+'' b7
               else if has_flag flags FLAGS_SPACE then put CHR '' '' b7
               else Inr b7
             else Inr b7) = Inr b8" "room b8"
        using front_fill [OF b6(2)] by (rule fillsE)
      have "ftoa_buffer fp v prec width flags = Inr ((fst b8, snd b8), ?width)"
        unfolding run d(1) cbind_simps prod.case b6(1) Let_def b8(1) by simp
      then show ?thesis using b8(2) by (cases b8) simp
    next
      fix e assume "?digits = Inl e" "e \<noteq> Out_Of_Bounds"
      then have "ftoa_buffer fp v prec width flags = Inl e" unfolding run by (simp only: cbind_simps)
      then show ?thesis using \<open>e \<noteq> Out_Of_Bounds\<close> by simp
    qed
  qed
qed

lemma ftoa_buffer_overrun:
  assumes "41 < prec" "has_flag flags FLAGS_PRECISION" "d_int fp (abs_of fp v) = Inr w"
  shows "ftoa_buffer fp v prec width flags = Inl Out_Of_Bounds"
proof -
  have "9 < prec - min (prec - 9) 32" using assms(1) by auto
  then show ?thesis
    using split_value_bounds(2) [OF _ assms(3)] assms(2)
    by (rule_tac limit_start [of prec]) (simp add: ftoa_buffer_def Let_def abs_of_def)
qed

lemma adapt_flags:
  "\<not> has_flag (flags AND NOT FLAGS_ADAPT_EXP) FLAGS_ADAPT_EXP"
  "has_flag (flags AND NOT FLAGS_ADAPT_EXP) FLAGS_PRECISION \<longleftrightarrow> has_flag flags FLAGS_PRECISION"
proof -
  have "NOT FLAGS_ADAPT_EXP AND FLAGS_ADAPT_EXP = 0" "NOT FLAGS_ADAPT_EXP AND FLAGS_PRECISION = FLAGS_PRECISION"
    by (simp_all add: flag_defs)
  then show "\<not> has_flag (flags AND NOT FLAGS_ADAPT_EXP) FLAGS_ADAPT_EXP"
    "has_flag (flags AND NOT FLAGS_ADAPT_EXP) FLAGS_PRECISION \<longleftrightarrow> has_flag flags FLAGS_PRECISION"
    by (simp_all add: has_flag_def and.assoc)
qed

lemma decimal_exponent_bounds: "decimal_exponent fp v \<noteq> Inl Out_Of_Bounds"
proof -
  have "d_int fp d \<noteq> Inl Out_Of_Bounds" for d by (simp add: d_int_def cint_def)
  then show ?thesis by (simp add: decimal_exponent_def Let_def cbind_Inl_iff cint_not_bounds)
qed

text \<open>Without \<open>%g\<close> the precision is handed on as it is.\<close>

lemma etoa_scale_prec:
  assumes "\<not> has_flag flags FLAGS_ADAPT_EXP"
  shows "etoa_scale fp v prec width flags \<noteq> Inl Out_Of_Bounds"
    "etoa_scale fp v prec width flags = Inr (v', prec', fwidth, flags', expval, minwidth) \<Longrightarrow> prec' = prec_of flags prec \<and> flags' = flags"
  using assms
  by (auto simp: decimal_exponent_bounds etoa_scale_def etoa_adapt_def prec_of_def Let_def cbind_Inl_iff cbind_Inr_iff split: prod.splits if_splits)

lemma ftoa_with_bounds:
  assumes "sink_ok maxlen st" "prec_of flags prec \<le> 41" "e maxlen st v prec width flags \<noteq> Inl Out_Of_Bounds"
  shows "ftoa_with fp e maxlen st v prec width flags \<noteq> Inl Out_Of_Bounds"
proof -
  have out: "out_rev maxlen st buf n w flags \<noteq> Inl Out_Of_Bounds" if "n \<le> length buf" for buf n w
    using out_rev_total [OF assms(1) that] by (metis Inr_not_Inl)
  have "cbind (ftoa_buffer fp v prec width flags) (\<lambda>((buf, n), w). out_rev maxlen st buf n w flags) \<noteq> Inl Out_Of_Bounds"
    using ftoa_buffer_total [OF assms(2), of fp v width] by (elim disjE exE conjE) (simp_all add: out room_def)
  then show ?thesis using assms(3) by (simp add: ftoa_with_def out)
qed

lemma cbind_not_Inl: "m \<noteq> Inl e \<Longrightarrow> (\<And>x. f x \<noteq> Inl e) \<Longrightarrow> cbind m f \<noteq> Inl e"
  by (cases m) simp_all

lemma etoa_with_bounds:
  assumes "sink_ok maxlen st" "prec_of flags prec \<le> 41" "\<not> has_flag flags FLAGS_ADAPT_EXP"
    and f: "\<And>v prec width flags. prec_of flags prec \<le> 41 \<Longrightarrow> \<not> has_flag flags FLAGS_ADAPT_EXP \<Longrightarrow> f maxlen st v prec width flags \<noteq> Inl Out_Of_Bounds"
    and f_ok: "\<And>v prec width flags st'. f maxlen st v prec width flags = Inr st' \<Longrightarrow> sink_ok maxlen st'"
  shows "etoa_with fp f maxlen st v prec width flags \<noteq> Inl Out_Of_Bounds"
proof
  assume fault: "etoa_with fp f maxlen st v prec width flags = Inl Out_Of_Bounds"
  let ?special = "\<not> d_eq fp v v \<or> d_less fp (d_max fp) v \<or> d_less fp v (d_neg fp (d_max fp))"
  have "\<not> ?special" using fault f [OF assms(2,3)] unfolding etoa_with_def by (metis (full_types))
  note run = fault [unfolded etoa_with_def if_not_P [OF this]]
  obtain v' prec' fwidth flags' expval minwidth where
    scale: "etoa_scale fp v prec width flags = Inr (v', prec', fwidth, flags', expval, minwidth)"
    using run etoa_scale_prec(1) [OF assms(3), of fp v prec width] by (cases "etoa_scale fp v prec width flags") auto
  note rest = run [unfolded scale cbind_simps prod.case]
  have same: "prec' = prec_of flags prec" "flags' = flags" using etoa_scale_prec(2) [OF assms(3) scale] by simp_all
  have "prec_of (flags AND NOT FLAGS_ADAPT_EXP) (prec_of flags prec) \<le> 41"
    using assms(2) by (simp add: prec_of_def adapt_flags split: if_splits)
  then have "f maxlen st v' prec' fwidth (flags' AND NOT FLAGS_ADAPT_EXP) \<noteq> Inl Out_Of_Bounds"
    unfolding same by (rule f) (rule adapt_flags)
  then obtain st1 where st1: "f maxlen st v' prec' fwidth (flags' AND NOT FLAGS_ADAPT_EXP) = Inr st1" "sink_ok maxlen st1"
    using rest f_ok by (auto simp: cbind_Inl_iff)
  have pads: "pad maxlen c i w st' \<noteq> Inl Out_Of_Bounds" if "sink_ok maxlen st'" for c i w st' using that by (simp add: pad_ok)
  let ?st2 = "emit1 maxlen (if has_flag flags' FLAGS_UPPERCASE then CHR ''E'' else CHR ''e'') st1"
  have e: "(if expval < 0 then cint (- expval) else Inr expval) \<noteq> Inl Out_Of_Bounds" by (simp add: cint_not_bounds)
  have st2: "sink_ok maxlen ?st2" by (rule emit1_ok [OF st1(2)])
  have fill: "cbind (ntoa_long maxlen ?st2 (word_of_int e) (expval < 0) 10 0 (minwidth - 1) (FLAGS_ZEROPAD OR FLAGS_PLUS))
      (\<lambda>st3. if has_flag flags' FLAGS_LEFT then pad maxlen CHR '' '' (snd st3 - snd st) width st3 else Inr st3) \<noteq> Inl Out_Of_Bounds" for e
  proof -
    obtain cs where "ntoa_long maxlen ?st2 (word_of_int e) (expval < 0) 10 0 (minwidth - 1) (FLAGS_ZEROPAD OR FLAGS_PLUS) = Inr (emitted maxlen cs ?st2)"
      using ntoa_total [OF st2] unfolding ntoa_long_def by blast
    then show ?thesis using pads [OF emitted_ok [OF st2]] by simp
  qed
  show False
  proof (cases "minwidth = 0")
    case False
    show False
      using rest cbind_not_Inl [OF e fill] unfolding st1(1) cbind_simps emit_char_ok [OF st1(2)] if_not_P [OF False] by (rule notE [rotated])
  qed (use rest st1(1) in simp)
qed

lemma writes_sink_ok: "writes f \<Longrightarrow> sink_ok maxlen st \<Longrightarrow> f maxlen st = Inr st' \<Longrightarrow> sink_ok maxlen st'"
  by (erule writes_cases) auto

lemma ftoa_bounds:
  assumes "sink_ok maxlen st"
  shows "prec_of flags prec \<le> 41 \<Longrightarrow> \<not> has_flag flags FLAGS_ADAPT_EXP \<Longrightarrow> ftoa n fp maxlen st v prec width flags \<noteq> Inl Out_Of_Bounds"
proof (induction n arbitrary: v prec width flags)
  case (Suc n)
  show ?case unfolding ftoa.simps
    using Suc writes_sink_ok [OF writes_ftoa assms] by (intro ftoa_with_bounds etoa_with_bounds assms) auto
qed (use assms in \<open>simp add: ftoa_with_bounds\<close>)

lemma etoa_bounds:
  assumes "sink_ok maxlen st" "prec_of flags prec \<le> 41" "\<not> has_flag flags FLAGS_ADAPT_EXP"
  shows "etoa n fp maxlen st v prec width flags \<noteq> Inl Out_Of_Bounds"
  unfolding etoa_def
proof (rule etoa_with_bounds [OF assms])
  show "sink_ok maxlen st'" if "ftoa n fp maxlen st v prec width flags = Inr st'" for v prec width flags st'
    by (rule writes_sink_ok [OF writes_ftoa assms(1) that])
qed (rule ftoa_bounds [OF assms(1)])

text \<open>
  One call of \<open>_etoa\<close> from \<open>_ftoa\<close> is enough: with an arithmetic in which the scaled value is at most \<open>PRINTF_MAX_FLOAT\<close>, as it
  is in IEEE 754, a larger bound changes nothing.
\<close>

definition large :: "'d double_ops \<Rightarrow> 'd \<Rightarrow> bool" where
  "large fp v \<longleftrightarrow> d_less fp (PRINTF_MAX_FLOAT fp) v \<or> d_less fp v (d_neg fp (PRINTF_MAX_FLOAT fp))"

definition special :: "'d double_ops \<Rightarrow> 'd \<Rightarrow> bool" where
  "special fp v \<longleftrightarrow> \<not> d_eq fp v v \<or> d_less fp (d_max fp) v \<or> d_less fp v (d_neg fp (d_max fp))"

definition scales_down :: "'d double_ops \<Rightarrow> bool" where
  "scales_down fp \<longleftrightarrow> (\<forall>v prec width flags v' r. \<not> special fp v \<longrightarrow> etoa_scale fp v prec width flags = Inr (v', r) \<longrightarrow> \<not> large fp v')"

lemma ftoa_with_same: "special fp v \<or> \<not> large fp v \<Longrightarrow> ftoa_with fp e maxlen st v prec width flags = ftoa_with fp e' maxlen st v prec width flags"
  by (auto simp: ftoa_with_def special_def large_def)

lemma ftoa_unfold: "ftoa n fp = ftoa_with fp (case n of 0 \<Rightarrow> \<lambda>_ _ _ _ _ _. Inl Undefined_Value | Suc k \<Rightarrow> etoa_with fp (ftoa k fp))"
  by (cases n) simp_all

lemma one_etoa:
  assumes "scales_down fp"
  shows "etoa n fp = etoa 0 fp" "ftoa (Suc n) fp = ftoa 1 fp"
proof -
  have "etoa_with fp (ftoa n fp) maxlen st v prec width flags = etoa_with fp (ftoa m fp) maxlen st v prec width flags" for n m maxlen st v prec width flags
  proof (cases "special fp v")
    case True
    then show ?thesis using ftoa_with_same [of fp v] unfolding ftoa_unfold [of n] ftoa_unfold [of m] by (simp add: etoa_with_def special_def)
  next
    case False
    have "ftoa n fp maxlen st v' p w fl = ftoa m fp maxlen st v' p w fl" if "etoa_scale fp v prec width flags = Inr (v', r)" for v' p w fl r
      using ftoa_with_same [of fp v'] assms False that unfolding ftoa_unfold [of n] ftoa_unfold [of m] scales_down_def by blast
    then show ?thesis using False by (cases "etoa_scale fp v prec width flags") (auto simp: etoa_with_def special_def)
  qed
  then have etoa: "etoa_with fp (ftoa n fp) = etoa_with fp (ftoa m fp)" for n m by (intro ext)
  show "etoa n fp = etoa 0 fp" unfolding etoa_def by (rule etoa)
  show "ftoa (Suc n) fp = ftoa 1 fp" using etoa [of n 0] by simp
qed

text \<open>
  C38: Floating point numbers never overrun the buffer of the conversion, whatever the arithmetic is, as long as the precision is at
  most 41: beyond 9 the precision is brought down by filling in zeros, but only while there is room in
  the 32 bytes. With a precision of 42 or more every value of moderate size is scaled with a power of ten behind the table.
\<close>

theorem double_precision_bound:
  assumes "sink_ok maxlen st"
  shows "(prec_of flags prec \<le> 41 \<and> \<not> has_flag flags FLAGS_ADAPT_EXP \<longrightarrow>
      ftoa n fp maxlen st v prec width flags \<noteq> Inl Out_Of_Bounds \<and> etoa n fp maxlen st v prec width flags \<noteq> Inl Out_Of_Bounds) \<and>
    (41 < prec \<and> has_flag flags FLAGS_PRECISION \<and> \<not> special fp v \<and> \<not> large fp v \<and> d_int fp (abs_of fp v) = Inr w \<longrightarrow>
      ftoa n fp maxlen st v prec width flags = Inl Out_Of_Bounds)"
proof (intro conjI impI)
  assume "41 < prec \<and> has_flag flags FLAGS_PRECISION \<and> \<not> special fp v \<and> \<not> large fp v \<and> d_int fp (abs_of fp v) = Inr w"
  then show "ftoa n fp maxlen st v prec width flags = Inl Out_Of_Bounds"
    unfolding ftoa_unfold [of n] by (simp add: ftoa_with_def special_def large_def ftoa_buffer_overrun)
qed (auto intro: ftoa_bounds [OF assms, THEN notE] etoa_bounds [OF assms, THEN notE])

lemma directive_42: "directive (lit ''.42f'') va = Inr (CHR ''f'', [NUL], FLAGS_PRECISION, 0, 42, va)"
  by (simp add: directive_def lit_def parse_width_def parse_precision_def parse_length_def is_digit_def less_eq_char_def Let_def)

lemma directive_2: "directive (lit ''.2f'') va = Inr (CHR ''f'', [NUL], FLAGS_PRECISION, 0, 2, va)"
  by (simp add: directive_def lit_def parse_width_def parse_precision_def parse_length_def is_digit_def less_eq_char_def Let_def)

lemma ftoa_pi: "ftoa_buffer thousandths 3142 2 0 FLAGS_PRECISION = Inr ((''41.3'' @ replicate 28 NUL, 4), 0)"
  by code_simp

theorem double_precision_bound_witness:
  "printf thousandths (lit ''%.2f'') [VDouble 3142] = Inr (Out_Char ''3.14'', 4) \<and>
   ftoa 1 thousandths 8 (Out_Null, 0) 3142 41 0 FLAGS_PRECISION \<noteq> Inl Out_Of_Bounds \<and>
   printf thousandths (lit ''%.42f'') [VDouble 3142] = Inl Out_Of_Bounds"
proof -
  have flags: "has_flag FLAGS_PRECISION FLAGS_PRECISION" "\<not> has_flag FLAGS_PRECISION FLAGS_ADAPT_EXP"
    "\<not> has_flag FLAGS_PRECISION FLAGS_LEFT" "\<not> has_flag FLAGS_PRECISION FLAGS_ZEROPAD"
    by (simp_all add: has_flag_def flag_defs)
  have v: "\<not> special thousandths 3142" "\<not> large thousandths 3142" "d_int thousandths (abs_of thousandths 3142) = Inr 3"
    by code_simp+
  have four: "rev [0..<4] = [3, 2, 1, 0 :: nat]" by code_simp
  note bound = double_precision_bound [where fp = thousandths and v = 3142 and flags = FLAGS_PRECISION and n = 1]
  have "ftoa 1 thousandths 8 (Out_Null, 0) 3142 41 0 FLAGS_PRECISION \<noteq> Inl Out_Of_Bounds"
    using bound [of 8 "(Out_Null, 0)" 41 0] flags by (simp add: prec_of_def)
  moreover have "ftoa 1 thousandths (2 ^ 32 - 1) (Out_Char [], 0) 3142 42 0 FLAGS_PRECISION = Inl Out_Of_Bounds"
    using bound [of "2 ^ 32 - 1" "(Out_Char [], 0)" 42 0] flags v by simp
  then have "printf thousandths (lit ''%.42f'') [VDouble 3142] = Inl Out_Of_Bounds"
    using directive_42 [of "[VDouble (3142 :: int)]"]
    by (simp add: printf_def vsnprintf_def lit_def convert_def format_double_def Let_def del: ftoa.simps)
  moreover have "ftoa 1 thousandths maxlen (Out_Char [], 0) 3142 2 0 FLAGS_PRECISION = Inr (Out_Char ''3.14'', 4)" for maxlen
    using v ftoa_pi flags four
    by (simp add: ftoa_unfold [of 1] ftoa_with_def special_def large_def out_rev_def pad_def emit_char_def out_def)
  then have "printf thousandths (lit ''%.2f'') [VDouble 3142] = Inr (Out_Char ''3.14'', 4)"
    using directive_2 [of "[VDouble (3142 :: int)]"]
    by (simp add: printf_def vsnprintf_def lit_def convert_def format_double_def Let_def out_def del: ftoa.simps)
  ultimately show ?thesis by blast
qed

end
