(* ===== verification/Random_Driving.thy ===== *)
theory Random_Driving
  imports Navigation_Server C_String "HOL-Library.Signed_Division"
begin

section \<open>Driving without an end (src/user/randomgoto.c)\<close>

text \<open>
  The tasks the command \<open>random\<close> of the shell creates: each sends its train from one destination to the next for ever. The first two
  go round four sensors, the third visits the sensors in steps of 43. The model is a turn of their loop, from
  the index of the destination and the answer of the navigation server to the request and the next index.
\<close>

text \<open>The destinations by name, looked up at the start.\<close>

fun random_dests :: "track_node list \<Rightarrow> string list \<Rightarrow> int list cres" where
  "random_dests t [] = Inr []"
| "random_dests t (n # ns) =
     cbind (track_name_to_num t (lit n)) (\<lambda>d. cbind (random_dests t ns) (\<lambda>ds. Inr (d # ds)))"

definition dests1 :: "string list" where "dests1 = [''D13'', ''E7'', ''B14'', ''D11'']"
definition dests2 :: "string list" where "dests2 = [''E15'', ''A5'', ''D10'', ''E4'']"

definition dest_of_four :: "int list \<Rightarrow> int \<Rightarrow> int cres" where
  "dest_of_four dests dest_index = rdi dests (dest_index smod 4)"

definition dest_in_steps :: "int \<Rightarrow> int cres" where
  "dest_in_steps dest_index = cbind (cint (43 * dest_index)) (\<lambda>p. Inr (p smod 80))"

text \<open>A train that is busy or not registered tries again; otherwise, path or no path, the next destination is due.\<close>

definition next_dest :: "navigation_response \<Rightarrow> int \<Rightarrow> int cres" where
  "next_dest res dest_index =
     (if res = NAVIGATIONSERVER_BUSY \<or> res = NAVIGATIONSERVER_NEED_REGISTER then Inr dest_index else cint (dest_index + 1))"

definition random_step :: "(int \<Rightarrow> int cres) \<Rightarrow> int \<Rightarrow> int \<Rightarrow> navigation_response \<Rightarrow> (navigation_request \<times> int) cres" where
  "random_step dest train dest_index res =
     cbind (dest dest_index) (\<lambda>d.
     cbind (next_dest res dest_index) (\<lambda>i. Inr (NAVIGATION_REQUEST train d 0 True, i)))"

text \<open>The loop, for a list of answers.\<close>

fun random_run :: "(int \<Rightarrow> int cres) \<Rightarrow> int \<Rightarrow> int \<Rightarrow> navigation_response list \<Rightarrow> (navigation_request list \<times> int) cres" where
  "random_run dest train i [] = Inr ([], i)"
| "random_run dest train i (res # answers) =
     cbind (random_step dest train i res) (\<lambda>(req, i').
     cbind (random_run dest train i' answers) (\<lambda>(reqs, i''). Inr (req # reqs, i'')))"

definition random_goto1 :: "track_node list \<Rightarrow> int \<Rightarrow> navigation_response list \<Rightarrow> (navigation_request list \<times> int) cres" where
  "random_goto1 t train answers = cbind (random_dests t dests1) (\<lambda>dests. random_run (dest_of_four dests) train 0 answers)"

definition random_goto2 :: "track_node list \<Rightarrow> int \<Rightarrow> navigation_response list \<Rightarrow> (navigation_request list \<times> int) cres" where
  "random_goto2 t train answers = cbind (random_dests t dests2) (\<lambda>dests. random_run (dest_of_four dests) train 0 answers)"

definition random_goto3 :: "int \<Rightarrow> navigation_response list \<Rightarrow> (navigation_request list \<times> int) cres" where
  "random_goto3 train answers = random_run dest_in_steps train train answers"

text \<open>Eighty accepted requests in steps of 43 visit every sensor once: 43 and 80 have no common divisor.\<close>

definition moves_on :: "navigation_response \<Rightarrow> bool" where
  "moves_on res \<longleftrightarrow> res \<noteq> NAVIGATIONSERVER_BUSY \<and> res \<noteq> NAVIGATIONSERVER_NEED_REGISTER"

lemma random_run_steps:
  assumes "0 \<le> i" "43 * (i + int (length answers)) < 2 ^ 31" "list_all moves_on answers"
  shows "random_run dest_in_steps train i answers =
    Inr (map (\<lambda>k. NAVIGATION_REQUEST train ((43 * (i + int k)) mod 80) 0 True) [0..<length answers], i + int (length answers))"
  using assms
proof (induction answers arbitrary: i)
  case (Cons res answers)
  have "(43 * i) smod 80 = (43 * i) mod 80"
    using Cons.prems(1) by (cases "i = 0") (simp_all add: signed_modulo_int_def sgn_if)
  then have step: "random_step dest_in_steps train i res = Inr (NAVIGATION_REQUEST train ((43 * i) mod 80) 0 True, i + 1)"
    using Cons.prems by (simp add: random_step_def dest_in_steps_def next_dest_def moves_on_def cint_def)
  have "random_run dest_in_steps train (i + 1) answers =
      Inr (map (\<lambda>k. NAVIGATION_REQUEST train ((43 * (i + 1 + int k)) mod 80) 0 True) [0..<length answers], i + 1 + int (length answers))"
    by (rule Cons.IH) (use Cons.prems in simp_all)
  then show ?case using step by (simp add: upt_conv_Cons map_Suc_upt [symmetric] algebra_simps del: upt_Suc)
qed simp

lemma steps_of_43:
  assumes "(43 * a) mod 80 = (43 * b) mod (80 :: int)"
  shows "a mod 80 = b mod 80"
proof -
  have inverse: "(67 * ((43 * c) mod 80)) mod 80 = c mod 80" for c :: int
  proof -
    have "67 * (43 * c) = c + 80 * (36 * c)" by simp
    then show ?thesis by (metis mod_mult_right_eq mod_mult_self2)
  qed
  show ?thesis using inverse [of a] inverse [of b] assms by simp
qed

lemma random_goto3_visits:
  assumes "0 \<le> train" "train < 1000" "length answers = 80" "list_all moves_on answers"
  obtains reqs i where "random_goto3 train answers = Inr (reqs, i)"
    "set reqs = (\<lambda>d. NAVIGATION_REQUEST train d 0 True) ` {0..<80}" "distinct reqs"
proof -
  let ?f = "\<lambda>k. (43 * (train + int k)) mod 80"
  have run: "random_goto3 train answers = Inr (map (\<lambda>k. NAVIGATION_REQUEST train (?f k) 0 True) [0..<80], train + 80)"
    using random_run_steps [of train answers train] assms by (simp add: random_goto3_def)
  have inj: "inj_on ?f {0..<80}"
  proof (rule inj_onI)
    fix j k :: nat assume "j \<in> {0..<80}" "k \<in> {0..<80}" "?f j = ?f k"
    then have range: "j < 80" "k < 80" and "(train + int j) mod 80 = (train + int k) mod 80"
      using steps_of_43 [of "train + int j" "train + int k"] by simp_all
    then have "(int j - int k) mod 80 = 0" by (simp add: mod_eq_dvd_iff)
    then obtain q where "int j - int k = 80 * q" by (auto elim: dvdE)
    moreover have "q = 0" using calculation range by linarith
    ultimately show "j = k" by simp
  qed
  then have "card (?f ` {0..<80}) = 80" by (simp add: card_image)
  moreover have "?f ` {0..<80} \<subseteq> {0..<80}" by auto
  ultimately have all: "?f ` {0..<80} = {0..<80}" by (intro card_subset_eq) simp_all
  show ?thesis
  proof (rule that [OF run])
    show "set (map (\<lambda>k. NAVIGATION_REQUEST train (?f k) 0 True) [0..<80]) = (\<lambda>d. NAVIGATION_REQUEST train d 0 True) ` {0..<80}"
      unfolding all [symmetric] by (auto simp: image_image)
    show "distinct (map (\<lambda>k. NAVIGATION_REQUEST train (?f k) 0 True) [0..<80])"
      using inj by (auto simp: distinct_map inj_on_def)
  qed
qed

end
