(* ===== verification/Screen.thy ===== *)
theory Screen
  imports Kprintf Dispatchserver Navigation_Server Hal
begin

section \<open>What is on the screen: the cursor routines of kprintf.c and the printers\<close>

text \<open>
  Printing is a computation on a \<open>console\<close>: the global \<open>_uart\<close>, and what has been done to put characters out so far. A character
  goes to the server of the line with a call of \<open>Putc\<close>, or to the line itself for \<open>BW_COM2\<close>; \<open>done_print\<close> gives the line back.
  \<open>server\<close> is the answer of \<open>WhoIsBlock("uart2txserver")\<close>. A printer is a loop: its body goes from its state, the answer of the server
  it asks, and the console to the next state and console. Faults of \<open>printf\<close> are faults of the printer.
\<close>

subsection \<open>Putting characters out (src/common/kprintf.c)\<close>

datatype print_act = Bw_Put char | Put_Char int char | Give_Back int

record console =
  con_uart :: int
  con_acts :: "print_act list"

datatype print_channel = To_COM2 | To_BW_COM2 | To_Other

definition putchar :: "int \<Rightarrow> char \<Rightarrow> print_act" where
  "putchar uart c = (if uart = -2 then Bw_Put c else Put_Char uart c)"

definition sent_text :: "sink \<Rightarrow> string" where
  "sent_text s = (case s of Out_Char cs \<Rightarrow> cs | _ \<Rightarrow> [])"

definition print :: "'d double_ops \<Rightarrow> int \<Rightarrow> print_channel \<Rightarrow> char list \<Rightarrow> 'd va list \<Rightarrow> console \<Rightarrow> console cres" where
  "print fp server channel format va con =
     (let uart = (case channel of To_COM2 \<Rightarrow> server | To_BW_COM2 \<Rightarrow> -2 | To_Other \<Rightarrow> con_uart con)
      in cbind (printf fp format va) (\<lambda>(s, _).
           Inr \<lparr> con_uart = uart, con_acts = con_acts con @ map (putchar uart) (sent_text s) \<rparr>))"

definition done_print :: "console \<Rightarrow> console cres" where
  "done_print con =
     Inr (if con_uart con < 0 then con else con\<lparr> con_acts := con_acts con @ [Give_Back (con_uart con)] \<rparr>)"

text \<open>One after the other.\<close>

definition in_turn :: "(console \<Rightarrow> console cres) list \<Rightarrow> console \<Rightarrow> console cres" where
  "in_turn ps con = cfold (\<lambda>con p. p con) con ps"

text \<open>\<open>printf(COM2, ...)\<close> with a literal format.\<close>

definition print2 :: "'d double_ops \<Rightarrow> int \<Rightarrow> string \<Rightarrow> 'd va list \<Rightarrow> console \<Rightarrow> console cres" where
  "print2 fp server format va = print fp server To_COM2 (lit format) va"

abbreviation ESC :: char where "ESC \<equiv> CHR 0x1B"
abbreviation crlf :: string where "crlf \<equiv> [CHR 0x0D, CHR 0x0A]"

definition LINE_WIDTH :: int where "LINE_WIDTH = 200"

text \<open>An \<open>int\<close> as an argument, and a \<open>char\<close>, which is promoted.\<close>

definition vint :: "int \<Rightarrow> 'd va" where "vint i = VInt (word_of_int i)"
definition vchar :: "char \<Rightarrow> 'd va" where "vchar c = VInt (word_of_int (of_char c))"

definition clear_screen :: "'d double_ops \<Rightarrow> int \<Rightarrow> print_channel \<Rightarrow> console \<Rightarrow> console cres" where
  "clear_screen fp server channel = print fp server channel (lit (ESC # ''[2J'')) []"

definition n_clear :: "'d double_ops \<Rightarrow> int \<Rightarrow> int \<Rightarrow> console \<Rightarrow> console cres" where
  "n_clear fp server n =
     in_turn [print2 fp server [] [],
       if n = LINE_WIDTH then print2 fp server (ESC # ''[K'') []
       else in_turn (map (\<lambda>_. print2 fp server '' '' []) [0..<nat n])]"

definition cursor_to_pos :: "'d double_ops \<Rightarrow> int \<Rightarrow> int \<Rightarrow> int \<Rightarrow> int \<Rightarrow> console \<Rightarrow> console cres" where
  "cursor_to_pos fp server row col clearn =
     in_turn [print2 fp server (ESC # ''[%d;%dH'') [vint row, vint col],
       n_clear fp server clearn,
       print2 fp server (ESC # ''[%d;%dH'') [vint row, vint col]]"

subsection \<open>Where the tables are (src/include/user/layout.h)\<close>

definition SWITCH_TABLE_ROW_BEGIN :: int where "SWITCH_TABLE_ROW_BEGIN = 10"
definition SWITCH_TABLE_COL :: int where "SWITCH_TABLE_COL = 1"
definition SWITCH_TABLE_WIDTH :: int where "SWITCH_TABLE_WIDTH = LINE_WIDTH"
definition PATH_TABLE_ROW_BEGIN :: int where "PATH_TABLE_ROW_BEGIN = SWITCH_TABLE_ROW_BEGIN + 4"
definition PATH_TABLE_COL :: int where "PATH_TABLE_COL = 1"
definition PATH_TABLE_WIDTH :: int where "PATH_TABLE_WIDTH = 50"
definition SUBSCRIBE_TABLE_ROW_BEGIN :: int where "SUBSCRIBE_TABLE_ROW_BEGIN = PATH_TABLE_ROW_BEGIN"
definition SUBSCRIBE_TABLE_COL :: int where "SUBSCRIBE_TABLE_COL = PATH_TABLE_COL + PATH_TABLE_WIDTH + 4"
definition SUBSCRIBE_TABLE_WIDTH :: int where "SUBSCRIBE_TABLE_WIDTH = 30"
definition SENSOR_TABLE_ROW_BEGIN :: int where "SENSOR_TABLE_ROW_BEGIN = PATH_TABLE_ROW_BEGIN"
definition SENSOR_TABLE_COL :: int where "SENSOR_TABLE_COL = SUBSCRIBE_TABLE_COL + SUBSCRIBE_TABLE_WIDTH + 4"
definition SENSOR_TABLE_WIDTH :: int where "SENSOR_TABLE_WIDTH = LINE_WIDTH"
definition DEBUG_TABLE_ROW_BEGIN :: int where "DEBUG_TABLE_ROW_BEGIN = PATH_TABLE_ROW_BEGIN + int MAX_NUM_TRAINS + 3"
definition DEBUG_TABLE_HEIGHT :: int where "DEBUG_TABLE_HEIGHT = 60"
definition DEBUG_TABLE_COL :: int where "DEBUG_TABLE_COL = 1"
definition DEBUG_TABLE_WIDTH :: int where "DEBUG_TABLE_WIDTH = LINE_WIDTH"
definition IDLE_ROW :: int where "IDLE_ROW = 2"
definition IDLE_COL :: int where "IDLE_COL = 40"
definition IDLE_WIDTH :: int where "IDLE_WIDTH = 30"
definition LOG_ROW :: int where "LOG_ROW = 2"
definition LOG_COL :: int where "LOG_COL = 80"
definition LOG_WIDTH :: int where "LOG_WIDTH = LINE_WIDTH"
definition TIME_ROW :: int where "TIME_ROW = LOG_ROW + 1"
definition TIME_COL :: int where "TIME_COL = IDLE_COL"
definition TIME_WIDTH :: int where "TIME_WIDTH = IDLE_WIDTH"
definition ART_ROW :: int where "ART_ROW = 1"
definition ART_COL :: int where "ART_COL = 1"
definition INPUT_ROW :: int where "INPUT_ROW = LOG_ROW + 1"
definition INPUT_COL :: int where "INPUT_COL = LOG_COL"
definition INPUT_WIDTH :: int where "INPUT_WIDTH = LINE_WIDTH"
definition RESERVATION_ROW :: int where "RESERVATION_ROW = 5"
definition RESERVATION_COL :: int where "RESERVATION_COL = 1"
definition RESERVATION_WIDTH :: int where "RESERVATION_WIDTH = LINE_WIDTH"

lemmas layout_defs = SWITCH_TABLE_ROW_BEGIN_def SWITCH_TABLE_COL_def SWITCH_TABLE_WIDTH_def PATH_TABLE_ROW_BEGIN_def PATH_TABLE_COL_def
  PATH_TABLE_WIDTH_def SUBSCRIBE_TABLE_ROW_BEGIN_def SUBSCRIBE_TABLE_COL_def SUBSCRIBE_TABLE_WIDTH_def SENSOR_TABLE_ROW_BEGIN_def
  SENSOR_TABLE_COL_def SENSOR_TABLE_WIDTH_def DEBUG_TABLE_ROW_BEGIN_def DEBUG_TABLE_HEIGHT_def DEBUG_TABLE_COL_def IDLE_ROW_def IDLE_COL_def
  IDLE_WIDTH_def LOG_ROW_def TIME_ROW_def TIME_COL_def TIME_WIDTH_def RESERVATION_ROW_def RESERVATION_COL_def RESERVATION_WIDTH_def LINE_WIDTH_def
  LOG_COL_def LOG_WIDTH_def DEBUG_TABLE_WIDTH_def ART_ROW_def ART_COL_def INPUT_ROW_def INPUT_COL_def INPUT_WIDTH_def
  MAX_NUM_TRAINS_def

end
