(* ===== verification/Printers.thy ===== *)
theory Printers
  imports Screen "HOL-Library.Signed_Division"
begin

section \<open>The printers of the screen (src/user/*printer.c) and the idle task (src/user/idle.c)\<close>

text \<open>
  Each printer asks a server, waits for the answer and draws its table. The first definition of each is what it does before its loop, the
  second the body of the loop. \<open>t\<close> is the track, whose names are pointers that may be null.
\<close>

subsection \<open>Messages for debugging (src/user/debugprinter.c)\<close>

definition MAX_DEBUG_STRING_LEN :: nat where "MAX_DEBUG_STRING_LEN = 100"
definition MAX_DEBUG_NAME_LEN :: nat where "MAX_DEBUG_NAME_LEN = 20"

definition PATH_WORKER_DEBUG :: "32 word" where "PATH_WORKER_DEBUG = 0b00000001"
definition DISPATCH_SERVER_DEBUG :: "32 word" where "DISPATCH_SERVER_DEBUG = 0b00000010"
definition CRITICAL_DEBUG :: "32 word" where "CRITICAL_DEBUG = 0b00000100"
definition NAVIGATION_SERVER_DEBUG :: "32 word" where "NAVIGATION_SERVER_DEBUG = 0b00001000"
definition STRAIGHT_PATH_WORKER_DEBUG :: "32 word" where "STRAIGHT_PATH_WORKER_DEBUG = 0b00010000"
definition TRAIN_SERVER_DEBUG :: "32 word" where "TRAIN_SERVER_DEBUG = 0b00100000"
definition VERBOSE_DEBUG :: "32 word" where "VERBOSE_DEBUG = 0b01000000"
definition RESERVATION_DEBUG :: "32 word" where "RESERVATION_DEBUG = 0b10000000"

definition FILTER :: "32 word" where
  "FILTER = CRITICAL_DEBUG OR NAVIGATION_SERVER_DEBUG OR STRAIGHT_PATH_WORKER_DEBUG"

lemmas debug_defs = PATH_WORKER_DEBUG_def DISPATCH_SERVER_DEBUG_def CRITICAL_DEBUG_def NAVIGATION_SERVER_DEBUG_def
  STRAIGHT_PATH_WORKER_DEBUG_def TRAIN_SERVER_DEBUG_def VERBOSE_DEBUG_def RESERVATION_DEBUG_def FILTER_def

text \<open>\<open>name_str\<close> is copied into only for the types listed; for others it is not initialised.\<close>

definition debug_name :: "32 word \<Rightarrow> string cres" where
  "debug_name type =
     (if type = PATH_WORKER_DEBUG then Inr ''Path Worker''
      else if type = DISPATCH_SERVER_DEBUG then Inr ''Dispatch Server''
      else if type = NAVIGATION_SERVER_DEBUG then Inr ''Navigation Server''
      else if type = STRAIGHT_PATH_WORKER_DEBUG then Inr ''Straightpath Worker''
      else if type = TRAIN_SERVER_DEBUG then Inr ''Train Server''
      else if type = VERBOSE_DEBUG then Inr ''Verbose''
      else Inl Undefined_Value)"

text \<open>The text put into \<open>new_str\<close>; both buffers are on the stack and hold anything at first.\<close>

definition debug_text ::
  "'d double_ops \<Rightarrow> char list \<Rightarrow> char list \<Rightarrow> char list \<Rightarrow> 32 word \<Rightarrow> char list cres" where
  "debug_text fp new_str name_str str type =
     cbind
       (if type = CRITICAL_DEBUG then sprintf fp new_str (lit (ESC # ''[31m%s'' @ ESC # ''[37m'')) [VString str]
        else
          cbind (debug_name type) (\<lambda>name.
          cbind (strncpy name_str (lit name) MAX_DEBUG_NAME_LEN) (\<lambda>name_str'.
            sprintf fp new_str (lit ''[%s] %s'') [VString name_str', VString str]))) (\<lambda>(s, _).
       Inr (case s of Out_Buffer b \<Rightarrow> b | _ \<Rightarrow> new_str))"

definition debugprint ::
  "'d double_ops \<Rightarrow> int \<Rightarrow> char list \<Rightarrow> char list \<Rightarrow> char list \<Rightarrow> 32 word \<Rightarrow> console \<Rightarrow> console cres" where
  "debugprint fp server new_str name_str str type con =
     (if type AND FILTER = 0 then Inr con
      else
        cbind (debug_text fp new_str name_str str type) (\<lambda>new_str'.
          in_turn [cursor_to_pos fp server (DEBUG_TABLE_ROW_BEGIN + DEBUG_TABLE_HEIGHT) DEBUG_TABLE_COL 0,
            print2 fp server (ESC # ''[D'') [],
            print2 fp server (''%s'' @ crlf) [VString new_str'],
            done_print] con))"

subsection \<open>Sensors (src/user/sensorprinter.c)\<close>

record sensor_trigger =
  tr_sensor_num :: int
  tr_triggered_time :: "32 word"

record sensor_tables =
  st_attributions :: "sensor_trigger circular_buffer list"
  st_unattributed :: "sensor_trigger circular_buffer"

definition no_trigger :: sensor_trigger where
  "no_trigger = \<lparr> tr_sensor_num = 0, tr_triggered_time = 0 \<rparr>"

definition sensor_tables_init :: sensor_tables where
  "sensor_tables_init =
     \<lparr> st_attributions = replicate MAX_NUM_TRAINS (cb_init no_trigger MAX_SUBSCRIBED_SENSORS),
       st_unattributed = cb_init no_trigger MAX_SUBSCRIBED_SENSORS \<rparr>"

definition sensor_printer_start :: "'d double_ops \<Rightarrow> int \<Rightarrow> console \<Rightarrow> console cres" where
  "sensor_printer_start fp server =
     in_turn
       ([cursor_to_pos fp server SENSOR_TABLE_ROW_BEGIN SENSOR_TABLE_COL SENSOR_TABLE_WIDTH,
         print2 fp server ''[ Oldest <- Sensor Triggers -> Newest ]'' [],
         done_print] @
        map (\<lambda>train con. cbind (v_p_train_num (int train)) (\<lambda>p.
          in_turn [cursor_to_pos fp server (SENSOR_TABLE_ROW_BEGIN + int train + 1) SENSOR_TABLE_COL SENSOR_TABLE_WIDTH,
            print2 fp server ''Train %d: '' [vint p]] con)) [0..<MAX_NUM_TRAINS] @
        [cursor_to_pos fp server (SENSOR_TABLE_ROW_BEGIN + int MAX_NUM_TRAINS + 1) SENSOR_TABLE_COL SENSOR_TABLE_WIDTH,
         print2 fp server ''Unattributed: '' [],
         done_print])"

text \<open>One entry of the pool goes into the table of its train; the oldest trigger gives way.\<close>

definition note_trigger :: "int list \<Rightarrow> 32 word \<Rightarrow> sensor_tables \<Rightarrow> nat \<Rightarrow> sensor_tables cres" where
  "note_trigger pool time st i =
     cbind (rd pool i) (\<lambda>train.
     let trigger = \<lparr> tr_sensor_num = int i, tr_triggered_time = time \<rparr> in
       if 0 \<le> train then
         cbind (rdi (st_attributions st) train) (\<lambda>cb.
         cbind (cb_push_back cb trigger True) (\<lambda>(cb', _).
         cbind (wri (st_attributions st) train cb') (\<lambda>cbs. Inr (st\<lparr> st_attributions := cbs \<rparr>))))
       else if train = UNATTRIBUTED then
         cbind (cb_push_back (st_unattributed st) trigger True) (\<lambda>(cb', _). Inr (st\<lparr> st_unattributed := cb' \<rparr>))
       else Inr st)"

definition note_triggers :: "int list \<Rightarrow> 32 word \<Rightarrow> sensor_tables \<Rightarrow> sensor_tables cres" where
  "note_triggers pool time st = cfold (note_trigger pool time) st [0..<NUM_SENSOR_GROUPS * SENSORS_PER_GROUP]"

text \<open>The letter and the number of a sensor: \<open>(char)('A' + (n >> 4))\<close> and \<open>(n & 0xF) + 1\<close>.\<close>

definition sensor_args :: "int \<Rightarrow> 'd va list" where
  "sensor_args n = [vchar (char_of (65 + drop_bit 4 n)), vint ((n AND 0xF) + 1)]"

definition print_triggers ::
  "'d double_ops \<Rightarrow> int \<Rightarrow> int \<Rightarrow> int \<Rightarrow> sensor_trigger circular_buffer \<Rightarrow> console \<Rightarrow> console cres" where
  "print_triggers fp server row col cb con =
     cbind (cb_to_array cb) (\<lambda>(triggers, _).
       in_turn (cursor_to_pos fp server row col SENSOR_TABLE_WIDTH #
         map (\<lambda>tr. print2 fp server ''[%d|%c%d]'' (VInt (tr_triggered_time tr) # sensor_args (tr_sensor_num tr))) triggers) con)"

definition sensor_printer_step ::
  "'d double_ops \<Rightarrow> int \<Rightarrow> int list \<Rightarrow> 32 word \<Rightarrow> sensor_tables \<Rightarrow> console \<Rightarrow> (sensor_tables \<times> console) cres" where
  "sensor_printer_step fp server pool time st con =
     cbind (note_triggers pool time st) (\<lambda>st'.
     cbind (in_turn
       (map (\<lambda>train con. cbind (rd (st_attributions st') train) (\<lambda>cb.
          print_triggers fp server (SENSOR_TABLE_ROW_BEGIN + int train + 1) (SENSOR_TABLE_COL + 10) cb con)) [0..<MAX_NUM_TRAINS] @
        [print_triggers fp server (SENSOR_TABLE_ROW_BEGIN + int MAX_NUM_TRAINS + 1) (SENSOR_TABLE_COL + 15) (st_unattributed st'),
         done_print]) con) (\<lambda>con'. Inr (st', con')))"

text \<open>The printer over a sequence of answers.\<close>

definition sensor_printer ::
  "'d double_ops \<Rightarrow> int \<Rightarrow> (int list \<times> 32 word) list \<Rightarrow> console \<Rightarrow> (sensor_tables \<times> console) cres" where
  "sensor_printer fp server answers con =
     cbind (sensor_printer_start fp server con) (\<lambda>con1.
       cfold (\<lambda>(st, con) (pool, time). sensor_printer_step fp server pool time st con) (sensor_tables_init, con1) answers)"

subsection \<open>Switches (src/user/switchprinter.c)\<close>

text \<open>Two lines under each other, five columns to the right of the ones before; \<open>"sc?"[s]\<close> is the state.\<close>

definition print_switch ::
  "'d double_ops \<Rightarrow> int \<Rightarrow> string \<Rightarrow> int \<Rightarrow> 8 word list \<Rightarrow> nat \<Rightarrow> int \<Rightarrow> console \<Rightarrow> console cres" where
  "print_switch fp server format num branch i col con =
     cbind (cursor_to_pos fp server (SWITCH_TABLE_ROW_BEGIN + 1) (SWITCH_TABLE_COL + col) SWITCH_TABLE_WIDTH con) (\<lambda>con1.
     cbind (rd branch i) (\<lambda>s.
     cbind (print2 fp server format [vint num] con1) (\<lambda>con2.
     cbind (cursor_to_pos fp server (SWITCH_TABLE_ROW_BEGIN + 2) (SWITCH_TABLE_COL + col) SWITCH_TABLE_WIDTH con2) (\<lambda>con3.
     cbind (rd (lit ''sc?'') (unat s)) (\<lambda>c.
       print2 fp server (''| %c |'' @ crlf) [vchar c] con3)))))"

definition print_switch_table :: "'d double_ops \<Rightarrow> int \<Rightarrow> 8 word list \<Rightarrow> 8 word list \<Rightarrow> console \<Rightarrow> console cres" where
  "print_switch_table fp server branch_a branch_b =
     in_turn
       ([cursor_to_pos fp server SWITCH_TABLE_ROW_BEGIN SWITCH_TABLE_COL (int (length ''[ Switch States ]'')),
         print2 fp server (''%s'' @ crlf) [VString (lit ''[ Switch States ]'')]] @
        map (\<lambda>i. print_switch fp server (''|00%d|'' @ crlf) (int i) branch_a i (5 * (int i - 1))) [1..<10] @
        map (\<lambda>i. print_switch fp server (''|0%d|'' @ crlf) (int i) branch_a i (5 * (int i - 1))) [10..<19] @
        map (\<lambda>i. print_switch fp server (''|%d|'' @ crlf) (153 + int i) branch_b i (5 * (int i + 18))) [0..<4] @
        [done_print])"

definition switch_printer_start :: "'d double_ops \<Rightarrow> int \<Rightarrow> train_event \<Rightarrow> console \<Rightarrow> (train_event \<times> console) cres" where
  "switch_printer_start fp server event con =
     cbind (cfold (\<lambda>b i. wr b i 2) (ev_branch_a event) [1..<19]) (\<lambda>a.
     cbind (cfold (\<lambda>b i. wr b i 2) (ev_branch_b event) [0..<4]) (\<lambda>b.
     cbind (print_switch_table fp server a b con) (\<lambda>con'.
       Inr (event\<lparr> ev_branch_a := a, ev_branch_b := b \<rparr>, con'))))"

definition switch_printer_step :: "'d double_ops \<Rightarrow> int \<Rightarrow> train_event \<Rightarrow> console \<Rightarrow> console cres" where
  "switch_printer_step fp server event = print_switch_table fp server (ev_branch_a event) (ev_branch_b event)"

subsection \<open>Trains (src/user/trainstateprinter.c)\<close>

text \<open>The name of a node, through a pointer that may be null.\<close>

definition node_string :: "track_node list \<Rightarrow> int \<Rightarrow> 'd va cres" where
  "node_string t i = cbind (rdi t i) (\<lambda>n. cbind (deref (n_name n)) (\<lambda>s. Inr (VString (lit s))))"

definition train_num_str :: string where "train_num_str = ''[ Train # |''"
definition registered_at_str :: string where "registered_at_str = ''| Registered @ |''"
definition dest_at_str :: string where "dest_at_str = ''| Dest @ |''"
definition is_reversed_str :: string where "is_reversed_str = ''| Reversed ? ]''"

definition trainstate_printer_start :: "'d double_ops \<Rightarrow> int \<Rightarrow> console \<Rightarrow> console cres" where
  "trainstate_printer_start fp server =
     in_turn (cursor_to_pos fp server PATH_TABLE_ROW_BEGIN PATH_TABLE_COL PATH_TABLE_WIDTH #
       map (\<lambda>category. print2 fp server ''%s'' [VString (lit category)]) [train_num_str, registered_at_str, dest_at_str, is_reversed_str] @
       [done_print])"

definition print_place :: "'d double_ops \<Rightarrow> int \<Rightarrow> track_node list \<Rightarrow> int \<Rightarrow> int \<Rightarrow> console \<Rightarrow> console cres" where
  "print_place fp server t num offset con =
     (if num = -1 then print2 fp server ''?'' [] con
      else cbind (node_string t num) (\<lambda>name. print2 fp server ''%s + %d'' [name, vint offset] con))"

text \<open>The columns are as wide as their titles.\<close>

definition print_train_state :: "'d double_ops \<Rightarrow> int \<Rightarrow> track_node list \<Rightarrow> nat \<Rightarrow> train_state \<Rightarrow> console \<Rightarrow> console cres" where
  "print_train_state fp server t train ts =
     (let row = PATH_TABLE_ROW_BEGIN + int train + 1;
          col0 = PATH_TABLE_COL + 1;
          col1 = col0 + int (length train_num_str);
          col2 = col1 + int (length registered_at_str);
          col3 = col2 + int (length dest_at_str)
      in in_turn
        [cursor_to_pos fp server row PATH_TABLE_COL PATH_TABLE_WIDTH,
         cursor_to_pos fp server row col0 0,
         \<lambda>con. cbind (v_p_train_num (ts_train_num ts)) (\<lambda>p. print2 fp server ''%d'' [vint p] con),
         cursor_to_pos fp server row col1 0,
         print_place fp server t (ts_reged_at_num ts) (ts_reged_at_offset ts),
         cursor_to_pos fp server row col2 0,
         print_place fp server t (ts_dest_num ts) (ts_dest_offset ts),
         cursor_to_pos fp server row col3 0,
         print2 fp server ''%s'' [VString (lit (if ts_reversed ts then ''ye'' else ''nah''))],
         done_print])"

definition trainstate_printer_step :: "'d double_ops \<Rightarrow> int \<Rightarrow> track_node list \<Rightarrow> train_state list \<Rightarrow> console \<Rightarrow> console cres" where
  "trainstate_printer_step fp server t train_states =
     in_turn (map (\<lambda>train con. cbind (rd train_states train) (\<lambda>ts. print_train_state fp server t train ts con)) [0..<MAX_NUM_TRAINS])"

subsection \<open>Reservations (src/user/reservationprinter.c)\<close>

definition reservation_printer_start :: "'d double_ops \<Rightarrow> int \<Rightarrow> console \<Rightarrow> console cres" where
  "reservation_printer_start fp server =
     in_turn [cursor_to_pos fp server RESERVATION_ROW RESERVATION_COL RESERVATION_WIDTH,
       print2 fp server (''[ Track Reservations ]'' @ crlf) [], done_print]"

definition print_reservation :: "'d double_ops \<Rightarrow> int \<Rightarrow> track_node list \<Rightarrow> int list \<Rightarrow> nat \<Rightarrow> console \<Rightarrow> console cres" where
  "print_reservation fp server t reservations i con =
     cbind (rd reservations i) (\<lambda>train.
       if train \<noteq> -1 then
         cbind (node_string t (int i)) (\<lambda>name.
         cbind (v_p_train_num train) (\<lambda>p. print2 fp server ''[%s:%d]'' [name, vint p] con))
       else Inr con)"

definition reservation_printer_step :: "'d double_ops \<Rightarrow> int \<Rightarrow> track_node list \<Rightarrow> int list \<Rightarrow> console \<Rightarrow> console cres" where
  "reservation_printer_step fp server t reservations =
     in_turn ([cursor_to_pos fp server (RESERVATION_ROW + 1) RESERVATION_COL RESERVATION_WIDTH, print2 fp server '' '' []] @
       map (print_reservation fp server t reservations) [0..<TRACK_MAX] @ [done_print])"

subsection \<open>Time (src/user/timerprinter.c)\<close>

text \<open>
  When the printer wakes up in round \<open>i\<close>; and what it then prints. \<open>now\<close> is the answer of \<open>Time\<close>, in ticks of 10 ms, and
  \<open>idle_percentage\<close> the global of the idle task.
\<close>

definition timer_printer_wake :: "int \<Rightarrow> int \<Rightarrow> int cres" where
  "timer_printer_wake start_time i =
     cbind (cint (i + 1)) (\<lambda>n. cbind (cint (n * 10)) (\<lambda>d. cint (start_time + d)))"

definition timer_printer_step :: "'d double_ops \<Rightarrow> int \<Rightarrow> int \<Rightarrow> int \<Rightarrow> console \<Rightarrow> console cres" where
  "timer_printer_step fp server now idle_percentage con =
     cbind (get_formatted_curr_time (unat (word_of_int now :: 32 word)) 100) (\<lambda>(mins, secs, tens).
       in_turn [cursor_to_pos fp server TIME_ROW TIME_COL TIME_WIDTH,
         print2 fp server (''Time: %d min %d.%d secs'' @ crlf) [vint (int mins), vint (int secs), vint (int tens)],
         cursor_to_pos fp server IDLE_ROW IDLE_COL IDLE_WIDTH,
         print2 fp server (''Idle: %d%% [%s]'' @ crlf) [vint idle_percentage, VString (lit ''-----'')],
         done_print] con)"

subsection \<open>Subscriptions (src/user/subscribeprinter.c)\<close>

definition subscribe_printer_start :: "'d double_ops \<Rightarrow> int \<Rightarrow> console \<Rightarrow> console cres" where
  "subscribe_printer_start fp server =
     in_turn [cursor_to_pos fp server SUBSCRIBE_TABLE_ROW_BEGIN SUBSCRIBE_TABLE_COL SUBSCRIBE_TABLE_WIDTH,
       print2 fp server (''[ Sensor Subscriptions ]'' @ crlf) [], done_print]"

text \<open>The buffers are cleared before each request, so the table is built anew from the answer.\<close>

definition print_subscriptions :: "'d double_ops \<Rightarrow> int \<Rightarrow> int circular_buffer list \<Rightarrow> nat \<Rightarrow> console \<Rightarrow> console cres" where
  "print_subscriptions fp server bufs train con =
     cbind (rd bufs train) (\<lambda>cb.
     cbind (cb_to_array cb) (\<lambda>(sensors, _).
       in_turn (cursor_to_pos fp server (SUBSCRIBE_TABLE_ROW_BEGIN + int train + 1) SUBSCRIBE_TABLE_COL SUBSCRIBE_TABLE_WIDTH #
         map (\<lambda>s. print2 fp server ''[%c%d]'' (sensor_args s)) sensors) con))"

definition subscribe_printer_step :: "'d double_ops \<Rightarrow> int \<Rightarrow> int list \<Rightarrow> console \<Rightarrow> console cres" where
  "subscribe_printer_step fp server subscriptions con =
     cbind (subscription_table subscriptions) (\<lambda>bufs.
       in_turn (map (print_subscriptions fp server bufs) [0..<MAX_NUM_TRAINS] @ [done_print]) con)"

subsection \<open>The idle task (src/user/idle.c)\<close>

text \<open>
  \<open>i\<close> counts the rounds, \<open>sleeping_time\<close> has 64 bits. In each round \<open>AwaitEvent\<close> returns the time asleep; in every tenth TIMER3, which
  counts down, is read. The product and the quotient have 64 bits, the percentage 32; a division by 0 is undefined.
\<close>

record idle_task =
  id_start :: "32 word"
  id_sleeping_time :: "64 word"
  id_rounds :: int
  id_percentage :: int

definition idle_start :: "32 word \<Rightarrow> int \<Rightarrow> idle_task" where
  "idle_start start percentage = \<lparr> id_start = start, id_sleeping_time = 0, id_rounds = 0, id_percentage = percentage \<rparr>"

definition idle_round :: "idle_task \<Rightarrow> 32 word \<times> 32 word \<Rightarrow> idle_task cres" where
  "idle_round st = (\<lambda>(s, now).
     let st1 = st\<lparr> id_sleeping_time := id_sleeping_time st + ucast s \<rparr> in
     cbind (cint (id_rounds st + 1)) (\<lambda>i.
     let st2 = st1\<lparr> id_rounds := i \<rparr> in
       if i smod 10 = 0 then
         let run = id_start st - now in
         if run = 0 then Inl Undefined_Value
         else Inr (st2\<lparr> id_percentage := sint (ucast ((100 * id_sleeping_time st1) div ucast run) :: 32 word) \<rparr>)
       else Inr st2))"

definition idle :: "32 word \<Rightarrow> int \<Rightarrow> (32 word \<times> 32 word) list \<Rightarrow> idle_task cres" where
  "idle start percentage rounds = cfold idle_round (idle_start start percentage) rounds"

end
