(* ===== verification/Screen_Properties.thy ===== *)
theory Screen_Properties
  imports Printers Kprintf_Properties
begin

section \<open>What the printers put on the screen\<close>

subsection \<open>The text of a format\<close>

text \<open>The text a format gives for its arguments, whatever the sink is; the rules compute it piece by piece.\<close>

definition gives :: "'d double_ops \<Rightarrow> char list \<Rightarrow> 'd va list \<Rightarrow> string \<Rightarrow> bool" where
  "gives fp format va text \<longleftrightarrow> (\<forall>maxlen. vsnprintf_loop fp maxlen format va = (\<lambda>st. cfold (emit_char maxlen) st text))"

lemma gives_end: "gives fp [NUL] va []"
  by (simp add: gives_def fun_eq_iff)

lemma gives_plain: "c \<noteq> NUL \<Longrightarrow> c \<noteq> CHR ''%'' \<Longrightarrow> gives fp format va text \<Longrightarrow> gives fp (c # format) va (c # text)"
  by (simp add: gives_def fun_eq_iff [of "vsnprintf_loop _ _ (_ # _) _"] del: split_paired_All)

text \<open>A directive of one letter, without flags, width and precision.\<close>

lemma directive_letter:
  assumes "c \<notin> set ''0-+ #*.lhtjz''" "\<not> is_digit c"
  shows "directive (c # format) va = Inr (c, format, 0, 0, 0, va)"
  using assms by (simp add: directive_def parse_width_def parse_precision_def parse_length_def)

lemma gives_directive:
  assumes "c \<notin> set ''0-+ #*.lhtjz''" "\<not> is_digit c"
    and "\<And>maxlen st. convert fp maxlen c 0 0 0 va st = cbind (cfold (emit_char maxlen) st cs) (\<lambda>st'. Inr (va', st'))"
    and "gives fp format va' text"
  shows "gives fp (CHR ''%'' # c # format) va (cs @ text)"
  using assms(3,4)
  by (simp add: gives_def fun_eq_iff [of "vsnprintf_loop _ _ (_ # _) _"] directive_letter [OF assms(1,2)] cfold_append cbind_assoc del: split_paired_All)

lemma letters: "\<not> is_digit CHR ''d''" "\<not> is_digit CHR ''c''" "\<not> is_digit CHR ''s''" "\<not> is_digit CHR ''%''"
  by (simp_all add: is_digit_def less_eq_char_def)

lemma gives_percent: "gives fp format va text \<Longrightarrow> gives fp (CHR ''%'' # CHR ''%'' # format) va (CHR ''%'' # text)"
  using gives_directive [of "CHR ''%''" fp va "''%''" va format "text"] by (simp add: convert_def letters cbind_assoc)

lemma gives_int:
  assumes "sint w \<noteq> - (2 ^ 31)" "gives fp format va text"
  shows "gives fp (CHR ''%'' # CHR ''d'' # format) (VInt w # va) (decimal (sint w) @ text)"
  by (rule gives_directive [OF _ letters(1) _ assms(2)]) (simp_all add: convert_def format_decimal [OF assms(1)])

lemma char_word: "char_of (unat (ucast (word_of_int (of_char c) :: 32 word) :: 8 word)) = c"
proof -
  have c: "(of_char c :: int) = int (of_char c)" "(of_char c :: nat) < 256" by (simp_all add: of_nat_of_char)
  have "take_bit 32 (of_char c :: nat) = of_char c" by (rule take_bit_nat_eq_self, rule less_trans [OF c(2)]) simp
  then have "(ucast (word_of_int (of_char c) :: 32 word) :: 8 word) = word_of_nat (of_char c)"
    using c(1) by (simp add: unsigned_of_nat)
  then show ?thesis using c(2) by (simp add: unat_of_nat)
qed

lemma gives_char:
  assumes "gives fp format va text"
  shows "gives fp (CHR ''%'' # CHR ''c'' # format) (vchar c # va) (c # text)"
  using gives_directive [OF _ letters(2) _ assms, of "vchar c # va" "[c]"]
  by (simp add: convert_def format_char_def vchar_def padded_def pad_def char_word)

lemma strnlen_total: "terminated s \<Longrightarrow> \<exists>n. strnlen_s s m = Inr n"
proof (induction s arbitrary: m)
  case (Cons c s)
  show ?case
  proof (cases "c = NUL")
    case False
    then obtain n where "strnlen_s s (m - 1) = Inr n" using Cons by (auto simp: terminated_def)
    then show ?thesis by simp
  qed simp
qed (simp add: terminated_def)

lemma string_text: "terminated s \<Longrightarrow> string_loop maxlen 0 s p st = cfold (emit_char maxlen) st (cstr s)"
proof (induction s arbitrary: p st)
  case (Cons c s)
  then show ?case by (cases "c = NUL") (auto simp: cstr_def terminated_def intro: cbind_cong)
qed (simp add: terminated_def)

lemma gives_string:
  assumes "terminated s" "gives fp format va text"
  shows "gives fp (CHR ''%'' # CHR ''s'' # format) (VString s # va) (cstr s @ text)"
proof -
  obtain n where "strnlen_s s (2 ^ 32 - 1) = Inr n" using strnlen_total [OF assms(1)] by blast
  then show ?thesis
    using gives_directive [OF _ letters(3) _ assms(2), of "VString s # va" "cstr s"]
    by (simp add: convert_def format_string_def padded_def pad_def string_text [OF assms(1)])
qed

lemma gives_vint:
  assumes "- (2 ^ 31) < i" "i < 2 ^ 31" "gives fp format va text"
  shows "gives fp (CHR ''%'' # CHR ''d'' # format) (vint i # va) (decimal i @ text)"
proof -
  have "sint (word_of_int i :: 32 word) = i" using assms(1,2) by (simp add: signed_of_int signed_take_bit_int_eq_self)
  then show ?thesis using gives_int [OF _ assms(3), of "word_of_int i"] assms(1) by (simp add: vint_def)
qed

lemma gives_literal: "NUL \<notin> set s \<Longrightarrow> CHR ''%'' \<notin> set s \<Longrightarrow> gives fp format va text \<Longrightarrow> gives fp (s @ format) va (s @ text)"
  by (induction s) (auto simp: gives_plain)

lemmas gives_intros = gives_end gives_percent gives_char gives_string gives_vint gives_plain

subsection \<open>Printing\<close>

text \<open>A console that has sent a text through the server of the line, and what printing does to it.\<close>

definition sends :: "int \<Rightarrow> string \<Rightarrow> (console \<Rightarrow> console cres) \<Rightarrow> bool" where
  "sends server text p \<longleftrightarrow>
     (\<forall>con. p con = Inr \<lparr> con_uart = server, con_acts = con_acts con @ map (Put_Char server) text \<rparr>)"

text \<open>The character NUL is not sent.\<close>

lemma printf_gives:
  assumes "gives fp (lit format) va text"
  shows "printf fp (lit format) va = Inr (Out_Char (filter (\<lambda>c. c \<noteq> NUL) text), length text)"
proof -
  have "vsnprintf_loop fp m (lit format) va (Out_Char [], 0) = Inr (Out_Char (filter (\<lambda>c. c \<noteq> NUL) text), length text)" for m
    using assms by (simp add: gives_def emit_text emitted_channel del: split_paired_All)
  then show ?thesis by (simp add: printf_def vsnprintf_def out_def)
qed

lemma filter_no_nul: "NUL \<notin> set s \<Longrightarrow> filter (\<lambda>c. c \<noteq> NUL) s = s"
  by (auto simp: filter_id_conv)

lemma print2_sends_all:
  assumes "gives fp (lit format) va text" "0 \<le> server"
  shows "sends server (filter (\<lambda>c. c \<noteq> NUL) text) (print2 fp server format va)"
  using assms(2) by (simp add: sends_def print2_def print_def printf_gives [OF assms(1)] sent_text_def putchar_def comp_def)

lemma print2_sends:
  assumes "gives fp (lit format) va text" "NUL \<notin> set text" "0 \<le> server"
  shows "sends server text (print2 fp server format va)"
  using print2_sends_all [OF assms(1,3)] by (simp add: filter_no_nul [OF assms(2)])

lemma in_turn_simps [simp]: "in_turn [] con = Inr con" "in_turn (p # ps) con = cbind (p con) (in_turn ps)"
  by (simp_all add: in_turn_def [abs_def])

lemma in_turn_append: "in_turn (ps @ qs) con = cbind (in_turn ps con) (in_turn qs)"
  by (simp add: in_turn_def [abs_def] cfold_append)

lemma sends_in_turn: "list_all2 (sends server) texts ps \<Longrightarrow> ps \<noteq> [] \<Longrightarrow> sends server (concat texts) (in_turn ps)"
proof (induction texts ps rule: list_all2_induct)
  case (Cons cs texts p ps)
  then show ?case by (cases "ps = []") (auto simp: sends_def)
qed simp

text \<open>The texts of the cursor routines.\<close>

definition clear_text :: "int \<Rightarrow> string" where
  "clear_text n = (if n = LINE_WIDTH then ESC # ''[K'' else replicate (nat n) CHR '' '')"

definition cursor_text :: "int \<Rightarrow> int \<Rightarrow> int \<Rightarrow> string" where
  "cursor_text row col clearn =
     (let move = ESC # ''['' @ decimal row @ '';'' @ decimal col @ ''H'' in move @ clear_text clearn @ move)"

lemma decimal_no_nul [simp]: "NUL \<notin> set (decimal i)"
  using decimal_plain(1) [of i] by (auto simp: plain_def list_all_iff)

lemma sends_map: "(\<And>x. x \<in> set xs \<Longrightarrow> sends server (f x) (p x)) \<Longrightarrow> xs \<noteq> [] \<Longrightarrow> sends server (concat (map f xs)) (in_turn (map p xs))"
  by (rule sends_in_turn) (auto simp: list_all2_conv_all_nth)

lemma sends_Cons: "sends server cs p \<Longrightarrow> sends server ds (in_turn ps) \<Longrightarrow> sends server (cs @ ds) (in_turn (p # ps))"
  by (simp add: sends_def)

lemma sends_one: "sends server cs p \<Longrightarrow> sends server cs (in_turn [p])"
  by (simp add: sends_def)

lemma n_clear_sends:
  assumes "0 \<le> server" "0 \<le> n"
  shows "sends server (clear_text n) (n_clear fp server n)"
proof -
  have start: "sends server [] (print2 fp server [] [])"
    by (rule print2_sends) (simp_all add: assms lit_def gives_end)
  show ?thesis
  proof (cases "n = LINE_WIDTH")
    case True
    have "sends server (ESC # ''[K'') (print2 fp server (ESC # ''[K'') [])"
      by (rule print2_sends) (simp_all add: assms lit_def gives_end gives_plain)
    from sends_Cons [OF start sends_one [OF this]] show ?thesis
      using True by (simp add: sends_def n_clear_def clear_text_def)
  next
    case False
    have blank: "sends server '' '' (print2 fp server '' '' [])"
      by (rule print2_sends) (simp_all add: assms lit_def gives_end gives_plain)
    have "con_uart con = server \<Longrightarrow> in_turn (map (\<lambda>_. print2 fp server '' '' []) xs) con =
        Inr \<lparr> con_uart = server, con_acts = con_acts con @ map (Put_Char server) (replicate (length xs) CHR '' '') \<rparr>" for con and xs :: "nat list"
      using blank by (induction xs arbitrary: con) (simp_all add: sends_def)
    then show ?thesis using False start by (simp add: sends_def n_clear_def clear_text_def)
  qed
qed

lemma cursor_sends:
  assumes "0 \<le> server" "- (2 ^ 31) < row" "row < 2 ^ 31" "- (2 ^ 31) < col" "col < 2 ^ 31" "0 \<le> clearn"
  shows "sends server (cursor_text row col clearn) (cursor_to_pos fp server row col clearn)"
proof -
  have move: "sends server (ESC # ''['' @ decimal row @ '';'' @ decimal col @ ''H'') (print2 fp server (ESC # ''[%d;%dH'') [vint row, vint col])"
    using assms by (intro print2_sends) (simp_all add: lit_def gives_intros)
  from sends_Cons [OF move sends_Cons [OF n_clear_sends [OF assms(1,6)] sends_one [OF move]]]
  show ?thesis by (simp add: cursor_to_pos_def cursor_text_def Let_def)
qed

text \<open>What a printer shows at once: a text, and then the line is given back.\<close>

definition shows_text :: "int \<Rightarrow> string \<Rightarrow> (console \<Rightarrow> console cres) \<Rightarrow> bool" where
  "shows_text server text p \<longleftrightarrow>
     (\<forall>con. p con = Inr \<lparr> con_uart = server, con_acts = con_acts con @ map (Put_Char server) text @ [Give_Back server] \<rparr>)"

lemma sends_done:
  "sends server text (in_turn ps) \<Longrightarrow> 0 \<le> server \<Longrightarrow> shows_text server text (in_turn (ps @ [done_print]))"
  by (simp add: sends_def shows_text_def in_turn_append done_print_def)

lemma sends_apply: "sends server cs p \<Longrightarrow> p con = Inr \<lparr> con_uart = server, con_acts = con_acts con @ map (Put_Char server) cs \<rparr>"
  by (simp add: sends_def)

lemma in_turn_on:
  assumes "\<And>x con. x \<in> set xs \<Longrightarrow> con_uart con = server \<Longrightarrow>
      p x con = Inr \<lparr> con_uart = server, con_acts = con_acts con @ map (Put_Char server) (f x) \<rparr>"
  shows "con_uart con = server \<Longrightarrow> in_turn (map p xs) con =
      Inr \<lparr> con_uart = server, con_acts = con_acts con @ map (Put_Char server) (concat (map f xs)) \<rparr>"
  using assms by (induction xs arbitrary: con) simp_all

lemma gives_lit: "NUL \<notin> set s \<Longrightarrow> gives fp format va text \<Longrightarrow> gives fp (CHR ''%'' # CHR ''s'' # format) (VString (lit s) # va) (s @ text)"
  using gives_string [OF terminated_lit, of fp format va "text" s] by simp

lemma gives_last:
  "- (2 ^ 31) < i \<Longrightarrow> i < 2 ^ 31 \<Longrightarrow> gives fp (CHR ''%'' # CHR ''d'' # [NUL]) (vint i # va) (decimal i)"
  "NUL \<notin> set s \<Longrightarrow> gives fp (CHR ''%'' # CHR ''s'' # [NUL]) (VString (s @ [NUL]) # va) s"
  using gives_vint [OF _ _ gives_end, of i fp va] gives_lit [OF _ gives_end, of s fp va] by (simp_all add: lit_def)

subsection \<open>Text written into a buffer\<close>

text \<open>\<open>sprintf\<close> knows no bound: a text that does not fit overruns the buffer.\<close>

lemma emit_buffer:
  "idx \<le> length b \<Longrightarrow> idx + length cs \<le> maxlen \<Longrightarrow>
     cfold (emit_char maxlen) (Out_Buffer b, idx) cs =
       (if idx + length cs \<le> length b then Inr (Out_Buffer (take idx b @ cs @ drop (idx + length cs) b), idx + length cs) else Inl Out_Of_Bounds)"
proof (induction cs arbitrary: b idx)
  case (Cons c cs)
  show ?case
  proof (cases "idx < length b")
    case True
    then have "cfold (emit_char maxlen) (Out_Buffer b, idx) (c # cs) = cfold (emit_char maxlen) (Out_Buffer (b[idx := c]), Suc idx) cs"
      using Cons.prems by (simp add: emit_char_def out_def)
    then show ?thesis
      using Cons.IH [of "Suc idx" "b[idx := c]"] Cons.prems True by (simp add: take_update_Suc)
  next
    case False
    then show ?thesis using Cons.prems by (simp add: emit_char_def out_def wr_def)
  qed
qed simp

lemma sprintf_gives:
  assumes "gives fp (lit format) va text" "length text < 2 ^ 31"
  shows "sprintf fp b (lit format) va =
    (if length text < length b then Inr (Out_Buffer (text @ NUL # drop (Suc (length text)) b), length text) else Inl Out_Of_Bounds)"
proof -
  have max: "length text \<le> 2 ^ 32 - 1" using assms(2) by simp
  have "vsnprintf_loop fp (2 ^ 32 - 1) (lit format) va (Out_Buffer b, 0) =
      (if length text \<le> length b then Inr (Out_Buffer (text @ drop (length text) b), length text) else Inl Out_Of_Bounds)"
    using assms(1) emit_buffer [of 0 b "text" "2 ^ 32 - 1"] max unfolding gives_def by simp
  moreover have "drop (length text) b = b ! length text # drop (Suc (length text)) b" if "length text < length b"
    using that by (simp add: Cons_nth_drop_Suc)
  ultimately show ?thesis
    using assms(2) by (auto simp: sprintf_def vsnprintf_def out_def wr_def list_update_append)
qed

lemma cstr_no_nul [simp]: "NUL \<notin> set (cstr s)"
  by (auto simp: cstr_def dest: set_takeWhileD)

lemma cstr_front: "NUL \<notin> set s \<Longrightarrow> cstr (s @ NUL # r) = s \<and> terminated (s @ NUL # r)"
  by (induction s) (auto simp: cstr_def terminated_def)

end
