(* ===== verification/Printer_Properties.thy ===== *)
theory Printer_Properties
  imports Screen_Properties Track_Data
begin

section \<open>The tables are right\<close>

subsection \<open>Sensors\<close>

text \<open>The name of a sensor, as the printers make it up from the number.\<close>

definition sensor_name :: "int \<Rightarrow> string" where
  "sensor_name n = char_of (65 + drop_bit 4 n) # decimal ((n AND 0xF) + 1)"

lemma sensor_numbers:
  "decimal 1 = ''1''" "decimal 2 = ''2''" "decimal 3 = ''3''" "decimal 4 = ''4''" "decimal 5 = ''5''" "decimal 6 = ''6''" "decimal 7 = ''7''" "decimal 8 = ''8''" "decimal 9 = ''9''" "decimal 10 = ''10''" "decimal 11 = ''11''" "decimal 12 = ''12''" "decimal 13 = ''13''" "decimal 14 = ''14''" "decimal 15 = ''15''" "decimal 16 = ''16''"
  by code_simp+

lemma sensor_letters:
  "char_of (65 :: int) = CHR ''A''" "char_of (66 :: int) = CHR ''B''" "char_of (67 :: int) = CHR ''C''" "char_of (68 :: int) = CHR ''D''" "char_of (69 :: int) = CHR ''E''"
  by code_simp+

lemma names_a: "list_all (\<lambda>i. n_name (init_tracka ! i) = Some (sensor_name (int i))) [0..<80]"
  by (simp add: list_all_upt_2 init_tracka_nth sensor_name_def sensor_numbers sensor_letters drop_bit_eq_div)

lemma names_b: "list_all (\<lambda>i. n_name (init_trackb ! i) = Some (sensor_name (int i))) [0..<80]"
  by (simp add: list_all_upt_2 init_trackb_nth sensor_name_def sensor_numbers sensor_letters drop_bit_eq_div)

lemma sensor_name_boot:
  assumes "boot_track w = Some (Inr (t, rows))" "i < 80"
  shows "n_name (t ! i) = Some (sensor_name (int i))"
proof -
  have "map n_name tracka_boot ! i = map n_name init_tracka ! i" "map n_name trackb_boot ! i = map n_name init_trackb ! i"
    by (simp_all only: tracka_boot_def trackb_boot_def names_set_dist)
  then have "n_name (tracka_boot ! i) = n_name (init_tracka ! i)" "n_name (trackb_boot ! i) = n_name (init_trackb ! i)"
    using assms(2) names_okD(1) [OF names_boot(1)] names_okD(1) [OF names_boot(2)] names_okD(1) [OF names_tracka] names_okD(1) [OF names_trackb]
    by (simp_all add: TRACK_MAX_def)
  moreover have "t = tracka_boot \<or> t = trackb_boot"
    using assms(1) by (auto simp: boot_track_def mark_tracka mark_trackb Let_def c_simps split: if_splits)
  ultimately show ?thesis using names_a names_b assms(2) by (auto simp: list_all_iff)
qed

lemma sensor_args_eq: "sensor_args n = [vchar (hd (sensor_name n)), vint ((n AND 0xF) + 1)]" "tl (sensor_name n) = decimal ((n AND 0xF) + 1)"
  by (simp_all add: sensor_args_def sensor_name_def)

lemma sensor_number_small: "- (2 ^ 31) < ((n :: int) AND 0xF) + 1" "((n :: int) AND 0xF) + 1 < 2 ^ 31"
proof -
  have "take_bit 4 n = n AND 0xF" by (simp add: take_bit_eq_mask mask_eq_exp_minus_1)
  then have eq: "n AND 0xF = n mod 16" by (simp add: take_bit_eq_mod)
  have "0 \<le> n mod 16" "n mod 16 < 16" by simp_all
  then show "- (2 ^ 31) < (n AND 0xF) + 1" "(n AND 0xF) + 1 < 2 ^ 31"
    unfolding eq by simp_all
qed

lemma gives_sensor:
  assumes "gives fp format va text"
  shows "gives fp (CHR ''%'' # CHR ''c'' # CHR ''%'' # CHR ''d'' # format) (sensor_args n @ va) (sensor_name n @ text)"
  using gives_char [OF gives_vint [OF sensor_number_small assms]] by (simp add: sensor_args_def sensor_name_def)

text \<open>The triggers an answer holds for a train, or for none (-2), in the order of the sensors; and those of a sequence of answers.\<close>

type_synonym pool_answer = "int list \<times> 32 word"

definition answer_triggers :: "int \<Rightarrow> nat \<Rightarrow> pool_answer \<Rightarrow> sensor_trigger list" where
  "answer_triggers train n = (\<lambda>(pool, time).
     map (\<lambda>i. \<lparr> tr_sensor_num = int i, tr_triggered_time = time \<rparr>) (filter (\<lambda>i. pool ! i = train) [0..<n]))"

definition triggers :: "int \<Rightarrow> pool_answer list \<Rightarrow> sensor_trigger list" where
  "triggers train answers = concat (map (answer_triggers train 80) answers)"

definition answer_ok :: "pool_answer \<Rightarrow> bool" where
  "answer_ok = (\<lambda>(pool, time). length pool = 80 \<and> (\<forall>p \<in> set pool. p < int MAX_NUM_TRAINS) \<and> sint time \<noteq> - (2 ^ 31))"

lemma answer_triggers_Suc:
  "answer_triggers train (Suc n) (pool, time) = answer_triggers train n (pool, time) @
     (if pool ! n = train then [\<lparr> tr_sensor_num = int n, tr_triggered_time = time \<rparr>] else [])"
  by (simp add: answer_triggers_def)

text \<open>Each buffer holds the latest five triggers of all: \<open>before\<close> and those of the pool so far.\<close>

definition holds_latest :: "sensor_trigger circular_buffer \<Rightarrow> sensor_trigger list \<Rightarrow> bool" where
  "holds_latest cb trs \<longleftrightarrow> cb_inv cb \<and> cb_capacity cb = MAX_SUBSCRIBED_SENSORS \<and> cb_items cb = latest MAX_SUBSCRIBED_SENSORS trs"

definition tables_ok :: "sensor_tables \<Rightarrow> (int \<Rightarrow> sensor_trigger list) \<Rightarrow> bool" where
  "tables_ok st trs \<longleftrightarrow> length (st_attributions st) = MAX_NUM_TRAINS \<and>
     (\<forall>train < MAX_NUM_TRAINS. holds_latest (st_attributions st ! train) (trs (int train))) \<and> holds_latest (st_unattributed st) (trs UNATTRIBUTED)"

lemma holds_latest_push:
  assumes "holds_latest cb trs"
  obtains cb' where "cb_push_back cb x True = Inr (cb', 0)" "holds_latest cb' (trs @ [x])"
  using assms cb_push_latest [of cb trs x] unfolding holds_latest_def by metis

lemma note_trigger_ok:
  assumes st: "tables_ok st trs" and pool: "i < length pool" "pool ! i < int MAX_NUM_TRAINS"
  shows "\<exists>st'. note_trigger pool time st i = Inr st' \<and>
    tables_ok st' (\<lambda>k. trs k @ (if pool ! i = k then [\<lparr> tr_sensor_num = int i, tr_triggered_time = time \<rparr>] else []))"
proof -
  let ?p = "pool ! i" and ?x = "\<lparr> tr_sensor_num = int i, tr_triggered_time = time \<rparr>"
  have len: "length (st_attributions st) = MAX_NUM_TRAINS" using st by (simp add: tables_ok_def)
  consider (train) "0 \<le> ?p" | (none) "?p = UNATTRIBUTED" | (other) "?p < 0" "?p \<noteq> UNATTRIBUTED" by linarith
  then show ?thesis
  proof cases
    case train
    then have k: "nat ?p < MAX_NUM_TRAINS" using pool(2) by simp
    have "holds_latest (st_attributions st ! nat ?p) (trs (int (nat ?p)))" using st k unfolding tables_ok_def by blast
    then have "holds_latest (st_attributions st ! nat ?p) (trs ?p)" using train by simp
    from holds_latest_push [OF this]
    obtain cb' where cb': "cb_push_back (st_attributions st ! nat ?p) ?x True = Inr (cb', 0)" "holds_latest cb' (trs ?p @ [?x])" .
    have "note_trigger pool time st i = Inr (st\<lparr> st_attributions := (st_attributions st)[nat ?p := cb'] \<rparr>)"
      using train pool(1) k len cb'(1) by (simp add: note_trigger_def rdi_def wri_def)
    moreover have "tables_ok (st\<lparr> st_attributions := (st_attributions st)[nat ?p := cb'] \<rparr>)
        (\<lambda>k. trs k @ (if ?p = k then [?x] else []))"
      using st cb'(2) train len k by (auto simp: tables_ok_def nth_list_update UNATTRIBUTED_def)
    ultimately show ?thesis by blast
  next
    case none
    have "holds_latest (st_unattributed st) (trs UNATTRIBUTED)" using st by (simp add: tables_ok_def)
    from holds_latest_push [OF this]
    obtain cb' where cb': "cb_push_back (st_unattributed st) ?x True = Inr (cb', 0)" "holds_latest cb' (trs UNATTRIBUTED @ [?x])" .
    have "note_trigger pool time st i = Inr (st\<lparr> st_unattributed := cb' \<rparr>)"
      using none pool(1) cb'(1) by (simp add: note_trigger_def UNATTRIBUTED_def)
    moreover have "tables_ok (st\<lparr> st_unattributed := cb' \<rparr>) (\<lambda>k. trs k @ (if ?p = k then [?x] else []))"
      using st cb'(2) none by (auto simp: tables_ok_def UNATTRIBUTED_def)
    ultimately show ?thesis by blast
  next
    case other
    then have "note_trigger pool time st i = Inr st" using pool(1) by (simp add: note_trigger_def)
    moreover have "tables_ok st (\<lambda>k. trs k @ (if ?p = k then [?x] else []))"
      using st other by (auto simp: tables_ok_def)
    ultimately show ?thesis by blast
  qed
qed

lemma note_triggers_ok:
  assumes st: "tables_ok st trs" and pool: "answer_ok (pool, time)"
  shows "\<exists>st'. note_triggers pool time st = Inr st' \<and> tables_ok st' (\<lambda>k. trs k @ answer_triggers k 80 (pool, time))"
proof -
  have "\<exists>st'. cfold (note_trigger pool time) st [0..<n] = Inr st' \<and> tables_ok st' (\<lambda>k. trs k @ answer_triggers k n (pool, time))"
    if "n \<le> 80" for n
    using that
  proof (induction n)
    case 0
    then show ?case using st by (simp add: answer_triggers_def)
  next
    case (Suc n)
    obtain st1 where st1: "cfold (note_trigger pool time) st [0..<n] = Inr st1" "tables_ok st1 (\<lambda>k. trs k @ answer_triggers k n (pool, time))"
      using Suc by auto
    have "n < length pool" "pool ! n < int MAX_NUM_TRAINS" using pool Suc.prems by (auto simp: answer_ok_def)
    from note_trigger_ok [OF st1(2) this, of time] st1(1) show ?case by (auto simp: cfold_append answer_triggers_Suc)
  qed
  from this [of 80] show ?thesis by (simp add: note_triggers_def NUM_SENSOR_GROUPS_def SENSORS_PER_GROUP_def)
qed

lemma tables_init: "tables_ok sensor_tables_init (\<lambda>k. [])"
  by (simp add: tables_ok_def sensor_tables_init_def holds_latest_def cb_init_inv MAX_SUBSCRIBED_SENSORS_def)

subsection \<open>The table of the sensors\<close>

definition trigger_text :: "sensor_trigger \<Rightarrow> string" where
  "trigger_text tr = ''['' @ decimal (sint (tr_triggered_time tr)) @ ''|'' @ sensor_name (tr_sensor_num tr) @ '']''"

definition sensor_row :: "int \<Rightarrow> int \<Rightarrow> sensor_trigger list \<Rightarrow> string" where
  "sensor_row row col trs = cursor_text row col LINE_WIDTH @ concat (map trigger_text (latest MAX_SUBSCRIBED_SENSORS trs))"

definition sensor_screen :: "pool_answer list \<Rightarrow> string" where
  "sensor_screen answers =
     concat (map (\<lambda>train. sensor_row (SENSOR_TABLE_ROW_BEGIN + int train + 1) (SENSOR_TABLE_COL + 10) (triggers (int train) answers)) [0..<MAX_NUM_TRAINS]) @
     sensor_row (SENSOR_TABLE_ROW_BEGIN + int MAX_NUM_TRAINS + 1) (SENSOR_TABLE_COL + 15) (triggers UNATTRIBUTED answers)"

definition sensor_titles :: "int \<Rightarrow> print_act list" where
  "sensor_titles server =
     map (Put_Char server) (cursor_text SENSOR_TABLE_ROW_BEGIN SENSOR_TABLE_COL LINE_WIDTH @ ''[ Oldest <- Sensor Triggers -> Newest ]'') @
     [Give_Back server] @
     map (Put_Char server)
       (concat (map (\<lambda>train. cursor_text (SENSOR_TABLE_ROW_BEGIN + int train + 1) SENSOR_TABLE_COL LINE_WIDTH @
            ''Train '' @ decimal (supported_trains ! train) @ '': '') [0..<MAX_NUM_TRAINS]) @
        cursor_text (SENSOR_TABLE_ROW_BEGIN + int MAX_NUM_TRAINS + 1) SENSOR_TABLE_COL LINE_WIDTH @ ''Unattributed: '') @
     [Give_Back server]"

lemma sensor_name_no_nul:
  assumes "0 \<le> n" "n < 80"
  shows "NUL \<notin> set (sensor_name n)"
proof -
  have i: "nat n < 80" "int (nat n) = n" using assms by simp_all
  then have "n_name (init_tracka ! nat n) = Some (sensor_name n)" using names_a by (simp add: list_all_iff)
  then show ?thesis using names_okD(4) [OF names_tracka, of "nat n"] i(1) by simp
qed

lemma print_triggers_sends:
  assumes "holds_latest cb trs" "\<forall>tr \<in> set trs. 0 \<le> tr_sensor_num tr \<and> tr_sensor_num tr < 80 \<and> sint (tr_triggered_time tr) \<noteq> - (2 ^ 31)"
    and "0 \<le> server" "- (2 ^ 31) < row" "row < 2 ^ 31" "- (2 ^ 31) < col" "col < 2 ^ 31"
  shows "sends server (sensor_row row col trs) (print_triggers fp server row col cb)"
proof -
  have one: "sends server (trigger_text tr) (print2 fp server ''[%d|%c%d]'' (VInt (tr_triggered_time tr) # sensor_args (tr_sensor_num tr)))"
    if "tr \<in> set (latest MAX_SUBSCRIBED_SENSORS trs)" for tr
  proof (rule print2_sends [OF _ _ assms(3)])
    have tr: "0 \<le> tr_sensor_num tr" "tr_sensor_num tr < 80" "sint (tr_triggered_time tr) \<noteq> - (2 ^ 31)"
      using assms(2) that set_latest [of MAX_SUBSCRIBED_SENSORS trs] by auto
    have "gives fp (CHR '']'' # [NUL]) [] '']''" by (simp add: gives_intros)
    from gives_int [OF tr(3) gives_plain [OF _ _ gives_sensor [OF this]]]
    show "gives fp (lit ''[%d|%c%d]'') (VInt (tr_triggered_time tr) # sensor_args (tr_sensor_num tr)) (trigger_text tr)"
      by (simp add: lit_def trigger_text_def gives_plain)
    show "NUL \<notin> set (trigger_text tr)" using tr sensor_name_no_nul by (simp add: trigger_text_def)
  qed
  have items: "cb_to_array cb = Inr (latest MAX_SUBSCRIBED_SENSORS trs, cb_count cb)"
    using assms(1) cb_to_array_items [of cb] by (simp add: holds_latest_def)
  have cursor: "sends server (cursor_text row col LINE_WIDTH) (cursor_to_pos fp server row col LINE_WIDTH)"
    using assms(3-) by (intro cursor_sends) (simp_all add: LINE_WIDTH_def)
  have "sends server (concat (cursor_text row col LINE_WIDTH # map trigger_text (latest MAX_SUBSCRIBED_SENSORS trs)))
      (in_turn (cursor_to_pos fp server row col LINE_WIDTH #
        map (\<lambda>tr. print2 fp server ''[%d|%c%d]'' (VInt (tr_triggered_time tr) # sensor_args (tr_sensor_num tr))) (latest MAX_SUBSCRIBED_SENSORS trs)))"
    by (rule sends_in_turn) (use cursor one in \<open>auto simp: list_all2_conv_all_nth nth_Cons split: nat.split\<close>)
  then show ?thesis
    using items by (simp add: sends_def print_triggers_def sensor_row_def SENSOR_TABLE_WIDTH_def del: in_turn_simps)
qed

lemma triggers_ok:
  assumes "\<forall>a \<in> set answers. answer_ok a" "tr \<in> set (triggers train answers)"
  shows "0 \<le> tr_sensor_num tr \<and> tr_sensor_num tr < 80 \<and> sint (tr_triggered_time tr) \<noteq> - (2 ^ 31)"
  using assms by (fastforce simp: triggers_def answer_triggers_def answer_ok_def)

lemma sensor_step_ok:
  assumes st: "tables_ok st (\<lambda>k. triggers k answers)" and ok: "\<forall>a \<in> set (answers @ [(pool, time)]). answer_ok a" and server: "0 \<le> server"
  shows "\<exists>st'. sensor_printer_step fp server pool time st con =
      Inr (st', \<lparr> con_uart = server,
        con_acts = con_acts con @ map (Put_Char server) (sensor_screen (answers @ [(pool, time)])) @ [Give_Back server] \<rparr>) \<and>
    tables_ok st' (\<lambda>k. triggers k (answers @ [(pool, time)]))"
proof -
  let ?answers = "answers @ [(pool, time)]"
  have "(\<lambda>k. triggers k answers @ answer_triggers k 80 (pool, time)) = (\<lambda>k. triggers k ?answers)" by (simp add: triggers_def)
  then obtain st' where st': "note_triggers pool time st = Inr st'" "tables_ok st' (\<lambda>k. triggers k ?answers)"
    using note_triggers_ok [OF st, of pool time] ok by auto
  have range: "- (2 ^ 31) < SENSOR_TABLE_ROW_BEGIN + int train + 1" "SENSOR_TABLE_ROW_BEGIN + int train + 1 < 2 ^ 31"
    if "train \<le> MAX_NUM_TRAINS" for train
    using that by (simp_all add: layout_defs)
  have cols: "- (2 ^ 31) < SENSOR_TABLE_COL + 15" "SENSOR_TABLE_COL + 15 < 2 ^ 31" "- (2 ^ 31) < SENSOR_TABLE_COL + 10" "SENSOR_TABLE_COL + 10 < 2 ^ 31"
    by (simp_all add: layout_defs)
  have trs: "\<forall>tr \<in> set (triggers k ?answers). 0 \<le> tr_sensor_num tr \<and> tr_sensor_num tr < 80 \<and> sint (tr_triggered_time tr) \<noteq> - (2 ^ 31)" for k
    using triggers_ok [OF ok] by blast
  have rows: "sends server (sensor_row (SENSOR_TABLE_ROW_BEGIN + int train + 1) (SENSOR_TABLE_COL + 10) (triggers (int train) ?answers))
      (\<lambda>con. cbind (rd (st_attributions st') train) (\<lambda>cb.
          print_triggers fp server (SENSOR_TABLE_ROW_BEGIN + int train + 1) (SENSOR_TABLE_COL + 10) cb con))"
    if "train < MAX_NUM_TRAINS" for train
    using st'(2) that print_triggers_sends [OF _ trs server range [OF less_imp_le [OF that]] cols(3,4), where fp = fp] by (simp add: tables_ok_def)
  have all: "sends server (concat (map (\<lambda>train. sensor_row (SENSOR_TABLE_ROW_BEGIN + int train + 1) (SENSOR_TABLE_COL + 10) (triggers (int train) ?answers))
        [0..<MAX_NUM_TRAINS]))
      (in_turn (map (\<lambda>train con. cbind (rd (st_attributions st') train) (\<lambda>cb.
          print_triggers fp server (SENSOR_TABLE_ROW_BEGIN + int train + 1) (SENSOR_TABLE_COL + 10) cb con)) [0..<MAX_NUM_TRAINS]))"
    by (rule sends_map [OF rows]) (simp_all add: MAX_NUM_TRAINS_def)
  have none: "sends server (sensor_row (SENSOR_TABLE_ROW_BEGIN + int MAX_NUM_TRAINS + 1) (SENSOR_TABLE_COL + 15) (triggers UNATTRIBUTED ?answers))
      (print_triggers fp server (SENSOR_TABLE_ROW_BEGIN + int MAX_NUM_TRAINS + 1) (SENSOR_TABLE_COL + 15) (st_unattributed st'))"
    using st'(2) print_triggers_sends [OF _ trs server range [OF order_refl] cols(1,2), where fp = fp] by (simp add: tables_ok_def)
  have "in_turn (map (\<lambda>train con. cbind (rd (st_attributions st') train) (\<lambda>cb.
          print_triggers fp server (SENSOR_TABLE_ROW_BEGIN + int train + 1) (SENSOR_TABLE_COL + 10) cb con)) [0..<MAX_NUM_TRAINS] @
        [print_triggers fp server (SENSOR_TABLE_ROW_BEGIN + int MAX_NUM_TRAINS + 1) (SENSOR_TABLE_COL + 15) (st_unattributed st'),
         done_print]) con =
      Inr \<lparr> con_uart = server, con_acts = con_acts con @ map (Put_Char server) (sensor_screen ?answers) @ [Give_Back server] \<rparr>"
    unfolding in_turn_append sends_apply [OF all] sensor_screen_def
    using none server by (simp add: sends_def done_print_def)
  then show ?thesis using st' unfolding sensor_printer_step_def by simp
qed

lemma sensor_titles_ok:
  assumes "0 \<le> server"
  shows "\<exists>u. sensor_printer_start fp server con = Inr \<lparr> con_uart = u, con_acts = con_acts con @ sensor_titles server \<rparr>"
proof -
  let ?cursor = "\<lambda>row. cursor_text row SENSOR_TABLE_COL LINE_WIDTH"
  have cursor: "sends server (?cursor row) (cursor_to_pos fp server row SENSOR_TABLE_COL LINE_WIDTH)" if "0 \<le> row" "row \<le> 30" for row
    using assms that by (intro cursor_sends) (simp_all add: layout_defs)
  have title: "sends server ''[ Oldest <- Sensor Triggers -> Newest ]'' (print2 fp server ''[ Oldest <- Sensor Triggers -> Newest ]'' [])"
    and none: "sends server ''Unattributed: '' (print2 fp server ''Unattributed: '' [])"
    using assms by (intro print2_sends; simp add: lit_def gives_intros)+
  have label: "sends server (?cursor (SENSOR_TABLE_ROW_BEGIN + int train + 1) @ ''Train '' @ decimal (supported_trains ! train) @ '': '')
      (\<lambda>con. cbind (v_p_train_num (int train)) (\<lambda>p.
          in_turn [cursor_to_pos fp server (SENSOR_TABLE_ROW_BEGIN + int train + 1) SENSOR_TABLE_COL SENSOR_TABLE_WIDTH,
            print2 fp server ''Train %d: '' [vint p]] con))" if "train < MAX_NUM_TRAINS" for train
  proof -
    have len: "length supported_trains = MAX_NUM_TRAINS" "\<forall>p \<in> set supported_trains. 0 \<le> p \<and> p < 100"
      by (simp_all add: supported_trains_def MAX_NUM_TRAINS_def)
    then have p: "v_p_train_num (int train) = Inr (supported_trains ! train)" "0 \<le> supported_trains ! train" "supported_trains ! train < 100"
      using that by (simp_all add: v_p_train_num_def rdi_def)
    have "sends server (''Train '' @ decimal (supported_trains ! train) @ '': '') (print2 fp server ''Train %d: '' [vint (supported_trains ! train)])"
      using assms p by (intro print2_sends) (simp_all add: lit_def gives_intros)
    from sends_Cons [OF cursor sends_one [OF this], of "SENSOR_TABLE_ROW_BEGIN + int train + 1"] show ?thesis
      using that p(1) by (simp add: sends_def layout_defs)
  qed
  have labels: "sends server (concat (map (\<lambda>train. ?cursor (SENSOR_TABLE_ROW_BEGIN + int train + 1) @ ''Train '' @ decimal (supported_trains ! train) @ '': '')
        [0..<MAX_NUM_TRAINS]))
      (in_turn (map (\<lambda>train con. cbind (v_p_train_num (int train)) (\<lambda>p.
          in_turn [cursor_to_pos fp server (SENSOR_TABLE_ROW_BEGIN + int train + 1) SENSOR_TABLE_COL SENSOR_TABLE_WIDTH,
            print2 fp server ''Train %d: '' [vint p]] con)) [0..<MAX_NUM_TRAINS]))"
    by (rule sends_map [OF label]) (simp_all add: MAX_NUM_TRAINS_def)
  have rows: "0 \<le> SENSOR_TABLE_ROW_BEGIN" "SENSOR_TABLE_ROW_BEGIN \<le> 30" "0 \<le> SENSOR_TABLE_ROW_BEGIN + int MAX_NUM_TRAINS + 1"
    "SENSOR_TABLE_ROW_BEGIN + int MAX_NUM_TRAINS + 1 \<le> 30" by (simp_all add: layout_defs)
  show ?thesis
    unfolding sensor_printer_start_def in_turn_append
    using sends_apply [OF cursor [OF rows(1,2)]] sends_apply [OF title] sends_apply [OF labels] sends_apply [OF cursor [OF rows(3,4)]]
      sends_apply [OF none] assms
    by (simp add: SENSOR_TABLE_WIDTH_def done_print_def sensor_titles_def)
qed

text \<open>
  C37: The table of the sensors is right on both tracks, for every sequence of answers of the dispatch server: after the titles the printer
  draws the whole table once for each answer, and every time each train has in its row the latest five
  triggers attributed to it so far, oldest first, and the last row those of no train: the time, and the sensor by the name it
  has on the track. The line is given back after each table, and no fault is met.
\<close>

theorem sensor_printer_shows_latest:
  assumes "boot_track w = Some (Inr (t, rows))" "\<forall>a \<in> set answers. answer_ok a" "0 \<le> server"
  shows "(\<exists>st u. sensor_printer fp server answers con = Inr (st, \<lparr> con_uart = u, con_acts = con_acts con @ sensor_titles server @
      concat (map (\<lambda>n. map (Put_Char server) (sensor_screen (take n answers)) @ [Give_Back server]) [1..<Suc (length answers)]) \<rparr>)) \<and>
    (\<forall>n < 80. n_name (t ! n) = Some (sensor_name (int n)))"
proof -
  let ?shown = "\<lambda>answers. concat (map (\<lambda>n. map (Put_Char server) (sensor_screen (take n answers)) @ [Give_Back server]) [1..<Suc (length answers)])"
  obtain u0 where start: "sensor_printer_start fp server con = Inr \<lparr> con_uart = u0, con_acts = con_acts con @ sensor_titles server \<rparr>"
    using sensor_titles_ok [OF assms(3)] by blast
  have "\<exists>st u. cfold (\<lambda>(st, con) (pool, time). sensor_printer_step fp server pool time st con)
        (sensor_tables_init, \<lparr> con_uart = u0, con_acts = con_acts con @ sensor_titles server \<rparr>) answers =
      Inr (st, \<lparr> con_uart = u, con_acts = con_acts con @ sensor_titles server @ ?shown answers \<rparr>) \<and> tables_ok st (\<lambda>k. triggers k answers)"
    using assms(2)
  proof (induction answers rule: rev_induct)
    case Nil
    then show ?case using tables_init by (simp add: triggers_def)
  next
    case (snoc a answers)
    obtain pool time where a: "a = (pool, time)" by (cases a)
    obtain st u where IH: "cfold (\<lambda>(st, con) (pool, time). sensor_printer_step fp server pool time st con)
        (sensor_tables_init, \<lparr> con_uart = u0, con_acts = con_acts con @ sensor_titles server \<rparr>) answers =
      Inr (st, \<lparr> con_uart = u, con_acts = con_acts con @ sensor_titles server @ ?shown answers \<rparr>)" "tables_ok st (\<lambda>k. triggers k answers)"
      using snoc by auto
    have "map (\<lambda>n. map (Put_Char server) (sensor_screen (take n (answers @ [a]))) @ [Give_Back server]) [1..<Suc (length answers)] =
        map (\<lambda>n. map (Put_Char server) (sensor_screen (take n answers)) @ [Give_Back server]) [1..<Suc (length answers)]"
      by (rule map_cong) auto
    moreover have "[1..<Suc (length (answers @ [a]))] = [1..<Suc (length answers)] @ [Suc (length answers)]" by simp
    ultimately have shown: "?shown (answers @ [a]) = ?shown answers @ map (Put_Char server) (sensor_screen (answers @ [a])) @ [Give_Back server]"
      by (simp only: map_append concat_append) simp
    let ?con = "\<lparr> con_uart = u, con_acts = con_acts con @ sensor_titles server @ ?shown answers \<rparr>"
    obtain st' where st': "sensor_printer_step fp server pool time st ?con =
        Inr (st', \<lparr> con_uart = server, con_acts = con_acts ?con @ map (Put_Char server) (sensor_screen (answers @ [(pool, time)])) @ [Give_Back server] \<rparr>)"
      "tables_ok st' (\<lambda>k. triggers k (answers @ [(pool, time)]))"
      using sensor_step_ok [OF IH(2) snoc.prems [unfolded a] assms(3), of fp ?con] by blast
    moreover have "con_acts ?con @ map (Put_Char server) (sensor_screen (answers @ [(pool, time)])) @ [Give_Back server] =
        con_acts con @ sensor_titles server @ ?shown (answers @ [a])"
      unfolding shown by (simp only: console.select_convs append_assoc a)
    ultimately show ?case unfolding cfold_append IH(1) a by (simp del: upt_Suc)
  qed
  then show ?thesis using start sensor_name_boot [OF assms(1)] by (auto simp: sensor_printer_def)
qed

theorem sensor_printer_shows_latest_witness:
  "(\<exists>st u. sensor_printer thousandths 9 [((replicate 80 (-1))[1 := 2, 34 := -2], 7)] \<lparr> con_uart = 0, con_acts = [] \<rparr> =
    Inr (st, \<lparr> con_uart = u, con_acts = sensor_titles 9 @ map (Put_Char 9)
      (sensor_row 15 99 [] @ sensor_row 16 99 [] @ sensor_row 17 99 [\<lparr> tr_sensor_num = 1, tr_triggered_time = 7 \<rparr>] @ sensor_row 18 99 [] @
       sensor_row 19 99 [] @ sensor_row 20 99 [] @ sensor_row 21 104 [\<lparr> tr_sensor_num = 34, tr_triggered_time = 7 \<rparr>]) @ [Give_Back 9] \<rparr>)) \<and>
    sensor_row 17 99 [\<lparr> tr_sensor_num = 1, tr_triggered_time = 7 \<rparr>] =
      ESC # ''[17;99H'' @ ESC # ''[K'' @ ESC # ''[17;99H[7|A2]'' \<and>
    sensor_row 21 104 [\<lparr> tr_sensor_num = 34, tr_triggered_time = 7 \<rparr>] =
      ESC # ''[21;104H'' @ ESC # ''[K'' @ ESC # ''[21;104H[7|C3]''"
proof -
  let ?pool = "(replicate 80 (-1))[1 := 2, 34 := -2] :: int list"
  obtain t rows where t: "boot_track (CHR ''a'') = Some (Inr (t, rows))" using boot_track_ok [of "CHR ''a''"] by auto
  have ok: "\<forall>a \<in> set [(?pool, 7 :: 32 word)]. answer_ok a"
    by (auto simp: answer_ok_def MAX_NUM_TRAINS_def dest!: set_update_subset_insert [THEN subsetD])
  have trs: "triggers 0 [(?pool, 7)] = []" "triggers 1 [(?pool, 7)] = []" "triggers 2 [(?pool, 7)] = [\<lparr> tr_sensor_num = 1, tr_triggered_time = 7 \<rparr>]"
    "triggers 3 [(?pool, 7)] = []" "triggers 4 [(?pool, 7)] = []" "triggers 5 [(?pool, 7)] = []"
    "triggers UNATTRIBUTED [(?pool, 7)] = [\<lparr> tr_sensor_num = 34, tr_triggered_time = 7 \<rparr>]"
    by code_simp+
  have trains: "[0..<MAX_NUM_TRAINS] = [0, 1, 2, 3, 4, 5]" by (simp add: MAX_NUM_TRAINS_def upt_rec)
  have screen: "sensor_screen [(?pool, 7)] =
      sensor_row 15 99 [] @ sensor_row 16 99 [] @ sensor_row 17 99 [\<lparr> tr_sensor_num = 1, tr_triggered_time = 7 \<rparr>] @ sensor_row 18 99 [] @
       sensor_row 19 99 [] @ sensor_row 20 99 [] @ sensor_row 21 104 [\<lparr> tr_sensor_num = 34, tr_triggered_time = 7 \<rparr>]"
    unfolding sensor_screen_def trains using trs by (simp add: layout_defs)
  have texts: "sensor_row 17 99 [\<lparr> tr_sensor_num = 1, tr_triggered_time = 7 \<rparr>] =
      ESC # ''[17;99H'' @ ESC # ''[K'' @ ESC # ''[17;99H[7|A2]''"
    "sensor_row 21 104 [\<lparr> tr_sensor_num = 34, tr_triggered_time = 7 \<rparr>] =
      ESC # ''[21;104H'' @ ESC # ''[K'' @ ESC # ''[21;104H[7|C3]''" by code_simp+
  have shown: "concat (map (\<lambda>n. map (Put_Char 9) (sensor_screen (take n [(?pool, 7)])) @ [Give_Back 9]) [1..<Suc (length [(?pool, 7 :: 32 word)])]) =
      map (Put_Char 9) (sensor_screen [(?pool, 7)]) @ [Give_Back 9]" by simp
  have "\<exists>st u. sensor_printer thousandths 9 [(?pool, 7)] \<lparr> con_uart = 0, con_acts = [] \<rparr> =
      Inr (st, \<lparr> con_uart = u, con_acts = sensor_titles 9 @ map (Put_Char 9) (sensor_screen [(?pool, 7)]) @ [Give_Back 9] \<rparr>)"
    using conjunct1 [OF sensor_printer_shows_latest [OF t ok, of 9 thousandths "\<lparr> con_uart = 0, con_acts = [] \<rparr>"]]
    unfolding shown by simp
  then show ?thesis unfolding screen using texts by (intro conjI)
qed

subsection \<open>The other tables\<close>

text \<open>The letter of a switch: straight, curved or not known; and what the table holds for it.\<close>

definition switch_letter :: "8 word \<Rightarrow> char" where
  "switch_letter s = ''sc?'' ! unat s"

definition switch_text :: "string \<Rightarrow> int \<Rightarrow> 8 word \<Rightarrow> string" where
  "switch_text label col s =
     cursor_text (SWITCH_TABLE_ROW_BEGIN + 1) (SWITCH_TABLE_COL + col) LINE_WIDTH @ CHR ''|'' # label @ CHR ''|'' # crlf @
     cursor_text (SWITCH_TABLE_ROW_BEGIN + 2) (SWITCH_TABLE_COL + col) LINE_WIDTH @ ''| '' @ switch_letter s # '' |'' @ crlf"

definition switch_screen :: "8 word list \<Rightarrow> 8 word list \<Rightarrow> string" where
  "switch_screen branch_a branch_b =
     cursor_text SWITCH_TABLE_ROW_BEGIN SWITCH_TABLE_COL 17 @ ''[ Switch States ]'' @ crlf @
     concat (map (\<lambda>i. switch_text (''00'' @ decimal (int i)) (5 * (int i - 1)) (branch_a ! i)) [1..<10]) @
     concat (map (\<lambda>i. switch_text (''0'' @ decimal (int i)) (5 * (int i - 1)) (branch_a ! i)) [10..<19]) @
     concat (map (\<lambda>i. switch_text (decimal (153 + int i)) (5 * (int i + 18)) (branch_b ! i)) [0..<4])"

lemma switch_letter_in: "unat s \<le> 2 \<Longrightarrow> switch_letter s \<in> set ''sc?''"
  unfolding switch_letter_def by (rule nth_mem) simp

lemma print_switch_sends:
  assumes "i < length branch" "unat (branch ! i) \<le> 2" "0 \<le> server" "0 \<le> col" "col < 200"
    and gives: "gives fp (lit (format @ crlf)) [vint num] (CHR ''|'' # label @ CHR ''|'' # crlf)" "NUL \<notin> set label"
  shows "sends server (switch_text label col (branch ! i)) (print_switch fp server (format @ crlf) num branch i col)"
proof -
  let ?s = "branch ! i"
  have cursor: "sends server (cursor_text (SWITCH_TABLE_ROW_BEGIN + k) (SWITCH_TABLE_COL + col) LINE_WIDTH)
      (cursor_to_pos fp server (SWITCH_TABLE_ROW_BEGIN + k) (SWITCH_TABLE_COL + col) LINE_WIDTH)" if "k \<in> {1, 2}" for k
    using assms(3-5) that by (intro cursor_sends) (auto simp: layout_defs)
  have label: "sends server (CHR ''|'' # label @ CHR ''|'' # crlf) (print2 fp server (format @ crlf) [vint num])"
    using gives assms(3) by (intro print2_sends) simp_all
  have letter: "sends server (''| '' @ switch_letter ?s # '' |'' @ crlf) (print2 fp server (''| %c |'' @ crlf) [vchar (switch_letter ?s)])"
    using assms(3) switch_letter_in [OF assms(2)] by (intro print2_sends) (auto simp: lit_def gives_intros)
  have "rd (lit ''sc?'') (unat ?s) = Inr (switch_letter ?s)"
    using assms(2) nth_append [of "''sc?''" "[NUL]" "unat ?s"] by (simp add: switch_letter_def lit_def)
  then show ?thesis
    using assms(1) sends_apply [OF cursor [of 1]] sends_apply [OF label] sends_apply [OF cursor [of 2]] sends_apply [OF letter]
    by (simp add: sends_def print_switch_def switch_text_def SWITCH_TABLE_WIDTH_def)
qed

lemma in_turn_Cons: "in_turn (p # ps) con = cbind (p con) (in_turn ps)"
  by simp

lemma switch_table_shows:
  assumes "19 \<le> length branch_a" "4 \<le> length branch_b" "\<forall>s \<in> set branch_a \<union> set branch_b. unat s \<le> 2" "0 \<le> server"
  shows "shows_text server (switch_screen branch_a branch_b) (print_switch_table fp server branch_a branch_b)"
proof -
  have a: "sends server (concat (map (\<lambda>i. switch_text (label i) (5 * (int i - 1)) (branch_a ! i)) [m..<n]))
      (in_turn (map (\<lambda>i. print_switch fp server (format @ crlf) (int i) branch_a i (5 * (int i - 1))) [m..<n]))"
    if "0 < m" "m < n" "n \<le> 19" "\<And>i. i < 19 \<Longrightarrow> gives fp (lit (format @ crlf)) [vint (int i)] (CHR ''|'' # label i @ CHR ''|'' # crlf)"
      "\<And>i. NUL \<notin> set (label i)"
    for m n format label
    using that assms by (intro sends_map print_switch_sends) auto
  have b: "sends server (concat (map (\<lambda>i. switch_text (decimal (153 + int i)) (5 * (int i + 18)) (branch_b ! i)) [0..<4]))
      (in_turn (map (\<lambda>i. print_switch fp server (''|%d|'' @ crlf) (153 + int i) branch_b i (5 * (int i + 18))) [0..<4]))"
    using assms by (intro sends_map print_switch_sends) (auto simp: lit_def gives_intros)
  have title: "sends server (cursor_text SWITCH_TABLE_ROW_BEGIN SWITCH_TABLE_COL 17)
      (cursor_to_pos fp server SWITCH_TABLE_ROW_BEGIN SWITCH_TABLE_COL (int (length ''[ Switch States ]'')))"
    using assms(4) cursor_sends [of server SWITCH_TABLE_ROW_BEGIN SWITCH_TABLE_COL 17 fp] by (simp add: layout_defs)
  have name: "sends server (''[ Switch States ]'' @ crlf) (print2 fp server (''%s'' @ crlf) [VString (lit ''[ Switch States ]'')])"
  proof (rule print2_sends [OF _ _ assms(4)])
    have "terminated (lit ''[ Switch States ]'')" "cstr (lit ''[ Switch States ]'') = ''[ Switch States ]''"
      by (simp_all add: terminated_def cstr_def lit_def)
    from gives_string [OF this(1), of fp "crlf @ [NUL]" "[]" crlf] this(2)
    show "gives fp (lit (''%s'' @ crlf)) [VString (lit ''[ Switch States ]'')] (''[ Switch States ]'' @ crlf)"
      by (simp add: lit_def gives_plain gives_end)
  qed simp
  have "sends server (concat (map (\<lambda>i. switch_text (''00'' @ decimal (int i)) (5 * (int i - 1)) (branch_a ! i)) [1..<10]))
      (in_turn (map (\<lambda>i. print_switch fp server (''|00%d|'' @ crlf) (int i) branch_a i (5 * (int i - 1))) [1..<10]))"
    by (rule a) (simp_all add: lit_def gives_intros)
  moreover have "sends server (concat (map (\<lambda>i. switch_text (''0'' @ decimal (int i)) (5 * (int i - 1)) (branch_a ! i)) [10..<19]))
      (in_turn (map (\<lambda>i. print_switch fp server (''|0%d|'' @ crlf) (int i) branch_a i (5 * (int i - 1))) [10..<19]))"
    by (rule a) (simp_all add: lit_def gives_intros)
  ultimately show ?thesis
    unfolding shows_text_def print_switch_table_def in_turn_append switch_screen_def
    using sends_apply [OF b] sends_apply [OF title] sends_apply [OF name] assms(4)
    by (simp add: sends_def done_print_def del: upt_Suc)
qed

text \<open>Reservations: the reserved nodes with their trains, in the order of the nodes; nothing is printed for the others.\<close>

definition node_text :: "track_node list \<Rightarrow> int \<Rightarrow> string" where
  "node_text t i = the (n_name (t ! nat i))"

definition reservation_text :: "track_node list \<Rightarrow> int list \<Rightarrow> nat \<Rightarrow> string" where
  "reservation_text t reservations i =
     (if reservations ! i = -1 then [] else CHR ''['' # node_text t (int i) @ '':'' @ decimal (supported_trains ! nat (reservations ! i)) @ '']'')"

definition reservation_screen :: "track_node list \<Rightarrow> int list \<Rightarrow> string" where
  "reservation_screen t reservations =
     cursor_text (RESERVATION_ROW + 1) RESERVATION_COL LINE_WIDTH @ '' '' @ concat (map (reservation_text t reservations) [0..<TRACK_MAX])"

lemma physical_train:
  assumes "0 \<le> v" "v < int MAX_NUM_TRAINS"
  shows "v_p_train_num v = Inr (supported_trains ! nat v)" "0 \<le> supported_trains ! nat v" "supported_trains ! nat v < 100"
proof -
  have len: "length supported_trains = MAX_NUM_TRAINS" "\<forall>p \<in> set supported_trains. 0 \<le> p \<and> p < 100"
    by (simp_all add: supported_trains_def MAX_NUM_TRAINS_def)
  then show "v_p_train_num v = Inr (supported_trains ! nat v)" "0 \<le> supported_trains ! nat v" "supported_trains ! nat v < 100"
    using assms by (simp_all add: v_p_train_num_def rdi_def nat_less_iff)
qed

lemma node_string_ok:
  assumes "names_ok t m" "0 \<le> i" "i < int m"
  shows "node_string t i = Inr (VString (lit (node_text t i)))" "NUL \<notin> set (node_text t i)"
proof -
  have i: "nat i < m" "nat i < length t" using assms names_okD(1,3) [OF assms(1)] by auto
  obtain s where "n_name (t ! nat i) = Some s" "NUL \<notin> set s" using names_okD(4) [OF assms(1) i(1)] by auto
  then show "node_string t i = Inr (VString (lit (node_text t i)))" "NUL \<notin> set (node_text t i)"
    using i(2) assms(2) by (simp_all add: node_string_def node_text_def rdi_def)
qed

lemma reservation_table_shows:
  assumes names: "names_ok t m" and len: "length reservations = TRACK_MAX" and server: "0 \<le> server"
    and res: "\<forall>i < TRACK_MAX. reservations ! i \<noteq> -1 \<longrightarrow> 0 \<le> reservations ! i \<and> reservations ! i < int MAX_NUM_TRAINS \<and> i < m"
  shows "shows_text server (reservation_screen t reservations) (reservation_printer_step fp server t reservations)"
proof -
  have one: "print_reservation fp server t reservations i con =
      Inr \<lparr> con_uart = server, con_acts = con_acts con @ map (Put_Char server) (reservation_text t reservations i) \<rparr>"
    if i: "i \<in> set [0..<TRACK_MAX]" and con: "con_uart con = server" for i con
  proof (cases "reservations ! i = -1")
    case True
    then show ?thesis using i con len by (cases con) (simp add: print_reservation_def reservation_text_def)
  next
    case False
    then have r: "0 \<le> reservations ! i" "reservations ! i < int MAX_NUM_TRAINS" "i < m" using res i by auto
    have i': "0 \<le> int i" "int i < int m" using r(3) by simp_all
    note name = node_string_ok [OF names i']
    have "sends server (reservation_text t reservations i)
        (print2 fp server ''[%s:%d]'' [VString (lit (node_text t (int i))), vint (supported_trains ! nat (reservations ! i))])"
      using name(2) physical_train(2,3) [OF r(1,2)] server False
      by (intro print2_sends) (simp_all add: lit_def gives_intros gives_lit [unfolded lit_def] reservation_text_def)
    then show ?thesis using False i len physical_train(1) [OF r(1,2)] by (simp add: print_reservation_def sends_def name(1))
  qed
  have cursor: "sends server (cursor_text (RESERVATION_ROW + 1) RESERVATION_COL LINE_WIDTH)
      (cursor_to_pos fp server (RESERVATION_ROW + 1) RESERVATION_COL RESERVATION_WIDTH)"
    using server cursor_sends [of server "RESERVATION_ROW + 1" RESERVATION_COL LINE_WIDTH fp] by (simp add: layout_defs)
  have blank: "sends server '' '' (print2 fp server '' '' [])"
    using server by (intro print2_sends) (simp_all add: lit_def gives_intros)
  note all = in_turn_on [of "[0..<TRACK_MAX]" server "print_reservation fp server t reservations" "reservation_text t reservations", OF one]
  show ?thesis
    unfolding shows_text_def reservation_printer_step_def in_turn_append reservation_screen_def
    using sends_apply [OF cursor] sends_apply [OF blank] all server by (simp add: done_print_def)
qed

text \<open>Trains.\<close>

definition place_text :: "track_node list \<Rightarrow> int \<Rightarrow> int \<Rightarrow> string" where
  "place_text t num offset = (if num = -1 then ''?'' else node_text t num @ '' + '' @ decimal offset)"

definition train_row :: "track_node list \<Rightarrow> nat \<Rightarrow> train_state \<Rightarrow> string" where
  "train_row t train ts =
     (let row = PATH_TABLE_ROW_BEGIN + int train + 1; at = (\<lambda>col. cursor_text row col 0) in
      cursor_text row PATH_TABLE_COL PATH_TABLE_WIDTH @ at 2 @ decimal (supported_trains ! nat (ts_train_num ts)) @
      at 13 @ place_text t (ts_reged_at_num ts) (ts_reged_at_offset ts) @
      at 29 @ place_text t (ts_dest_num ts) (ts_dest_offset ts) @
      at 39 @ (if ts_reversed ts then ''ye'' else ''nah''))"

definition place_ok :: "nat \<Rightarrow> int \<Rightarrow> int \<Rightarrow> bool" where
  "place_ok m num offset \<longleftrightarrow> num = -1 \<or> 0 \<le> num \<and> num < int m \<and> - (2 ^ 31) < offset \<and> offset < 2 ^ 31"

lemma print_place_sends:
  assumes "names_ok t m" "place_ok m num offset" "0 \<le> server"
  shows "sends server (place_text t num offset) (print_place fp server t num offset)"
proof (cases "num = -1")
  case True
  have "sends server ''?'' (print2 fp server ''?'' [])" using assms(3) by (intro print2_sends) (simp_all add: lit_def gives_intros)
  then show ?thesis using True by (simp add: sends_def print_place_def place_text_def)
next
  case False
  then have num: "0 \<le> num" "num < int m" "- (2 ^ 31) < offset" "offset < 2 ^ 31" using assms(2) by (simp_all add: place_ok_def)
  have "sends server (place_text t num offset) (print2 fp server ''%s + %d'' [VString (lit (node_text t num)), vint offset])"
    using node_string_ok(2) [OF assms(1) num(1,2)] num(3,4) assms(3) False
    by (intro print2_sends) (simp_all add: lit_def gives_intros gives_lit [unfolded lit_def] gives_last place_text_def)
  then show ?thesis using False by (simp add: sends_def print_place_def node_string_ok(1) [OF assms(1) num(1,2)])
qed

lemma train_row_shows:
  assumes "names_ok t m" "0 \<le> server" "train < MAX_NUM_TRAINS" "0 \<le> ts_train_num ts" "ts_train_num ts < int MAX_NUM_TRAINS"
    "place_ok m (ts_reged_at_num ts) (ts_reged_at_offset ts)" "place_ok m (ts_dest_num ts) (ts_dest_offset ts)"
  shows "shows_text server (train_row t train ts) (print_train_state fp server t train ts)"
proof -
  note p = physical_train [OF assms(4,5)]
  have cursor: "sends server (cursor_text (PATH_TABLE_ROW_BEGIN + int train + 1) col n) (cursor_to_pos fp server (PATH_TABLE_ROW_BEGIN + int train + 1) col n)"
    if "0 \<le> col" "col \<le> 50" "0 \<le> n" for col n
    using assms(2,3) that by (intro cursor_sends) (simp_all add: layout_defs)
  have num: "sends server (decimal (supported_trains ! nat (ts_train_num ts))) (print2 fp server ''%d'' [vint (supported_trains ! nat (ts_train_num ts))])"
    using assms(2) p(2,3) by (intro print2_sends) (simp_all add: lit_def gives_last)
  have rev: "sends server r (print2 fp server ''%s'' [VString (lit r)])" if "r = ''ye'' \<or> r = ''nah''" for r
    using assms(2) that gives_last(2) [of r fp "[]"] by (intro print2_sends) (auto simp: lit_def)
  have r: "(if ts_reversed ts then ''ye'' else ''nah'') = ''ye'' \<or> (if ts_reversed ts then ''ye'' else ''nah'') = ''nah''" by simp
  show ?thesis
    unfolding shows_text_def print_train_state_def Let_def train_row_def
    using sends_apply [OF cursor] sends_apply [OF num] sends_apply [OF print_place_sends [OF assms(1,6,2), of fp]]
      sends_apply [OF print_place_sends [OF assms(1,7,2), of fp]] sends_apply [OF rev [OF r]] p(1) assms(2)
    by (simp add: done_print_def PATH_TABLE_COL_def PATH_TABLE_WIDTH_def train_num_str_def registered_at_str_def dest_at_str_def)
qed

end
