(* ===== verification/Debugprinter_Properties.thy ===== *)
theory Debugprinter_Properties
  imports Screen_Properties
begin

section \<open>Messages for debugging fit or overrun their buffer\<close>

text \<open>
  \<open>debugprint\<close> writes its line with \<open>sprintf\<close> into a buffer that may be too short.
\<close>

definition debug_types :: "32 word list" where
  "debug_types = [PATH_WORKER_DEBUG, DISPATCH_SERVER_DEBUG, CRITICAL_DEBUG, NAVIGATION_SERVER_DEBUG, STRAIGHT_PATH_WORKER_DEBUG,
     TRAIN_SERVER_DEBUG, VERBOSE_DEBUG, RESERVATION_DEBUG]"

text \<open>The line for a message: critical ones in red, the others with the name of their sender.\<close>

definition debug_line :: "32 word \<Rightarrow> string \<Rightarrow> string" where
  "debug_line type s =
     (if type = CRITICAL_DEBUG then ESC # ''[31m'' @ s @ ESC # ''[37m''
      else case debug_name type of Inr name \<Rightarrow> CHR ''['' # name @ ''] '' @ s | Inl _ \<Rightarrow> [])"

lemma debug_text_ok:
  assumes "terminated str" "length (cstr str) < 2 ^ 30" "length name_str = MAX_DEBUG_NAME_LEN"
    and type: "type \<in> {CRITICAL_DEBUG, NAVIGATION_SERVER_DEBUG, STRAIGHT_PATH_WORKER_DEBUG}"
  shows "debug_text fp new_str name_str str type =
    (let line = debug_line type (cstr str) in
     if length line < length new_str then Inr (line @ NUL # drop (Suc (length line)) new_str) else Inl Out_Of_Bounds)"
proof (cases "type = CRITICAL_DEBUG")
  case True
  have "gives fp (CHR ''%'' # CHR ''s'' # ESC # ''[37m'' @ [NUL]) [VString str] (cstr str @ ESC # ''[37m'')"
    using gives_string [OF assms(1), of fp "ESC # ''[37m'' @ [NUL]" "[]"] by (simp add: gives_plain gives_end)
  then have "gives fp (lit (ESC # ''[31m%s'' @ ESC # ''[37m'')) [VString str] (debug_line type (cstr str))"
    using True by (simp add: lit_def debug_line_def gives_plain)
  from sprintf_gives [OF this, of new_str] show ?thesis
    using True assms(2) by (simp add: debug_text_def debug_line_def Let_def)
next
  case False
  then obtain name where name: "debug_name type = Inr name" "name \<in> {''Navigation Server'', ''Straightpath Worker''}"
    using type by (auto simp: debug_name_def debug_defs)
  have copy: "strncpy name_str (lit name) MAX_DEBUG_NAME_LEN = Inr (name @ NUL # drop (length name + 1) name_str)" "cstr (lit name) = name"
    using name(2) assms(3) strncpy_ok [of "lit name" name_str MAX_DEBUG_NAME_LEN]
    by (auto simp: lit_def cstr_def terminated_def MAX_DEBUG_NAME_LEN_def)
  have front: "cstr (name @ NUL # drop (length name + 1) name_str) = name" "terminated (name @ NUL # drop (length name + 1) name_str)"
    using name(2) cstr_front [of name] by auto
  have "gives fp (CHR '']'' # CHR '' '' # CHR ''%'' # CHR ''s'' # [NUL]) [VString str] ('']'' @ '' '' @ cstr str)"
    using gives_string [OF assms(1) gives_end, of fp "[]"] by (simp add: gives_plain)
  from gives_string [OF front(2) this]
  have "gives fp (lit ''[%s] %s'') [VString (name @ NUL # drop (length name + 1) name_str), VString str] (debug_line type (cstr str))"
    using False name(1) front(1) by (simp add: lit_def debug_line_def gives_plain)
  from sprintf_gives [OF this, of new_str] show ?thesis
    using False name copy(1) assms(2) by (auto simp: debug_text_def debug_line_def Let_def)
qed

text \<open>
  C39: A message for debugging is shown or dropped, but \<open>debugprint\<close> does not look at its length: messages of the critical, navigation and
  straight path types are put, with their name or colour, at the foot of the screen exactly when the whole line has at most 99 characters, so that
  the text itself may have 89, 79 or 77; a longer one overruns \<open>new_str\<close>. All other types print nothing and cannot fail.
\<close>

theorem debugprint_fits:
  assumes "terminated str" "length (cstr str) < 2 ^ 30" "length new_str = MAX_DEBUG_STRING_LEN" "length name_str = MAX_DEBUG_NAME_LEN"
    and "0 \<le> server" "type \<in> set debug_types"
  shows "debugprint fp server new_str name_str str type con =
    (if type \<notin> {CRITICAL_DEBUG, NAVIGATION_SERVER_DEBUG, STRAIGHT_PATH_WORKER_DEBUG} then Inr con
     else
       let line = debug_line type (cstr str) in
       if length line < 100 then
         Inr \<lparr> con_uart = server,
           con_acts = con_acts con @ map (Put_Char server) (cursor_text 83 1 0 @ ESC # ''[D'' @ line @ crlf) @ [Give_Back server] \<rparr>
       else Inl Out_Of_Bounds)"
proof -
  have filter: "type AND FILTER = 0 \<longleftrightarrow> type \<notin> {CRITICAL_DEBUG, NAVIGATION_SERVER_DEBUG, STRAIGHT_PATH_WORKER_DEBUG}"
    using assms(6) by (auto simp: debug_types_def debug_defs)
  show ?thesis
  proof (cases "type AND FILTER = 0")
    case False
    let ?line = "debug_line type (cstr str)" and ?b = "debug_line type (cstr str) @ NUL # drop (Suc (length (debug_line type (cstr str)))) new_str"
    have type: "type \<in> {CRITICAL_DEBUG, NAVIGATION_SERVER_DEBUG, STRAIGHT_PATH_WORKER_DEBUG}" using False filter by simp
    have "NUL \<notin> set ?line"
      using type by (auto simp: debug_line_def debug_name_def debug_defs)
    note b = cstr_front [OF this, of "drop (Suc (length ?line)) new_str"]
    have cursor: "sends server (cursor_text 83 1 0) (cursor_to_pos fp server (DEBUG_TABLE_ROW_BEGIN + DEBUG_TABLE_HEIGHT) DEBUG_TABLE_COL 0)"
      using assms(5) cursor_sends [of server 83 1 0 fp] by (simp add: layout_defs)
    have left: "sends server (ESC # ''[D'') (print2 fp server (ESC # ''[D'') [])"
      using assms(5) by (intro print2_sends) (simp_all add: lit_def gives_intros)
    have "gives fp (lit (''%s'' @ crlf)) [VString ?b] (?line @ crlf)"
      using gives_string [of ?b fp "crlf @ [NUL]" "[]" crlf] b by (simp add: lit_def gives_intros)
    then have line: "sends server (?line @ crlf) (print2 fp server (''%s'' @ crlf) [VString ?b])"
      using assms(5) \<open>NUL \<notin> set ?line\<close> by (intro print2_sends) simp_all
    have "debug_text fp new_str name_str str type = (if length ?line < 100 then Inr ?b else Inl Out_Of_Bounds)"
      using debug_text_ok [OF assms(1,2,4) type, of fp new_str] assms(3) by (simp add: Let_def MAX_DEBUG_STRING_LEN_def)
    then show ?thesis
      using False filter sends_apply [OF cursor] sends_apply [OF left] sends_apply [OF line] assms(5)
      by (simp add: debugprint_def done_print_def)
  qed (use filter in \<open>simp add: debugprint_def\<close>)
qed

theorem debugprint_fits_witness:
  "debugprint thousandths 9 (replicate 100 NUL) (replicate 20 NUL) (lit ''Reversing'') NAVIGATION_SERVER_DEBUG \<lparr> con_uart = 0, con_acts = [] \<rparr> =
    Inr \<lparr> con_uart = 9, con_acts = map (Put_Char 9) (cursor_text 83 1 0 @ ESC # ''[D[Navigation Server] Reversing'' @ crlf) @ [Give_Back 9] \<rparr> \<and>
   debugprint thousandths 9 (replicate 100 NUL) (replicate 20 NUL) (lit (replicate 78 CHR ''x'')) STRAIGHT_PATH_WORKER_DEBUG
     \<lparr> con_uart = 0, con_acts = [] \<rparr> = Inl Out_Of_Bounds"
proof -
  have texts: "cstr (lit ''Reversing'') = ''Reversing''" "cstr (lit (replicate 78 CHR ''x'')) = replicate 78 CHR ''x''"
    "terminated (lit s)" for s
    using cstr_front [of "replicate 78 CHR ''x''" "[]"] by (simp_all add: cstr_def lit_def terminated_def)
  have types: "NAVIGATION_SERVER_DEBUG \<in> set debug_types" "STRAIGHT_PATH_WORKER_DEBUG \<in> set debug_types"
    by (simp_all add: debug_types_def)
  have lines: "debug_line NAVIGATION_SERVER_DEBUG s = ''[Navigation Server] '' @ s" "debug_line STRAIGHT_PATH_WORKER_DEBUG s = ''[Straightpath Worker] '' @ s" for s
    by (simp_all add: debug_line_def debug_name_def debug_defs)
  show ?thesis
    using debugprint_fits [OF texts(3), of "''Reversing''" "replicate 100 NUL" "replicate 20 NUL" 9 NAVIGATION_SERVER_DEBUG thousandths "\<lparr> con_uart = 0, con_acts = [] \<rparr>"]
      debugprint_fits [OF texts(3), of "replicate 78 CHR ''x''" "replicate 100 NUL" "replicate 20 NUL" 9 STRAIGHT_PATH_WORKER_DEBUG thousandths
        "\<lparr> con_uart = 0, con_acts = [] \<rparr>"]
    by (simp add: texts types lines Let_def MAX_DEBUG_STRING_LEN_def MAX_DEBUG_NAME_LEN_def)
qed

end
