(* ===== verification/Idle_Properties.thy ===== *)
theory Idle_Properties
  imports Printers
begin

section \<open>The percentage of the idle task\<close>

text \<open>
  The machine: \<open>elapsed k\<close> ticks of TIMER3 have passed since the start when round \<open>k\<close> reads it (the timer counts down and wraps), and
  the time slept in the rounds so far is part of them.
\<close>

definition slept :: "(32 word \<times> 32 word) list \<Rightarrow> nat" where
  "slept rounds = sum_list (map (unat \<circ> fst) rounds)"

definition clock_ok :: "32 word \<Rightarrow> (nat \<Rightarrow> nat) \<Rightarrow> (32 word \<times> 32 word) list \<Rightarrow> bool" where
  "clock_ok start elapsed rounds \<longleftrightarrow>
     (\<forall>k < length rounds. snd (rounds ! k) = start - word_of_nat (elapsed (Suc k)) \<and> slept (take (Suc k) rounds) \<le> elapsed (Suc k) \<and>
        elapsed (Suc k) mod 2 ^ 32 \<noteq> 0)"

text \<open>What the task has computed after a number of rounds: the value of the last round whose number is divisible by 10.\<close>

definition shown_percentage :: "int \<Rightarrow> (nat \<Rightarrow> nat) \<Rightarrow> (32 word \<times> 32 word) list \<Rightarrow> int" where
  "shown_percentage percentage elapsed rounds =
     (let n = 10 * (length rounds div 10) in
      if n = 0 then percentage
      else sint (word_of_nat (100 * slept (take n rounds) div (elapsed n mod 2 ^ 32)) :: 32 word))"

lemma slept_snoc [simp]: "slept [] = 0" "slept (rounds @ [r]) = slept rounds + unat (fst r)"
  by (simp_all add: slept_def)

lemma idle_run:
  assumes "clock_ok start elapsed rounds" "length rounds < 2 ^ 31" "slept rounds < 2 ^ 57"
  shows "idle start percentage rounds = Inr
    \<lparr> id_start = start, id_sleeping_time = word_of_nat (slept rounds), id_rounds = int (length rounds),
      id_percentage = shown_percentage percentage elapsed rounds \<rparr>"
  using assms
proof (induction rounds rule: rev_induct)
  case Nil
  then show ?case by (simp add: idle_def idle_start_def shown_percentage_def)
next
  case (snoc r rounds)
  let ?n = "length rounds" and ?total = "slept (rounds @ [r])"
  obtain s now where r: "r = (s, now)" by (cases r)
  have clock: "clock_ok start elapsed rounds"
    unfolding clock_ok_def
  proof (intro allI impI)
    fix k assume k: "k < ?n"
    then have "(rounds @ [r]) ! k = rounds ! k" "take (Suc k) (rounds @ [r]) = take (Suc k) rounds" by (simp_all add: nth_append)
    then show "snd (rounds ! k) = start - word_of_nat (elapsed (Suc k)) \<and> slept (take (Suc k) rounds) \<le> elapsed (Suc k) \<and>
        elapsed (Suc k) mod 2 ^ 32 \<noteq> 0"
      using snoc.prems(1) k unfolding clock_ok_def by (metis length_append_singleton less_SucI)
  qed
  have last: "now = start - word_of_nat (elapsed (Suc ?n))" "elapsed (Suc ?n) mod 2 ^ 32 \<noteq> 0"
    using snoc.prems(1) r by (auto simp: clock_ok_def nth_append dest!: spec [of _ ?n])
  have IH: "cfold idle_round (idle_start start percentage) rounds = Inr
      \<lparr> id_start = start, id_sleeping_time = word_of_nat (slept rounds), id_rounds = int ?n,
        id_percentage = shown_percentage percentage elapsed rounds \<rparr>"
    using snoc.IH [OF clock] snoc.prems(2,3) by (simp add: idle_def)
  have time: "(word_of_nat (slept rounds) :: 64 word) + ucast s = word_of_nat ?total"
    by (simp add: r)
  have i: "cint (int ?n + 1) = Inr (int (Suc ?n))" using snoc.prems(2) by (simp add: cint_def)
  have rem: "int (Suc ?n) smod 10 = 0 \<longleftrightarrow> Suc ?n mod 10 = 0"
  proof -
    have "int (Suc ?n) smod 10 = int (Suc ?n) mod 10" by (simp add: signed_modulo_int_def sgn_if)
    also have "\<dots> = int (Suc ?n mod 10)" by (simp only: zmod_int of_nat_numeral)
    finally show ?thesis by (simp only: of_nat_eq_0_iff)
  qed
  have step: "idle start percentage (rounds @ [r]) =
      (let st = \<lparr> id_start = start, id_sleeping_time = word_of_nat ?total, id_rounds = int (Suc ?n),
          id_percentage = shown_percentage percentage elapsed rounds \<rparr> in
       if Suc ?n mod 10 = 0 then
         if start - now = 0 then Inl Undefined_Value
         else Inr (st\<lparr> id_percentage := sint (ucast ((100 * word_of_nat ?total) div ucast (start - now) :: 64 word) :: 32 word) \<rparr>)
       else Inr st)"
    unfolding idle_def cfold_append IH using i rem time by (simp add: idle_round_def r Let_def)
  show ?case
  proof (cases "Suc ?n mod 10 = 0")
    case True
    then have n: "10 * (Suc ?n div 10) = Suc ?n" by (simp add: mult_div_mod_eq [symmetric] dvd_mult_div_cancel mod_eq_0_iff_dvd)
    let ?run = "elapsed (Suc ?n) mod 2 ^ 32"
    have run: "start - now = word_of_nat (elapsed (Suc ?n))" using last(1) by simp
    have unat: "unat (start - now) = ?run" unfolding run by (simp add: unat_of_nat)
    then have nonzero: "start - now \<noteq> 0" using last(2) by auto
    have total: "100 * ?total < 2 ^ 64" using snoc.prems(3) by simp
    have "unat (100 * word_of_nat ?total :: 64 word) = 100 * ?total"
    proof -
      have "unat (word_of_nat (100 * ?total) :: 64 word) = 100 * ?total" unfolding unat_of_nat by (rule mod_less) (use total in simp)
      then show ?thesis by (simp only: of_nat_mult of_nat_numeral)
    qed
    moreover have "unat (ucast (start - now) :: 64 word) = ?run"
    proof -
      have "take_bit 64 (unat (start - now)) = unat (start - now)"
        unfolding unat by (rule take_bit_nat_eq_self, rule less_trans [of _ "2 ^ 32"]) simp_all
      then show ?thesis using unat by (simp add: unsigned_ucast_eq)
    qed
    ultimately have "unat ((100 * word_of_nat ?total) div ucast (start - now) :: 64 word) = 100 * ?total div ?run"
      by (simp add: unat_div_distrib)
    then have "(ucast ((100 * word_of_nat ?total) div ucast (start - now) :: 64 word) :: 32 word) = word_of_nat (100 * ?total div ?run)"
      by (metis of_nat_unat)
    then show ?thesis
      unfolding step using True nonzero n by (simp add: shown_percentage_def Let_def)
  next
    case False
    then have "10 * (Suc ?n div 10) = 10 * (?n div 10)" by (simp add: div_Suc)
    moreover have "10 * (?n div 10) \<le> ?n" by simp
    ultimately have "shown_percentage percentage elapsed (rounds @ [r]) = shown_percentage percentage elapsed rounds"
      by (simp add: shown_percentage_def Let_def)
    then show ?thesis unfolding step using False by simp
  qed
qed



end
