(* ===== verification/Terminal.thy ===== *)
theory Terminal
  imports Uartserver Screen_Properties
begin

section \<open>The clients take turns on the screen\<close>

text \<open>
  The lock of the terminal server (src/user/uartserver.c) and the clients that print through it (src/common/kprintf.c): a client's turn is what it
  sends up to a \<open>ReleaseUartLock\<close>. The first component of \<open>turns\<close> are the turns that are over, the second what has been sent in the turn
  that is going on.
\<close>

type_synonym client_request = "uartserver_request_type \<times> int"

fun turn :: "8 word list list \<times> 8 word list \<Rightarrow> client_request \<Rightarrow> 8 word list list \<times> 8 word list" where
  "turn (over, now) (SEND_CHAR, data) = (over, now @ [word_of_int data])"
| "turn (over, now) (RELEASE_LOCK, data) = (over @ [now], [])"
| "turn (over, now) _ = (over, now)"

definition turns :: "client_request list \<Rightarrow> 8 word list list \<times> 8 word list" where
  "turns reqs = foldl turn ([], []) reqs"

definition requests_of :: "int \<Rightarrow> tx_request list \<Rightarrow> client_request list" where
  "requests_of c reqs = map (\<lambda>(_, type, data, _). (type, data)) (filter (\<lambda>(client, _). client = c) reqs)"

text \<open>The characters put on the line, and those of a list of turns, each with the client whose turn it was.\<close>

definition line_text :: "uart_act list \<Rightarrow> 8 word list" where
  "line_text outs = concat (map (\<lambda>a. case a of Put c \<Rightarrow> [c] | Answer _ _ \<Rightarrow> []) outs)"

definition in_turns :: "(int \<times> 8 word list) list \<Rightarrow> (int \<times> 8 word) list" where
  "in_turns ts = concat (map (\<lambda>(c, chars). map (Pair c) chars) ts)"

definition turns_of :: "int \<Rightarrow> (int \<times> 8 word list) list \<Rightarrow> 8 word list list" where
  "turns_of c ts = map snd (filter (\<lambda>t. fst t = c) ts)"

text \<open>What printing asks of the server.\<close>

fun print_requests :: "print_act list \<Rightarrow> client_request list" where
  "print_requests [] = []"
| "print_requests (Put_Char _ c # acts) = Putc (of_char c) # print_requests acts"
| "print_requests (Give_Back _ # acts) = ReleaseUartLock # print_requests acts"
| "print_requests (Bw_Put _ # acts) = print_requests acts"

lemma turns_snoc [simp]: "turns [] = ([], [])" "turns (reqs @ [req]) = turn (turns reqs) req"
  by (simp_all add: turns_def)

lemma requests_of_snoc [simp]:
  "requests_of c [] = []"
  "requests_of c (reqs @ [(client, type, data, w)]) = requests_of c reqs @ (if client = c then [(type, data)] else [])"
  by (simp_all add: requests_of_def)

lemma line_text_simps [simp]:
  "line_text [] = []" "line_text (Put c # outs) = c # line_text outs" "line_text (Answer t i # outs) = line_text outs"
  "line_text (outs @ outs') = line_text outs @ line_text outs'"
  by (simp_all add: line_text_def)

lemma in_turns_append [simp]: "in_turns [] = []" "in_turns (ts @ ts') = in_turns ts @ in_turns ts'" "in_turns [(c, cs)] = map (Pair c) cs"
  by (simp_all add: in_turns_def)

lemma turns_of_snoc [simp]: "turns_of c [] = []" "turns_of c (ts @ [(c', cs)]) = turns_of c ts @ (if c' = c then [cs] else [])"
  by (simp_all add: turns_of_def)

lemma map_snd_in_turns: "map snd (in_turns ts) = concat (map snd ts)"
  by (induction ts) (auto simp: in_turns_def comp_def)

text \<open>What \<open>tx_step_ok\<close> does not say of a step.\<close>

lemma tx_step_line:
  assumes "uart2_tx_step st client type data w = Inr (outs, st')"
  shows "line_text outs = map snd (written outs)" "type = RELEASE_LOCK \<Longrightarrow> written outs = []"
    "tx_owner st' = -1 \<Longrightarrow> (type = SEND_CHAR \<longrightarrow> client \<noteq> -1) \<Longrightarrow> written outs = []"
  using assms
  by (auto simp: uart2_tx_step_def uart2_tx_send_def uart2_tx_notified_def uart2_tx_release_def unpark_com2_tx_notifier_def c_simps Let_def
      split: uartserver_request_type.splits if_splits prod.splits)

lemma tx_run_snoc:
  "uart2_tx_run st (reqs @ [(client, type, data, w)]) =
     cbind (uart2_tx_run st reqs) (\<lambda>(outs, st').
     cbind (uart2_tx_step st' client type data w) (\<lambda>(out, st''). Inr (outs @ [out], st'')))"
  by (induction st reqs rule: uart2_tx_run.induct) (auto simp: c_simps cbind_def split: sum.splits prod.splits)

text \<open>The turns that are over and the one of the owner of the line account for everything written.\<close>

definition taking_turns :: "tx_request list \<Rightarrow> (int \<times> 8 word) list \<Rightarrow> uart2_tx \<Rightarrow> (int \<times> 8 word list) list \<Rightarrow> 8 word list \<Rightarrow> bool" where
  "taking_turns reqs line st ts cs \<longleftrightarrow>
     line = in_turns ts @ map (Pair (tx_owner st)) cs \<and> (tx_owner st = -1 \<longrightarrow> cs = []) \<and>
     (\<forall>c. 0 \<le> c \<and> c < int MAX_CAPACITY \<longrightarrow>
        turns (requests_of c reqs) = (turns_of c ts, (if c = tx_owner st then cs else []) @ tx_kept st c))"

lemma written_all:
  "\<forall>(c, ch) \<in> set (written outs). c = a \<Longrightarrow> written outs = map (Pair a) (written_for a outs)"
  "\<forall>(c, ch) \<in> set (written outs). c = a \<Longrightarrow> c \<noteq> a \<Longrightarrow> written_for c outs = []"
proof -
  have "\<forall>(c, ch) \<in> set ws. c = a \<Longrightarrow> ws = map (Pair a) (map snd (filter (\<lambda>(client, ch). client = a) ws))" for ws :: "(int \<times> 8 word) list"
    by (induction ws) auto
  then show "\<forall>(c, ch) \<in> set (written outs). c = a \<Longrightarrow> written outs = map (Pair a) (written_for a outs)"
    unfolding written_for_def .
  show "\<forall>(c, ch) \<in> set (written outs). c = a \<Longrightarrow> c \<noteq> a \<Longrightarrow> written_for c outs = []"
    by (auto simp: written_for_def filter_empty_conv)
qed

lemma turn_no_release:
  assumes "type \<noteq> RELEASE_LOCK"
  shows "turns (requests_of c (reqs @ [(client, type, data, w)])) =
    (fst (turns (requests_of c reqs)), snd (turns (requests_of c reqs)) @ sent_by c [(client, type, data, w)])"
  using assms by (cases type; cases "turns (requests_of c reqs)") (simp_all add: sent_by_def)

lemma taking_turns_step:
  assumes ok: "tx_ok st" and allowed: "tx_allowed st (client, type, data, w)"
    and turns: "taking_turns reqs line st ts cs"
    and run: "uart2_tx_step st client type data w = Inr (outs, st')" and step: "tx_step_ok st (client, type, data, w) outs st'"
  shows "\<exists>ts' cs'. taking_turns (reqs @ [(client, type, data, w)]) (line @ written outs) st' ts' cs'"
proof (cases "type = RELEASE_LOCK")
  case True
  have own: "client = tx_owner st" "tx_kept st client = []" "client < int MAX_CAPACITY"
    using allowed True by (auto simp: tx_allowed_def tx_kept_def)
  have none: "written outs = []" using tx_step_line(2) [OF run True] .
  then have kept: "tx_kept st' c = tx_kept st c" if "0 \<le> c \<and> c < int MAX_CAPACITY" for c
    using step that True by (simp add: tx_step_ok_def written_for_def sent_by_def)
  have "taking_turns (reqs @ [(client, type, data, w)]) (line @ written outs) st' (ts @ [(client, cs)]) []"
    using turns own none kept True by (auto simp: taking_turns_def)
  then show ?thesis by blast
next
  case False
  let ?cs = "cs @ written_for (tx_owner st') outs"
  have all: "\<forall>(c, ch) \<in> set (written outs). c = tx_owner st'" using step by (simp add: tx_step_ok_def)
  have owner: "tx_owner st \<noteq> -1 \<Longrightarrow> tx_owner st' = tx_owner st" using step False by (simp add: tx_step_ok_def)
  have "line @ written outs = in_turns ts @ map (Pair (tx_owner st')) ?cs"
  proof -
    have "map (Pair (tx_owner st)) cs = map (Pair (tx_owner st')) cs"
      using owner turns by (cases "tx_owner st = -1") (auto simp: taking_turns_def)
    then show ?thesis using turns written_all(1) [OF all] by (simp add: taking_turns_def)
  qed
  moreover have "?cs = []" if "tx_owner st' = -1"
  proof -
    have "tx_owner st = -1" using owner that by (cases "tx_owner st = -1") auto
    moreover have "written outs = []" by (rule tx_step_line(3) [OF run that]) (use allowed in \<open>auto simp: tx_allowed_def\<close>)
    ultimately show ?thesis using turns by (simp add: taking_turns_def written_for_def)
  qed
  moreover have "turns (requests_of c (reqs @ [(client, type, data, w)])) =
      (turns_of c ts, (if c = tx_owner st' then ?cs else []) @ tx_kept st' c)" if c: "0 \<le> c \<and> c < int MAX_CAPACITY" for c
  proof -
    have "turns (requests_of c reqs) = (turns_of c ts, (if c = tx_owner st then cs else []) @ tx_kept st c)"
      using turns c unfolding taking_turns_def by blast
    moreover have "(if c = tx_owner st then cs else []) = (if c = tx_owner st' then cs else [])"
      using owner turns by (cases "tx_owner st = -1") (auto simp: taking_turns_def)
    moreover have "tx_kept st c @ sent_by c [(client, type, data, w)] = written_for c outs @ tx_kept st' c"
      using step c unfolding tx_step_ok_def by metis
    moreover have "c \<noteq> tx_owner st' \<Longrightarrow> written_for c outs = []" by (rule written_all(2) [OF all])
    ultimately show ?thesis using turn_no_release [OF False, of c reqs client data w] by auto
  qed
  ultimately have "taking_turns (reqs @ [(client, type, data, w)]) (line @ written outs) st' ts ?cs"
    by (simp add: taking_turns_def)
  then show ?thesis by blast
qed

lemma taking_turns_run:
  assumes "tx_ok st0" "\<And>c. 0 \<le> c \<and> c < int MAX_CAPACITY \<Longrightarrow> tx_kept st0 c = []" "tx_sequence st0 reqs"
  shows "\<exists>outs st ts cs. uart2_tx_run st0 reqs = Inr (outs, st) \<and> tx_ok st \<and> taking_turns reqs (concat (map written outs)) st ts cs \<and>
    line_text (concat outs) = map snd (concat (map written outs))"
  using assms(3)
proof (induction reqs rule: rev_induct)
  case Nil
  have "taking_turns [] [] st0 [] []" using assms(2) by (simp add: taking_turns_def)
  then show ?case using assms(1) by (intro exI conjI) auto
next
  case (snoc req reqs)
  obtain client type data w where req: "req = (client, type, data, w)" by (cases req)
  obtain outs st ts cs where IH: "uart2_tx_run st0 reqs = Inr (outs, st)" "tx_ok st" "taking_turns reqs (concat (map written outs)) st ts cs"
    "line_text (concat outs) = map snd (concat (map written outs))"
    using snoc.IH [OF tx_sequence_append(1) [OF snoc.prems]] by blast
  have allowed: "tx_allowed st (client, type, data, w)"
    using tx_sequence_append(2) [OF snoc.prems IH(1)] req by simp
  from tx_step_ok [OF IH(2) allowed]
  obtain out st' where step: "uart2_tx_step st client type data w = Inr (out, st')" "tx_step_ok st (client, type, data, w) out st'" .
  from taking_turns_step [OF IH(2) allowed IH(3) step]
  obtain ts' cs' where "taking_turns (reqs @ [req]) (concat (map written (outs @ [out]))) st' ts' cs'" using req by auto
  moreover have "uart2_tx_run st0 (reqs @ [req]) = Inr (outs @ [out], st')" using IH(1) step(1) by (simp add: req tx_run_snoc)
  moreover have "tx_ok st'" using step(2) by (simp add: tx_step_ok_def)
  moreover have "line_text (concat (outs @ [out])) = map snd (concat (map written (outs @ [out])))"
    using IH(4) tx_step_line(1) [OF step(1)] by simp
  ultimately show ?case by blast
qed

lemma turns_texts:
  "turns (print_requests (concat (map (\<lambda>t. map (Put_Char u) t @ [Give_Back u]) texts))) = (map (map of_char) texts, [])"
proof -
  have put: "foldl turn (over, now) (print_requests (map (Put_Char u) t @ acts)) = foldl turn (over, now @ map of_char t) (print_requests acts)"
    for over now t acts
    by (induction t arbitrary: now) (simp_all add: Putc_def)
  have "foldl turn (over, []) (print_requests (concat (map (\<lambda>t. map (Put_Char u) t @ [Give_Back u]) texts))) = (over @ map (map of_char) texts, [])"
    for over
    by (induction texts arbitrary: over) (simp_all add: put ReleaseUartLock_def del: map_append)
  then show ?thesis by (simp add: turns_def)
qed

text \<open>
  C27: On the screen no client writes into the text of another: what the terminal server puts on the line, for any sequence of requests the
  kernel lets the clients make, are the whole turns of the clients one after the other, and then what the owner of the line has written in the
  turn it has begun. The turns of each client are what it has sent between its releases, in order. So a client that prints texts with \<open>printf\<close> and gives
  the line back after each has exactly these texts, each in one piece, on the screen.
\<close>

theorem terminal_turns:
  assumes "MAX_CAPACITY \<le> length stack" "tx_sequence (uart2_tx_init stack) reqs"
  shows "\<exists>outs st ts cs. uart2_tx_run (uart2_tx_init stack) reqs = Inr (outs, st) \<and>
    concat (map written outs) = in_turns ts @ map (Pair (tx_owner st)) cs \<and>
    line_text (concat outs) = concat (map snd ts) @ cs \<and>
    (\<forall>c. 0 \<le> c \<and> c < int MAX_CAPACITY \<longrightarrow>
      turns (requests_of c reqs) = (turns_of c ts, (if c = tx_owner st then cs else []) @ tx_kept st c) \<and>
      (\<forall>u texts. requests_of c reqs = print_requests (concat (map (\<lambda>t. map (Put_Char u) t @ [Give_Back u]) texts)) \<longrightarrow>
         turns_of c ts = map (map of_char) texts \<and> (c = tx_owner st \<longrightarrow> cs = [])))"
proof -
  have init: "tx_kept (uart2_tx_init stack) c = []" if "0 \<le> c \<and> c < int MAX_CAPACITY" for c
  proof -
    have "nat c < MAX_CAPACITY" using that by linarith
    then show ?thesis by (simp add: tx_kept_def uart2_tx_init_def nth_append)
  qed
  obtain outs st ts cs where run: "uart2_tx_run (uart2_tx_init stack) reqs = Inr (outs, st)"
      "taking_turns reqs (concat (map written outs)) st ts cs" "line_text (concat outs) = map snd (concat (map written outs))"
    using taking_turns_run [OF tx_init_ok [OF assms(1)] init assms(2)] by blast
  have line: "concat (map written outs) = in_turns ts @ map (Pair (tx_owner st)) cs" using run(2) by (simp add: taking_turns_def)
  then have "line_text (concat outs) = concat (map snd ts) @ cs" using run(3) by (simp add: map_snd_in_turns comp_def)
  moreover have each: "turns (requests_of c reqs) = (turns_of c ts, (if c = tx_owner st then cs else []) @ tx_kept st c)"
    if "0 \<le> c \<and> c < int MAX_CAPACITY" for c
    using run(2) that unfolding taking_turns_def by blast
  moreover have "turns_of c ts = map (map of_char) texts \<and> (c = tx_owner st \<longrightarrow> cs = [])"
    if "0 \<le> c \<and> c < int MAX_CAPACITY" "requests_of c reqs = print_requests (concat (map (\<lambda>t. map (Put_Char u) t @ [Give_Back u]) texts))"
    for c u texts
    using each [OF that(1)] turns_texts [of u texts] that(2) by auto
  ultimately show ?thesis using run(1) line by blast
qed

lemma terminal_turns_witness:
  "\<exists>outs st ts cs. uart2_tx_run (uart2_tx_init (replicate 125 0))
      [(5, SEND_CHAR, 65, True), (6, SEND_CHAR, 66, True), (5, SEND_CHAR, 67, True), (5, RELEASE_LOCK, 0, True), (3, NOTIFIER_TX_GOOD, 0, True),
       (6, RELEASE_LOCK, 0, True)] = Inr (outs, st) \<and>
    line_text (concat outs) = concat (map snd ts) @ cs \<and>
    turns_of 5 ts = map (map of_char) [''AC''] \<and> turns_of 6 ts = map (map of_char) [''B'']"
proof -
  let ?reqs = "[(5, SEND_CHAR, 65, True), (6, SEND_CHAR, 66, True), (5, SEND_CHAR, 67, True), (5, RELEASE_LOCK, 0, True), (3, NOTIFIER_TX_GOOD, 0, True),
       (6, RELEASE_LOCK, 0, True)] :: tx_request list"
  have "replicate 100 0 @ replicate 25 0 = (replicate 125 0 :: 8 word list)" by (simp flip: replicate_add)
  then have seq: "tx_sequence (uart2_tx_init (replicate 125 0)) ?reqs"
    by (simp add: uart2_tx_init_def tx_allowed_def uart2_tx_step_def uart2_tx_send_def uart2_tx_notified_def uart2_tx_release_def Let_def
        MAX_CAPACITY_def cb_push_back_def cb_pop_front_def cb_init_def unpark_com2_tx_notifier_def wri_def rdi_def kassert_def CB_EMPTY_def)
  have print: "requests_of 5 ?reqs = print_requests (concat (map (\<lambda>t. map (Put_Char 2) t @ [Give_Back 2]) [''AC'']))"
    "requests_of 6 ?reqs = print_requests (concat (map (\<lambda>t. map (Put_Char 2) t @ [Give_Back 2]) [''B'']))"
    by (simp_all add: requests_of_def Putc_def ReleaseUartLock_def)
  have "MAX_CAPACITY \<le> length (replicate 125 (0 :: 8 word))" by (simp add: MAX_CAPACITY_def)
  note run = terminal_turns [OF this seq]
  have "0 \<le> (5 :: int) \<and> 5 < int MAX_CAPACITY" "0 \<le> (6 :: int) \<and> 6 < int MAX_CAPACITY" by (simp_all add: MAX_CAPACITY_def)
  then show ?thesis using run print by metis
qed

end
