(* ===== verification/Shell_Screen.thy ===== *)
theory Shell_Screen
  imports Shell Printers
begin

section \<open>What the shell puts on the screen (src/user/shell.c)\<close>

text \<open>
  The drawing of the shell: the banner, the line that is typed, and the messages below. \<open>buf\<close> is \<open>debug_buffer\<close>, a hundred bytes on the stack into
  which messages are written before they are shown; it goes along with the console.
\<close>

definition hide_cursor :: "'d double_ops \<Rightarrow> int \<Rightarrow> console \<Rightarrow> console cres" where
  "hide_cursor fp server = in_turn [print2 fp server (ESC # ''[?25l'') [], done_print]"

definition print_input :: "'d double_ops \<Rightarrow> int \<Rightarrow> char list \<Rightarrow> nat \<Rightarrow> console \<Rightarrow> console cres" where
  "print_input fp server line input_length =
     in_turn
       ([cursor_to_pos fp server INPUT_ROW INPUT_COL INPUT_WIDTH,
         print2 fp server (ESC # ''[35m'') [],
         print2 fp server ''>'' []] @
        map (\<lambda>i con. cbind (rd line i) (\<lambda>c. print2 fp server ''%c'' [vchar c] con)) [0..<input_length] @
        [print2 fp server ''_'' [],
         print2 fp server (ESC # ''[0m'') [],
         print2 fp server crlf [],
         done_print])"

definition print_debug :: "'d double_ops \<Rightarrow> int \<Rightarrow> char list \<Rightarrow> console \<Rightarrow> console cres" where
  "print_debug fp server input =
     in_turn
       [cursor_to_pos fp server LOG_ROW LOG_COL LOG_WIDTH,
        print2 fp server (ESC # ''[32m'') [],
        print2 fp server ''%s'' [VString input],
        print2 fp server (ESC # ''[0m'') [],
        print2 fp server crlf [],
        done_print]"

text \<open>The screen at the start, and the tasks \<open>shell_init\<close> creates, with their priorities.\<close>

definition shell_init :: "'d double_ops \<Rightarrow> int \<Rightarrow> console \<Rightarrow> (console \<times> (int \<times> string) list) cres" where
  "shell_init fp server con =
     cbind (in_turn
       [clear_screen fp server To_COM2,
        print2 fp server (ESC # ''[%d;%dr'') [vint (DEBUG_TABLE_ROW_BEGIN + 1), vint (DEBUG_TABLE_ROW_BEGIN + DEBUG_TABLE_HEIGHT)],
        cursor_to_pos fp server DEBUG_TABLE_ROW_BEGIN DEBUG_TABLE_COL DEBUG_TABLE_WIDTH,
        print2 fp server (''[ Debug Prints ]'' @ crlf) [],
        done_print] con) (\<lambda>con'.
       Inr (con', [(5, ''TimerPrinter''), (5, ''SensorPrinter''), (5, ''TrainstatePrinter''), (5, ''ReservationPrinter''), (5, ''SwitchPrinter''),
         (5, ''SubscribePrinter''), (6, ''Shell'')]))"

definition christmas_line :: "'d double_ops \<Rightarrow> int \<Rightarrow> (console \<Rightarrow> console cres) list" where
  "christmas_line fp server =
     map (\<lambda>i. print2 fp server (ESC # ''[%dm='' @ ESC # ''[0m'') [vint ([32, 37, 31] ! (i mod 3))]) [0..<35]"

definition print_art :: "'d double_ops \<Rightarrow> int \<Rightarrow> char \<Rightarrow> console \<Rightarrow> console cres" where
  "print_art fp server which_track =
     in_turn
       ([cursor_to_pos fp server ART_ROW ART_COL LINE_WIDTH] @
        christmas_line fp server @
        [print2 fp server crlf [],
         print2 fp server (''|  The Polling Express (Track %c)  |'' @ crlf) [vchar which_track],
         print2 fp server (''|       By Edwin Z, Bill C        |'' @ crlf) []] @
        christmas_line fp server @
        [done_print])"

subsection \<open>Messages\<close>

text \<open>\<open>sprintf(debug_buffer, ...)\<close>, then \<open>print_debug(debug_buffer)\<close>.\<close>

definition print_debugf ::
  "'d double_ops \<Rightarrow> int \<Rightarrow> string \<Rightarrow> 'd va list \<Rightarrow> char list \<times> console \<Rightarrow> (char list \<times> console) cres" where
  "print_debugf fp server format va = (\<lambda>(buf, con).
     cbind (sprintf fp buf (lit format) va) (\<lambda>(s, _).
     let buf' = (case s of Out_Buffer b \<Rightarrow> b | _ \<Rightarrow> buf) in
       cbind (print_debug fp server buf' con) (\<lambda>con'. Inr (buf', con'))))"

definition go_to_echo :: "'d double_ops \<Rightarrow> int \<Rightarrow> track_node list \<Rightarrow> int \<Rightarrow> int \<Rightarrow> int \<Rightarrow> char list \<times> console \<Rightarrow> (char list \<times> console) cres" where
  "go_to_echo fp server t train dest offset s =
     cbind (v_p_train_num train) (\<lambda>p. cbind (node_string t dest) (\<lambda>name.
       print_debugf fp server (''Train %d go to %s + %d'' @ crlf) [vint p, name, vint offset] s))"

text \<open>What is shown when a command is queued.\<close>

fun print_echo :: "'d double_ops \<Rightarrow> int \<Rightarrow> track_node list \<Rightarrow> command \<Rightarrow> char list \<times> console \<Rightarrow> (char list \<times> console) cres" where
  "print_echo fp server t (COMMAND_TR train speed) s =
     cbind (v_p_train_num train) (\<lambda>p. print_debugf fp server (''SPEED %d %d'' @ crlf) [vint p, vint speed] s)"
| "print_echo fp server t (COMMAND_SW switch_num orientation) s =
     print_debugf fp server (''SWITCH %d %c'' @ crlf) [vint switch_num, vchar orientation] s"
| "print_echo fp server t (COMMAND_RV train) s =
     cbind (v_p_train_num train) (\<lambda>p. print_debugf fp server (''REVERSE %d'' @ crlf) [vint p] s)"
| "print_echo fp server t COMMAND_Q (buf, con) = cbind (print_debug fp server (lit ''QUIT'') con) (\<lambda>con'. Inr (buf, con'))"
| "print_echo fp server t (COMMAND_GT train dest offset) s = go_to_echo fp server t train dest offset s"
| "print_echo fp server t COMMAND_DIE s = Inr s"
| "print_echo fp server t (COMMAND_REG train source) s =
     cbind (v_p_train_num train) (\<lambda>p. cbind (node_string t source) (\<lambda>name.
       print_debugf fp server (''Reg train %d at %s '' @ crlf) [vint p, name] s))"
| "print_echo fp server t (COMMAND_MOCK sensor) s =
     cbind (node_string t sensor) (\<lambda>name. print_debugf fp server (''Mocking Sensor Trigger [%s] '' @ crlf) [name] s)"
| "print_echo fp server t (COMMAND_RANDOM train type) s =
     print_debugf fp server (''Starting random pathfinding %d with %d, fingers crossed'' @ crlf) [vint type, vint train] s"

definition print_verdict :: "'d double_ops \<Rightarrow> int \<Rightarrow> track_node list \<Rightarrow> verdict \<Rightarrow> char list \<times> console \<Rightarrow> (char list \<times> console) cres" where
  "print_verdict fp server t v s = (case v of Queue c \<Rightarrow> print_echo fp server t c s | _ \<Rightarrow> Inr s)"

text \<open>
  The messages among what is sent. A request to drive somewhere is followed by a message why the navigation server refuses it, or
  by none, and is then shown itself.
\<close>

fun print_acts :: "'d double_ops \<Rightarrow> int \<Rightarrow> track_node list \<Rightarrow> shell_act list \<Rightarrow> char list \<times> console \<Rightarrow> (char list \<times> console) cres" where
  "print_acts fp server t [] s = Inr s"
| "print_acts fp server t (Shell_Debug msg # acts) (buf, con) =
     cbind (print_debug fp server (lit msg) con) (\<lambda>con'. print_acts fp server t acts (buf, con'))"
| "print_acts fp server t (Shell_Navigation (NAVIGATION_REQUEST train dest offset hang) # acts) s =
     (case acts of
        Shell_Debug _ # _ \<Rightarrow> print_acts fp server t acts s
      | _ \<Rightarrow> cbind (go_to_echo fp server t train dest offset s) (print_acts fp server t acts))"
| "print_acts fp server t (_ # acts) s = print_acts fp server t acts s"

subsection \<open>A turn of the loop with its drawing\<close>

text \<open>The old message goes; the line is drawn whenever it has changed.\<close>

definition key_drawn :: "char \<Rightarrow> shell \<Rightarrow> bool" where
  "key_drawn c st \<longleftrightarrow> sh_len st \<noteq> TERMINALMAXINPUTSIZE \<and> (c = CHR 0x08 \<longrightarrow> 0 < sh_len st)"

definition shell_turn ::
  "'d double_ops \<Rightarrow> int \<Rightarrow> track_node list \<Rightarrow> (nat \<Rightarrow> int) \<Rightarrow> (nat \<Rightarrow> navigation_response) \<Rightarrow> char \<Rightarrow> shell \<Rightarrow> char list \<times> console \<Rightarrow>
     (shell \<times> shell_act list \<times> (char list \<times> console)) cres" where
  "shell_turn fp server t clock nav c st = (\<lambda>(buf, con).
     cbind (print_debug fp server (lit '''') con) (\<lambda>con1.
     cbind (handle_new_char c st (replicate MAX_COMMAND_TOKENS None)) (\<lambda>(entered, st1, tokens).
     cbind (if key_drawn c st then print_input fp server (sh_input st1) (sh_len st1) con1 else Inr con1) (\<lambda>con2.
       if entered then
         cbind (parse_command t (token (sh_input st1) tokens)) (\<lambda>v.
         cbind (print_verdict fp server t v (buf, con2)) (\<lambda>s1.
         cbind (obey t clock nav v st1) (\<lambda>(st2, acts).
         cbind (print_acts fp server t acts s1) (\<lambda>s2. Inr (st2, acts, s2)))))
       else Inr (st1, [], buf, con2)))))"

end
