(* ===== verification/Shell_Screen_Properties.thy ===== *)
theory Shell_Screen_Properties
  imports Shell_Screen Printer_Properties
begin

section \<open>What the user sees while typing\<close>

subsection \<open>Messages\<close>

text \<open>A console after texts, each given to the line in one turn.\<close>

definition shown :: "int \<Rightarrow> string list \<Rightarrow> console \<Rightarrow> console" where
  "shown server texts con =
     \<lparr> con_uart = if texts = [] then con_uart con else server,
       con_acts = con_acts con @ concat (map (\<lambda>t. map (Put_Char server) t @ [Give_Back server]) texts) \<rparr>"

lemma shown_append: "shown server ts (shown server ss con) = shown server (ss @ ts) con"
  by (simp add: shown_def)

lemma shown_Nil [simp]: "shown server [] con = con"
  by (simp add: shown_def)

lemma shows_shown: "shows_text server text p \<Longrightarrow> p con = Inr (shown server [text] con)"
  by (simp add: shows_text_def shown_def)

definition log_text :: "string \<Rightarrow> string" where
  "log_text s = cursor_text LOG_ROW LOG_COL LINE_WIDTH @ ESC # ''[32m'' @ s @ ESC # ''[0m'' @ crlf"

definition input_text :: "string \<Rightarrow> string" where
  "input_text line = cursor_text INPUT_ROW INPUT_COL LINE_WIDTH @ ESC # ''[35m'' @ ''>'' @ filter (\<lambda>c. c \<noteq> NUL) line @ ''_'' @ ESC # ''[0m'' @ crlf"

lemma literal_sends: "0 \<le> server \<Longrightarrow> NUL \<notin> set s \<Longrightarrow> CHR ''%'' \<notin> set s \<Longrightarrow> sends server s (print2 fp server s [])"
proof (intro print2_sends)
  have "NUL \<notin> set s \<Longrightarrow> CHR ''%'' \<notin> set s \<Longrightarrow> gives fp (s @ [NUL]) [] s" for s :: string
    by (induction s) (auto simp: gives_end gives_plain)
  then show "NUL \<notin> set s \<Longrightarrow> CHR ''%'' \<notin> set s \<Longrightarrow> gives fp (lit s) [] s" by (simp add: lit_def)
qed

lemma print_debug_shows:
  assumes "terminated s" "0 \<le> server"
  shows "shows_text server (log_text (cstr s)) (print_debug fp server s)"
proof -
  have cursor: "sends server (cursor_text LOG_ROW LOG_COL LINE_WIDTH) (cursor_to_pos fp server LOG_ROW LOG_COL LOG_WIDTH)"
    using assms(2) cursor_sends [of server LOG_ROW LOG_COL LINE_WIDTH fp] by (simp add: layout_defs)
  have body: "sends server (cstr s) (print2 fp server ''%s'' [VString s])"
    using assms gives_string [OF assms(1) gives_end, of fp "[]"] by (intro print2_sends) (simp_all add: lit_def)
  have lits: "sends server (ESC # ''[32m'') (print2 fp server (ESC # ''[32m'') [])" "sends server (ESC # ''[0m'') (print2 fp server (ESC # ''[0m'') [])"
    "sends server crlf (print2 fp server crlf [])"
    using assms(2) by (intro literal_sends; simp)+
  show ?thesis
    using assms(2) sends_apply [OF cursor] sends_apply [OF body] sends_apply [OF lits(1)] sends_apply [OF lits(2)] sends_apply [OF lits(3)]
    by (simp add: shows_text_def print_debug_def log_text_def done_print_def)
qed

lemma print_input_shows:
  assumes "n \<le> length line" "0 \<le> server"
  shows "shows_text server (input_text (take n line)) (print_input fp server line n)"
proof -
  have cursor: "sends server (cursor_text INPUT_ROW INPUT_COL LINE_WIDTH) (cursor_to_pos fp server INPUT_ROW INPUT_COL INPUT_WIDTH)"
    using assms(2) cursor_sends [of server INPUT_ROW INPUT_COL LINE_WIDTH fp] by (simp add: layout_defs)
  have lits: "sends server (ESC # ''[35m'') (print2 fp server (ESC # ''[35m'') [])" "sends server ''>'' (print2 fp server ''>'' [])"
    "sends server ''_'' (print2 fp server ''_'' [])" "sends server (ESC # ''[0m'') (print2 fp server (ESC # ''[0m'') [])"
    "sends server crlf (print2 fp server crlf [])"
    using assms(2) by (intro literal_sends; simp)+
  have char: "sends server (filter (\<lambda>c. c \<noteq> NUL) [c]) (print2 fp server ''%c'' [vchar c])" for c
    using assms(2) gives_char [OF gives_end, of fp c "[]"] by (intro print2_sends_all) (simp_all add: lit_def)
  have one: "cbind (rd line i) (\<lambda>c. print2 fp server ''%c'' [vchar c] con) =
      Inr \<lparr> con_uart = server, con_acts = con_acts con @ map (Put_Char server) (filter (\<lambda>c. c \<noteq> NUL) [line ! i]) \<rparr>"
    if "i \<in> set [0..<n]" "con_uart con = server" for i con
    using that assms(1) sends_apply [OF char [of "line ! i"]] by simp
  have "concat (map (\<lambda>i. filter (\<lambda>c. c \<noteq> NUL) [line ! i]) [0..<n]) = filter (\<lambda>c. c \<noteq> NUL) (take n line)"
    using assms(1)
  proof (induction n)
    case (Suc n)
    then show ?case by (simp add: take_Suc_conv_app_nth)
  qed simp
  then have chars: "in_turn (map (\<lambda>i con. cbind (rd line i) (\<lambda>c. print2 fp server ''%c'' [vchar c] con)) [0..<n]) con =
      Inr \<lparr> con_uart = server, con_acts = con_acts con @ map (Put_Char server) (filter (\<lambda>c. c \<noteq> NUL) (take n line)) \<rparr>"
    if "con_uart con = server" for con
    using in_turn_on [of "[0..<n]" server "\<lambda>i con. cbind (rd line i) (\<lambda>c. print2 fp server ''%c'' [vchar c] con)" "\<lambda>i. filter (\<lambda>c. c \<noteq> NUL) [line ! i]", OF one that]
    by simp
  show ?thesis
    unfolding shows_text_def print_input_def in_turn_append
    using assms(2) sends_apply [OF cursor] sends_apply [OF lits(1)] sends_apply [OF lits(2)] sends_apply [OF lits(3)] sends_apply [OF lits(4)]
      sends_apply [OF lits(5)]
    by (simp add: chars input_text_def done_print_def)
qed

text \<open>A step that shows texts, one after the other, whatever \<open>debug_buffer\<close> holds.\<close>

definition tells :: "int \<Rightarrow> string list \<Rightarrow> (char list \<times> console \<Rightarrow> (char list \<times> console) cres) \<Rightarrow> bool" where
  "tells server texts f \<longleftrightarrow>
     (\<forall>buf con. length buf = 100 \<longrightarrow> (\<exists>buf'. length buf' = 100 \<and> f (buf, con) = Inr (buf', shown server texts con)))"

lemma tells_Inr: "tells server [] Inr"
  by (simp add: tells_def)

lemma tells_bind: "tells server xs f \<Longrightarrow> tells server ys g \<Longrightarrow> tells server (xs @ ys) (\<lambda>s. cbind (f s) g)"
  unfolding tells_def by (metis cbind_simps(2) shown_append)

lemma tells_literal:
  assumes "0 \<le> server" "NUL \<notin> set s"
  shows "tells server [log_text s] (\<lambda>(buf, con). cbind (print_debug fp server (lit s) con) (\<lambda>con'. Inr (buf, con')))"
proof -
  have "print_debug fp server (lit s) con = Inr (shown server [log_text s] con)" for con
    using shows_shown [OF print_debug_shows [OF terminated_lit assms(1), of s fp], of con] assms(2) by simp
  then show ?thesis by (simp add: tells_def)
qed

lemma tells_format:
  assumes "gives fp (lit format) va s" "NUL \<notin> set s" "length s < 100" "0 \<le> server"
  shows "tells server [log_text s] (print_debugf fp server format va)"
  unfolding tells_def
proof (intro allI impI)
  fix buf :: "char list" and con assume len: "length buf = 100"
  let ?b = "s @ NUL # drop (Suc (length s)) buf"
  have b: "cstr ?b = s" "terminated ?b" using cstr_front [OF assms(2)] by auto
  have "sprintf fp buf (lit format) va = Inr (Out_Buffer ?b, length s)"
    using sprintf_gives [OF assms(1), of buf] assms(3) len by simp
  moreover have "print_debug fp server ?b con = Inr (shown server [log_text s] con)"
    using shows_shown [OF print_debug_shows [OF b(2) assms(4)], where con = con] b(1) by simp
  ultimately have "print_debugf fp server format va (buf, con) = Inr (?b, shown server [log_text s] con)"
    by (simp add: print_debugf_def)
  moreover have "length ?b = 100" using assms(3) len by simp
  ultimately show "\<exists>buf'. length buf' = 100 \<and> print_debugf fp server format va (buf, con) = Inr (buf', shown server [log_text s] con)"
    by blast
qed

subsection \<open>The echo of a command\<close>

text \<open>What the messages need: a node with a name, and a number that is not too long.\<close>

definition named :: "track_node list \<Rightarrow> int \<Rightarrow> bool" where
  "named t i \<longleftrightarrow> 0 \<le> i \<and> nat i < length t \<and> (\<exists>s. n_name (t ! nat i) = Some s \<and> NUL \<notin> set s \<and> length s \<le> 5)"

definition short :: "int \<Rightarrow> bool" where
  "short i \<longleftrightarrow> \<bar>i\<bar> < 10 ^ 9"

fun drawable :: "track_node list \<Rightarrow> command \<Rightarrow> bool" where
  "drawable t (COMMAND_GT train dest offset) \<longleftrightarrow> named t dest \<and> short offset"
| "drawable t (COMMAND_REG train source) \<longleftrightarrow> named t source"
| "drawable t (COMMAND_MOCK sensor) \<longleftrightarrow> named t sensor"
| "drawable t _ \<longleftrightarrow> True"

definition go_to_text :: "track_node list \<Rightarrow> int \<Rightarrow> int \<Rightarrow> int \<Rightarrow> string" where
  "go_to_text t train dest offset = ''Train '' @ train_name train @ '' go to '' @ node_name t dest @ '' + '' @ decimal offset @ crlf"

fun echo_text :: "track_node list \<Rightarrow> command \<Rightarrow> string list" where
  "echo_text t (COMMAND_TR train speed) = [''SPEED '' @ train_name train @ '' '' @ decimal speed @ crlf]"
| "echo_text t (COMMAND_SW n d) = [''SWITCH '' @ decimal n @ '' '' @ [d] @ crlf]"
| "echo_text t (COMMAND_RV train) = [''REVERSE '' @ train_name train @ crlf]"
| "echo_text t COMMAND_Q = [''QUIT'']"
| "echo_text t (COMMAND_GT train dest offset) = [go_to_text t train dest offset]"
| "echo_text t COMMAND_DIE = []"
| "echo_text t (COMMAND_REG train source) = [''Reg train '' @ train_name train @ '' at '' @ node_name t source @ '' '' @ crlf]"
| "echo_text t (COMMAND_MOCK sensor) = [''Mocking Sensor Trigger ['' @ node_name t sensor @ ''] '' @ crlf]"
| "echo_text t (COMMAND_RANDOM train type) = [''Starting random pathfinding '' @ decimal type @ '' with '' @ decimal train @ '', fingers crossed'' @ crlf]"

lemma decimal_length: "short i \<Longrightarrow> length (decimal i) \<le> 10"
  using digits_length [of "nat \<bar>i\<bar>" 9] by (auto simp: decimal_def short_def nat_less_iff abs_if split: if_splits)

lemma short_int: "short i \<Longrightarrow> - (2 ^ 31) < i" "short i \<Longrightarrow> i < 2 ^ 31"
  by (simp_all add: short_def abs_less_iff)

lemma train_number:
  assumes "train_ok train"
  shows "v_p_train_num train = Inr (supported_trains ! nat train)" "short (supported_trains ! nat train)" "short train"
  using assms physical_train [of train] by (simp_all add: train_ok_def short_def MAX_NUM_TRAINS_def)

lemma node_name_ok:
  assumes "named t i"
  shows "node_string t i = Inr (VString (lit (node_name t i)))" "NUL \<notin> set (node_name t i)" "length (node_name t i) \<le> 5"
  using assms by (auto simp: named_def node_string_def node_name_def rdi_def)

lemma go_to_tells:
  assumes "train_ok train" "named t dest" "short offset" "0 \<le> server"
  shows "tells server [log_text (go_to_text t train dest offset)] (go_to_echo fp server t train dest offset)"
proof -
  note train = train_number [OF assms(1)] and node = node_name_ok [OF assms(2)]
  have "tells server [log_text (go_to_text t train dest offset)]
      (print_debugf fp server (''Train %d go to %s + %d'' @ crlf) [vint (supported_trains ! nat train), VString (lit (node_name t dest)), vint offset])"
    using node short_int train(2) assms(3) decimal_length [OF train(2)] decimal_length [OF assms(3)]
    by (intro tells_format assms(4)) (simp_all add: lit_def gives_intros gives_lit [unfolded lit_def] go_to_text_def train_name_def)
  then show ?thesis by (simp add: go_to_echo_def [abs_def] train(1) node(1))
qed

lemma tells_eq: "tells server ts f \<Longrightarrow> ts' = ts \<Longrightarrow> (\<And>s. g s = f s) \<Longrightarrow> tells server ts' g"
  by (simp add: tells_def)

lemma echo_tells:
  assumes "command_ok c" "drawable t c" "0 \<le> server"
  shows "tells server (map log_text (echo_text t c)) (print_echo fp server t c)"
proof (cases c)
  case (COMMAND_TR train speed)
  then have args: "train_ok train" "short speed" using assms(1) by (auto simp: short_def)
  note train = train_number [OF args(1)]
  have "tells server [log_text (hd (echo_text t c))] (print_debugf fp server (''SPEED %d %d'' @ crlf) [vint (supported_trains ! nat train), vint speed])"
    using COMMAND_TR short_int train(2) args(2) decimal_length [OF train(2)] decimal_length [OF args(2)]
    by (intro tells_format assms(3)) (simp_all add: lit_def gives_intros train_name_def)
  then show ?thesis by (rule tells_eq) (simp_all add: COMMAND_TR train(1))
next
  case (COMMAND_SW n d)
  then have n: "short n" "d \<noteq> NUL" using assms(1) by (auto simp: short_def NUM_SWITCHES_def)
  have "tells server [log_text (hd (echo_text t c))] (print_debugf fp server (''SWITCH %d %c'' @ crlf) [vint n, vchar d])"
    using COMMAND_SW n short_int [OF n(1)] decimal_length [OF n(1)] by (intro tells_format assms(3)) (simp_all add: lit_def gives_intros)
  then show ?thesis by (rule tells_eq) (simp_all add: COMMAND_SW)
next
  case (COMMAND_RV train)
  then have "train_ok train" using assms(1) by simp
  note train = train_number [OF this]
  have "tells server [log_text (hd (echo_text t c))] (print_debugf fp server (''REVERSE %d'' @ crlf) [vint (supported_trains ! nat train)])"
    using COMMAND_RV short_int train(2) decimal_length [OF train(2)] by (intro tells_format assms(3)) (simp_all add: lit_def gives_intros train_name_def)
  then show ?thesis by (rule tells_eq) (simp_all add: COMMAND_RV train(1))
next
  case COMMAND_Q
  show ?thesis by (rule tells_eq [OF tells_literal [OF assms(3), of "''QUIT''" fp]]) (auto simp: COMMAND_Q)
next
  case (COMMAND_GT train dest offset)
  have "tells server [log_text (go_to_text t train dest offset)] (go_to_echo fp server t train dest offset)"
    using assms COMMAND_GT by (intro go_to_tells) auto
  then show ?thesis by (rule tells_eq) (simp_all add: COMMAND_GT)
next
  case (COMMAND_REG train source)
  then have args: "train_ok train" "named t source" using assms(1,2) by auto
  note train = train_number [OF args(1)] and node = node_name_ok [OF args(2)]
  have "tells server [log_text (hd (echo_text t c))]
      (print_debugf fp server (''Reg train %d at %s '' @ crlf) [vint (supported_trains ! nat train), VString (lit (node_name t source))])"
    using COMMAND_REG node short_int train(2) decimal_length [OF train(2)]
    by (intro tells_format assms(3)) (simp_all add: lit_def gives_intros gives_lit [unfolded lit_def] train_name_def)
  then show ?thesis by (rule tells_eq) (simp_all add: COMMAND_REG train(1) node(1))
next
  case (COMMAND_MOCK sensor)
  then have "named t sensor" using assms(2) by simp
  note node = node_name_ok [OF this]
  have "tells server [log_text (hd (echo_text t c))] (print_debugf fp server (''Mocking Sensor Trigger [%s] '' @ crlf) [VString (lit (node_name t sensor))])"
    using COMMAND_MOCK node by (intro tells_format assms(3)) (simp_all add: lit_def gives_intros gives_lit [unfolded lit_def])
  then show ?thesis by (rule tells_eq) (simp_all add: COMMAND_MOCK node(1))
next
  case (COMMAND_RANDOM train type)
  then have args: "short type" "short train" using assms(1) train_number(3) by (auto simp: short_def)
  have "gives fp ('' with %d, fingers crossed'' @ crlf @ [NUL]) [vint train] ('' with '' @ decimal train @ '', fingers crossed'' @ crlf)"
    using short_int [OF args(2)] by (simp add: gives_intros)
  from gives_literal [OF _ _ gives_vint [OF short_int [OF args(1)] this], of "''Starting random pathfinding ''"]
  have "gives fp (lit (''Starting random pathfinding %d with %d, fingers crossed'' @ crlf)) [vint type, vint train] (hd (echo_text t c))"
    by (simp add: COMMAND_RANDOM lit_def)
  then have "tells server [log_text (hd (echo_text t c))]
      (print_debugf fp server (''Starting random pathfinding %d with %d, fingers crossed'' @ crlf) [vint type, vint train])"
    using COMMAND_RANDOM decimal_length [OF args(1)] decimal_length [OF args(2)] by (intro tells_format assms(3)) simp_all
  then show ?thesis by (rule tells_eq) (simp_all add: COMMAND_RANDOM)
qed (simp add: tells_def)

text \<open>The messages among what is sent.\<close>

fun acts_text :: "track_node list \<Rightarrow> shell_act list \<Rightarrow> string list" where
  "acts_text t [] = []"
| "acts_text t (Shell_Debug msg # acts) = msg # acts_text t acts"
| "acts_text t (Shell_Navigation (NAVIGATION_REQUEST train dest offset hang) # acts) =
     (case acts of Shell_Debug _ # _ \<Rightarrow> acts_text t acts | _ \<Rightarrow> go_to_text t train dest offset # acts_text t acts)"
| "acts_text t (_ # acts) = acts_text t acts"

fun act_drawable :: "track_node list \<Rightarrow> shell_act \<Rightarrow> bool" where
  "act_drawable t (Shell_Debug msg) \<longleftrightarrow> NUL \<notin> set msg"
| "act_drawable t (Shell_Navigation (NAVIGATION_REQUEST train dest offset hang)) \<longleftrightarrow> train_ok train \<and> named t dest \<and> short offset"
| "act_drawable t _ \<longleftrightarrow> True"

lemma acts_tells:
  assumes "list_all (act_drawable t) acts" "0 \<le> server"
  shows "tells server (map log_text (acts_text t acts)) (print_acts fp server t acts)"
  using assms(1)
proof (induction acts)
  case Nil
  then show ?case by (simp add: tells_def)
next
  case (Cons a acts)
  then have rest: "tells server (map log_text (acts_text t acts)) (print_acts fp server t acts)" by simp
  show ?case
  proof (cases "(t, a)" rule: act_drawable.cases)
    case (1 _ msg)
    then have "NUL \<notin> set msg" using Cons.prems by simp
    from tells_bind [OF tells_literal [OF assms(2) this, of fp] rest] show ?thesis
      by (rule tells_eq) (use 1 in \<open>auto simp: cbind_assoc\<close>)
  next
    case (2 _ train dest offset hang)
    show ?thesis
    proof (cases "\<exists>msg acts'. acts = Shell_Debug msg # acts'")
      case True
      show ?thesis by (rule tells_eq [OF rest]) (use 2 True in auto)
    next
      case False
      have "tells server [log_text (go_to_text t train dest offset)] (go_to_echo fp server t train dest offset)"
        using 2 Cons.prems assms(2) by (intro go_to_tells) simp_all
      from tells_bind [OF this rest] show ?thesis
        by (rule tells_eq) (use 2 False in \<open>auto split: list.splits shell_act.splits\<close>)
    qed
  qed (rule tells_eq [OF rest]; simp)+
qed

subsection \<open>What is queued can be shown\<close>

definition names_short :: "track_node list \<Rightarrow> nat \<Rightarrow> bool" where
  "names_short t m \<longleftrightarrow> (\<forall>i < m. length (the (n_name (t ! i))) \<le> 5)"

lemma lookup_named:
  assumes "names_ok t m" "names_short t m" "NUL \<notin> set s" "track_name_to_num t (lit s) = Inr d" "\<not> d < 0"
  shows "named t d"
proof -
  have index: "named t (int i)" if "i < m" for i
    using that names_okD(1,3) [OF assms(1)] names_okD(4) [OF assms(1) that] assms(2) by (auto simp: named_def names_short_def)
  consider (empty) "s = []" | (known) i where "i < m" "n_name (t ! i) = Some s" | (unknown) "s \<noteq> []" "\<forall>j < m. n_name (t ! j) \<noteq> Some s" by blast
  then show ?thesis
  proof cases
    case empty
    then have "d = 0" using track_name_to_num_empty [OF assms(1), of "lit s"] assms(3,4) by simp
    then show ?thesis using index [of 0] names_okD(2) [OF assms(1)] by simp
  next
    case (known i)
    then have "d = int i" using track_name_to_num_ok [OF assms(1), of "lit s" i] assms(3,4) by simp
    then show ?thesis using index [OF known(1)] by simp
  next
    case unknown
    then show ?thesis using track_name_to_num_unknown [OF assms(1), of "lit s"] assms(3-5) by (simp split: if_splits)
  qed
qed

lemma atoi_short:
  assumes "NUL \<notin> set w" "length w \<le> 7" "atoi (lit w) = Inr n"
  shows "short n"
proof -
  obtain k neg where "atoi_loop (lit w) 0 0 False = Inr (k, neg)" "\<bar>k\<bar> \<le> 23 * (10 ^ 7 - 1)"
    using atoi_loop_bound [of "lit w" 0 0 0 False] assms by auto
  then show ?thesis using assms(3) by (auto simp: atoi_def cint_def short_def split: if_splits)
qed

fun verdict_drawable :: "track_node list \<Rightarrow> verdict \<Rightarrow> bool" where
  "verdict_drawable t (Queue c) \<longleftrightarrow> drawable t c"
| "verdict_drawable t (Rejected why) \<longleftrightarrow> NUL \<notin> set why"
| "verdict_drawable t _ \<longleftrightarrow> True"

lemma parse_drawable:
  assumes names: "names_ok t m" "names_short t m" and ws: "\<forall>i. NUL \<notin> set (word ws i)" and safe: "safe_line t m ws"
    and run: "parse_command t (\<lambda>i. lit (word ws i)) = Inr v"
  shows "verdict_drawable t v"
proof -
  let ?tok = "\<lambda>i. lit (word ws i)"
  have node: "named t d" if "track_name_to_num t (?tok i) = Inr d" "\<not> d < 0" for i d
    using lookup_named [OF names _ that] ws by blast
  have number: "short n" if "atoi (?tok i) = Inr n" "0 < i" for i n
    using atoi_short [OF _ _ that(1)] ws safe that(2) unfolding safe_line_def by blast
  have gt: "verdict_drawable t v" if "parse_gt t ?tok = Inr v"
    using that node number by (auto simp: parse_gt_def c_simps split: if_splits)
  have reg: "verdict_drawable t v" if "parse_reg t ?tok = Inr v"
    using that node by (auto simp: parse_reg_def c_simps split: if_splits)
  have mock: "verdict_drawable t v" if "parse_mock t ?tok = Inr v"
    using that node by (auto simp: parse_mock_def c_simps rdi_def split: if_splits)
  have rest: "verdict_drawable t v" if "parse_tr ?tok = Inr v \<or> parse_sw ?tok = Inr v \<or> parse_rv ?tok = Inr v \<or> parse_random ?tok = Inr v"
    using that by (auto simp: parse_tr_def parse_sw_def parse_rv_def parse_random_def c_simps split: if_splits)
  obtain w where "parse_word t w ?tok = Inr v" using run by (auto simp: parse_command_def c_simps)
  then show ?thesis
    using gt reg mock rest unfolding parse_word_def by (auto split: if_splits)
qed

text \<open>The queue and what comes of it.\<close>

lemma exec_drawable:
  assumes "command_ok c" "drawable t c" "exec_command t now res speeds c = Inr (speeds', acts)"
  shows "list_all (act_drawable t) acts"
  using assms by (cases c) (auto simp: c_simps navigation_message_def split: navigation_response.splits if_splits)

lemma run_drawable:
  "list_all (\<lambda>c. command_ok c \<and> drawable t c) cs \<Longrightarrow> run_commands t clock nav k speeds cs = Inr (speeds', acts) \<Longrightarrow> list_all (act_drawable t) acts"
proof (induction cs arbitrary: k speeds acts)
  case (Cons c cs)
  then obtain speeds1 acts1 acts2 where "exec_command t (clock k) (nav k) speeds c = Inr (speeds1, acts1)"
      "run_commands t clock nav (k + 1) speeds1 cs = Inr (speeds', acts2)" "acts = acts1 @ acts2"
    by (auto simp: c_simps)
  then show ?case using Cons.prems(1) Cons.IH exec_drawable [of c t] by auto
qed simp

definition queue_drawable :: "track_node list \<Rightarrow> shell \<Rightarrow> bool" where
  "queue_drawable t st \<longleftrightarrow> list_all (drawable t) (cb_items (sh_commands st))"

lemma finish_drawable:
  assumes "shell_core st" "length t = TRACK_MAX" "queue_drawable t st" "finish_line t clock nav st acts = Inr (st', acts')"
  shows "queue_drawable t st'" "list_all (act_drawable t) acts \<Longrightarrow> list_all (act_drawable t) acts'"
proof -
  obtain speeds acts1 cb where f:
    "if sh_planning st then acts1 = [] \<and> speeds = sh_prev_speed st \<and> cb = sh_commands st
      else run_commands t clock nav 0 (sh_prev_speed st) (cb_items (sh_commands st)) = Inr (speeds, acts1) \<and> cb_items cb = []"
    "st' = st\<lparr> sh_input := replicate TERMINALMAXINPUTSIZE NUL, sh_commands := cb, sh_prev_speed := speeds \<rparr>" "acts' = acts @ acts1"
    using finish_line_ok [OF assms(1,2), of clock nav acts] assms(4) by auto
  have queue: "list_all (\<lambda>c. command_ok c \<and> drawable t c) (cb_items (sh_commands st))"
    using assms(1,3) by (simp add: shell_core_def queue_drawable_def list_all_iff)
  show "queue_drawable t st'" using f(1,2) assms(3) by (auto simp: queue_drawable_def split: if_splits)
  show "list_all (act_drawable t) acts \<Longrightarrow> list_all (act_drawable t) acts'"
    using f(1,3) run_drawable [OF queue] by (auto split: if_splits)
qed

lemma obey_drawable:
  assumes "shell_inv st" "verdict_ok v" "verdict_drawable t v" "length t = TRACK_MAX" "queue_drawable t st"
    and run: "obey t clock nav v st = Inr (st', acts)"
  shows "queue_drawable t st' \<and> list_all (act_drawable t) acts"
proof (cases v)
  case Plan
  then show ?thesis using run assms(5) by (auto simp: obey_def queue_drawable_def split: if_splits)
next
  case Doneplan
  show ?thesis
  proof (cases "sh_planning st")
    case True
    have "shell_core (st\<lparr> sh_planning := False \<rparr>)" "queue_drawable t (st\<lparr> sh_planning := False \<rparr>)"
      using assms(1,5) by (simp_all add: shell_inv_def shell_core_def queue_drawable_def)
    from finish_drawable [OF this(1) assms(4) this(2)] show ?thesis using run Doneplan True by (simp add: obey_def)
  next
    case False
    then show ?thesis using run Doneplan assms(5) by (auto simp: obey_def)
  qed
next
  case (Queue c)
  have "shell_core st" "command_ok c" using assms(1,2) Queue by (simp_all add: shell_inv_def)
  from push_command_core [OF this]
  obtain cb status where cb: "cb_push_back (sh_commands st) c False = Inr (cb, status)"
    "cb_items cb = (if length (cb_items (sh_commands st)) < MAX_PLANNED_COMMANDS then cb_items (sh_commands st) @ [c] else cb_items (sh_commands st))"
    "shell_core (st\<lparr> sh_commands := cb \<rparr>)"
    by blast
  have "queue_drawable t (st\<lparr> sh_commands := cb \<rparr>)" using cb(2) assms(3,5) Queue by (simp add: queue_drawable_def)
  from finish_drawable [OF cb(3) assms(4) this] show ?thesis using run Queue cb(1) by (simp add: obey_def)
next
  case (Rejected why)
  then show ?thesis using run assms(3,5) by (auto simp: obey_def)
next
  case Unknown
  then show ?thesis using run assms(1) finish_drawable [OF _ assms(4,5)] by (simp add: obey_def shell_inv_def)
qed

lemma finish_line_len: "finish_line t clock nav st acts = Inr (st', acts') \<Longrightarrow> sh_len st' = sh_len st"
proof -
  have flush: "flush_commands t clock nav k st = Inr (st', acts') \<Longrightarrow> sh_len st' = sh_len st" for k st st' acts'
  proof (induction t clock nav k st arbitrary: st' acts' rule: flush_commands.induct)
    case (1 t clock nav k st)
    show ?case
      using "1.prems" "1.IH" by (subst (asm) flush_commands.simps) (fastforce simp: c_simps split: if_splits prod.splits)
  qed
  show "finish_line t clock nav st acts = Inr (st', acts') \<Longrightarrow> sh_len st' = sh_len st"
    by (auto simp: finish_line_def c_simps intro: flush split: if_splits)
qed

lemma obey_len: "obey t clock nav v st = Inr (st', acts) \<Longrightarrow> sh_len st' = sh_len st"
  by (auto simp: obey_def c_simps dest!: finish_line_len split: verdict.splits if_splits prod.splits)

subsection \<open>A turn\<close>

definition verdict_text :: "track_node list \<Rightarrow> verdict \<Rightarrow> string list" where
  "verdict_text t v = (case v of Queue c \<Rightarrow> echo_text t c | _ \<Rightarrow> [])"

lemma verdict_tells:
  assumes "verdict_ok v" "verdict_drawable t v" "0 \<le> server"
  shows "tells server (map log_text (verdict_text t v)) (print_verdict fp server t v)"
proof (cases v)
  case (Queue c)
  have "tells server (map log_text (echo_text t c)) (print_echo fp server t c)" using assms Queue by (intro echo_tells) simp_all
  then show ?thesis by (rule tells_eq) (simp_all add: Queue verdict_text_def print_verdict_def)
qed (simp_all add: verdict_text_def print_verdict_def tells_def)

text \<open>The texts of a turn: the message that was there goes, the line is drawn if it has changed, then come the new messages.\<close>

definition turn_texts :: "char \<Rightarrow> shell \<Rightarrow> shell \<Rightarrow> string list \<Rightarrow> string list" where
  "turn_texts c st st' msgs =
     log_text [] # (if key_drawn c st then [input_text (take (sh_len st') (sh_input st'))] else []) @ map log_text msgs"

lemma debug_cleared: "0 \<le> server \<Longrightarrow> print_debug fp server (lit '''') con = Inr (shown server [log_text []] con)"
  using shows_shown [OF print_debug_shows [OF terminated_lit, of server "[]" fp], of con] by simp

lemma line_drawn:
  assumes "n \<le> length line" "0 \<le> server"
  shows "(if b then print_input fp server line n con else Inr con) = Inr (shown server (if b then [input_text (take n line)] else []) con)"
  using shows_shown [OF print_input_shows [OF assms, of fp], of con] by simp

lemma turn_key:
  assumes "shell_inv st" "0 \<le> server" "length buf = 100"
    and key: "handle_new_char c st (replicate MAX_COMMAND_TOKENS None) = Inr (False, st', tokens)"
    and inv: "shell_inv st'"
  shows "shell_turn fp server t clock nav c st (buf, con) = Inr (st', [], buf, shown server (turn_texts c st st' []) con)"
proof -
  have "sh_len st' \<le> length (sh_input st')" using inv by (simp add: shell_inv_def shell_core_def)
  from line_drawn [OF this assms(2), of "key_drawn c st" fp "shown server [log_text []] con"] show ?thesis
    using key debug_cleared [OF assms(2), of fp con] by (cases "key_drawn c st") (simp_all add: shell_turn_def shown_append turn_texts_def)
qed

lemma turn_enter:
  assumes names: "names_ok t m" "names_short t m" and inv: "shell_inv st" and queue: "queue_drawable t st" and server: "0 \<le> server"
    and len: "length buf = 100" and few: "sh_len st < TERMINALMAXINPUTSIZE" and safe: "safe_line t m (words_of (cstr (sh_input st)))"
  shows "\<exists>st' acts buf' v. parse_command t (\<lambda>i. lit (word (words_of (cstr (sh_input st))) i)) = Inr v \<and>
    shell_turn fp server t clock nav (CHR 0x0D) st (buf, con) =
      Inr (st', acts, buf', shown server (turn_texts (CHR 0x0D) st st' (verdict_text t v @ acts_text t acts)) con) \<and>
    shell_step t clock nav (CHR 0x0D) st = Inr (st', acts) \<and> length buf' = 100 \<and> shell_inv st' \<and> queue_drawable t st'"
proof -
  from enter_ok [OF names(1) inv few safe]
  obtain st1 tokens v where key: "handle_new_char (CHR 0x0D) st (replicate MAX_COMMAND_TOKENS None) = Inr (True, st1, tokens)"
    and parse: "parse_command t (token (sh_input st1) tokens) = Inr v" "parse_command t (\<lambda>i. lit (word (words_of (cstr (sh_input st))) i)) = Inr v"
    and v: "verdict_ok v" and st1: "shell_inv st1" "sh_len st1 = 0" "sh_commands st1 = sh_commands st" .
  have t: "length t = TRACK_MAX" by (rule names_okD(1) [OF names(1)])
  have words: "\<forall>i. NUL \<notin> set (word (words_of (cstr (sh_input st))) i)" using word_NUL by simp
  have drawable: "verdict_drawable t v" by (rule parse_drawable [OF names words safe parse(2)])
  obtain st' acts where obey: "obey t clock nav v st1 = Inr (st', acts)" "shell_inv st'" using obey_ok [OF st1(1) v t] by blast
  have queue1: "queue_drawable t st1" using queue st1(3) by (simp add: queue_drawable_def)
  have after: "queue_drawable t st'" "list_all (act_drawable t) acts"
    using obey_drawable [OF st1(1) v drawable t queue1 obey(1)] by simp_all
  have len': "sh_len st' = 0" using obey_len [OF obey(1)] st1(2) by simp
  let ?con = "shown server (log_text [] # (if key_drawn (CHR 0x0D) st then [input_text []] else [])) con"
  obtain buf1 where echo: "length buf1 = 100" "print_verdict fp server t v (buf, ?con) = Inr (buf1, shown server (map log_text (verdict_text t v)) ?con)"
    using verdict_tells [OF v drawable server, of fp] len unfolding tells_def by blast
  obtain buf' where msgs: "length buf' = 100"
    "print_acts fp server t acts (buf1, shown server (map log_text (verdict_text t v)) ?con) =
      Inr (buf', shown server (map log_text (acts_text t acts)) (shown server (map log_text (verdict_text t v)) ?con))"
    using acts_tells [OF after(2) server, of fp] echo(1) unfolding tells_def by blast
  have "shell_turn fp server t clock nav (CHR 0x0D) st (buf, con) =
      Inr (st', acts, buf', shown server (turn_texts (CHR 0x0D) st st' (verdict_text t v @ acts_text t acts)) con)"
    using key parse(1) obey(1) debug_cleared [OF server, of fp con] line_drawn [of 0 "sh_input st1", OF _ server, of "key_drawn (CHR 0x0D) st" fp "shown server [log_text []] con"]
      st1(2) echo(2) msgs(2) len'
    by (cases "key_drawn (CHR 0x0D) st") (simp_all add: shell_turn_def shown_append turn_texts_def)
  moreover have "shell_step t clock nav (CHR 0x0D) st = Inr (st', acts)" using key parse(1) obey(1) by (simp add: shell_step_def)
  ultimately show ?thesis using parse(2) obey(2) after(1) msgs(1) by blast
qed

lemma handle_key:
  assumes "shell_inv st" "c \<noteq> CHR 0x0D \<or> sh_len st = TERMINALMAXINPUTSIZE"
  obtains st' tokens where "handle_new_char c st (replicate MAX_COMMAND_TOKENS None) = Inr (False, st', tokens)" "shell_inv st'"
    "sh_commands st' = sh_commands st"
proof -
  have "length (sh_input st) = 20" "sh_len st \<le> 20" using assms(1) by (simp_all add: shell_inv_def shell_core_def TERMINALMAXINPUTSIZE_def)
  then have "\<exists>st' tokens. handle_new_char c st (replicate MAX_COMMAND_TOKENS None) = Inr (False, st', tokens) \<and> shell_inv st' \<and>
      sh_commands st' = sh_commands st"
    using assms by (auto simp: handle_new_char_def shell_inv_def shell_core_def TERMINALMAXINPUTSIZE_def nth_list_update)
  then show ?thesis using that by blast
qed

lemma names_short_boot: "names_short tracka_boot 144" "names_short trackb_boot 140"
proof -
  have len: "length init_tracka = 144" "length init_trackb = 144"
    using names_okD(1) [OF names_tracka] names_okD(1) [OF names_trackb] by (simp_all add: TRACK_MAX_def)
  have "list_all (\<lambda>p. length (the p) \<le> 5) (map n_name init_tracka)" by (simp add: init_tracka_rows)
  then have a: "\<forall>i < 144. length (the (n_name (init_tracka ! i))) \<le> 5" using len(1) by (simp add: list_all_length)
  have "list_all (\<lambda>p. length (the p) \<le> 5) (take 140 (map n_name init_trackb))" by (simp add: init_trackb_rows)
  then have b: "\<forall>i < 140. length (the (n_name (init_trackb ! i))) \<le> 5" using len(2) by (simp add: list_all_length)
  have "map n_name tracka_boot ! i = map n_name init_tracka ! i" "map n_name trackb_boot ! i = map n_name init_trackb ! i" for i
    by (simp_all only: tracka_boot_def trackb_boot_def names_set_dist)
  moreover have "length tracka_boot = 144" "length trackb_boot = 144"
    using names_okD(1) [OF names_boot(1)] names_okD(1) [OF names_boot(2)] by (simp_all add: TRACK_MAX_def)
  ultimately have "n_name (tracka_boot ! i) = n_name (init_tracka ! i)" "n_name (trackb_boot ! i) = n_name (init_trackb ! i)" if "i < 144" for i
    using that len by (metis nth_map)+
  then show "names_short tracka_boot 144" "names_short trackb_boot 140" using a b by (simp_all add: names_short_def)
qed

text \<open>
  C34: The user sees what the shell does. With every key, in every state the shell can be in, it clears the old message, draws the line as it is after
  the key if the key has changed it, and after Enter on a harmless line shows the command it has taken and then, for each request to drive it
  sends, the refusal of the navigation server or the request itself. Every text goes to the terminal in one piece, and
  none overruns \<open>debug_buffer\<close>. What the shell sends is what it sends without its drawing.
\<close>

theorem shell_turn_shows:
  assumes "names_ok t m" "names_short t m" "shell_inv st" "queue_drawable t st" "0 \<le> server" "length buf = 100"
    and "c = CHR 0x0D \<and> sh_len st < TERMINALMAXINPUTSIZE \<Longrightarrow> safe_line t m (words_of (cstr (sh_input st)))"
  shows "\<exists>st' acts buf' msgs.
    shell_turn fp server t clock nav c st (buf, con) = Inr (st', acts, buf', shown server (turn_texts c st st' msgs) con) \<and>
    shell_step t clock nav c st = Inr (st', acts) \<and> length buf' = 100 \<and> shell_inv st' \<and> queue_drawable t st' \<and>
    (if c = CHR 0x0D \<and> sh_len st < TERMINALMAXINPUTSIZE
     then \<exists>v. parse_command t (\<lambda>i. lit (word (words_of (cstr (sh_input st))) i)) = Inr v \<and> msgs = verdict_text t v @ acts_text t acts
     else acts = [] \<and> msgs = [])"
proof (cases "c = CHR 0x0D \<and> sh_len st < TERMINALMAXINPUTSIZE")
  case True
  then show ?thesis using turn_enter [OF assms(1-6) _ assms(7), of fp clock nav con] by auto
next
  case False
  then have "c \<noteq> CHR 0x0D \<or> sh_len st = TERMINALMAXINPUTSIZE" using assms(3) by (auto simp: shell_inv_def shell_core_def)
  from handle_key [OF assms(3) this]
  obtain st' tokens where key: "handle_new_char c st (replicate MAX_COMMAND_TOKENS None) = Inr (False, st', tokens)" "shell_inv st'"
    "sh_commands st' = sh_commands st" .
  have "shell_turn fp server t clock nav c st (buf, con) = Inr (st', [], buf, shown server (turn_texts c st st' []) con)"
    by (rule turn_key [OF assms(3,5,6) key(1,2)])
  moreover have "shell_step t clock nav c st = Inr (st', [])" using key(1) by (simp add: shell_step_def)
  moreover have "queue_drawable t st'" using key(3) assms(4) by (simp add: queue_drawable_def)
  ultimately show ?thesis using False key(2) assms(6) by auto
qed

theorem shell_turn_shows_witness:
  "\<exists>st' acts buf'. shell_turn thousandths 4 tracka_boot (\<lambda>k. 5) (\<lambda>k. NAVIGATIONSERVER_GOOD) (CHR 0x0D)
      (shell_start\<lparr> sh_input := ''gt 24 A3 -20'' @ replicate 8 NUL, sh_len := 12 \<rparr>) (replicate 100 NUL, \<lparr> con_uart = -1, con_acts = [] \<rparr>) =
    Inr (st', acts, buf', shown 4 (turn_texts (CHR 0x0D) (shell_start\<lparr> sh_input := ''gt 24 A3 -20'' @ replicate 8 NUL, sh_len := 12 \<rparr>) st' ((''Train 24 go to A3 + -20'' @ crlf) # acts_text tracka_boot acts))
      \<lparr> con_uart = -1, con_acts = [] \<rparr>)"
proof -
  let ?st = "shell_start\<lparr> sh_input := ''gt 24 A3 -20'' @ replicate 8 NUL, sh_len := 12 \<rparr>"
  let ?c = "COMMAND_GT 1 2 (-20)"
  have inv: "shell_inv ?st" using shell_start_inv by (simp add: shell_inv_def shell_core_def TERMINALMAXINPUTSIZE_def)
  have queue: "queue_drawable tracka_boot ?st"
    by (simp add: queue_drawable_def shell_start_def MAX_PLANNED_COMMANDS_def cb_init_items)
  have name: "node_name tracka_boot 2 = ''A3''" by (simp add: node_name_def tracka_boot_def init_tracka_nth nth_set_dist)
  have digits: "digits 24 = ''24''" "digits 20 = ''20''" by code_simp+
  have ws: "words_of (cstr (sh_input ?st)) = command_words tracka_boot ?c"
    by (simp add: cstr_def train_name_def supported_trains_def decimal_def digits name)
  have v: "parse_command tracka_boot (\<lambda>i. lit (word (words_of (cstr (sh_input ?st))) i)) = Inr (Queue ?c)"
    unfolding ws by (rule parse_command_words [OF names_boot(1)]) (simp_all add: train_ok_def MAX_NUM_TRAINS_def TRACK_MAX_def)
  have safe: "safe_line tracka_boot 144 (words_of (cstr (sh_input ?st)))"
    unfolding ws by (auto simp: safe_line_def MAX_COMMAND_TOKENS_def word_def less_Suc_eq nth_Cons train_name_def supported_trains_def decimal_def digits
        name TRACK_MAX_def split: nat.splits)
  from shell_turn_shows [OF names_boot(1) names_short_boot(1) inv queue _ _ safe, where server = 4 and buf = "replicate 100 NUL" and
      c = "CHR 0x0D" and fp = "thousandths" and clock = "\<lambda>k. 5" and nav = "\<lambda>k. NAVIGATIONSERVER_GOOD" and con = "\<lparr> con_uart = -1, con_acts = [] \<rparr>"]
  show ?thesis using v
    by (auto simp: TERMINALMAXINPUTSIZE_def verdict_text_def go_to_text_def train_name_def supported_trains_def decimal_def digits name)
qed

end
