(* ===== verification/Assertion.thy ===== *)
theory Assertion
  imports Screen_Properties
begin

section \<open>A failed assertion, and output that waits for the line (src/common/my_assert.c, src/hal/ts7200.c)\<close>

text \<open>
  In the other theories a failed \<open>KASSERT\<close> is the fault \<open>Assert_Failed\<close>: the code never comes back from it. Here is what it does first. The \<open>bw_\<close>
  functions wait in a loop; what the devices show in each turn of it is their argument, and \<open>None\<close> means that they have waited through all of it.
\<close>

fun bw_uart_put_char :: "int \<Rightarrow> 8 word \<Rightarrow> devices list \<Rightarrow> devices option cres" where
  "bw_uart_put_char channel c [] = Inr None"
| "bw_uart_put_char channel c (d # ds) =
     cbind (uart_can_write channel d) (\<lambda>ready.
       if ready then cbind (uart_put_char channel c d) (\<lambda>d'. Inr (Some d')) else bw_uart_put_char channel c ds)"

fun bw_uart_get_char :: "int \<Rightarrow> devices list \<Rightarrow> 8 word option cres" where
  "bw_uart_get_char channel [] = Inr None"
| "bw_uart_get_char channel (d # ds) =
     cbind (uart_can_read channel d) (\<lambda>ready.
       if ready then cbind (uart_get_char channel d) (\<lambda>c. Inr (Some c)) else bw_uart_get_char channel ds)"

text \<open>The loop ends in the first turn in which the line is ready, and with the character written to it.\<close>

lemma bw_uart_put_char_ready:
  assumes "get_base_addr channel = Inr base"
  shows "bw_uart_put_char channel c ds =
    Inr (case filter (\<lambda>d. d (base + UART_FLAG_OFFSET) AND TXFF_MASK = 0) ds of [] \<Rightarrow> None | d # _ \<Rightarrow> Some (d(base + UART_DATA_OFFSET := ucast c)))"
  by (induction ds) (simp_all add: uart_can_write_def uart_put_char_def assms)

lemma bw_uart_get_char_ready:
  assumes "get_base_addr channel = Inr base"
  shows "bw_uart_get_char channel ds =
    Inr (case filter (\<lambda>d. d (base + UART_FLAG_OFFSET) AND RXFE_MASK = 0) ds of [] \<Rightarrow> None | d # _ \<Rightarrow> Some (ucast (d (base + UART_DATA_OFFSET))))"
  by (induction ds) (simp_all add: uart_can_read_def uart_get_char_def assms)

subsection \<open>The end of the program\<close>

text \<open>The train, the cause, and the line below it.\<close>

definition assert_train :: "string list" where
  "assert_train =
     [''                  _-====-__-======-__-========-_____-============-__'',
      ''               _(                                                   _)'',
      ''            OO(             UH OH! FAILED ASSERTION !!!!!             )_'',
      ''           0  (_              SAD CHOO CHOO NOISES   ):             _)'',
      ''         o0     (_                                                _)'',
      ''        o         '=-___-===-_____-========-___________-===-==0-='' @ [CHR 0x27],
      ''      .o                                _________'',
      ''     . ______          ______________  |         |      _____'',
      ''   _()_||__|| ________ |            |  |_________|   __||___||__'',
      ''  ( CS 452  | |      | |            | __Y______00_| |_         _|'',
      '' /-OO----OO\"\"=\"OO--OO\"=\"OO--------OO\"=\"OO-------OO\"=\"OO-------OO\"=P'',
      ''#####################################################################'',
      ''                                                                     '']"

definition assert_rule :: "string list" where
  "assert_rule =
     [''                                                                     '',
      ''#####################################################################'']"

text \<open>\<open>assert_thrown\<close>, the devices with all interrupts masked, what is sent to the trains, and the console before the endless loop.\<close>

record panic =
  pn_thrown :: bool
  pn_devices :: devices
  pn_trains :: "8 word list"
  pn_console :: console

definition my_assert :: "'d double_ops \<Rightarrow> int \<Rightarrow> char list \<Rightarrow> devices \<Rightarrow> console \<Rightarrow> panic cres" where
  "my_assert fp server str d con =
     cbind (in_turn
       (map (\<lambda>s. print fp server To_BW_COM2 (lit (s @ crlf)) []) assert_train @
        [print fp server To_BW_COM2 (lit (''Cause: %s'' @ crlf)) [VString str]] @
        map (\<lambda>s. print fp server To_BW_COM2 (lit (s @ crlf)) []) assert_rule) con) (\<lambda>con'.
       Inr \<lparr> pn_thrown = True,
         pn_devices = d(VIC1_BASE + INT_DISABLE_OFFSET := 0xFFFFFFFF, VIC2_BASE + INT_DISABLE_OFFSET := 0xFFFFFFFF),
         pn_trains = [97, 97, 97], pn_console = con' \<rparr>)"

text \<open>A line printed on the waiting channel.\<close>

definition bw_prints :: "string \<Rightarrow> (console \<Rightarrow> console cres) \<Rightarrow> bool" where
  "bw_prints text p \<longleftrightarrow> (\<forall>con. p con = Inr \<lparr> con_uart = -2, con_acts = con_acts con @ map Bw_Put text \<rparr>)"

lemma print_bw_prints:
  assumes "gives fp (lit format) va text" "NUL \<notin> set text"
  shows "bw_prints text (print fp server To_BW_COM2 (lit format) va)"
  by (simp add: bw_prints_def print_def printf_gives [OF assms(1)] filter_no_nul [OF assms(2)] sent_text_def putchar_def comp_def)

lemma bw_prints_in_turn: "list_all2 bw_prints texts ps \<Longrightarrow> ps \<noteq> [] \<Longrightarrow> bw_prints (concat texts) (in_turn ps)"
proof (induction texts ps rule: list_all2_induct)
  case (Cons cs texts p ps)
  then show ?case by (cases "ps = []") (auto simp: bw_prints_def)
qed simp

text \<open>
  A failed assertion masks every interrupt at both controllers, so that the kernel is not entered again, and shows the cause whole: it meets no fault of
  its own, whatever the cause is.
\<close>

lemma my_assert_shows:
  assumes "terminated str"
  shows "my_assert fp server str d con = Inr
    \<lparr> pn_thrown = True, pn_devices = disable_irq d, pn_trains = [97, 97, 97],
      pn_console = \<lparr> con_uart = -2, con_acts = con_acts con @ map Bw_Put (concat (map (\<lambda>s. s @ crlf) (assert_train @ [''Cause: '' @ cstr str] @ assert_rule))) \<rparr> \<rparr>"
proof -
  have line: "bw_prints (s @ crlf) (print fp server To_BW_COM2 (lit (s @ crlf)) [])" if "s \<in> set assert_train \<union> set assert_rule" for s
  proof (rule print_bw_prints)
    have free: "NUL \<notin> set (s @ crlf)" "CHR ''%'' \<notin> set (s @ crlf)" using that by (auto simp: assert_train_def assert_rule_def)
    from gives_literal [OF this gives_end, of fp "[]"] show "gives fp (lit (s @ crlf)) [] (s @ crlf)" by (simp add: lit_def)
    show "NUL \<notin> set (s @ crlf)" by (rule free(1))
  qed
  have "gives fp (lit (''Cause: %s'' @ crlf)) [VString str] (''Cause: '' @ cstr str @ crlf)"
    using gives_string [OF assms, of fp "crlf @ [NUL]" "[]" crlf] by (simp add: lit_def gives_plain gives_end)
  then have cause: "bw_prints ((''Cause: '' @ cstr str) @ crlf) (print fp server To_BW_COM2 (lit (''Cause: %s'' @ crlf)) [VString str])"
    by (intro print_bw_prints) simp_all
  have "list_all2 bw_prints (map (\<lambda>s. s @ crlf) (assert_train @ [''Cause: '' @ cstr str] @ assert_rule))
      (map (\<lambda>s. print fp server To_BW_COM2 (lit (s @ crlf)) []) assert_train @
        [print fp server To_BW_COM2 (lit (''Cause: %s'' @ crlf)) [VString str]] @
        map (\<lambda>s. print fp server To_BW_COM2 (lit (s @ crlf)) []) assert_rule)"
    unfolding map_append using line cause
    by (intro list_all2_appendI) (auto simp: list_all2_conv_all_nth simp del: append_assoc)
  from bw_prints_in_turn [OF this] show ?thesis by (simp add: bw_prints_def my_assert_def disable_irq_def)
qed

end
