(* ===== verification/Spec2Isabelle.thy ===== *)
theory Spec2Isabelle
  imports Circular_Buffer Min_Heap C_String Track_Data Path_Worker Kernel_Properties
    Nameserver Syscall_Stubs Train_Model Clockserver Uartserver Navigation_Properties Navigation_Routes
    Trainserver_Properties Dispatchserver_Properties Straightpathworker_Properties Shell_Properties Kprintf_Doubles Random_Driving
    Printer_Properties Debugprinter_Properties Idle_Properties Terminal Shell_Screen_Properties Assertion
begin

text \<open>
  Verification of The Polling Express: a real-time kernel for the TS-7200 board and, on top of it, the programs that drive
  trains on a model railway. The theories follow the C code under \<open>src/\<close> function by function; this header says what they model
  and what is proved about it.

  \<^bold>\<open>The program.\<close> The kernel (\<open>main.c\<close>, \<open>kernel/task.c\<close>) runs tasks by priority and offers them Create, Send, Receive, Reply,
  AwaitEvent and a few more calls. All the rest are tasks that talk by messages: the name server, the clock server, the servers of the serial
  lines, and the train system. There the shell takes commands; the navigation server asks the pathfinding worker of a train for
  a route, cuts it at its reversals, reserves the track and hands the straight pieces to the straight path worker of the train;
  that worker sets switches and speeds through the train server and follows the train through the dispatch server, which attributes every
  sensor to a train and is fed by couriers from the train server.

  \<^bold>\<open>Conventions.\<close> A C function that can fail an assertion, follow a null pointer, leave an array or overflow an \<open>int\<close> is
  a function into \<open>'a cres\<close> (\<open>Prelude\<close>): \<open>Inl\<close> is the fault, \<open>Inr\<close> the result. Pointers into an array are indices, C strings are lists of characters up to the end of their
  array, \<open>unsigned\<close> arithmetic that can wrap around is on words. A task is a step: from the state of
  the server and a request to the state and the messages it sends. What comes from outside (readings of
  timers, answers of other servers, what a user program did until it trapped) is an argument of the step.

  \<^bold>\<open>The theories, from the bottom up.\<close>
  \<^item> \<open>Prelude\<close>, \<open>Interfaces\<close>: results and array accesses; the locales \<open>bounded_fifo\<close>, \<open>prio_queue\<close> and \<open>slot_table\<close>, the contracts of the data
    structures, with what follows from them once. \<open>Array_Heap\<close>: the locale \<open>heap_order\<close> of binary heaps in an array.
  \<^item> \<open>Circular_Buffer\<close> (\<open>common/circularbuffer.c\<close>), \<open>Min_Heap\<close> (\<open>common/heap.c\<close>), \<open>C_String\<close> (\<open>common/my_string.c\<close>, \<open>my_memory.c\<close>),
    \<open>Hashtable\<close> (\<open>common/hashtable.c\<close>): the library, each with its invariant, and the proof that it provides its contract. \<open>Kprintf\<close>, \<open>Kprintf_Properties\<close>, \<open>Kprintf_Doubles\<close> (\<open>common/kprintf.c\<close>): the
    \<open>printf\<close> family; all its output functions write one text, \<open>%d\<close> is right, and floating point numbers stay in their buffer up to a precision of 41.
  \<^item> \<open>Machine\<close>, \<open>Hal\<close> (\<open>hal/context.c\<close>, \<open>hal/ts7200.c\<close>, \<open>hal/timer.c\<close>): memory, registers, the stack guards and the devices.
  \<^item> \<open>Scheduler\<close> (\<open>kernel/task.c\<close>): descriptors and the ready heap, as a priority queue. \<open>Kernel\<close> (\<open>main.c\<close>): every system call, interrupts, the boot sequence and the loop.
    \<open>Kernel_Inv\<close>, \<open>Kernel_Steps\<close>, \<open>Kernel_Loop\<close>, \<open>Kernel_Boot\<close>, \<open>Messages\<close>, \<open>Kernel_Properties\<close>: the invariant (each task in exactly one
    place), that each handler keeps it, which steps end without a fault, the reachable states by rule induction, the refinement of
    an abstract message passing contract, and what arrives in a message. \<open>Syscall_Stubs\<close> (\<open>kernel/syscall.c\<close>): the user side of the calls.
  \<^item> \<open>Nameserver\<close>, \<open>Clockserver\<close>, \<open>Uartserver\<close> (the files of these names under \<open>user/\<close>): each server as a step with an invariant; the clock server refines
    a sorted list of waiting clients, the line servers keep the characters of each client in order.
  \<^item> \<open>Track_Types\<close>, \<open>Track_A\<close>, \<open>Track_B\<close>, \<open>Track_Data\<close> (\<open>user/track_data.c\<close>, the track part of \<open>user/user.c\<close>): both tables in full, lookup by name, what boot makes of them.
    \<open>Algorithms\<close>, \<open>Shortest_Paths\<close>, \<open>Path_Worker\<close> (\<open>user/algorithms.c\<close>, \<open>user/pathworker.c\<close>): the search, that it finds shortest walks,
    and the path read back.
  \<^item> \<open>Train_Model\<close> (\<open>user/virtual.c\<close>, \<open>magic_numbers.c\<close>, \<open>neutron.c\<close>): train numbers, the integer square root, the plan of a drive in wrapping 32-bit arithmetic.
  \<^item> \<open>Trainserver\<close>, \<open>Dispatchserver\<close> with their \<open>_Properties\<close> (\<open>user/trainserver.c\<close>, \<open>dispatchserver.c\<close>, \<open>sensorcourier.c\<close>, \<open>attributioncourier.c\<close>, the table of subscriptions):
    the train server refines a bag of commands; the dispatch server attributes every sensor to its subscriber.
  \<^item> \<open>Navigation\<close>, \<open>Navigation_Server\<close>, \<open>Navigation_Routes\<close>, \<open>Navigation_Properties\<close> (\<open>user/navigationserver.c\<close>): routes and reservations; track is never
    reserved for two trains. \<open>Straightpathworker\<close> and its \<open>_Properties\<close> (\<open>user/straightpathworker.c\<close>): a round of the worker ends, and the
    switches are set before the train gets there.
  \<^item> \<open>Screen\<close>, \<open>Screen_Properties\<close> (the cursor routines of \<open>common/kprintf.c\<close>, \<open>user/layout.h\<close>), \<open>Printers\<close> (\<open>user/*printer.c\<close>, \<open>user/idle.c\<close>): printing as a computation on a
    console, which records the calls of \<open>Putc\<close> and \<open>ReleaseUartLock\<close>. \<open>Printer_Properties\<close>, \<open>Debugprinter_Properties\<close>, \<open>Idle_Properties\<close>: the sensor table holds the latest
    triggers of each train, the other tables are laid out as written, which messages fit, what the percentage means. \<open>Terminal\<close> joins the printers to the server
    of the line: whatever the order in which the clients are served, each text is on the screen in one piece.
  \<^item> \<open>Shell\<close>, \<open>Shell_Properties\<close> (\<open>user/shell.c\<close>), \<open>Random_Driving\<close> (\<open>user/randomgoto.c\<close>): a key at a time; the types of what is sent, and a round
    trip from commands to lines and back. \<open>Shell_Screen\<close> and its \<open>_Properties\<close>: the same turn with its drawing, which shows the line and what becomes of a command.
    \<open>Assertion\<close>: the output that waits for the line (\<open>bw_\<close> in \<open>hal/ts7200.c\<close>), and what a failed assertion does before its endless loop (\<open>common/my_assert.c\<close>): it masks
    all interrupts and shows the cause.

  \<^bold>\<open>Interfaces.\<close> \<open>bounded_fifo\<close> is interpreted on the circular buffer, \<open>prio_queue\<close> on the heap of \<open>heap.c\<close> and on the ready queue of the kernel, whose heaps
  both rest on \<open>heap_order\<close>, and \<open>slot_table\<close> on the hash table of the name server. The train server uses the operations
  of \<open>Min_Heap\<close> on pointers, the dispatch and the line servers and the shell those of \<open>Circular_Buffer\<close>.

  \<^bold>\<open>Termination and bounds.\<close> Loops are recursive functions with a measure where the code does not recurse on its data: over the free part of an array, the nodes not settled, the
  length of a format. \<open>send_rest\<close> of the straight path worker has fuel, one more than the length of \<open>branches\<close>; the
  property of the worker shows that it is enough, as every turn passes at least one entry. \<open>_ftoa\<close> and \<open>_etoa\<close> call each other; \<open>ftoa\<close> takes the number of calls of \<open>_etoa\<close>, and one is enough
  when scaling a value by its decimal exponent brings it below \<open>PRINTF_MAX_FLOAT\<close> (\<open>one_etoa\<close>). Server loops and the loop of the kernel
  never end in the code: their theorems are about every finite run. The bounds in the theorems are those of the code's
  arrays: 125 tasks, 144 nodes, 160 sensors of a piece, 100 commands, 50 waiting clients, 20 characters of a line; times are below
  \<open>2 ^ 30\<close> ticks (124 days).

  \<^bold>\<open>Not modelled.\<close> The context switch itself and the exception vectors (ARM assembly), and the
  caches have no meaning in terms of the C program's data. The arithmetic of \<open>double\<close> is an argument of \<open>printf\<close> (the record \<open>double_ops\<close>): the processor has
  none, its functions come with the compiler, and what is proved holds for every such arithmetic.
  The tests under \<open>src/tests\<close> are programs of their own.
\<close>

end
